(* ===== verification/Prelude.thy ===== *)
theory Prelude
  imports Main "HOL-Library.Word" "HOL-Library.Sublist"
begin

text \<open>
  Shared vocabulary of the development: bytes and byte strings, the part of the C++ standard
  library the receiver relies on (searching and cutting of std::string, stream extraction,
  number parsing and printing, big- and little-endian integers), and the lemmas about them
  that the component theories use.
\<close>

named_theorems str_find \<comment> \<open>facts about searching in strings\<close>
named_theorems endian_simps \<comment> \<open>lengths and round trips of the integer encodings\<close>

section \<open>Bytes and strings\<close>

text \<open>
  A std::string is a list of bytes; the model uses Isabelle's \<open>char\<close>, which is an 8-bit
  byte, so that literals read as in the source. A \<open>std::vector<unsigned char>\<close> is a list
  of 8-bit words. The two are related by a bijection, as reinterpret_cast relates them.
\<close>

type_synonym byte = "8 word"
type_synonym bytes = "byte list"
type_synonym u16 = "16 word"
type_synonym u32 = "32 word"
type_synonym u64 = "64 word"

definition byte_of :: "char \<Rightarrow> byte" where
  "byte_of c = word_of_nat (of_char c)"

definition char_of_byte :: "byte \<Rightarrow> char" where
  "char_of_byte b = char_of (unat b)"

definition to_bytes :: "string \<Rightarrow> bytes" where
  "to_bytes s = map byte_of s"

definition of_bytes :: "bytes \<Rightarrow> string" where
  "of_bytes bs = map char_of_byte bs"

lemma of_char_lt_256 [simp]: "(of_char c :: nat) < 256"
proof -
  have "c \<in> range (char_of :: nat \<Rightarrow> char)"
    by (metis char_of_char rangeI)
  then obtain n :: nat where "c = char_of n" by blast
  then show ?thesis by simp
qed

lemma char_of_byte_byte_of [simp]: "char_of_byte (byte_of c) = c"
  by (simp add: char_of_byte_def byte_of_def unat_of_nat)

lemma byte_of_char_of_byte [simp]: "byte_of (char_of_byte b) = b"
proof -
  have "unat b < 256" using unsigned_less [of b] by simp
  then show ?thesis by (simp add: char_of_byte_def byte_of_def)
qed

lemma of_bytes_to_bytes [simp]: "of_bytes (to_bytes s) = s"
  by (simp add: of_bytes_def to_bytes_def comp_def)

lemma to_bytes_of_bytes [simp]: "to_bytes (of_bytes b) = b"
  by (simp add: of_bytes_def to_bytes_def comp_def)

lemma length_to_bytes [simp]: "length (to_bytes s) = length s"
  by (simp add: to_bytes_def)

lemma length_of_bytes [simp]: "length (of_bytes b) = length b"
  by (simp add: of_bytes_def)

lemma to_bytes_Nil_iff [simp]: "to_bytes s = [] \<longleftrightarrow> s = []"
  by (simp add: to_bytes_def)

definition crlf :: string where
  "crlf = [CHR 0x0D, CHR 0x0A]"

definition nl :: char where
  "nl = CHR 0x0A"

definition cr :: char where
  "cr = CHR 0x0D"

definition tab :: char where
  "tab = CHR 0x09"

lemmas ctl_defs = crlf_def nl_def cr_def tab_def

unbundle bit_operations_syntax

section \<open>Searching and cutting\<close>

text \<open>
  \<open>std::string::find(pat, pos)\<close>: the least index at or after \<open>pos\<close> where \<open>pat\<close>
  occurs, \<open>None\<close> for npos. A start past the end never matches, a start at the end only the
  empty pattern.
\<close>

fun find_str :: "'a list \<Rightarrow> 'a list \<Rightarrow> nat option" where
  "find_str pat [] = (if pat = [] then Some 0 else None)"
| "find_str pat (x # xs) =
     (if prefix pat (x # xs) then Some 0 else map_option Suc (find_str pat xs))"

definition find_from :: "'a list \<Rightarrow> 'a list \<Rightarrow> nat \<Rightarrow> nat option" where
  "find_from pat s pos =
     (if pos \<le> length s then map_option (\<lambda>i. pos + i) (find_str pat (drop pos s)) else None)"

text \<open>\<open>find_first_of\<close> with a set of characters (given as a predicate), from \<open>pos\<close>.\<close>

fun find_pred :: "('a \<Rightarrow> bool) \<Rightarrow> 'a list \<Rightarrow> nat option" where
  "find_pred P [] = None"
| "find_pred P (x # xs) = (if P x then Some 0 else map_option Suc (find_pred P xs))"

definition find_pred_from :: "('a \<Rightarrow> bool) \<Rightarrow> 'a list \<Rightarrow> nat \<Rightarrow> nat option" where
  "find_pred_from P s pos = map_option (\<lambda>i. pos + i) (find_pred P (drop pos s))"

text \<open>\<open>substr(pos, n)\<close> for \<open>pos \<le> size()\<close>; \<open>substr(pos)\<close> is \<open>drop pos\<close>.\<close>

definition substr :: "'a list \<Rightarrow> nat \<Rightarrow> nat \<Rightarrow> 'a list" where
  "substr s pos n = take n (drop pos s)"

definition rfind_char :: "'a \<Rightarrow> 'a list \<Rightarrow> nat option" where
  "rfind_char c s = map_option (\<lambda>i. length s - 1 - i) (find_pred (\<lambda>x. x = c) (rev s))"

lemma prefix_iff_take: "prefix p xs \<longleftrightarrow> take (length p) xs = p"
  by (metis append_eq_conv_conj prefix_def take_is_prefix)

lemma find_str_Some [str_find]:
  "find_str pat s = Some i \<Longrightarrow> i + length pat \<le> length s \<and> take (length pat) (drop i s) = pat"
proof (induction pat s arbitrary: i rule: find_str.induct)
  case (1 pat)
  then show ?case by (auto split: if_splits)
next
  case (2 pat x xs)
  show ?case
  proof (cases "prefix pat (x # xs)")
    case True
    with "2.prems" show ?thesis
      using prefix_length_le [OF True] by (auto simp: prefix_def)
  next
    case False
    with "2.prems" obtain j where "i = Suc j" "find_str pat xs = Some j" by auto
    with "2.IH" [OF False] show ?thesis by simp
  qed
qed

lemma find_str_split:
  assumes "find_str pat s = Some i"
  shows "s = take i s @ pat @ drop (i + length pat) s"
proof -
  have "take (length pat) (drop i s) = pat" using find_str_Some [OF assms] by simp
  then have "drop i s = pat @ drop (length pat) (drop i s)"
    by (metis append_take_drop_id)
  then show ?thesis by (metis append_take_drop_id drop_drop add.commute)
qed

lemma find_str_least:
  "find_str pat s = Some i \<Longrightarrow> j < i \<Longrightarrow> \<not> prefix pat (drop j s)"
proof (induction pat s arbitrary: i j rule: find_str.induct)
  case (1 pat)
  then show ?case by (auto split: if_splits)
next
  case (2 pat x xs)
  then show ?case by (cases j) (auto split: if_splits)
qed

lemma find_str_None: "find_str pat s = None \<longleftrightarrow> (\<forall>j \<le> length s. \<not> prefix pat (drop j s))"
proof (induction pat s rule: find_str.induct)
  case (1 pat)
  then show ?case by simp
next
  case (2 pat x xs)
  show ?case
  proof (cases "prefix pat (x # xs)")
    case True
    then show ?thesis by (auto intro: exI [of _ 0])
  next
    case False
    have "(\<forall>j \<le> Suc (length xs). \<not> prefix pat (drop j (x # xs)))
        \<longleftrightarrow> (\<forall>j \<le> length xs. \<not> prefix pat (drop j xs))"
      using False All_less_Suc2 [of "Suc (length xs)" "\<lambda>j. \<not> prefix pat (drop j (x # xs))"]
      by (simp add: less_Suc_eq_le)
    with False "2.IH" show ?thesis by simp
  qed
qed

lemma find_strI:
  assumes "prefix pat (drop i s)" and "i \<le> length s"
    and "\<And>j. j < i \<Longrightarrow> \<not> prefix pat (drop j s)"
  shows "find_str pat s = Some i"
proof (cases "find_str pat s")
  case None
  with assms(1,2) show ?thesis by (auto simp: find_str_None)
next
  case (Some k)
  have "prefix pat (drop k s)"
    using find_str_Some [OF Some] by (metis take_is_prefix)
  moreover have "\<not> k < i" using assms(3) calculation by blast
  moreover have "\<not> i < k" using find_str_least [OF Some] assms(1) by blast
  ultimately show ?thesis using Some by simp
qed

text \<open>The least occurrence in a prefix of the string is the least occurrence in the string.\<close>

lemma find_str_append:
  assumes "find_str pat s = Some i"
  shows "find_str pat (s @ t) = Some i"
proof (rule find_strI)
  note f = find_str_Some [OF assms]
  have "drop i (s @ t) = drop i s @ t" using f by simp
  then show "prefix pat (drop i (s @ t))"
    using f by (metis prefix_prefix take_is_prefix)
  show "i \<le> length (s @ t)" using f by simp
  fix j assume "j < i"
  then have "\<not> prefix pat (drop j s)" by (rule find_str_least [OF assms])
  moreover have "length pat \<le> length (drop j s)"
    using f [THEN conjunct1] \<open>j < i\<close> by simp
  ultimately show "\<not> prefix pat (drop j (s @ t))"
    using f [THEN conjunct1] \<open>j < i\<close> by (simp add: prefix_iff_take)
qed

lemma find_str_in_prefix:
  assumes "find_str pat (s @ t) = Some i" and "i + length pat \<le> length s"
  shows "find_str pat s = Some i"
proof (rule find_strI)
  have "take (length pat) (drop i (s @ t)) = pat" using find_str_Some [OF assms(1)] by simp
  then have "take (length pat) (drop i s) = pat" using assms(2) by simp
  then show "prefix pat (drop i s)" by (metis take_is_prefix)
  show "i \<le> length s" using assms(2) by simp
  fix j assume "j < i"
  then have n: "\<not> prefix pat (drop j (s @ t))" by (rule find_str_least [OF assms(1)])
  have "drop j (s @ t) = drop j s @ t" using \<open>j < i\<close> assms(2) by simp
  with n show "\<not> prefix pat (drop j s)" by (metis prefix_prefix)
qed

text \<open>A pattern whose first character does not occur before it is found right after it.\<close>

lemma find_str_skip:
  "c \<notin> set u \<Longrightarrow> find_str (c # pat) (u @ (c # pat) @ r) = Some (length u)"
proof (induction u)
  case Nil
  then show ?case by (simp add: prefix_def)
next
  case (Cons x u)
  then show ?case by auto
qed

lemma find_pred_Some [str_find]:
  "find_pred P s = Some i \<Longrightarrow> i < length s \<and> P (s ! i) \<and> (\<forall>j < i. \<not> P (s ! j))"
  by (induction s arbitrary: i) (auto split: if_splits simp: All_less_Suc2 less_Suc_eq_0_disj)

lemma find_pred_None [str_find]: "find_pred P s = None \<longleftrightarrow> (\<forall>x \<in> set s. \<not> P x)"
  by (induction s) auto

lemma find_pred_skip:
  "\<forall>x \<in> set u. \<not> P x \<Longrightarrow> P c \<Longrightarrow> find_pred P (u @ c # r) = Some (length u)"
  by (induction u) auto

section \<open>Characters, tokens and lines\<close>

definition isspace :: "char \<Rightarrow> bool" where
  "isspace c \<longleftrightarrow> c \<in> {CHR '' '', CHR 0x09, CHR 0x0A, CHR 0x0B, CHR 0x0C, CHR 0x0D}"

definition isdigit :: "char \<Rightarrow> bool" where
  "isdigit c \<longleftrightarrow> 48 \<le> (of_char c :: nat) \<and> (of_char c :: nat) \<le> 57"

definition digit_val :: "char \<Rightarrow> nat" where
  "digit_val c = of_char c - 48"

definition digit_char :: "nat \<Rightarrow> char" where
  "digit_char n = char_of (n + 48)"

text \<open>\<open>std::tolower\<close> in the C locale.\<close>

definition tolower :: "char \<Rightarrow> char" where
  "tolower c = (if 65 \<le> (of_char c :: nat) \<and> (of_char c :: nat) \<le> 90
                then char_of ((of_char c :: nat) + 32) else c)"

definition to_lower :: "string \<Rightarrow> string" where
  "to_lower s = map tolower s"

lemma tolower_idem [simp]: "tolower (tolower c) = tolower c"
  by (auto simp: tolower_def)

lemma to_lower_idem [simp]: "to_lower (to_lower s) = to_lower s"
  by (simp add: to_lower_def)

text \<open>The characters of \<open>s\<close> from the first to the last one outside the set \<open>P\<close>.\<close>

definition trim_set :: "(char \<Rightarrow> bool) \<Rightarrow> string \<Rightarrow> string" where
  "trim_set P s = rev (dropWhile P (rev (dropWhile P s)))"

lemma set_trim_set: "set (trim_set P s) \<subseteq> set s"
  by (auto simp: trim_set_def dest!: set_dropWhileD)

lemma trim_set_id:
  assumes "s \<noteq> [] \<Longrightarrow> \<not> P (hd s)" and "s \<noteq> [] \<Longrightarrow> \<not> P (last s)"
  shows "trim_set P s = s"
proof (cases "s = []")
  case False
  have "dropWhile P s = s" using assms(1) [OF False] False by (cases s) auto
  moreover have "dropWhile P (rev s) = rev s"
    using assms(2) [OF False] False by (cases s rule: rev_cases) auto
  ultimately show ?thesis by (simp add: trim_set_def)
qed (simp add: trim_set_def)

lemma trim_set_Cons: "P c \<Longrightarrow> trim_set P (c # s) = trim_set P s"
  by (simp add: trim_set_def)

text \<open>\<open>stream >> word\<close>: skip white space, take the characters up to the next white space.\<close>

definition next_token :: "string \<Rightarrow> (string \<times> string) option" where
  "next_token s =
     (let t = dropWhile isspace s
      in if t = [] then None
         else Some (takeWhile (\<lambda>c. \<not> isspace c) t, dropWhile (\<lambda>c. \<not> isspace c) t))"

lemma next_token_word:
  assumes "w \<noteq> []" and "\<forall>c \<in> set w. \<not> isspace c" and "r \<noteq> [] \<Longrightarrow> isspace (hd r)"
  shows "next_token (w @ r) = Some (w, r)"
proof -
  obtain x w' where w: "w = x # w'" using assms(1) by (cases w) auto
  have d: "dropWhile isspace (w @ r) = w @ r" using assms(2) by (simp add: w)
  have t: "takeWhile (\<lambda>c. \<not> isspace c) (w @ r) = w"
    using assms(2,3) by (cases r) (auto simp: takeWhile_append2)
  have "dropWhile (\<lambda>c. \<not> isspace c) (w @ r) = r"
    using assms(2,3) by (cases r) (auto simp: dropWhile_append2)
  with d t show ?thesis by (simp add: next_token_def w)
qed

lemma next_token_space:
  "isspace c \<Longrightarrow> next_token (c # s) = next_token s"
  by (simp add: next_token_def)

lemma next_token_props:
  assumes "next_token s = Some (w, r)"
  shows "w \<noteq> []" and "set w \<subseteq> set s" and "set r \<subseteq> set s" and "\<forall>c \<in> set w. \<not> isspace c"
proof -
  define t where "t = dropWhile isspace s"
  from assms have t: "t \<noteq> []" and w: "w = takeWhile (\<lambda>c. \<not> isspace c) t"
    and r: "r = dropWhile (\<lambda>c. \<not> isspace c) t"
    by (auto simp: next_token_def t_def Let_def split: if_splits)
  have "\<not> isspace (hd t)" using t hd_dropWhile [of isspace s] by (simp add: t_def)
  then show "w \<noteq> []" using t by (cases t) (simp_all add: w)
  have ts: "set t \<subseteq> set s" by (auto simp: t_def dest: set_dropWhileD)
  then show "set w \<subseteq> set s" by (auto simp: w dest: set_takeWhileD)
  show "set r \<subseteq> set s" using ts by (auto simp: r dest: set_dropWhileD)
  show "\<forall>c \<in> set w. \<not> isspace c" by (auto simp: w dest: set_takeWhileD)
qed

text \<open>\<open>std::getline\<close> until the stream fails: the lines without their newline; text after the
  last newline is a line only when it is not empty.\<close>

fun lines_of :: "string \<Rightarrow> string list" where
  "lines_of [] = []"
| "lines_of (c # s) =
     (if c = CHR 0x0A then [] # lines_of s
      else case lines_of s of [] \<Rightarrow> [[c]] | l # ls \<Rightarrow> (c # l) # ls)"

lemma lines_of_line: "nl \<notin> set l \<Longrightarrow> lines_of (l @ nl # r) = l # lines_of r"
  by (induction l) (auto simp: nl_def)

lemma lines_of_concat:
  "\<forall>l \<in> set ls. nl \<notin> set l \<Longrightarrow> lines_of (concat (map (\<lambda>l. l @ [nl]) ls)) = ls"
  by (induction ls) (auto simp: lines_of_line)

section \<open>Numbers as text\<close>

text \<open>\<open>std::to_string\<close> of an unsigned value.\<close>

fun show_nat :: "nat \<Rightarrow> string" where
  "show_nat n = (if n < 10 then [digit_char n] else show_nat (n div 10) @ [digit_char (n mod 10)])"

declare show_nat.simps [simp del]

definition show_int :: "int \<Rightarrow> string" where
  "show_int i = (if i < 0 then CHR ''-'' # show_nat (nat (- i)) else show_nat (nat i))"

definition dec_value :: "string \<Rightarrow> nat" where
  "dec_value ds = foldl (\<lambda>n d. 10 * n + digit_val d) 0 ds"

lemma digit_val_digit_char [simp]: "n < 10 \<Longrightarrow> digit_val (digit_char n) = n"
  by (simp add: digit_val_def digit_char_def)

lemma isdigit_digit_char [simp]: "n < 10 \<Longrightarrow> isdigit (digit_char n)"
  by (simp add: isdigit_def digit_char_def)

lemma show_nat_digits: "c \<in> set (show_nat n) \<Longrightarrow> isdigit c"
proof (induction n rule: show_nat.induct)
  case (1 n)
  from "1.prems" show ?case
    by (subst (asm) show_nat.simps) (auto split: if_splits intro: "1.IH")
qed

lemma show_nat_not_Nil [simp]: "show_nat n \<noteq> []"
  by (subst show_nat.simps) simp

lemma dec_value_snoc: "dec_value (ds @ [d]) = 10 * dec_value ds + digit_val d"
  by (simp add: dec_value_def)

lemma dec_value_show_nat [simp]: "dec_value (show_nat n) = n"
proof (induction n rule: show_nat.induct)
  case (1 n)
  show ?case
  proof (cases "n < 10")
    case True
    then show ?thesis by (subst show_nat.simps) (simp add: dec_value_def)
  next
    case False
    with "1.IH" show ?thesis by (subst show_nat.simps) (simp add: dec_value_snoc)
  qed
qed

lemma isdigit_not_isspace: "isdigit c \<Longrightarrow> \<not> isspace c"
  by (auto simp: isdigit_def isspace_def)

lemma isdigit_not_sign: "isdigit c \<Longrightarrow> c \<noteq> CHR ''-'' \<and> c \<noteq> CHR ''+''"
  by (auto simp: isdigit_def)

text \<open>
  The common part of \<open>std::stoul\<close>, \<open>std::stoi\<close> and \<open>std::stoll\<close> in base 10: leading
  white space, an optional sign, the longest run of digits. \<open>None\<close> when there is no digit
  (the library throws invalid_argument); text after the digits is ignored.
\<close>

definition parse_int :: "string \<Rightarrow> (bool \<times> nat) option" where
  "parse_int s =
     (let t = dropWhile isspace s;
          neg = (t \<noteq> [] \<and> hd t = CHR ''-'');
          u = (if t \<noteq> [] \<and> (hd t = CHR ''-'' \<or> hd t = CHR ''+'') then tl t else t);
          ds = takeWhile isdigit u
      in if ds = [] then None else Some (neg, dec_value ds))"

text \<open>\<open>std::stoul\<close> for an unsigned long of \<open>w\<close> bits: a magnitude out of range throws, a
  minus sign negates modulo \<open>2 ^ w\<close>.\<close>

definition stoul :: "nat \<Rightarrow> string \<Rightarrow> nat option" where
  "stoul w s =
     (case parse_int s of None \<Rightarrow> None
      | Some (neg, m) \<Rightarrow> if m \<ge> 2 ^ w then None
                         else Some (if neg then (2 ^ w - m) mod 2 ^ w else m))"

text \<open>\<open>std::stoi\<close> and \<open>std::stoll\<close> for a signed type of \<open>w\<close> bits.\<close>

definition stoi_w :: "nat \<Rightarrow> string \<Rightarrow> int option" where
  "stoi_w w s =
     (case parse_int s of None \<Rightarrow> None
      | Some (neg, m) \<Rightarrow>
          (let v = (if neg then - int m else int m)
           in if - (2 ^ (w - 1)) \<le> v \<and> v < 2 ^ (w - 1) then Some v else None))"

abbreviation stoi :: "string \<Rightarrow> int option" where
  "stoi \<equiv> stoi_w 32"

abbreviation stoll :: "string \<Rightarrow> int option" where
  "stoll \<equiv> stoi_w 64"

lemma takeWhile_show_nat:
  "r \<noteq> [] \<Longrightarrow> \<not> isdigit (hd r) \<Longrightarrow> takeWhile isdigit (show_nat n @ r) = show_nat n"
  by (cases r) (auto simp: takeWhile_append2 show_nat_digits)

lemma takeWhile_show_nat_end [simp]: "takeWhile isdigit (show_nat n) = show_nat n"
  by (auto simp: takeWhile_eq_all_conv show_nat_digits)

lemma dropWhile_isspace_show_nat [simp]: "dropWhile isspace (show_nat n @ r) = show_nat n @ r"
proof -
  obtain c cs where c: "show_nat n = c # cs" by (cases "show_nat n") auto
  then have "isdigit c" using show_nat_digits [of c n] by simp
  with c show ?thesis by (simp add: isdigit_not_isspace)
qed

lemma hd_show_nat_not_sign: "hd (show_nat n @ r) \<noteq> CHR ''-''" "hd (show_nat n @ r) \<noteq> CHR ''+''"
proof -
  obtain c cs where c: "show_nat n = c # cs" by (cases "show_nat n") auto
  then have "isdigit c" using show_nat_digits [of c n] by simp
  with c show "hd (show_nat n @ r) \<noteq> CHR ''-''" "hd (show_nat n @ r) \<noteq> CHR ''+''"
    using isdigit_not_sign [of c] by auto
qed

lemma parse_int_show_nat [simp]: "parse_int (show_nat n) = Some (False, n)"
  using dropWhile_isspace_show_nat [of n "[]"] hd_show_nat_not_sign [of n "[]"]
  by (simp add: parse_int_def Let_def)

lemma parse_int_show_int: "parse_int (show_int i) = Some (i < 0, nat \<bar>i\<bar>)"
proof (cases "i < 0")
  case True
  then show ?thesis by (simp add: parse_int_def Let_def show_int_def isspace_def)
next
  case False
  then show ?thesis by (simp add: show_int_def)
qed

lemma stoul_show_nat [simp]: "n < 2 ^ w \<Longrightarrow> stoul w (show_nat n) = Some n"
  by (simp add: stoul_def)

lemma stoi_show_int [simp]:
  "- (2 ^ (w - 1)) \<le> i \<Longrightarrow> i < 2 ^ (w - 1) \<Longrightarrow> stoi_w w (show_int i) = Some i"
  by (auto simp: stoi_w_def parse_int_show_int Let_def)

lemma show_int_not_Nil [simp]: "show_int i \<noteq> []"
  by (simp add: show_int_def)

lemma show_int_chars: "c \<in> set (show_int i) \<Longrightarrow> isdigit c \<or> c = CHR ''-''"
  by (auto simp: show_int_def split: if_splits dest: show_nat_digits)

section \<open>Big- and little-endian integers\<close>

text \<open>The shift-and-or expressions of the source, and the byte stores that invert them.\<close>

definition be16 :: "byte \<Rightarrow> byte \<Rightarrow> u16" where
  "be16 b0 b1 = push_bit 8 (ucast b0) OR ucast b1"

definition be32 :: "byte \<Rightarrow> byte \<Rightarrow> byte \<Rightarrow> byte \<Rightarrow> u32" where
  "be32 b0 b1 b2 b3 =
     push_bit 24 (ucast b0) OR push_bit 16 (ucast b1) OR push_bit 8 (ucast b2) OR ucast b3"

definition le32 :: "byte \<Rightarrow> byte \<Rightarrow> byte \<Rightarrow> byte \<Rightarrow> u32" where
  "le32 b0 b1 b2 b3 = be32 b3 b2 b1 b0"

definition put_be32 :: "u32 \<Rightarrow> bytes" where
  "put_be32 v = [ucast (drop_bit 24 v), ucast (drop_bit 16 v), ucast (drop_bit 8 v), ucast v]"

lemma length_put_be32 [simp, endian_simps]: "length (put_be32 v) = 4"
  by (simp add: put_be32_def)

lemma length_ge_4E:
  assumes "4 \<le> length xs"
  obtains a b c d r where "xs = a # b # c # d # r"
  using assms by (auto simp: Suc_le_length_iff numeral_eq_Suc)

text \<open>\<open>v = (v << 8) | byte\<close> over a run of bytes, most significant first.\<close>

definition be_fold :: "bytes \<Rightarrow> u64" where
  "be_fold bs = foldl (\<lambda>v b. push_bit 8 v OR ucast b) 0 bs"

definition put_be64 :: "u64 \<Rightarrow> bytes" where
  "put_be64 v = put_be32 (ucast (drop_bit 32 v)) @ put_be32 (ucast v)"

lemma length_put_be64 [simp, endian_simps]: "length (put_be64 v) = 8"
  by (simp add: put_be64_def)

lemma be32_put [simp, endian_simps]:
  "be32 (ucast (drop_bit 24 v)) (ucast (drop_bit 16 v)) (ucast (drop_bit 8 v)) (ucast (v :: u32)) = v"
proof (rule bit_word_eqI)
  fix n assume "n < LENGTH(32)"
  then have "n < 8 \<or> 8 \<le> n \<and> n < 16 \<or> 16 \<le> n \<and> n < 24 \<or> 24 \<le> n \<and> n < 32" by auto
  then show "bit (be32 (ucast (drop_bit 24 v)) (ucast (drop_bit 16 v)) (ucast (drop_bit 8 v)) (ucast v)) n
      = bit v n"
    by (elim disjE conjE; simp add: be32_def bit_simps; auto)
qed

lemma put_be32_nth [endian_simps]:
  "be32 (put_be32 v ! 0) (put_be32 v ! 1) (put_be32 v ! 2) (put_be32 v ! 3) = v"
  by (simp add: put_be32_def numeral_2_eq_2 numeral_3_eq_3)

lemma bit_byte_ge: "8 \<le> n \<Longrightarrow> \<not> bit (b :: byte) n"
  using bit_imp_le_length [of b n] by auto

lemma put_be32_be32 [simp, endian_simps]: "put_be32 (be32 a b c d) = [a, b, c, d]"
  by (auto simp: put_be32_def be32_def bit_simps bit_byte_ge intro!: bit_word_eqI)

lemma be_fold_put_be64 [simp, endian_simps]: "be_fold (put_be64 v) = v"
proof (rule bit_word_eqI)
  fix n assume "n < LENGTH(64)"
  then have "n < 8 \<or> 8 \<le> n \<and> n < 16 \<or> 16 \<le> n \<and> n < 24 \<or> 24 \<le> n \<and> n < 32
    \<or> 32 \<le> n \<and> n < 40 \<or> 40 \<le> n \<and> n < 48 \<or> 48 \<le> n \<and> n < 56 \<or> 56 \<le> n \<and> n < 64" by auto
  then show "bit (be_fold (put_be64 v)) n = bit v n"
    by (elim disjE conjE; simp add: be_fold_def put_be64_def put_be32_def bit_simps; auto)
qed

section \<open>Reachable states and invariants\<close>

text \<open>The states a component can reach from its initial ones, and the one argument by which every
  invariant of the development is established: it holds initially and every step keeps it.\<close>

inductive reach :: "('s \<Rightarrow> bool) \<Rightarrow> ('s \<Rightarrow> 's \<Rightarrow> bool) \<Rightarrow> 's \<Rightarrow> bool"
  for start :: "'s \<Rightarrow> bool" and step :: "'s \<Rightarrow> 's \<Rightarrow> bool" where
  initial: "start s \<Longrightarrow> reach start step s"
| advance: "reach start step s \<Longrightarrow> step s t \<Longrightarrow> reach start step t"

locale invariant_of =
  fixes start :: "'s \<Rightarrow> bool" and step :: "'s \<Rightarrow> 's \<Rightarrow> bool" and inv :: "'s \<Rightarrow> bool"
  assumes inv_start: "start s \<Longrightarrow> inv s"
    and inv_step: "inv s \<Longrightarrow> step s t \<Longrightarrow> inv t"
begin

lemma holds: "reach start step s \<Longrightarrow> inv s"
  by (induction rule: reach.induct) (auto intro: inv_start inv_step)

lemma holds_after:
  assumes "step\<^sup>*\<^sup>* s t" and "reach start step s"
  shows "inv t"
  using assms
proof (induction rule: rtranclp_induct)
  case base
  then show ?case by (rule holds)
next
  case (step y z)
  then show ?case by (blast intro: inv_step)
qed

lemma strengthen: "reach start step s \<Longrightarrow> (\<And>t. inv t \<Longrightarrow> P t) \<Longrightarrow> P s"
  using holds by blast

end

end
