(* ===== verification/Rtsp.thy ===== *)
theory Rtsp
  imports Prelude
begin

text \<open>
  The RTSP/HTTP framing of src/airplay/rtsp_parser.cpp and .h: \<open>Request\<close>, \<open>Response\<close>,
  \<open>Response::serialize\<close> and \<open>RequestReader\<close>. The socket is the list of the blocks that the
  next recv calls deliver (a call reads into a 4096-byte array, so a block has 1 to 4096
  bytes); an exhausted list is a closed, failed or cancelled socket, for which
  \<open>recv_interruptible\<close> returns a value that is not positive. \<open>unsigned long\<close>, the result of
  \<open>std::stoul\<close>, has 32 bits on the Windows target and \<open>size_t\<close> has 64.
\<close>

section \<open>Messages\<close>

record request =
  rq_method :: string
  rq_uri :: string
  rq_version :: string
  rq_headers :: "string \<rightharpoonup> string"
  rq_body :: bytes

record response =
  rs_status :: int
  rs_text :: string
  rs_version :: string
  rs_headers :: "string \<rightharpoonup> string"
  rs_body :: bytes
  rs_silent :: bool

definition empty_request :: request where
  "empty_request = \<lparr>rq_method = [], rq_uri = [], rq_version = [],
                    rq_headers = Map.empty, rq_body = []\<rparr>"

definition new_response :: response where
  "new_response = \<lparr>rs_status = 200, rs_text = ''OK'', rs_version = ''RTSP/1.0'',
                   rs_headers = Map.empty, rs_body = [], rs_silent = False\<rparr>"

definition trim_ws :: "string \<Rightarrow> string" where
  "trim_ws s = trim_set (\<lambda>c. c = CHR '' '' \<or> c = tab) s"

definition header :: "request \<Rightarrow> string \<Rightarrow> string" where
  "header rq key = (case rq_headers rq (to_lower key) of None \<Rightarrow> [] | Some v \<Rightarrow> v)"

definition ulong_bits :: nat where
  "ulong_bits = 32"

definition content_length :: "request \<Rightarrow> nat" where
  "content_length rq =
     (let v = header rq ''content-length''
      in if v = [] then 0 else case stoul ulong_bits v of None \<Rightarrow> 0 | Some n \<Rightarrow> n)"

definition set_header :: "string \<Rightarrow> string \<Rightarrow> response \<Rightarrow> response" where
  "set_header key value r = r\<lparr>rs_headers := (rs_headers r)(key \<mapsto> value)\<rparr>"

text \<open>
  The iteration order of an unordered_map is unspecified: \<open>hs\<close> is the enumeration of the
  response's headers that the loop happens to see.
\<close>

definition header_line :: "string \<times> string \<Rightarrow> string" where
  "header_line kv = fst kv @ '': '' @ snd kv @ crlf"

definition serialize :: "(string \<times> string) list \<Rightarrow> response \<Rightarrow> string" where
  "serialize hs r =
     rs_version r @ '' '' @ show_int (rs_status r) @ '' '' @ rs_text r @ crlf
     @ concat (map header_line hs)
     @ ''Content-Length: '' @ show_nat (length (rs_body r)) @ crlf
     @ crlf
     @ of_bytes (rs_body r)"

section \<open>The reader\<close>

record reader =
  rd_buffer :: string
  rd_chunks :: "string list"

definition header_limit :: nat where
  "header_limit = 64 * 1024"

definition recv_size :: nat where
  "recv_size = 4096"

fun fill :: "nat \<Rightarrow> string \<Rightarrow> string list \<Rightarrow> bool \<times> string \<times> string list" where
  "fill need buf [] = (length buf \<ge> need, buf, [])"
| "fill need buf (c # cs) =
     (if length buf \<ge> need then (True, buf, c # cs) else fill need (buf @ c) cs)"

text \<open>The first loop of \<open>read_headers\<close>: grow the buffer until it holds CRLFCRLF.\<close>

fun await_headers :: "string \<Rightarrow> string list \<Rightarrow> nat option \<times> string \<times> string list" where
  "await_headers buf [] =
     (case find_str (crlf @ crlf) buf of
        Some pos \<Rightarrow> (Some (pos + 4), buf, [])
      | None \<Rightarrow> (None, buf, []))"
| "await_headers buf (c # cs) =
     (case find_str (crlf @ crlf) buf of
        Some pos \<Rightarrow> (Some (pos + 4), buf, c # cs)
      | None \<Rightarrow> if length (buf @ c) > header_limit then (None, buf @ c, cs)
                else await_headers (buf @ c) cs)"

text \<open>Absolute URIs are cut down to their path.\<close>

definition normalise_uri :: "string \<Rightarrow> string" where
  "normalise_uri uri =
     (if prefix ''rtsp://'' uri \<or> prefix ''http://'' uri
      then (case find_str ''://'' uri of
              None \<Rightarrow> uri
            | Some scheme_end \<Rightarrow>
                (case find_from ''/'' uri (scheme_end + 3) of
                   None \<Rightarrow> ''/''
                 | Some path_start \<Rightarrow> drop path_start uri))
      else uri)"

text \<open>\<open>ls >> method >> uri >> version\<close>.\<close>

definition request_line :: "string \<Rightarrow> (string \<times> string \<times> string) option" where
  "request_line line =
     (case next_token line of None \<Rightarrow> None
      | Some (m, r1) \<Rightarrow>
          (case next_token r1 of None \<Rightarrow> None
           | Some (u, r2) \<Rightarrow>
               (case next_token r2 of None \<Rightarrow> None
                | Some (v, _) \<Rightarrow> Some (m, u, v))))"

definition store_header :: "string \<Rightarrow> (string \<rightharpoonup> string) \<Rightarrow> (string \<rightharpoonup> string)" where
  "store_header h hs =
     (case find_str '':'' h of
        None \<Rightarrow> hs
      | Some colon \<Rightarrow> hs(to_lower (trim_ws (take colon h)) \<mapsto> trim_ws (drop (Suc colon) h)))"

text \<open>The header loop over the buffer, from \<open>p\<close> to the end of the header section.\<close>

function header_loop ::
  "string \<Rightarrow> nat \<Rightarrow> nat \<Rightarrow> (string \<rightharpoonup> string) \<Rightarrow> (string \<rightharpoonup> string)" where
  "header_loop buf off p hs =
     (if p < off - 2
      then (case find_from crlf buf p of
              None \<Rightarrow> hs
            | Some eol \<Rightarrow>
                if eol > off - 2 then hs
                else (let h = substr buf p (eol - p)
                      in if h = [] then hs
                         else header_loop buf off (eol + 2) (store_header h hs)))
      else hs)"
  by pat_completeness auto
termination
  by (relation "measure (\<lambda>(buf, off, p, hs). off - p)")
     (auto simp: find_from_def split: if_splits)

declare header_loop.simps [simp del]

text \<open>What \<open>read_headers\<close> makes of the buffer once the header section is complete.\<close>

definition parse_head :: "string \<Rightarrow> nat \<Rightarrow> request option" where
  "parse_head buf off =
     (case find_str crlf buf of
        None \<Rightarrow> None
      | Some line_end \<Rightarrow>
          (case request_line (take line_end buf) of
             None \<Rightarrow> None
           | Some (m, u, v) \<Rightarrow>
               Some (empty_request\<lparr>rq_method := m, rq_uri := normalise_uri u, rq_version := v,
                       rq_headers := header_loop buf off (line_end + 2) Map.empty\<rparr>)))"

definition read_headers :: "reader \<Rightarrow> (request \<times> nat) option \<times> reader" where
  "read_headers rd =
     (case await_headers (rd_buffer rd) (rd_chunks rd) of
        (None, buf, cs) \<Rightarrow> (None, \<lparr>rd_buffer = buf, rd_chunks = cs\<rparr>)
      | (Some off, buf, cs) \<Rightarrow>
          (map_option (\<lambda>rq. (rq, off)) (parse_head buf off), \<lparr>rd_buffer = buf, rd_chunks = cs\<rparr>))"

text \<open>\<open>RequestReader::read\<close>; \<open>cancelled\<close> is the value of the flag when the call starts.\<close>

definition read_request :: "bool \<Rightarrow> reader \<Rightarrow> request option \<times> reader" where
  "read_request cancelled rd =
     (if cancelled then (None, rd)
      else case read_headers rd of
        (None, rd1) \<Rightarrow> (None, rd1)
      | (Some (rq, off), rd1) \<Rightarrow>
          (let clen = content_length rq;
               need = off + clen
           in case fill need (rd_buffer rd1) (rd_chunks rd1) of
                (False, buf, cs) \<Rightarrow> (None, \<lparr>rd_buffer = buf, rd_chunks = cs\<rparr>)
              | (True, buf, cs) \<Rightarrow>
                  (Some (rq\<lparr>rq_body := to_bytes (substr buf off clen)\<rparr>),
                   \<lparr>rd_buffer = drop need buf, rd_chunks = cs\<rparr>)))"

section \<open>Abstract framing: one message off a byte stream\<close>

text \<open>
  What the reader promises, with no buffer and no blocks: the first message of the stream and
  what follows it.
\<close>

definition parse_message :: "string \<Rightarrow> (request \<times> string) option" where
  "parse_message s =
     (case find_str (crlf @ crlf) s of
        None \<Rightarrow> None
      | Some pos \<Rightarrow>
          (case parse_head (take (pos + 4) s) (pos + 4) of
             None \<Rightarrow> None
           | Some rq \<Rightarrow>
               (let need = pos + 4 + content_length rq
                in if need \<le> length s
                   then Some (rq\<lparr>rq_body := to_bytes (substr s (pos + 4) (content_length rq))\<rparr>,
                              drop need s)
                   else None)))"

definition stream :: "reader \<Rightarrow> string" where
  "stream rd = rd_buffer rd @ concat (rd_chunks rd)"

definition blocks_ok :: "reader \<Rightarrow> bool" where
  "blocks_ok rd \<longleftrightarrow> (\<forall>c \<in> set (rd_chunks rd). length c \<le> recv_size)"

section \<open>The reader implements the framing\<close>

lemma fill_stream:
  "fill need buf cs = (ok, buf', cs') \<Longrightarrow>
     buf' @ concat cs' = buf @ concat cs \<and> set cs' \<subseteq> set cs
     \<and> (ok \<longleftrightarrow> need \<le> length (buf @ concat cs)) \<and> (ok \<longrightarrow> need \<le> length buf')"
  by (induction need buf cs rule: fill.induct) (auto split: if_splits)

lemma await_headers_stream:
  "await_headers buf cs = (res, buf', cs') \<Longrightarrow>
     buf' @ concat cs' = buf @ concat cs \<and> set cs' \<subseteq> set cs
     \<and> (\<forall>off. res = Some off \<longrightarrow>
          (\<exists>pos. off = pos + 4 \<and> find_str (crlf @ crlf) buf' = Some pos))"
  by (induction buf cs rule: await_headers.induct) (auto split: option.splits if_splits)

lemma await_headers_complete:
  assumes "find_str (crlf @ crlf) (buf @ concat cs) = Some pos"
    and "pos + 4 + recv_size \<le> header_limit" and "\<forall>c \<in> set cs. length c \<le> recv_size"
  shows "fst (await_headers buf cs) = Some (pos + 4)"
  using assms
proof (induction buf cs rule: await_headers.induct)
  case (1 buf)
  then show ?case by simp
next
  case (2 buf c cs)
  show ?case
  proof (cases "find_str (crlf @ crlf) buf")
    case (Some k)
    with "2.prems"(1) find_str_append [OF Some, of "concat (c # cs)"] show ?thesis by simp
  next
    case None
    have "\<not> pos + length (crlf @ crlf) \<le> length buf"
      using find_str_in_prefix [OF "2.prems"(1)] None by auto
    with "2.prems"(2,3) have "\<not> length (buf @ c) > header_limit" by (auto simp: crlf_def)
    with None "2.IH" "2.prems" show ?thesis by simp
  qed
qed

lemma find_from_SomeE:
  assumes "find_from pat s p = Some e"
  obtains i where "find_str pat (drop p s) = Some i" and "e = p + i" and "p \<le> length s"
  using assms unfolding find_from_def by (cases "find_str pat (drop p s)") (simp_all split: if_splits)

lemma find_from_append:
  assumes "find_from pat s p = Some e"
  shows "find_from pat (s @ t) p = Some e"
proof -
  from assms obtain i where i: "find_str pat (drop p s) = Some i" "e = p + i" "p \<le> length s"
    by (rule find_from_SomeE)
  have "find_str pat (drop p (s @ t)) = Some i"
    using find_str_append [OF i(1), of t] i(3) by simp
  with i(2,3) show ?thesis by (simp add: find_from_def)
qed

lemma find_from_in_prefix:
  assumes "find_from pat (s @ t) p = Some e" and "e + length pat \<le> length s"
  shows "find_from pat s p = Some e"
proof -
  from assms(1) obtain i where i: "find_str pat (drop p (s @ t)) = Some i" "e = p + i"
    by (rule find_from_SomeE)
  have "p \<le> length s" "i + length pat \<le> length (drop p s)" using i(2) assms(2) by simp_all
  with i(1) have "find_str pat (drop p s) = Some i"
    by - (rule find_str_in_prefix [of pat "drop p s" t], simp_all)
  with i(2) \<open>p \<le> length s\<close> show ?thesis by (simp add: find_from_def)
qed

lemma find_from_bound:
  assumes "find_from pat s p = Some e"
  shows "p \<le> e \<and> e + length pat \<le> length s"
proof -
  from assms obtain i where i: "find_str pat (drop p s) = Some i" "e = p + i" "p \<le> length s"
    by (rule find_from_SomeE)
  have "i + length pat \<le> length (drop p s)" using find_str_Some [OF i(1)] by blast
  with i(2,3) show ?thesis by simp
qed

text \<open>The header loop reads nothing past the end of the header section.\<close>

lemma header_loop_take:
  assumes "off \<le> length buf" and "2 \<le> off"
  shows "header_loop buf off p hs = header_loop (take off buf) off p hs"
  using assms
proof (induction buf off p hs rule: header_loop.induct)
  case (1 buf off p hs)
  let ?b = "take off buf"
  have len: "length ?b = off" using "1.prems" by simp
  show ?case
  proof (cases "p < off - 2")
    case False
    then show ?thesis by (simp add: header_loop.simps)
  next
    case True
    show ?thesis
    proof (cases "find_from crlf ?b p")
      case (Some e)
      have fb: "find_from crlf buf p = Some e"
        using find_from_append [OF Some, of "drop off buf"] by simp
      have e: "p \<le> e" "e + 2 \<le> off" using find_from_bound [OF Some] len by (auto simp: crlf_def)
      have sub: "substr buf p (e - p) = substr ?b p (e - p)"
        using e by (simp add: substr_def drop_take min_def)
      have IH: "header_loop buf off (e + 2) (store_header (substr buf p (e - p)) hs)
          = header_loop ?b off (e + 2) (store_header (substr buf p (e - p)) hs)"
        if "substr buf p (e - p) \<noteq> []"
        using "1.IH" [OF True fb _ refl that] e "1.prems" by simp
      show ?thesis
        using True fb Some e IH sub
        by (subst (1 2) header_loop.simps) (simp add: Let_def)
    next
      case None
      have "e > off - 2" if "find_from crlf buf p = Some e" for e
      proof (rule ccontr)
        assume "\<not> e > off - 2"
        then have "e + length crlf \<le> length ?b" using len "1.prems" by (simp add: crlf_def)
        with find_from_in_prefix [of crlf ?b "drop off buf" p e] that None show False by simp
      qed
      with True None show ?thesis
        by (subst (1 2) header_loop.simps) (auto split: option.split)
    qed
  qed
qed

lemma crlf_in_crlf2:
  assumes "find_str (crlf @ crlf) s = Some pos"
  obtains le where "find_str crlf s = Some le" and "le \<le> pos"
proof -
  have "take (length crlf) (drop pos s) = crlf"
    using find_str_Some [OF assms]
    by (metis append_eq_conv_conj take_take min.cobounded1 length_append min_def le_add1 take_append)
  then have pre: "prefix crlf (drop pos s)" by (metis take_is_prefix)
  have "pos \<le> length s" using find_str_Some [OF assms] by simp
  with pre have "find_str crlf s \<noteq> None" by (auto simp: find_str_None)
  then obtain le where le: "find_str crlf s = Some le" by auto
  have "le \<le> pos" using find_str_least [OF le, of pos] pre by (meson not_le)
  with le show thesis by (rule that)
qed

lemma parse_head_take:
  assumes "find_str (crlf @ crlf) s = Some pos"
  shows "parse_head s (pos + 4) = parse_head (take (pos + 4) s) (pos + 4)"
proof -
  obtain le where le: "find_str crlf s = Some le" "le \<le> pos"
    using crlf_in_crlf2 [OF assms] by blast
  have len: "pos + 4 \<le> length s" using find_str_Some [OF assms] by (simp add: crlf_def)
  have "find_str crlf (take (pos + 4) s) = Some le"
    by (rule find_str_in_prefix [of _ _ "drop (pos + 4) s"]) (use le len in \<open>simp_all add: crlf_def\<close>)
  with le len show ?thesis
    by (simp add: parse_head_def header_loop_take [of "pos + 4" s] split: option.split)
qed

lemma parse_head_same_prefix:
  assumes "find_str (crlf @ crlf) s = Some pos"
  shows "parse_head (s @ t) (pos + 4) = parse_head s (pos + 4)"
proof -
  have len: "pos + 4 \<le> length s" using find_str_Some [OF assms] by (simp add: crlf_def)
  have "parse_head (s @ t) (pos + 4) = parse_head (take (pos + 4) (s @ t)) (pos + 4)"
    by (rule parse_head_take [OF find_str_append [OF assms]])
  also have "\<dots> = parse_head (take (pos + 4) s) (pos + 4)" using len by simp
  also have "\<dots> = parse_head s (pos + 4)" by (rule parse_head_take [OF assms, symmetric])
  finally show ?thesis .
qed

text \<open>The reader, on any division of the stream into blocks, computes \<open>parse_message\<close>.\<close>

lemma read_request_parse_message:
  assumes "find_str (crlf @ crlf) (stream rd) = Some pos"
    and "pos + 4 + recv_size \<le> header_limit" and "blocks_ok rd"
  shows "fst (read_request False rd) = map_option fst (parse_message (stream rd))
    \<and> (\<forall>q t. parse_message (stream rd) = Some (q, t) \<longrightarrow>
         stream (snd (read_request False rd)) = t \<and> blocks_ok (snd (read_request False rd)))"
proof -
  obtain res buf cs where aw: "await_headers (rd_buffer rd) (rd_chunks rd) = (res, buf, cs)"
    by (cases "await_headers (rd_buffer rd) (rd_chunks rd)") auto
  have res: "res = Some (pos + 4)"
    using await_headers_complete [of "rd_buffer rd" "rd_chunks rd" pos] assms aw
    by (auto simp: stream_def blocks_ok_def)
  note st = await_headers_stream [OF aw]
  have bufpos: "find_str (crlf @ crlf) buf = Some pos" using st res by auto
  have S: "stream rd = buf @ concat cs" using st by (simp add: stream_def)
  have ph: "parse_head buf (pos + 4) = parse_head (take (pos + 4) (stream rd)) (pos + 4)"
    using parse_head_same_prefix [OF bufpos, of "concat cs"] parse_head_take [OF assms(1)] S by simp
  show ?thesis
  proof (cases "parse_head buf (pos + 4)")
    case None
    then show ?thesis
      using ph aw res assms(1)
      by (simp add: read_request_def read_headers_def parse_message_def)
  next
    case (Some rq)
    obtain ok buf2 cs2 where fi: "fill (pos + 4 + content_length rq) buf cs = (ok, buf2, cs2)"
      by (cases "fill (pos + 4 + content_length rq) buf cs") auto
    note fs = fill_stream [OF fi]
    have S2: "stream rd = buf2 @ concat cs2" using fs S by simp
    have blocks: "\<forall>c \<in> set cs2. length c \<le> recv_size"
      using fs st assms(3) by (auto simp: blocks_ok_def)
    have rh: "read_headers rd = (Some (rq, pos + 4), \<lparr>rd_buffer = buf, rd_chunks = cs\<rparr>)"
      using aw res Some by (simp add: read_headers_def)
    have pm: "parse_message (stream rd) =
        (if pos + 4 + content_length rq \<le> length (stream rd)
         then Some (rq\<lparr>rq_body := to_bytes (substr (stream rd) (pos + 4) (content_length rq))\<rparr>,
                    drop (pos + 4 + content_length rq) (stream rd))
         else None)"
      using assms(1) trans [OF ph [symmetric] Some] by (simp add: parse_message_def Let_def)
    show ?thesis
    proof (cases ok)
      case False
      then have "\<not> pos + 4 + content_length rq \<le> length (stream rd)" using fs S by simp
      with False show ?thesis using pm rh fi by (simp add: read_request_def Let_def)
    next
      case True
      have flen: "pos + 4 + content_length rq \<le> length buf2" using fs True by simp
      then have "substr buf2 (pos + 4) (content_length rq)
          = substr (stream rd) (pos + 4) (content_length rq)"
        by (simp add: substr_def S2)
      moreover have "pos + 4 + content_length rq \<le> length (stream rd)" using fs S True by simp
      moreover have "drop (pos + 4 + content_length rq) (stream rd)
          = drop (pos + 4 + content_length rq) buf2 @ concat cs2"
        using flen by (simp add: S2)
      moreover have "read_request False rd =
          (Some (rq\<lparr>rq_body := to_bytes (substr buf2 (pos + 4) (content_length rq))\<rparr>),
           \<lparr>rd_buffer = drop (pos + 4 + content_length rq) buf2, rd_chunks = cs2\<rparr>)"
        using rh fi True by (simp add: read_request_def Let_def)
      ultimately show ?thesis
        using pm blocks by (auto simp: blocks_ok_def stream_def [of "\<lparr>rd_buffer = _, rd_chunks = _\<rparr>"])
    qed
  qed
qed

section \<open>Rendered messages are read back\<close>

text \<open>The end of the header section of a rendered message is its first CRLFCRLF.\<close>

lemma find_crlf2_skip:
  "CHR 0x0D \<notin> set l \<Longrightarrow> hd x \<noteq> CHR 0x0D \<Longrightarrow> x \<noteq> [] \<Longrightarrow>
     find_str (crlf @ crlf) (l @ crlf @ x) = map_option (\<lambda>i. length l + 2 + i) (find_str (crlf @ crlf) x)"
proof (induction l)
  case Nil
  then show ?case
    by (cases x) (auto simp: crlf_def prefix_def option.map_comp comp_def)
next
  case (Cons a l)
  then have "a \<noteq> CHR 0x0D" by auto
  with Cons show ?case by (simp add: crlf_def prefix_def option.map_comp comp_def)
qed

lemma find_crlf2_lines:
  "\<forall>l \<in> set (l # ls). CHR 0x0D \<notin> set l \<Longrightarrow> \<forall>l \<in> set ls. l \<noteq> [] \<Longrightarrow>
     find_str (crlf @ crlf) (concat (map (\<lambda>l. l @ crlf) (l # ls)) @ crlf @ r)
       = Some (length (concat (map (\<lambda>l. l @ crlf) (l # ls))) - 2)"
proof (induction ls arbitrary: l)
  case Nil
  then have "CHR 0x0D \<notin> set l" by simp
  from find_str_skip [OF this, of "tl (crlf @ crlf)" r] show ?case by (simp add: crlf_def)
next
  case (Cons l2 ls)
  let ?x = "concat (map (\<lambda>l. l @ crlf) (l2 # ls)) @ crlf @ r"
  have "hd ?x \<noteq> CHR 0x0D" using Cons.prems by (cases l2) auto
  moreover have "?x \<noteq> []" by (simp add: crlf_def)
  ultimately have "find_str (crlf @ crlf) (l @ crlf @ ?x)
      = map_option (\<lambda>i. length l + 2 + i) (find_str (crlf @ crlf) ?x)"
    using Cons.prems by (intro find_crlf2_skip) simp_all
  with Cons.IH [of l2] Cons.prems show ?case by (simp add: crlf_def)
qed

lemma header_loop_lines:
  "\<forall>l \<in> set ls. CHR 0x0D \<notin> set l \<and> l \<noteq> [] \<Longrightarrow>
     header_loop (pre @ concat (map (\<lambda>l. l @ crlf) ls) @ crlf @ r)
       (length pre + length (concat (map (\<lambda>l. l @ crlf) ls)) + 2) (length pre) hs
     = foldl (\<lambda>m l. store_header l m) hs ls"
proof (induction ls arbitrary: pre hs)
  case Nil
  then show ?case by (subst header_loop.simps) simp
next
  case (Cons l ls)
  let ?tail = "concat (map (\<lambda>l. l @ crlf) ls) @ crlf @ r"
  let ?buf = "pre @ concat (map (\<lambda>l. l @ crlf) (l # ls)) @ crlf @ r"
  let ?off = "length pre + length (concat (map (\<lambda>l. l @ crlf) (l # ls))) + 2"
  have l: "CHR 0x0D \<notin> set l" "l \<noteq> []" using Cons.prems by auto
  have f: "find_from crlf ?buf (length pre) = Some (length pre + length l)"
    using find_str_skip [OF l(1), of "tl crlf" ?tail] by (simp add: find_from_def crlf_def)
  have sub: "substr ?buf (length pre) (length l) = l" by (simp add: substr_def)
  have "header_loop ?buf ?off (length pre) hs
      = header_loop ?buf ?off (length pre + length l + 2) (store_header l hs)"
    using f l sub by (subst header_loop.simps) (simp add: Let_def crlf_def)
  also have "\<dots> = foldl (\<lambda>m l. store_header l m) (store_header l hs) ls"
    using Cons.IH [of "pre @ l @ crlf" "store_header l hs"] Cons.prems
    by (simp add: crlf_def add_ac)
  finally show ?case by simp
qed

text \<open>Header fields that the wire format carries unchanged.\<close>

definition clean_field :: "string \<times> string \<Rightarrow> bool" where
  "clean_field kv \<longleftrightarrow>
     fst kv \<noteq> [] \<and> CHR '':'' \<notin> set (fst kv) \<and> cr \<notin> set (fst kv) \<and> trim_ws (fst kv) = fst kv
     \<and> cr \<notin> set (snd kv) \<and> trim_ws (snd kv) = snd kv"

definition header_map :: "(string \<times> string) list \<Rightarrow> (string \<rightharpoonup> string)" where
  "header_map hs = foldl (\<lambda>m kv. m(to_lower (fst kv) \<mapsto> snd kv)) Map.empty hs"

lemma store_header_field:
  assumes "clean_field kv"
  shows "store_header (fst kv @ '': '' @ snd kv) m = m(to_lower (fst kv) \<mapsto> snd kv)"
proof -
  have "find_str '':'' (fst kv @ '':'' @ ('' '' @ snd kv)) = Some (length (fst kv))"
    by (rule find_str_skip) (use assms in \<open>simp add: clean_field_def\<close>)
  then show ?thesis
    using assms by (simp add: store_header_def clean_field_def trim_ws_def trim_set_Cons)
qed

lemma fold_store_header:
  "\<forall>kv \<in> set hs. clean_field kv \<Longrightarrow>
     foldl (\<lambda>m l. store_header l m) m0 (map (\<lambda>kv. fst kv @ '': '' @ snd kv) hs)
       = foldl (\<lambda>m kv. m(to_lower (fst kv) \<mapsto> snd kv)) m0 hs"
  by (induction hs arbitrary: m0) (simp_all add: store_header_field [simplified])

lemma find_head_end:
  assumes "cr \<notin> set line" and "\<forall>kv \<in> set hs. clean_field kv"
  shows "find_str (crlf @ crlf) (line @ crlf @ concat (map header_line hs) @ crlf @ r)
    = Some (length line + length (concat (map header_line hs)))"
proof -
  define fl where "fl = map (\<lambda>kv. fst kv @ '': '' @ snd kv) hs"
  have hl: "concat (map header_line hs) = concat (map (\<lambda>l. l @ crlf) fl)"
    by (simp add: fl_def comp_def header_line_def [abs_def])
  have nocr: "\<forall>l \<in> set (line # fl). CHR 0x0D \<notin> set l" and ne: "\<forall>l \<in> set fl. l \<noteq> []"
    using assms by (auto simp: fl_def clean_field_def cr_def)
  from find_crlf2_lines [OF nocr ne, of r] show ?thesis by (simp add: hl) (simp add: crlf_def)
qed

lemma parse_message_wire:
  assumes rl: "request_line line = Some (m, u, v)" and "cr \<notin> set line"
    and hs: "\<forall>kv \<in> set hs. clean_field kv"
    and rq: "rq = empty_request\<lparr>rq_method := m, rq_uri := normalise_uri u, rq_version := v,
                                rq_headers := header_map hs\<rparr>"
    and len: "content_length rq = length body"
  shows "parse_message (line @ crlf @ concat (map header_line hs) @ crlf @ of_bytes body @ rest)
    = Some (rq\<lparr>rq_body := body\<rparr>, rest)"
proof -
  define fl where "fl = map (\<lambda>kv. fst kv @ '': '' @ snd kv) hs"
  have hl: "concat (map header_line hs) = concat (map (\<lambda>l. l @ crlf) fl)"
    by (simp add: fl_def comp_def header_line_def [abs_def])
  let ?S = "line @ crlf @ concat (map header_line hs) @ crlf @ of_bytes body @ rest"
  let ?n = "length (concat (map (\<lambda>l. l @ crlf) (line # fl)))"
  have nocr: "\<forall>l \<in> set (line # fl). CHR 0x0D \<notin> set l" and ne: "\<forall>l \<in> set fl. l \<noteq> []"
    using assms(2) hs by (auto simp: fl_def clean_field_def cr_def)
  have pos: "find_str (crlf @ crlf) ?S = Some (?n - 2)"
    using find_crlf2_lines [OF nocr ne, of "of_bytes body @ rest"] by (simp add: hl)
  have n: "?n - 2 + 4 = ?n + 2" by (simp add: crlf_def)
  have le: "find_str crlf ?S = Some (length line)"
    using find_str_skip [of "CHR 0x0D" line "tl crlf" "concat (map header_line hs) @ crlf @ of_bytes body @ rest"]
      nocr by (simp add: crlf_def)
  have hm: "header_loop ?S (?n + 2) (length line + 2) Map.empty = header_map hs"
    using header_loop_lines [of fl "line @ crlf" "of_bytes body @ rest" Map.empty] nocr ne
      fold_store_header [OF hs, of Map.empty]
    by (simp add: hl crlf_def header_map_def fl_def add_ac)
  have ph: "parse_head ?S (?n + 2) = Some rq"
    using le rl hm rq by (simp add: parse_head_def)
  have "parse_head (take (?n + 2) ?S) (?n + 2) = parse_head ?S (?n + 2)"
    using parse_head_take [OF pos] unfolding n by (rule sym)
  note head = trans [OF this ph]
  define pre where "pre = line @ crlf @ concat (map header_line hs) @ crlf"
  have lp: "length pre = ?n + 2" by (simp add: pre_def hl crlf_def)
  have Sp: "?S = pre @ of_bytes body @ rest" by (simp add: pre_def)
  have "substr ?S (?n + 2) (length body) = of_bytes body"
    "drop (?n + 2 + length body) ?S = rest" "?n + 2 + length body \<le> length ?S"
    unfolding lp [symmetric] Sp substr_def by simp_all
  then show ?thesis
    unfolding parse_message_def pos option.case n head Let_def len by simp
qed

text \<open>A request as a sender puts it on the wire, and what makes it well formed.\<close>

definition render_request :: "(string \<times> string) list \<Rightarrow> request \<Rightarrow> string" where
  "render_request hs rq =
     rq_method rq @ '' '' @ rq_uri rq @ '' '' @ rq_version rq @ crlf
     @ concat (map header_line hs) @ crlf @ of_bytes (rq_body rq)"

definition word_ok :: "string \<Rightarrow> bool" where
  "word_ok w \<longleftrightarrow> w \<noteq> [] \<and> (\<forall>c \<in> set w. \<not> isspace c)"

definition wf_request :: "(string \<times> string) list \<Rightarrow> request \<Rightarrow> bool" where
  "wf_request hs rq \<longleftrightarrow>
     word_ok (rq_method rq) \<and> word_ok (rq_uri rq) \<and> word_ok (rq_version rq)
     \<and> normalise_uri (rq_uri rq) = rq_uri rq
     \<and> (\<forall>kv \<in> set hs. clean_field kv) \<and> rq_headers rq = header_map hs
     \<and> content_length rq = length (rq_body rq)"

lemma request_line_words:
  assumes "word_ok m" "word_ok u" "word_ok v" and "r \<noteq> [] \<Longrightarrow> isspace (hd r)"
  shows "request_line (m @ '' '' @ u @ '' '' @ v @ r) = Some (m, u, v)"
proof -
  have sp: "isspace (CHR '' '')" by (simp add: isspace_def)
  have "next_token (m @ '' '' @ u @ '' '' @ v @ r) = Some (m, '' '' @ u @ '' '' @ v @ r)"
    using assms sp by (intro next_token_word) (auto simp: word_ok_def)
  moreover have "next_token ('' '' @ u @ '' '' @ v @ r) = Some (u, '' '' @ v @ r)"
    using assms sp next_token_word [of u "'' '' @ v @ r"] by (simp add: next_token_space word_ok_def)
  moreover have "next_token ('' '' @ v @ r) = Some (v, r)"
    using assms sp next_token_word [of v r] by (simp add: next_token_space word_ok_def)
  ultimately show ?thesis by (simp add: request_line_def)
qed

lemma cr_isspace: "isspace cr" "isspace (CHR 0x0D)"
  by (simp_all add: isspace_def cr_def)

lemma word_ok_no_cr: "word_ok w \<Longrightarrow> cr \<notin> set w"
  using cr_isspace by (auto simp: word_ok_def)

lemma content_length_cong: "rq_headers a = rq_headers b \<Longrightarrow> content_length a = content_length b"
  by (simp add: content_length_def header_def)

lemma parse_message_render:
  assumes "wf_request hs rq"
  shows "parse_message (render_request hs rq @ rest) = Some (rq, rest)"
proof -
  let ?line = "rq_method rq @ '' '' @ rq_uri rq @ '' '' @ rq_version rq"
  let ?q = "rq\<lparr>rq_body := []\<rparr>"
  have "request_line ?line = Some (rq_method rq, rq_uri rq, rq_version rq)"
    using request_line_words [of _ _ _ "[]"] assms by (simp add: wf_request_def)
  moreover have "cr \<notin> set ?line"
    using assms word_ok_no_cr by (auto simp: wf_request_def cr_def)
  moreover have "\<forall>kv \<in> set hs. clean_field kv" using assms by (simp add: wf_request_def)
  moreover have "?q = empty_request\<lparr>rq_method := rq_method rq,
      rq_uri := normalise_uri (rq_uri rq), rq_version := rq_version rq, rq_headers := header_map hs\<rparr>"
    using assms by (simp add: wf_request_def empty_request_def)
  moreover have "content_length ?q = length (rq_body rq)"
    using assms content_length_cong [of ?q rq] by (simp add: wf_request_def)
  ultimately have "parse_message (?line @ crlf @ concat (map header_line hs) @ crlf
      @ of_bytes (rq_body rq) @ rest) = Some (?q\<lparr>rq_body := rq_body rq\<rparr>, rest)"
    by (rule parse_message_wire)
  then show ?thesis by (simp add: render_request_def)
qed

lemma show_int_no_space: "c \<in> set (show_int i) \<Longrightarrow> \<not> isspace c"
  using show_int_chars [of c i] isdigit_not_isspace [of c] by (auto simp: isspace_def)

lemma show_int_word_ok [simp]: "word_ok (show_int i)"
  using show_int_no_space by (simp add: word_ok_def)

lemma show_nat_word_ok [simp]: "word_ok (show_nat n)"
  using show_int_word_ok [of "int n"] by (simp add: show_int_def)

lemma normalise_uri_show_int [simp]: "normalise_uri (show_int i) = show_int i"
proof -
  have "\<not> prefix (c # w) (show_int i)" if "\<not> isdigit c" "c \<noteq> CHR ''-''" for c w
    using that show_int_chars [of c i] by (auto simp: prefix_def)
  then show ?thesis by (simp add: normalise_uri_def isdigit_def)
qed

lemma trim_ws_word: "word_ok w \<Longrightarrow> trim_ws w = w"
  unfolding trim_ws_def by (rule trim_set_id) (auto simp: word_ok_def isspace_def tab_def)

lemma content_length_show_nat:
  "rq_headers q ''content-length'' = Some (show_nat n) \<Longrightarrow> n < 2 ^ 32 \<Longrightarrow> content_length q = n"
  by (simp add: content_length_def header_def to_lower_def tolower_def ulong_bits_def)

definition length_field :: "nat \<Rightarrow> string \<times> string" where
  "length_field n = (''Content-Length'', show_nat n)"

lemma to_lower_length_field [simp]: "to_lower ''Content-Length'' = ''content-length''"
  by code_simp

lemma clean_length_field [simp]: "clean_field (length_field n)"
  using word_ok_no_cr [OF show_nat_word_ok, of n] trim_ws_word [OF show_nat_word_ok, of n]
    trim_ws_word [of "''Content-Length''"]
  by (auto simp: clean_field_def length_field_def cr_def word_ok_def isspace_def)

lemma header_map_snoc: "header_map (hs @ [kv]) = (header_map hs)(to_lower (fst kv) \<mapsto> snd kv)"
  by (simp add: header_map_def)

lemma parse_message_serialize:
  assumes "\<forall>kv \<in> set hs. clean_field kv" and "word_ok (rs_version r)"
    and t: "rs_text r = t @ tr" "word_ok t" "tr \<noteq> [] \<Longrightarrow> isspace (hd tr)" "cr \<notin> set tr"
    and "length (rs_body r) < 2 ^ 32"
  shows "parse_message (serialize hs r @ rest)
    = Some (\<lparr>rq_method = rs_version r, rq_uri = show_int (rs_status r), rq_version = t,
             rq_headers = header_map (hs @ [length_field (length (rs_body r))]),
             rq_body = rs_body r\<rparr>, rest)"
proof -
  let ?line = "rs_version r @ '' '' @ show_int (rs_status r) @ '' '' @ rs_text r"
  let ?hs = "hs @ [length_field (length (rs_body r))]"
  let ?q = "empty_request\<lparr>rq_method := rs_version r,
      rq_uri := normalise_uri (show_int (rs_status r)), rq_version := t, rq_headers := header_map ?hs\<rparr>"
  have "request_line ?line = Some (rs_version r, show_int (rs_status r), t)"
    using request_line_words [of "rs_version r" "show_int (rs_status r)" t tr] assms by simp
  moreover have "cr \<notin> set ?line"
    using assms word_ok_no_cr [of "rs_version r"] word_ok_no_cr [of t]
      word_ok_no_cr [OF show_int_word_ok, of "rs_status r"] by (auto simp: cr_def)
  moreover have "\<forall>kv \<in> set ?hs. clean_field kv" using assms by auto
  moreover note refl [of ?q]
  moreover have "content_length ?q = length (rs_body r)"
    using assms(7)
    by (intro content_length_show_nat)
      (simp_all add: header_map_snoc length_field_def)
  ultimately have "parse_message (?line @ crlf @ concat (map header_line ?hs) @ crlf
      @ of_bytes (rs_body r) @ rest) = Some (?q\<lparr>rq_body := rs_body r\<rparr>, rest)"
    by (rule parse_message_wire)
  moreover have "serialize hs r @ rest = ?line @ crlf @ concat (map header_line ?hs) @ crlf
      @ of_bytes (rs_body r) @ rest"
    by (simp add: serialize_def header_line_def length_field_def)
  ultimately show ?thesis by (simp add: empty_request_def)
qed

section \<open>Properties\<close>

text \<open>C7: On every division of the incoming stream into recv blocks, reading a request
  computes the first message of the stream and leaves exactly what follows it, provided the
  header section stays clear of the 64 KiB limit by one receive block.\<close>

theorem reader_refines_framing:
  assumes "find_str (crlf @ crlf) (stream rd) = Some pos"
    and "pos + 4 + recv_size \<le> header_limit" and "blocks_ok rd"
  shows "map_option (\<lambda>q. (q, stream (snd (read_request False rd)))) (fst (read_request False rd))
    = parse_message (stream rd)"
  using read_request_parse_message [OF assms] by (cases "parse_message (stream rd)") auto

text \<open>Reading message after message from one connection, as \<open>Server::handle_client\<close> does.\<close>

fun read_many :: "nat \<Rightarrow> reader \<Rightarrow> request list \<times> reader" where
  "read_many 0 rd = ([], rd)"
| "read_many (Suc n) rd =
     (case read_request False rd of
        (None, rd') \<Rightarrow> ([], rd')
      | (Some q, rd') \<Rightarrow> (let (qs, rd'') = read_many n rd' in (q # qs, rd'')))"

definition head_size :: "(string \<times> string) list \<Rightarrow> request \<Rightarrow> nat" where
  "head_size hs rq = length (render_request hs rq) - length (rq_body rq)"

lemma read_rendered:
  assumes "wf_request hs rq" and "head_size hs rq + recv_size \<le> header_limit"
    and "stream rd = render_request hs rq @ rest" and "blocks_ok rd"
  shows "fst (read_request False rd) = Some rq \<and> stream (snd (read_request False rd)) = rest
    \<and> blocks_ok (snd (read_request False rd))"
proof -
  let ?line = "rq_method rq @ '' '' @ rq_uri rq @ '' '' @ rq_version rq"
  let ?p = "length ?line + length (concat (map header_line hs))"
  have "cr \<notin> set ?line" "\<forall>kv \<in> set hs. clean_field kv"
    using assms(1) word_ok_no_cr by (auto simp: wf_request_def cr_def)
  from find_head_end [OF this, of "of_bytes (rq_body rq) @ rest"]
  have pos: "find_str (crlf @ crlf) (stream rd) = Some ?p"
    by (simp add: assms(3) render_request_def)
  have "?p + 4 + recv_size \<le> header_limit"
    using assms(2) by (simp add: head_size_def render_request_def crlf_def)
  from read_request_parse_message [OF pos this assms(4)] show ?thesis
    using parse_message_render [OF assms(1), of rest] assms(3) by simp
qed

text \<open>C1: Pipelined requests: whatever the block boundaries, reading a connection that
  carries several rendered requests yields exactly those requests, header maps and bodies
  included, and stops at the byte after the last one.\<close>

theorem pipelined_roundtrip:
  assumes "\<forall>(hs, rq) \<in> set msgs. wf_request hs rq \<and> head_size hs rq + recv_size \<le> header_limit"
    and "stream rd = concat (map (\<lambda>(hs, rq). render_request hs rq) msgs) @ rest"
    and "blocks_ok rd"
  shows "fst (read_many (length msgs) rd) = map snd msgs
    \<and> stream (snd (read_many (length msgs) rd)) = rest"
  using assms
proof (induction msgs arbitrary: rd)
  case Nil
  then show ?case by simp
next
  case (Cons msg msgs)
  obtain hs rq where msg: "msg = (hs, rq)" by (cases msg)
  obtain r rd' where rd': "read_request False rd = (r, rd')" by (cases "read_request False rd")
  let ?rest = "concat (map (\<lambda>(hs, rq). render_request hs rq) msgs) @ rest"
  have "r = Some rq \<and> stream rd' = ?rest \<and> blocks_ok rd'"
    using read_rendered [of hs rq rd ?rest] Cons.prems msg rd' by simp
  with Cons.IH [of rd'] Cons.prems(1) rd' msg show ?case
    by (simp add: case_prod_unfold)
qed

text \<open>A response is self-delimiting whatever order its header map is iterated in: the
  framing rule recovers its body and stops at its last byte. The receiver's own reader reads
  a response as a request whose method is the protocol version.\<close>

theorem response_self_delimiting:
  assumes "\<forall>kv \<in> set hs. clean_field kv" and "word_ok (rs_version r)"
    and "rs_text r = t @ tr" and "word_ok t" and "tr \<noteq> [] \<Longrightarrow> isspace (hd tr)" and "cr \<notin> set tr"
    and "length (rs_body r) < 2 ^ 32"
  shows "\<exists>q. parse_message (serialize hs r @ rest) = Some (q, rest)
    \<and> rq_body q = rs_body r \<and> rq_method q = rs_version r \<and> rq_uri q = show_int (rs_status r)"
  using parse_message_serialize [OF assms] by simp

text \<open>The declared body length is not validated: a negative Content-Length is accepted
  and read as a length just below \<open>2 ^ 32\<close>.\<close>

theorem negative_content_length:
  assumes "rq_headers rq ''content-length'' = Some (CHR ''-'' # show_nat n)"
    and "0 < n" and "n < 2 ^ 32"
  shows "content_length rq = 2 ^ 32 - n"
proof -
  have "parse_int (CHR ''-'' # show_nat n) = Some (True, n)"
    by (simp add: parse_int_def Let_def isspace_def)
  then show ?thesis
    using assms by (simp add: content_length_def header_def to_lower_def tolower_def
        ulong_bits_def stoul_def)
qed

section \<open>Witnesses\<close>

definition sample_headers :: "(string \<times> string) list" where
  "sample_headers = [(''CSeq'', ''7''), (''Content-Length'', ''3'')]"

definition sample_request :: request where
  "sample_request = \<lparr>rq_method = ''POST'', rq_uri = ''/fp-setup'', rq_version = ''RTSP/1.0'',
     rq_headers = header_map sample_headers, rq_body = [1, 2, 3]\<rparr>"

definition sample_reader :: reader where
  "sample_reader = \<lparr>rd_buffer = ''PO'',
     rd_chunks = [drop 2 (render_request sample_headers sample_request) @ ''GE'', ''T'']\<rparr>"

lemma sample_request_wf: "wf_request sample_headers sample_request"
proof -
  have "show_nat 3 = ''3''" by code_simp
  moreover have "to_lower ''CSeq'' = ''cseq''" by code_simp
  ultimately have "content_length sample_request = 3"
    by (intro content_length_show_nat)
      (simp_all add: sample_request_def sample_headers_def header_map_def)
  moreover have "\<forall>kv \<in> set sample_headers. clean_field kv" by code_simp
  moreover have "word_ok (rq_method sample_request) \<and> word_ok (rq_uri sample_request)
      \<and> word_ok (rq_version sample_request)" by code_simp
  moreover have "normalise_uri (rq_uri sample_request) = rq_uri sample_request" by code_simp
  ultimately show ?thesis by (simp add: wf_request_def sample_request_def)
qed

lemma sample_head_size: "head_size sample_headers sample_request + recv_size \<le> header_limit"
  by (simp add: head_size_def render_request_def sample_request_def sample_headers_def
      header_line_def crlf_def header_limit_def recv_size_def)

lemma sample_blocks: "blocks_ok sample_reader"
  by (simp add: blocks_ok_def sample_reader_def render_request_def sample_request_def
      sample_headers_def header_line_def crlf_def recv_size_def)

lemma sample_stream:
  "stream sample_reader = concat (map (\<lambda>(hs, rq). render_request hs rq)
     [(sample_headers, sample_request)]) @ ''GET''"
  by (simp add: stream_def sample_reader_def sample_request_def render_request_def)

lemma sample_head_end: "find_str (crlf @ crlf) (stream sample_reader) = Some 51"
proof -
  let ?line = "rq_method sample_request @ '' '' @ rq_uri sample_request @ '' ''
    @ rq_version sample_request"
  have "cr \<notin> set ?line" by code_simp
  moreover have "\<forall>kv \<in> set sample_headers. clean_field kv" by code_simp
  ultimately show ?thesis
    using find_head_end [of ?line sample_headers "of_bytes (rq_body sample_request) @ ''GET''"]
    by (simp add: sample_stream) (simp add: render_request_def sample_request_def sample_headers_def
        header_line_def crlf_def)
qed

theorem reader_refines_framing_witness:
  "map_option (\<lambda>q. (q, stream (snd (read_request False sample_reader))))
     (fst (read_request False sample_reader)) = parse_message (stream sample_reader)"
  using reader_refines_framing [OF sample_head_end _ sample_blocks]
  by (simp add: header_limit_def recv_size_def)

theorem pipelined_roundtrip_witness:
  "fst (read_many 1 sample_reader) = [sample_request]
   \<and> stream (snd (read_many 1 sample_reader)) = ''GET''"
  using pipelined_roundtrip [OF _ sample_stream sample_blocks] sample_request_wf sample_head_size
  by simp

theorem response_self_delimiting_witness:
  "\<exists>q. parse_message (serialize [(''CSeq'', ''7'')]
         (new_response\<lparr>rs_status := 404, rs_text := ''Not Found'', rs_body := [9, 8]\<rparr>) @ ''tail'')
       = Some (q, ''tail'')
     \<and> rq_body q = [9, 8] \<and> rq_method q = ''RTSP/1.0'' \<and> rq_uri q = ''404''"
proof -
  let ?r = "new_response\<lparr>rs_status := 404, rs_text := ''Not Found'', rs_body := [9, 8]\<rparr>"
  have a: "\<forall>kv \<in> set [(''CSeq'', ''7'')]. clean_field kv" by code_simp
  have b: "word_ok (rs_version ?r)" by code_simp
  have c: "rs_text ?r = ''Not'' @ '' Found''" by simp
  have d: "word_ok ''Not''" by code_simp
  have e: "'' Found'' \<noteq> [] \<Longrightarrow> isspace (hd '' Found'')" by (simp add: isspace_def)
  have f: "cr \<notin> set '' Found''" by code_simp
  have g: "length (rs_body ?r) < 2 ^ 32" by simp
  have h: "show_int 404 = ''404''" by code_simp
  show ?thesis
    using response_self_delimiting [OF a b c d e f g, of "''tail''"] h by (simp add: new_response_def)
qed

theorem negative_content_length_witness:
  "content_length (empty_request\<lparr>rq_headers := [''content-length'' \<mapsto> ''-1'']\<rparr>) = 4294967295"
proof -
  have "show_nat 1 = ''1''" by code_simp
  then show ?thesis
    using negative_content_length [of "empty_request\<lparr>rq_headers := [''content-length'' \<mapsto> ''-1'']\<rparr>" 1]
    by simp
qed

end
