(* ===== verification/NalUnits.thy ===== *)
theory NalUnits
  imports Prelude
begin

text \<open>
  src/airplay/h264_nal.cpp: the in-place conversion of a decrypted mirror payload from
  AVCC (4-byte big-endian length before each NAL unit) to Annex-B (start code 00 00 00 01),
  the list of units it reports, and the names of the unit types. \<open>size_t\<close> has 64 bits and a
  length prefix 32, so the sums of the source do not wrap; they are natural numbers here.
\<close>

section \<open>The conversion\<close>

datatype nal_codec = H264 | HEVC

record nal_unit =
  nal_type :: int
  nal_ref_idc :: int
  nal_offset :: nat
  nal_size :: nat

definition make_unit :: "nal_codec \<Rightarrow> byte \<Rightarrow> nat \<Rightarrow> nat \<Rightarrow> nal_unit" where
  "make_unit codec nh off len =
     (case codec of
        H264 \<Rightarrow> \<lparr>nal_type = uint (nh AND 0x1f), nal_ref_idc = uint (drop_bit 5 nh AND 0x03),
                nal_offset = off, nal_size = len\<rparr>
      | HEVC \<Rightarrow> \<lparr>nal_type = uint (drop_bit 1 nh AND 0x3f), nal_ref_idc = 0,
                nal_offset = off, nal_size = len\<rparr>)"

definition length_prefix :: "bytes \<Rightarrow> nat \<Rightarrow> nat" where
  "length_prefix p pos = unat (be32 (p ! pos) (p ! (pos + 1)) (p ! (pos + 2)) (p ! (pos + 3)))"

definition put_start_code :: "bytes \<Rightarrow> nat \<Rightarrow> bytes" where
  "put_start_code p pos = p[pos := 0, pos + 1 := 0, pos + 2 := 0, pos + 3 := 1]"

lemma length_put_start_code [simp]: "length (put_start_code p pos) = length p"
  by (simp add: put_start_code_def)

text \<open>The result is the return value, the rewritten payload and the vector \<open>out\<close>.\<close>

function nal_loop ::
  "nal_codec \<Rightarrow> bytes \<Rightarrow> nat \<Rightarrow> nal_unit list \<Rightarrow> bool \<times> bytes \<times> nal_unit list" where
  "nal_loop codec p pos out =
     (if pos < length p
      then if pos + 4 > length p then (False, p, out)
           else (let nal_len = length_prefix p pos
                 in if nal_len = 0 \<or> pos + 4 + nal_len > length p then (False, p, out)
                    else (let nh = p ! (pos + 4)
                          in if nh AND 0x80 \<noteq> 0 then (False, p, out)
                             else nal_loop codec (put_start_code p pos) (pos + 4 + nal_len)
                                    (out @ [make_unit codec nh (pos + 4) nal_len])))
      else (True, p, out))"
  by pat_completeness auto
termination
  by (relation "measure (\<lambda>(codec, p, pos, out). length p - pos)") auto

declare nal_loop.simps [simp del]

definition parse_nals_avcc_to_annexb ::
  "nal_codec \<Rightarrow> bytes \<Rightarrow> bool \<times> bytes \<times> nal_unit list" where
  "parse_nals_avcc_to_annexb codec p = nal_loop codec p 0 []"

section \<open>Names of unit types\<close>

definition h264_type_name :: "int \<Rightarrow> string" where
  "h264_type_name t =
     (case map_of [(1, ''NON_IDR_SLICE''), (2, ''SLICE_DPA''), (3, ''SLICE_DPB''),
                   (4, ''SLICE_DPC''), (5, ''IDR_SLICE''), (6, ''SEI''), (7, ''SPS''),
                   (8, ''PPS''), (9, ''AUD''), (10, ''END_OF_SEQUENCE''), (11, ''END_OF_STREAM''),
                   (12, ''FILLER''), (13, ''SPS_EXT''), (14, ''PREFIX_NAL''),
                   (15, ''SUBSET_SPS''), (19, ''AUX_SLICE'')] t of
        Some n \<Rightarrow> n
      | None \<Rightarrow> ''TYPE_'' @ show_int t)"

definition hevc_type_name :: "int \<Rightarrow> string" where
  "hevc_type_name t =
     (case map_of [(0, ''TRAIL_N''), (1, ''TRAIL_R''), (2, ''TSA_N''), (3, ''TSA_R''),
                   (4, ''STSA_N''), (5, ''STSA_R''), (6, ''RADL_N''), (7, ''RADL_R''),
                   (8, ''RASL_N''), (9, ''RASL_R''), (16, ''BLA_W_LP''), (17, ''BLA_W_RADL''),
                   (18, ''BLA_N_LP''), (19, ''IDR_W_RADL''), (20, ''IDR_N_LP''),
                   (21, ''CRA_NUT''), (32, ''VPS''), (33, ''SPS''), (34, ''PPS''), (35, ''AUD''),
                   (36, ''EOS''), (37, ''EOB''), (38, ''FD''), (39, ''PREFIX_SEI''),
                   (40, ''SUFFIX_SEI'')] t of
        Some n \<Rightarrow> n
      | None \<Rightarrow> ''TYPE_'' @ show_int t)"

definition nal_type_name :: "int \<Rightarrow> nal_codec \<Rightarrow> string" where
  "nal_type_name t codec = (if codec = H264 then h264_type_name t else hevc_type_name t)"

section \<open>The two stream formats\<close>

definition avcc_encode :: "bytes list \<Rightarrow> bytes" where
  "avcc_encode nals = concat (map (\<lambda>n. put_be32 (word_of_nat (length n)) @ n) nals)"

definition annexb_encode :: "bytes list \<Rightarrow> bytes" where
  "annexb_encode nals = concat (map (\<lambda>n. [0, 0, 0, 1] @ n) nals)"

definition wf_nal :: "bytes \<Rightarrow> bool" where
  "wf_nal n \<longleftrightarrow> n \<noteq> [] \<and> length n < 2 ^ 32 \<and> hd n AND 0x80 = 0"

fun units_from :: "nal_codec \<Rightarrow> nat \<Rightarrow> bytes list \<Rightarrow> nal_unit list" where
  "units_from codec pos [] = []"
| "units_from codec pos (n # ns) =
     make_unit codec (hd n) (pos + 4) (length n) # units_from codec (pos + 4 + length n) ns"

lemma length_avcc_annexb: "length (avcc_encode nals) = length (annexb_encode nals)"
  by (induction nals) (simp_all add: avcc_encode_def annexb_encode_def)

lemma put_start_code_append:
  "put_start_code (pre @ a # b # c # d # r) (length pre) = pre @ 0 # 0 # 0 # 1 # r"
  by (simp add: put_start_code_def list_update_append numeral_2_eq_2 numeral_3_eq_3)

lemma nal_loop_encode:
  assumes "\<forall>n \<in> set nals. wf_nal n"
  shows "nal_loop codec (pre @ avcc_encode nals) (length pre) out
    = (True, pre @ annexb_encode nals, out @ units_from codec (length pre) nals)"
  using assms
proof (induction nals arbitrary: pre out)
  case Nil
  then show ?case by (simp add: nal_loop.simps avcc_encode_def annexb_encode_def)
next
  case (Cons n ns)
  define w :: u32 where "w = word_of_nat (length n)"
  let ?r = "n @ avcc_encode ns"
  let ?b = "pre @ put_be32 w @ ?r"
  have n: "n \<noteq> []" "length n < 2 ^ 32" "hd n AND 0x80 = 0" using Cons.prems by (simp_all add: wf_nal_def)
  have enc: "avcc_encode (n # ns) = put_be32 w @ ?r" by (simp add: avcc_encode_def w_def)
  have "length_prefix ?b (length pre) = unat w"
    by (simp add: length_prefix_def put_be32_def nth_append)
  then have lp: "length_prefix ?b (length pre) = length n"
    using n(2) by (simp add: w_def unat_of_nat)
  have nh: "?b ! (length pre + 4) = hd n"
    using n(1) by (simp add: nth_append hd_conv_nth)
  have sc: "put_start_code ?b (length pre) = (pre @ [0, 0, 0, 1] @ n) @ avcc_encode ns"
    using put_start_code_append by (simp add: put_be32_def)
  have len: "length pre + 4 + length n = length (pre @ [0, 0, 0, 1 :: byte] @ n)" by simp
  have "nal_loop codec ?b (length pre) out
      = nal_loop codec (put_start_code ?b (length pre)) (length pre + 4 + length n)
          (out @ [make_unit codec (hd n) (length pre + 4) (length n)])"
    using n lp nh by (subst nal_loop.simps) (simp add: Let_def)
  also have "\<dots> = (True, (pre @ [0, 0, 0, 1] @ n) @ annexb_encode ns,
      (out @ [make_unit codec (hd n) (length pre + 4) (length n)])
        @ units_from codec (length pre + 4 + length n) ns)"
    unfolding sc len using Cons.prems by (intro Cons.IH) simp
  finally show ?case by (simp add: enc annexb_encode_def add_ac)
qed

lemma nal_loop_sound:
  assumes "nal_loop codec p pos out = (ok, q, us)" and "pos \<le> length p"
  shows "\<exists>nals tail. drop pos p = avcc_encode nals @ tail \<and> (\<forall>n \<in> set nals. wf_nal n)
    \<and> q = take pos p @ annexb_encode nals @ tail \<and> us = out @ units_from codec pos nals
    \<and> (ok \<longrightarrow> tail = [])"
  using assms
proof (induction codec p pos out rule: nal_loop.induct)
  case (1 codec p pos out)
  let ?go = "pos < length p \<and> pos + 4 \<le> length p \<and> length_prefix p pos \<noteq> 0
    \<and> pos + 4 + length_prefix p pos \<le> length p \<and> p ! (pos + 4) AND 0x80 = 0"
  show ?case
  proof (cases ?go)
    case False
    with "1.prems" have "q = p \<and> us = out \<and> (ok \<longrightarrow> pos = length p)"
      by (auto simp: nal_loop.simps [of codec p] Let_def split: if_splits)
    then show ?thesis
      by (intro exI [of _ "[]"] exI [of _ "drop pos p"])
        (simp add: avcc_encode_def annexb_encode_def)
  next
    case go: True
    then have True: "pos < length p" by simp
    define len where "len = length_prefix p pos"
    define n where "n = substr p (pos + 4) len"
    from go have g: "pos + 4 \<le> length p" "len \<noteq> 0" "pos + 4 + len \<le> length p"
        "p ! (pos + 4) AND 0x80 = 0"
      by (simp_all add: len_def)
    with "1.prems" True have rec: "nal_loop codec (put_start_code p pos) (pos + 4 + len)
        (out @ [make_unit codec (p ! (pos + 4)) (pos + 4) len]) = (ok, q, us)"
      by (simp add: nal_loop.simps [of codec p] len_def Let_def)
    from "1.IH" [OF True _ refl _ refl] g rec obtain nals tail where nals:
      "drop (pos + 4 + len) (put_start_code p pos) = avcc_encode nals @ tail" "\<forall>n \<in> set nals. wf_nal n"
      "q = take (pos + 4 + len) (put_start_code p pos) @ annexb_encode nals @ tail"
      "ok \<longrightarrow> tail = []" "us = (out @ [make_unit codec (p ! (pos + 4)) (pos + 4) len]) @ units_from codec (pos + 4 + len) nals"
      by (auto simp: len_def)
    obtain a b c d r where dp: "drop pos p = a # b # c # d # r"
      by (rule length_ge_4E [of "drop pos p"]) (use g(1) True in auto)
    have p: "p = take pos p @ a # b # c # d # r" using dp by (metis append_take_drop_id)
    have lt: "length (take pos p) = pos" "min (length p) pos = pos" using True by simp_all
    have nths: "p ! pos = a" "p ! (pos + 1) = b" "p ! (pos + 2) = c" "p ! (pos + 3) = d" "drop (pos + 4) p = r"
      using lt by (subst p; simp add: nth_append)+
    have len: "len = unat (be32 a b c d)" unfolding len_def length_prefix_def nths ..
    then have w: "word_of_nat len = be32 a b c d" and len32: "len < 2 ^ 32"
      using unsigned_less [of "be32 a b c d"] by simp_all
    have "length r = length p - (pos + 4)" using nths(5) by (metis length_drop)
    moreover have "hd r = p ! (pos + 4)" using hd_drop_conv_nth [of "pos + 4" p] nths(5) g by simp
    ultimately have n: "n = take len r" "length n = len" "hd n = p ! (pos + 4)"
      using g by (simp_all add: n_def substr_def nths)
    have sc: "put_start_code p pos = take pos p @ 0 # 0 # 0 # 1 # r"
      using put_start_code_append [of "take pos p" a b c d r] p lt by simp
    have r: "r = n @ drop len r" using n by simp
    have drop_sc: "drop (pos + 4 + len) (put_start_code p pos) = drop len r"
      using lt by (simp add: sc eval_nat_numeral add.commute)
    have take_sc: "take (pos + 4 + len) (put_start_code p pos) = take pos p @ [0, 0, 0, 1] @ n"
      using n lt by (simp add: sc eval_nat_numeral add.commute)
    have "wf_nal n" using n g len32 by (auto simp: wf_nal_def)
    moreover have "drop pos p = avcc_encode (n # nals) @ tail"
    proof -
      have "r = n @ avcc_encode nals @ tail" using r nals(1) drop_sc by metis
      moreover have "put_be32 (word_of_nat (length n)) = [a, b, c, d]" using n w by simp
      ultimately show ?thesis using dp by (simp add: avcc_encode_def)
    qed
    moreover have "q = take pos p @ annexb_encode (n # nals) @ tail"
      using nals(3) take_sc by (simp add: annexb_encode_def)
    moreover have "us = out @ units_from codec pos (n # nals)"
      using nals(5) n by simp
    ultimately show ?thesis
      using nals(2,4) by (intro exI [of _ "n # nals"] exI [of _ tail]) simp
  qed
qed

lemma units_from_mem:
  "u \<in> set (units_from codec pos ns) \<Longrightarrow>
     \<exists>pre n post. ns = pre @ n # post
       \<and> u = make_unit codec (hd n) (pos + length (annexb_encode pre) + 4) (length n)"
proof (induction ns arbitrary: pos)
  case Nil
  then show ?case by simp
next
  case (Cons n ns)
  show ?case
  proof (cases "u = make_unit codec (hd n) (pos + 4) (length n)")
    case True
    then show ?thesis
      by (intro exI [of _ "[]"] exI [of _ n] exI [of _ ns]) (simp add: annexb_encode_def)
  next
    case False
    with Cons.prems have "u \<in> set (units_from codec (pos + 4 + length n) ns)" by simp
    from Cons.IH [OF this] obtain pre m post where
      "ns = pre @ m # post"
      "u = make_unit codec (hd m) (pos + 4 + length n + length (annexb_encode pre) + 4) (length m)"
      by blast
    then show ?thesis
      by (intro exI [of _ "n # pre"] exI [of _ m] exI [of _ post])
        (simp add: annexb_encode_def add_ac)
  qed
qed

lemma make_unit_place [simp]:
  "nal_offset (make_unit codec nh off len) = off" "nal_size (make_unit codec nh off len) = len"
  by (cases codec; simp add: make_unit_def)+

section \<open>Properties\<close>

text \<open>C13: The conversion succeeds on exactly the payloads that are a sequence of well-formed
  length-prefixed NAL units (non-empty, forbidden_zero_bit clear); then the payload becomes the
  Annex-B encoding of the same units, and the units reported are those of the sequence.\<close>

theorem nal_conversion_exact:
  "parse_nals_avcc_to_annexb codec p = (True, q, us) \<longleftrightarrow>
     (\<exists>nals. list_all wf_nal nals \<and> p = avcc_encode nals
        \<and> q = annexb_encode nals \<and> us = units_from codec 0 nals)"
proof
  assume "parse_nals_avcc_to_annexb codec p = (True, q, us)"
  then show "\<exists>nals. list_all wf_nal nals \<and> p = avcc_encode nals
      \<and> q = annexb_encode nals \<and> us = units_from codec 0 nals"
    using nal_loop_sound [of codec p 0 "[]" True q us]
    by (auto simp: list_all_iff parse_nals_avcc_to_annexb_def)
next
  assume "\<exists>nals. list_all wf_nal nals \<and> p = avcc_encode nals
      \<and> q = annexb_encode nals \<and> us = units_from codec 0 nals"
  then show "parse_nals_avcc_to_annexb codec p = (True, q, us)"
    using nal_loop_encode [of _ codec "[]" "[]"] by (auto simp: list_all_iff parse_nals_avcc_to_annexb_def)
qed

text \<open>On every payload, malformed ones included, each reported unit lies inside the
  payload behind a 4-byte start code, its bytes are those of the input, and the payload keeps
  its length.\<close>

theorem nal_units_in_bounds:
  assumes "parse_nals_avcc_to_annexb codec p = (ok, q, us)" and "u \<in> set us"
  shows "length q = length p \<and> 4 \<le> nal_offset u \<and> 0 < nal_size u
    \<and> nal_offset u + nal_size u \<le> length p
    \<and> substr q (nal_offset u - 4) 4 = [0, 0, 0, 1]
    \<and> substr q (nal_offset u) (nal_size u) = substr p (nal_offset u) (nal_size u)"
proof -
  obtain nals tail where d: "p = avcc_encode nals @ tail" "\<forall>n \<in> set nals. wf_nal n"
      "q = annexb_encode nals @ tail" "us = units_from codec 0 nals"
    using nal_loop_sound [of codec p 0 "[]" ok q us] assms(1)
    by (auto simp: parse_nals_avcc_to_annexb_def)
  obtain pre n post where n: "nals = pre @ n # post"
      "u = make_unit codec (hd n) (length (annexb_encode pre) + 4) (length n)"
    using units_from_mem [of u codec 0 nals] assms(2) d(4) by auto
  have q: "q = annexb_encode pre @ [0, 0, 0, 1] @ n @ annexb_encode post @ tail"
    using d(3) n(1) by (simp add: annexb_encode_def)
  have p: "p = avcc_encode pre @ put_be32 (word_of_nat (length n)) @ n @ avcc_encode post @ tail"
    using d(1) n(1) by (simp add: avcc_encode_def)
  have "n \<noteq> []" using d(2) n(1) by (auto simp: wf_nal_def)
  then show ?thesis
    using n(2) by (simp add: q p substr_def length_avcc_annexb)
qed

theorem nal_units_in_bounds_witness:
  "\<exists>q us. parse_nals_avcc_to_annexb H264 [0, 0, 0, 2, 0x65, 7, 0, 0] = (False, q, us)
    \<and> us \<noteq> [] \<and> (\<forall>u. u \<in> set us \<longrightarrow> nal_offset u + nal_size u \<le> 8)"
proof -
  let ?p = "[0, 0, 0, 2, 0x65, 7, 0, 0] :: bytes"
  have r: "parse_nals_avcc_to_annexb H264 ?p
      = (False, [0, 0, 0, 1, 0x65, 7, 0, 0], [make_unit H264 0x65 4 2])"
    by (simp add: parse_nals_avcc_to_annexb_def nal_loop.simps length_prefix_def be32_def
        put_start_code_def)
  show ?thesis
    using r nal_units_in_bounds [OF r] by auto
qed

end
