(* ===== verification/Sdp.thy ===== *)
theory Sdp
  imports Prelude
begin

text \<open>
  src/airplay/sdp.cpp: the session description of an ANNOUNCE body. The parser walks the lines
  once and keeps the fields the receiver may need later; everything else is skipped. The pointer
  \<open>current\<close> of the source always addresses the last element of \<open>medias\<close>, so it is the
  last media of the session here, absent while the list is empty.
\<close>

section \<open>Sessions\<close>

record sdp_media =
  md_type :: string
  md_payload :: int
  md_rtpmap :: string
  md_fmtp :: string

record sdp_session =
  sd_origin :: string
  sd_connection :: string
  sd_medias :: "sdp_media list"
  sd_rsaaeskey :: string
  sd_aesiv :: string

definition empty_sdp :: sdp_session where
  "empty_sdp = \<lparr>sd_origin = [], sd_connection = [], sd_medias = [], sd_rsaaeskey = [], sd_aesiv = []\<rparr>"

section \<open>Parsing\<close>

definition sdp_blank :: "char \<Rightarrow> bool" where
  "sdp_blank c \<longleftrightarrow> c = CHR '' '' \<or> c = tab \<or> c = cr"

definition sdp_trim :: "string \<Rightarrow> string" where
  "sdp_trim s = trim_set sdp_blank s"

definition split_colon :: "string \<Rightarrow> string \<times> string" where
  "split_colon s =
     (case find_pred (\<lambda>c. c = CHR '':'') s of
        None \<Rightarrow> (s, [])
      | Some p \<Rightarrow> (take p s, drop (p + 1) s))"

text \<open>\<open>ls >> a >> b >> ...\<close> on strings: the n-th word of the stream, empty once a read failed;
  and what is left for a read after n words.\<close>

fun words_rest :: "nat \<Rightarrow> string \<Rightarrow> string list \<times> string" where
  "words_rest 0 s = ([], s)"
| "words_rest (Suc n) s =
     (case next_token s of
        None \<Rightarrow> (replicate (Suc n) [], [])
      | Some (w, r) \<Rightarrow> (let (ws, t) = words_rest n r in (w # ws, t)))"

declare words_rest.simps(2) [simp del]

text \<open>\<open>ls >> m.payload_type\<close>: 0 when no number follows, the nearest bound when it does not fit.\<close>

definition extract_int :: "string \<Rightarrow> int" where
  "extract_int s =
     (case parse_int s of
        None \<Rightarrow> 0
      | Some (neg, m) \<Rightarrow> (if neg then max (- (2 ^ 31)) (- int m) else min (2 ^ 31 - 1) (int m)))"

definition origin_line :: "string \<Rightarrow> sdp_session \<Rightarrow> sdp_session" where
  "origin_line val out = out\<lparr>sd_origin := fst (words_rest 6 val) ! 5\<rparr>"

definition connection_line :: "string \<Rightarrow> sdp_session \<Rightarrow> sdp_session" where
  "connection_line val out = out\<lparr>sd_connection := fst (words_rest 3 val) ! 2\<rparr>"

definition media_line :: "string \<Rightarrow> sdp_session \<Rightarrow> sdp_session" where
  "media_line val out =
     (let (ws, r) = words_rest 3 val
      in out\<lparr>sd_medias := sd_medias out @
          [\<lparr>md_type = ws ! 0, md_payload = extract_int r, md_rtpmap = [], md_fmtp = []\<rparr>]\<rparr>)"

definition on_current :: "(sdp_media \<Rightarrow> sdp_media) \<Rightarrow> sdp_session \<Rightarrow> sdp_session" where
  "on_current f out = out\<lparr>sd_medias := butlast (sd_medias out) @ [f (last (sd_medias out))]\<rparr>"

definition attribute_line :: "string \<Rightarrow> sdp_session \<Rightarrow> sdp_session" where
  "attribute_line val out =
     (let (k, v) = split_colon val; current = (sd_medias out \<noteq> [])
      in if k = ''rtpmap'' \<and> current then on_current (\<lambda>m. m\<lparr>md_rtpmap := v\<rparr>) out
         else if k = ''fmtp'' \<and> current then on_current (\<lambda>m. m\<lparr>md_fmtp := v\<rparr>) out
         else if k = ''rsaaeskey'' then out\<lparr>sd_rsaaeskey := v\<rparr>
         else if k = ''aesiv'' then out\<lparr>sd_aesiv := v\<rparr>
         else out)"

definition sdp_line :: "string \<Rightarrow> bool \<times> sdp_session \<Rightarrow> bool \<times> sdp_session" where
  "sdp_line raw st =
     (let line = sdp_trim raw; (saw_v, out) = st
      in if length line < 2 \<or> line ! 1 \<noteq> CHR ''='' then st
         else (let ty = line ! 0; val = drop 2 line
               in if ty = CHR ''v'' then (True, out)
                  else if ty = CHR ''o'' then (saw_v, origin_line val out)
                  else if ty = CHR ''c'' then (saw_v, connection_line val out)
                  else if ty = CHR ''m'' then (saw_v, media_line val out)
                  else if ty = CHR ''a'' then (saw_v, attribute_line val out)
                  else st))"

definition parse_sdp :: "string \<Rightarrow> bool \<times> sdp_session" where
  "parse_sdp text = fold sdp_line (lines_of text) (False, empty_sdp)"

section \<open>Rendering\<close>

definition sdp_attr :: "string \<Rightarrow> string \<Rightarrow> string" where
  "sdp_attr k v = ''a='' @ k @ '':'' @ v @ [cr]"

definition render_media :: "sdp_media \<Rightarrow> string list" where
  "render_media m =
     [''m='' @ md_type m @ '' 0 RTP/AVP '' @ show_int (md_payload m) @ [cr],
      sdp_attr ''rtpmap'' (md_rtpmap m), sdp_attr ''fmtp'' (md_fmtp m)]"

definition render_lines :: "sdp_session \<Rightarrow> string list" where
  "render_lines s =
     [''v=0'' @ [cr], ''o=iTunes 1 0 IN IP4 '' @ sd_origin s @ [cr],
      ''c=IN IP4 '' @ sd_connection s @ [cr]]
     @ concat (map render_media (sd_medias s))
     @ [sdp_attr ''rsaaeskey'' (sd_rsaaeskey s), sdp_attr ''aesiv'' (sd_aesiv s)]"

definition render_sdp :: "sdp_session \<Rightarrow> string" where
  "render_sdp s = concat (map (\<lambda>l. l @ [nl]) (render_lines s))"

text \<open>A value survives when it has no newline and no blank at its end; a word has no space.\<close>

definition sdp_value :: "string \<Rightarrow> bool" where
  "sdp_value v \<longleftrightarrow> nl \<notin> set v \<and> (v \<noteq> [] \<longrightarrow> \<not> sdp_blank (last v))"

definition sdp_word :: "string \<Rightarrow> bool" where
  "sdp_word w \<longleftrightarrow> w \<noteq> [] \<and> list_all (\<lambda>c. \<not> isspace c) w"

definition wf_media :: "sdp_media \<Rightarrow> bool" where
  "wf_media m \<longleftrightarrow> sdp_word (md_type m) \<and> - (2 ^ 31) \<le> md_payload m \<and> md_payload m < 2 ^ 31
     \<and> sdp_value (md_rtpmap m) \<and> sdp_value (md_fmtp m)"

definition wf_sdp :: "sdp_session \<Rightarrow> bool" where
  "wf_sdp s \<longleftrightarrow> sdp_word (sd_origin s) \<and> sdp_word (sd_connection s) \<and> list_all wf_media (sd_medias s)
     \<and> sdp_value (sd_rsaaeskey s) \<and> sdp_value (sd_aesiv s)"

section \<open>Lemmas\<close>

lemma sdp_blank_isspace: "sdp_blank c \<Longrightarrow> isspace c"
  by (auto simp: sdp_blank_def isspace_def ctl_defs)

lemma sdp_trim_line:
  assumes "u \<noteq> []" and "\<not> sdp_blank (hd u)" and "\<not> sdp_blank (last u)"
  shows "sdp_trim (u @ [cr]) = u"
proof -
  have "dropWhile sdp_blank (u @ [cr]) = u @ [cr]" using assms by (cases u) auto
  moreover have "sdp_blank cr" by (simp add: sdp_blank_def)
  moreover have "dropWhile sdp_blank (rev u) = rev u"
    using assms by (cases u rule: rev_cases) auto
  ultimately show ?thesis by (simp add: sdp_trim_def trim_set_def)
qed

lemma sdp_line_eval:
  assumes "\<not> sdp_blank t" and "\<not> sdp_blank (last (CHR ''='' # val))"
  shows "sdp_line (t # CHR ''='' # val @ [cr]) (sv, out) =
    (if t = CHR ''v'' then (True, out)
     else if t = CHR ''o'' then (sv, origin_line val out)
     else if t = CHR ''c'' then (sv, connection_line val out)
     else if t = CHR ''m'' then (sv, media_line val out)
     else if t = CHR ''a'' then (sv, attribute_line val out) else (sv, out))"
  using sdp_trim_line [of "t # CHR ''='' # val"] assms
  by (simp add: sdp_line_def)

lemma words_rest_word:
  assumes "words_rest n r = (ws, t)" and "sdp_word w" and "r \<noteq> [] \<Longrightarrow> isspace (hd r)"
  shows "words_rest (Suc n) (w @ r) = (w # ws, t)"
    and "words_rest (Suc n) (CHR '' '' # w @ r) = (w # ws, t)"
  using next_token_word [of w r] assms
  by (simp_all add: sdp_word_def list_all_iff next_token_space isspace_def
    words_rest.simps(2))

lemma sdp_word_consts:
  "sdp_word ''iTunes''" "sdp_word ''1''" "sdp_word ''0''" "sdp_word ''IN''" "sdp_word ''IP4''"
  "sdp_word ''RTP/AVP''"
  by (simp_all add: sdp_word_def isspace_def)

lemma sdp_word_last: "sdp_word w \<Longrightarrow> w \<noteq> [] \<and> \<not> sdp_blank (last w)"
  by (auto simp: sdp_word_def list_all_iff dest: sdp_blank_isspace)

lemma extract_int_show_int:
  "- (2 ^ 31) \<le> i \<Longrightarrow> i < 2 ^ 31 \<Longrightarrow> extract_int (CHR '' '' # show_int i) = i"
proof -
  assume i: "- (2 ^ 31) \<le> i" "i < 2 ^ 31"
  have "parse_int (CHR '' '' # show_int i) = parse_int (show_int i)"
    by (simp add: parse_int_def isspace_def)
  then show ?thesis using i by (auto simp: extract_int_def parse_int_show_int)
qed

lemma split_colon_key: "CHR '':'' \<notin> set k \<Longrightarrow> split_colon (k @ CHR '':'' # v) = (k, v)"
proof -
  assume "CHR '':'' \<notin> set k"
  then have "\<forall>x \<in> set k. \<not> x = CHR '':''" by blast
  from find_pred_skip [OF this refl, of v] show ?thesis by (simp add: split_colon_def)
qed

lemma attribute_lines:
  "sd_medias out \<noteq> [] \<Longrightarrow> attribute_line (''rtpmap:'' @ v) out = on_current (\<lambda>m. m\<lparr>md_rtpmap := v\<rparr>) out"
  "sd_medias out \<noteq> [] \<Longrightarrow> attribute_line (''fmtp:'' @ v) out = on_current (\<lambda>m. m\<lparr>md_fmtp := v\<rparr>) out"
  "attribute_line (''rsaaeskey:'' @ v) out = out\<lparr>sd_rsaaeskey := v\<rparr>"
  "attribute_line (''aesiv:'' @ v) out = out\<lparr>sd_aesiv := v\<rparr>"
  using split_colon_key [of "''rtpmap''" v] split_colon_key [of "''fmtp''" v]
    split_colon_key [of "''rsaaeskey''" v] split_colon_key [of "''aesiv''" v]
  by (simp_all add: attribute_line_def)

lemma sdp_attr_line:
  assumes "sdp_value v" and "CHR '':'' \<notin> set k" and "k \<noteq> []"
  shows "sdp_line (sdp_attr k v) (sv, out) = (sv, attribute_line (k @ CHR '':'' # v) out)"
proof -
  have "\<not> sdp_blank (last (CHR ''='' # k @ CHR '':'' # v))"
    using assms by (auto simp: sdp_value_def sdp_blank_def ctl_defs)
  moreover have "\<not> sdp_blank (CHR ''a'')" by (simp add: sdp_blank_def ctl_defs)
  ultimately show ?thesis
    using sdp_line_eval [of "CHR ''a''" "k @ CHR '':'' # v" sv out] by (simp add: sdp_attr_def)
qed

lemma fold_render_media:
  assumes "wf_media m"
  shows "fold sdp_line (render_media m) (sv, out)
    = (sv, out\<lparr>sd_medias := sd_medias out @ [m]\<rparr>)"
proof -
  have w: "sdp_word (md_type m)" using assms by (simp add: wf_media_def)
  have mv: "media_line (md_type m @ '' 0 RTP/AVP '' @ show_int (md_payload m)) out
      = out\<lparr>sd_medias := sd_medias out @
          [\<lparr>md_type = md_type m, md_payload = md_payload m, md_rtpmap = [], md_fmtp = []\<rparr>]\<rparr>"
  proof -
    let ?i = "CHR '' '' # show_int (md_payload m)"
    have "words_rest 0 ?i = ([], ?i)" by simp
    from words_rest_word(2) [OF this sdp_word_consts(6)]
    have "words_rest 1 (CHR '' '' # ''RTP/AVP'' @ ?i) = ([''RTP/AVP''], ?i)" by (simp add: isspace_def)
    from words_rest_word(2) [OF this sdp_word_consts(3)]
    have "words_rest 2 ('' 0 RTP/AVP'' @ ?i) = ([''0'', ''RTP/AVP''], ?i)"
      by (simp add: isspace_def numeral_2_eq_2)
    from words_rest_word(1) [OF this w]
    have "words_rest 3 (md_type m @ '' 0 RTP/AVP'' @ ?i) = ([md_type m, ''0'', ''RTP/AVP''], ?i)"
      by (simp add: isspace_def numeral_3_eq_3 numeral_2_eq_2)
    moreover have "extract_int ?i = md_payload m"
      using assms by (intro extract_int_show_int) (simp_all add: wf_media_def)
    ultimately show ?thesis by (simp add: media_line_def)
  qed
  have "\<not> sdp_blank (last (show_int (md_payload m)))"
    using show_int_chars [of "last (show_int (md_payload m))" "md_payload m"]
      isdigit_not_isspace sdp_blank_isspace
    by (fastforce simp: sdp_blank_def ctl_defs)
  then have "sdp_line (''m='' @ md_type m @ '' 0 RTP/AVP '' @ show_int (md_payload m) @ [cr]) (sv, out)
      = (sv, media_line (md_type m @ '' 0 RTP/AVP '' @ show_int (md_payload m)) out)"
    using sdp_line_eval [of "CHR ''m''" "md_type m @ '' 0 RTP/AVP '' @ show_int (md_payload m)" sv out]
    by (simp add: sdp_blank_def ctl_defs)
  then show ?thesis
    using assms mv
    by (simp add: render_media_def sdp_attr_line wf_media_def attribute_lines [simplified]
        on_current_def)
qed

lemma fold_render_medias:
  "list_all wf_media ms \<Longrightarrow> fold sdp_line (concat (map render_media ms)) (sv, out)
    = (sv, out\<lparr>sd_medias := sd_medias out @ ms\<rparr>)"
  by (induction ms arbitrary: out) (simp_all add: fold_render_media)

lemma render_lines_nl:
  assumes "wf_sdp s" and "l \<in> set (render_lines s)"
  shows "nl \<notin> set l"
proof -
  have sp: "nl \<notin> set w" if "sdp_word w" for w
    using that by (auto simp: sdp_word_def list_all_iff isspace_def nl_def)
  have si: "nl \<notin> set (show_int i)" for i
    using show_int_chars [of nl i] by (auto simp: isdigit_def nl_def)
  show ?thesis
    using assms sp si
    by (auto simp: render_lines_def render_media_def sdp_attr_def wf_sdp_def wf_media_def
        sdp_value_def list_all_iff ctl_defs)
qed

lemma origin_connection_lines:
  assumes "sdp_word w"
  shows "sdp_line (''o=iTunes 1 0 IN IP4 '' @ w @ [cr]) (sv, out) = (sv, out\<lparr>sd_origin := w\<rparr>)"
    and "sdp_line (''c=IN IP4 '' @ w @ [cr]) (sv, out) = (sv, out\<lparr>sd_connection := w\<rparr>)"
proof -
  note l = sdp_word_last [OF assms]
  have "words_rest 0 [] = ([], [])" by simp
  from words_rest_word(2) [OF this assms]
  have "words_rest 1 (CHR '' '' # w) = ([w], [])" by simp
  from words_rest_word(2) [OF this sdp_word_consts(5)]
  have w2: "words_rest 2 ('' IP4 '' @ w) = ([''IP4'', w], [])"
    by (simp add: isspace_def numeral_2_eq_2)
  from words_rest_word [OF w2 sdp_word_consts(4)]
  have c: "words_rest 3 (''IN IP4 '' @ w) = ([''IN'', ''IP4'', w], [])"
    and w3: "words_rest 3 ('' IN IP4 '' @ w) = ([''IN'', ''IP4'', w], [])"
    by (simp_all add: isspace_def numeral_3_eq_3 numeral_2_eq_2)
  from words_rest_word(2) [OF w3 sdp_word_consts(3)]
  have "words_rest 4 ('' 0 IN IP4 '' @ w) = ([''0'', ''IN'', ''IP4'', w], [])"
    by (simp add: isspace_def eval_nat_numeral)
  from words_rest_word(2) [OF this sdp_word_consts(2)]
  have "words_rest 5 ('' 1 0 IN IP4 '' @ w) = ([''1'', ''0'', ''IN'', ''IP4'', w], [])"
    by (simp add: isspace_def eval_nat_numeral)
  from words_rest_word(1) [OF this sdp_word_consts(1)]
  have "words_rest 6 (''iTunes 1 0 IN IP4 '' @ w) = ([''iTunes'', ''1'', ''0'', ''IN'', ''IP4'', w], [])"
    by (simp add: isspace_def eval_nat_numeral)
  then show "sdp_line (''o=iTunes 1 0 IN IP4 '' @ w @ [cr]) (sv, out) = (sv, out\<lparr>sd_origin := w\<rparr>)"
    using sdp_line_eval [of "CHR ''o''" "''iTunes 1 0 IN IP4 '' @ w" sv out] l
    by (simp add: sdp_blank_def ctl_defs origin_line_def)
  show "sdp_line (''c=IN IP4 '' @ w @ [cr]) (sv, out) = (sv, out\<lparr>sd_connection := w\<rparr>)"
    using sdp_line_eval [of "CHR ''c''" "''IN IP4 '' @ w" sv out] l c
    by (simp add: sdp_blank_def ctl_defs connection_line_def)
qed

section \<open>Properties\<close>

text \<open>Parsing the rendering of a session description gives that session back: addresses,
  every media with its attributes in order, and the key blobs including any '=' at their end.\<close>

theorem sdp_roundtrip:
  assumes "wf_sdp s"
  shows "parse_sdp (render_sdp s) = (True, s)"
proof -
  have "lines_of (render_sdp s) = render_lines s"
    unfolding render_sdp_def using render_lines_nl [OF assms] by (intro lines_of_concat) blast
  moreover have v: "sdp_line (''v=0'' @ [cr]) (sv, out) = (True, out)" for sv out
    using sdp_line_eval [of "CHR ''v''" "''0''" sv out] by (simp add: sdp_blank_def ctl_defs)
  ultimately show ?thesis
    using assms
    by (simp add: parse_sdp_def render_lines_def v [simplified] origin_connection_lines [simplified] fold_render_medias
        wf_sdp_def sdp_attr_line attribute_lines [simplified] empty_sdp_def)
qed

text \<open>The session of the witness.\<close>

definition sample_sdp :: sdp_session where
  "sample_sdp = \<lparr>sd_origin = ''10.0.0.2'', sd_connection = ''10.0.0.9'',
     sd_medias = [\<lparr>md_type = ''audio'', md_payload = 96, md_rtpmap = ''96 AppleLossless'',
                   md_fmtp = ''96 352 0 16 40 10 14 2 255 0 0 44100''\<rparr>],
     sd_rsaaeskey = ''5QYIqmdZGTONY5SHjEJrqAhaa0W9wzDC5i6q221mdGZJ5ubO6Kg='',
     sd_aesiv = ''zcZmAZtqh7uGcEwPXk0QeA==''\<rparr>"

theorem sdp_roundtrip_witness:
  "parse_sdp (render_sdp sample_sdp) = (True, sample_sdp)"
proof (rule sdp_roundtrip)
  show "wf_sdp sample_sdp"
    by (simp add: wf_sdp_def wf_media_def sample_sdp_def sdp_word_def sdp_value_def sdp_blank_def
        isspace_def ctl_defs)
qed

end
