(* ===== verification/Daap.thy ===== *)
theory Daap
  imports Prelude
begin

text \<open>
  src/airplay/daap.cpp: now-playing metadata from a DMAP body. An entry is a 4-byte tag, a
  big-endian 32-bit length and that many bytes; three container tags nest further entries.
  \<open>8 + e.length\<close> is computed in 32 bits by the source and is so here: a step of 0 repeats the
  same entry for ever, which is the value \<open>None\<close>.
\<close>

section \<open>The walk\<close>

record daap_metadata =
  dm_title :: string
  dm_artist :: string
  dm_album :: string
  dm_duration :: u32

definition empty_daap :: daap_metadata where
  "empty_daap = \<lparr>dm_title = [], dm_artist = [], dm_album = [], dm_duration = 0\<rparr>"

record dmap_entry =
  en_tag :: string
  en_length :: u32
  en_data :: bytes

definition parse_one :: "bytes \<Rightarrow> dmap_entry option" where
  "parse_one p =
     (if length p < 8 then None
      else let len = be32 (p ! 4) (p ! 5) (p ! 6) (p ! 7)
           in if 8 + unat len > length p then None
              else Some \<lparr>en_tag = of_bytes (take 4 p), en_length = len,
                         en_data = substr p 8 (unat len)\<rparr>)"

definition leaf_field :: "string \<Rightarrow> bytes \<Rightarrow> daap_metadata \<Rightarrow> daap_metadata" where
  "leaf_field tag d out =
     (if tag = ''minm'' then out\<lparr>dm_title := of_bytes d\<rparr>
      else if tag = ''asar'' then out\<lparr>dm_artist := of_bytes d\<rparr>
      else if tag = ''asal'' then out\<lparr>dm_album := of_bytes d\<rparr>
      else if tag = ''astm'' \<and> length d = 4 then out\<lparr>dm_duration := be32 (d ! 0) (d ! 1) (d ! 2) (d ! 3)\<rparr>
      else out)"

definition is_container :: "string \<Rightarrow> bool" where
  "is_container tag \<longleftrightarrow> tag = ''mlit'' \<or> tag = ''mcon'' \<or> tag = ''mlcl''"

function walk_children :: "nat \<Rightarrow> bytes \<Rightarrow> nat \<Rightarrow> daap_metadata \<Rightarrow> daap_metadata option" where
  "walk_children depth p pos out =
     (if depth > 4 then Some out
      else if pos + 8 \<le> length p
      then (case parse_one (drop pos p) of
              None \<Rightarrow> Some out
            | Some e \<Rightarrow>
                (if 8 + en_length e = 0 then None
                 else case (if is_container (en_tag e)
                            then walk_children (Suc depth) (en_data e) 0 out
                            else Some (leaf_field (en_tag e) (en_data e) out)) of
                        None \<Rightarrow> None
                      | Some out' \<Rightarrow> walk_children depth p (pos + unat (8 + en_length e)) out'))
      else Some out)"
  by pat_completeness auto
termination
  by (relation "measures [\<lambda>(depth, p, pos, out). 5 - depth, \<lambda>(depth, p, pos, out). length p - pos]")
    (auto intro!: diff_less_mono2 simp: unat_gt_0)

declare walk_children.simps [simp del]

definition no_fields :: "daap_metadata \<Rightarrow> bool" where
  "no_fields m \<longleftrightarrow> dm_title m = [] \<and> dm_artist m = [] \<and> dm_album m = [] \<and> dm_duration m = 0"

definition parse_daap_mlit :: "bytes \<Rightarrow> (bool \<times> daap_metadata) option" where
  "parse_daap_mlit body =
     (if length body < 8 then Some (False, empty_daap)
      else case walk_children 0 body 0 empty_daap of
             None \<Rightarrow> None
           | Some out \<Rightarrow> Some (\<not> no_fields out, out))"

section \<open>The documents\<close>

datatype dmap = Leaf string bytes | Node string "dmap list"

fun dmap_encode :: "dmap \<Rightarrow> bytes" where
  "dmap_encode (Leaf t d) = to_bytes t @ put_be32 (word_of_nat (length d)) @ d"
| "dmap_encode (Node t cs) =
     (let d = concat (map dmap_encode cs)
      in to_bytes t @ put_be32 (word_of_nat (length d)) @ d)"

fun wf_dmap :: "dmap \<Rightarrow> bool" where
  "wf_dmap (Leaf t d) \<longleftrightarrow> length t = 4 \<and> \<not> is_container t"
| "wf_dmap (Node t cs) \<longleftrightarrow> length t = 4 \<and> is_container t \<and> list_all wf_dmap cs"

text \<open>What a document says: later fields win, and containers nested deeper than four levels
  below the root are not looked into.\<close>

fun dmap_fields :: "nat \<Rightarrow> dmap \<Rightarrow> daap_metadata \<Rightarrow> daap_metadata" where
  "dmap_fields depth (Leaf t d) out = leaf_field t d out"
| "dmap_fields depth (Node t cs) out =
     (if depth \<ge> 4 then out else fold (dmap_fields (Suc depth)) cs out)"

section \<open>Lemmas\<close>

lemma parse_one_encode:
  assumes "length t = 4" and "8 + length d < 2 ^ 32"
  shows "parse_one (to_bytes t @ put_be32 (word_of_nat (length d)) @ d @ rest)
    = Some \<lparr>en_tag = t, en_length = word_of_nat (length d), en_data = d\<rparr>"
proof -
  define w :: u32 where "w = word_of_nat (length d)"
  have w: "unat w = length d" using assms(2) by (simp add: w_def unat_of_nat)
  let ?p = "to_bytes t @ put_be32 w @ d @ rest"
  have "be32 (?p ! 4) (?p ! 5) (?p ! 6) (?p ! 7) = w"
    using put_be32_nth [of w] assms(1) by (simp add: nth_append)
  then show ?thesis
    using assms(1) w by (simp add: parse_one_def substr_def flip: w_def)
qed

lemma entry_step:
  assumes "8 + n < 2 ^ 32"
  shows "unat (8 + word_of_nat n :: u32) = 8 + n" and "(8 + word_of_nat n :: u32) \<noteq> 0"
proof -
  have "unat (8 + word_of_nat n :: u32) = unat (word_of_nat (8 + n) :: u32)" by simp
  also have "\<dots> = 8 + n" using assms by (simp add: unat_of_nat del: of_nat_add)
  finally show u: "unat (8 + word_of_nat n :: u32) = 8 + n" .
  then show "(8 + word_of_nat n :: u32) \<noteq> 0" by force
qed

definition walks_over :: "dmap \<Rightarrow> bool" where
  "walks_over c \<longleftrightarrow> (\<forall>depth pre rest out. depth \<le> 4 \<longrightarrow> length (dmap_encode c) < 2 ^ 32 \<longrightarrow>
     walk_children depth (pre @ dmap_encode c @ rest) (length pre) out
       = walk_children depth (pre @ dmap_encode c @ rest) (length pre + length (dmap_encode c))
           (dmap_fields depth c out))"

lemma walk_over_list:
  assumes "\<forall>c \<in> set cs. walks_over c" and "length (concat (map dmap_encode cs)) < 2 ^ 32" and "depth \<le> 4"
  shows "walk_children depth (pre @ concat (map dmap_encode cs)) (length pre) out
    = Some (fold (dmap_fields depth) cs out)"
  using assms
proof (induction cs arbitrary: pre out)
  case Nil
  then show ?case by (simp add: walk_children.simps)
next
  case (Cons c cs)
  let ?r = "concat (map dmap_encode cs)"
  have "walk_children depth (pre @ dmap_encode c @ ?r) (length pre) out
      = walk_children depth (pre @ dmap_encode c @ ?r) (length pre + length (dmap_encode c))
          (dmap_fields depth c out)"
    using Cons.prems by (simp add: walks_over_def)
  also have "\<dots> = walk_children depth ((pre @ dmap_encode c) @ ?r) (length (pre @ dmap_encode c))
          (dmap_fields depth c out)" by simp
  also have "\<dots> = Some (fold (dmap_fields depth) cs (dmap_fields depth c out))"
    using Cons.prems by (intro Cons.IH) auto
  finally show ?case by simp
qed

lemma walk_entry:
  assumes "length t = 4" and "8 + length d < 2 ^ 32" and "depth \<le> 4"
    and "e = to_bytes t @ put_be32 (word_of_nat (length d)) @ d"
  shows "walk_children depth (pre @ e @ rest) (length pre) out
    = (case (if is_container t then walk_children (Suc depth) d 0 out
             else Some (leaf_field t d out)) of
         None \<Rightarrow> None
       | Some out' \<Rightarrow> walk_children depth (pre @ e @ rest) (length pre + length e) out')"
  using assms parse_one_encode [OF assms(1,2), of rest] entry_step [of "length d"]
  by (subst walk_children.simps) (simp split: option.split)

lemma wf_walks_over: "wf_dmap c \<Longrightarrow> walks_over c"
proof (induction c)
  case (Leaf t d)
  then have t: "length t = 4" "\<not> is_container t" by simp_all
  show ?case
    unfolding walks_over_def
  proof (intro allI impI)
    fix depth :: nat and pre rest out
    assume "depth \<le> 4" and "length (dmap_encode (Leaf t d)) < 2 ^ 32"
    then show "walk_children depth (pre @ dmap_encode (Leaf t d) @ rest) (length pre) out
      = walk_children depth (pre @ dmap_encode (Leaf t d) @ rest)
          (length pre + length (dmap_encode (Leaf t d))) (dmap_fields depth (Leaf t d) out)"
      using walk_entry [of t d depth "dmap_encode (Leaf t d)" pre rest out] t by simp
  qed
next
  case (Node t cs)
  let ?d = "concat (map dmap_encode cs)"
  have all: "\<forall>c \<in> set cs. walks_over c" and t: "length t = 4" "is_container t"
    using Node by (auto simp: list_all_iff)
  have inner: "walk_children (Suc depth) ?d 0 out = Some (dmap_fields depth (Node t cs) out)"
    if "depth \<le> 4" "length ?d < 2 ^ 32" for depth out
    using that walk_over_list [OF all that(2), of "Suc depth" "[]" out]
    by (cases "depth = 4") (simp_all add: walk_children.simps)
  show ?case
    unfolding walks_over_def
  proof (intro allI impI)
    fix depth :: nat and pre rest out
    assume "depth \<le> 4" and "length (dmap_encode (Node t cs)) < 2 ^ 32"
    then show "walk_children depth (pre @ dmap_encode (Node t cs) @ rest) (length pre) out
      = walk_children depth (pre @ dmap_encode (Node t cs) @ rest)
          (length pre + length (dmap_encode (Node t cs))) (dmap_fields depth (Node t cs) out)"
      using walk_entry [of t ?d depth "dmap_encode (Node t cs)" pre rest out] t inner [of depth out]
      by (simp add: Let_def)
  qed
qed

lemma walk_returns:
  "length p < 2 ^ 32 \<Longrightarrow> \<exists>r. walk_children depth p pos out = Some r"
proof (induction depth p pos out rule: walk_children.induct)
  case (1 depth p pos out)
  show ?case
  proof (cases "depth \<le> 4 \<and> pos + 8 \<le> length p \<and> parse_one (drop pos p) \<noteq> None")
    case False
    then show ?thesis by (subst walk_children.simps) auto
  next
    case True
    then obtain e where e: "parse_one (drop pos p) = Some e" by blast
    then have len: "8 + unat (en_length e) \<le> length p"
        and data: "length (en_data e) < 2 ^ 32"
      using 1(3) by (auto simp: parse_one_def substr_def Let_def split: if_splits)
    have nz: "8 + en_length e \<noteq> 0"
      using entry_step(2) [of "unat (en_length e)"] len 1(3) by simp
    have "\<exists>o'. (if is_container (en_tag e) then walk_children (Suc depth) (en_data e) 0 out
        else Some (leaf_field (en_tag e) (en_data e) out)) = Some o'"
      using 1(1) [of e] True e nz data by auto
    then obtain o' where o': "(if is_container (en_tag e) then walk_children (Suc depth) (en_data e) 0 out
        else Some (leaf_field (en_tag e) (en_data e) out)) = Some o'" ..
    then show ?thesis
      using 1(2) [of e o'] 1(3) True e nz by (subst walk_children.simps) auto
  qed
qed

section \<open>Properties\<close>

text \<open>On the encoding of any sequence of DMAP entries shorter than 4 GiB the parser computes
  exactly what the document says: every field at any of the visited levels, the last occurrence
  winning, unknown tags skipped; it reports success when some field was found.\<close>

theorem daap_reads_document:
  assumes "list_all wf_dmap ts" and "length (concat (map dmap_encode ts)) < 2 ^ 32"
  shows "parse_daap_mlit (concat (map dmap_encode ts))
    = Some (\<not> no_fields (fold (dmap_fields 0) ts empty_daap), fold (dmap_fields 0) ts empty_daap)"
proof (cases ts)
  case Nil
  then show ?thesis by (simp add: parse_daap_mlit_def no_fields_def empty_daap_def)
next
  case (Cons t us)
  have "8 \<le> length (dmap_encode t)" using assms(1) Cons by (cases t) (auto simp: Let_def)
  then show ?thesis
    using walk_over_list [of ts 0 "[]" empty_daap] assms wf_walks_over Cons
    by (auto simp: parse_daap_mlit_def list_all_iff)
qed

theorem daap_reads_document_witness:
  "parse_daap_mlit (concat (map dmap_encode
      [Node ''mlit'' [Leaf ''minm'' (to_bytes ''Song''), Leaf ''asar'' (to_bytes ''Band''),
        Leaf ''astm'' [0, 3, 0x0d, 0x40]]]))
    = Some (True, \<lparr>dm_title = ''Song'', dm_artist = ''Band'', dm_album = [], dm_duration = 200000\<rparr>)"
  by (subst daap_reads_document)
    (simp_all add: is_container_def Let_def leaf_field_def no_fields_def empty_daap_def be32_def)

text \<open>On every body shorter than 4 GiB, malformed ones included, the walk returns; the result
  is success exactly when one of the four fields was found, whatever the first tag is.\<close>

theorem daap_always_returns:
  assumes "length body < 2 ^ 32"
  shows "\<exists>out. parse_daap_mlit body = Some (\<not> no_fields out, out)"
proof (cases "length body < 8")
  case True
  then show ?thesis by (simp add: parse_daap_mlit_def no_fields_def empty_daap_def)
next
  case False
  then show ?thesis
    using walk_returns [OF assms, of 0 0 empty_daap] by (auto simp: parse_daap_mlit_def)
qed

theorem daap_always_returns_witness:
  "\<exists>out. parse_daap_mlit (to_bytes ''minm'' @ [0, 0, 0, 1, 0x41, 9, 9]) = Some (\<not> no_fields out, out)"
  by (rule daap_always_returns) simp

end
