(* ===== verification/ReceiverName.thy ===== *)
theory ReceiverName
  imports Prelude
begin

text \<open>
  src/airplay/receiver_name.h: the check of a receiver name before it is advertised. The bytes
  are the codes of the characters; \<open>value\<close> never needs more than 21 bits, so that its
  32-bit arithmetic is the arithmetic of natural numbers.
\<close>

section \<open>The code\<close>

abbreviation code :: "char \<Rightarrow> nat" where
  "code c \<equiv> of_char c"

text \<open>Number of continuation bytes, leading bits and least value of a lead byte.\<close>

definition utf8_lead :: "nat \<Rightarrow> (nat \<times> nat \<times> nat) option" where
  "utf8_lead c =
     (if 0xc2 \<le> c \<and> c \<le> 0xdf then Some (1, c AND 0x1f, 0x80)
      else if 0xe0 \<le> c \<and> c \<le> 0xef then Some (2, c AND 0x0f, 0x800)
      else if 0xf0 \<le> c \<and> c \<le> 0xf4 then Some (3, c AND 0x07, 0x10000)
      else None)"

fun utf8_tail :: "nat \<Rightarrow> nat \<Rightarrow> nat list \<Rightarrow> (nat \<times> nat list) option" where
  "utf8_tail 0 value s = Some (value, s)"
| "utf8_tail (Suc count) value [] = None"
| "utf8_tail (Suc count) value (next # s) =
     (if next AND 0xc0 \<noteq> 0x80 then None
      else utf8_tail count (push_bit 6 value OR (next AND 0x3f)) s)"

text \<open>One round of the loop: what is left of the name, \<open>None\<close> where the source rejects.\<close>

definition name_step :: "nat \<Rightarrow> nat list \<Rightarrow> nat list option" where
  "name_step c s =
     (if c < 0x80
      then (if c < 0x20 \<or> c = 0x7f \<or> c = code CHR ''.'' \<or> c = 92 then None else Some s)
      else case utf8_lead c of
        None \<Rightarrow> None
      | Some (count, value, minimum) \<Rightarrow>
          (case utf8_tail count value s of
             None \<Rightarrow> None
           | Some (v, r) \<Rightarrow>
               (if v < minimum \<or> v > 0x10ffff \<or> 0xd800 \<le> v \<and> v \<le> 0xdfff then None else Some r)))"

lemma utf8_tail_length: "utf8_tail n v s = Some (w, r) \<Longrightarrow> length r \<le> length s"
  by (induction n v s rule: utf8_tail.induct) (auto split: if_splits)

lemma name_step_length: "name_step c s = Some r \<Longrightarrow> length r \<le> length s"
  by (auto simp: name_step_def split: if_splits option.splits prod.splits dest: utf8_tail_length)

function name_loop :: "nat list \<Rightarrow> bool" where
  "name_loop [] = True"
| "name_loop (c # s) = (case name_step c s of None \<Rightarrow> False | Some r \<Rightarrow> name_loop r)"
  by pat_completeness auto
termination
  by (relation "measure length") (auto dest: name_step_length)

definition normalize_receiver_name :: "string \<Rightarrow> string" where
  "normalize_receiver_name input =
     (case find_pred (\<lambda>c. c \<noteq> CHR '' '') input of
        None \<Rightarrow> []
      | Some first \<Rightarrow>
          (let name = trim_set (\<lambda>c. c = CHR '' '') input
           in if length name > 50 then []
              else if name_loop (map code name) then name else []))"

section \<open>UTF-8\<close>

definition utf8_encode :: "nat \<Rightarrow> nat list" where
  "utf8_encode v =
     (if v < 0x80 then [v]
      else if v < 0x800 then [0xc0 + v div 64, 0x80 + v mod 64]
      else if v < 0x10000 then [0xe0 + v div 4096, 0x80 + v div 64 mod 64, 0x80 + v mod 64]
      else [0xf0 + v div 262144, 0x80 + v div 4096 mod 64, 0x80 + v div 64 mod 64, 0x80 + v mod 64])"

definition scalar_value :: "nat \<Rightarrow> bool" where
  "scalar_value v \<longleftrightarrow> v \<le> 0x10ffff \<and> \<not> (0xd800 \<le> v \<and> v \<le> 0xdfff)"

text \<open>Control characters, DEL, the dot and the backslash do not belong in a DNS-SD label here.\<close>

definition label_char :: "nat \<Rightarrow> bool" where
  "label_char v \<longleftrightarrow> scalar_value v \<and> 0x20 \<le> v \<and> v \<notin> {0x7f, 46, 92}"

section \<open>Lemmas\<close>

lemma and_masks:
  "(c :: nat) AND 0x3f = c mod 64" "c AND 0x1f = c mod 32" "c AND 0x0f = c mod 16" "c AND 0x07 = c mod 8"
  using take_bit_eq_mask [of 6 c] take_bit_eq_mask [of 5 c] take_bit_eq_mask [of 4 c]
    take_bit_eq_mask [of 3 c]
  by (simp_all add: take_bit_eq_mod mask_eq_exp_minus_1)

lemma tail_value: "push_bit 6 v OR (n AND 0x3f) = v * 64 + n mod 64" for v n :: nat
proof -
  have "push_bit 6 v AND take_bit 6 n = 0"
    by (rule bit_eqI) (auto simp: bit_simps)
  then have "push_bit 6 v + take_bit 6 n = push_bit 6 v OR take_bit 6 n"
    by (rule disjunctive_add_eq_or)
  then show ?thesis
    by (simp add: and_masks take_bit_eq_mod push_bit_eq_mult)
qed

lemma tail_byte:
  fixes n :: nat
  assumes "n < 256"
  shows "n AND 0xc0 = 0x80 \<longleftrightarrow> n div 64 = 2"
proof -
  have "n AND 0xc0 = push_bit 6 (take_bit 2 (drop_bit 6 n))" if "n < 256" for n :: nat
  proof (rule bit_eqI)
    fix i :: nat
    have "bit (0xc0 :: nat) i \<longleftrightarrow> i = 6 \<or> i = 7"
    proof -
      have "(0xc0 :: nat) = push_bit 6 (mask 2)" by (simp add: mask_eq_exp_minus_1 push_bit_eq_mult)
      then have "bit (0xc0 :: nat) i \<longleftrightarrow> bit (push_bit 6 (mask 2) :: nat) i" by (rule arg_cong)
      also have "\<dots> \<longleftrightarrow> 6 \<le> i \<and> i - 6 < 2" by (simp only: bit_push_bit_iff_nat bit_mask_iff) simp
      finally show ?thesis by auto
    qed
    then show "bit (n AND 0xc0) i \<longleftrightarrow> bit (push_bit 6 (take_bit 2 (drop_bit 6 n))) i"
      by (auto simp: bit_simps)
  qed
  from this [OF assms] have "n AND 0xc0 = n div 64 mod 4 * 64"
    by (simp add: push_bit_eq_mult take_bit_eq_mod drop_bit_eq_div)
  moreover have "n div 64 < 4" using assms by simp
  ultimately show ?thesis by simp
qed

lemma utf8_tail_Suc_iff:
  "utf8_tail (Suc n) v s = Some (w, r) \<longleftrightarrow>
     (\<exists>a t. s = a # t \<and> a AND 0xc0 = 0x80 \<and> utf8_tail n (v * 64 + a mod 64) t = Some (w, r))"
  by (cases s) (auto simp: tail_value)

lemmas utf8_tail_iff = utf8_tail_Suc_iff utf8_tail_Suc_iff [of 0, simplified]
  utf8_tail_Suc_iff [of 1, simplified, folded numeral_2_eq_2]
  utf8_tail_Suc_iff [of 2, simplified, folded numeral_3_eq_3]

lemma tail_byteE:
  fixes a :: nat
  assumes "a < 256" and "a AND 0xc0 = 0x80"
  obtains x where "x < 64" and "a = 128 + x" and "a mod 64 = x"
proof (rule that)
  have "a div 64 = 2" using assms tail_byte by blast
  then show "a = 128 + a mod 64" using div_mult_mod_eq [of a 64] by linarith
qed simp_all

lemma leadE:
  fixes c :: nat
  assumes "k * m \<le> c" and "c < k * m + m"
  obtains y where "y < m" and "c = k * m + y" and "c mod m = y"
proof -
  obtain y where "c = k * m + y" using assms(1) le_Suc_ex by blast
  with assms(2) show ?thesis by (intro that [of y]) simp_all
qed

lemma utf8_encode_digits:
  fixes z x y u :: nat
  assumes "x < 64" and "y < 64" and "u < 64"
  shows "z < 32 \<Longrightarrow> 0x80 \<le> z * 64 + x \<Longrightarrow> utf8_encode (z * 64 + x) = [192 + z, 128 + x]"
    and "z < 16 \<Longrightarrow> 0x800 \<le> (z * 64 + x) * 64 + y \<Longrightarrow>
      utf8_encode ((z * 64 + x) * 64 + y) = [224 + z, 128 + x, 128 + y]"
    and "0x10000 \<le> ((z * 64 + x) * 64 + y) * 64 + u \<Longrightarrow>
      utf8_encode (((z * 64 + x) * 64 + y) * 64 + u) = [240 + z, 128 + x, 128 + y, 128 + u]"
proof -
  have d: "(m * 64 + n) div 64 = m" "(m * 64 + n) mod 64 = n" if "n < 64" for m n :: nat
    using that by simp_all
  have e: "v div 4096 = v div 64 div 64" "v div 262144 = v div 64 div 64 div 64" for v :: nat
    by (simp_all add: div_mult2_eq [symmetric])
  show "z < 32 \<Longrightarrow> 0x80 \<le> z * 64 + x \<Longrightarrow> utf8_encode (z * 64 + x) = [192 + z, 128 + x]"
    using assms by (simp add: utf8_encode_def d)
  show "z < 16 \<Longrightarrow> 0x800 \<le> (z * 64 + x) * 64 + y \<Longrightarrow>
      utf8_encode ((z * 64 + x) * 64 + y) = [224 + z, 128 + x, 128 + y]"
    unfolding utf8_encode_def e d [OF assms(1)] d [OF assms(2)] using assms by simp
  show "0x10000 \<le> ((z * 64 + x) * 64 + y) * 64 + u \<Longrightarrow>
      utf8_encode (((z * 64 + x) * 64 + y) * 64 + u) = [240 + z, 128 + x, 128 + y, 128 + u]"
    unfolding utf8_encode_def e d [OF assms(1)] d [OF assms(2)] d [OF assms(3)] using assms by simp
qed

lemma name_step_sound:
  assumes "name_step c s = Some r" and "list_all (\<lambda>b. b < 256) (c # s)"
  shows "\<exists>v. label_char v \<and> c # s = utf8_encode v @ r"
proof (cases "c < 0x80")
  case True
  with assms show ?thesis
    by (intro exI [of _ c])
      (auto simp: name_step_def label_char_def scalar_value_def utf8_encode_def split: if_splits)
next
  case False
  with assms(1) obtain count lead least v where l: "utf8_lead c = Some (count, lead, least)"
      and t: "utf8_tail count lead s = Some (v, r)"
      and v: "least \<le> v" "v \<le> 0x10ffff" "\<not> (0xd800 \<le> v \<and> v \<le> 0xdfff)"
    by (auto simp: name_step_def split: option.splits prod.splits if_splits)
  consider "count = 1" "lead = c mod 32" "least = 0x80" "0xc2 \<le> c" "c \<le> 0xdf"
    | "count = 2" "lead = c mod 16" "least = 0x800" "0xe0 \<le> c" "c \<le> 0xef"
    | "count = 3" "lead = c mod 8" "least = 0x10000" "0xf0 \<le> c" "c \<le> 0xf4"
    using l by (auto simp: utf8_lead_def and_masks split: if_splits)
  then have "c # s = utf8_encode v @ r"
  proof cases
    case 1
    obtain a where a: "s = a # r" "a AND 0xc0 = 0x80" "v = c mod 32 * 64 + a mod 64"
      using t 1 by (auto simp: utf8_tail_iff)
    obtain x where x: "x < 64" "a = 128 + x" "a mod 64 = x"
      by (rule tail_byteE [of a]) (use a assms(2) in auto)
    obtain y where y: "y < 32" "c = 192 + y" "c mod 32 = y"
      by (rule leadE [of 6 32 c]) (use 1 in simp_all)
    have e: "v = y * 64 + x" using a(3) x(3) y(3) by simp
    have "utf8_encode v = [192 + y, 128 + x]"
      unfolding e using v(1) 1(3) x(1) y(1) e by (intro utf8_encode_digits [of x 0 0]) simp_all
    then show ?thesis using a(1) x(2) y(2) by simp
  next
    case 2
    obtain a b where a: "s = a # b # r" "a AND 0xc0 = 0x80" "b AND 0xc0 = 0x80"
        "v = (c mod 16 * 64 + a mod 64) * 64 + b mod 64"
      using t 2 by (auto simp: utf8_tail_iff)
    obtain x where x: "x < 64" "a = 128 + x" "a mod 64 = x"
      by (rule tail_byteE [of a]) (use a assms(2) in auto)
    obtain y where y: "y < 64" "b = 128 + y" "b mod 64 = y"
      by (rule tail_byteE [of b]) (use a assms(2) in auto)
    obtain z where z: "z < 16" "c = 224 + z" "c mod 16 = z"
      by (rule leadE [of 14 16 c]) (use 2 in simp_all)
    have e: "v = (z * 64 + x) * 64 + y" using a(4) x(3) y(3) z(3) by simp
    have "utf8_encode v = [224 + z, 128 + x, 128 + y]"
      unfolding e using v(1) 2(3) x(1) y(1) z(1) e by (intro utf8_encode_digits) simp_all
    then show ?thesis using a(1) x(2) y(2) z(2) by simp
  next
    case 3
    obtain a b d where a: "s = a # b # d # r" "a AND 0xc0 = 0x80" "b AND 0xc0 = 0x80"
        "d AND 0xc0 = 0x80" "v = ((c mod 8 * 64 + a mod 64) * 64 + b mod 64) * 64 + d mod 64"
      using t 3 by (auto simp: utf8_tail_iff)
    obtain x where x: "x < 64" "a = 128 + x" "a mod 64 = x"
      by (rule tail_byteE [of a]) (use a assms(2) in auto)
    obtain y where y: "y < 64" "b = 128 + y" "b mod 64 = y"
      by (rule tail_byteE [of b]) (use a assms(2) in auto)
    obtain u where u: "u < 64" "d = 128 + u" "d mod 64 = u"
      by (rule tail_byteE [of d]) (use a assms(2) in auto)
    obtain z where z: "z < 8" "c = 240 + z" "c mod 8 = z"
      by (rule leadE [of 30 8 c]) (use 3 in simp_all)
    have e: "v = ((z * 64 + x) * 64 + y) * 64 + u" using a(5) x(3) y(3) z(3) u(3) by simp
    have "utf8_encode v = [240 + z, 128 + x, 128 + y, 128 + u]"
      unfolding e using v(1) 3(3) x(1) y(1) z(1) u(1) e by (intro utf8_encode_digits) simp_all
    then show ?thesis using a(1) x(2) y(2) z(2) u(2) by simp
  qed
  moreover have "label_char v"
    using v l by (auto simp: label_char_def scalar_value_def utf8_lead_def split: if_splits)
  ultimately show ?thesis by blast
qed

lemma tail_byte_of:
  fixes x :: nat
  assumes "x < 64"
  shows "(128 + x) AND 0xc0 = 0x80" and "(128 + x) mod 64 = x"
proof -
  have "(128 + x) div 64 = 2" using assms by (simp add: div_nat_eqI)
  then show "(128 + x) AND 0xc0 = 0x80" using tail_byte [of "128 + x"] assms by simp
  have "(2 * 64 + x) mod 64 = x" using assms by (simp only: mod_mult_self3 mod_less)
  then show "(128 + x) mod 64 = x" by simp
qed

lemma digits: "\<exists>a x. v = a * 64 + x \<and> x < 64" for v :: nat
  by (rule exI [of _ "v div 64"], rule exI [of _ "v mod 64"]) simp

lemma lead_mods:
  fixes z :: nat
  shows "z < 32 \<Longrightarrow> (192 + z) mod 32 = z" and "z < 16 \<Longrightarrow> (224 + z) mod 16 = z"
    and "z < 8 \<Longrightarrow> (240 + z) mod 8 = z"
  using mod_mult_self3 [of 6 32 z] mod_mult_self3 [of 14 16 z] mod_mult_self3 [of 30 8 z] by simp_all

lemma name_step_complete:
  assumes "label_char v" and "c # s = utf8_encode v @ r"
  shows "name_step c s = Some r"
proof -
  have v: "v \<le> 0x10ffff" "\<not> (0xd800 \<le> v \<and> v \<le> 0xdfff)" "0x20 \<le> v" "v \<notin> {0x7f, 46, 92}"
    using assms(1) by (auto simp: label_char_def scalar_value_def)
  obtain a x where x: "v = a * 64 + x" "x < 64" by (metis digits)
  obtain b y where y: "a = b * 64 + y" "y < 64" by (metis digits)
  obtain d u where u: "b = d * 64 + u" "u < 64" by (metis digits)
  consider "v < 0x80" | "0x80 \<le> v" "v < 0x800" | "0x800 \<le> v" "v < 0x10000" | "0x10000 \<le> v"
    by linarith
  then show ?thesis
  proof cases
    case 1
    then show ?thesis using assms v by (simp add: utf8_encode_def name_step_def)
  next
    case 2
    then have a: "2 \<le> a" "a < 32" using x by linarith+
    have "utf8_encode v = [192 + a, 128 + x]"
      unfolding x(1) using a x 2 by (intro utf8_encode_digits [of x 0 0]) simp_all
    then have cs: "c = 192 + a" "s = (128 + x) # r" using assms(2) by simp_all
    have "utf8_lead c = Some (1, a, 0x80)" using a by (simp add: cs utf8_lead_def and_masks lead_mods)
    moreover have "utf8_tail 1 a s = Some (v, r)"
      using x by (simp add: cs tail_value tail_byte_of)
    ultimately show ?thesis using 2 v a by (simp add: name_step_def cs)
  next
    case 3
    then have b: "b < 16" using x y by linarith
    have vv: "v = (b * 64 + y) * 64 + x" using x y by simp
    have "utf8_encode v = [224 + b, 128 + y, 128 + x]"
      unfolding vv using b x y 3 vv by (intro utf8_encode_digits [of y x 0]) simp_all
    then have cs: "c = 224 + b" "s = (128 + y) # (128 + x) # r" using assms(2) by simp_all
    have "utf8_lead c = Some (2, b, 0x800)" using b by (simp add: cs utf8_lead_def and_masks lead_mods)
    moreover have "utf8_tail 2 b s = Some (v, r)"
      using x(2) y(2) vv by (simp add: cs utf8_tail_iff tail_byte_of)
    ultimately show ?thesis using 3 v b by (simp add: name_step_def cs)
  next
    case 4
    then have d: "d < 5" using x y u v(1) by linarith
    have vv: "v = ((d * 64 + u) * 64 + y) * 64 + x" using x y u by simp
    have "utf8_encode v = [240 + d, 128 + u, 128 + y, 128 + x]"
      unfolding vv using d x y u 4 vv by (intro utf8_encode_digits [of u y x]) simp_all
    then have cs: "c = 240 + d" "s = (128 + u) # (128 + y) # (128 + x) # r" using assms(2) by simp_all
    have "utf8_lead c = Some (3, d, 0x10000)" using d by (simp add: cs utf8_lead_def and_masks lead_mods)
    moreover have "utf8_tail 3 d s = Some (v, r)"
      using x(2) y(2) u(2) vv by (simp add: cs utf8_tail_iff tail_byte_of)
    ultimately show ?thesis using 4 v d by (simp add: name_step_def cs)
  qed
qed

lemma utf8_encode_not_Nil [simp]: "utf8_encode v \<noteq> []"
  by (simp add: utf8_encode_def)

lemma name_loop_iff:
  "list_all (\<lambda>b. b < 256) s \<Longrightarrow>
     name_loop s \<longleftrightarrow> (\<exists>vs. list_all label_char vs \<and> s = concat (map utf8_encode vs))"
proof (induction s rule: name_loop.induct)
  case 1
  then show ?case by (auto intro: exI [of _ "[]"])
next
  case (2 c s)
  show ?case
  proof
    assume "name_loop (c # s)"
    then obtain r where r: "name_step c s = Some r" "name_loop r" by (auto split: option.splits)
    obtain v where v: "label_char v" "c # s = utf8_encode v @ r"
      using name_step_sound [OF r(1) "2.prems"] by blast
    have "list_all (\<lambda>b. b < 256) r" using "2.prems" v(2) by (metis list_all_append)
    with "2.IH" r obtain vs where "list_all label_char vs" "r = concat (map utf8_encode vs)" by blast
    with v show "\<exists>vs. list_all label_char vs \<and> c # s = concat (map utf8_encode vs)"
      by (intro exI [of _ "v # vs"]) simp
  next
    assume "\<exists>vs. list_all label_char vs \<and> c # s = concat (map utf8_encode vs)"
    then obtain vs where vs: "list_all label_char vs" "c # s = concat (map utf8_encode vs)" by blast
    then obtain v ws where w: "vs = v # ws" by (cases vs) auto
    then have step: "name_step c s = Some (concat (map utf8_encode ws))"
      using vs by (intro name_step_complete [of v]) simp_all
    have "list_all (\<lambda>b. b < 256) (concat (map utf8_encode ws))"
      using "2.prems" vs(2) w by (metis list_all_append concat.simps(2) list.simps(9))
    with "2.IH" [OF step] vs w have "name_loop (concat (map utf8_encode ws))" by auto
    with step show "name_loop (c # s)" by simp
  qed
qed

lemma trim_spaces_idem: "trim_set P (trim_set P s) = trim_set P s"
proof (rule trim_set_id)
  define t where "t = dropWhile P s"
  define r where "r = dropWhile P (rev t)"
  have tr: "trim_set P s = rev r" by (simp add: trim_set_def r_def t_def)
  show "\<not> P (last (trim_set P s))" if "trim_set P s \<noteq> []"
    using that hd_dropWhile [of P "rev t"] by (simp add: tr last_rev r_def [symmetric])
  show "\<not> P (hd (trim_set P s))" if ne: "trim_set P s \<noteq> []"
  proof -
    have "suffix r (rev t)" unfolding r_def by (rule suffix_dropWhile)
    then obtain p where p: "rev t = p @ r" by (auto simp: suffix_def)
    then have "t = rev r @ rev p" by (metis rev_append rev_rev_ident)
    then have "hd t = hd (rev r)" using ne tr by (simp add: hd_append)
    moreover have "t \<noteq> []" using ne tr p by auto
    ultimately show ?thesis using hd_dropWhile [of P s] by (simp add: tr t_def [symmetric])
  qed
qed

lemma trim_set_Nil_iff: "trim_set P s = [] \<longleftrightarrow> list_all P s"
proof -
  have "trim_set P s = [] \<longleftrightarrow> (\<forall>x \<in> set (dropWhile P s). P x)"
    by (simp add: trim_set_def dropWhile_eq_Nil_conv)
  also have "\<dots> \<longleftrightarrow> dropWhile P s = []"
    using hd_dropWhile [of P s] by (metis hd_in_set empty_iff list.set(1))
  finally show ?thesis by (simp add: dropWhile_eq_Nil_conv list_all_iff)
qed

lemma normalize_eq:
  "normalize_receiver_name input =
     (let name = trim_set (\<lambda>c. c = CHR '' '') input
      in if length name \<le> 50 \<and> name_loop (map code name) then name else [])"
proof (cases "find_pred (\<lambda>c. c \<noteq> CHR '' '') input")
  case None
  then have "trim_set (\<lambda>c. c = CHR '' '') input = []"
    by (auto simp: find_pred_None trim_set_Nil_iff list_all_iff)
  then show ?thesis using None by (simp add: normalize_receiver_name_def)
next
  case (Some i)
  then show ?thesis by (simp add: normalize_receiver_name_def Let_def)
qed

section \<open>The bytes of an accepted name\<close>

lemma utf8_plain: "label_char v \<Longrightarrow> b \<in> set (utf8_encode v) \<Longrightarrow> 0x20 \<le> b \<and> b \<notin> {0x7f, 46, 92}"
  by (auto simp: utf8_encode_def label_char_def split: if_splits)

lemma normalized_plain:
  assumes "c \<in> set (normalize_receiver_name input)"
  shows "0x20 \<le> code c \<and> code c \<notin> {0x7f, 46, 92}"
proof -
  let ?n = "normalize_receiver_name input"
  have "name_loop (map code ?n)" using assms by (auto simp: normalize_eq Let_def split: if_splits)
  moreover have "list_all (\<lambda>b. b < 256) (map code ?n)" by (simp add: list_all_iff)
  ultimately obtain vs where vs: "list_all label_char vs" "map code ?n = concat (map utf8_encode vs)"
    using name_loop_iff by blast
  have "code c \<in> set (concat (map utf8_encode vs))" using assms vs(2) by (metis image_eqI list.set_map)
  then obtain v where "label_char v" "code c \<in> set (utf8_encode v)" using vs(1) by (auto simp: list_all_iff)
  from utf8_plain [OF this] show ?thesis .
qed

lemma normalized_short: "length (normalize_receiver_name input) \<le> 50"
  by (simp add: normalize_eq Let_def)

section \<open>Properties\<close>

text \<open>The accepted names are exactly the trimmed names of 1 to 50 bytes that are well-formed
  UTF-8 (shortest form, no surrogates, at most U+10FFFF) without control characters, DEL, dot
  and backslash; a name is never cut, and everything else gives the empty string.\<close>

theorem receiver_name_exact:
  "normalize_receiver_name input = n \<and> n \<noteq> [] \<longleftrightarrow>
     n = trim_set (\<lambda>c. c = CHR '' '') input \<and> n \<noteq> [] \<and> length n \<le> 50
     \<and> (\<exists>vs. list_all label_char vs \<and> map code n = concat (map utf8_encode vs))"
proof -
  have "list_all (\<lambda>b. b < 256) (map code n)" by (simp add: list_all_iff)
  then show ?thesis using name_loop_iff [of "map code n"] by (auto simp: normalize_eq Let_def)
qed

text \<open>Normalising is idempotent: a stored name is accepted unchanged.\<close>

theorem receiver_name_idempotent:
  "normalize_receiver_name (normalize_receiver_name input) = normalize_receiver_name input"
proof -
  have "trim_set P [] = []" for P by (simp add: trim_set_def)
  then show ?thesis by (simp add: normalize_eq Let_def trim_spaces_idem)
qed

end
