(* ===== verification/RtpFlush.thy ===== *)
theory RtpFlush
  imports Prelude
begin

text \<open>
  src/audio/rtp_flush.h: the RTP boundary of a FLUSH request, and the removal of the samples
  before it. RTP timestamps are 32-bit counters that wrap; PCM is interleaved stereo, one
  timestamp per pair of samples.
\<close>

section \<open>The boundary of a FLUSH\<close>

type_synonym i16 = "16 word"

definition is_separator :: "char \<Rightarrow> bool" where
  "is_separator c \<longleftrightarrow> c = CHR '';'' \<or> c = CHR '',''"

text \<open>\<open>std::from_chars\<close> for uint32_t, accepted only when it consumes the whole field.\<close>

definition from_chars_u32 :: "string \<Rightarrow> u32 option" where
  "from_chars_u32 s =
     (if s \<noteq> [] \<and> list_all isdigit s \<and> dec_value s < 2 ^ 32 then Some (word_of_nat (dec_value s)) else None)"

definition rtptime_prefix :: string where
  "rtptime_prefix = ''rtptime=''"

function flush_loop :: "string \<Rightarrow> u32 option" where
  "flush_loop s =
     (if s = [] then None
      else let fend = find_pred is_separator s;
               field = trim_set (\<lambda>c. c = CHR '' '') (case fend of None \<Rightarrow> s | Some e \<Rightarrow> take e s)
           in if take (length rtptime_prefix) field = rtptime_prefix
              then from_chars_u32 (drop (length rtptime_prefix) field)
              else case fend of None \<Rightarrow> None | Some e \<Rightarrow> flush_loop (drop (e + 1) s))"
  by pat_completeness auto
termination
  by (relation "measure length") auto

declare flush_loop.simps [simp del]

definition flush_timestamp :: "string \<Rightarrow> u32 option" where
  "flush_timestamp info = flush_loop info"

section \<open>Trimming\<close>

text \<open>The result is the new timestamp, the remaining samples and the number removed.\<close>

definition trim_before :: "u32 \<Rightarrow> i16 list \<Rightarrow> u32 \<Rightarrow> u32 \<times> i16 list \<times> nat" where
  "trim_before rtp pcm boundary =
     (let difference = boundary - rtp
      in if difference = 0 \<or> difference > 0x7fffffff then (rtp, pcm, 0)
         else let frames = min (unat difference) (length pcm div 2)
              in (rtp + word_of_nat frames, drop (frames * 2) pcm, frames * 2))"

definition rtp_before :: "u32 \<Rightarrow> u32 \<Rightarrow> bool" where
  "rtp_before a b \<longleftrightarrow> b - a \<noteq> 0 \<and> b - a \<le> 0x7fffffff"

text \<open>The samples with their timestamps: frame by frame.\<close>

fun frames_from :: "u32 \<Rightarrow> i16 list \<Rightarrow> (u32 \<times> i16 list) list" where
  "frames_from t (a # b # r) = (t, [a, b]) # frames_from (t + 1) r"
| "frames_from t r = []"

lemma trim_before_length:
  "trim_before rtp pcm b = (rtp', pcm', n) \<Longrightarrow> length pcm = length pcm' + n"
  by (auto simp: trim_before_def Let_def split: if_splits)

lemma trim_before_zero: "snd (snd (trim_before rtp pcm b)) = 0 \<Longrightarrow> trim_before rtp pcm b = (rtp, pcm, 0)"
  by (auto simp: trim_before_def Let_def split: if_splits)

lemma drop_frames:
  "k \<le> length pcm div 2 \<Longrightarrow> drop k (frames_from t pcm) = frames_from (t + word_of_nat k) (drop (k * 2) pcm)"
proof (induction k arbitrary: t pcm)
  case (Suc k)
  then obtain a b r where "pcm = a # b # r" by (cases pcm; cases "tl pcm"; simp)
  with Suc show ?case by (simp add: add_ac)
qed simp

lemma length_frames [simp]: "length (frames_from t pcm) = length pcm div 2"
  by (induction t pcm rule: frames_from.induct) simp_all

lemma nth_frames: "i < length pcm div 2 \<Longrightarrow> fst (frames_from t pcm ! i) = t + word_of_nat i"
proof (induction t pcm arbitrary: i rule: frames_from.induct)
  case (1 t a b r)
  then show ?case by (cases i) (simp_all add: add_ac)
qed simp_all

lemma trim_before_frames:
  assumes "trim_before rtp pcm b = (rtp', pcm', n)"
  shows "frames_from rtp' pcm' = drop (n div 2) (frames_from rtp pcm)"
  using assms by (auto simp: trim_before_def Let_def drop_frames split: if_splits)

text \<open>For timestamps near the boundary, being before it is an order on the frame numbers.\<close>

lemma before_window:
  assumes "i < 2 ^ 30" and "rtp_before rtp b \<Longrightarrow> unat (b - rtp) < 2 ^ 30"
    and "\<not> rtp_before rtp b \<Longrightarrow> unat (rtp - b) < 2 ^ 30"
  shows "rtp_before (rtp + word_of_nat i) b \<longleftrightarrow> rtp_before rtp b \<and> i < unat (b - rtp)"
proof -
  define w :: u32 where "w = word_of_nat i"
  have i: "unat w = i" using assms(1) by (simp add: w_def unat_of_nat)
  have e: "b - (rtp + w) = (b - rtp) - w" by simp
  show ?thesis
  proof (cases "rtp_before rtp b")
    case True
    define d where "d = b - rtp"
    have d: "unat d < 2 ^ 30" "d \<noteq> 0" using True assms(2) by (simp_all add: d_def rtp_before_def)
    show ?thesis
    proof (cases "i < unat d")
      case lt: True
      then have "unat (d - w) = unat d - i" using i by (simp add: unat_sub_if_size)
      then show ?thesis using lt d True
        unfolding w_def [symmetric] rtp_before_def e d_def [symmetric]
        by (auto simp: word_le_nat_alt)
    next
      case ge: False
      then have "d - w = 0 \<or> unat (d - w) = unat d + 2 ^ 32 - i"
        using i by (cases "unat d = i") (auto simp: unat_sub_if_size word_size word_eq_iff_unsigned [where 'a = nat])
      then have "d - w = 0 \<or> \<not> d - w \<le> 0x7fffffff"
        using assms(1) by (auto simp: word_le_nat_alt)
      then show ?thesis using ge unfolding w_def [symmetric] rtp_before_def e d_def [symmetric] by auto
    qed
  next
    case False
    define g where "g = rtp - b"
    have g: "unat g < 2 ^ 30" using False assms(3) by (simp add: g_def)
    have "unat (g + w) = unat g + i" using g assms(1) i by (simp add: unat_plus_if_size word_size)
    then have "g + w = 0 \<or> unat (- (g + w)) = 2 ^ 32 - (unat g + i)"
      using unat_sub_if_size [of 0 "g + w"] by (auto simp: word_size unat_eq_zero)
    then have "g + w = 0 \<or> \<not> - (g + w) \<le> 0x7fffffff"
      using g assms(1) by (auto simp: word_le_nat_alt)
    moreover have eq: "b - (rtp + w) = - (g + w)" by (simp add: g_def)
    ultimately have "\<not> rtp_before (rtp + w) b" unfolding rtp_before_def eq by (metis neg_equal_0_iff_equal)
    then show ?thesis using False by (simp add: w_def)
  qed
qed

lemma filter_threshold:
  assumes "\<And>i. i < length xs \<Longrightarrow> P (xs ! i) \<longleftrightarrow> \<not> i < k"
  shows "filter P xs = drop k xs"
  using assms
proof (induction xs arbitrary: k)
  case (Cons x xs)
  have "filter P xs = drop (k - 1) xs"
  proof (rule Cons.IH)
    fix i assume "i < length xs"
    then show "P (xs ! i) \<longleftrightarrow> \<not> i < k - 1" using Cons.prems [of "Suc i"] by auto
  qed
  moreover have "P x \<longleftrightarrow> k = 0" using Cons.prems [of 0] by auto
  ultimately show ?case by (cases k) auto
qed simp

text \<open>The fields between separators.\<close>

fun split_fields :: "string \<Rightarrow> string list" where
  "split_fields [] = [[]]"
| "split_fields (c # s) =
     (if is_separator c then [] # split_fields s
      else (c # hd (split_fields s)) # tl (split_fields s))"

definition is_rtptime :: "string \<Rightarrow> bool" where
  "is_rtptime f \<longleftrightarrow> prefix rtptime_prefix f"

lemma split_fields_find:
  "split_fields s = (case find_pred is_separator s of
      None \<Rightarrow> [s] | Some e \<Rightarrow> take e s # split_fields (drop (e + 1) s))"
  by (induction s) (auto split: option.split)

lemma is_rtptime_iff: "is_rtptime f \<longleftrightarrow> take (length rtptime_prefix) f = rtptime_prefix"
  by (simp add: is_rtptime_def prefix_iff_take)

lemma trim_before_keeps:
  assumes "trim_before rtp pcm b = (rtp', pcm', n)" and "length pcm div 2 < 2 ^ 30"
    and "unat (b - rtp) < 2 ^ 30 \<or> unat (rtp - b) < 2 ^ 30"
  shows "frames_from rtp' pcm' = filter (\<lambda>(t, f). \<not> rtp_before t b) (frames_from rtp pcm)
    \<and> length pcm = length pcm' + n"
proof -
  have w: "rtp_before rtp b \<Longrightarrow> unat (b - rtp) < 2 ^ 30" "\<not> rtp_before rtp b \<Longrightarrow> unat (rtp - b) < 2 ^ 30"
  proof -
    have n: "unat (rtp - b) = (if b = rtp then 0 else 2 ^ 32 - unat (b - rtp))"
      using unat_sub_if_size [of 0 "b - rtp"] by (auto simp: word_size unat_eq_zero)
    show "unat (b - rtp) < 2 ^ 30" if "rtp_before rtp b"
      using that assms(3) n by (auto simp: rtp_before_def word_le_nat_alt)
    show "unat (rtp - b) < 2 ^ 30" if "\<not> rtp_before rtp b"
      using that assms(3) n by (auto simp: rtp_before_def word_le_nat_alt split: if_splits)
  qed
  define k where "k = (if rtp_before rtp b then unat (b - rtp) else 0)"
  have "filter (\<lambda>(t, f). \<not> rtp_before t b) (frames_from rtp pcm) = drop k (frames_from rtp pcm)"
  proof (rule filter_threshold)
    fix i assume "i < length (frames_from rtp pcm)"
    then have i: "i < length pcm div 2" by simp
    then have "fst (frames_from rtp pcm ! i) = rtp + word_of_nat i" by (rule nth_frames)
    moreover have "i < 2 ^ 30" using i assms(2) by simp
    ultimately show "(case frames_from rtp pcm ! i of (t, f) \<Rightarrow> \<not> rtp_before t b) \<longleftrightarrow> \<not> i < k"
      using before_window [of i rtp b] w by (auto simp: k_def split: prod.split)
  qed
  also have "\<dots> = drop (n div 2) (frames_from rtp pcm)"
    using assms(1) by (auto simp: k_def trim_before_def rtp_before_def Let_def not_le min_def split: if_splits)
  finally show ?thesis
    using trim_before_frames [OF assms(1)] trim_before_length [OF assms(1)] by simp
qed

lemma trim_before_frames_filter:
  assumes "trim_before rtp pcm b = (rtp', pcm', n)" and "length pcm div 2 < 2 ^ 30"
    and "unat (b - rtp) < 2 ^ 30 \<or> unat (rtp - b) < 2 ^ 30"
  shows "frames_from rtp' pcm' = filter (\<lambda>(t, f). \<not> rtp_before t b) (frames_from rtp pcm)"
  using trim_before_keeps [OF assms] by blast

section \<open>Properties\<close>

text \<open>The boundary of a FLUSH is the number of the first field, trimmed of blanks, that starts
  with rtptime=; other fields do not matter, and a number that is empty, has any other character or
  does not fit in 32 bits gives no boundary at all.\<close>

theorem flush_timestamp_first_field:
  "flush_timestamp info =
     (case List.find is_rtptime (map (trim_set (\<lambda>c. c = CHR '' '')) (split_fields info)) of
        None \<Rightarrow> None
      | Some f \<Rightarrow> from_chars_u32 (drop (length rtptime_prefix) f))"
  unfolding flush_timestamp_def
proof (induction info rule: flush_loop.induct)
  case (1 s)
  have no: "\<not> is_rtptime (trim_set P [])" for P
    by (simp add: is_rtptime_def trim_set_def rtptime_prefix_def)
  show ?case
  proof (cases "s = []")
    case True
    then show ?thesis by (simp add: flush_loop.simps no)
  next
    case False
    then show ?thesis
      using "1.IH" by (subst flush_loop.simps, subst split_fields_find)
        (simp add: is_rtptime_iff [symmetric] split: option.split)
  qed
qed

text \<open>Trimming removes exactly the frames whose timestamp is before the boundary, in the
  wrapping order of 32-bit timestamps, and moves the timestamp to the first frame kept; so no sample
  is renumbered and none after the boundary is lost.\<close>

theorem trim_before_exact:
  assumes "trim_before rtp pcm b = (rtp', pcm', n)" and "length pcm div 2 < 2 ^ 30"
    and "unat (b - rtp) < 2 ^ 30 \<or> unat (rtp - b) < 2 ^ 30"
  shows "frames_from rtp' pcm' = filter (\<lambda>(t, f). \<not> rtp_before t b) (frames_from rtp pcm)
    \<and> length pcm = length pcm' + n"
  by (rule trim_before_keeps [OF assms])

theorem trim_before_exact_witness:
  "trim_before 0xfffffffe [1, 2, 3, 4, 5, 6, 7, 8] 1 = (1, [7, 8], 6)
   \<and> frames_from 1 [7, 8] = filter (\<lambda>(t, f). \<not> rtp_before t 1) (frames_from 0xfffffffe [1, 2, 3, 4, 5, 6, 7, 8])"
proof -
  have t: "trim_before 0xfffffffe [1, 2, 3, 4, 5, 6, 7, 8] 1 = (1, [7, 8], 6)"
    by (simp add: trim_before_def)
  show ?thesis using t trim_before_exact [OF t] by simp
qed

end
