(* ===== verification/NtpClock.thy ===== *)
theory NtpClock
  imports Prelude "HOL-Library.Signed_Division"
begin

text \<open>
  src/airplay/ntp_clock.h and src/airplay/ntp_client.cpp: the estimate of the sender's clock
  and the probes that feed it. A time of the sender is a 64-bit NTP value (32 bits of seconds,
  32 bits of fraction); local times are nanoseconds of steady_clock. The signed 64-bit
  arithmetic of the source does not overflow on times within 15 years of the clock's origin
  (\<open>delta_ns_bound\<close>), so that it is the arithmetic of the integers.
\<close>

section \<open>The clock\<close>

definition nanos_per_second :: int where
  "nanos_per_second = 1000000000"

text \<open>The quotient is the one of C++, which truncates towards zero.\<close>

definition delta_ns :: "u64 \<Rightarrow> u64 \<Rightarrow> int" where
  "delta_ns v reference =
     (let seconds = (ucast (drop_bit 32 v) :: u32) - ucast (drop_bit 32 reference);
          signed_seconds = (if seconds \<le> 0x7fffffff then uint seconds else uint seconds - 0x100000000);
          fractions = uint (ucast v :: u32) - uint (ucast reference :: u32)
      in signed_seconds * 1000000000 + (fractions * 1000000000) sdiv 0x100000000)"

record sample =
  sm_valid :: bool
  sm_remote :: u64
  sm_local :: int
  sm_observed :: int
  sm_rtt :: int

record ntp_clock =
  ck_samples :: "sample list"
  ck_next :: u32

definition new_clock :: ntp_clock where
  "new_clock = \<lparr>ck_samples = replicate 8
     \<lparr>sm_valid = False, sm_remote = 0, sm_local = 0, sm_observed = 0, sm_rtt = 0\<rparr>, ck_next = 0\<rparr>"

definition observe :: "int \<Rightarrow> int \<Rightarrow> u64 \<Rightarrow> u64 \<Rightarrow> ntp_clock \<Rightarrow> bool \<times> ntp_clock" where
  "observe sent received remote_received remote_sent ck =
     (let processing = delta_ns remote_sent remote_received;
          elapsed = received - sent;
          delay = elapsed - processing
      in if remote_received = 0 \<or> remote_sent = 0 \<or> processing < 0 \<or> elapsed < 0
            \<or> elapsed > 1000000000 \<or> delay < -1000000 \<or> delay > 500000000
         then (False, ck)
         else let rtt = (if delay > 0 then delay else 0)
              in (True, ck\<lparr>ck_samples := (ck_samples ck)[unat (ck_next ck) mod 8 :=
                     \<lparr>sm_valid = True, sm_remote = remote_sent, sm_local = received - rtt div 2,
                      sm_observed = received, sm_rtt = rtt\<rparr>],
                   ck_next := ck_next ck + 1\<rparr>))"

definition usable :: "int \<Rightarrow> sample \<Rightarrow> bool" where
  "usable now s \<longleftrightarrow> sm_valid s \<and> \<not> now < sm_observed s \<and> \<not> now - sm_observed s > 30000000000"

definition better :: "int \<Rightarrow> sample \<Rightarrow> sample option \<Rightarrow> sample option" where
  "better now s best =
     (if \<not> usable now s then best
      else case best of None \<Rightarrow> Some s
           | Some b \<Rightarrow> (if sm_rtt s < sm_rtt b then Some s else best))"

definition local_time :: "u64 \<Rightarrow> int \<Rightarrow> ntp_clock \<Rightarrow> int option" where
  "local_time remote now ck =
     (case fold (better now) (ck_samples ck) None of
        None \<Rightarrow> None
      | Some best \<Rightarrow>
          (let delta = delta_ns remote (sm_remote best)
           in if delta < -30000000000 \<or> delta > 30000000000 then None
              else Some (sm_local best + delta)))"

section \<open>The probes\<close>

definition seconds_1900_to_1970 :: u64 where
  "seconds_1900_to_1970 = 2208988800"

definition put_ntp_timestamp :: "u64 \<Rightarrow> bytes" where
  "put_ntp_timestamp ns_since_1970 =
     (let seconds = ns_since_1970 div 1000000000 + seconds_1900_to_1970;
          nanos = ns_since_1970 mod 1000000000;
          fraction = push_bit 32 nanos div 1000000000
      in put_be32 (ucast seconds) @ put_be32 (ucast fraction))"

definition put_at :: "nat \<Rightarrow> bytes \<Rightarrow> bytes \<Rightarrow> bytes" where
  "put_at off x buf = take off buf @ x @ drop (off + length x) buf"

definition get_u64_be :: "nat \<Rightarrow> bytes \<Rightarrow> u64" where
  "get_u64_be off buf = be_fold (substr buf off 8)"

record ntp_client =
  nc_request :: bytes
  nc_recv_time :: u64
  nc_client_ref :: u64
  nc_sent :: nat
  nc_received :: nat
  nc_clock :: ntp_clock

definition new_client :: ntp_client where
  "new_client = \<lparr>nc_request = [0x80, 0xd2, 0x00, 0x07] @ replicate 28 0, nc_recv_time = 0,
     nc_client_ref = 0, nc_sent = 0, nc_received = 0, nc_clock = new_clock\<rparr>"

text \<open>The packet of the next probe.\<close>

definition fill_request :: "u64 \<Rightarrow> ntp_client \<Rightarrow> bytes" where
  "fill_request send_time c =
     (let r = put_at 24 (put_ntp_timestamp send_time) (nc_request c)
      in if nc_recv_time c \<noteq> 0
         then put_at 16 (put_ntp_timestamp (nc_recv_time c)) (put_at 8 (put_be64 (nc_client_ref c)) r)
         else r)"

definition accepts :: "bytes \<Rightarrow> bytes \<Rightarrow> bool" where
  "accepts request response \<longleftrightarrow>
     length response \<ge> 32 \<and> response ! 1 AND 0x7f = 0x53
     \<and> get_u64_be 8 response = get_u64_be 24 request"

text \<open>
  What one round of the loop reads from outside: the wall clock and the steady clock before
  sending, whether sendto succeeded, the datagram recvfrom returned (empty on a timeout), and
  the clocks after it.
\<close>

record probe =
  pb_send_time :: u64
  pb_sent_steady :: int
  pb_sent_ok :: bool
  pb_response :: bytes
  pb_received_steady :: int
  pb_recv_time :: u64

definition poll :: "probe \<Rightarrow> ntp_client \<Rightarrow> ntp_client" where
  "poll p c =
     (let request = fill_request (pb_send_time p) c;
          c1 = c\<lparr>nc_request := request, nc_sent := (if pb_sent_ok p then nc_sent c + 1 else nc_sent c)\<rparr>
      in if accepts request (pb_response p)
         then c1\<lparr>nc_recv_time := pb_recv_time p,
                 nc_client_ref := get_u64_be 24 (pb_response p),
                 nc_received := nc_received c + 1,
                 nc_clock := snd (observe (pb_sent_steady p) (pb_received_steady p)
                    (get_u64_be 16 (pb_response p)) (get_u64_be 24 (pb_response p)) (nc_clock c))\<rparr>
         else c1)"

section \<open>Exactness of the differences\<close>

lemma sdiv_error:
  fixes a b :: int
  assumes "0 < b"
  shows "\<bar>(a sdiv b) * b - a\<bar> < b"
proof -
  have p: "0 \<le> x mod b" "x mod b < b" "(x div b) * b = x - x mod b" for x
    using assms by (simp_all add: minus_mod_eq_div_mult)
  consider "a = 0" | "a > 0" | "a < 0" by linarith
  then show ?thesis
  proof cases
    case 3
    then have "(a sdiv b) * b - a = (- a) mod b"
      using assms p(3) [of "- a"] by (simp add: signed_divide_int_def sgn_mult)
    then show ?thesis using p [of "- a"] by simp
  next
    case 2
    then have "(a sdiv b) * b - a = - (a mod b)"
      using assms p(3) [of a] by (simp add: signed_divide_int_def sgn_mult)
    then show ?thesis using p [of a] by simp
  qed (use assms in simp)
qed

lemma uint_halves:
  "uint (ucast (drop_bit 32 v) :: u32) = uint v div 2 ^ 32"
  "uint (ucast v :: u32) = uint v mod 2 ^ 32" for v :: u64
proof -
  have "uint v div 2 ^ 32 < 2 ^ 32" using uint_bounded [of v] by simp
  moreover have "0 \<le> uint v div 2 ^ 32" by (intro pos_imp_zdiv_nonneg_iff [THEN iffD2]) simp_all
  moreover have "uint (drop_bit 32 v) = uint v div 2 ^ 32"
    by (simp add: drop_bit_eq_div uint_div)
  ultimately show "uint (ucast (drop_bit 32 v) :: u32) = uint v div 2 ^ 32"
    by (simp only: unsigned_ucast_eq take_bit_eq_mod mod_pos_pos_trivial) simp
  show "uint (ucast v :: u32) = uint v mod 2 ^ 32"
    by (simp add: unsigned_ucast_eq take_bit_eq_mod)
qed

definition ntp_units :: "u64 \<Rightarrow> u64 \<Rightarrow> int" where
  "ntp_units v r =
     (let s = (uint v div 2 ^ 32 - uint r div 2 ^ 32) mod 2 ^ 32
      in (if s < 2 ^ 31 then s else s - 2 ^ 32) * 2 ^ 32 + (uint v mod 2 ^ 32 - uint r mod 2 ^ 32))"

lemma ntp_units_bounds: "\<bar>ntp_units v r\<bar> < 2 ^ 63 + 2 ^ 32"
proof -
  define s where "s = (uint v div 2 ^ 32 - uint r div 2 ^ 32) mod 2 ^ 32"
  define S where "S = (if s < 2 ^ 31 then s else s - 2 ^ 32)"
  have "0 \<le> s" "s < 2 ^ 32" by (simp_all add: s_def)
  then have S: "- (2 ^ 31) \<le> S" "S \<le> 2 ^ 31 - 1" by (auto simp: S_def)
  have f: "\<bar>uint v mod 2 ^ 32 - uint r mod 2 ^ 32\<bar> < 2 ^ 32"
    using pos_mod_bound [of "2 ^ 32" "uint v"] pos_mod_bound [of "2 ^ 32" "uint r"]
      pos_mod_sign [of "2 ^ 32" "uint v"] pos_mod_sign [of "2 ^ 32" "uint r"] by simp
  have "ntp_units v r = S * 2 ^ 32 + (uint v mod 2 ^ 32 - uint r mod 2 ^ 32)"
    by (simp add: ntp_units_def S_def s_def Let_def)
  then show ?thesis using S f by simp
qed

lemma ntp_units_cong: "ntp_units v r mod 2 ^ 64 = (uint v - uint r) mod 2 ^ 64"
proof -
  define h where "h = uint v div 2 ^ 32 - uint r div 2 ^ 32"
  define l where "l = uint v mod 2 ^ 32 - uint r mod 2 ^ 32"
  have e: "uint v - uint r = h * 2 ^ 32 + l"
    using div_mult_mod_eq [of "uint v" "2 ^ 32"] div_mult_mod_eq [of "uint r" "2 ^ 32"]
    unfolding h_def l_def by (simp only: left_diff_distrib)
  have m: "h mod 2 ^ 32 = h - (h div 2 ^ 32) * 2 ^ 32" by (simp add: minus_div_mult_eq_mod)
  have "\<exists>k. ntp_units v r = h * 2 ^ 32 + l + k * 2 ^ 64"
  proof (cases "h mod 2 ^ 32 < 2 ^ 31")
    case True
    then have "ntp_units v r = (h mod 2 ^ 32) * 2 ^ 32 + l"
      by (simp add: ntp_units_def Let_def h_def l_def)
    then show ?thesis unfolding m by (intro exI [of _ "- (h div 2 ^ 32)"]) (simp add: algebra_simps)
  next
    case False
    then have "ntp_units v r = (h mod 2 ^ 32 - 2 ^ 32) * 2 ^ 32 + l"
      by (simp add: ntp_units_def Let_def h_def l_def)
    then show ?thesis unfolding m
      by (intro exI [of _ "- (h div 2 ^ 32) - 1"]) (simp add: algebra_simps)
  qed
  then show ?thesis unfolding e by (metis mod_mult_self1)
qed

lemma ntp_units_of:
  assumes "\<bar>d\<bar> \<le> 2 ^ 62" and "v = r + word_of_int d"
  shows "ntp_units v r = d"
proof -
  have "(uint v - uint r) mod 2 ^ 64 = d mod 2 ^ 64"
    unfolding assms(2) by (simp add: uint_word_of_int uint_word_ariths mod_diff_left_eq mod_simps)
  then have "(ntp_units v r - d) mod 2 ^ 64 = 0"
    using ntp_units_cong [of v r] by (metis mod_diff_cong diff_self mod_0)
  then obtain k where k: "ntp_units v r - d = 2 ^ 64 * k" by (metis mod_0_imp_dvd dvdE)
  have "\<bar>ntp_units v r - d\<bar> < 2 ^ 64"
    using ntp_units_bounds [of v r] assms(1) by simp
  then have "k = 0" unfolding k by (simp add: abs_mult)
  then show ?thesis using k by simp
qed

lemma delta_ns_units: "\<bar>delta_ns v r * 2 ^ 32 - ntp_units v r * 10 ^ 9\<bar> < 2 ^ 32"
proof -
  define s where "s = (uint v div 2 ^ 32 - uint r div 2 ^ 32) mod 2 ^ 32"
  define S where "S = (if s < 2 ^ 31 then s else s - 2 ^ 32)"
  define f where "f = uint v mod 2 ^ 32 - uint r mod 2 ^ 32"
  have u: "uint ((ucast (drop_bit 32 v) :: u32) - ucast (drop_bit 32 r)) = s"
    unfolding s_def uint_halves [symmetric] by (simp add: uint_word_ariths)
  have "delta_ns v r = S * 1000000000 + (f * 1000000000) sdiv 0x100000000"
    by (simp add: delta_ns_def Let_def u uint_halves word_le_def S_def f_def)
  moreover have "ntp_units v r = S * 2 ^ 32 + f"
    by (simp add: ntp_units_def S_def s_def f_def Let_def)
  ultimately have "delta_ns v r * 2 ^ 32 - ntp_units v r * 10 ^ 9
      = ((f * 1000000000) sdiv 0x100000000) * 0x100000000 - f * 1000000000"
    by simp
  then show ?thesis using sdiv_error [of "0x100000000" "f * 1000000000"] by simp
qed

lemma delta_ns_bound: "\<bar>delta_ns v r\<bar> \<le> 2 ^ 61"
  using delta_ns_units [of v r] ntp_units_bounds [of v r] by simp

section \<open>The quality of the estimate\<close>

text \<open>
  The sender's clock, as an ideal: at the local time \<open>t\<close> (nanoseconds) it shows the NTP value
  with offset \<open>c\<close> (in units of a 2^-32 second), whatever the era.
\<close>

definition ntp_at :: "int \<Rightarrow> int \<Rightarrow> u64" where
  "ntp_at c t = word_of_int (c + t * 2 ^ 32 div 10 ^ 9)"

lemma delta_ns_ntp_at:
  assumes "\<bar>t - t'\<bar> \<le> 10 ^ 18"
  shows "\<bar>delta_ns (ntp_at c t) (ntp_at c t') - (t - t')\<bar> \<le> 1"
proof -
  define d where "d = t * 2 ^ 32 div 10 ^ 9 - t' * 2 ^ 32 div 10 ^ 9"
  have e: "x div 10 ^ 9 * 10 ^ 9 = x - x mod 10 ^ 9" for x :: int by (simp add: minus_mod_eq_div_mult)
  have m: "0 \<le> x mod 10 ^ 9" "x mod 10 ^ 9 < 10 ^ 9" for x :: int by simp_all
  have "d * 10 ^ 9 = (t - t') * 2 ^ 32 - (t * 2 ^ 32 mod 10 ^ 9) + (t' * 2 ^ 32 mod 10 ^ 9)"
    unfolding d_def left_diff_distrib e by simp
  then have d: "\<bar>d * 10 ^ 9 - (t - t') * 2 ^ 32\<bar> < 10 ^ 9"
    using m [of "t * 2 ^ 32"] m [of "t' * 2 ^ 32"] by linarith
  have "\<bar>(t - t') * 2 ^ 32\<bar> \<le> 10 ^ 18 * 2 ^ 32" using assms by (simp add: abs_mult)
  then have "\<bar>d\<bar> \<le> 2 ^ 62" using d by simp
  moreover have "ntp_at c t = ntp_at c t' + word_of_int d"
    by (simp add: ntp_at_def d_def flip: wi_hom_add)
  ultimately have "ntp_units (ntp_at c t) (ntp_at c t') = d" by (rule ntp_units_of)
  then show ?thesis
    using delta_ns_units [of "ntp_at c t" "ntp_at c t'"] d by simp
qed

text \<open>An exchange that the sender answered between the two local times.\<close>

definition exchange_ok :: "int \<Rightarrow> int \<times> int \<times> u64 \<times> u64 \<Rightarrow> bool" where
  "exchange_ok c x = (case x of (sent, received, rr, rs) \<Rightarrow>
     \<exists>t1 t2. rr = ntp_at c t1 \<and> rs = ntp_at c t2 \<and> sent \<le> t1 \<and> t1 \<le> t2 \<and> t2 \<le> received
       \<and> \<bar>sent\<bar> \<le> 10 ^ 17 \<and> \<bar>received\<bar> \<le> 10 ^ 17)"

lemma exchange_okI:
  "sent \<le> t1 \<Longrightarrow> t1 \<le> t2 \<Longrightarrow> t2 \<le> received \<Longrightarrow> \<bar>sent\<bar> \<le> 10 ^ 17 \<Longrightarrow> \<bar>received\<bar> \<le> 10 ^ 17 \<Longrightarrow>
     exchange_ok c (sent, received, ntp_at c t1, ntp_at c t2)"
  by (auto simp: exchange_ok_def)

definition sample_ok :: "int \<Rightarrow> sample \<Rightarrow> bool" where
  "sample_ok c s \<longleftrightarrow> (sm_valid s \<longrightarrow> 0 \<le> sm_rtt s \<and> sm_rtt s \<le> 500000000 \<and>
     (\<exists>t2. sm_remote s = ntp_at c t2 \<and> \<bar>t2\<bar> \<le> 10 ^ 17 \<and> 2 * \<bar>sm_local s - t2\<bar> \<le> sm_rtt s + 4))"

definition clock_ok :: "int \<Rightarrow> ntp_clock \<Rightarrow> bool" where
  "clock_ok c ck \<longleftrightarrow> length (ck_samples ck) = 8 \<and> list_all (sample_ok c) (ck_samples ck)"

lemma new_clock_ok: "clock_ok c new_clock"
  by (simp add: clock_ok_def new_clock_def sample_ok_def list_all_iff)

lemma list_all_update: "list_all P xs \<Longrightarrow> P x \<Longrightarrow> list_all P (xs[i := x])"
  by (induction xs arbitrary: i) (auto split: nat.split)

lemma observe_ok:
  assumes "clock_ok c ck" and "exchange_ok c (sent, received, rr, rs)"
  shows "clock_ok c (snd (observe sent received rr rs ck))"
proof -
  obtain t1 t2 where x: "rr = ntp_at c t1" "rs = ntp_at c t2" "sent \<le> t1" "t1 \<le> t2" "t2 \<le> received"
      "\<bar>sent\<bar> \<le> 10 ^ 17" "\<bar>received\<bar> \<le> 10 ^ 17"
    using assms(2) by (auto simp: exchange_ok_def)
  define delay where "delay = received - sent - delta_ns rs rr"
  define rtt where "rtt = (if delay > 0 then delay else 0)"
  have t2: "\<bar>t2\<bar> \<le> 10 ^ 17" using x by linarith
  have "\<bar>delta_ns rs rr - (t2 - t1)\<bar> \<le> 1"
    unfolding x(1,2) using x by (intro delta_ns_ntp_at) simp
  then have dl: "\<bar>delay - ((received - t2) + (t1 - sent))\<bar> \<le> 1" by (simp add: delay_def)
  define half where "half = rtt div 2"
  have h: "2 * half \<le> rtt" "rtt \<le> 2 * half + 1" unfolding half_def by linarith+
  have acc: "2 * \<bar>received - rtt div 2 - t2\<bar> \<le> rtt + 4"
  proof -
    have "delay \<le> (received - t2) + (t1 - sent) + 1" "(received - t2) + (t1 - sent) - 1 \<le> delay"
      using dl by (simp_all add: abs_le_iff)
    moreover have "delay \<le> rtt" by (simp add: rtt_def)
    ultimately have "2 * (received - half - t2) \<le> rtt + 4" using h x(3,5) by presburger
    moreover have "- (rtt + 4) \<le> 2 * (received - half - t2)" using h x(3,5) by presburger
    ultimately show ?thesis unfolding half_def by (simp add: abs_if)
  qed
  show ?thesis
  proof (cases "fst (observe sent received rr rs ck)")
    case False
    then have "snd (observe sent received rr rs ck) = ck"
      by (auto simp: observe_def Let_def split: if_splits)
    then show ?thesis using assms(1) by simp
  next
    case True
    then have "delay \<le> 500000000"
      by (auto simp: observe_def Let_def delay_def split: if_splits)
    then have ok: "sample_ok c \<lparr>sm_valid = True, sm_remote = rs, sm_local = received - rtt div 2,
        sm_observed = received, sm_rtt = rtt\<rparr>"
      unfolding sample_ok_def using acc t2 x(2) by (auto simp: rtt_def)
    have "ck_samples (snd (observe sent received rr rs ck))
        = (ck_samples ck)[unat (ck_next ck) mod 8 := \<lparr>sm_valid = True, sm_remote = rs,
             sm_local = received - rtt div 2, sm_observed = received, sm_rtt = rtt\<rparr>]"
      using True by (auto simp: observe_def Let_def delay_def rtt_def split: if_splits)
    then show ?thesis
      using assms(1) list_all_update [where P = "sample_ok c", OF _ ok] by (simp add: clock_ok_def)
  qed
qed

definition observe_all :: "(int \<times> int \<times> u64 \<times> u64) list \<Rightarrow> ntp_clock \<Rightarrow> ntp_clock" where
  "observe_all xs ck = fold (\<lambda>(sent, received, rr, rs) k. snd (observe sent received rr rs k)) xs ck"

lemma observe_all_ok: "clock_ok c ck \<Longrightarrow> list_all (exchange_ok c) xs \<Longrightarrow> clock_ok c (observe_all xs ck)"
  by (induction xs arbitrary: ck) (auto simp: observe_all_def intro: observe_ok)

lemma better_best:
  assumes "fold (better now) ss b0 = Some b"
  shows "(b0 = Some b \<or> b \<in> set ss \<and> usable now b)
    \<and> (\<forall>s \<in> set ss. usable now s \<longrightarrow> sm_rtt b \<le> sm_rtt s)
    \<and> (\<forall>b1. b0 = Some b1 \<longrightarrow> sm_rtt b \<le> sm_rtt b1)"
  using assms
proof (induction ss arbitrary: b0)
  case (Cons s ss)
  then have "fold (better now) ss (better now s b0) = Some b" by simp
  note IH = Cons.IH [OF this]
  show ?case
    using IH by (cases b0) (auto simp: better_def split: if_splits)
qed simp

lemma u64_halves:
  "(ucast (drop_bit 32 (word_of_nat n :: u64)) :: u32) = word_of_nat (n div 2 ^ 32)"
  "(ucast (word_of_nat n :: u64) :: u32) = word_of_nat n"
  unfolding drop_bit_eq_div [symmetric]
  by (rule bit_word_eqI; simp add: bit_simps bit_of_nat_iff_bit)+

lemma word_of_nat_mod: "(word_of_nat (n mod 2 ^ 32) :: u32) = word_of_nat n"
  unfolding take_bit_eq_mod [symmetric]
  by (rule bit_word_eqI) (simp add: bit_simps bit_of_nat_iff_bit)

section \<open>Properties\<close>

text \<open>C18: The error of the estimate: after any exchanges with a sender whose clock has a fixed
  offset, in whatever NTP era, local_time gives for a sender time \<open>t\<close> a local time whose distance
  from \<open>t\<close> is at most half the smallest round trip among the usable samples, plus 3 ns.\<close>

theorem ntp_estimate_error:
  assumes "list_all (exchange_ok c) xs" and "\<bar>t\<bar> \<le> 10 ^ 17"
    and "local_time (ntp_at c t) now (observe_all xs new_clock) = Some x"
  shows "\<exists>b \<in> set (ck_samples (observe_all xs new_clock)). usable now b \<and> sm_rtt b \<le> 500000000
    \<and> (\<forall>s \<in> set (ck_samples (observe_all xs new_clock)). usable now s \<longrightarrow> sm_rtt b \<le> sm_rtt s)
    \<and> 2 * \<bar>x - t\<bar> \<le> sm_rtt b + 6"
proof -
  define ck where "ck = observe_all xs new_clock"
  have ok: "clock_ok c ck" unfolding ck_def using new_clock_ok assms(1) by (rule observe_all_ok)
  obtain b where b: "fold (better now) (ck_samples ck) None = Some b"
      and xb: "x = sm_local b + delta_ns (ntp_at c t) (sm_remote b)"
    using assms(3) by (auto simp: local_time_def ck_def Let_def split: option.splits if_splits)
  note best = better_best [OF b]
  then have mem: "b \<in> set (ck_samples ck)" "usable now b" by auto
  then have "sample_ok c b" "sm_valid b" using ok by (auto simp: clock_ok_def list_all_iff usable_def)
  then obtain t2 where t2: "sm_remote b = ntp_at c t2" "\<bar>t2\<bar> \<le> 10 ^ 17"
      "2 * \<bar>sm_local b - t2\<bar> \<le> sm_rtt b + 4" "sm_rtt b \<le> 500000000"
    by (auto simp: sample_ok_def)
  have "\<bar>delta_ns (ntp_at c t) (ntp_at c t2) - (t - t2)\<bar> \<le> 1"
    using assms(2) t2(2) by (intro delta_ns_ntp_at) simp
  then have "delta_ns (ntp_at c t) (sm_remote b) \<le> t - t2 + 1" "t - t2 - 1 \<le> delta_ns (ntp_at c t) (sm_remote b)"
    by (simp_all add: t2(1) abs_le_iff)
  then have "2 * \<bar>x - t\<bar> \<le> sm_rtt b + 6" using xb t2(3) by (simp add: abs_if split: if_splits)
  then show ?thesis using mem best t2(4) unfolding ck_def by blast
qed

text \<open>What a probe carries: the eight bytes of a timestamp are, big-endian, the NTP value of
  the time, with the fraction rounded down and no overflow on the way.\<close>

theorem ntp_timestamp_exact:
  "be_fold (put_ntp_timestamp ns)
     = word_of_nat (2208988800 * 2 ^ 32 + unat ns * 2 ^ 32 div 10 ^ 9)"
proof -
  define q r where "q = unat ns div 10 ^ 9" and "r = unat ns mod 10 ^ 9"
  have n: "unat ns = q * 10 ^ 9 + r" and r: "r < 10 ^ 9" by (simp_all add: q_def r_def)
  have "unat ns * 2 ^ 32 = r * 2 ^ 32 + (q * 2 ^ 32) * 10 ^ 9" by (simp add: n)
  then have d: "unat ns * 2 ^ 32 div 10 ^ 9 = q * 2 ^ 32 + r * 2 ^ 32 div 10 ^ 9"
    using div_mult_self1 [of "10 ^ 9 :: nat" "r * 2 ^ 32" "q * 2 ^ 32"] by simp
  have qb: "q * 10 ^ 9 < 2 ^ 64"   proof -
    have "q * 10 ^ 9 \<le> unat ns" using n by simp
    also have "\<dots> < 2 ^ 64" using unsigned_less [of ns] by simp
    finally show ?thesis .
  qed
  have n1: "unat (ns div 1000000000) = q" "unat (ns mod 1000000000) = r"
    by (simp_all add: unat_div unat_mod_distrib q_def r_def)
  have fb: "r * 2 ^ 32 div 10 ^ 9 < 2 ^ 32" using r by simp
  define f where "f = r * 2 ^ 32 div 10 ^ 9"
  have of_unat: "unat w = k \<Longrightarrow> w = word_of_nat k" for w :: u64 and k by auto
  note nanos = of_unat [OF n1(2)]
  note sec = of_unat [OF n1(1)]
  have "unat (push_bit 32 (word_of_nat r :: u64)) = r * 2 ^ 32"
  proof -
    have "push_bit 32 (word_of_nat r :: u64) = word_of_nat (r * 2 ^ 32)" by (simp add: push_bit_eq_mult)
    moreover have "r * 2 ^ 32 < 2 ^ LENGTH(64)" using r by simp
    ultimately show ?thesis by (simp only: unat_of_nat mod_less)
  qed
  then have "unat (push_bit 32 (word_of_nat r :: u64) div 1000000000) = f"
    by (simp add: unat_div f_def)
  then have frac: "push_bit 32 (ns mod 1000000000) div 1000000000 = word_of_nat f"
    unfolding nanos by (rule of_unat)
  define total where "total = (2208988800 + q) * 2 ^ 32 + f"
  have tot: "2208988800 * 2 ^ 32 + unat ns * 2 ^ 32 div 10 ^ 9 = total"
    unfolding total_def f_def d by simp
  have "total div 2 ^ 32 = 2208988800 + q"
    unfolding total_def using fb by (subst div_mult_self3) (simp_all add: f_def)
  moreover have "total mod 2 ^ 32 = f"
    unfolding total_def using fb by (subst mod_mult_self3) (simp_all add: f_def)
  ultimately have "put_be64 (word_of_nat total)
      = put_be32 (word_of_nat (2208988800 + q)) @ put_be32 (word_of_nat f)"
    unfolding put_be64_def u64_halves by (metis word_of_nat_mod)
  then show ?thesis
    unfolding tot put_ntp_timestamp_def Let_def frac sec seconds_1900_to_1970_def
    using be_fold_put_be64 [of "word_of_nat total"] u64_halves(2) [of "q + 2208988800"]
    by (simp add: u64_halves add.commute)
qed

text \<open>The exchanges of the witness: a probe sent at 1 ms and answered at 3 ms, and one at 4 s.\<close>

definition sample_exchanges :: "(int \<times> int \<times> u64 \<times> u64) list" where
  "sample_exchanges =
     [(1000000, 5000000, ntp_at (- 4294967296) 3000000, ntp_at (- 4294967296) 3000000),
      (4000000000, 4002000000, ntp_at (- 4294967296) 4001000000, ntp_at (- 4294967296) 4001000000)]"

theorem ntp_estimate_error_witness:
  "\<exists>x. local_time (ntp_at (- 4294967296) 5000000000) 5000000000 (observe_all sample_exchanges new_clock)
      = Some x \<and> 2 * \<bar>x - 5000000000\<bar> \<le> 500000006"
proof -
  have ok: "list_all (exchange_ok (- 4294967296)) sample_exchanges"
    by (simp add: sample_exchanges_def exchange_okI)
  have "replicate 8 y = [y, y, y, y, y, y, y, y]" for y :: sample by (simp add: eval_nat_numeral)
  then have "\<exists>x. local_time (ntp_at (- 4294967296) 5000000000) 5000000000
      (observe_all sample_exchanges new_clock) = Some x"
    by (simp add: sample_exchanges_def observe_all_def observe_def new_clock_def local_time_def
        ntp_at_def delta_ns_def better_def usable_def Let_def signed_divide_int_def)
  then obtain x where x: "local_time (ntp_at (- 4294967296) 5000000000) 5000000000
      (observe_all sample_exchanges new_clock) = Some x" ..
  show ?thesis using ntp_estimate_error [OF ok _ x] x by auto
qed

text \<open>Every probe is a 32-byte packet that ends in the timestamp of its own sending time, and
  a reply changes the clock, or any time the next probe carries, only if it is a timing reply of at
  least 32 bytes that echoes exactly that timestamp: late replies to earlier probes are ignored.\<close>

theorem ntp_probe_echo:
  assumes "length (nc_request c) = 32"
  shows "length (nc_request (poll p c)) = 32
    \<and> substr (nc_request (poll p c)) 24 8 = put_ntp_timestamp (pb_send_time p)
    \<and> (if length (pb_response p) \<ge> 32 \<and> pb_response p ! 1 AND 0x7f = 0x53
          \<and> get_u64_be 8 (pb_response p) = be_fold (put_ntp_timestamp (pb_send_time p))
       then nc_clock (poll p c) = snd (observe (pb_sent_steady p) (pb_received_steady p)
              (get_u64_be 16 (pb_response p)) (get_u64_be 24 (pb_response p)) (nc_clock c))
       else nc_clock (poll p c) = nc_clock c \<and> nc_recv_time (poll p c) = nc_recv_time c
              \<and> nc_client_ref (poll p c) = nc_client_ref c)"
proof -
  have len: "length (put_ntp_timestamp t) = 8" for t by (simp add: put_ntp_timestamp_def Let_def)
  have "length (fill_request t c) = 32 \<and> substr (fill_request t c) 24 8 = put_ntp_timestamp t" for t
    using assms by (simp add: fill_request_def put_at_def substr_def len Let_def)
  note f = this [of "pb_send_time p"]
  have "get_u64_be 24 (fill_request (pb_send_time p) c) = be_fold (put_ntp_timestamp (pb_send_time p))"
    using f by (simp add: get_u64_be_def)
  with f show ?thesis by (simp add: poll_def accepts_def Let_def)
qed

theorem ntp_probe_echo_witness:
  "nc_clock (poll \<lparr>pb_send_time = 5000, pb_sent_steady = 1, pb_sent_ok = True, pb_response = [],
      pb_received_steady = 2, pb_recv_time = 6000\<rparr> new_client) = new_clock"
  using ntp_probe_echo [of new_client "\<lparr>pb_send_time = 5000, pb_sent_steady = 1, pb_sent_ok = True,
      pb_response = [], pb_received_steady = 2, pb_recv_time = 6000\<rparr>"]
  by (simp add: new_client_def)

end
