(* ===== verification/H264Sps.thy ===== *)
theory H264Sps
  imports Prelude "HOL-Library.Signed_Division" "HOL-Library.State_Monad"
begin

text \<open>
  src/airplay/h264_sps.cpp: the sequence parameter set of an H.264 stream. The emulation
  prevention bytes are removed, then a bit reader with Exp-Golomb codes walks the fields. The
  reader is the state of a state monad, so that the parser reads in the order of the source.
  Where the source computes something C++ leaves undefined (a shift by 32, a signed sum out of
  range) the model sets \<open>br_undef\<close>, and goes on with the value an x86 processor gives.
\<close>

section \<open>Removing the emulation prevention\<close>

fun ebsp_to_rbsp :: "bytes \<Rightarrow> bytes" where
  "ebsp_to_rbsp (a # b # c # r) =
     (if a = 0 \<and> b = 0 \<and> c = 3 then 0 # 0 # ebsp_to_rbsp r else a # ebsp_to_rbsp (b # c # r))"
| "ebsp_to_rbsp r = r"

section \<open>The bit reader\<close>

record bit_reader =
  br_buf :: bytes
  br_pos :: nat
  br_error :: bool
  br_undef :: bool

definition open_reader :: "bytes \<Rightarrow> bit_reader" where
  "open_reader buf = \<lparr>br_buf = buf, br_pos = 0, br_error = False, br_undef = False\<rparr>"

definition step_bit :: "bit_reader \<Rightarrow> bool \<times> bit_reader" where
  "step_bit br =
     (if br_pos br \<ge> length (br_buf br) * 8 then (False, br\<lparr>br_error := True\<rparr>)
      else (bit (br_buf br ! (br_pos br div 8)) (7 - br_pos br mod 8), br\<lparr>br_pos := br_pos br + 1\<rparr>))"

definition u1 :: "(bit_reader, bool) state" where
  "u1 = State step_bit"

definition failed :: "(bit_reader, bool) state" where
  "failed = State (\<lambda>br. (br_error br, br))"

definition mark_undef :: "bool \<Rightarrow> (bit_reader, unit) state" where
  "mark_undef p = State (\<lambda>br. ((), br\<lparr>br_undef := br_undef br \<or> p\<rparr>))"

primrec u_loop :: "nat \<Rightarrow> u32 \<Rightarrow> (bit_reader, u32) state" where
  "u_loop 0 v = State_Monad.return v"
| "u_loop (Suc n) v =
     do { b \<leftarrow> u1;
          e \<leftarrow> failed;
          if e then State_Monad.return 0 else u_loop n (push_bit 1 v OR of_bool b) }"

definition u :: "nat \<Rightarrow> (bit_reader, u32) state" where
  "u n = u_loop n 0"

text \<open>\<open>while (!u1() && !error && zeros < 32) ++zeros\<close>; the argument is \<open>32 - zeros\<close>.\<close>

primrec zeros_loop :: "nat \<Rightarrow> (bit_reader, nat) state" where
  "zeros_loop 0 = do { b \<leftarrow> u1; State_Monad.return 32 }"
| "zeros_loop (Suc k) =
     do { b \<leftarrow> u1;
          e \<leftarrow> failed;
          if \<not> b \<and> \<not> e then zeros_loop k else State_Monad.return (32 - Suc k) }"

definition ue :: "(bit_reader, u32) state" where
  "ue =
     do { zeros \<leftarrow> zeros_loop 32;
          e \<leftarrow> failed;
          if e then State_Monad.return 0
          else if zeros = 0 then State_Monad.return 0
          else do { v \<leftarrow> u zeros;
                    e \<leftarrow> failed;
                    if e then State_Monad.return 0
                    else do { mark_undef (zeros \<ge> 32);
                              State_Monad.return (push_bit (zeros mod 32) 1 - 1 + v) } } }"

definition se :: "(bit_reader, int) state" where
  "se =
     do { k \<leftarrow> ue;
          e \<leftarrow> failed;
          if e then State_Monad.return 0
          else if k = 0 then State_Monad.return 0
          else State_Monad.return (if k AND 1 \<noteq> 0 then sint ((k + 1) div 2) else - sint (k div 2)) }"

section \<open>The parser\<close>

definition compute_frame_size ::
  "u32 \<Rightarrow> u32 \<Rightarrow> bool \<Rightarrow> bool \<Rightarrow> u32 \<Rightarrow> u32 \<Rightarrow> u32 \<Rightarrow> u32 \<Rightarrow> u32 \<times> u32" where
  "compute_frame_size wmbs hmbs mbs_only cropping left right upper lower =
     (let w_mb = (wmbs + 1) * 16;
          h_mb = (hmbs + 1) * 16 * (if mbs_only then 1 else 2);
          crop_x = (if cropping then 2 * (left + right) else 0);
          crop_y = (if cropping then 2 * (upper + lower) * (if mbs_only then 1 else 2) else 0)
      in (if w_mb > crop_x then w_mb - crop_x else w_mb,
          if h_mb > crop_y then h_mb - crop_y else h_mb))"

definition int_range :: "int \<Rightarrow> bool" where
  "int_range i \<longleftrightarrow> - (2 ^ 31) \<le> i \<and> i < 2 ^ 31"

text \<open>The deltas of one scaling list, \<open>n\<close> of them left.\<close>

primrec scaling_list :: "nat \<Rightarrow> int \<Rightarrow> int \<Rightarrow> (bit_reader, unit) state" where
  "scaling_list 0 last_scale next_scale = State_Monad.return ()"
| "scaling_list (Suc n) last_scale next_scale =
     do { e \<leftarrow> failed;
          if e then State_Monad.return ()
          else do { nxt \<leftarrow> (if next_scale \<noteq> 0
                           then do { delta \<leftarrow> se;
                                     mark_undef (\<not> int_range (last_scale + delta)
                                                 \<or> \<not> int_range (last_scale + delta + 256));
                                     State_Monad.return ((last_scale + delta + 256) smod 256) }
                           else State_Monad.return next_scale);
                    scaling_list n (if nxt \<noteq> 0 then nxt else last_scale) nxt } }"

text \<open>The scaling lists \<open>i, \<dots>, count - 1\<close>; the first argument is how many are left.\<close>

primrec scaling_lists :: "nat \<Rightarrow> nat \<Rightarrow> (bit_reader, unit) state" where
  "scaling_lists 0 count = State_Monad.return ()"
| "scaling_lists (Suc m) count =
     do { e \<leftarrow> failed;
          if e then State_Monad.return ()
          else do { present \<leftarrow> u1;
                    (if present then scaling_list (if count - Suc m < 6 then 16 else 64) 8 8
                     else State_Monad.return ());
                    scaling_lists m count } }"

primrec skip_se :: "nat \<Rightarrow> (bit_reader, unit) state" where
  "skip_se 0 = State_Monad.return ()"
| "skip_se (Suc n) =
     do { e \<leftarrow> failed; if e then State_Monad.return () else do { se; skip_se n } }"

definition has_chroma_ext :: "byte \<Rightarrow> bool" where
  "has_chroma_ext p \<longleftrightarrow> p \<in> {100, 110, 122, 244, 44, 83, 86, 118, 128, 138, 139, 134, 135}"

definition chroma_extension :: "(bit_reader, unit) state" where
  "chroma_extension =
     do { chroma_format_idc \<leftarrow> ue;
          (if chroma_format_idc = 3 then do { u1; State_Monad.return () } else State_Monad.return ());
          ue;
          ue;
          u1;
          matrix \<leftarrow> u1;
          (if matrix then let count = (if chroma_format_idc \<noteq> 3 then 8 else 12)
                          in scaling_lists count count
           else State_Monad.return ()) }"

definition pic_order_count :: "(bit_reader, unit) state" where
  "pic_order_count =
     do { pic_order_cnt_type \<leftarrow> ue;
          (if pic_order_cnt_type = 0 then do { ue; State_Monad.return () }
           else if pic_order_cnt_type = 1
           then do { u1; se; se; n \<leftarrow> ue; skip_se (unat n) }
           else State_Monad.return ()) }"

record sps_info =
  sps_profile :: byte
  sps_level :: byte
  sps_width :: u32
  sps_height :: u32
  sps_interlaced :: bool

definition crop_fields :: "bool \<Rightarrow> (bit_reader, u32 \<times> u32 \<times> u32 \<times> u32) state" where
  "crop_fields cropping =
     (if cropping
      then do { l \<leftarrow> ue; r \<leftarrow> ue; t \<leftarrow> ue; b \<leftarrow> ue; State_Monad.return (l, r, t, b) }
      else State_Monad.return (0, 0, 0, 0))"

definition sps_body :: "byte \<Rightarrow> (bit_reader, u32 \<times> u32 \<times> bool) state" where
  "sps_body profile =
     do { ue;
          (if has_chroma_ext profile then chroma_extension else State_Monad.return ());
          ue;
          pic_order_count;
          ue;
          u1;
          wmbs \<leftarrow> ue;
          hmbs \<leftarrow> ue;
          mbs_only \<leftarrow> u1;
          (if \<not> mbs_only then do { u1; State_Monad.return () } else State_Monad.return ());
          u1;
          cropping \<leftarrow> u1;
          (l, r, t, b) \<leftarrow> crop_fields cropping;
          (let (w, h) = compute_frame_size wmbs hmbs mbs_only cropping l r t b
           in State_Monad.return (w, h, \<not> mbs_only)) }"

definition empty_sps :: sps_info where
  "empty_sps = \<lparr>sps_profile = 0, sps_level = 0, sps_width = 0, sps_height = 0, sps_interlaced = False\<rparr>"

text \<open>The result: the return value, \<open>out\<close>, and whether an undefined operation was executed.\<close>

definition parse_h264_sps :: "bytes \<Rightarrow> bool \<times> sps_info \<times> bool" where
  "parse_h264_sps sps =
     (if length sps < 4 then (False, empty_sps, False)
      else if hd sps AND 0x1f \<noteq> 7 then (False, empty_sps, False)
      else let rbsp = ebsp_to_rbsp (tl sps)
           in if length rbsp < 3 then (False, empty_sps, False)
              else let out = empty_sps\<lparr>sps_profile := rbsp ! 0, sps_level := rbsp ! 2\<rparr>;
                       ((w, h, il), br) = run_state (sps_body (rbsp ! 0)) (open_reader (drop 3 rbsp))
                   in if br_error br then (False, out, br_undef br)
                      else (True, out\<lparr>sps_width := w, sps_height := h, sps_interlaced := il\<rparr>, br_undef br))"

definition profile_name :: "byte \<Rightarrow> string" where
  "profile_name p =
     (case map_of [(66, ''Baseline''), (77, ''Main''), (88, ''Extended''), (100, ''High''),
                   (110, ''High 10''), (122, ''High 4:2:2''), (244, ''High 4:4:4''),
                   (44, ''CAVLC 4:4:4'')] (unat p) of
        Some n \<Rightarrow> n
      | None \<Rightarrow> ''Profile '' @ show_nat (unat p))"

section \<open>The writer\<close>

text \<open>The bits of a byte string, and the codes of the standard as bit strings.\<close>

definition byte_bits :: "byte \<Rightarrow> bool list" where
  "byte_bits b = map (\<lambda>i. bit b (7 - i)) [0..<8]"

definition bits_of :: "bytes \<Rightarrow> bool list" where
  "bits_of bs = concat (map byte_bits bs)"

fun bin_bits :: "nat \<Rightarrow> bool list" where
  "bin_bits n = (if n = 0 then [] else bin_bits (n div 2) @ [odd n])"

declare bin_bits.simps [simp del]

definition bits_val :: "bool list \<Rightarrow> nat" where
  "bits_val bs = foldl (\<lambda>v b. 2 * v + of_bool b) 0 bs"

definition ue_bits :: "nat \<Rightarrow> bool list" where
  "ue_bits k = (let bs = bin_bits (k + 1) in replicate (length bs - 1) False @ bs)"

definition se_code :: "int \<Rightarrow> nat" where
  "se_code i = (if i > 0 then nat (2 * i - 1) else nat (- 2 * i))"

definition se_bits :: "int \<Rightarrow> bool list" where
  "se_bits i = ue_bits (se_code i)"

fun add_emulation :: "nat \<Rightarrow> bytes \<Rightarrow> bytes" where
  "add_emulation z [] = []"
| "add_emulation z (b # r) =
     (if z \<ge> 2 \<and> b \<le> 3 then 3 # b # add_emulation (if b = 0 then 1 else 0) r
      else b # add_emulation (if b = 0 then z + 1 else 0) r)"

section \<open>Lemmas on the reader\<close>

lemma ebsp_nz: "a \<noteq> 0 \<Longrightarrow> ebsp_to_rbsp (a # r) = a # ebsp_to_rbsp r"
  by (cases r; cases "tl r"; simp)

lemma ebsp_z_nz: "b \<noteq> 0 \<Longrightarrow> ebsp_to_rbsp (0 # b # r) = 0 # b # ebsp_to_rbsp r"
  by (cases r) (auto simp: ebsp_nz)

lemma ebsp_zz: "c \<noteq> 3 \<Longrightarrow> c \<noteq> 0 \<Longrightarrow> ebsp_to_rbsp (0 # 0 # c # r) = 0 # 0 # c # ebsp_to_rbsp r"
  by (simp add: ebsp_z_nz)

lemma ebsp_add_emulation:
  "z \<le> 2 \<Longrightarrow> ebsp_to_rbsp (replicate z 0 @ add_emulation z r) = replicate z 0 @ r"
proof (induction r arbitrary: z)
  case Nil
  then have "z = 0 \<or> z = 1 \<or> z = 2" by linarith
  then show ?case by (auto simp: numeral_2_eq_2)
next
  case (Cons b r)
  note IH0 = Cons.IH [of 0, simplified] and IH1 = Cons.IH [of 1, simplified]
    and IH2 = Cons.IH [of 2, simplified numeral_2_eq_2, simplified]
  from Cons.prems consider "z = 0" | "z = 1" | "z = 2" by linarith
  then show ?case
  proof cases
    case 1
    then show ?thesis using IH0 IH1 by (cases "b = 0") (simp_all add: ebsp_nz)
  next
    case 2
    then show ?thesis using IH0 IH2 by (cases "b = 0") (simp_all add: ebsp_z_nz numeral_2_eq_2)
  next
    case 3
    show ?thesis
    proof (cases "b \<le> 3")
      case True
      then show ?thesis using 3 IH0 IH1 by (cases "b = 0") (simp_all add: ebsp_nz numeral_2_eq_2)
    next
      case False
      then have "b \<noteq> 0" "b \<noteq> 3" by auto
      then show ?thesis using 3 False IH0 by (simp add: ebsp_zz ebsp_z_nz numeral_2_eq_2)
    qed
  qed
qed

text \<open>What is left to read, as bits.\<close>

definition holds :: "bit_reader \<Rightarrow> bool list \<Rightarrow> bool" where
  "holds br bs \<longleftrightarrow> \<not> br_error br \<and> \<not> br_undef br \<and> br_pos br \<le> length (br_buf br) * 8
     \<and> drop (br_pos br) (bits_of (br_buf br)) = bs"

lemma length_byte_bits [simp]: "length (byte_bits b) = 8"
  by (simp add: byte_bits_def)

lemma length_bits_of [simp]: "length (bits_of bs) = length bs * 8"
  by (induction bs) (simp_all add: bits_of_def)

lemma nth_bits_of: "i < length bs * 8 \<Longrightarrow> bits_of bs ! i = bit (bs ! (i div 8)) (7 - i mod 8)"
proof (induction bs arbitrary: i)
  case (Cons b bs)
  show ?case
  proof (cases "i < 8")
    case True
    then show ?thesis by (simp add: bits_of_def nth_append byte_bits_def)
  next
    case False
    then obtain j where j: "i = j + 8" by (metis add.commute le_Suc_ex not_less)
    then have "bits_of (b # bs) ! i = bits_of bs ! j" by (simp add: bits_of_def nth_append)
    moreover have "(j + 8) div 8 = Suc (j div 8)" "(j + 8) mod 8 = j mod 8" by simp_all
    ultimately show ?thesis using Cons j by simp
  qed
qed simp

lemma holds_open: "holds (open_reader buf) (bits_of buf)"
  by (simp add: holds_def open_reader_def)

lemma step_bit_holds:
  assumes "holds br (b # bs)"
  shows "\<exists>br'. step_bit br = (b, br') \<and> holds br' bs"
proof -
  have len: "br_pos br < length (br_buf br) * 8"
    using assms by (auto simp: holds_def) (metis drop_all length_bits_of linorder_not_le list.distinct(1))
  then have "bits_of (br_buf br) ! br_pos br = b" and "drop (Suc (br_pos br)) (bits_of (br_buf br)) = bs"
    using assms Cons_nth_drop_Suc [of "br_pos br" "bits_of (br_buf br)"] by (auto simp: holds_def)
  then show ?thesis using assms len nth_bits_of [of "br_pos br" "br_buf br"]
    by (auto simp: step_bit_def holds_def)
qed

text \<open>\<open>yields m bs x\<close>: the reader program \<open>m\<close> consumes the bits \<open>bs\<close> and returns \<open>x\<close>.\<close>

definition yields :: "(bit_reader, 'a) state \<Rightarrow> bool list \<Rightarrow> 'a \<Rightarrow> bool" where
  "yields m bs x \<longleftrightarrow> (\<forall>br rest. holds br (bs @ rest) \<longrightarrow>
     (\<exists>br'. run_state m br = (x, br') \<and> holds br' rest))"

lemma yields_return: "yields (State_Monad.return x) [] x"
  by (simp add: yields_def)

lemma yields_bind:
  "yields m bs x \<Longrightarrow> yields (f x) cs y \<Longrightarrow> yields (m \<bind> f) (bs @ cs) y"
  by (fastforce simp: yields_def)

lemma yields_u1: "yields u1 [b] b"
  using step_bit_holds by (fastforce simp: yields_def u1_def)

lemma yields_failed: "yields failed [] False"
  by (auto simp: yields_def failed_def holds_def)

lemma yields_mark: "yields (mark_undef False) [] ()"
  by (auto simp: yields_def mark_undef_def holds_def)

lemma yields_u1_bind: "yields (f b) cs y \<Longrightarrow> yields (u1 \<bind> f) (b # cs) y"
  using yields_bind [OF yields_u1, of f b cs y] by simp

lemma yields_failed_bind: "yields (f False) cs y \<Longrightarrow> yields (failed \<bind> f) cs y"
  using yields_bind [OF yields_failed, of f cs y] by simp

lemma yields_mark_bind: "yields (f ()) cs y \<Longrightarrow> yields (mark_undef False \<bind> f) cs y"
  using yields_bind [OF yields_mark, of f cs y] by simp

lemma yields_return_bind: "yields (f x) cs y \<Longrightarrow> yields (State_Monad.return x \<bind> f) cs y"
  using yields_bind [OF yields_return, of f x cs y] by simp

lemmas yields_intros = yields_u1_bind yields_failed_bind yields_mark_bind yields_return_bind yields_return

lemma push_or: "push_bit 1 w OR of_bool b = 2 * w + of_bool b" for w :: u32
proof -
  have "push_bit 1 w AND of_bool b = 0"
    by (rule bit_word_eqI) (auto simp: bit_simps bit_0)
  then have "push_bit 1 w OR of_bool b = push_bit 1 w + of_bool b"
    by (simp add: disjunctive_add_eq_or)
  then show ?thesis by (simp add: push_bit_eq_mult mult.commute)
qed

lemma yields_u_loop:
  "yields (u_loop (length bs) (word_of_nat a)) bs (word_of_nat (foldl (\<lambda>v b. 2 * v + of_bool b) a bs))"
proof (induction bs arbitrary: a)
  case Nil
  then show ?case by (simp add: yields_return)
next
  case (Cons b bs)
  have "push_bit 1 (word_of_nat a) OR of_bool b = (word_of_nat (2 * a + of_bool b) :: u32)"
    unfolding push_or by simp
  then have "yields (u_loop (length bs) (push_bit 1 (word_of_nat a) OR of_bool b)) bs
      (word_of_nat (foldl (\<lambda>v b. 2 * v + of_bool b) (2 * a + of_bool b) bs))"
    using Cons [of "2 * a + of_bool b"] by (simp only:)
  then show ?case
    unfolding u_loop.simps length_Cons foldl_Cons
    by (intro yields_u1_bind yields_failed_bind) (simp only: if_False)
qed

lemma yields_u: "length bs = n \<Longrightarrow> yields (u n) bs (word_of_nat (bits_val bs))"
  using yields_u_loop [of bs 0] by (auto simp: u_def bits_val_def)

lemma yields_zeros:
  "z < n \<Longrightarrow> n \<le> 32 \<Longrightarrow> yields (zeros_loop n) (replicate z False @ [True]) (32 - n + z)"
proof (induction z arbitrary: n)
  case 0
  then obtain k where n: "n = Suc k" by (cases n) auto
  then show ?case by (auto intro!: yields_u1_bind yields_failed_bind yields_return)
next
  case (Suc z)
  then obtain k where n: "n = Suc k" by (cases n) auto
  have "yields (zeros_loop k) (replicate z False @ [True]) (32 - k + z)" using Suc n by simp
  moreover have "32 - k + z = 32 - n + Suc z" using Suc.prems n by simp
  ultimately show ?case using n by (auto intro!: yields_u1_bind yields_failed_bind)
qed

lemma foldl_bits: "foldl (\<lambda>v b. 2 * v + of_bool b) a bs = a * 2 ^ length bs + bits_val bs"
proof (induction bs rule: rev_induct)
  case (snoc b bs)
  then show ?case by (simp add: bits_val_def algebra_simps)
qed (simp add: bits_val_def)

lemma bits_val_bin: "bits_val (bin_bits n) = n"
proof (induction n rule: bin_bits.induct)
  case (1 n)
  then show ?case
    by (subst bin_bits.simps) (auto simp: bits_val_def elim: oddE)
qed

lemma bin_bits_Cons: "0 < n \<Longrightarrow> \<exists>bs. bin_bits n = True # bs \<and> n = 2 ^ length bs + bits_val bs"
proof (induction n rule: bin_bits.induct)
  case (1 n)
  show ?case
  proof (cases "n = 1")
    case True
    then have "bin_bits n = [True]" by (simp add: bin_bits.simps [of 1] bin_bits.simps [of 0] del: One_nat_def)
    then show ?thesis using True by (simp add: bits_val_def)
  next
    case False
    with 1 obtain bs where "bin_bits (n div 2) = True # bs" by auto
    then have b: "bin_bits n = True # bs @ [odd n]" using 1 by (simp add: bin_bits.simps [of n])
    have "n = foldl (\<lambda>v b. 2 * v + of_bool b) 1 (bs @ [odd n])"
      using bits_val_bin [of n] by (simp add: b bits_val_def)
    then show ?thesis using b foldl_bits [of 1 "bs @ [odd n]"] by auto
  qed
qed

lemma yields_ue:
  assumes "k + 1 < 2 ^ 32"
  shows "yields ue (ue_bits k) (word_of_nat k)"
proof -
  obtain bs where bs: "bin_bits (k + 1) = True # bs" "k + 1 = 2 ^ length bs + bits_val bs"
    using bin_bits_Cons [of "k + 1"] by auto
  define z where "z = length bs"
  have z: "z < 32"
  proof (rule ccontr)
    assume "\<not> z < 32"
    then have "(2 :: nat) ^ 32 \<le> 2 ^ z" by (intro power_increasing) simp_all
    then show False using bs(2) assms by (simp add: z_def)
  qed
  have u: "ue_bits k = (replicate z False @ [True]) @ bs" using bs(1) by (simp add: ue_bits_def z_def)
  have zl: "yields (zeros_loop 32) (replicate z False @ [True]) z"
    using yields_zeros [of z 32] z by simp
  show ?thesis
  proof (cases "z = 0")
    case True
    then have "k = 0" "bs = []" using bs by (simp_all add: z_def bits_val_def)
    have "yields ue ((replicate z False @ [True]) @ []) 0"
      unfolding ue_def by (rule yields_bind [OF zl]) (auto simp: True intro!: yields_intros)
    then show ?thesis using u \<open>k = 0\<close> \<open>bs = []\<close> by simp
  next
    case False
    have w: "(push_bit (z mod 32) 1 :: u32) - 1 + word_of_nat (bits_val bs) = word_of_nat k"
    proof -
      have "(push_bit z 1 :: u32) = word_of_nat (2 ^ z)" by (simp add: push_bit_eq_mult)
      moreover have "word_of_nat k = (word_of_nat (2 ^ length bs + bits_val bs) :: u32) - 1"
        unfolding bs(2) [symmetric] by simp
      ultimately show ?thesis using z by (simp add: z_def)
    qed
    have uz: "yields (u z) bs (word_of_nat (bits_val bs))" by (rule yields_u) (simp add: z_def)
    have "yields ue ((replicate z False @ [True]) @ (bs @ [])) (push_bit (z mod 32) 1 - 1 + word_of_nat (bits_val bs))"
      unfolding ue_def
    proof (rule yields_bind [OF zl], rule yields_failed_bind, simp only: if_False False, rule yields_bind [OF uz])
      show "yields (failed \<bind> (\<lambda>e. if e then State_Monad.return 0 else mark_undef (32 \<le> z)
          \<bind> (\<lambda>_. State_Monad.return (push_bit (z mod 32) 1 - 1 + word_of_nat (bits_val bs))))) []
          (push_bit (z mod 32) 1 - 1 + word_of_nat (bits_val bs))"
        using z by (intro yields_failed_bind) (auto intro!: yields_intros)
    qed
    then show ?thesis unfolding w u by simp
  qed
qed

lemma yields_ue_bind:
  "yields (f (word_of_nat k)) cs y \<Longrightarrow> k + 1 < 2 ^ 32 \<Longrightarrow> yields (ue \<bind> f) (ue_bits k @ cs) y"
  by (rule yields_bind [OF yields_ue])

lemma unat_of_nat32: "n < 2 ^ 32 \<Longrightarrow> unat (word_of_nat n :: u32) = n"
  by (simp add: unat_of_nat)

lemma word_of_nat_eq_iff32:
  assumes "m < 2 ^ 32" and "n < 2 ^ 32"
  shows "(word_of_nat m = (word_of_nat n :: u32)) \<longleftrightarrow> m = n"
  using unat_of_nat32 [OF assms(1)] unat_of_nat32 [OF assms(2)] by metis

lemma yields_se_bind:
  assumes "yields (f i) cs y" and "\<bar>i\<bar> < 2 ^ 31"
  shows "yields (se \<bind> f) (se_bits i @ cs) y"
proof -
  define k where "k = se_code i"
  have k: "k + 1 < 2 ^ 32" using assms(2) by (auto simp: k_def se_code_def)
  have uk: "unat (word_of_nat k :: u32) = k" using k by (simp add: unat_of_nat)
  have u1: "unat (word_of_nat k + 1 :: u32) = k + 1"
    using k by (simp add: unat_plus_if_size uk word_size)
  have "yields se (ue_bits k @ []) i"
    unfolding se_def
  proof (rule yields_ue_bind, rule yields_failed_bind, unfold if_False)
    have odd: "(word_of_nat k :: u32) AND 1 \<noteq> 0 \<longleftrightarrow> odd k"
    proof -
      have "(w AND 1 \<noteq> 0) = odd w" for w :: u32 by (simp add: and_one_eq mod_2_eq_odd)
      moreover have "odd (word_of_nat k :: u32) = odd k" by (simp add: bit_of_nat_iff_bit flip: bit_0)
      ultimately show ?thesis by simp
    qed
    have sint: "sint (w :: u32) = int (unat w)" if "unat w < 2 ^ 31" for w
    proof -
      have "int (unat w) < int (2 ^ 31)" using that by (simp only: of_nat_less_iff)
      then have lt: "uint w < 2147483648" by simp
      have ge: "- 2147483648 \<le> uint w" by (rule order_trans [OF _ uint_ge_0]) simp
      have "signed_take_bit 31 (uint w) = uint w"
        using lt ge by (intro signed_take_bit_int_eq_self) simp_all
      then show ?thesis unfolding sint_uint by simp
    qed
    have a: "sint ((word_of_nat k + 1) div 2 :: u32) = int ((k + 1) div 2)"
      using k by (subst sint) (simp_all add: unat_div u1)
    have b: "sint (word_of_nat k div 2 :: u32) = int (k div 2)"
      using k by (subst sint) (simp_all add: unat_div uk)
    have e: "(if (word_of_nat k :: u32) = 0 then 0
        else if (word_of_nat k :: u32) AND 1 \<noteq> 0 then sint ((word_of_nat k + 1) div 2 :: u32)
        else - sint (word_of_nat k div 2 :: u32)) = i"
    proof (cases "i > 0")
      case True
      then obtain n where n: "i = int n + 1" by (metis zero_less_imp_eq_int add.commute int_ops(2,4,5) Suc_pred plus_1_eq_Suc)
      then have kn: "k = 2 * n + 1" by (simp add: k_def se_code_def nat_eq_iff)
      then have "(word_of_nat k :: u32) \<noteq> 0" using word_of_nat_eq_iff32 [of k 0] k by auto
      then show ?thesis unfolding odd a b using n kn by simp
    next
      case False
      then obtain n where n: "i = - int n" by (metis nat_0_le minus_minus neg_0_le_iff_le not_less)
      then have kn: "k = 2 * n" by (simp add: k_def se_code_def nat_mult_distrib)
      then have "(word_of_nat k :: u32) = 0 \<longleftrightarrow> n = 0" using word_of_nat_eq_iff32 [of k 0] k by auto
      then show ?thesis unfolding odd a b using n kn by simp
    qed
    show "yields (if (word_of_nat k :: u32) = 0 then State_Monad.return 0
        else State_Monad.return (if (word_of_nat k :: u32) AND 1 \<noteq> 0 then sint ((word_of_nat k + 1) div 2 :: u32)
          else - sint (word_of_nat k div 2 :: u32))) [] i"
      unfolding if_distrib [of State_Monad.return, symmetric] e by (rule yields_return)
  qed (rule k)
  then show ?thesis using yields_bind [of se "ue_bits k" i f cs y] assms(1) by (simp add: se_bits_def k_def)
qed

lemma yields_skip_se:
  "list_all (\<lambda>i. \<bar>i\<bar> < 2 ^ 31) is \<Longrightarrow> yields (skip_se (length is)) (concat (map se_bits is)) ()"
proof (induction "is")
  case Nil
  then show ?case by (simp add: yields_return)
next
  case (Cons i "is")
  then show ?case by (auto intro!: yields_failed_bind yields_se_bind)
qed

section \<open>Parameter sets\<close>

datatype poc = Poc0 nat | Poc1 bool int int "int list" | Poc2

text \<open>The fields of the high profiles; a scaling matrix holds, for each of its lists, the deltas that are
  written, or None for a list that is not sent.\<close>

record chroma_fields =
  ch_idc :: nat
  ch_plane :: bool
  ch_luma :: nat
  ch_chroma :: nat
  ch_bypass :: bool
  ch_matrix :: "int list option list option"

record sps_fields =
  sf_id :: nat
  sf_chroma :: chroma_fields
  sf_frame_num :: nat
  sf_poc :: poc
  sf_refs :: nat
  sf_gaps :: bool
  sf_wmbs :: nat
  sf_hmbs :: nat
  sf_mbs_only :: bool
  sf_mbaff :: bool
  sf_direct :: bool
  sf_crop :: "(nat \<times> nat \<times> nat \<times> nat) option"

definition ue_ok :: "nat \<Rightarrow> bool" where
  "ue_ok k \<longleftrightarrow> k + 1 < 2 ^ 32"

definition list_bits :: "int list option \<Rightarrow> bool list" where
  "list_bits x = (case x of None \<Rightarrow> [False] | Some ds \<Rightarrow> True # concat (map se_bits ds))"

definition chroma_bits :: "chroma_fields \<Rightarrow> bool list" where
  "chroma_bits c =
     ue_bits (ch_idc c) @ (if ch_idc c = 3 then [ch_plane c] else []) @ ue_bits (ch_luma c) @ ue_bits (ch_chroma c)
     @ ch_bypass c # (case ch_matrix c of None \<Rightarrow> [False] | Some ls \<Rightarrow> True # concat (map list_bits ls))"

text \<open>The deltas that the standard has for a list of \<open>n\<close> more entries: one for each until a scale is 0, from
  where on the last scale holds.\<close>

fun deltas_ok :: "nat \<Rightarrow> int \<Rightarrow> int \<Rightarrow> int list \<Rightarrow> bool" where
  "deltas_ok 0 last_scale next_scale ds = (ds = [])"
| "deltas_ok (Suc n) last_scale next_scale ds =
     (if next_scale = 0 then deltas_ok n last_scale 0 ds
      else case ds of
             [] \<Rightarrow> False
           | d # ds1 \<Rightarrow> -128 \<le> d \<and> d \<le> 127
               \<and> (let nxt = (last_scale + d + 256) mod 256 in deltas_ok n (if nxt = 0 then last_scale else nxt) nxt ds1))"

fun lists_ok :: "nat \<Rightarrow> int list option list \<Rightarrow> bool" where
  "lists_ok i [] = True"
| "lists_ok i (x # xs) =
     ((case x of None \<Rightarrow> True | Some ds \<Rightarrow> deltas_ok (if i < 6 then 16 else 64) 8 8 ds) \<and> lists_ok (Suc i) xs)"

definition chroma_ok :: "chroma_fields \<Rightarrow> bool" where
  "chroma_ok c \<longleftrightarrow> list_all ue_ok [ch_idc c, ch_luma c, ch_chroma c]
     \<and> (case ch_matrix c of None \<Rightarrow> True | Some ls \<Rightarrow> length ls = (if ch_idc c = 3 then 12 else 8) \<and> lists_ok 0 ls)"

fun poc_bits :: "poc \<Rightarrow> bool list" where
  "poc_bits (Poc0 k) = ue_bits 0 @ ue_bits k"
| "poc_bits (Poc1 z a b cs) = ue_bits 1 @ z # se_bits a @ se_bits b @ ue_bits (length cs) @ concat (map se_bits cs)"
| "poc_bits Poc2 = ue_bits 2"

fun poc_ok :: "poc \<Rightarrow> bool" where
  "poc_ok (Poc0 k) \<longleftrightarrow> ue_ok k"
| "poc_ok (Poc1 z a b cs) \<longleftrightarrow> ue_ok (length cs) \<and> list_all (\<lambda>i. \<bar>i\<bar> < 2 ^ 31) (a # b # cs)"
| "poc_ok Poc2 \<longleftrightarrow> True"

definition crop_bits :: "(nat \<times> nat \<times> nat \<times> nat) option \<Rightarrow> bool list" where
  "crop_bits c = (case c of None \<Rightarrow> [] | Some (l, r, t, b) \<Rightarrow> ue_bits l @ ue_bits r @ ue_bits t @ ue_bits b)"

definition sps_bits :: "byte \<Rightarrow> sps_fields \<Rightarrow> bool list" where
  "sps_bits profile f =
     ue_bits (sf_id f) @ (if has_chroma_ext profile then chroma_bits (sf_chroma f) else [])
     @ ue_bits (sf_frame_num f) @ poc_bits (sf_poc f) @ ue_bits (sf_refs f) @ sf_gaps f
     # ue_bits (sf_wmbs f) @ ue_bits (sf_hmbs f) @ sf_mbs_only f
     # (if sf_mbs_only f then [] else [sf_mbaff f]) @ sf_direct f # (sf_crop f \<noteq> None)
     # crop_bits (sf_crop f)"

text \<open>All values within the range of their codes, and a picture within 32 bits whose cropping
  leaves something.\<close>

definition crop_of :: "sps_fields \<Rightarrow> nat \<times> nat \<times> nat \<times> nat" where
  "crop_of f = (case sf_crop f of None \<Rightarrow> (0, 0, 0, 0) | Some c \<Rightarrow> c)"

definition field_scale :: "sps_fields \<Rightarrow> nat" where
  "field_scale f = (if sf_mbs_only f then 1 else 2)"

text \<open>The units of the cropping (7.4.2.1.1 of the standard): with chroma they are the samples of a chroma
  sample, in frames of fields twice the rows.\<close>

definition chroma_array_type :: "byte \<Rightarrow> sps_fields \<Rightarrow> nat" where
  "chroma_array_type profile f =
     (if \<not> has_chroma_ext profile then 1
      else if ch_idc (sf_chroma f) = 3 \<and> ch_plane (sf_chroma f) then 0 else ch_idc (sf_chroma f))"

definition crop_unit_x :: "nat \<Rightarrow> nat" where
  "crop_unit_x kind = (if kind = 1 \<or> kind = 2 then 2 else 1)"

definition crop_unit_y :: "nat \<Rightarrow> nat" where
  "crop_unit_y kind = (if kind = 1 then 2 else 1)"

definition frame_width :: "byte \<Rightarrow> sps_fields \<Rightarrow> nat" where
  "frame_width profile f = (case crop_of f of (l, r, t, b) \<Rightarrow>
     (sf_wmbs f + 1) * 16 - crop_unit_x (chroma_array_type profile f) * (l + r))"

definition frame_height :: "byte \<Rightarrow> sps_fields \<Rightarrow> nat" where
  "frame_height profile f = (case crop_of f of (l, r, t, b) \<Rightarrow>
     (sf_hmbs f + 1) * 16 * field_scale f - crop_unit_y (chroma_array_type profile f) * field_scale f * (t + b))"

definition wf_sps :: "byte \<Rightarrow> sps_fields \<Rightarrow> bool" where
  "wf_sps profile f \<longleftrightarrow> list_all ue_ok [sf_id f, sf_frame_num f, sf_refs f, sf_wmbs f, sf_hmbs f]
     \<and> poc_ok (sf_poc f) \<and> (has_chroma_ext profile \<longrightarrow> chroma_ok (sf_chroma f))
     \<and> (case crop_of f of (l, r, t, b) \<Rightarrow>
          (sf_wmbs f + 1) * 16 < 2 ^ 32 \<and> (sf_hmbs f + 1) * 16 * field_scale f < 2 ^ 32
          \<and> crop_unit_x (chroma_array_type profile f) * (l + r) < (sf_wmbs f + 1) * 16
          \<and> crop_unit_y (chroma_array_type profile f) * field_scale f * (t + b) < (sf_hmbs f + 1) * 16 * field_scale f)"

lemma yields_scaling_list:
  "deltas_ok n l k ds \<Longrightarrow> 0 \<le> l \<Longrightarrow> l < 256 \<Longrightarrow> yields (scaling_list n l k) (concat (map se_bits ds)) ()"
proof (induction n arbitrary: l k ds)
  case 0
  then show ?case by (simp add: yields_return)
next
  case (Suc n)
  show ?case
  proof (cases "k = 0")
    case True
    then have "yields (scaling_list n l 0) (concat (map se_bits ds)) ()" using Suc by simp
    then show ?thesis unfolding scaling_list.simps using True
      by (intro yields_failed_bind) (simp add: yields_return_bind)
  next
    case False
    then obtain d ds1 where ds: "ds = d # ds1" "-128 \<le> d" "d \<le> 127" using Suc.prems(1) by (cases ds) auto
    define nxt where "nxt = (l + d + 256) mod 256"
    have pos: "0 < l + d + 256" using ds Suc.prems by simp
    have sm: "(l + d + 256) smod 256 = nxt" using pos by (simp add: nxt_def signed_modulo_int_def sgn_if)
    have nr: "0 \<le> nxt" "nxt < 256" by (simp_all add: nxt_def)
    have fine: "int_range (l + d)" "int_range (l + d + 256)" using ds Suc.prems by (simp_all add: int_range_def)
    have "yields (scaling_list n (if nxt \<noteq> 0 then nxt else l) nxt) (concat (map se_bits ds1)) ()"
      using Suc.prems False ds nr by (intro Suc.IH) (auto simp: Let_def nxt_def split: if_splits)
    then have "yields (scaling_list (Suc n) l k) (se_bits d @ concat (map se_bits ds1)) ()"
      unfolding scaling_list.simps using False fine ds sm
      by (intro yields_failed_bind) (auto simp: bind_assoc intro!: yields_se_bind yields_mark_bind yields_return_bind)
    then show ?thesis by (simp add: ds)
  qed
qed

lemma yields_scaling_lists:
  "lists_ok (count - length xs) xs \<Longrightarrow> length xs \<le> count \<Longrightarrow> yields (scaling_lists (length xs) count) (concat (map list_bits xs)) ()"
proof (induction xs)
  case Nil
  then show ?case by (simp add: yields_return)
next
  case (Cons x xs)
  let ?i = "count - Suc (length xs)"
  have "Suc ?i = count - length xs" using Cons.prems by simp
  then have IH: "yields (scaling_lists (length xs) count) (concat (map list_bits xs)) ()" using Cons by simp
  have x: "case x of None \<Rightarrow> True | Some ds \<Rightarrow> deltas_ok (if ?i < 6 then 16 else 64) 8 8 ds" using Cons.prems(1) by simp
  show ?case
  proof (cases x)
    case None
    then have "list_bits x = [False]" by (simp add: list_bits_def)
    then show ?thesis using IH by (auto intro!: yields_failed_bind yields_u1_bind yields_return_bind)
  next
    case (Some ds)
    then have "yields (scaling_list (if ?i < 6 then 16 else 64) 8 8) (concat (map se_bits ds)) ()"
      using x by (intro yields_scaling_list) simp_all
    from yields_bind [OF this, of "\<lambda>_. scaling_lists (length xs) count"] IH
    moreover have "list_bits x = True # concat (map se_bits ds)" by (simp add: Some list_bits_def)
    ultimately show ?thesis by (auto intro!: yields_failed_bind yields_u1_bind)
  qed
qed

lemma yields_chroma:
  assumes "chroma_ok c"
  shows "yields chroma_extension (chroma_bits c) ()"
proof -
  have ok: "ch_idc c + 1 < 2 ^ 32" "ch_luma c + 1 < 2 ^ 32" "ch_chroma c + 1 < 2 ^ 32"
    using assms by (simp_all add: chroma_ok_def ue_ok_def)
  have idc3: "(word_of_nat (ch_idc c) :: u32) = 3 \<longleftrightarrow> ch_idc c = 3"
    using word_of_nat_eq_iff32 [of "ch_idc c" 3] ok by simp
  define cnt where "cnt = (if ch_idc c \<noteq> 3 then 8 else 12 :: nat)"
  define lists where "lists = (\<lambda>matrix. if matrix then let count = cnt in scaling_lists count count
      else State_Monad.return ())"
  obtain m where m: "(case ch_matrix c of None \<Rightarrow> [False] | Some ls \<Rightarrow> True # concat (map list_bits ls))
      = (ch_matrix c \<noteq> None) # m" "yields (lists (ch_matrix c \<noteq> None)) m ()"
  proof (cases "ch_matrix c")
    case None
    then show thesis by (intro that [of "[]"]) (simp_all add: lists_def yields_return)
  next
    case (Some ls)
    then have "length ls = (if ch_idc c = 3 then 12 else 8)" "lists_ok 0 ls" using assms by (simp_all add: chroma_ok_def)
    then have "yields (scaling_lists (if ch_idc c \<noteq> 3 then 8 else 12) (if ch_idc c \<noteq> 3 then 8 else 12)) (concat (map list_bits ls)) ()"
      using yields_scaling_lists [of "length ls" ls] by (auto split: if_splits)
    then show thesis using Some by (intro that [of "concat (map list_bits ls)"]) (simp_all add: lists_def cnt_def Let_def)
  qed
  have "yields chroma_extension (ue_bits (ch_idc c) @ ((if ch_idc c = 3 then [ch_plane c] else []) @ ue_bits (ch_luma c)
      @ ue_bits (ch_chroma c) @ ch_bypass c # (ch_matrix c \<noteq> None) # m)) ()"
    unfolding chroma_extension_def
  proof (rule yields_ue_bind [OF _ ok(1)], unfold idc3, fold cnt_def)
    have tail: "yields (do { ue; ue; u1; matrix \<leftarrow> u1; lists matrix }) (ue_bits (ch_luma c) @ ue_bits (ch_chroma c)
        @ ch_bypass c # (ch_matrix c \<noteq> None) # m) ()"
      by (intro yields_ue_bind yields_u1_bind m(2) ok)
    then show "yields (do { (if ch_idc c = 3 then do { u1; State_Monad.return () } else State_Monad.return ());
          ue; ue; u1; matrix \<leftarrow> u1;
          (if matrix then let count = cnt in scaling_lists count count
           else State_Monad.return ()) })
        ((if ch_idc c = 3 then [ch_plane c] else []) @ ue_bits (ch_luma c) @ ue_bits (ch_chroma c)
          @ ch_bypass c # (ch_matrix c \<noteq> None) # m) ()"
      unfolding lists_def by (cases "ch_idc c = 3") (auto simp: bind_assoc simp del: not_None_eq intro!: yields_u1_bind yields_return_bind)
  qed
  then show ?thesis by (simp add: chroma_bits_def m(1) del: not_None_eq)
qed

lemma yields_poc: "poc_ok p \<Longrightarrow> yields pic_order_count (poc_bits p) ()"
proof (cases p)
  case (Poc0 k)
  assume "poc_ok p"
  then have k: "k + 1 < 2 ^ 32" by (simp add: Poc0 ue_ok_def)
  have "yields pic_order_count (ue_bits 0 @ ue_bits k @ []) ()"
    unfolding pic_order_count_def using k
    by (intro yields_ue_bind) (auto intro!: yields_ue_bind [where cs = "[]", simplified] yields_return)
  then show ?thesis by (simp add: Poc0)
next
  case (Poc1 z a b cs)
  assume "poc_ok p"
  then have ok: "length cs + 1 < 2 ^ 32" "\<bar>a\<bar> < 2 ^ 31" "\<bar>b\<bar> < 2 ^ 31" "list_all (\<lambda>i. \<bar>i\<bar> < 2 ^ 31) cs"
    by (simp_all add: Poc1 ue_ok_def)
  have n: "unat (word_of_nat (length cs) :: u32) = length cs" using ok(1) by (intro unat_of_nat32) simp
  have "yields (skip_se (unat (word_of_nat (length cs) :: u32))) (concat (map se_bits cs)) ()"
    unfolding n using ok(4) by (rule yields_skip_se)
  then have "yields pic_order_count (ue_bits 1 @ z # se_bits a @ se_bits b @ ue_bits (length cs)
      @ concat (map se_bits cs)) ()"
    unfolding pic_order_count_def using ok
    by (intro yields_ue_bind) (auto intro!: yields_ue_bind yields_u1_bind yields_se_bind)
  then show ?thesis by (simp add: Poc1)
next
  case Poc2
  have "yields pic_order_count (ue_bits 2 @ []) ()"
    unfolding pic_order_count_def by (intro yields_ue_bind) (auto intro!: yields_return)
  then show ?thesis by (simp add: Poc2)
qed

lemma yields_crop:
  assumes "list_all ue_ok [l, r, t, b]" and "c = Some (l, r, t, b) \<or> c = None \<and> (l, r, t, b) = (0, 0, 0, 0)"
  shows "yields (crop_fields (c \<noteq> None)) (crop_bits c) (word_of_nat l, word_of_nat r, word_of_nat t, word_of_nat b)"
proof (cases c)
  case None
  then show ?thesis using assms by (auto simp: crop_fields_def crop_bits_def intro!: yields_return)
next
  case (Some x)
  have "yields (crop_fields True) (ue_bits l @ ue_bits r @ ue_bits t @ ue_bits b @ [])
      (word_of_nat l, word_of_nat r, word_of_nat t, word_of_nat b)"
    unfolding crop_fields_def if_True using assms(1)
    by (intro yields_ue_bind yields_return) (simp_all add: ue_ok_def)
  then show ?thesis using assms(2) Some by (auto simp: crop_bits_def)
qed

lemma compute_frame_size_nat:
  fixes l r t b wm hm :: nat and only :: bool
  defines "k \<equiv> if only then 1 else 2"
  assumes "(wm + 1) * 16 < 2 ^ 32" and "(hm + 1) * 16 * k < 2 ^ 32"
    and "2 * (l + r) < (wm + 1) * 16" and "2 * (t + b) * k < (hm + 1) * 16 * k"
    and "crop \<or> (l, r, t, b) = (0, 0, 0, 0)"
  shows "compute_frame_size (word_of_nat wm) (word_of_nat hm) only crop (word_of_nat l) (word_of_nat r)
      (word_of_nat t) (word_of_nat b)
    = (word_of_nat ((wm + 1) * 16 - 2 * (l + r)), word_of_nat ((hm + 1) * 16 * k - 2 * (t + b) * k))"
proof -
  have sub: "(if (word_of_nat x :: u32) > word_of_nat y then word_of_nat x - word_of_nat y else word_of_nat x)
      = (word_of_nat (x - y) :: u32)" if "y < x" "x < 2 ^ 32" for x y
  proof -
    have "(word_of_nat y :: u32) < word_of_nat x"
      using that by (simp add: word_less_nat_alt unat_of_nat32)
    then show ?thesis using that by (simp add: of_nat_diff)
  qed
  have k: "(if only then 1 else 2 :: u32) = word_of_nat k" by (simp add: k_def)
  have x: "(if crop then 2 * (word_of_nat l + word_of_nat r) else 0 :: u32) = word_of_nat (2 * (l + r))"
    using assms(6) by auto
  have y: "(if crop then 2 * (word_of_nat t + word_of_nat b) * word_of_nat k else 0 :: u32)
      = word_of_nat (2 * (t + b) * k)"
    using assms(6) by auto
  have w: "((word_of_nat wm + 1) * 16 :: u32) = word_of_nat ((wm + 1) * 16)"
    "((word_of_nat hm + 1) * 16 * word_of_nat k :: u32) = word_of_nat ((hm + 1) * 16 * k)"
    by (simp_all add: algebra_simps)
  show ?thesis
    unfolding compute_frame_size_def Let_def k x y w
    using sub [OF assms(4,2)] sub [OF assms(5,3)] by simp
qed

lemma yields_body:
  assumes "wf_sps profile f" and "sf_crop f = None \<or> chroma_array_type profile f = 1"
  shows "yields (sps_body profile) (sps_bits profile f)
    (word_of_nat (frame_width profile f), word_of_nat (frame_height profile f), \<not> sf_mbs_only f)"
proof -
  obtain l r t b where c: "crop_of f = (l, r, t, b)" by (cases "crop_of f")
  have ok: "list_all ue_ok [sf_id f, sf_frame_num f, sf_refs f, sf_wmbs f, sf_hmbs f]" "poc_ok (sf_poc f)"
      "has_chroma_ext profile \<longrightarrow> chroma_ok (sf_chroma f)"
      "(sf_wmbs f + 1) * 16 < 2 ^ 32" "(sf_hmbs f + 1) * 16 * field_scale f < 2 ^ 32"
    using assms by (simp_all add: wf_sps_def c)
  have units: "(l, r, t, b) = (0, 0, 0, 0) \<or> crop_unit_x (chroma_array_type profile f) = 2 \<and> crop_unit_y (chroma_array_type profile f) = 2"
    using assms(2) c by (auto simp: crop_unit_x_def crop_unit_y_def crop_of_def)
  have wf_crop: "crop_unit_x (chroma_array_type profile f) * (l + r) < (sf_wmbs f + 1) * 16"
      "crop_unit_y (chroma_array_type profile f) * field_scale f * (t + b) < (sf_hmbs f + 1) * 16 * field_scale f"
    using assms(1) by (simp_all add: wf_sps_def c)
  have crop_ok: "2 * (l + r) < (sf_wmbs f + 1) * 16" "2 * (t + b) * field_scale f < (sf_hmbs f + 1) * 16 * field_scale f"
    using units wf_crop by (auto simp: field_scale_def)
  have fw: "frame_width profile f = (sf_wmbs f + 1) * 16 - 2 * (l + r)"
      "frame_height profile f = (sf_hmbs f + 1) * 16 * field_scale f - 2 * (t + b) * field_scale f"
    using units by (auto simp: frame_width_def frame_height_def c algebra_simps)
  have fs: "field_scale f = (if sf_mbs_only f then 1 else 2)" by (simp add: field_scale_def)
  have lrtb: "list_all ue_ok [l, r, t, b]" using ok(4,5) crop_ok by (auto simp: ue_ok_def fs split: if_splits)
  have crop: "sf_crop f = Some (l, r, t, b) \<or> sf_crop f = None \<and> (l, r, t, b) = (0, 0, 0, 0)"
    using c by (auto simp: crop_of_def split: option.splits)
  have size: "compute_frame_size (word_of_nat (sf_wmbs f)) (word_of_nat (sf_hmbs f)) (sf_mbs_only f)
      (sf_crop f \<noteq> None) (word_of_nat l) (word_of_nat r) (word_of_nat t) (word_of_nat b)
      = (word_of_nat (frame_width profile f), word_of_nat (frame_height profile f))"
    unfolding fw
    using compute_frame_size_nat [of "sf_wmbs f" "sf_hmbs f" "sf_mbs_only f" l r t b "sf_crop f \<noteq> None"]
      ok(4,5) crop_ok crop unfolding fs by blast
  have cf: "yields (crop_fields (sf_crop f \<noteq> None) \<bind> g) (crop_bits (sf_crop f) @ []) y"
    if "yields (g (word_of_nat l, word_of_nat r, word_of_nat t, word_of_nat b)) [] y" for g y
    using that by (rule yields_bind [OF yields_crop [OF lrtb crop]])
  have ch: "yields ((if has_chroma_ext profile then chroma_extension else State_Monad.return ()) \<bind> g)
      ((if has_chroma_ext profile then chroma_bits (sf_chroma f) else []) @ cs) y"
    if "yields (g ()) cs y" for g cs y
    using yields_bind [OF yields_chroma, of _ g cs y] ok(3) that by (cases "has_chroma_ext profile") auto
  have mb: "yields ((if \<not> sf_mbs_only f then do { u1; State_Monad.return () } else State_Monad.return ()) \<bind> g)
      ((if sf_mbs_only f then [] else [sf_mbaff f]) @ cs) y" if "yields (g ()) cs y" for g cs y
    using that by (auto intro: yields_u1_bind)
  have po: "yields (pic_order_count \<bind> g) (poc_bits (sf_poc f) @ cs) y" if "yields (g ()) cs y" for g cs y
    using that by (rule yields_bind [OF yields_poc [OF ok(2)]])
  have "yields (sps_body profile) (ue_bits (sf_id f)
      @ (if has_chroma_ext profile then chroma_bits (sf_chroma f) else [])
      @ ue_bits (sf_frame_num f) @ poc_bits (sf_poc f) @ ue_bits (sf_refs f) @ sf_gaps f
      # ue_bits (sf_wmbs f) @ ue_bits (sf_hmbs f) @ sf_mbs_only f
      # (if sf_mbs_only f then [] else [sf_mbaff f]) @ sf_direct f # (sf_crop f \<noteq> None)
      # crop_bits (sf_crop f) @ [])
      (word_of_nat (frame_width profile f), word_of_nat (frame_height profile f), \<not> sf_mbs_only f)"
    unfolding sps_body_def using ok(1)
    by (intro yields_ue_bind yields_u1_bind ch po mb cf)
      (simp_all add: ue_ok_def size yields_return del: not_None_eq)
  then show ?thesis by (simp add: sps_bits_def)
qed

section \<open>Properties\<close>

text \<open>The parser crops by two samples a unit whatever the chroma format is: a picture in 4:4:4 that is 15
  samples wide is reported with 14.\<close>

definition full_chroma_sps :: sps_fields where
  "full_chroma_sps = \<lparr>sf_id = 0, sf_chroma = \<lparr>ch_idc = 3, ch_plane = False, ch_luma = 0, ch_chroma = 0, ch_bypass = False, ch_matrix = None\<rparr>,
     sf_frame_num = 0, sf_poc = Poc2, sf_refs = 1, sf_gaps = False, sf_wmbs = 0, sf_hmbs = 0, sf_mbs_only = True,
     sf_mbaff = False, sf_direct = True, sf_crop = Some (0, 1, 0, 0)\<rparr>"

lemma crop_unit_always_two:
  "frame_width 244 full_chroma_sps = 15 \<and> fst (compute_frame_size 0 0 True True 0 1 0 0) = 14"
  by (simp add: frame_width_def crop_of_def full_chroma_sps_def crop_unit_x_def chroma_array_type_def has_chroma_ext_def
      compute_frame_size_def)

text \<open>C21: Whatever parameter set an encoder writes in the syntax of the standard (every profile, with or
  without the chroma fields and the scaling matrices, each kind of picture order count, interlaced or not),
  with the emulation prevention inserted and anything after the cropping fields, the parser succeeds without
  undefined behaviour, and reports the profile, the level and the size of the cropped picture as the
  standard computes it. A picture that is cropped is one with the chroma of 4:2:0: for the other formats the
  parser takes the wrong units.\<close>

theorem sps_roundtrip:
  assumes "wf_sps profile f" and "sf_crop f = None \<or> chroma_array_type profile f = 1" and "nh AND 0x1f = 7"
    and "bits_of body = sps_bits profile f @ tail"
  shows "parse_h264_sps (nh # add_emulation 0 (profile # flags # level # body))
    = (True, \<lparr>sps_profile = profile, sps_level = level, sps_width = word_of_nat (frame_width profile f),
         sps_height = word_of_nat (frame_height profile f), sps_interlaced = (\<not> sf_mbs_only f)\<rparr>, False)"
proof -
  let ?raw = "profile # flags # level # body"
  have len: "length xs \<le> length (add_emulation z xs)" for z xs
    by (induction z xs rule: add_emulation.induct) auto
  have e: "ebsp_to_rbsp (add_emulation 0 ?raw) = ?raw" using ebsp_add_emulation [of 0 ?raw] by simp
  have "\<exists>br'. run_state (sps_body profile) (open_reader body)
      = ((word_of_nat (frame_width profile f), word_of_nat (frame_height profile f), \<not> sf_mbs_only f), br') \<and> holds br' tail"
    using yields_body [OF assms(1,2)] holds_open [of body] assms(4) by (auto simp: yields_def)
  then obtain br' where br: "run_state (sps_body profile) (open_reader body)
      = ((word_of_nat (frame_width profile f), word_of_nat (frame_height profile f), \<not> sf_mbs_only f), br')" "holds br' tail"
    by blast
  show ?thesis
    using len [of ?raw 0] br assms(3)
    by (simp add: parse_h264_sps_def e holds_def empty_sps_def Let_def del: add_emulation.simps)
qed

text \<open>The parameter set of the witness: 1920x1080 in 120x68 macroblocks, 8 rows cropped, with a scaling matrix
  of which the first list is sent.\<close>

definition sample_sps :: sps_fields where
  "sample_sps = \<lparr>sf_id = 0, sf_chroma = \<lparr>ch_idc = 1, ch_plane = False, ch_luma = 0, ch_chroma = 0, ch_bypass = False,
       ch_matrix = Some (Some [8, -16] # replicate 7 None)\<rparr>, sf_frame_num = 0, sf_poc = Poc2,
     sf_refs = 4, sf_gaps = False, sf_wmbs = 119, sf_hmbs = 67, sf_mbs_only = True, sf_mbaff = False,
     sf_direct = True, sf_crop = Some (0, 0, 0, 4)\<rparr>"

theorem sps_roundtrip_witness:
  "parse_h264_sps (0x67 # add_emulation 0 (100 # 0 # 40 # [173, 132, 1, 8, 11, 40, 15, 0, 68, 252, 176]))
    = (True, \<lparr>sps_profile = 100, sps_level = 40, sps_width = 1920, sps_height = 1080,
         sps_interlaced = False\<rparr>, False)"
proof -
  have kind: "chroma_array_type 100 sample_sps = 1" by (simp add: chroma_array_type_def has_chroma_ext_def sample_sps_def)
  have "lists_ok 0 (Some [8, -16] # replicate 7 None)" by code_simp
  then have "chroma_ok (sf_chroma sample_sps)" by (simp add: chroma_ok_def sample_sps_def ue_ok_def)
  then have wf: "wf_sps 100 sample_sps"
    by (simp add: wf_sps_def kind) (simp add: sample_sps_def ue_ok_def crop_of_def field_scale_def crop_unit_x_def crop_unit_y_def)
  have b: "bits_of [173, 132, 1, 8, 11, 40, 15, 0, 68, 252, 176] = sps_bits 100 sample_sps @ [True, False, False, False, False]"
    by code_simp
  have "word_of_nat (frame_width 100 sample_sps) = (1920 :: u32)"
    "word_of_nat (frame_height 100 sample_sps) = (1080 :: u32)"
    by (simp_all add: frame_width_def frame_height_def kind) (simp_all add: sample_sps_def crop_of_def field_scale_def crop_unit_x_def crop_unit_y_def)
  moreover have "sf_mbs_only sample_sps" by (simp add: sample_sps_def)
  ultimately show ?thesis
    using sps_roundtrip [OF wf _ _ b, where nh = "0x67" and flags = 0 and level = 40] kind by simp
qed

text \<open>Once set, \<open>br_undef\<close> stays set.\<close>

definition keeps_undef :: "(bit_reader, 'a) state \<Rightarrow> bool" where
  "keeps_undef m \<longleftrightarrow> (\<forall>br. br_undef br \<longrightarrow> br_undef (snd (run_state m br)))"

lemma keeps_bind: "keeps_undef m \<Longrightarrow> (\<And>x. keeps_undef (f x)) \<Longrightarrow> keeps_undef (m \<bind> f)"
  by (auto simp: keeps_undef_def split: prod.split)

lemma keeps_basic: "keeps_undef (State_Monad.return x)" "keeps_undef u1" "keeps_undef failed"
  "keeps_undef (mark_undef p)"
  by (auto simp: keeps_undef_def u1_def step_bit_def failed_def mark_undef_def)

lemma keeps_u_loop: "keeps_undef (u_loop n v)"
  by (induction n arbitrary: v) (auto intro!: keeps_bind keeps_basic)

lemma keeps_zeros: "keeps_undef (zeros_loop n)"
  by (induction n) (auto intro!: keeps_bind keeps_basic)

lemma keeps_ue: "keeps_undef ue"
  unfolding ue_def u_def by (auto intro!: keeps_bind keeps_basic keeps_u_loop keeps_zeros)

lemma keeps_se: "keeps_undef se"
  unfolding se_def by (auto intro!: keeps_bind keeps_basic keeps_ue)

lemma keeps_scaling_list: "keeps_undef (scaling_list n l k)"
  by (induction n arbitrary: l k) (auto intro!: keeps_bind keeps_basic keeps_se)

lemma keeps_scaling_lists: "keeps_undef (scaling_lists n k)"
  by (induction n) (auto intro!: keeps_bind keeps_basic keeps_scaling_list)

lemma keeps_skip: "keeps_undef (skip_se n)"
  by (induction n) (auto intro!: keeps_bind keeps_basic keeps_se)

lemma keeps_tail:
  "keeps_undef chroma_extension" "keeps_undef pic_order_count" "keeps_undef (crop_fields c)"
  unfolding chroma_extension_def pic_order_count_def crop_fields_def Let_def
  by (auto intro!: keeps_bind keeps_basic keeps_ue keeps_se keeps_scaling_lists keeps_skip)

lemma yields_32_zeros: "yields (zeros_loop n) (replicate n False @ [b]) 32"
  by (induction n) (auto intro!: yields_u1_bind yields_failed_bind yields_return)

text \<open>A code word of 32 or more leading zeros reaches the shift \<open>1u << 32\<close>, which C++ leaves
  undefined: every parameter set that starts with 32 zero bits after the level, and has 33 more
  bits, executes it.\<close>

theorem sps_undefined_shift:
  assumes "nh AND 0x1f = 7" and "bits_of body = replicate 32 False @ bs" and "33 \<le> length bs"
  shows "snd (snd (parse_h264_sps (nh # add_emulation 0 (profile # flags # level # body))))"
proof -
  let ?raw = "profile # flags # level # body"
  have len: "length xs \<le> length (add_emulation z xs)" for z xs
    by (induction z xs rule: add_emulation.induct) auto
  have e: "ebsp_to_rbsp (add_emulation 0 ?raw) = ?raw" using ebsp_add_emulation [of 0 ?raw] by simp
  obtain b cs where bs: "bs = b # cs" using assms(3) by (cases bs) auto
  define ds where "ds = take 32 cs"
  have ds: "length ds = 32" "cs = ds @ drop 32 cs" using assms(3) bs by (simp_all add: ds_def)
  obtain br1 where z: "run_state (zeros_loop 32) (open_reader body) = (32, br1)" "holds br1 cs"
    using yields_32_zeros [of 32 b] holds_open [of body] assms(2) bs by (auto simp: yields_def)
  obtain v br2 where u: "run_state (u 32) br1 = (v, br2)" "holds br2 (drop 32 cs)"
    using yields_u [OF ds(1)] z(2) ds(2) by (metis yields_def)
  have "br_undef (snd (run_state ue (open_reader body)))"
    using z u by (simp add: ue_def failed_def holds_def mark_undef_def)
  moreover have "keeps_undef (if has_chroma_ext profile then chroma_extension else State_Monad.return ())"
    by (simp add: keeps_tail keeps_basic)
  ultimately have "br_undef (snd (run_state (sps_body profile) (open_reader body)))"
  proof -
    define rest where "rest = (do {
          (if has_chroma_ext profile then chroma_extension else State_Monad.return ());
          ue; pic_order_count; ue; u1; wmbs \<leftarrow> ue; hmbs \<leftarrow> ue; mbs_only \<leftarrow> u1;
          (if \<not> mbs_only then do { u1; State_Monad.return () } else State_Monad.return ());
          u1; cropping \<leftarrow> u1; (l, r, t, b) \<leftarrow> crop_fields cropping;
          (let (w, h) = compute_frame_size wmbs hmbs mbs_only cropping l r t b
           in State_Monad.return (w, h, \<not> mbs_only)) })"
    have "keeps_undef rest"
      unfolding rest_def Let_def
      by (auto intro!: keeps_bind keeps_basic keeps_ue keeps_tail split: prod.split)
    moreover have "sps_body profile = ue \<bind> (\<lambda>_. rest)" by (simp add: sps_body_def rest_def)
    ultimately show ?thesis
      using \<open>br_undef (snd (run_state ue (open_reader body)))\<close>
      by (auto simp: keeps_undef_def split: prod.split)
  qed
  then show ?thesis
    using len [of ?raw 0] assms(1)
    by (auto simp: parse_h264_sps_def e Let_def split: prod.split simp del: add_emulation.simps)
qed

theorem sps_undefined_shift_witness:
  "snd (snd (parse_h264_sps (0x67 # add_emulation 0 (66 # 0 # 30 # replicate 9 0))))"
  by (rule sps_undefined_shift [where bs = "replicate 40 False"]) (code_simp, code_simp, simp)

end
