(* ===== verification/Crypto.thy ===== *)
theory Crypto
  imports Prelude
begin

text \<open>
  The cryptographic operations the receiver calls in OpenSSL and playfair. They are not under
  src/, so they are the fields of a record that the definitions take as an argument; an empty
  string or \<open>None\<close> is the failure the source tests for. \<open>lawful_crypto\<close> is what their
  documentation promises. AES-CTR is the exclusive or with a key stream that starts where the
  previous call on the same context stopped.
\<close>

datatype ctr_init = NoContext | InitFailed | Keystream "nat \<Rightarrow> byte"

record 'k crypto =
  x25519_public :: "'k \<Rightarrow> bytes"
  x25519_derive :: "'k \<Rightarrow> bytes \<Rightarrow> bytes"
  sha512 :: "bytes \<Rightarrow> bytes option"
  aes_ctr_init :: "bytes \<Rightarrow> bytes \<Rightarrow> ctr_init"
  aes_ctr_update :: "(nat \<Rightarrow> byte) \<Rightarrow> nat \<Rightarrow> bytes \<Rightarrow> bytes option"
  ed25519_sign :: "bytes \<Rightarrow> bytes"
  ed25519_verify :: "bytes \<Rightarrow> bytes \<Rightarrow> bytes \<Rightarrow> bool"

definition ctr_xor :: "(nat \<Rightarrow> byte) \<Rightarrow> nat \<Rightarrow> bytes \<Rightarrow> bytes" where
  "ctr_xor ks off data = map2 (\<lambda>i b. b XOR ks i) [off..<off + length data] data"

lemma length_ctr_xor [simp]: "length (ctr_xor ks off data) = length data"
  by (simp add: ctr_xor_def)

lemma nth_ctr_xor [simp]: "i < length data \<Longrightarrow> ctr_xor ks off data ! i = data ! i XOR ks (off + i)"
  by (simp add: ctr_xor_def)

lemma ctr_xor_involutive [simp]: "ctr_xor ks off (ctr_xor ks off data) = data"
  by (rule nth_equalityI) (simp_all add: xor.assoc)

lemma ctr_xor_append: "ctr_xor ks off (a @ b) = ctr_xor ks off a @ ctr_xor ks (off + length a) b"
  by (rule nth_equalityI) (auto simp: nth_append add.assoc)

lemma ctr_xor_Nil [simp]: "ctr_xor ks off [] = []"
  by (simp add: ctr_xor_def)

text \<open>\<open>SHA-512(salt || secret)\<close>; the first 16 bytes are the derived value.\<close>

definition sha512_prefixed :: "'k crypto \<Rightarrow> bytes \<Rightarrow> bytes \<Rightarrow> bytes option" where
  "sha512_prefixed cy salt secret =
     (case sha512 cy (salt @ secret) of
        None \<Rightarrow> None | Some d \<Rightarrow> if length d = 64 then Some d else None)"

definition sha512_first_16 :: "'k crypto \<Rightarrow> bytes \<Rightarrow> bytes \<Rightarrow> bytes option" where
  "sha512_first_16 cy salt secret = map_option (take 16) (sha512_prefixed cy salt secret)"

text \<open>
  The documented behaviour: key agreement is symmetric and yields 32 bytes, digests have 64
  bytes, a context is created and encrypts by exclusive or, signatures have 64 bytes. \<open>valid\<close>
  says which private keys exist.
\<close>

definition lawful_crypto :: "'k crypto \<Rightarrow> ('k \<Rightarrow> bool) \<Rightarrow> bool" where
  "lawful_crypto cy valid \<longleftrightarrow>
     (\<forall>a. valid a \<longrightarrow> length (x25519_public cy a) = 32)
   \<and> (\<forall>a b. valid a \<and> valid b \<longrightarrow>
        x25519_derive cy a (x25519_public cy b) = x25519_derive cy b (x25519_public cy a)
        \<and> length (x25519_derive cy a (x25519_public cy b)) = 32)
   \<and> (\<forall>m. \<exists>d. sha512 cy m = Some d \<and> length d = 64)
   \<and> (\<forall>k iv. length k = 16 \<and> length iv = 16 \<longrightarrow> (\<exists>ks. aes_ctr_init cy k iv = Keystream ks))
   \<and> (\<forall>ks off d. aes_ctr_update cy ks off d = Some (ctr_xor ks off d))
   \<and> (\<forall>m. length (ed25519_sign cy m) = 64)"

lemma lawful_sha512_16:
  "lawful_crypto cy valid \<Longrightarrow> \<exists>d. sha512_first_16 cy salt secret = Some d \<and> length d = 16"
  unfolding sha512_first_16_def sha512_prefixed_def lawful_crypto_def
  by (elim conjE allE [of _ "salt @ secret"] exE) auto

lemma lawful_public: "lawful_crypto cy valid \<Longrightarrow> valid a \<Longrightarrow> length (x25519_public cy a) = 32"
  by (simp add: lawful_crypto_def)

lemma lawful_derive:
  "lawful_crypto cy valid \<Longrightarrow> valid a \<Longrightarrow> valid b \<Longrightarrow>
     x25519_derive cy a (x25519_public cy b) = x25519_derive cy b (x25519_public cy a)"
  "lawful_crypto cy valid \<Longrightarrow> valid a \<Longrightarrow> valid b \<Longrightarrow> length (x25519_derive cy a (x25519_public cy b)) = 32"
  by (simp_all add: lawful_crypto_def)

lemma lawful_init:
  "lawful_crypto cy valid \<Longrightarrow> length k = 16 \<Longrightarrow> length iv = 16 \<Longrightarrow> \<exists>ks. aes_ctr_init cy k iv = Keystream ks"
  by (simp add: lawful_crypto_def)

lemma lawful_update: "lawful_crypto cy valid \<Longrightarrow> aes_ctr_update cy ks off d = Some (ctr_xor ks off d)"
  by (simp add: lawful_crypto_def)

lemma lawful_sign: "lawful_crypto cy valid \<Longrightarrow> length (ed25519_sign cy m) = 64"
  by (simp add: lawful_crypto_def)

text \<open>A concrete instance, for witnesses: numbers as keys, and an addition as key agreement.\<close>

definition plain_crypto :: "nat crypto" where
  "plain_crypto =
     \<lparr>x25519_public = (\<lambda>k. replicate 32 (word_of_nat k)),
      x25519_derive = (\<lambda>k p. replicate 32 (word_of_nat k + hd p)),
      sha512 = (\<lambda>m. Some (replicate 64 (sum_list m))),
      aes_ctr_init = (\<lambda>k iv. Keystream (\<lambda>i. hd k + hd iv + word_of_nat i)),
      aes_ctr_update = (\<lambda>ks off d. Some (ctr_xor ks off d)),
      ed25519_sign = (\<lambda>m. replicate 64 (sum_list m)),
      ed25519_verify = (\<lambda>pk m s. s = replicate 64 (hd pk + sum_list m))\<rparr>"

lemma plain_crypto_lawful: "lawful_crypto plain_crypto (\<lambda>k. True)"
  by (simp add: lawful_crypto_def plain_crypto_def add.commute)

end
