(* ===== verification/PairVerify.thy ===== *)
theory PairVerify
  imports Crypto
begin

text \<open>
  src/crypto/pair_verify.cpp: the two-round pair-verify of one connection. The session is a
  record; of the pointer \<open>aes_ctx_\<close>, \<open>pv_held\<close> says whether it is set, and \<open>pv_ctx\<close> is what it points to once it is
  initialised; \<open>pv_live\<close> counts the cipher contexts that were allocated and not freed. The ephemeral key of a round is an argument,
  \<open>None\<close> when its generation fails.
\<close>

section \<open>The session\<close>

datatype pv_state = Fresh | Round1Done | Verified | Failed

record pv_session =
  pv_state :: pv_state
  pv_server_x :: bytes
  pv_client_x :: bytes
  pv_client_ed :: bytes
  pv_ecdh :: bytes
  pv_ctx :: "((nat \<Rightarrow> byte) \<times> nat) option"
  pv_held :: bool
  pv_live :: nat

definition new_session :: pv_session where
  "new_session = \<lparr>pv_state = Fresh, pv_server_x = [], pv_client_x = [], pv_client_ed = [],
     pv_ecdh = [], pv_ctx = None, pv_held = False, pv_live = 0\<rparr>"

definition aes_key_salt :: bytes where
  "aes_key_salt = to_bytes ''Pair-Verify-AES-Key''"

definition aes_iv_salt :: bytes where
  "aes_iv_salt = to_bytes ''Pair-Verify-AES-IV''"

definition derive_aes_key_iv :: "'k crypto \<Rightarrow> bytes \<Rightarrow> (bytes \<times> bytes) option" where
  "derive_aes_key_iv cy secret =
     (case sha512_first_16 cy aes_key_salt secret of
        None \<Rightarrow> None
      | Some k \<Rightarrow> (case sha512_first_16 cy aes_iv_salt secret of
                     None \<Rightarrow> None | Some iv \<Rightarrow> Some (k, iv)))"

definition fail :: "pv_session \<Rightarrow> pv_session" where
  "fail s = s\<lparr>pv_state := Failed\<rparr>"

text \<open>Steps 3 to 6: from the shared secret on.\<close>

definition answer_message1 :: "'k crypto \<Rightarrow> pv_session \<Rightarrow> bytes option \<times> pv_session" where
  "answer_message1 cy s =
     (case derive_aes_key_iv cy (pv_ecdh s) of
        None \<Rightarrow> (None, fail s)
      | Some (aes_key, aes_iv) \<Rightarrow>
          (let sig = ed25519_sign cy (pv_server_x s @ pv_client_x s)
           in if length sig \<noteq> 64 then (None, fail s)
              else case aes_ctr_init cy aes_key aes_iv of
                NoContext \<Rightarrow> (None, fail (s\<lparr>pv_ctx := None, pv_held := False\<rparr>))
              | InitFailed \<Rightarrow> (None, fail (s\<lparr>pv_ctx := None, pv_held := True, pv_live := pv_live s + 1\<rparr>))
              | Keystream ks \<Rightarrow>
                  (let s2 = s\<lparr>pv_ctx := Some (ks, 64), pv_held := True, pv_live := pv_live s + 1\<rparr>
                   in case aes_ctr_update cy ks 0 sig of
                        None \<Rightarrow> (None, fail s2)
                      | Some enc_sig \<Rightarrow>
                          if length enc_sig \<noteq> 64 then (None, fail s2)
                          else (Some (pv_server_x s @ enc_sig), s2\<lparr>pv_state := Round1Done\<rparr>))))"

definition handle_message1 ::
  "'k crypto \<Rightarrow> 'k option \<Rightarrow> bytes \<Rightarrow> pv_session \<Rightarrow> bytes option \<times> pv_session" where
  "handle_message1 cy ephemeral inp s =
     (if length inp < 4 + 32 + 32 then (None, fail s)
      else let s1 = s\<lparr>pv_client_x := substr inp 4 32, pv_client_ed := substr inp 36 32\<rparr>
           in case ephemeral of
                None \<Rightarrow> (None, fail s1)
              | Some k \<Rightarrow>
                  (let s2 = s1\<lparr>pv_server_x := x25519_public cy k\<rparr>
                   in if x25519_public cy k = [] then (None, fail s2)
                      else let shared = x25519_derive cy k (pv_client_x s2)
                           in if length shared \<noteq> 32 then (None, fail s2)
                              else answer_message1 cy (s2\<lparr>pv_ecdh := shared\<rparr>)))"

definition handle_message2 :: "'k crypto \<Rightarrow> bytes \<Rightarrow> pv_session \<Rightarrow> bool \<times> pv_session" where
  "handle_message2 cy inp s =
     (if pv_state s \<noteq> Round1Done then (False, fail s)
      else if length inp < 4 + 64 then (False, fail s)
      else case pv_ctx s of
             None \<Rightarrow> (False, fail s)
           | Some (ks, off) \<Rightarrow>
               (let s1 = s\<lparr>pv_ctx := Some (ks, off + 64)\<rparr>
                in case aes_ctr_update cy ks off (substr inp 4 64) of
                     None \<Rightarrow> (False, fail s1)
                   | Some client_sig \<Rightarrow>
                       if length client_sig \<noteq> 64 then (False, fail s1)
                       else if \<not> ed25519_verify cy (pv_client_ed s) (pv_client_x s @ pv_server_x s) client_sig
                       then (False, fail s1)
                       else (True, s1\<lparr>pv_state := Verified\<rparr>)))"

text \<open>The destructor frees the one context it has a pointer to.\<close>

definition destroy :: "pv_session \<Rightarrow> pv_session" where
  "destroy s = s\<lparr>pv_ctx := None, pv_held := False, pv_live := (if pv_held s then pv_live s - 1 else pv_live s)\<rparr>"

section \<open>Runs\<close>

text \<open>A connection may send the two messages in any order and number.\<close>

inductive pv_step :: "'k crypto \<Rightarrow> pv_session \<Rightarrow> pv_session \<Rightarrow> bool" for cy where
  message1: "snd (handle_message1 cy ephemeral inp s) = t \<Longrightarrow> pv_step cy s t"
| message2: "snd (handle_message2 cy inp s) = t \<Longrightarrow> pv_step cy s t"

definition pv_reachable :: "'k crypto \<Rightarrow> pv_session \<Rightarrow> bool" where
  "pv_reachable cy = reach ((=) new_session) (pv_step cy)"

inductive_cases pv_stepE: "pv_step cy s t"

text \<open>What the state says about the keys: the secret comes from the keys of the round in
  progress, and a verified session has a signature of the client over both of its keys.\<close>

definition keys_agree :: "'k crypto \<Rightarrow> pv_session \<Rightarrow> bool" where
  "keys_agree cy s \<longleftrightarrow> length (pv_client_x s) = 32 \<and> length (pv_client_ed s) = 32
     \<and> length (pv_ecdh s) = 32
     \<and> (\<exists>k. pv_server_x s = x25519_public cy k \<and> pv_ecdh s = x25519_derive cy k (pv_client_x s))"

definition peer_signed :: "'k crypto \<Rightarrow> pv_session \<Rightarrow> bool" where
  "peer_signed cy s \<longleftrightarrow> (\<exists>sig. length sig = 64
     \<and> ed25519_verify cy (pv_client_ed s) (pv_client_x s @ pv_server_x s) sig)"

definition pv_inv :: "'k crypto \<Rightarrow> pv_session \<Rightarrow> bool" where
  "pv_inv cy s \<longleftrightarrow> (pv_state s = Round1Done \<longrightarrow> keys_agree cy s \<and> pv_ctx s \<noteq> None)
     \<and> (pv_state s = Verified \<longrightarrow> keys_agree cy s \<and> peer_signed cy s)"

lemma pv_inv_fail: "pv_inv cy (fail s)"
  by (simp add: pv_inv_def fail_def)

lemma answer_message1_inv:
  assumes "keys_agree cy s"
  shows "pv_inv cy (snd (answer_message1 cy s))"
proof -
  have "pv_inv cy (s\<lparr>pv_ctx := Some c, pv_held := True, pv_live := n, pv_state := Round1Done\<rparr>)" for c n
    using assms by (simp add: keys_agree_def pv_inv_def)
  then show ?thesis
    by (simp add: answer_message1_def Let_def pv_inv_fail split: option.split ctr_init.split)
qed

lemma handle_message1_inv: "pv_inv cy (snd (handle_message1 cy e inp s))"
proof (cases "length inp < 4 + 32 + 32")
  case True
  then show ?thesis by (simp add: handle_message1_def pv_inv_fail)
next
  case False
  then have len: "length (substr inp 4 32) = 32" "length (substr inp 36 32) = 32"
    by (simp_all add: substr_def)
  show ?thesis
    using False len
    by (auto simp: handle_message1_def Let_def pv_inv_fail keys_agree_def intro!: answer_message1_inv
        split: option.split)
qed

lemma handle_message2_inv: "pv_inv cy s \<Longrightarrow> pv_inv cy (snd (handle_message2 cy inp s))"
  by (auto simp: handle_message2_def Let_def pv_inv_fail pv_inv_def keys_agree_def peer_signed_def fail_def
      split: option.split)

interpretation pv: invariant_of "(=) new_session" "pv_step cy" "pv_inv cy" for cy
proof
  fix s t
  show "(=) new_session s \<Longrightarrow> pv_inv cy s" by (auto simp: pv_inv_def new_session_def)
  show "pv_inv cy s \<Longrightarrow> pv_step cy s t \<Longrightarrow> pv_inv cy t"
    by (auto elim!: pv_stepE simp: handle_message1_inv handle_message2_inv)
qed

section \<open>The client\<close>

text \<open>The second message of a client with private key \<open>c\<close> that signs with \<open>sign\<close>: it derives
  the same key stream, skips the 64 bytes of the answer, and encrypts its signature.\<close>

definition client_message1 :: "'k crypto \<Rightarrow> 'k \<Rightarrow> bytes \<Rightarrow> bytes" where
  "client_message1 cy c ed_pub = [1, 0, 0, 0] @ x25519_public cy c @ ed_pub"

definition client_message2 :: "'k crypto \<Rightarrow> 'k \<Rightarrow> (bytes \<Rightarrow> bytes) \<Rightarrow> bytes \<Rightarrow> bytes option" where
  "client_message2 cy c sign answer =
     (let server_x = take 32 answer
      in case derive_aes_key_iv cy (x25519_derive cy c server_x) of
           None \<Rightarrow> None
         | Some (k, iv) \<Rightarrow>
             (case aes_ctr_init cy k iv of
                Keystream ks \<Rightarrow> Some ([0, 0, 0, 0] @ ctr_xor ks 64 (sign (x25519_public cy c @ server_x)))
              | NoContext \<Rightarrow> None
              | InitFailed \<Rightarrow> None))"

definition round1_answer :: "'k crypto \<Rightarrow> 'k \<Rightarrow> 'k \<Rightarrow> (nat \<Rightarrow> byte) \<Rightarrow> bytes" where
  "round1_answer cy c e ks =
     x25519_public cy e @ ctr_xor ks 0 (ed25519_sign cy (x25519_public cy e @ x25519_public cy c))"

definition round1_state ::
  "'k crypto \<Rightarrow> 'k \<Rightarrow> 'k \<Rightarrow> bytes \<Rightarrow> (nat \<Rightarrow> byte) \<Rightarrow> pv_session \<Rightarrow> pv_session" where
  "round1_state cy c e ed_pub ks s = s\<lparr>pv_client_x := x25519_public cy c, pv_client_ed := ed_pub,
     pv_server_x := x25519_public cy e, pv_ecdh := x25519_derive cy c (x25519_public cy e),
     pv_ctx := Some (ks, 64), pv_held := True, pv_live := pv_live s + 1, pv_state := Round1Done\<rparr>"

lemma honest_round1:
  assumes "lawful_crypto cy valid" and "valid c" and "valid e" and "length ed_pub = 32"
  shows "\<exists>k iv ks. derive_aes_key_iv cy (x25519_derive cy c (x25519_public cy e)) = Some (k, iv)
    \<and> aes_ctr_init cy k iv = Keystream ks
    \<and> (\<forall>s. handle_message1 cy (Some e) (client_message1 cy c ed_pub) s
         = (Some (round1_answer cy c e ks), round1_state cy c e ed_pub ks s))"
proof -
  let ?in = "client_message1 cy c ed_pub"
  define sec where "sec = x25519_derive cy c (x25519_public cy e)"
  have pub: "length (x25519_public cy c) = 32" "length (x25519_public cy e) = 32"
    using assms by (auto intro: lawful_public)
  then have ne: "x25519_public cy e \<noteq> []" by auto
  have sec: "x25519_derive cy e (x25519_public cy c) = sec" "length sec = 32"
    using lawful_derive [OF assms(1,3,2)] lawful_derive [OF assms(1,2,3)] by (simp_all add: sec_def)
  obtain k iv where kiv: "derive_aes_key_iv cy sec = Some (k, iv)" "length k = 16" "length iv = 16"
    using lawful_sha512_16 [OF assms(1), of aes_key_salt sec] lawful_sha512_16 [OF assms(1), of aes_iv_salt sec]
    by (auto simp: derive_aes_key_iv_def)
  obtain ks where ks: "aes_ctr_init cy k iv = Keystream ks"
    using lawful_init [OF assms(1) kiv(2,3)] by blast
  have inp: "\<not> length ?in < 4 + 32 + 32" "substr ?in 4 32 = x25519_public cy c" "substr ?in 36 32 = ed_pub"
    using pub assms(4) by (simp_all add: client_message1_def substr_def)
  have "handle_message1 cy (Some e) ?in s = (Some (round1_answer cy c e ks), round1_state cy c e ed_pub ks s)" for s
    using inp ne sec kiv(1) ks lawful_update [OF assms(1)] lawful_sign [OF assms(1)]
    by (simp add: handle_message1_def answer_message1_def Let_def round1_answer_def round1_state_def
        flip: sec_def)
  then show ?thesis using kiv(1) ks by (auto simp: sec_def)
qed

lemma honest_exchange:
  assumes "lawful_crypto cy valid" and "valid c" and "valid e" and "length ed_pub = 32"
    and "\<And>m. length (sign m) = 64 \<and> ed25519_verify cy ed_pub m (sign m)"
  shows "\<exists>answer s1 msg2 s2. handle_message1 cy (Some e) (client_message1 cy c ed_pub) s = (Some answer, s1)
    \<and> length answer = 96 \<and> client_message2 cy c sign answer = Some msg2
    \<and> handle_message2 cy msg2 s1 = (True, s2) \<and> pv_state s2 = Verified
    \<and> pv_ecdh s2 = x25519_derive cy c (x25519_public cy e)"
proof -
  obtain k iv ks where one: "derive_aes_key_iv cy (x25519_derive cy c (x25519_public cy e)) = Some (k, iv)"
      "aes_ctr_init cy k iv = Keystream ks"
      "handle_message1 cy (Some e) (client_message1 cy c ed_pub) s
        = (Some (round1_answer cy c e ks), round1_state cy c e ed_pub ks s)"
    using honest_round1 [OF assms(1-4)] by blast
  have pub: "length (x25519_public cy c) = 32" "length (x25519_public cy e) = 32"
    using assms by (auto intro: lawful_public)
  define csig where "csig = sign (x25519_public cy c @ x25519_public cy e)"
  have two: "client_message2 cy c sign (round1_answer cy c e ks) = Some ([0, 0, 0, 0] @ ctr_xor ks 64 csig)"
    using pub one(1,2) by (simp add: client_message2_def csig_def round1_answer_def)
  have cs: "length csig = 64" "ed25519_verify cy ed_pub (x25519_public cy c @ x25519_public cy e) csig"
    using assms(5) by (simp_all add: csig_def)
  have sub: "substr ([0, 0, 0, 0] @ ctr_xor ks 64 csig) 4 64 = ctr_xor ks 64 csig"
    using cs(1) by (simp add: substr_def)
  let ?s1 = "round1_state cy c e ed_pub ks s"
  have three: "handle_message2 cy ([0, 0, 0, 0] @ ctr_xor ks 64 csig) ?s1
      = (True, ?s1\<lparr>pv_ctx := Some (ks, 128), pv_state := Verified\<rparr>)"
    using cs lawful_update [OF assms(1)] unfolding handle_message2_def sub by (simp add: round1_state_def)
  have len: "length (round1_answer cy c e ks) = 96"
    using pub lawful_sign [OF assms(1)] by (simp add: round1_answer_def)
  show ?thesis
    using one(3) len two three
    by (intro exI [of _ "round1_answer cy c e ks"] exI [of _ ?s1] exI [of _ "[0, 0, 0, 0] @ ctr_xor ks 64 csig"]
        exI [of _ "?s1\<lparr>pv_ctx := Some (ks, 128), pv_state := Verified\<rparr>"]) (simp add: round1_state_def)
qed

section \<open>Properties\<close>

text \<open>C20: Whatever messages a connection sends, in whatever order and however often, its session
  is verified only after a signature of 64 bytes that verifies, under the key the client presented,
  over exactly the two key-agreement keys of the current round; and the shared secret it hands to
  the stream set-up is the one of those keys.\<close>

theorem pair_verify_sound:
  assumes "pv_reachable cy s" and "pv_state s = Verified"
  shows "(\<exists>sig. length sig = 64 \<and> ed25519_verify cy (pv_client_ed s) (pv_client_x s @ pv_server_x s) sig)
    \<and> (\<exists>k. pv_server_x s = x25519_public cy k \<and> pv_ecdh s = x25519_derive cy k (pv_client_x s))
    \<and> length (pv_ecdh s) = 32"
  using pv.holds [OF assms(1) [unfolded pv_reachable_def]] assms(2) by (simp add: pv_inv_def peer_signed_def keys_agree_def)

text \<open>The client that follows the protocol is verified: from any state of the session, with any
  cipher, hash and signature scheme that behave as documented, its two messages are accepted, and
  both sides end with the same secret.\<close>

theorem pair_verify_honest:
  assumes "lawful_crypto cy valid" and "valid c" and "valid e" and "length ed_pub = 32"
    and "\<And>m. length (sign m) = 64 \<and> ed25519_verify cy ed_pub m (sign m)"
  shows "\<exists>answer s1 msg2 s2. handle_message1 cy (Some e) (client_message1 cy c ed_pub) s = (Some answer, s1)
    \<and> length answer = 96 \<and> client_message2 cy c sign answer = Some msg2
    \<and> handle_message2 cy msg2 s1 = (True, s2) \<and> pv_state s2 = Verified
    \<and> pv_ecdh s2 = x25519_derive cy c (x25519_public cy e)"
  by (rule honest_exchange [OF assms])

text \<open>Round one can be repeated, and each repetition abandons the cipher context of the round
  before it: after \<open>n\<close> accepted first messages \<open>n\<close> contexts are allocated, of which the
  destructor frees one.\<close>

theorem pair_verify_context_leak:
  assumes "lawful_crypto cy valid" and "valid c" and "valid e" and "length ed_pub = 32" and "0 < n"
  shows "pv_live (destroy (((\<lambda>s. snd (handle_message1 cy (Some e) (client_message1 cy c ed_pub) s)) ^^ n)
    new_session)) = n - 1"
proof -
  let ?f = "\<lambda>s. snd (handle_message1 cy (Some e) (client_message1 cy c ed_pub) s)"
  have step: "pv_live (?f s) = pv_live s + 1 \<and> pv_held (?f s)" for s
    using honest_round1 [OF assms(1-4)] by (auto simp: round1_state_def)
  have "pv_live ((?f ^^ n) new_session) = n" for n
    by (induction n) (simp_all add: step, simp add: new_session_def)
  moreover have "pv_held ((?f ^^ n) new_session)"
    using assms(5) step by (cases n) simp_all
  ultimately show ?thesis by (auto simp: destroy_def)
qed

text \<open>The witnesses run the protocol with the concrete instance of the operations.\<close>

definition plain_sign :: "bytes \<Rightarrow> bytes" where
  "plain_sign m = replicate 64 (9 + sum_list m)"

theorem pair_verify_honest_witness:
  "\<exists>answer s1 msg2 s2. handle_message1 plain_crypto (Some 5) (client_message1 plain_crypto 7 (replicate 32 9))
      new_session = (Some answer, s1)
    \<and> length answer = 96 \<and> client_message2 plain_crypto 7 plain_sign answer = Some msg2
    \<and> handle_message2 plain_crypto msg2 s1 = (True, s2) \<and> pv_state s2 = Verified
    \<and> pv_ecdh s2 = x25519_derive plain_crypto 7 (x25519_public plain_crypto 5)"
  by (rule pair_verify_honest [OF plain_crypto_lawful]) (simp_all add: plain_crypto_def plain_sign_def)

theorem pair_verify_context_leak_witness:
  "pv_live (destroy (((\<lambda>s. snd (handle_message1 plain_crypto (Some 5)
     (client_message1 plain_crypto 7 (replicate 32 9)) s)) ^^ 3) new_session)) = 3 - 1"
  by (rule pair_verify_context_leak [OF plain_crypto_lawful]) simp_all

definition verified_session :: pv_session where
  "verified_session = (let s1 = snd (handle_message1 plain_crypto (Some 5)
       (client_message1 plain_crypto 7 (replicate 32 9)) new_session)
     in snd (handle_message2 plain_crypto (the (client_message2 plain_crypto 7 plain_sign
          (the (fst (handle_message1 plain_crypto (Some 5)
            (client_message1 plain_crypto 7 (replicate 32 9)) new_session))))) s1))"

lemma verified_session_facts:
  "pv_reachable plain_crypto verified_session" "pv_state verified_session = Verified"
proof -
  obtain answer s1 msg2 s2 where r: "handle_message1 plain_crypto (Some 5)
      (client_message1 plain_crypto 7 (replicate 32 9)) new_session = (Some answer, s1)"
      "client_message2 plain_crypto 7 plain_sign answer = Some msg2"
      "handle_message2 plain_crypto msg2 s1 = (True, s2)" "pv_state s2 = Verified"
    using honest_exchange [OF plain_crypto_lawful, where c = 7 and e = 5 and ed_pub = "replicate 32 9" and sign = plain_sign and s = new_session]
    by (auto simp: plain_crypto_def plain_sign_def)
  then have v: "verified_session = s2" by (simp add: verified_session_def)
  have "pv_step plain_crypto new_session s1" using r(1) by (metis message1 snd_conv)
  then have "pv_reachable plain_crypto s1"
    unfolding pv_reachable_def by (intro reach.advance [OF reach.initial]) simp_all
  moreover have "pv_step plain_crypto s1 s2" using r(3) by (metis message2 snd_conv)
  ultimately show "pv_reachable plain_crypto verified_session" unfolding v pv_reachable_def by (rule reach.advance)
  show "pv_state verified_session = Verified" using r(4) v by simp
qed

theorem pair_verify_sound_witness:
  "\<exists>sig. length sig = 64 \<and> ed25519_verify plain_crypto (pv_client_ed verified_session)
     (pv_client_x verified_session @ pv_server_x verified_session) sig"
  using pair_verify_sound [OF verified_session_facts] by blast

end
