(* ===== verification/StreamKeys.thy ===== *)
theory StreamKeys
  imports Crypto
begin

text \<open>
  src/crypto/fairplay.cpp, src/crypto/mirror_decrypt.cpp and src/crypto/identity.cpp: the
  FairPlay handshake that yields the stream key, the AES-CTR context of a mirror stream, and
  the long-term identity of the receiver. The reply tables of fairplay_blobs and playfair are
  provisioned at build time and are arguments.
\<close>

section \<open>FairPlay\<close>

datatype fp_state = FpFresh | ExpectMsg3 | Done | FpFailed

record fp_session =
  fp_state :: fp_state
  fp_mode :: nat
  fp_keymsg :: bytes

record fp_blobs =
  fp_reply :: "nat \<Rightarrow> bytes"
  fp_header :: bytes

definition blobs_ok :: "fp_blobs \<Rightarrow> bool" where
  "blobs_ok b \<longleftrightarrow> (\<forall>m. length (fp_reply b m) = 142) \<and> length (fp_header b) = 12"

definition new_fairplay :: fp_session where
  "new_fairplay = \<lparr>fp_state = FpFresh, fp_mode = 0, fp_keymsg = []\<rparr>"

definition fply_magic :: bytes where
  "fply_magic = to_bytes ''FPLY''"

definition has_fply_magic :: "bytes \<Rightarrow> bool" where
  "has_fply_magic inp \<longleftrightarrow> length inp \<ge> 4 \<and> take 4 inp = fply_magic"

definition fp_fail :: "fp_session \<Rightarrow> fp_session" where
  "fp_fail s = s\<lparr>fp_state := FpFailed\<rparr>"

definition handle_msg1 :: "fp_blobs \<Rightarrow> bytes \<Rightarrow> fp_session \<Rightarrow> bytes option \<times> fp_session" where
  "handle_msg1 b inp s =
     (let s1 = s\<lparr>fp_mode := unat (inp ! 14)\<rparr>
      in if fp_mode s1 \<ge> 4 then (None, fp_fail s1)
         else (Some (take 142 (fp_reply b (fp_mode s1))), s1\<lparr>fp_state := ExpectMsg3\<rparr>))"

definition handle_msg3 :: "fp_blobs \<Rightarrow> bytes \<Rightarrow> fp_session \<Rightarrow> bytes option \<times> fp_session" where
  "handle_msg3 b inp s =
     (if fp_state s \<noteq> ExpectMsg3 then (None, fp_fail s)
      else (Some (take 12 (fp_header b) @ substr inp 144 20),
            s\<lparr>fp_keymsg := take 164 inp, fp_state := Done\<rparr>))"

definition fp_process :: "fp_blobs \<Rightarrow> bytes \<Rightarrow> fp_session \<Rightarrow> bytes option \<times> fp_session" where
  "fp_process b inp s =
     (if inp = [] then (None, fp_fail s)
      else if \<not> has_fply_magic inp then (None, fp_fail s)
      else if length inp \<ge> 5 \<and> inp ! 4 \<noteq> 3 then (None, fp_fail s)
      else if length inp = 16 then handle_msg1 b inp s
      else if length inp = 164 then handle_msg3 b inp s
      else (None, fp_fail s))"

text \<open>\<open>playfair\<close> is \<open>None\<close> in a build without the playfair library.\<close>

definition decrypt_stream_key :: "(bytes \<Rightarrow> bytes \<Rightarrow> bytes) option \<Rightarrow> bytes \<Rightarrow> fp_session \<Rightarrow> bytes" where
  "decrypt_stream_key playfair ekey s =
     (case playfair of
        None \<Rightarrow> []
      | Some dec \<Rightarrow>
          (if fp_state s \<noteq> Done then []
           else if length (fp_keymsg s) \<noteq> 164 then []
           else if length ekey \<noteq> 72 then []
           else take 16 (dec (fp_keymsg s) ekey)))"

text \<open>The requests of a connection, in order.\<close>

definition fp_run :: "fp_blobs \<Rightarrow> bytes list \<Rightarrow> fp_session \<Rightarrow> fp_session" where
  "fp_run b msgs s = fold (\<lambda>m t. snd (fp_process b m t)) msgs s"

definition wf_msg :: "nat \<Rightarrow> bytes \<Rightarrow> bool" where
  "wf_msg n m \<longleftrightarrow> length m = n \<and> take 4 m = fply_magic \<and> m ! 4 = 3"

lemma wf_msg_guards:
  assumes "wf_msg n m" and "5 \<le> n"
  shows "m \<noteq> []" and "has_fply_magic m" and "\<not> (length m \<ge> 5 \<and> m ! 4 \<noteq> 3)" and "length m = n"
  using assms by (auto simp: wf_msg_def has_fply_magic_def)

lemma fp_process_msg1:
  assumes "wf_msg 16 m" and "unat (m ! 14) < 4"
  shows "fp_process b m s = (Some (take 142 (fp_reply b (unat (m ! 14)))),
    s\<lparr>fp_mode := unat (m ! 14), fp_state := ExpectMsg3\<rparr>)"
  using wf_msg_guards [OF assms(1)] assms(2) by (simp add: fp_process_def handle_msg1_def Let_def)

lemma fp_process_msg3:
  assumes "wf_msg 164 m" and "fp_state s = ExpectMsg3"
  shows "fp_process b m s = (Some (take 12 (fp_header b) @ drop 144 m), s\<lparr>fp_keymsg := m, fp_state := Done\<rparr>)"
  using wf_msg_guards [OF assms(1)] assms(2) by (simp add: fp_process_def handle_msg3_def substr_def)

text \<open>A session that is done has just completed a handshake, and kept its third message.\<close>

definition fp_done_ok :: "bytes list \<Rightarrow> fp_session \<Rightarrow> bool" where
  "fp_done_ok msgs s \<longleftrightarrow>
     (fp_state s = ExpectMsg3 \<longrightarrow> (\<exists>pre m1. msgs = pre @ [m1] \<and> length m1 = 16 \<and> has_fply_magic m1))
   \<and> (fp_state s = Done \<longrightarrow> (\<exists>pre m1 m3. msgs = pre @ [m1, m3] \<and> length m1 = 16 \<and> has_fply_magic m1
        \<and> length m3 = 164 \<and> has_fply_magic m3 \<and> fp_keymsg s = m3))"

lemma fp_process_ok: "fp_done_ok msgs s \<Longrightarrow> fp_done_ok (msgs @ [m]) (snd (fp_process b m s))"
  by (auto simp: fp_done_ok_def fp_process_def handle_msg1_def handle_msg3_def fp_fail_def Let_def)

lemma fp_run_ok: "fp_done_ok msgs (fp_run b msgs new_fairplay)"
proof (induction msgs rule: rev_induct)
  case Nil
  then show ?case by (simp add: fp_run_def fp_done_ok_def new_fairplay_def)
next
  case (snoc m msgs)
  then show ?case by (simp add: fp_run_def fp_process_ok)
qed

section \<open>The mirror stream cipher\<close>

record mirror_cipher =
  mc_ctx :: "((nat \<Rightarrow> byte) \<times> nat) option"

definition mirror_salt :: "string \<Rightarrow> u64 \<Rightarrow> bytes" where
  "mirror_salt label sid = to_bytes (label @ show_nat (unat sid))"

definition mirror_init :: "'k crypto \<Rightarrow> bytes \<Rightarrow> u64 \<Rightarrow> mirror_cipher \<Rightarrow> bool \<times> mirror_cipher" where
  "mirror_init cy aes_key_audio sid mc =
     (if length aes_key_audio \<noteq> 16 then (False, mc)
      else let mc1 = mc\<lparr>mc_ctx := None\<rparr>
           in case sha512_first_16 cy (mirror_salt ''AirPlayStreamKey'' sid) aes_key_audio of
                None \<Rightarrow> (False, mc1)
              | Some video_key \<Rightarrow>
                  (case sha512_first_16 cy (mirror_salt ''AirPlayStreamIV'' sid) aes_key_audio of
                     None \<Rightarrow> (False, mc1)
                   | Some video_iv \<Rightarrow>
                       (case aes_ctr_init cy video_key video_iv of
                          Keystream ks \<Rightarrow> (True, mc1\<lparr>mc_ctx := Some (ks, 0)\<rparr>)
                        | NoContext \<Rightarrow> (False, mc1)
                        | InitFailed \<Rightarrow> (False, mc1))))"

definition mirror_decrypt :: "'k crypto \<Rightarrow> bytes \<Rightarrow> mirror_cipher \<Rightarrow> (bytes option) \<times> mirror_cipher" where
  "mirror_decrypt cy data mc =
     (case mc_ctx mc of
        None \<Rightarrow> (None, mc)
      | Some (ks, off) \<Rightarrow>
          (if data = [] then (None, mc)
           else let mc1 = mc\<lparr>mc_ctx := Some (ks, off + length data)\<rparr>
                in case aes_ctr_update cy ks off data of
                     None \<Rightarrow> (None, mc1)
                   | Some out \<Rightarrow> (if length out = length data then (Some out, mc1) else (None, mc1))))"

text \<open>The frames of a session, one call each.\<close>

fun decrypt_frames :: "'k crypto \<Rightarrow> bytes list \<Rightarrow> mirror_cipher \<Rightarrow> bytes option list" where
  "decrypt_frames cy [] mc = []"
| "decrypt_frames cy (f # fs) mc =
     (let (r, mc1) = mirror_decrypt cy f mc in r # decrypt_frames cy fs mc1)"

text \<open>What the sender does: encrypt the concatenation of the frames with the derived stream.\<close>

fun cut_like :: "bytes list \<Rightarrow> bytes \<Rightarrow> bytes list" where
  "cut_like [] s = []"
| "cut_like (f # fs) s = take (length f) s # cut_like fs (drop (length f) s)"

lemma decrypt_frames_stream:
  assumes "lawful_crypto cy valid" and "mc_ctx mc = Some (ks, off)" and "list_all (\<lambda>f. f \<noteq> []) fs"
  shows "decrypt_frames cy (cut_like fs (ctr_xor ks off (concat fs))) mc = map Some fs"
  using assms(2,3)
proof (induction fs arbitrary: mc off)
  case (Cons f fs)
  let ?mc1 = "mc\<lparr>mc_ctx := Some (ks, off + length f)\<rparr>"
  have "mirror_decrypt cy (ctr_xor ks off f) mc = (Some f, ?mc1)"
    using Cons.prems lawful_update [OF assms(1)] length_ctr_xor [of ks off f]
    by (auto simp: mirror_decrypt_def simp del: length_ctr_xor)
  moreover have "decrypt_frames cy (cut_like fs (ctr_xor ks (off + length f) (concat fs))) ?mc1 = map Some fs"
    using Cons.prems by (intro Cons.IH) simp_all
  ultimately show ?case by (simp add: ctr_xor_append)
qed simp

lemma mirror_init_lawful:
  assumes "lawful_crypto cy valid" and "length key = 16"
  shows "\<exists>k iv ks. sha512_first_16 cy (mirror_salt ''AirPlayStreamKey'' sid) key = Some k
    \<and> sha512_first_16 cy (mirror_salt ''AirPlayStreamIV'' sid) key = Some iv
    \<and> aes_ctr_init cy k iv = Keystream ks
    \<and> mirror_init cy key sid mc = (True, mc\<lparr>mc_ctx := Some (ks, 0)\<rparr>)"
proof -
  obtain k iv where d: "sha512_first_16 cy (mirror_salt ''AirPlayStreamKey'' sid) key = Some k" "length k = 16"
      "sha512_first_16 cy (mirror_salt ''AirPlayStreamIV'' sid) key = Some iv" "length iv = 16"
    using lawful_sha512_16 [OF assms(1)] by blast
  obtain ks where "aes_ctr_init cy k iv = Keystream ks"
    using lawful_init [OF assms(1) d(2,4)] by blast
  then show ?thesis using d assms(2) by (simp add: mirror_init_def Let_def)
qed

section \<open>The identity\<close>

text \<open>\<open>file\<close> is the content of the seed file, \<open>None\<close> when it cannot be opened; \<open>random\<close>
  the result of RAND_bytes; \<open>public\<close> the Ed25519 public key of a seed, empty on failure. The result
  is the seed and public key, and the content of the file afterwards.\<close>

definition read_seed :: "bytes option \<Rightarrow> bytes" where
  "read_seed file = (case file of None \<Rightarrow> [] | Some buf \<Rightarrow> (if length buf \<noteq> 32 then [] else buf))"

definition load_or_create ::
  "(bytes \<Rightarrow> bytes) \<Rightarrow> bytes option \<Rightarrow> bool \<Rightarrow> bytes option \<Rightarrow> (bytes \<times> bytes) option \<times> bytes option" where
  "load_or_create public random writable file =
     (let finish = (\<lambda>seed f. if public seed = [] then (None, f) else (Some (seed, public seed), f))
      in if read_seed file = []
         then case random of
                None \<Rightarrow> (None, file)
              | Some seed \<Rightarrow> finish seed (if writable then Some seed else file)
         else finish (read_seed file) file)"

section \<open>Properties\<close>

text \<open>The FairPlay handshake, from whatever state a connection is in: a first message with mode
  0 to 3 is answered with the recorded reply of its mode, the third message with the header and its
  own last 20 bytes; then the stream key is the one playfair computes from that third message.\<close>

theorem fairplay_handshake:
  assumes "blobs_ok b" and "wf_msg 16 m1" and "unat (m1 ! 14) < 4" and "wf_msg 164 m3" and "length ekey = 72"
  shows "\<exists>s1 s2. fp_process b m1 s = (Some (fp_reply b (unat (m1 ! 14))), s1)
    \<and> fp_process b m3 s1 = (Some (fp_header b @ drop 144 m3), s2)
    \<and> length (fp_header b @ drop 144 m3) = 32
    \<and> decrypt_stream_key (Some dec) ekey s2 = take 16 (dec m3 ekey)"
proof -
  let ?s1 = "s\<lparr>fp_mode := unat (m1 ! 14), fp_state := ExpectMsg3\<rparr>"
  have l: "length m3 = 164" using assms(4) by (simp add: wf_msg_def)
  have one: "fp_process b m1 s = (Some (fp_reply b (unat (m1 ! 14))), ?s1)"
    using fp_process_msg1 [OF assms(2,3), of b s] assms(1) by (simp add: blobs_ok_def)
  have three: "fp_process b m3 ?s1 = (Some (fp_header b @ drop 144 m3), ?s1\<lparr>fp_keymsg := m3, fp_state := Done\<rparr>)"
    using fp_process_msg3 [OF assms(4), of ?s1 b] assms(1) by (simp add: blobs_ok_def)
  show ?thesis
    using one three l assms(1,5) by (auto simp: decrypt_stream_key_def blobs_ok_def)
qed

text \<open>Over any requests on a connection, a stream key is produced only when the last two were a
  first and a third message in that order, both with the magic; the key then comes from that third
  message. Every other sequence, and every key blob that is not 72 bytes, gives no key.\<close>

theorem fairplay_key_needs_handshake:
  assumes "decrypt_stream_key playfair ekey (fp_run b msgs new_fairplay) \<noteq> []"
  shows "\<exists>pre m1 m3 dec. msgs = pre @ [m1, m3] \<and> length m1 = 16 \<and> has_fply_magic m1 \<and> length m3 = 164
    \<and> has_fply_magic m3 \<and> length ekey = 72 \<and> playfair = Some dec
    \<and> decrypt_stream_key playfair ekey (fp_run b msgs new_fairplay) = take 16 (dec m3 ekey)"
proof -
  let ?s = "fp_run b msgs new_fairplay"
  obtain dec where d: "playfair = Some dec" "fp_state ?s = Done" "length ekey = 72"
      "decrypt_stream_key playfair ekey ?s = take 16 (dec (fp_keymsg ?s) ekey)"
    using assms by (auto simp: decrypt_stream_key_def split: option.splits if_splits)
  then show ?thesis using fp_run_ok [of msgs b] by (auto simp: fp_done_ok_def)
qed

text \<open>The third message stays in the session after a new handshake has begun, so keymsg() is
  not empty outside the state Done.\<close>

theorem fairplay_keymsg_kept:
  assumes "wf_msg 16 m1" and "unat (m1 ! 14) < 4" and "wf_msg 164 m3"
  shows "fp_state (fp_run b [m1, m3, m1] new_fairplay) = ExpectMsg3
    \<and> fp_keymsg (fp_run b [m1, m3, m1] new_fairplay) = m3"
  using assms by (simp add: fp_run_def fp_process_msg1 fp_process_msg3)

text \<open>A mirror stream is one continuous cipher stream: if the sender encrypts the frames of a
  session as a single stream under the key and IV derived from the stream connection id, then
  decrypting frame by frame gives back every frame, whatever the context held before.\<close>

theorem mirror_stream_roundtrip:
  assumes "lawful_crypto cy valid" and "length key = 16" and "list_all (\<lambda>f. f \<noteq> []) frames"
  shows "\<exists>k iv ks mc1. sha512_first_16 cy (mirror_salt ''AirPlayStreamKey'' sid) key = Some k
    \<and> sha512_first_16 cy (mirror_salt ''AirPlayStreamIV'' sid) key = Some iv
    \<and> aes_ctr_init cy k iv = Keystream ks \<and> mirror_init cy key sid mc = (True, mc1)
    \<and> decrypt_frames cy (cut_like frames (ctr_xor ks 0 (concat frames))) mc1 = map Some frames"
proof -
  obtain k iv ks where i: "sha512_first_16 cy (mirror_salt ''AirPlayStreamKey'' sid) key = Some k"
      "sha512_first_16 cy (mirror_salt ''AirPlayStreamIV'' sid) key = Some iv"
      "aes_ctr_init cy k iv = Keystream ks" "mirror_init cy key sid mc = (True, mc\<lparr>mc_ctx := Some (ks, 0)\<rparr>)"
    using mirror_init_lawful [OF assms(1,2)] by blast
  have "decrypt_frames cy (cut_like frames (ctr_xor ks 0 (concat frames))) (mc\<lparr>mc_ctx := Some (ks, 0)\<rparr>)
      = map Some frames"
    using assms(3) by (intro decrypt_frames_stream [OF assms(1)]) simp_all
  with i show ?thesis by blast
qed

text \<open>The identity is stable: once a launch could write its seed file, every later launch has
  the same seed and public key, whatever its random numbers and file permissions.\<close>

theorem identity_stable:
  assumes "load_or_create public random True file = (Some (seed, pub), file1)"
    and "\<And>r. random = Some r \<Longrightarrow> length r = 32"
  shows "load_or_create public random2 writable2 file1 = (Some (seed, pub), file1)"
proof -
  have "length (read_seed file) = 32 \<or> read_seed file = []"
    by (auto simp: read_seed_def split: option.split)
  then show ?thesis using assms
    by (auto simp: load_or_create_def read_seed_def Let_def split: option.splits if_splits)
qed

section \<open>Witnesses\<close>

definition sample_blobs :: fp_blobs where
  "sample_blobs = \<lparr>fp_reply = (\<lambda>m. replicate 142 (word_of_nat m)), fp_header = replicate 12 0x46\<rparr>"

definition sample_msg1 :: bytes where
  "sample_msg1 = fply_magic @ [3, 1, 1, 0, 0, 0, 0, 4, 2, 0, 1, 0xbb]"

definition sample_msg3 :: bytes where
  "sample_msg3 = fply_magic @ [3] @ replicate 139 0 @ replicate 20 7"

lemma sample_msgs: "blobs_ok sample_blobs" "wf_msg 16 sample_msg1" "unat (sample_msg1 ! 14) < 4"
  "wf_msg 164 sample_msg3"
  by (simp_all add: blobs_ok_def sample_blobs_def wf_msg_def sample_msg1_def sample_msg3_def fply_magic_def
      to_bytes_def)

theorem fairplay_handshake_witness:
  "\<exists>s1 s2. fp_process sample_blobs sample_msg1 new_fairplay = (Some (fp_reply sample_blobs (unat (sample_msg1 ! 14))), s1)
    \<and> fp_process sample_blobs sample_msg3 s1 = (Some (fp_header sample_blobs @ drop 144 sample_msg3), s2)
    \<and> length (fp_header sample_blobs @ drop 144 sample_msg3) = 32
    \<and> decrypt_stream_key (Some (\<lambda>m k. m)) (replicate 72 1) s2 = take 16 sample_msg3"
  by (rule fairplay_handshake [OF sample_msgs, where dec = "\<lambda>m k. m"]) simp

theorem fairplay_key_needs_handshake_witness:
  "\<exists>pre m1 m3. [sample_msg1, sample_msg3] = pre @ [m1, m3] \<and> length m3 = 164"
proof -
  have "decrypt_stream_key (Some (\<lambda>m k. m)) (replicate 72 1)
      (fp_run sample_blobs [sample_msg1, sample_msg3] new_fairplay) \<noteq> []"
    using sample_msgs by (simp add: fp_run_def fp_process_msg1 fp_process_msg3 decrypt_stream_key_def wf_msg_def)
      auto
  from fairplay_key_needs_handshake [OF this] show ?thesis by blast
qed

theorem fairplay_keymsg_kept_witness:
  "fp_keymsg (fp_run sample_blobs [sample_msg1, sample_msg3, sample_msg1] new_fairplay) = sample_msg3"
  using fairplay_keymsg_kept [OF sample_msgs(2-4)] by blast

theorem mirror_stream_roundtrip_witness:
  "\<exists>k iv ks mc1. sha512_first_16 plain_crypto (mirror_salt ''AirPlayStreamKey'' 77) (replicate 16 3) = Some k
    \<and> sha512_first_16 plain_crypto (mirror_salt ''AirPlayStreamIV'' 77) (replicate 16 3) = Some iv
    \<and> aes_ctr_init plain_crypto k iv = Keystream ks
    \<and> mirror_init plain_crypto (replicate 16 3) 77 \<lparr>mc_ctx = None\<rparr> = (True, mc1)
    \<and> decrypt_frames plain_crypto (cut_like [[1, 2, 3], [4, 5]] (ctr_xor ks 0 (concat [[1, 2, 3], [4, 5]]))) mc1
        = map Some [[1, 2, 3], [4, 5]]"
  by (rule mirror_stream_roundtrip [OF plain_crypto_lawful]) simp_all

theorem identity_stable_witness:
  "load_or_create (\<lambda>s. s) (Some (replicate 32 8)) False (Some (replicate 32 5))
    = (Some (replicate 32 5, replicate 32 5), Some (replicate 32 5))"
  by (rule identity_stable [of _ "Some (replicate 32 5)" None])
    (simp_all add: load_or_create_def read_seed_def Let_def)

end
