(* ===== verification/Audio.thy ===== *)
theory Audio
  imports RtpFlush "HOL-Library.Signed_Division"
begin

text \<open>
  src/audio/audio_receiver.cpp: decoded audio between the network thread, the RTSP thread that
  flushes, pauses and resumes, and the playout thread. Each operation of the source holds the
  PCM mutex, so each is one step here and the threads are an interleaving of steps. The clocks,
  the decoder, the cipher and the sink are arguments; one reading of the steady clock serves a
  whole step. \<open>queued_samples_\<close> is a natural number: \<open>audio_accounting\<close> shows that no
  subtraction from it goes below zero.
\<close>

section \<open>State\<close>

record pcm_frame =
  pf_rtp :: u32
  pf_samples :: "i16 list"
  pf_target :: int

record audio_config =
  ac_data_sock :: bool
  ac_control_sock :: bool
  ac_ntp :: bool
  ac_synchronize :: bool
  ac_preserve :: bool
  ac_aes_key :: bytes
  ac_aes_iv :: bytes
  ac_rate :: int
  ac_renderer :: bool

record pause_state =
  ps_pcm :: "pcm_frame list"
  ps_output :: bool
  ps_rate :: int
  ps_paused_at :: int
  ps_lead :: u32

definition no_pause :: pause_state where
  "no_pause = \<lparr>ps_pcm = [], ps_output = False, ps_rate = 0, ps_paused_at = 0, ps_lead = 0\<rparr>"

record audio =
  au_cfg :: audio_config
  au_running :: bool
  au_queue :: "pcm_frame list"
  au_queued :: nat
  au_sync_rtp :: u32
  au_sync_ntp :: u64
  au_anchor :: bool
  au_clear :: bool
  au_boundary :: "u32 option"
  au_paused :: "pcm_frame list"
  au_paused_at :: int
  au_imported :: bool
  au_lead :: u32
  au_first :: bool
  au_first_rtp :: u32
  au_first_ns :: int
  au_synchronize :: bool
  au_decoder :: bool
  au_output :: bool

definition frame_end :: "pcm_frame \<Rightarrow> u32" where
  "frame_end f = pf_rtp f + word_of_nat (length (pf_samples f) div 2)"

definition frame_ns :: "audio_config \<Rightarrow> nat \<Rightarrow> int" where
  "frame_ns cfg samples = (int (samples div 2) * 1000000000) sdiv ac_rate cfg"

definition five_seconds :: "audio_config \<Rightarrow> u32" where
  "five_seconds cfg = word_of_int (ac_rate cfg * 5)"

section \<open>Starting, stopping and pausing\<close>

text \<open>\<open>aes_ok\<close>, \<open>decoder_ok\<close>, \<open>sink_ok\<close>: whether the cipher context, the decoder and the
  sink could be initialised.\<close>

definition start_audio ::
  "bool \<Rightarrow> bool \<Rightarrow> bool \<Rightarrow> audio_config \<Rightarrow> pause_state \<Rightarrow> audio \<Rightarrow> bool \<times> audio" where
  "start_audio aes_ok decoder_ok sink_ok cfg pause st =
     (if \<not> ac_data_sock cfg \<or> ac_rate cfg \<le> 0 then (False, st)
      else if length (ac_aes_key cfg) \<noteq> 16 \<or> length (ac_aes_iv cfg) \<noteq> 16 then (False, st)
      else let st1 = st\<lparr>au_cfg := cfg\<rparr>;
               st2 = (if ac_preserve cfg \<and> ac_synchronize cfg \<and> ps_rate pause = ac_rate cfg
                      then st1\<lparr>au_paused := ps_pcm pause, au_paused_at := ps_paused_at pause,
                               au_imported := (ps_pcm pause \<noteq> []), au_output := ps_output pause,
                               au_lead := ps_lead pause\<rparr>
                      else st1)
           in if \<not> aes_ok then (False, st2)
              else let st3 = st2\<lparr>au_decoder := decoder_ok\<rparr>;
                       st4 = (if decoder_ok \<and> \<not> au_output st3 then st3\<lparr>au_output := sink_ok\<rparr> else st3)
                   in (True, st4\<lparr>au_running := True, au_synchronize := (ac_synchronize cfg \<and> ac_ntp cfg)\<rparr>))"

definition trim_frame :: "u32 \<Rightarrow> pcm_frame \<Rightarrow> pcm_frame \<times> nat" where
  "trim_frame b f = (let (rtp, samples, n) = trim_before (pf_rtp f) (pf_samples f) b
                     in (f\<lparr>pf_rtp := rtp, pf_samples := samples\<rparr>, n))"

text \<open>The loop over the queue that trims every block and erases the empty ones; the second result
  is the number of samples removed.\<close>

fun trim_queue :: "u32 \<Rightarrow> pcm_frame list \<Rightarrow> pcm_frame list \<times> nat" where
  "trim_queue b [] = ([], 0)"
| "trim_queue b (f # fs) =
     (let (g, n) = trim_frame b f; (gs, m) = trim_queue b fs
      in (if pf_samples g = [] then gs else g # gs, n + m))"

text \<open>What FLUSH does to the saved tail, then to the queue.\<close>

definition flush_saved :: "int \<Rightarrow> u32 option \<Rightarrow> audio \<Rightarrow> audio" where
  "flush_saved now boundary st =
     (let st1 = (if boundary = None then st\<lparr>au_imported := False\<rparr> else st);
          st2 = (if \<not> au_imported st1 then st1\<lparr>au_paused := [], au_paused_at := 0\<rparr> else st1)
      in if \<not> au_imported st2 \<and> ac_preserve (au_cfg st2) \<and> au_synchronize st2
            \<and> boundary \<noteq> None \<and> au_queue st2 \<noteq> []
         then st2\<lparr>au_paused := au_queue st2, au_paused_at := now\<rparr> else st2)"

definition flush_queue :: "u32 option \<Rightarrow> audio \<Rightarrow> audio" where
  "flush_queue boundary st =
     (let st4 = st\<lparr>au_boundary := boundary\<rparr>
      in case boundary of
           None \<Rightarrow> st4\<lparr>au_queue := [], au_queued := 0\<rparr>
         | Some b \<Rightarrow> (let (q, n) = trim_queue b (au_queue st4)
                      in st4\<lparr>au_queue := q, au_queued := au_queued st4 - n\<rparr>))"

definition flush :: "int \<Rightarrow> u32 option \<Rightarrow> audio \<Rightarrow> audio" where
  "flush now boundary st = (flush_queue boundary (flush_saved now boundary st))\<lparr>au_clear := True\<rparr>"

definition queue_samples :: "pcm_frame list \<Rightarrow> nat" where
  "queue_samples q = sum_list (map (\<lambda>f. length (pf_samples f)) q)"

definition resume :: "int \<Rightarrow> audio \<Rightarrow> audio" where
  "resume now st =
     (if au_imported st then st
      else if au_paused st = [] then st
      else let elapsed = now - au_paused_at st
           in if elapsed < 200000000 \<or> elapsed > 120000000000 \<or> \<not> au_synchronize st
              then st\<lparr>au_paused := []\<rparr>
              else let shift = word_of_int ((elapsed * ac_rate (au_cfg st)) sdiv 1000000000) :: u32;
                       saved = map (\<lambda>f. f\<lparr>pf_rtp := pf_rtp f + shift, pf_target := 0\<rparr>) (au_paused st);
                       fin = frame_end (last saved);
                       q = saved @ fst (trim_queue fin (au_queue st))
                   in st\<lparr>au_queue := q, au_paused := [], au_queued := queue_samples q,
                         au_boundary := Some fin\<rparr>)"

definition discard_pause :: "audio \<Rightarrow> audio" where
  "discard_pause st = st\<lparr>au_paused := [], au_imported := False\<rparr>"

definition release_resources :: "audio \<Rightarrow> audio" where
  "release_resources st = st\<lparr>au_cfg := (au_cfg st)\<lparr>ac_data_sock := False\<rparr>, au_output := False, au_decoder := False\<rparr>"

text \<open>The playout thread empties the queue when it leaves its loop; both threads are joined.\<close>

definition join_workers :: "audio \<Rightarrow> audio" where
  "join_workers st = (if au_running st then st\<lparr>au_running := False, au_queue := [], au_queued := 0\<rparr> else st)"

definition suspend :: "audio \<Rightarrow> pause_state \<times> audio" where
  "suspend st =
     (let st1 = join_workers st
      in if ac_preserve (au_cfg st1) \<and> au_synchronize st1 \<and> au_paused st1 \<noteq> []
         then (\<lparr>ps_pcm = au_paused st1, ps_output = au_output st1, ps_rate = ac_rate (au_cfg st1),
                ps_paused_at = au_paused_at st1, ps_lead = au_lead st1\<rparr>,
               release_resources (st1\<lparr>au_paused := []\<rparr>))
         else (no_pause, release_resources st1))"

definition stop_audio :: "audio \<Rightarrow> audio" where
  "stop_audio st = (if au_running st then release_resources (join_workers st) else st)"

definition set_synchronized :: "int \<Rightarrow> bool \<Rightarrow> audio \<Rightarrow> audio" where
  "set_synchronized now enabled st =
     (let new = (enabled \<and> ac_ntp (au_cfg st)); st1 = st\<lparr>au_synchronize := new\<rparr>
      in if au_synchronize st \<noteq> new then flush now None st1 else st1)"

section \<open>Packets\<close>

definition u32_at :: "bytes \<Rightarrow> nat \<Rightarrow> u32" where
  "u32_at p i = be32 (p ! i) (p ! (i + 1)) (p ! (i + 2)) (p ! (i + 3))"

text \<open>A timing packet on the control socket.\<close>

definition control_packet :: "bytes \<Rightarrow> audio \<Rightarrow> audio" where
  "control_packet control st =
     (if length control \<ge> 20 \<and> control ! 1 AND 0x7f = 0x54
      then let ntp = (push_bit 32 (ucast (u32_at control 8)) OR ucast (u32_at control 12) :: u64);
               lead = u32_at control 16 - u32_at control 4;
               st1 = st\<lparr>au_sync_rtp := u32_at control 4, au_sync_ntp := ntp, au_anchor := (ntp \<noteq> 0)\<rparr>
           in if lead \<le> five_seconds (au_cfg st) then st1\<lparr>au_lead := lead\<rparr> else st1
      else st)"

text \<open>Room for \<open>have\<close> more samples: the oldest blocks go.\<close>

fun drop_oldest :: "nat \<Rightarrow> nat \<Rightarrow> pcm_frame list \<Rightarrow> nat \<Rightarrow> pcm_frame list \<times> nat" where
  "drop_oldest limit have [] queued = ([], queued)"
| "drop_oldest limit have (f # fs) queued =
     (if queued + have > limit then drop_oldest limit have fs (queued - length (pf_samples f))
      else (f # fs, queued))"

definition pcm_limit :: "audio_config \<Rightarrow> nat" where
  "pcm_limit cfg = nat (ac_rate cfg) * 2 * 5"

text \<open>Packets sent before the flush boundary still extend the saved tail.\<close>

definition drain_tail :: "pcm_frame \<Rightarrow> audio \<Rightarrow> audio" where
  "drain_tail frame st =
     (case au_boundary st of
        Some b \<Rightarrow>
          (if \<not> au_imported st \<and> au_paused st \<noteq> []
           then let fin = frame_end (last (au_paused st));
                    drain = fst (trim_frame fin frame);
                    remaining = b - pf_rtp drain
                in if pf_rtp drain = fin \<and> remaining \<le> five_seconds (au_cfg st) \<and> pf_samples drain \<noteq> []
                   then let cut = (if length (pf_samples drain) div 2 > unat remaining
                                   then drain\<lparr>pf_samples := take (unat remaining * 2) (pf_samples drain)\<rparr>
                                   else drain)
                        in if pf_samples cut \<noteq> [] then st\<lparr>au_paused := au_paused st @ [cut]\<rparr> else st
                   else st
           else st)
      | None \<Rightarrow> st)"

text \<open>The blocks of a pause that came from an earlier stream, given deadlines one after another.\<close>

fun place_saved :: "audio_config \<Rightarrow> u32 \<Rightarrow> int \<Rightarrow> pcm_frame list \<Rightarrow> pcm_frame list" where
  "place_saved cfg shift target [] = []"
| "place_saved cfg shift target (f # fs) =
     f\<lparr>pf_rtp := pf_rtp f + shift, pf_target := target\<rparr>
     # place_saved cfg shift (target + frame_ns cfg (length (pf_samples f))) fs"

definition restore_import :: "int \<Rightarrow> int \<Rightarrow> pcm_frame \<Rightarrow> audio \<Rightarrow> audio" where
  "restore_import now pending frame st =
     (if \<not> au_imported st then st
      else let st1 =
             (if now - au_paused_at st < 120000000000 \<and> au_paused st \<noteq> []
              then let shift = pf_rtp frame - frame_end (last (au_paused st));
                       retained = sum_list (map (\<lambda>f. length (pf_samples f) div 2) (au_paused st));
                       delta = sint (pf_rtp frame - au_first_rtp st);
                       estimate = au_first_ns st
                         + ((delta + uint (au_lead st)) * 1000000000) sdiv ac_rate (au_cfg st);
                       tail_duration = (int retained * 1000000000) sdiv ac_rate (au_cfg st);
                       margin = (if au_output st then pending else 0);
                       saved = place_saved (au_cfg st) shift (max now (estimate - tail_duration + margin)) (au_paused st)
                   in st\<lparr>au_queue := au_queue st @ saved, au_queued := au_queued st + queue_samples saved\<rparr>
              else st)
           in st1\<lparr>au_paused := [], au_imported := False\<rparr>)"

definition append_frame :: "pcm_frame \<Rightarrow> audio \<Rightarrow> audio" where
  "append_frame frame st =
     (let f = (case au_boundary st of None \<Rightarrow> frame | Some b \<Rightarrow> fst (trim_frame b frame))
      in if pf_samples f \<noteq> []
         then st\<lparr>au_boundary := None, au_queued := au_queued st + length (pf_samples f),
                 au_queue := au_queue st @ [f]\<rparr>
         else st)"

definition enqueue_pcm :: "int \<Rightarrow> int \<Rightarrow> u32 \<Rightarrow> i16 list \<Rightarrow> audio \<Rightarrow> audio" where
  "enqueue_pcm now pending rtp pcm st =
     (let (q, n) = drop_oldest (pcm_limit (au_cfg st)) (length pcm) (au_queue st) (au_queued st);
          frame = \<lparr>pf_rtp = rtp, pf_samples = pcm, pf_target = 0\<rparr>
      in append_frame frame (restore_import now pending frame
           (drain_tail frame (st\<lparr>au_queue := q, au_queued := n\<rparr>))))"

text \<open>The blocks pulled from the decoder after one packet, with their timestamps.\<close>

fun enqueue_all :: "int \<Rightarrow> int \<Rightarrow> u32 \<Rightarrow> i16 list list \<Rightarrow> audio \<Rightarrow> audio" where
  "enqueue_all now pending rtp [] st = st"
| "enqueue_all now pending rtp (pcm # rest) st =
     enqueue_all now pending (rtp + word_of_nat (length pcm div 2)) rest
       (enqueue_pcm now pending rtp pcm st)"

section \<open>The network thread\<close>

record dedup =
  dd_pkts :: nat
  dd_seen :: "u16 \<Rightarrow> bool"
  dd_dropped :: nat

definition new_dedup :: dedup where
  "new_dedup = \<lparr>dd_pkts = 0, dd_seen = (\<lambda>s. False), dd_dropped = 0\<rparr>"

text \<open>\<open>erase_from + k\<close> for \<open>k < 1024\<close>, in 16 bits.\<close>

definition clear_window :: "u16 \<Rightarrow> (u16 \<Rightarrow> bool) \<Rightarrow> u16 \<Rightarrow> bool" where
  "clear_window erase_from seen s = (seen s \<and> \<not> unat (s - erase_from) < 1024)"

text \<open>The counter and the duplicate filter, for a packet of \<open>payload_len\<close> bytes; the result says
  whether the packet is handed to the decoder.\<close>

definition dedup_step :: "nat \<Rightarrow> u16 \<Rightarrow> dedup \<Rightarrow> bool \<times> dedup" where
  "dedup_step payload_len seq d =
     (let d1 = d\<lparr>dd_pkts := dd_pkts d + 1\<rparr>
      in if payload_len < 100 then (False, d1)
         else if dd_seen d1 seq then (False, d1\<lparr>dd_dropped := dd_dropped d1 + 1\<rparr>)
         else let seen = (dd_seen d1)(seq := True)
              in (True, d1\<lparr>dd_seen := (if dd_pkts d1 mod 1024 = 0 then clear_window (seq - 8192) seen else seen)\<rparr>))"

text \<open>AES-CBC on the whole blocks with the IV of the session; the rest of the payload is clear.\<close>

definition decrypt_payload :: "(bytes \<Rightarrow> bytes) \<Rightarrow> bytes \<Rightarrow> bytes" where
  "decrypt_payload cbc payload =
     (let n = (length payload div 16) * 16
      in (if n > 0 then cbc (take n payload) else []) @ drop n payload)"

datatype readiness = NotReady | RecvFailed | Packet bytes

text \<open>One round of the loop: the clock, the packets that were readable, whether the renderer is in
  its grace period after a FLUSH, and the sink's pending time.\<close>

record tick =
  tk_now :: int
  tk_control :: "bytes option"
  tk_data :: readiness
  tk_grace :: bool
  tk_pending :: int

datatype audio_effect = PlaybackRate bool | RendererPcm "i16 list" | SinkPush "i16 list" | SinkClear

record net_state =
  nt_audio :: audio
  nt_dedup :: dedup
  nt_last_packet :: int
  nt_ever :: bool

definition silence :: "tick \<Rightarrow> net_state \<Rightarrow> audio_effect list" where
  "silence tk ns =
     (if ac_renderer (au_cfg (nt_audio ns)) \<and> nt_ever ns \<and> tk_now tk - nt_last_packet ns \<ge> 500000000
      then [PlaybackRate False] else [])"

definition first_packet :: "int \<Rightarrow> bytes \<Rightarrow> audio \<Rightarrow> audio" where
  "first_packet now buf st =
     (if au_first st then st
      else st\<lparr>au_first_rtp := u32_at buf 4, au_first_ns := now, au_first := True\<rparr>)"

definition data_packet ::
  "(bytes \<Rightarrow> bytes) \<Rightarrow> (bytes \<Rightarrow> i16 list list) \<Rightarrow> tick \<Rightarrow> bytes \<Rightarrow> net_state \<Rightarrow> audio_effect list \<times> net_state" where
  "data_packet cbc decode tk buf ns =
     (if length buf < 12 then ([], ns)
      else let a1 = first_packet (tk_now tk) buf (nt_audio ns);
               active = (length buf \<ge> 100);
               rate = (if active \<and> ac_renderer (au_cfg a1) \<and> \<not> tk_grace tk then [PlaybackRate True] else []);
               ns1 = ns\<lparr>nt_audio := a1, nt_last_packet := (if active then tk_now tk else nt_last_packet ns),
                        nt_ever := (nt_ever ns \<or> active)\<rparr>;
               seq = be16 (buf ! 2) (buf ! 3);
               ts = u32_at buf 4;
               cleartext = decrypt_payload cbc (drop 12 buf);
               (fresh, d) = dedup_step (length buf - 12) seq (nt_dedup ns);
               pcm = (if fresh \<and> au_decoder a1 then decode cleartext else [])
           in (rate @ (if ac_renderer (au_cfg a1) then map RendererPcm pcm else []),
               ns1\<lparr>nt_dedup := d, nt_audio := enqueue_all (tk_now tk) (tk_pending tk) ts pcm a1\<rparr>))"

definition network_step ::
  "(bytes \<Rightarrow> bytes) \<Rightarrow> (bytes \<Rightarrow> i16 list list) \<Rightarrow> tick \<Rightarrow> net_state \<Rightarrow> audio_effect list \<times> net_state" where
  "network_step cbc decode tk ns =
     (let ns1 = (case tk_control tk of
                   Some control \<Rightarrow> (if ac_control_sock (au_cfg (nt_audio ns))
                                    then ns\<lparr>nt_audio := control_packet control (nt_audio ns)\<rparr> else ns)
                 | None \<Rightarrow> ns)
      in case tk_data tk of
           NotReady \<Rightarrow> (silence tk ns1, ns1)
         | RecvFailed \<Rightarrow> (silence tk ns1, ns1)
         | Packet buf \<Rightarrow> data_packet cbc decode tk buf ns1)"

section \<open>The playout thread\<close>

text \<open>What one round reads from outside: the clock, the sender's clock mapped to local time, whether
  the NTP client runs, whether the startup grace period of two seconds is over, and what the sink
  still has to play.\<close>

record playout =
  po_now :: int
  po_local_time :: "u64 \<Rightarrow> int option"
  po_ntp_running :: bool
  po_before_deadline :: bool
  po_pending :: int

definition signed_ticks :: "u32 \<Rightarrow> int" where
  "signed_ticks t = (if t \<le> 0x7fffffff then uint t else uint t - 0x100000000)"

definition playout_target :: "playout \<Rightarrow> pcm_frame \<Rightarrow> audio \<Rightarrow> int option" where
  "playout_target p f st =
     (if pf_target f \<noteq> 0 then Some (pf_target f)
      else if au_synchronize st \<and> ac_ntp (au_cfg st) \<and> au_anchor st
      then map_option (\<lambda>t. t + (signed_ticks (pf_rtp f - au_sync_rtp st) * 1000000000) sdiv ac_rate (au_cfg st))
             (po_local_time p (au_sync_ntp st))
      else None)"

datatype decision = Wait | DropLate | Play

definition decide :: "playout \<Rightarrow> pcm_frame \<Rightarrow> audio \<Rightarrow> decision" where
  "decide p f st =
     (let target = playout_target p f st
      in if au_synchronize st \<and> target = None \<and> ac_ntp (au_cfg st) \<and> po_ntp_running p \<and> po_before_deadline p
         then Wait
         else let pending = (if au_output st then po_pending p else 0)
              in if au_synchronize st \<and> pending > 60000000 then Wait
                 else case target of
                        None \<Rightarrow> Play
                      | Some t \<Rightarrow>
                          (let advance = t - po_now p - pending
                           in if advance > 5000000000 then Play
                              else if advance > 1000000 then Wait
                              else if advance < -250000000 then DropLate
                              else Play))"

definition playout_step :: "playout \<Rightarrow> audio \<Rightarrow> audio_effect list \<times> audio" where
  "playout_step p st =
     (let clr = (if au_clear st \<and> au_output st then [SinkClear] else []);
          st1 = st\<lparr>au_clear := False\<rparr>
      in case au_queue st1 of
           [] \<Rightarrow> (clr, st1)
         | f # fs \<Rightarrow>
             (let st2 = st1\<lparr>au_queue := fs, au_queued := au_queued st1 - length (pf_samples f)\<rparr>
              in case decide p f st1 of
                   Wait \<Rightarrow> (clr, st1)
                 | DropLate \<Rightarrow> (clr, st2)
                 | Play \<Rightarrow> (clr @ (if au_output st1 then [SinkPush (pf_samples f)] else []), st2)))"

section \<open>Interleavings\<close>

text \<open>Any thread may take the next step.\<close>

inductive audio_step :: "audio \<Rightarrow> audio \<Rightarrow> bool" where
  flushing: "audio_step st (flush now boundary st)"
| resuming: "audio_step st (resume now st)"
| discarding: "audio_step st (discard_pause st)"
| suspending: "audio_step st (snd (suspend st))"
| stopping: "audio_step st (stop_audio st)"
| switching: "audio_step st (set_synchronized now enabled st)"
| control: "audio_step st (control_packet pkt st)"
| arrival: "audio_step st (first_packet now pkt st)"
| decoded: "pcm \<noteq> [] \<Longrightarrow> audio_step st (enqueue_pcm now pending rtp pcm st)"
| playing: "audio_step st (snd (playout_step p st))"

inductive_cases audio_stepE: "audio_step st st'"

text \<open>The accounting invariant: the counter is the number of samples in the queue, no block in the
  queue or in the saved tail is empty, and a boundary belongs to a pause that is not imported.\<close>

definition audio_inv :: "audio \<Rightarrow> bool" where
  "audio_inv st \<longleftrightarrow> au_queued st = queue_samples (au_queue st)
     \<and> list_all (\<lambda>f. pf_samples f \<noteq> []) (au_queue st)
     \<and> list_all (\<lambda>f. pf_samples f \<noteq> []) (au_paused st)"

lemma queue_samples_simps [simp]:
  "queue_samples [] = 0" "queue_samples (f # q) = length (pf_samples f) + queue_samples q"
  "queue_samples (p @ q) = queue_samples p + queue_samples q"
  by (simp_all add: queue_samples_def)

lemma trim_frame_length:
  "length (pf_samples f) = length (pf_samples (fst (trim_frame b f))) + snd (trim_frame b f)"
  using trim_before_length [of "pf_rtp f" "pf_samples f" b]
  by (simp add: trim_frame_def split: prod.split)

lemma trim_queue_samples: "queue_samples q = queue_samples (fst (trim_queue b q)) + snd (trim_queue b q)"
proof (induction q)
  case (Cons f q)
  then show ?case using trim_frame_length [of f b] by (auto simp: split: prod.split)
qed simp

lemma trim_queue_nonempty: "list_all (\<lambda>f. pf_samples f \<noteq> []) (fst (trim_queue b q))"
  by (induction q) (auto split: prod.split)

lemma drop_oldest_inv:
  assumes "drop_oldest limit have q (queue_samples q) = (q', n)"
  shows "n = queue_samples q' \<and> suffix q' q \<and> (q' = [] \<or> n + have \<le> limit)"
  using assms
proof (induction q)
  case (Cons f q)
  show ?case
  proof (cases "queue_samples (f # q) + have > limit")
    case True
    then have "drop_oldest limit have q (queue_samples q) = (q', n)" using Cons.prems by simp
    from Cons.IH [OF this] show ?thesis by (auto intro: suffix_ConsI)
  next
    case False
    then have "q' = f # q" "n = queue_samples (f # q)" using Cons.prems by auto
    then show ?thesis using False by simp
  qed
qed simp

lemma flush_saved_inv: "audio_inv st \<Longrightarrow> audio_inv (flush_saved now b st)"
  by (auto simp: flush_saved_def audio_inv_def Let_def)

lemma flush_queue_inv: "audio_inv st \<Longrightarrow> audio_inv (flush_queue b st)"
proof (cases b)
  case (Some c)
  assume inv: "audio_inv st"
  obtain q n where t: "trim_queue c (au_queue st) = (q, n)" by fastforce
  have "au_queued st - n = queue_samples q"
    using inv trim_queue_samples [of "au_queue st" c] t by (simp add: audio_inv_def)
  moreover have "list_all (\<lambda>f. pf_samples f \<noteq> []) q"
    using trim_queue_nonempty [of c "au_queue st"] t by simp
  ultimately show ?thesis
    using inv by (simp add: flush_queue_def Some t audio_inv_def)
qed (simp add: flush_queue_def audio_inv_def)

lemma flush_inv: "audio_inv st \<Longrightarrow> audio_inv (flush now b st)"
proof -
  assume "audio_inv st"
  then have "audio_inv (flush_queue b (flush_saved now b st))" by (intro flush_queue_inv flush_saved_inv)
  then show ?thesis by (simp add: flush_def audio_inv_def)
qed

lemma resume_inv: "audio_inv st \<Longrightarrow> audio_inv (resume now st)"
  using trim_queue_nonempty
  by (auto simp: resume_def audio_inv_def Let_def list_all_iff comp_def)

lemma drain_tail_inv: "audio_inv st \<Longrightarrow> audio_inv (drain_tail f st)"
  by (auto simp: drain_tail_def audio_inv_def Let_def split: option.split)

lemma place_saved_samples:
  "map pf_samples (place_saved cfg sh t fs) = map pf_samples fs"
  by (induction fs arbitrary: t) simp_all

lemma queue_samples_map: "map pf_samples p = map pf_samples q \<Longrightarrow> queue_samples p = queue_samples q"
proof -
  have e: "queue_samples r = sum_list (map length (map pf_samples r))" for r
    by (simp add: queue_samples_def comp_def)
  assume "map pf_samples p = map pf_samples q"
  then show ?thesis unfolding e by simp
qed

lemma nonempty_map:
  assumes "map pf_samples p = map pf_samples q"
  shows "list_all (\<lambda>f. pf_samples f \<noteq> []) p = list_all (\<lambda>f. pf_samples f \<noteq> []) q"
proof -
  have e: "list_all (\<lambda>f. pf_samples f \<noteq> []) r = list_all (\<lambda>s. s \<noteq> []) (map pf_samples r)" for r
    by (simp add: list.pred_map comp_def)
  show ?thesis unfolding e assms ..
qed

lemma restore_import_inv: "audio_inv st \<Longrightarrow> audio_inv (restore_import now pending f st)"
  using nonempty_map [OF place_saved_samples]
  by (auto simp: restore_import_def audio_inv_def Let_def)

lemma append_frame_inv: "audio_inv st \<Longrightarrow> audio_inv (append_frame f st)"
  by (auto simp: append_frame_def audio_inv_def Let_def)

lemma enqueue_pcm_inv: "audio_inv st \<Longrightarrow> audio_inv (enqueue_pcm now pending rtp pcm st)"
proof -
  assume inv: "audio_inv st"
  obtain q n where q: "drop_oldest (pcm_limit (au_cfg st)) (length pcm) (au_queue st) (au_queued st) = (q, n)"
    by fastforce
  have "n = queue_samples q \<and> suffix q (au_queue st)"
    using drop_oldest_inv [of "pcm_limit (au_cfg st)" "length pcm" "au_queue st" q n] q inv
    by (simp add: audio_inv_def)
  then have "audio_inv (st\<lparr>au_queue := q, au_queued := n\<rparr>)"
    using inv by (auto simp: audio_inv_def list_all_iff dest: set_mono_suffix)
  then show ?thesis
    by (simp add: enqueue_pcm_def q append_frame_inv restore_import_inv drain_tail_inv Let_def)
qed

lemma playout_inv: "audio_inv st \<Longrightarrow> audio_inv (snd (playout_step p st))"
  by (auto simp: playout_step_def audio_inv_def Let_def split: list.split decision.split)

lemma simple_steps_inv:
  assumes "audio_inv st"
  shows "audio_inv (discard_pause st)" "audio_inv (snd (suspend st))" "audio_inv (stop_audio st)"
    "audio_inv (control_packet pkt st)" "audio_inv (first_packet now pkt st)"
    "audio_inv (set_synchronized now enabled st)"
proof -
  have "audio_inv (st\<lparr>au_synchronize := b\<rparr>)" for b using assms by (simp add: audio_inv_def)
  then show "audio_inv (set_synchronized now enabled st)" by (simp add: set_synchronized_def Let_def flush_inv)
qed (use assms in \<open>auto simp: audio_inv_def discard_pause_def suspend_def stop_audio_def join_workers_def
    release_resources_def control_packet_def first_packet_def Let_def\<close>)

lemma audio_step_inv: "audio_step st st' \<Longrightarrow> audio_inv st \<Longrightarrow> audio_inv st'"
  by (erule audio_stepE)
    (simp_all add: flush_inv resume_inv enqueue_pcm_inv playout_inv simple_steps_inv)

section \<open>Lifetimes\<close>

definition idle_audio :: "audio_config \<Rightarrow> audio" where
  "idle_audio cfg = \<lparr>au_cfg = cfg, au_running = False, au_queue = [], au_queued = 0, au_sync_rtp = 0,
     au_sync_ntp = 0, au_anchor = False, au_clear = False, au_boundary = None, au_paused = [],
     au_paused_at = 0, au_imported = False, au_lead = 0, au_first = False, au_first_rtp = 0,
     au_first_ns = 0, au_synchronize = False, au_decoder = False, au_output = False\<rparr>"

text \<open>A receiver is started fresh, or with the pause that an earlier one handed over.\<close>

definition audio_fresh :: "audio \<Rightarrow> bool" where
  "audio_fresh st \<longleftrightarrow> (\<exists>a d s cfg. start_audio a d s cfg no_pause (idle_audio cfg) = (True, st))"

inductive audio_life :: "audio \<Rightarrow> audio \<Rightarrow> bool" where
  inside: "audio_step st st' \<Longrightarrow> audio_life st st'"
| handover: "start_audio a d s cfg (fst (suspend x)) (idle_audio cfg) = (True, st) \<Longrightarrow> audio_life x st"

inductive_cases audio_lifeE: "audio_life st st'"

definition audio_reachable :: "audio \<Rightarrow> bool" where
  "audio_reachable = reach audio_fresh audio_life"

lemma start_inv:
  assumes "start_audio a d s cfg pause (idle_audio cfg) = (True, st)"
    and "list_all (\<lambda>f. pf_samples f \<noteq> []) (ps_pcm pause)"
  shows "audio_inv st"
proof -
  have "audio_inv (snd (start_audio a d s cfg pause (idle_audio cfg)))"
    using assms(2) by (simp add: start_audio_def idle_audio_def audio_inv_def Let_def)
  then show ?thesis using assms(1) by simp
qed

lemma suspend_pause: "audio_inv st \<Longrightarrow> list_all (\<lambda>f. pf_samples f \<noteq> []) (ps_pcm (fst (suspend st)))"
  by (auto simp: suspend_def audio_inv_def join_workers_def no_pause_def Let_def)

interpretation audio: invariant_of audio_fresh audio_life audio_inv
proof
  fix s t
  show "audio_fresh s \<Longrightarrow> audio_inv s"
    unfolding audio_fresh_def by (auto intro!: start_inv simp: no_pause_def)
  show "audio_inv s \<Longrightarrow> audio_life s t \<Longrightarrow> audio_inv t"
    by (erule audio_lifeE) (blast intro: audio_step_inv start_inv suspend_pause)+
qed

section \<open>Frames of the queue\<close>

definition queue_frames :: "pcm_frame list \<Rightarrow> (u32 \<times> i16 list) list" where
  "queue_frames q = concat (map (\<lambda>f. frames_from (pf_rtp f) (pf_samples f)) q)"

text \<open>Within 2^30 frames (more than six hours at 44.1 kHz) of the boundary.\<close>

definition near :: "u32 \<Rightarrow> pcm_frame \<Rightarrow> bool" where
  "near b f \<longleftrightarrow> length (pf_samples f) div 2 < 2 ^ 30
     \<and> (unat (b - pf_rtp f) < 2 ^ 30 \<or> unat (pf_rtp f - b) < 2 ^ 30)"

lemma trim_frame_frames:
  assumes "near b f"
  shows "frames_from (pf_rtp (fst (trim_frame b f))) (pf_samples (fst (trim_frame b f)))
    = filter (\<lambda>(t, s). \<not> rtp_before t b) (frames_from (pf_rtp f) (pf_samples f))"
proof -
  obtain r p n where t: "trim_before (pf_rtp f) (pf_samples f) b = (r, p, n)" by (metis prod_cases3)
  have "frames_from r p = filter (\<lambda>(t, s). \<not> rtp_before t b) (frames_from (pf_rtp f) (pf_samples f))"
    using trim_before_frames_filter [OF t] assms by (simp add: near_def)
  then show ?thesis by (simp add: trim_frame_def t)
qed

lemma trim_queue_frames:
  "list_all (near b) q \<Longrightarrow>
     queue_frames (fst (trim_queue b q)) = filter (\<lambda>(t, s). \<not> rtp_before t b) (queue_frames q)"
proof (induction q)
  case (Cons f q)
  obtain g n where g: "trim_frame b f = (g, n)" by fastforce
  have "frames_from (pf_rtp g) (pf_samples g) = filter (\<lambda>(t, s). \<not> rtp_before t b) (frames_from (pf_rtp f) (pf_samples f))"
    using trim_frame_frames [of b f] Cons.prems g by simp
  then show ?case
    using Cons g by (cases "pf_samples g = []") (auto simp: queue_frames_def split: prod.split)
qed (simp add: queue_frames_def)

section \<open>The duplicate filter\<close>

fun dedup_run :: "(nat \<times> u16) list \<Rightarrow> dedup \<Rightarrow> bool list \<times> dedup" where
  "dedup_run [] d = ([], d)"
| "dedup_run ((len, seq) # ps) d =
     (let (r, d1) = dedup_step len seq d; (rs, d2) = dedup_run ps d1 in (r # rs, d2))"

lemma dedup_run_append:
  "dedup_run (ps @ qs) d = (let (r, d1) = dedup_run ps d; (s, d2) = dedup_run qs d1 in (r @ s, d2))"
  by (induction ps d rule: dedup_run.induct) (simp_all add: Let_def split: prod.split)

text \<open>A stream that starts at \<open>s0\<close>: packet \<open>i\<close> has the sequence number \<open>s0 + i\<close>.\<close>

definition once :: "nat \<Rightarrow> u16 \<Rightarrow> nat \<Rightarrow> (nat \<times> u16) list" where
  "once len s0 n = map (\<lambda>i. (len, s0 + word_of_nat i)) [0..<n]"

definition twice :: "nat \<Rightarrow> u16 \<Rightarrow> nat \<Rightarrow> (nat \<times> u16) list" where
  "twice len s0 n = concat (map (\<lambda>i. [(len, s0 + word_of_nat i), (len, s0 + word_of_nat i)]) [0..<n])"

text \<open>In a stream sent once, what is marked is recent.\<close>

lemma dedup_once:
  assumes "100 \<le> len"
  shows "\<exists>d. dedup_run (once len s0 n) new_dedup = (replicate n True, d) \<and> dd_pkts d = n
    \<and> (\<forall>s. dd_seen d s \<longrightarrow> 0 < n \<and> unat (s0 + word_of_nat n - 1 - s) \<le> 7168 + n mod 1024)"
proof (induction n)
  case 0
  then show ?case by (simp add: once_def new_dedup_def)
next
  case (Suc n)
  then obtain d where d: "dedup_run (once len s0 n) new_dedup = (replicate n True, d)" "dd_pkts d = n"
      "\<And>s. dd_seen d s \<Longrightarrow> 0 < n \<and> unat (s0 + word_of_nat n - 1 - s) \<le> 7168 + n mod 1024"
    by blast
  define q :: u16 where "q = s0 + word_of_nat n"
  have "q - 1 - q = 0 - 1" by simp
  then have "unat (q - 1 - q) = 65535" using unat_sub_if_size [of 0 "1 :: u16"] by (simp add: word_size)
  then have unseen: "\<not> dd_seen d q"
    using d(3) [of q] mod_less_divisor [of 1024 n] unfolding q_def by linarith
  define d2 where "d2 = snd (dedup_step len q d)"
  have step: "dedup_step len q d = (True, d2)" "dd_pkts d2 = Suc n"
      "dd_seen d2 = (if Suc n mod 1024 = 0 then clear_window (q - 8192) ((dd_seen d)(q := True))
         else (dd_seen d)(q := True))"
    using assms unseen d(2) by (simp_all add: dedup_step_def d2_def Let_def)
  have age: "unat (q - s) \<le> 7168 + n mod 1024 + 1" if "((dd_seen d)(q := True)) s" for s
  proof (cases "s = q")
    case False
    then have "unat (q - 1 - s) \<le> 7168 + n mod 1024" using that d(3) [of s] by (simp add: q_def)
    moreover have "q - s = (q - 1 - s) + 1" by simp
    ultimately show ?thesis using unat_plus_if_size [of "q - 1 - s" 1] by (auto simp: word_size split: if_splits)
  qed simp
  have "unat (q - s) \<le> 7168 + Suc n mod 1024" if "dd_seen d2 s" for s
  proof (cases "Suc n mod 1024 = 0")
    case False
    then show ?thesis using that age [of s] by (simp add: step(3) mod_Suc split: if_splits)
  next
    case True
    then have s: "((dd_seen d)(q := True)) s" "\<not> unat (s - (q - 8192)) < 1024"
      using that by (simp_all add: step(3) clear_window_def)
    have "unat (q - s) \<le> 8192" using age [OF s(1)] mod_less_divisor [of 1024 n] by linarith
    then have "q - s \<le> 8192" by (simp add: word_le_nat_alt)
    then have "unat (8192 - (q - s)) = unat (8192 :: u16) - unat (q - s)" by (rule unat_sub)
    moreover have "s - (q - 8192) = 8192 - (q - s)" by simp
    ultimately have "unat (s - (q - 8192)) = 8192 - unat (q - s)" by (simp only:) simp
    then show ?thesis using s(2) True by simp
  qed
  moreover have "s0 + word_of_nat (Suc n) - 1 - s = q - s" for s by (simp add: q_def)
  moreover have "dedup_run (once len s0 (Suc n)) new_dedup = (replicate (Suc n) True, d2)"
    using step(1) d(1) by (simp add: once_def dedup_run_append replicate_append_same flip: q_def)
  ultimately show ?case using step(2) by simp
qed

lemma dedup_twice:
  assumes "100 \<le> len" and "n \<le> 65536"
  shows "\<exists>r d. dedup_run (twice len s0 n) new_dedup = (r, d) \<and> dd_pkts d = 2 * n
    \<and> (\<forall>s. dd_seen d s \<longleftrightarrow> unat (s - s0) < n)"
  using assms(2)
proof (induction n)
  case 0
  then show ?case by (simp add: twice_def new_dedup_def)
next
  case (Suc n)
  then obtain r d where d: "dedup_run (twice len s0 n) new_dedup = (r, d)" "dd_pkts d = 2 * n"
      "\<And>s. dd_seen d s \<longleftrightarrow> unat (s - s0) < n"
    by auto
  define q :: u16 where "q = s0 + word_of_nat n"
  have un: "unat (word_of_nat n :: u16) = n" using Suc.prems by (simp add: unat_of_nat)
  have unseen: "\<not> dd_seen d q" by (simp add: d(3) q_def un)
  have odd: "Suc (2 * n) mod 1024 \<noteq> 0"
  proof
    assume "Suc (2 * n) mod 1024 = 0"
    then have "1024 dvd Suc (2 * n)" by (rule mod_0_imp_dvd)
    moreover have "(2 :: nat) dvd 1024" by simp
    ultimately have "2 dvd Suc (2 * n)" using dvd_trans by blast
    then show False by simp
  qed
  let ?d1 = "d\<lparr>dd_pkts := Suc (2 * n), dd_seen := (dd_seen d)(q := True)\<rparr>"
  let ?d2 = "?d1\<lparr>dd_pkts := Suc (Suc (2 * n)), dd_dropped := dd_dropped d + 1\<rparr>"
  have one: "dedup_step len q d = (True, ?d1)"
    using assms(1) unseen d(2) odd by (simp add: dedup_step_def Let_def)
  have two: "dedup_step len q ?d1 = (False, ?d2)"
    using assms(1) by (simp add: dedup_step_def Let_def)
  have "((dd_seen d)(q := True)) s \<longleftrightarrow> unat (s - s0) < Suc n" for s
  proof -
    have "s = q \<longleftrightarrow> s - s0 = word_of_nat n" by (auto simp: q_def algebra_simps)
    also have "\<dots> \<longleftrightarrow> unat (s - s0) = n" using un by (metis word_unat_eq_iff)
    finally have "s = q \<longleftrightarrow> unat (s - s0) = n" .
    then show ?thesis by (auto simp: d(3) less_Suc_eq)
  qed
  moreover have "dedup_run (twice len s0 (Suc n)) new_dedup = (r @ [True, False], ?d2)"
    using one two d(1) by (simp add: twice_def dedup_run_append flip: q_def)
  ultimately show ?case by (intro exI [of _ "r @ [True, False]"] exI [of _ ?d2]) simp
qed

lemma dedup_full:
  assumes "\<forall>s. dd_seen d s"
  shows "\<exists>d2. dedup_run ps d = (replicate (length ps) False, d2)"
  using assms
proof (induction ps arbitrary: d)
  case (Cons p ps)
  obtain len seq where p: "p = (len, seq)" by fastforce
  have "\<not> fst (dedup_step len seq d) \<and> (\<forall>s. dd_seen (snd (dedup_step len seq d)) s)"
    using Cons.prems by (simp add: dedup_step_def Let_def)
  then obtain d1 where d1: "dedup_step len seq d = (False, d1)" "\<forall>s. dd_seen d1 s"
    by (metis prod.collapse)
  then show ?case using Cons.IH [OF d1(2)] p by auto
qed simp

section \<open>Playing\<close>

fun playout_run :: "playout list \<Rightarrow> audio \<Rightarrow> audio_effect list \<times> audio" where
  "playout_run [] st = ([], st)"
| "playout_run (p # ps) st =
     (let (e, st1) = playout_step p st; (es, st2) = playout_run ps st1 in (e @ es, st2))"

definition pushed :: "audio_effect list \<Rightarrow> i16 list list" where
  "pushed es = concat (map (\<lambda>e. case e of SinkPush s \<Rightarrow> [s] | _ \<Rightarrow> []) es)"

lemma pushed_simps [simp]:
  "pushed [] = []" "pushed (SinkPush s # es) = s # pushed es" "pushed (SinkClear # es) = pushed es"
  "pushed (xs @ ys) = pushed xs @ pushed ys"
  by (simp_all add: pushed_def)

lemma playout_step_order:
  "playout_step p st = (e, st1) \<Longrightarrow> \<exists>played. au_queue st = played @ au_queue st1
     \<and> subseq (pushed e) (map pf_samples played) \<and> length played \<le> 1"
  by (cases "au_queue st"; cases "decide p (hd (au_queue st)) (st\<lparr>au_clear := False\<rparr>)")
    (auto simp: playout_step_def Let_def)

lemma playout_run_order:
  "playout_run ps st = (es, st2) \<Longrightarrow> \<exists>played. au_queue st = played @ au_queue st2
     \<and> subseq (pushed es) (map pf_samples played)"
proof (induction ps arbitrary: st es)
  case (Cons p ps)
  obtain e st1 where e: "playout_step p st = (e, st1)" by fastforce
  obtain es1 where r: "playout_run ps st1 = (es1, st2)" "es = e @ es1"
    using Cons.prems e by (auto split: prod.splits)
  obtain a where a: "au_queue st = a @ au_queue st1" "subseq (pushed e) (map pf_samples a)"
    using playout_step_order [OF e] by blast
  obtain b where b: "au_queue st1 = b @ au_queue st2" "subseq (pushed es1) (map pf_samples b)"
    using Cons.IH [OF r(1)] by blast
  show ?case using a b r(2) by (intro exI [of _ "a @ b"]) (simp add: list_emb_append_mono)
qed simp

lemma frames_shift: "frames_from (t + k) p = map (\<lambda>(u, s). (u + k, s)) (frames_from t p)"
proof (induction t p rule: frames_from.induct)
  case (1 t a b r)
  have "t + k + 1 = t + 1 + k" by simp
  then show ?case using 1 by (simp only: frames_from.simps) simp
qed simp_all

lemma queue_frames_append: "queue_frames (p @ q) = queue_frames p @ queue_frames q"
  by (simp add: queue_frames_def)

lemma queue_frames_shift:
  "queue_frames (map (\<lambda>f. f\<lparr>pf_rtp := pf_rtp f + k, pf_target := 0\<rparr>) q)
     = map (\<lambda>(u, s). (u + k, s)) (queue_frames q)"
  by (induction q) (simp_all add: queue_frames_def frames_shift)

section \<open>Properties\<close>

text \<open>C23: However the network, RTSP and playout threads interleave, over any number of receivers
  that hand their pause to the next one, the counter that bounds the buffer is exactly the number of
  samples queued, and no empty block is ever queued or saved; so every subtraction from the counter
  is of samples it counts.\<close>

theorem audio_accounting:
  assumes "audio_reachable st"
  shows "au_queued st = queue_samples (au_queue st)
    \<and> list_all (\<lambda>f. pf_samples f \<noteq> []) (au_queue st) \<and> list_all (\<lambda>f. pf_samples f \<noteq> []) (au_paused st)"
  using audio.holds [OF assms [unfolded audio_reachable_def]] by (simp add: audio_inv_def)

text \<open>C24: A FLUSH up to a boundary leaves in the queue exactly the frames that are not before it, each with
  its timestamp, and fences later packets there. Of a synchronised stream whose pauses are preserved the
  queue as it was is saved for the resume, with the time of the pause; a tail that came from the stream
  before is kept instead, and otherwise nothing is saved. A FLUSH without a boundary leaves neither a queue
  nor a tail. The frames of the queue are taken to be within six hours of the boundary, as the comparison
  of RTP times needs.\<close>

theorem flush_exact:
  assumes "list_all (near b) (au_queue st)"
  shows "queue_frames (au_queue (flush now (Some b) st))
      = filter (\<lambda>(t, s). \<not> rtp_before t b) (queue_frames (au_queue st))
    \<and> (au_paused (flush now (Some b) st), au_paused_at (flush now (Some b) st))
      = (if au_imported st then (au_paused st, au_paused_at st)
         else if ac_preserve (au_cfg st) \<and> au_synchronize st \<and> au_queue st \<noteq> [] then (au_queue st, now)
         else ([], 0))
    \<and> au_queue (flush now None st) = [] \<and> au_paused (flush now None st) = [] \<and> \<not> au_imported (flush now None st)
    \<and> (\<forall>c. au_boundary (flush now c st) = c \<and> au_clear (flush now c st))"
proof -
  have q: "au_queue (flush_saved now c st) = au_queue st" for c
    by (simp add: flush_saved_def Let_def)
  have "au_boundary (flush now c st) = c \<and> au_clear (flush now c st)" for c
    by (cases c) (simp_all add: flush_def flush_queue_def Let_def case_prod_beta)
  moreover have "(au_paused (flush now (Some b) st), au_paused_at (flush now (Some b) st))
      = (if au_imported st then (au_paused st, au_paused_at st)
         else if ac_preserve (au_cfg st) \<and> au_synchronize st \<and> au_queue st \<noteq> [] then (au_queue st, now) else ([], 0))"
    by (simp add: flush_def flush_queue_def flush_saved_def Let_def case_prod_beta)
  moreover have "au_queue (flush now None st) = []" "au_paused (flush now None st) = []" "\<not> au_imported (flush now None st)"
    by (simp_all add: flush_def flush_queue_def flush_saved_def Let_def)
  ultimately show ?thesis
    using trim_queue_frames [OF assms] q by (simp add: flush_def flush_queue_def Let_def case_prod_beta)
qed

text \<open>Resuming after a pause of between 0.2 s and two minutes puts the whole saved tail back in
  front of the queue, all of it shifted by the length of the pause, removes from the live queue
  exactly what the tail covers, and fences later packets at the end of the tail.\<close>

theorem resume_splices:
  assumes "\<not> au_imported st" and "au_paused st \<noteq> []" and "au_synchronize st"
    and "200000000 \<le> now - au_paused_at st" and "now - au_paused_at st \<le> 120000000000"
    and "shift = word_of_int (((now - au_paused_at st) * ac_rate (au_cfg st)) sdiv 1000000000)"
    and "fin = frame_end (last (au_paused st)) + shift" and "list_all (near fin) (au_queue st)"
  shows "queue_frames (au_queue (resume now st))
      = map (\<lambda>(t, s). (t + shift, s)) (queue_frames (au_paused st))
        @ filter (\<lambda>(t, s). \<not> rtp_before t fin) (queue_frames (au_queue st))
    \<and> au_boundary (resume now st) = Some fin \<and> au_paused (resume now st) = []"
proof -
  let ?saved = "map (\<lambda>f. f\<lparr>pf_rtp := pf_rtp f + shift, pf_target := 0\<rparr>) (au_paused st)"
  have "last ?saved = (last (au_paused st))\<lparr>pf_rtp := pf_rtp (last (au_paused st)) + shift, pf_target := 0\<rparr>"
    using assms(2) by (simp add: last_map)
  then have "frame_end (last ?saved) = fin" by (simp add: assms(7) frame_end_def)
  then have "resume now st = st\<lparr>au_queue := ?saved @ fst (trim_queue fin (au_queue st)), au_paused := [],
      au_queued := queue_samples (?saved @ fst (trim_queue fin (au_queue st))), au_boundary := Some fin\<rparr>"
    unfolding resume_def Let_def assms(6) [symmetric] using assms(1-5) by simp
  then show ?thesis
    using trim_queue_frames [OF assms(8)] by (simp add: queue_frames_append queue_frames_shift)
qed

text \<open>Playout neither reorders nor repeats: over any rounds of the playout thread the blocks
  given to the sink are a subsequence, in order, of the blocks that left the front of the queue.\<close>

theorem playout_in_order:
  "\<exists>played. au_queue st = played @ au_queue (snd (playout_run ps st))
    \<and> subseq (pushed (fst (playout_run ps st))) (map pf_samples played)"
  using playout_run_order by (metis prod.collapse)

text \<open>The duplicate filter on a stream sent once, in order: no packet is ever taken for a
  duplicate, however often the 16-bit sequence numbers wrap.\<close>

theorem dedup_accepts_stream:
  assumes "100 \<le> len"
  shows "fst (dedup_run (once len s0 n) new_dedup) = replicate n True"
  using dedup_once [OF assms, of s0 n] by auto

text \<open>The duplicate filter on a stream sent twice: after 65536 packets, each sent two times, all
  sequence numbers are marked, none is ever cleared, and every later audio packet is dropped.\<close>

theorem dedup_starves_doubled_stream:
  assumes "100 \<le> len"
  shows "fst (dedup_run later (snd (dedup_run (twice len s0 65536) new_dedup))) = replicate (length later) False"
proof -
  obtain r d where d: "dedup_run (twice len s0 65536) new_dedup = (r, d)"
      "\<And>s. dd_seen d s \<longleftrightarrow> unat (s - s0) < 65536"
    using dedup_twice [OF assms, of 65536 s0] by auto
  have "\<forall>s. dd_seen d s"
    using unsigned_less [where 'b = 16] by (auto simp: d(2))
  then show ?thesis using dedup_full [of d later] d(1) by auto
qed

section \<open>Witnesses\<close>

definition sample_config :: audio_config where
  "sample_config = \<lparr>ac_data_sock = True, ac_control_sock = True, ac_ntp = True, ac_synchronize = True,
     ac_preserve = True, ac_aes_key = replicate 16 1, ac_aes_iv = replicate 16 2, ac_rate = 44100,
     ac_renderer = True\<rparr>"

definition sample_audio :: audio where
  "sample_audio = (idle_audio sample_config)\<lparr>au_running := True, au_synchronize := True, au_decoder := True,
     au_output := True, au_queue := [\<lparr>pf_rtp = 100, pf_samples = [1, 2, 3, 4], pf_target = 0\<rparr>],
     au_queued := 4\<rparr>"

theorem audio_accounting_witness:
  "au_queued (enqueue_pcm 5 0 100 [1, 2, 3, 4]
      (snd (start_audio True True True sample_config no_pause (idle_audio sample_config))))
    = queue_samples (au_queue (enqueue_pcm 5 0 100 [1, 2, 3, 4]
      (snd (start_audio True True True sample_config no_pause (idle_audio sample_config)))))"
proof -
  have "start_audio True True True sample_config no_pause (idle_audio sample_config)
      = (True, snd (start_audio True True True sample_config no_pause (idle_audio sample_config)))"
    by (simp add: start_audio_def sample_config_def Let_def)
  then have "audio_fresh (snd (start_audio True True True sample_config no_pause (idle_audio sample_config)))"
    unfolding audio_fresh_def by blast
  then have "audio_reachable (enqueue_pcm 5 0 100 [1, 2, 3, 4]
      (snd (start_audio True True True sample_config no_pause (idle_audio sample_config))))"
    unfolding audio_reachable_def
    by (rule reach.advance [OF reach.initial])
      (rule audio_life.inside, rule audio_step.decoded, simp)
  from audio_accounting [OF this] show ?thesis by blast
qed

theorem flush_exact_witness:
  "queue_frames (au_queue (flush 7 (Some 101) sample_audio)) = [(101, [3, 4])]"
proof -
  have "list_all (near 101) (au_queue sample_audio)" by (simp add: sample_audio_def near_def)
  from flush_exact [OF this, of 7] show ?thesis
    by (simp add: sample_audio_def queue_frames_def rtp_before_def)
qed

definition paused_audio :: audio where
  "paused_audio = sample_audio\<lparr>au_paused := [\<lparr>pf_rtp = 90, pf_samples = [9, 9], pf_target = 0\<rparr>],
     au_queue := [\<lparr>pf_rtp = 44190, pf_samples = [1, 2, 3, 4], pf_target = 0\<rparr>]\<rparr>"

theorem resume_splices_witness:
  "queue_frames (au_queue (resume 1000000000 paused_audio)) = [(44190, [9, 9]), (44191, [3, 4])]"
proof -
  have "list_all (near 44191) (au_queue paused_audio)" by (simp add: paused_audio_def near_def)
  then show ?thesis
    using resume_splices [of paused_audio 1000000000 44100 44191]
    by (simp add: paused_audio_def sample_audio_def idle_audio_def sample_config_def frame_end_def
        queue_frames_def rtp_before_def signed_divide_int_def)
qed

theorem dedup_accepts_stream_witness:
  "fst (dedup_run (once 400 65000 3) new_dedup) = replicate 3 True"
  by (rule dedup_accepts_stream) simp

theorem dedup_starves_doubled_stream_witness:
  "fst (dedup_run [(400, 7), (400, 8)] (snd (dedup_run (twice 400 7 65536) new_dedup)))
    = replicate (length [(400 :: nat, 7 :: u16), (400, 8)]) False"
  by (rule dedup_starves_doubled_stream) simp

end
