(* ===== verification/Sockets.thy ===== *)
theory Sockets
  imports Prelude "HOL-Library.Multiset"
begin

text \<open>
  Socket handles and who owns them: src/net/socket.cpp \<open>close_socket\<close>, and the two ways
  src/airplay obtains a socket, \<open>bind_udp\<close> of streams.cpp and the listener of
  mirror_listener.cpp. The kernel is a record: the handles that are open, the log of the closes,
  the closes of a handle that was not open, and a script that answers the calls to come. Handles
  are fresh numbers, so that a handle names one socket for good.
\<close>

section \<open>The kernel\<close>

type_synonym sock = nat

text \<open>What the calls for one socket answer, in the order they are made; \<open>wa_accept\<close> is the outcome
  of \<open>accept\<close> on a listener.\<close>

record sock_answer =
  wa_v6 :: bool
  wa_v4 :: bool
  wa_bind :: bool
  wa_name :: bool
  wa_listen :: bool
  wa_accept :: bool
  wa_port :: u16

record kernel =
  kn_next :: sock
  kn_open :: "sock list"
  kn_closed :: "sock list"
  kn_bad :: "sock list"
  kn_calls :: nat
  kn_script :: "nat \<Rightarrow> sock_answer"

definition kernel_ok :: "kernel \<Rightarrow> bool" where
  "kernel_ok k \<longleftrightarrow> distinct (kn_open k) \<and> list_all (\<lambda>h. h < kn_next k) (kn_open k)"

definition boot :: "(nat \<Rightarrow> sock_answer) \<Rightarrow> kernel" where
  "boot script = \<lparr>kn_next = 0, kn_open = [], kn_closed = [], kn_bad = [], kn_calls = 0, kn_script = script\<rparr>"

definition open_socket :: "kernel \<Rightarrow> sock \<times> kernel" where
  "open_socket k = (kn_next k, k\<lparr>kn_next := kn_next k + 1, kn_open := kn_next k # kn_open k\<rparr>)"

definition close_socket :: "sock option \<Rightarrow> kernel \<Rightarrow> kernel" where
  "close_socket s k =
     (case s of
        None \<Rightarrow> k
      | Some h \<Rightarrow>
          (if h \<in> set (kn_open k)
           then k\<lparr>kn_open := remove1 h (kn_open k), kn_closed := kn_closed k @ [h]\<rparr>
           else k\<lparr>kn_bad := kn_bad k @ [h]\<rparr>))"

definition next_answer :: "kernel \<Rightarrow> sock_answer \<times> kernel" where
  "next_answer k = (kn_script k (kn_calls k), k\<lparr>kn_calls := kn_calls k + 1\<rparr>)"

section \<open>Obtaining a socket\<close>

text \<open>Without IPv6 the source repeats the same calls on an IPv4 socket.\<close>

definition bind_udp :: "kernel \<Rightarrow> (sock \<times> u16) option \<times> kernel" where
  "bind_udp k0 =
     (let (a, k1) = next_answer k0
      in if \<not> wa_v6 a \<and> \<not> wa_v4 a then (None, k1)
         else let (s, k2) = open_socket k1
              in if \<not> wa_bind a then (None, close_socket (Some s) k2)
                 else if \<not> wa_name a then (None, close_socket (Some s) k2)
                 else (Some (s, wa_port a), k2))"

text \<open>The TCP listener of a mirror stream; on the IPv4 path the result of \<open>getsockname\<close> is
  ignored and the port is then 0, as it was set for binding.\<close>

definition open_listener :: "kernel \<Rightarrow> (sock \<times> u16) option \<times> kernel" where
  "open_listener k0 =
     (let (a, k1) = next_answer k0
      in if \<not> wa_v6 a
         then if \<not> wa_v4 a then (None, k1)
              else let (s, k2) = open_socket k1
                   in if \<not> wa_bind a then (None, close_socket (Some s) k2)
                      else if \<not> wa_listen a then (None, close_socket (Some s) k2)
                      else (Some (s, if wa_name a then wa_port a else 0), k2)
         else let (s, k2) = open_socket k1
              in if \<not> wa_bind a then (None, close_socket (Some s) k2)
                 else if \<not> wa_name a then (None, close_socket (Some s) k2)
                 else if \<not> wa_listen a then (None, close_socket (Some s) k2)
                 else (Some (s, wa_port a), k2))"

definition accept_socket :: "kernel \<Rightarrow> sock option \<times> kernel" where
  "accept_socket k0 =
     (let (a, k1) = next_answer k0
      in if \<not> wa_accept a then (None, k1) else (let (s, k2) = open_socket k1 in (Some s, k2)))"

text \<open>Closing several handles, in order.\<close>

definition close_all :: "sock option list \<Rightarrow> kernel \<Rightarrow> kernel" where
  "close_all = fold close_socket"

definition handles :: "sock option list \<Rightarrow> sock list" where
  "handles ss = concat (map (\<lambda>s. case s of None \<Rightarrow> [] | Some h \<Rightarrow> [h]) ss)"

lemma handles_simps [simp]:
  "handles [] = []" "handles (None # ss) = handles ss" "handles (Some h # ss) = h # handles ss"
  "handles (ss @ ts) = handles ss @ handles ts"
  by (simp_all add: handles_def)

lemma close_all_simps [simp]:
  "close_all [] k = k" "close_all (s # ss) k = close_all ss (close_socket s k)"
  "close_all (ss @ ts) k = close_all ts (close_all ss k)"
  by (simp_all add: close_all_def)

section \<open>The ledger\<close>

text \<open>An owner has distinct open handles. The rest of the open handles is what others hold, or
  what nobody will ever close.\<close>

definition owns :: "sock list \<Rightarrow> kernel \<Rightarrow> bool" where
  "owns hs k \<longleftrightarrow> kernel_ok k \<and> distinct hs \<and> set hs \<subseteq> set (kn_open k)"

definition unowned :: "sock list \<Rightarrow> kernel \<Rightarrow> sock set" where
  "unowned hs k = set (kn_open k) - set hs"

text \<open>\<open>balanced\<close>: one operation took the owner from \<open>hs\<close> to \<open>hs'\<close>, closed nothing but its own
  handles, left the others alone, and lost none.\<close>

definition balanced :: "sock list \<Rightarrow> kernel \<Rightarrow> sock list \<Rightarrow> kernel \<Rightarrow> bool" where
  "balanced hs k hs' k' \<longleftrightarrow> owns hs' k' \<and> unowned hs' k' = unowned hs k
     \<and> kn_bad k' = kn_bad k \<and> kn_next k \<le> kn_next k'"

lemma balanced_refl: "owns hs k \<Longrightarrow> balanced hs k hs k"
  by (simp add: balanced_def)

lemma balanced_trans [trans]:
  "balanced hs k hs1 k1 \<Longrightarrow> balanced hs1 k1 hs2 k2 \<Longrightarrow> balanced hs k hs2 k2"
  by (simp add: balanced_def)

lemma balanced_owns: "balanced hs k hs' k' \<Longrightarrow> owns hs' k'"
  by (simp add: balanced_def)

lemma owns_perm: "owns hs k \<Longrightarrow> mset hs' = mset hs \<Longrightarrow> owns hs' k"
  by (metis owns_def mset_eq_imp_distinct_iff set_mset_mset)

lemma balanced_perm:
  assumes "balanced hs k hs' k'" and "mset hs1 = mset hs" and "mset hs1' = mset hs'"
  shows "balanced hs1 k hs1' k'"
proof -
  have s: "set hs1 = set hs" "set hs1' = set hs'" using assms(2,3) by (metis set_mset_mset)+
  then show ?thesis
    using assms(1) owns_perm [OF _ assms(3)] by (simp add: balanced_def unowned_def)
qed

lemma next_answer_balanced: "owns hs k \<Longrightarrow> balanced hs k hs (snd (next_answer k))"
  by (simp add: next_answer_def balanced_def owns_def kernel_ok_def unowned_def)

lemma open_socket_balanced:
  assumes "owns hs k"
  shows "balanced hs k (fst (open_socket k) # hs) (snd (open_socket k))"
proof -
  have lt: "\<forall>h\<in>set (kn_open k). h < kn_next k" and sub: "set hs \<subseteq> set (kn_open k)"
    using assms by (auto simp: owns_def kernel_ok_def list_all_iff)
  then have "kn_next k \<notin> set (kn_open k)" "kn_next k \<notin> set hs" by auto
  then show ?thesis
    using assms sub
    by (auto simp: open_socket_def balanced_def owns_def kernel_ok_def unowned_def list_all_iff less_SucI)
qed

lemma close_socket_balanced:
  assumes "owns (handles (s # ss)) k"
  shows "balanced (handles (s # ss)) k (handles ss) (close_socket s k)"
proof (cases s)
  case None
  then show ?thesis using assms by (simp add: close_socket_def balanced_refl)
next
  case (Some h)
  have "distinct (kn_open k)" "h \<in> set (kn_open k)" "h \<notin> set (handles ss)"
    using assms Some by (auto simp: owns_def kernel_ok_def)
  then show ?thesis
    using assms Some
    by (auto simp: close_socket_def balanced_def owns_def kernel_ok_def unowned_def list_all_iff)
qed

lemma close_all_balanced:
  "owns (handles (ss @ ts)) k \<Longrightarrow> balanced (handles (ss @ ts)) k (handles ts) (close_all ss k)"
proof (induction ss arbitrary: k)
  case Nil
  then show ?case by (simp add: balanced_refl)
next
  case (Cons s ss)
  have 1: "balanced (handles (s # (ss @ ts))) k (handles (ss @ ts)) (close_socket s k)"
    using Cons.prems by (intro close_socket_balanced) simp
  have 2: "balanced (handles (ss @ ts)) (close_socket s k) (handles ts) (close_all ss (close_socket s k))"
    by (rule Cons.IH [OF balanced_owns [OF 1]])
  show ?case using balanced_trans [OF 1 2] by simp
qed

lemma open_then_close:
  assumes "owns hs k"
  shows "balanced hs k hs (close_socket (Some (fst (open_socket k))) (snd (open_socket k)))"
proof -
  have 1: "balanced hs k (fst (open_socket k) # hs) (snd (open_socket k))"
    by (rule open_socket_balanced [OF assms])
  have e: "handles (map Some hs) = hs" by (induction hs) simp_all
  have 2: "balanced (handles (Some (fst (open_socket k)) # map Some hs)) (snd (open_socket k))
      (handles (map Some hs)) (close_socket (Some (fst (open_socket k))) (snd (open_socket k)))"
    by (rule close_socket_balanced) (use balanced_owns [OF 1] e in simp)
  show ?thesis using balanced_trans [OF 1] 2 by (simp add: e)
qed

definition gained :: "(sock \<times> u16) option \<Rightarrow> sock list" where
  "gained r = handles [map_option fst r]"

lemma gained_simps [simp]: "gained None = []" "gained (Some (s, p)) = [s]"
  by (simp_all add: gained_def)

lemma bind_udp_balanced:
  assumes "owns hs k"
  shows "balanced hs k (gained (fst (bind_udp k)) @ hs) (snd (bind_udp k))"
proof -
  obtain a k1 where a: "next_answer k = (a, k1)" by fastforce
  obtain s k2 where s: "open_socket k1 = (s, k2)" by fastforce
  have 1: "balanced hs k hs k1" using next_answer_balanced [OF assms] a by simp
  note 2 = open_socket_balanced [OF balanced_owns [OF 1]] open_then_close [OF balanced_owns [OF 1]]
  show ?thesis
    using balanced_trans [OF 1 2(1)] balanced_trans [OF 1 2(2)] 1 a s by (simp add: bind_udp_def)
qed

lemma open_listener_balanced:
  assumes "owns hs k"
  shows "balanced hs k (gained (fst (open_listener k)) @ hs) (snd (open_listener k))"
proof -
  obtain a k1 where a: "next_answer k = (a, k1)" by fastforce
  obtain s k2 where s: "open_socket k1 = (s, k2)" by fastforce
  have 1: "balanced hs k hs k1" using next_answer_balanced [OF assms] a by simp
  note 2 = open_socket_balanced [OF balanced_owns [OF 1]] open_then_close [OF balanced_owns [OF 1]]
  show ?thesis
    using balanced_trans [OF 1 2(1)] balanced_trans [OF 1 2(2)] 1 a s by (simp add: open_listener_def)
qed

lemma accept_socket_balanced:
  assumes "owns hs k"
  shows "balanced hs k (handles [fst (accept_socket k)] @ hs) (snd (accept_socket k))"
proof -
  obtain a k1 where a: "next_answer k = (a, k1)" by fastforce
  obtain s k2 where s: "open_socket k1 = (s, k2)" by fastforce
  have 1: "balanced hs k hs k1" using next_answer_balanced [OF assms] a by simp
  note 2 = open_socket_balanced [OF balanced_owns [OF 1]]
  show ?thesis using balanced_trans [OF 1 2] 1 a s by (simp add: accept_socket_def)
qed

section \<open>Owners\<close>

text \<open>The contract of a component that owns sockets: what it has, and an operation that releases
  everything. Whoever keeps a list of such components releases them one after the other.\<close>

locale socket_owner =
  fixes owned :: "'o \<Rightarrow> sock list"
    and release :: "'o \<Rightarrow> kernel \<Rightarrow> kernel"
  assumes release_balanced: "owns (owned x @ hs) k \<Longrightarrow> balanced (owned x @ hs) k hs (release x k)"
begin

lemma release_closes:
  assumes "owns (owned x @ hs) k"
  shows "set (kn_open (release x k)) = set (kn_open k) - set (owned x)"
proof -
  have b: "balanced (owned x @ hs) k hs (release x k)" by (rule release_balanced [OF assms])
  have "set (kn_open (release x k)) = unowned hs (release x k) \<union> set hs"
    using balanced_owns [OF b] by (auto simp: unowned_def owns_def)
  also have "\<dots> = unowned (owned x @ hs) k \<union> set hs" using b by (simp add: balanced_def)
  also have "\<dots> = set (kn_open k) - set (owned x)"
    using assms by (auto simp: unowned_def owns_def)
  finally show ?thesis .
qed

lemma release_all:
  "owns (concat (map owned xs) @ hs) k
     \<Longrightarrow> balanced (concat (map owned xs) @ hs) k hs (fold release xs k)"
proof (induction xs arbitrary: k)
  case Nil
  then show ?case by (simp add: balanced_refl)
next
  case (Cons x xs)
  have 1: "balanced (owned x @ (concat (map owned xs) @ hs)) k (concat (map owned xs) @ hs) (release x k)"
    using Cons.prems by (intro release_balanced) simp
  show ?case using balanced_trans [OF 1 Cons.IH [OF balanced_owns [OF 1]]] by simp
qed

end

text \<open>A list of socket variables, as in the destructor-like loops over \<open>INVALID_SOCK\<close> fields.\<close>

lemma handles_map_Some [simp]: "handles (map Some hs) = hs"
  by (induction hs) simp_all

interpretation vars: socket_owner handles close_all
proof
  fix x hs k
  assume "owns (handles x @ hs) k"
  then show "balanced (handles x @ hs) k hs (close_all x k)"
    using close_all_balanced [of x "map Some hs" k] by simp
qed

text \<open>A kernel that grants everything, for witnesses.\<close>

definition all_ok :: "nat \<Rightarrow> sock_answer" where
  "all_ok i = \<lparr>wa_v6 = True, wa_v4 = True, wa_bind = True, wa_name = True, wa_listen = True,
     wa_accept = True, wa_port = word_of_nat (5000 + i)\<rparr>"

lemma all_ok_simps [simp]:
  "wa_v6 (all_ok i)" "wa_bind (all_ok i)" "wa_name (all_ok i)"
  by (simp_all add: all_ok_def)

end
