(* ===== verification/Mirror.thy ===== *)
theory Mirror
  imports Sockets StreamKeys NalUnits H264Sps
begin

text \<open>
  src/airplay/mirror_listener.cpp: the TCP listener of a mirror stream, its accept loop, and the
  reader that takes frames from the socket, decrypts them, converts them and hands them to the
  decoder. The decoder (h264_decoder.cpp over FFmpeg) is a record of operations. The counters that
  are only logged are left out.
\<close>

section \<open>Receiving exactly \<open>len\<close> bytes\<close>

text \<open>What the next calls of recv deliver: a block, a timeout, the end of the stream, an error. When
  the list is exhausted the running flag has been cleared.\<close>

datatype recv_event = Got bytes | Quiet | Gone | Broken

datatype recv_result = Full bytes | PeerClosed | RecvError

fun recv_exact :: "nat \<Rightarrow> bytes \<Rightarrow> recv_event list \<Rightarrow> recv_result \<times> recv_event list" where
  "recv_exact len got evs =
     (if length got \<ge> len then (Full got, evs)
      else case evs of
             [] \<Rightarrow> (RecvError, [])
           | Quiet # rest \<Rightarrow> recv_exact len got rest
           | Gone # rest \<Rightarrow> (PeerClosed, rest)
           | Broken # rest \<Rightarrow> (RecvError, rest)
           | Got b # rest \<Rightarrow>
               (if b = [] then (PeerClosed, rest)
                else let n = len - length got
                     in if length b \<le> n then recv_exact len (got @ b) rest
                        else (Full (got @ take n b), Got (drop n b) # rest)))"

declare recv_exact.simps [simp del]

fun unread :: "recv_event list \<Rightarrow> nat" where
  "unread [] = 0"
| "unread (Got b # evs) = length b + unread evs"
| "unread (_ # evs) = unread evs"

lemma recv_exact_event [simp]:
  "len \<le> length got \<Longrightarrow> recv_exact len got evs = (Full got, evs)"
  "length got < len \<Longrightarrow> recv_exact len got [] = (RecvError, [])"
  "length got < len \<Longrightarrow> recv_exact len got (Quiet # evs) = recv_exact len got evs"
  "length got < len \<Longrightarrow> recv_exact len got (Gone # evs) = (PeerClosed, evs)"
  "length got < len \<Longrightarrow> recv_exact len got (Broken # evs) = (RecvError, evs)"
  "length got < len \<Longrightarrow> recv_exact len got (Got [] # evs) = (PeerClosed, evs)"
  "length (got @ b) \<le> len \<Longrightarrow> b \<noteq> [] \<Longrightarrow> recv_exact len got (Got b # evs) = recv_exact len (got @ b) evs"
  "length got < len \<Longrightarrow> len < length (got @ b) \<Longrightarrow>
     recv_exact len got (Got b # evs) = (Full (got @ take (len - length got) b), Got (drop (len - length got) b) # evs)"
  by (subst recv_exact.simps; use length_greater_0_conv [of b] in \<open>auto simp: Let_def\<close>)+

lemma recv_exact_unread:
  "recv_exact len got evs = (Full b, evs') \<Longrightarrow> length got \<le> len \<Longrightarrow>
     length b = len \<and> unread evs' + len = unread evs + length got"
proof (induction evs arbitrary: got)
  case Nil
  then show ?case by (cases "length got < len") auto
next
  case (Cons e evs)
  show ?case
  proof (cases "length got < len")
    case True
    show ?thesis
    proof (cases e)
      case (Got c)
      show ?thesis
      proof (cases "c = [] \<or> len < length (got @ c)")
        case True
        then show ?thesis using Cons.prems Got \<open>length got < len\<close> by (cases "c = []") auto
      next
        case False
        then show ?thesis using Cons.IH [of "got @ c"] Cons.prems Got by simp
      qed
    qed (use Cons True in simp_all)
  qed (use Cons.prems in auto)
qed

lemma recv_exact_consumes: "(Full b, evs') = recv_exact len [] evs \<Longrightarrow> unread evs = unread evs' + len"
  using recv_exact_unread [of len "[]" evs b evs'] by simp

section \<open>The frame header\<close>

definition header_size :: nat where "header_size = 128"
definition max_payload :: nat where "max_payload = 2000000"

definition frame_video_non_idr :: u16 where "frame_video_non_idr = 0x0000"
definition frame_video_idr :: u16 where "frame_video_idr = 0x0010"
definition frame_sps_pps :: u16 where "frame_sps_pps = 0x0100"
definition frame_heartbeat :: u16 where "frame_heartbeat = 0x0200"
definition frame_stream_report :: u16 where "frame_stream_report = 0x0500"

lemmas frame_types = frame_video_non_idr_def frame_video_idr_def frame_sps_pps_def
  frame_heartbeat_def frame_stream_report_def

definition get_u32_le :: "bytes \<Rightarrow> nat \<Rightarrow> u32" where
  "get_u32_le b off = le32 (b ! off) (b ! (off + 1)) (b ! (off + 2)) (b ! (off + 3))"

definition get_u64_le :: "bytes \<Rightarrow> nat \<Rightarrow> u64" where
  "get_u64_le b off = be_fold (rev (substr b off 8))"

record frame_head =
  fh_size :: u32
  fh_type :: u16
  fh_opt :: u16
  fh_ts :: u64

definition parse_frame_head :: "bytes \<Rightarrow> frame_head" where
  "parse_frame_head h =
     \<lparr>fh_size = get_u32_le h 0, fh_type = be16 (h ! 4) (h ! 5), fh_opt = be16 (h ! 6) (h ! 7),
      fh_ts = get_u64_le h 8\<rparr>"

section \<open>The report on a configuration frame\<close>

datatype config_report =
  ConfigTooShort | NoSps | BadSpsLength | SpsUnparsed | H264Config sps_info
| HevcWrapped | AvcWrapped | UnknownConfig

definition find_inner_box_offset :: "bytes \<Rightarrow> string \<Rightarrow> nat option" where
  "find_inner_box_offset payload fourcc = map_option (\<lambda>i. i + 4) (find_from (to_bytes fourcc) payload 4)"

text \<open>The second result says whether the SPS parser performed a shift that C++ leaves undefined.\<close>

definition describe_config :: "bytes \<Rightarrow> config_report \<times> bool" where
  "describe_config p =
     (if length p < 8 then (ConfigTooShort, False)
      else if p ! 0 = 0x01
      then if p ! 5 AND 0x1f = 0 then (NoSps, False)
           else let sps_len = unat (be16 (p ! 6) (p ! 7))
                in if sps_len = 0 \<or> sps_len + 8 > length p then (BadSpsLength, False)
                   else (case parse_h264_sps (substr p 8 sps_len) of
                           (ok, info, undefined_shift) \<Rightarrow>
                             (if ok then H264Config info else SpsUnparsed, undefined_shift))
      else if find_inner_box_offset p ''hvcC'' \<noteq> None then (HevcWrapped, False)
      else if find_inner_box_offset p ''avcC'' \<noteq> None then (AvcWrapped, False)
      else (UnknownConfig, False))"

section \<open>One frame\<close>

record 'd decoder_ops =
  dx_init :: "bool \<Rightarrow> 'd option"
  dx_params :: "bytes \<Rightarrow> 'd \<Rightarrow> 'd"
  dx_hevc :: "'d \<Rightarrow> bool"
  dx_decode :: "bytes \<Rightarrow> bool \<Rightarrow> 'd \<Rightarrow> bool \<times> 'd"

datatype mirror_effect =
  RecordBytes nat
| ReportConfig config_report
| SetParams bytes
| Decode bytes bool
| PushFrame

record 'd reader =
  re_cipher :: "mirror_cipher option"
  re_decoder :: "'d option"
  re_configs :: nat

definition config_stage ::
  "'d decoder_ops \<Rightarrow> frame_head \<Rightarrow> bytes \<Rightarrow> 'd reader \<Rightarrow> mirror_effect list \<times> 'd reader" where
  "config_stage ops fh payload st =
     (if fh_type fh \<noteq> frame_sps_pps then ([], st)
      else let st1 = st\<lparr>re_configs := re_configs st + 1\<rparr>
           in if payload = [] then ([], st1)
              else let report = (if re_configs st1 = 1 then [ReportConfig (fst (describe_config payload))] else [])
                   in case re_decoder st1 of
                        None \<Rightarrow> (report, st1)
                      | Some d \<Rightarrow> (report @ [SetParams payload], st1\<lparr>re_decoder := Some (dx_params ops payload d)\<rparr>))"

definition nal_codec_of :: "'d decoder_ops \<Rightarrow> 'd option \<Rightarrow> nal_codec" where
  "nal_codec_of ops dec = (case dec of None \<Rightarrow> H264 | Some d \<Rightarrow> if dx_hevc ops d then HEVC else H264)"

definition decode_stage ::
  "'d decoder_ops \<Rightarrow> bool \<Rightarrow> bool \<Rightarrow> bytes \<Rightarrow> 'd reader \<Rightarrow> mirror_effect list \<times> 'd reader" where
  "decode_stage ops renderer is_idr annexb st =
     (case re_decoder st of
        None \<Rightarrow> ([], st)
      | Some d \<Rightarrow>
          (let (got_frame, d1) = dx_decode ops annexb is_idr d
           in (Decode annexb is_idr # (if got_frame \<and> renderer then [PushFrame] else []),
               st\<lparr>re_decoder := Some d1\<rparr>)))"

definition video_stage ::
  "'k crypto \<Rightarrow> 'd decoder_ops \<Rightarrow> bool \<Rightarrow> frame_head \<Rightarrow> bytes \<Rightarrow> 'd reader \<Rightarrow> mirror_effect list \<times> 'd reader" where
  "video_stage cy ops renderer fh payload st =
     (if \<not> (fh_type fh = frame_video_idr \<or> fh_type fh = frame_video_non_idr) then ([], st)
      else case re_cipher st of
             None \<Rightarrow> ([], st)
           | Some mc \<Rightarrow>
               (if length payload < 5 then ([], st)
                else let (r, mc1) = mirror_decrypt cy payload mc; st1 = st\<lparr>re_cipher := Some mc1\<rparr>
                     in case r of
                          None \<Rightarrow> ([], st1)
                        | Some clear \<Rightarrow>
                            (let (ok, annexb, nals) = parse_nals_avcc_to_annexb (nal_codec_of ops (re_decoder st1)) clear
                             in if \<not> ok then ([], st1)
                                else decode_stage ops renderer (fh_type fh = frame_video_idr) annexb st1)))"

definition frame_step ::
  "'k crypto \<Rightarrow> 'd decoder_ops \<Rightarrow> bool \<Rightarrow> frame_head \<Rightarrow> bytes \<Rightarrow> 'd reader \<Rightarrow> mirror_effect list \<times> 'd reader" where
  "frame_step cy ops renderer fh payload st =
     (let (e1, st1) = config_stage ops fh payload st;
          (e2, st2) = video_stage cy ops renderer fh payload st1
      in ((if renderer then [RecordBytes (header_size + length payload)] else []) @ e1 @ e2, st2))"

section \<open>The reader\<close>

function reader_loop ::
  "'k crypto \<Rightarrow> 'd decoder_ops \<Rightarrow> bool \<Rightarrow> recv_event list \<Rightarrow> 'd reader \<Rightarrow> mirror_effect list \<times> 'd reader" where
  "reader_loop cy ops renderer evs st =
     (case recv_exact header_size [] evs of
        (Full header, evs1) \<Rightarrow>
          (let fh = parse_frame_head header; n = unat (fh_size fh)
           in if n > max_payload then ([], st)
              else case recv_exact n [] evs1 of
                     (Full payload, evs2) \<Rightarrow>
                       (let (e, st1) = frame_step cy ops renderer fh payload st;
                            (es, st2) = reader_loop cy ops renderer evs2 st1
                        in (e @ es, st2))
                   | (PeerClosed, _) \<Rightarrow> ([], st)
                   | (RecvError, _) \<Rightarrow> ([], st))
      | (PeerClosed, _) \<Rightarrow> ([], st)
      | (RecvError, _) \<Rightarrow> ([], st))"
  by pat_completeness auto
termination
  by (relation "measure (\<lambda>(cy, ops, renderer, evs, st). unread evs)")
    (auto dest!: recv_exact_consumes simp: header_size_def)

declare reader_loop.simps [simp del]

section \<open>The listener\<close>

record 'd mirror =
  mi_listen :: "sock option"
  mi_client :: "sock option"
  mi_running :: bool
  mi_cipher :: "mirror_cipher option"
  mi_decoder :: "'d option"
  mi_renderer :: bool

definition new_mirror :: "'d mirror" where
  "new_mirror = \<lparr>mi_listen = None, mi_client = None, mi_running = False, mi_cipher = None,
     mi_decoder = None, mi_renderer = False\<rparr>"

definition attach_renderer :: "bool \<Rightarrow> 'd mirror \<Rightarrow> 'd mirror" where
  "attach_renderer r m = m\<lparr>mi_renderer := r\<rparr>"

definition enable_decrypt ::
  "'k crypto \<Rightarrow> 'd decoder_ops \<Rightarrow> bytes \<Rightarrow> u64 \<Rightarrow> bool \<Rightarrow> 'd mirror \<Rightarrow> bool \<times> 'd mirror" where
  "enable_decrypt cy ops key sid hwaccel m =
     (let (ok, mc) = mirror_init cy key sid \<lparr>mc_ctx = None\<rparr>
      in if \<not> ok then (False, m\<lparr>mi_cipher := None\<rparr>)
         else (True, m\<lparr>mi_cipher := Some mc, mi_decoder := dx_init ops (hwaccel \<and> mi_renderer m)\<rparr>))"

definition start_mirror :: "'d mirror \<Rightarrow> kernel \<Rightarrow> u16 option \<times> 'd mirror \<times> kernel" where
  "start_mirror m k =
     (case open_listener k of
        (None, k1) \<Rightarrow> (None, m\<lparr>mi_listen := None\<rparr>, k1)
      | (Some (s, port), k1) \<Rightarrow> (Some port, m\<lparr>mi_listen := Some s, mi_running := True\<rparr>, k1))"

text \<open>One connection of the accept loop: its socket is published, the reader runs, the socket is
  closed. A second connection waits until the first is over, and continues its key stream.\<close>

definition accept_client :: "'d mirror \<Rightarrow> kernel \<Rightarrow> 'd mirror \<times> kernel" where
  "accept_client m k =
     (if mi_running m \<and> mi_client m = None
      then (let (s, k1) = accept_socket k in (m\<lparr>mi_client := s\<rparr>, k1))
      else (m, k))"

definition serve_client ::
  "'k crypto \<Rightarrow> 'd decoder_ops \<Rightarrow> recv_event list \<Rightarrow> 'd mirror \<Rightarrow> kernel \<Rightarrow> mirror_effect list \<times> 'd mirror \<times> kernel" where
  "serve_client cy ops evs m k =
     (if mi_client m = None then ([], m, k)
      else let (es, st) = reader_loop cy ops (mi_renderer m) evs
                            \<lparr>re_cipher = mi_cipher m, re_decoder = mi_decoder m, re_configs = 0\<rparr>
           in (es, m\<lparr>mi_cipher := re_cipher st, mi_decoder := re_decoder st, mi_client := None\<rparr>,
               close_socket (mi_client m) k))"

text \<open>Stopping wakes the reader, joins the thread, which closes the client it serves, and then
  closes the listener.\<close>

definition stop_mirror :: "'d mirror \<Rightarrow> kernel \<Rightarrow> 'd mirror \<times> kernel" where
  "stop_mirror m k =
     (if \<not> mi_running m then (m, k)
      else (m\<lparr>mi_running := False, mi_client := None, mi_listen := None\<rparr>,
            close_socket (mi_listen m) (close_socket (mi_client m) k)))"

definition mirror_socks :: "'d mirror \<Rightarrow> sock option list" where
  "mirror_socks m = (if mi_running m then [mi_client m, mi_listen m] else [])"

interpretation mirror: socket_owner "\<lambda>m. handles (mirror_socks m)" "\<lambda>m k. snd (stop_mirror m k)"
proof
  fix m :: "'d mirror" and hs k
  assume "owns (handles (mirror_socks m) @ hs) k"
  then show "balanced (handles (mirror_socks m) @ hs) k hs (snd (stop_mirror m k))"
    using close_all_balanced [of "mirror_socks m" "map Some hs" k]
    by (auto simp: mirror_socks_def stop_mirror_def)
qed

lemma start_mirror_balanced:
  assumes "owns hs k" and "\<not> mi_running m" and "mi_client m = None"
  shows "case start_mirror m k of (r, m', k') \<Rightarrow>
    balanced hs k (handles (mirror_socks m') @ hs) k' \<and> (mi_running m' \<longleftrightarrow> r \<noteq> None)"
proof (cases "open_listener k")
  case (Pair r k1)
  then show ?thesis
    using open_listener_balanced [OF assms(1)] assms(2,3)
    by (auto simp: start_mirror_def mirror_socks_def split: option.splits)
qed

lemma accept_client_balanced:
  assumes "owns (handles (mirror_socks m) @ hs) k"
  shows "case accept_client m k of (m', k') \<Rightarrow>
    balanced (handles (mirror_socks m) @ hs) k (handles (mirror_socks m') @ hs) k'"
proof (cases "accept_socket k")
  case (Pair s k1)
  then show ?thesis
    using accept_socket_balanced [OF assms] assms
    by (cases s; cases "mi_listen m") (auto simp: accept_client_def mirror_socks_def balanced_refl)
qed

lemma serve_client_balanced:
  assumes "owns (handles (mirror_socks m) @ hs) k" and "mi_client m \<noteq> None \<Longrightarrow> mi_running m"
  shows "case serve_client cy ops evs m k of (es, m', k') \<Rightarrow>
    balanced (handles (mirror_socks m) @ hs) k (handles (mirror_socks m') @ hs) k'"
proof (cases "mi_client m")
  case None
  then show ?thesis using assms by (simp add: serve_client_def balanced_refl)
next
  case (Some c)
  have "owns (handles (Some c # mi_listen m # map Some hs)) k"
    using assms Some by (cases "mi_listen m") (auto simp: mirror_socks_def)
  then show ?thesis
    using close_socket_balanced [of "Some c" "mi_listen m # map Some hs" k] assms Some
    by (cases "mi_listen m") (auto simp: serve_client_def mirror_socks_def split: prod.splits)
qed

section \<open>What the sender transmits\<close>

text \<open>A session is a list of frames, each with its option bytes, its timestamp and the 112 bytes of
  the header that the receiver does not read. Only video frames are encrypted, all of them with one
  key stream.\<close>

datatype mirror_item = Video bool "bytes list" | Config bytes | Heartbeat | Report bytes

fun item_type :: "mirror_item \<Rightarrow> u16" where
  "item_type (Video idr nals) = (if idr then frame_video_idr else frame_video_non_idr)"
| "item_type (Config p) = frame_sps_pps"
| "item_type Heartbeat = frame_heartbeat"
| "item_type (Report p) = frame_stream_report"

fun item_clear :: "mirror_item \<Rightarrow> bytes" where
  "item_clear (Video idr nals) = avcc_encode nals"
| "item_clear (Config p) = p"
| "item_clear Heartbeat = []"
| "item_clear (Report p) = p"

fun is_video :: "mirror_item \<Rightarrow> bool" where
  "is_video (Video idr nals) = True"
| "is_video _ = False"

definition put_be16 :: "u16 \<Rightarrow> bytes" where
  "put_be16 v = [ucast (drop_bit 8 v), ucast v]"

lemma be16_put [simp]: "be16 (ucast (drop_bit 8 v)) (ucast v) = v"
  by (rule bit_word_eqI) (auto simp: be16_def bit_simps)

definition encode_head :: "nat \<Rightarrow> u16 \<Rightarrow> u16 \<Rightarrow> u64 \<Rightarrow> bytes \<Rightarrow> bytes" where
  "encode_head n type opt ts pad =
     rev (put_be32 (word_of_nat n)) @ put_be16 type @ put_be16 opt @ rev (put_be64 ts) @ pad"

type_synonym sent_frame = "mirror_item \<times> u16 \<times> u64 \<times> bytes"

fun encode_frames :: "(nat \<Rightarrow> byte) \<Rightarrow> nat \<Rightarrow> sent_frame list \<Rightarrow> bytes" where
  "encode_frames ks off [] = []"
| "encode_frames ks off ((item, opt, ts, pad) # rest) =
     (let clear = item_clear item; n = length clear
      in encode_head n (item_type item) opt ts pad
         @ (if is_video item then ctr_xor ks off clear else clear)
         @ encode_frames ks (if is_video item then off + n else off) rest)"

definition wf_sent :: "sent_frame \<Rightarrow> bool" where
  "wf_sent = (\<lambda>(item, opt, ts, pad). length pad = 112 \<and> length (item_clear item) \<le> max_payload
     \<and> (case item of Video idr nals \<Rightarrow> nals \<noteq> [] \<and> list_all wf_nal nals | _ \<Rightarrow> True))"

text \<open>What must come out: for every frame, in order, the configuration or the Annex-B stream of the
  NAL units the sender put in.\<close>

fun deliver ::
  "'d decoder_ops \<Rightarrow> bool \<Rightarrow> sent_frame list \<Rightarrow> nat \<Rightarrow> 'd option \<Rightarrow> mirror_effect list" where
  "deliver ops renderer [] configs d = []"
| "deliver ops renderer ((item, _) # rest) configs d =
     (if renderer then [RecordBytes (128 + length (item_clear item))] else []) @
     (case item of
        Video idr nals \<Rightarrow>
          (case d of
             None \<Rightarrow> deliver ops renderer rest configs None
           | Some x \<Rightarrow>
               (let (got, x1) = dx_decode ops (annexb_encode nals) idr x
                in Decode (annexb_encode nals) idr # (if got \<and> renderer then [PushFrame] else [])
                   @ deliver ops renderer rest configs (Some x1)))
      | Config p \<Rightarrow>
          (if p = [] then deliver ops renderer rest (configs + 1) d
           else (if configs = 0 then [ReportConfig (fst (describe_config p))] else [])
                @ (if d = None then [] else [SetParams p])
                @ deliver ops renderer rest (configs + 1) (map_option (dx_params ops p) d))
      | _ \<Rightarrow> deliver ops renderer rest configs d)"

text \<open>Blocks of any size, with timeouts in between, that carry given bytes.\<close>

fun block_data :: "recv_event list \<Rightarrow> bytes" where
  "block_data [] = []"
| "block_data (Got b # evs) = b @ block_data evs"
| "block_data (_ # evs) = block_data evs"

definition benign :: "recv_event list \<Rightarrow> bool" where
  "benign = list_all (\<lambda>e. case e of Got b \<Rightarrow> b \<noteq> [] | Quiet \<Rightarrow> True | _ \<Rightarrow> False)"

lemma benign_simps [simp]:
  "benign []" "benign (Got b # evs) \<longleftrightarrow> b \<noteq> [] \<and> benign evs" "benign (Quiet # evs) = benign evs"
  "\<not> benign (Gone # evs)" "\<not> benign (Broken # evs)"
  by (simp_all add: benign_def)

lemma recv_exact_full:
  "benign evs \<Longrightarrow> length got \<le> len \<Longrightarrow> len \<le> length (got @ block_data evs) \<Longrightarrow>
     \<exists>evs'. recv_exact len got evs = (Full (take len (got @ block_data evs)), evs')
       \<and> benign evs' \<and> block_data evs' = drop len (got @ block_data evs)"
proof (induction evs arbitrary: got)
  case Nil
  then show ?case by simp
next
  case (Cons e evs)
  show ?case
  proof (cases "length got < len")
    case True
    show ?thesis
    proof (cases e)
      case (Got c)
      show ?thesis
      proof (cases "len < length (got @ c)")
        case True
        then show ?thesis using Cons.prems Got \<open>length got < len\<close> by auto
      next
        case False
        then show ?thesis using Cons.IH [of "got @ c"] Cons.prems Got by auto
      qed
    qed (use Cons True in auto)
  qed (use Cons.prems in auto)
qed

lemma recv_exact_short:
  "benign evs \<Longrightarrow> length (got @ block_data evs) < len \<Longrightarrow> fst (recv_exact len got evs) = RecvError"
proof (induction evs arbitrary: got)
  case (Cons e evs)
  then show ?case by (cases e) auto
qed simp

lemma rev_put_be32: "rev (put_be32 v) = [ucast v, ucast (drop_bit 8 v), ucast (drop_bit 16 v), ucast (drop_bit 24 v)]"
  by (simp add: put_be32_def)

lemma parse_encode_head:
  assumes "n < 2 ^ 32"
  shows "parse_frame_head (encode_head n type opt ts pad)
    = \<lparr>fh_size = word_of_nat n, fh_type = type, fh_opt = opt, fh_ts = ts\<rparr>"
proof -
  let ?h = "encode_head n type opt ts pad"
  have "substr ?h 8 8 = rev (put_be64 ts)"
    by (simp add: substr_def encode_head_def rev_put_be32 put_be16_def)
  moreover have "get_u32_le ?h 0 = word_of_nat n"
    by (simp add: get_u32_le_def le32_def encode_head_def rev_put_be32)
  moreover have "?h ! 4 = ucast (drop_bit 8 type)" "?h ! 5 = ucast type"
      "?h ! 6 = ucast (drop_bit 8 opt)" "?h ! 7 = ucast opt"
    by (simp_all add: encode_head_def rev_put_be32 put_be16_def)
  ultimately show ?thesis by (simp add: parse_frame_head_def get_u64_le_def)
qed

lemma length_encode_head [simp]: "length pad = 112 \<Longrightarrow> length (encode_head n type opt ts pad) = header_size"
  by (simp add: encode_head_def put_be16_def header_size_def)

lemma reader_frame:
  assumes "benign evs" and "block_data evs = encode_head n type opt ts pad @ body @ tail"
    and "length pad = 112" and "length body = n" and "n \<le> max_payload"
  shows "\<exists>evs'. benign evs' \<and> block_data evs' = tail
    \<and> reader_loop cy ops renderer evs st
        = (let (e, st1) = frame_step cy ops renderer
                 \<lparr>fh_size = word_of_nat n, fh_type = type, fh_opt = opt, fh_ts = ts\<rparr> body st;
               (es, st2) = reader_loop cy ops renderer evs' st1
           in (e @ es, st2))"
proof -
  obtain evs1 where 1: "recv_exact header_size [] evs = (Full (encode_head n type opt ts pad), evs1)"
      "benign evs1" "block_data evs1 = body @ tail"
    using recv_exact_full [OF assms(1), of "[]" header_size] assms(2,3) by auto
  obtain evs2 where 2: "recv_exact n [] evs1 = (Full body, evs2)" "benign evs2" "block_data evs2 = tail"
    using recv_exact_full [OF 1(2), of "[]" n] 1(3) assms(4) by auto
  have n: "n < 2 ^ 32" "unat (word_of_nat n :: u32) = n"
    using assms(5) by (simp_all add: max_payload_def unat_of_nat)
  show ?thesis
    using 1 2 assms(5) n by (intro exI [of _ evs2]) (subst reader_loop.simps; simp add: parse_encode_head)
qed

lemma reader_end:
  assumes "benign evs" and "block_data evs = []"
  shows "reader_loop cy ops renderer evs st = ([], st)"
proof -
  have "fst (recv_exact header_size [] evs) = RecvError"
    by (rule recv_exact_short) (use assms in \<open>simp_all add: header_size_def\<close>)
  then show ?thesis
    by (subst reader_loop.simps) (auto split: prod.split recv_result.split)
qed

lemma video_stage_plain:
  "fh_type fh \<noteq> frame_video_idr \<Longrightarrow> fh_type fh \<noteq> frame_video_non_idr \<Longrightarrow>
     video_stage cy ops renderer fh payload st = ([], st)"
  by (simp add: video_stage_def)

lemma config_stage_plain: "fh_type fh \<noteq> frame_sps_pps \<Longrightarrow> config_stage ops fh payload st = ([], st)"
  by (simp add: config_stage_def)

lemma avcc_length_ge_5:
  assumes "nals \<noteq> []" and "list_all wf_nal nals"
  shows "5 \<le> length (avcc_encode nals)"
  using assms by (cases nals) (auto simp: avcc_encode_def wf_nal_def Suc_le_eq)

lemma video_stage_sent:
  assumes "lawful_crypto cy valid" and "re_cipher st = Some mc" and "mc_ctx mc = Some (ks, off)"
    and "nals \<noteq> []" and "list_all wf_nal nals"
    and "fh_type fh = (if idr then frame_video_idr else frame_video_non_idr)"
  shows "video_stage cy ops renderer fh (ctr_xor ks off (avcc_encode nals)) st
    = decode_stage ops renderer idr (annexb_encode nals)
        (st\<lparr>re_cipher := Some (mc\<lparr>mc_ctx := Some (ks, off + length (avcc_encode nals))\<rparr>)\<rparr>)"
proof -
  note len = avcc_length_ge_5 [OF assms(4,5)]
  then have ne: "avcc_encode nals \<noteq> []" by auto
  have d: "mirror_decrypt cy (ctr_xor ks off (avcc_encode nals)) mc
      = (Some (avcc_encode nals), mc\<lparr>mc_ctx := Some (ks, off + length (avcc_encode nals))\<rparr>)"
    using assms(3) lawful_update [OF assms(1)] ne length_ctr_xor [of ks off "avcc_encode nals"]
    by (auto simp: mirror_decrypt_def simp del: length_ctr_xor)
  have p: "parse_nals_avcc_to_annexb codec (avcc_encode nals) = (True, annexb_encode nals, units_from codec 0 nals)"
    for codec
    using nal_loop_encode [of nals codec "[]" "[]"] assms(5)
    by (simp add: parse_nals_avcc_to_annexb_def list_all_iff)
  show ?thesis
    using d len assms(2,6) by (auto simp: video_stage_def p frame_types Let_def)
qed

lemma reader_delivers:
  assumes "lawful_crypto cy valid" and "list_all wf_sent frames" and "benign evs"
    and "block_data evs = encode_frames ks off frames"
    and "re_cipher st = Some mc" and "mc_ctx mc = Some (ks, off)"
  shows "fst (reader_loop cy ops renderer evs st) = deliver ops renderer frames (re_configs st) (re_decoder st)"
  using assms(2-)
proof (induction frames arbitrary: evs st mc off)
  case Nil
  then show ?case by (simp add: reader_end)
next
  case (Cons f frames)
  obtain item opt ts pad where f: "f = (item, opt, ts, pad)" by (cases f)
  define clear where "clear = item_clear item"
  define body where "body = (if is_video item then ctr_xor ks off clear else clear)"
  define off1 where "off1 = (if is_video item then off + length clear else off)"
  define fh where "fh = \<lparr>fh_size = word_of_nat (length clear), fh_type = item_type item, fh_opt = opt, fh_ts = ts\<rparr>"
  have wf: "length pad = 112" "length clear \<le> max_payload" "length body = length clear"
    using Cons.prems(1) f by (simp_all add: wf_sent_def clear_def body_def)
  have data: "block_data evs = encode_head (length clear) (item_type item) opt ts pad @ body @ encode_frames ks off1 frames"
    using Cons.prems(3) by (simp add: f Let_def clear_def body_def off1_def)
  obtain evs' where evs': "benign evs'" "block_data evs' = encode_frames ks off1 frames"
      "reader_loop cy ops renderer evs st
        = (let (e, st1) = frame_step cy ops renderer fh body st; (es, st2) = reader_loop cy ops renderer evs' st1
           in (e @ es, st2))"
    using reader_frame [OF Cons.prems(2) data wf(1,3,2), of cy ops renderer st] unfolding fh_def by blast
  have IH: "fst (reader_loop cy ops renderer evs' s) = deliver ops renderer frames (re_configs s) (re_decoder s)"
    if "re_cipher s = Some m" "mc_ctx m = Some (ks, off1)" for s m
    using Cons.IH [OF _ evs'(1,2) that] Cons.prems(1) by simp
  have run: "fst (reader_loop cy ops renderer evs st)
      = fst (frame_step cy ops renderer fh body st)
        @ fst (reader_loop cy ops renderer evs' (snd (frame_step cy ops renderer fh body st)))"
    by (simp add: evs'(3) Let_def case_prod_beta)
  show ?case
  proof (cases item)
    case (Video idr nals)
    let ?mc = "mc\<lparr>mc_ctx := Some (ks, off + length (avcc_encode nals))\<rparr>"
    have w: "nals \<noteq> []" "list_all wf_nal nals" using Cons.prems(1) f Video by (simp_all add: wf_sent_def)
    have "video_stage cy ops renderer fh body st
        = decode_stage ops renderer idr (annexb_encode nals) (st\<lparr>re_cipher := Some ?mc\<rparr>)"
      using video_stage_sent [OF assms(1) Cons.prems(4,5) w, of fh idr ops renderer] Video
      by (simp add: body_def clear_def fh_def)
    moreover have "config_stage ops fh body st = ([], st)"
      using Video by (intro config_stage_plain) (auto simp: fh_def frame_types)
    ultimately have fs: "frame_step cy ops renderer fh body st
        = (let (e, s) = decode_stage ops renderer idr (annexb_encode nals) (st\<lparr>re_cipher := Some ?mc\<rparr>)
           in ((if renderer then [RecordBytes (128 + length (avcc_encode nals))] else []) @ e, s))"
      using wf(3) Video by (simp add: frame_step_def header_size_def clear_def Let_def case_prod_beta)
    show ?thesis
      unfolding run fs using Video f IH [where m = ?mc]
      by (cases "re_decoder st") (auto simp: decode_stage_def Let_def case_prod_beta off1_def clear_def)
  next
    case (Config p)
    have "video_stage cy ops renderer fh body s = ([], s)" for s
      using Config by (intro video_stage_plain) (auto simp: fh_def frame_types)
    then show ?thesis
      unfolding run using Config f IH [where m = mc] Cons.prems(4,5)
      by (cases "re_decoder st")
        (auto simp: frame_step_def config_stage_def header_size_def Let_def case_prod_beta fh_def
          off1_def clear_def body_def)
  next
    case Heartbeat
    have "video_stage cy ops renderer fh body s = ([], s)" "config_stage ops fh body s = ([], s)" for s
      using Heartbeat by (intro video_stage_plain config_stage_plain; auto simp: fh_def frame_types)+
    then show ?thesis
      unfolding run using Heartbeat f IH [where m = mc] Cons.prems(4,5)
      by (simp add: frame_step_def header_size_def off1_def clear_def body_def)
  next
    case (Report p)
    have "video_stage cy ops renderer fh body s = ([], s)" "config_stage ops fh body s = ([], s)" for s
      using Report by (intro video_stage_plain config_stage_plain; auto simp: fh_def frame_types)+
    then show ?thesis
      unfolding run using Report f IH [where m = mc] Cons.prems(4,5)
      by (simp add: frame_step_def header_size_def off1_def clear_def body_def)
  qed
qed

section \<open>Properties\<close>

text \<open>End to end, a mirror session arrives as it was sent: with the key of the session set up,
  whatever the sizes of the blocks recv returns and the timeouts between them, the decoder gets the
  configurations and exactly the Annex-B form of the NAL units of every frame, in order, and the
  renderer is fed after each decoded picture.\<close>

theorem mirror_session_delivered:
  assumes "lawful_crypto cy valid" and "length key = 16"
    and "sha512_first_16 cy (mirror_salt ''AirPlayStreamKey'' sid) key = Some k"
    and "sha512_first_16 cy (mirror_salt ''AirPlayStreamIV'' sid) key = Some iv"
    and "aes_ctr_init cy k iv = Keystream ks"
    and "list_all wf_sent frames" and "benign evs" and "block_data evs = encode_frames ks 0 frames"
  shows "\<exists>m1. enable_decrypt cy ops key sid hwaccel m = (True, m1)
    \<and> fst (serve_client cy ops evs (m1\<lparr>mi_client := Some c\<rparr>) kn)
        = deliver ops (mi_renderer m) frames 0 (dx_init ops (hwaccel \<and> mi_renderer m))"
proof -
  have init: "mirror_init cy key sid \<lparr>mc_ctx = None\<rparr> = (True, \<lparr>mc_ctx = Some (ks, 0)\<rparr>)"
    using assms(2-5) by (simp add: mirror_init_def)
  show ?thesis
    using reader_delivers [OF assms(1,6,7,8), of "\<lparr>re_cipher = Some \<lparr>mc_ctx = Some (ks, 0)\<rparr>,
        re_decoder = dx_init ops (hwaccel \<and> mi_renderer m), re_configs = 0\<rparr>" "\<lparr>mc_ctx = Some (ks, 0)\<rparr>"
        ops "mi_renderer m"]
    by (simp add: enable_decrypt_def init serve_client_def case_prod_beta)
qed

section \<open>Witnesses\<close>

definition counting_decoder :: "nat decoder_ops" where
  "counting_decoder = \<lparr>dx_init = (\<lambda>hw. Some 0), dx_params = (\<lambda>p d. d + 1), dx_hevc = (\<lambda>d. False),
     dx_decode = (\<lambda>p idr d. (idr, d + 1))\<rparr>"

definition sample_frames :: "sent_frame list" where
  "sample_frames = [(Config [2, 3], 0, 5, replicate 112 0), (Heartbeat, 0, 6, replicate 112 0),
     (Video True [[0x65, 1], [0x41]], 0x1602, 7, replicate 112 0)]"

theorem mirror_session_delivered_witness:
  "\<exists>m1 ks. enable_decrypt plain_crypto counting_decoder (replicate 16 1) 9 True (new_mirror\<lparr>mi_renderer := True\<rparr>) = (True, m1)
    \<and> fst (serve_client plain_crypto counting_decoder [Quiet, Got (encode_frames ks 0 sample_frames)]
             (m1\<lparr>mi_client := Some 4\<rparr>) (boot all_ok))
        = [RecordBytes 130, ReportConfig ConfigTooShort, SetParams [2, 3], RecordBytes 128,
           RecordBytes 139, Decode [0, 0, 0, 1, 0x65, 1, 0, 0, 0, 1, 0x41] True, PushFrame]"
proof -
  let ?key = "replicate 16 1 :: bytes"
  obtain k iv ks where d: "sha512_first_16 plain_crypto (mirror_salt ''AirPlayStreamKey'' 9) ?key = Some k"
      "sha512_first_16 plain_crypto (mirror_salt ''AirPlayStreamIV'' 9) ?key = Some iv"
      "aes_ctr_init plain_crypto k iv = Keystream ks"
    using mirror_init_lawful [OF plain_crypto_lawful, of ?key 9 "\<lparr>mc_ctx = None\<rparr>"] by fastforce
  have wf: "list_all wf_sent sample_frames"
    by (simp add: sample_frames_def wf_sent_def max_payload_def wf_nal_def avcc_encode_def)
  have ev: "benign [Quiet, Got (encode_frames ks 0 sample_frames)]"
      "block_data [Quiet, Got (encode_frames ks 0 sample_frames)] = encode_frames ks 0 sample_frames"
    by (simp_all add: sample_frames_def Let_def encode_head_def rev_put_be32)
  show ?thesis
    using mirror_session_delivered [OF plain_crypto_lawful _ d wf ev, of counting_decoder True
        "new_mirror\<lparr>mi_renderer := True\<rparr>" 4 "boot all_ok"]
    by (auto simp: sample_frames_def counting_decoder_def describe_config_def annexb_encode_def
        avcc_encode_def intro!: exI [of _ ks])
qed

end
