(* ===== verification/Streams.thy ===== *)
theory Streams
  imports Mirror Audio NtpClock
begin

text \<open>
  src/airplay/streams.cpp: the session object behind SETUP, FLUSH, RECORD and TEARDOWN. It owns every
  socket bound for one control connection, the mirror listener, the NTP client and the audio
  receiver, and carries the saved tail of a paused audio stream over to the next one. Also the start
  and stop of src/airplay/ntp_client.cpp. Where the source keeps a pointer to a worker object the
  model keeps the object; the operations of the workers are those of the theories \<open>Mirror\<close> and
  \<open>Audio\<close>.
\<close>

section \<open>Ports of a legacy SETUP\<close>

text \<open>The digits are accumulated in 16 bits, so that a larger number wraps around.\<close>

definition pick_port :: "string \<Rightarrow> string \<Rightarrow> u16" where
  "pick_port hdr key =
     (case find_str key hdr of
        None \<Rightarrow> 0
      | Some i \<Rightarrow>
          (let pos = i + length key
           in if pos \<ge> length hdr \<or> hdr ! pos \<noteq> CHR ''='' then 0
              else foldl (\<lambda>v c. v * 10 + word_of_nat (digit_val c)) 0 (takeWhile isdigit (drop (pos + 1) hdr))))"

record stream_ports =
  sp_server :: u16
  sp_control :: u16
  sp_timing :: u16

record stream_channel =
  ch_type :: int
  ch_data_port :: u16
  ch_control_port :: u16
  ch_data :: "sock option"
  ch_control :: "sock option"

section \<open>The NTP client object\<close>

record ntp_link =
  nl_sock :: "sock option"
  nl_ip :: string
  nl_port :: u16
  nl_clock :: ntp_clock
  nl_running :: bool

definition idle_link :: ntp_link where
  "idle_link = \<lparr>nl_sock = None, nl_ip = [], nl_port = 0, nl_clock = new_clock, nl_running = False\<rparr>"

definition ntp_start :: "sock option \<Rightarrow> string \<Rightarrow> u16 \<Rightarrow> ntp_link \<Rightarrow> bool \<times> ntp_link" where
  "ntp_start s ip port n =
     (if s = None then (False, n)
      else (True, n\<lparr>nl_sock := s, nl_ip := ip, nl_port := port, nl_clock := new_clock, nl_running := True\<rparr>))"

definition ntp_stop :: "ntp_link \<Rightarrow> ntp_link" where
  "ntp_stop n = n\<lparr>nl_running := False\<rparr>"

section \<open>The audio receiver object\<close>

text \<open>The receiver of \<open>Audio\<close> with the sockets it uses: the data socket is its own, the control
  socket is borrowed from the session.\<close>

record receiver =
  rc_data :: sock
  rc_control :: sock
  rc_audio :: audio

definition receiver_socks :: "receiver \<Rightarrow> sock option list" where
  "receiver_socks r = [if ac_data_sock (au_cfg (rc_audio r)) then Some (rc_data r) else None]"

definition stop_receiver :: "receiver \<Rightarrow> kernel \<Rightarrow> receiver \<times> kernel" where
  "stop_receiver r k =
     (let a = stop_audio (rc_audio r)
      in (r\<lparr>rc_audio := a\<rparr>,
          if au_running (rc_audio r) then close_socket (hd (receiver_socks r)) k else k))"

definition suspend_receiver :: "receiver \<Rightarrow> kernel \<Rightarrow> pause_state \<times> receiver \<times> kernel" where
  "suspend_receiver r k =
     (let (p, a) = suspend (rc_audio r)
      in (p, r\<lparr>rc_audio := a\<rparr>, close_socket (hd (receiver_socks r)) k))"

section \<open>The session\<close>

record 'd streams =
  ss_client :: stream_ports
  ss_data :: "sock option"
  ss_ctrl :: "sock option"
  ss_timing :: "sock option"
  ss_event :: "sock option"
  ss_ap2_timing :: "sock option"
  ss_channels :: "stream_channel list"
  ss_mirror :: "'d mirror option"
  ss_ntp :: "ntp_link option"
  ss_audio :: "receiver option"
  ss_renderer :: bool
  ss_audio_control :: bool
  ss_paused :: pause_state
  ss_track :: string
  ss_id :: string

definition new_streams :: "string \<Rightarrow> 'd streams" where
  "new_streams sid =
     \<lparr>ss_client = \<lparr>sp_server = 0, sp_control = 0, sp_timing = 0\<rparr>, ss_data = None, ss_ctrl = None,
      ss_timing = None, ss_event = None, ss_ap2_timing = None, ss_channels = [], ss_mirror = None,
      ss_ntp = None, ss_audio = None, ss_renderer = False, ss_audio_control = False,
      ss_paused = no_pause, ss_track = [], ss_id = sid\<rparr>"

definition set_renderer :: "bool \<Rightarrow> 'd streams \<Rightarrow> 'd streams" where
  "set_renderer r s = s\<lparr>ss_renderer := r\<rparr>"

text \<open>The outcome of the calls into the audio libraries and the reading of the clock.\<close>

record audio_env =
  ae_aes :: bool
  ae_decoder :: bool
  ae_sink :: bool
  ae_now :: int

record stream_opts =
  so_aes_key :: bytes
  so_aes_iv :: bytes
  so_connection :: u64
  so_ct :: int
  so_rate :: int
  so_hwaccel :: bool

definition drop_mirror :: "'d streams \<Rightarrow> kernel \<Rightarrow> 'd streams \<times> kernel" where
  "drop_mirror s k =
     (case ss_mirror s of
        None \<Rightarrow> (s, k)
      | Some m \<Rightarrow> (s\<lparr>ss_mirror := None\<rparr>, snd (stop_mirror m k)))"

definition drop_audio :: "'d streams \<Rightarrow> kernel \<Rightarrow> 'd streams \<times> kernel" where
  "drop_audio s k =
     (case ss_audio s of
        None \<Rightarrow> (s, k)
      | Some r \<Rightarrow> (s\<lparr>ss_audio := None\<rparr>, snd (stop_receiver r k)))"

definition channel_socks :: "stream_channel list \<Rightarrow> sock option list" where
  "channel_socks chs = concat (map (\<lambda>c. [ch_data c, ch_control c]) chs)"

definition session_vars :: "'d streams \<Rightarrow> sock option list" where
  "session_vars s = [ss_data s, ss_ctrl s, ss_timing s, ss_event s, ss_ap2_timing s]"

definition teardown :: "'d streams \<Rightarrow> kernel \<Rightarrow> 'd streams \<times> kernel" where
  "teardown s0 k0 =
     (let s1 = s0\<lparr>ss_audio_control := False, ss_paused := no_pause, ss_track := []\<rparr>;
          (s2, k1) = drop_mirror s1 k0;
          (s3, k2) = drop_audio s2 k1;
          s4 = s3\<lparr>ss_ntp := None\<rparr>;
          k3 = close_all (session_vars s4) k2;
          s5 = s4\<lparr>ss_data := None, ss_ctrl := None, ss_timing := None, ss_event := None, ss_ap2_timing := None\<rparr>;
          k4 = close_all (channel_socks (ss_channels s5)) k3
      in (s5\<lparr>ss_channels := []\<rparr>, k4))"

text \<open>One socket variable of a legacy SETUP: bound when it is wanted, with port 0 when it is not.\<close>

definition bind_into ::
  "bool \<Rightarrow> (sock \<Rightarrow> 'd streams \<Rightarrow> 'd streams) \<Rightarrow> 'd streams \<Rightarrow> kernel \<Rightarrow> u16 option \<times> 'd streams \<times> kernel" where
  "bind_into wanted put s k =
     (if \<not> wanted then (Some 0, s, k)
      else case bind_udp k of
             (None, k1) \<Rightarrow> (None, s, k1)
           | (Some (h, port), k1) \<Rightarrow> (Some port, put h s, k1))"

definition setup_legacy :: "string \<Rightarrow> 'd streams \<Rightarrow> kernel \<Rightarrow> stream_ports option \<times> 'd streams \<times> kernel" where
  "setup_legacy transport s0 k0 =
     (let s1 = s0\<lparr>ss_client := \<lparr>sp_server = pick_port transport ''server_port'',
                                sp_control = pick_port transport ''control_port'',
                                sp_timing = pick_port transport ''timing_port''\<rparr>\<rparr>
      in case bind_into True (\<lambda>h s. s\<lparr>ss_data := Some h\<rparr>) s1 k0 of
           (None, s2, k1) \<Rightarrow> (None, s2, k1)
         | (Some server, s2, k1) \<Rightarrow>
             (case bind_into (sp_control (ss_client s2) \<noteq> 0) (\<lambda>h s. s\<lparr>ss_ctrl := Some h\<rparr>) s2 k1 of
                (None, s3, k2) \<Rightarrow> (None, teardown s3 k2)
              | (Some control, s3, k2) \<Rightarrow>
                  (case bind_into (sp_timing (ss_client s3) \<noteq> 0) (\<lambda>h s. s\<lparr>ss_timing := Some h\<rparr>) s3 k2 of
                     (None, s4, k3) \<Rightarrow> (None, teardown s4 k3)
                   | (Some timing, s4, k3) \<Rightarrow>
                       (Some \<lparr>sp_server = server, sp_control = control, sp_timing = timing\<rparr>, s4, k3))))"

text \<open>The first SETUP of AirPlay 2; the ports of the event and the timing socket.\<close>

definition setup_session :: "'d streams \<Rightarrow> kernel \<Rightarrow> (u16 \<times> u16) option \<times> 'd streams \<times> kernel" where
  "setup_session s k0 =
     (case bind_udp k0 of
        (None, k1) \<Rightarrow> (None, s, k1)
      | (Some (e, eport), k1) \<Rightarrow>
          (case bind_udp k1 of
             (None, k2) \<Rightarrow> (None, s, close_socket (Some e) k2)
           | (Some (t, tport), k2) \<Rightarrow>
               (Some (eport, tport), s\<lparr>ss_event := Some e, ss_ap2_timing := Some t\<rparr>, k2)))"

section \<open>Streams\<close>

definition add_channel :: "stream_channel \<Rightarrow> 'd streams \<Rightarrow> 'd streams" where
  "add_channel c s = s\<lparr>ss_channels := ss_channels s @ [c]\<rparr>"

definition with_audio :: "(audio \<Rightarrow> audio) \<Rightarrow> 'd streams \<Rightarrow> 'd streams" where
  "with_audio f s = s\<lparr>ss_audio := map_option (\<lambda>r. r\<lparr>rc_audio := f (rc_audio r)\<rparr>) (ss_audio s)\<rparr>"

definition fresh_mirror :: "'k crypto \<Rightarrow> 'd decoder_ops \<Rightarrow> stream_opts \<Rightarrow> bool \<Rightarrow> 'd mirror" where
  "fresh_mirror cy ops opts renderer =
     (let m1 = (if renderer then attach_renderer True new_mirror else new_mirror)
      in if so_aes_key opts \<noteq> [] \<and> so_connection opts \<noteq> 0
         then snd (enable_decrypt cy ops (so_aes_key opts) (so_connection opts) (so_hwaccel opts) m1)
         else m1)"

definition setup_mirror ::
  "'k crypto \<Rightarrow> 'd decoder_ops \<Rightarrow> audio_env \<Rightarrow> stream_opts \<Rightarrow> 'd streams \<Rightarrow> kernel
     \<Rightarrow> (u16 \<times> u16) option \<times> 'd streams \<times> kernel" where
  "setup_mirror cy ops env opts s0 k0 =
     (let (s1, k1) = drop_mirror s0 k0
      in case start_mirror (fresh_mirror cy ops opts (ss_renderer s1)) k1 of
           (None, m, k2) \<Rightarrow> (None, s1, k2)
         | (Some p, m, k2) \<Rightarrow>
             (Some (p, 0),
              add_channel \<lparr>ch_type = 110, ch_data_port = p, ch_control_port = 0, ch_data = None, ch_control = None\<rparr>
                (with_audio (set_synchronized (ae_now env) False) (s1\<lparr>ss_mirror := Some m\<rparr>)), k2))"

definition audio_config_of :: "stream_opts \<Rightarrow> 'd streams \<Rightarrow> audio_config" where
  "audio_config_of opts s =
     \<lparr>ac_data_sock = True, ac_control_sock = True, ac_ntp = (ss_ntp s \<noteq> None),
      ac_synchronize = (ss_mirror s = None), ac_preserve = True, ac_aes_key = so_aes_key opts,
      ac_aes_iv = so_aes_iv opts, ac_rate = so_rate opts, ac_renderer = ss_renderer s\<rparr>"

text \<open>The default configuration of a receiver that has not been started.\<close>

definition default_config :: audio_config where
  "default_config = \<lparr>ac_data_sock = False, ac_control_sock = False, ac_ntp = False, ac_synchronize = False,
     ac_preserve = True, ac_aes_key = [], ac_aes_iv = [], ac_rate = 44100, ac_renderer = False\<rparr>"

text \<open>The paused tail is moved into the receiver, started or not. When the receiver does not start
  the session closes its data socket; the channel is recorded all the same.\<close>

definition start_receiver ::
  "audio_env \<Rightarrow> stream_opts \<Rightarrow> sock \<Rightarrow> sock \<Rightarrow> 'd streams \<Rightarrow> kernel \<Rightarrow> 'd streams \<times> kernel" where
  "start_receiver env opts d c s k =
     (let (ok, a) = start_audio (ae_aes env) (ae_decoder env) (ae_sink env) (audio_config_of opts s)
                      (ss_paused s) (idle_audio default_config);
          s1 = s\<lparr>ss_paused := (ss_paused s)\<lparr>ps_pcm := [], ps_output := False\<rparr>\<rparr>
      in if ok then (s1\<lparr>ss_audio := Some \<lparr>rc_data = d, rc_control = c, rc_audio = a\<rparr>\<rparr>, k)
         else (s1\<lparr>ss_audio := None\<rparr>, close_socket (Some d) k))"

definition setup_udp ::
  "audio_env \<Rightarrow> int \<Rightarrow> stream_opts \<Rightarrow> 'd streams \<Rightarrow> kernel \<Rightarrow> (u16 \<times> u16) option \<times> 'd streams \<times> kernel" where
  "setup_udp env type opts s0 k0 =
     (case bind_udp k0 of
        (None, k1) \<Rightarrow> (None, s0, k1)
      | (Some (d, dport), k1) \<Rightarrow>
          (case bind_udp k1 of
             (None, k2) \<Rightarrow> (None, s0, close_socket (Some d) k2)
           | (Some (c, cport), k2) \<Rightarrow>
               (let ch = \<lparr>ch_type = type, ch_data_port = dport, ch_control_port = cport,
                          ch_data = (if type = 96 then None else Some d), ch_control = Some c\<rparr>
                in if type = 96
                   then (let (s1, k3) = drop_audio s0 k2; (s2, k4) = start_receiver env opts d c s1 k3
                         in (Some (dport, cport), (add_channel ch s2)\<lparr>ss_audio_control := True\<rparr>, k4))
                   else (Some (dport, cport), add_channel ch s0, k2))))"

definition setup_stream ::
  "'k crypto \<Rightarrow> 'd decoder_ops \<Rightarrow> audio_env \<Rightarrow> int \<Rightarrow> stream_opts \<Rightarrow> 'd streams \<Rightarrow> kernel
     \<Rightarrow> (u16 \<times> u16) option \<times> 'd streams \<times> kernel" where
  "setup_stream cy ops env type opts s k =
     (if type = 110 then setup_mirror cy ops env opts s k else setup_udp env type opts s k)"

definition stop_mirror_stream :: "int \<Rightarrow> 'd streams \<Rightarrow> kernel \<Rightarrow> 'd streams \<times> kernel" where
  "stop_mirror_stream now s k =
     (if ss_mirror s = None then (s, k)
      else (let (s1, k1) = drop_mirror s k in (with_audio (set_synchronized now True) s1, k1)))"

definition suspend_audio_stream :: "'d streams \<Rightarrow> kernel \<Rightarrow> 'd streams \<times> kernel" where
  "suspend_audio_stream s k =
     (case ss_audio s of
        None \<Rightarrow> (s, k)
      | Some r \<Rightarrow> (let (p, r1, k1) = suspend_receiver r k in (s\<lparr>ss_paused := p, ss_audio := None\<rparr>, k1)))"

definition close_channels :: "int \<Rightarrow> 'd streams \<Rightarrow> kernel \<Rightarrow> 'd streams \<times> kernel" where
  "close_channels type s k =
     (s\<lparr>ss_channels := filter (\<lambda>c. ch_type c \<noteq> type) (ss_channels s)\<rparr>,
      close_all (channel_socks (filter (\<lambda>c. ch_type c = type) (ss_channels s))) k)"

definition stop_stream :: "int \<Rightarrow> int \<Rightarrow> 'd streams \<Rightarrow> kernel \<Rightarrow> 'd streams \<times> kernel" where
  "stop_stream now type s0 k0 =
     (let (s1, k1) = (if type = 110 then stop_mirror_stream now s0 k0 else (s0, k0));
          (s2, k2) = (if type = 96 then suspend_audio_stream s1 k1 else (s1, k1))
      in close_channels type s2 k2)"

definition start_ntp :: "string \<Rightarrow> u16 \<Rightarrow> 'd streams \<Rightarrow> bool \<times> 'd streams" where
  "start_ntp ip port s =
     (if ss_ap2_timing s = None then (False, s)
      else let n = (case ss_ntp s of None \<Rightarrow> idle_link | Some n \<Rightarrow> ntp_stop n);
               (ok, n1) = ntp_start (ss_ap2_timing s) ip port n
           in (ok, s\<lparr>ss_ntp := Some n1\<rparr>))"

definition flush_audio :: "int \<Rightarrow> u32 option \<Rightarrow> 'd streams \<Rightarrow> 'd streams" where
  "flush_audio now boundary = with_audio (flush now boundary)"

definition resume_audio :: "int \<Rightarrow> 'd streams \<Rightarrow> 'd streams" where
  "resume_audio now = with_audio (resume now)"

definition set_audio_track :: "string \<Rightarrow> 'd streams \<Rightarrow> 'd streams" where
  "set_audio_track track s =
     (let s1 = (if ss_track s \<noteq> [] \<and> track \<noteq> ss_track s
                then with_audio discard_pause (s\<lparr>ss_paused := no_pause\<rparr>) else s)
      in s1\<lparr>ss_track := track\<rparr>)"

definition audio_only :: "'d streams \<Rightarrow> bool" where
  "audio_only s \<longleftrightarrow> ss_mirror s = None
     \<and> (ss_audio_control s \<or> ss_audio s \<noteq> None \<or> list_ex (\<lambda>c. ch_type c = 96) (ss_channels s))"

section \<open>The ledger of a session\<close>

definition session_socks :: "'d streams \<Rightarrow> sock option list" where
  "session_socks s = session_vars s @ channel_socks (ss_channels s)
     @ (case ss_mirror s of None \<Rightarrow> [] | Some m \<Rightarrow> mirror_socks m)
     @ (case ss_audio s of None \<Rightarrow> [] | Some r \<Rightarrow> receiver_socks r)"

definition held :: "'d streams \<Rightarrow> sock list" where
  "held s = handles (session_socks s)"

text \<open>A worker object exists only while it runs, and the control socket an audio receiver borrows is
  that of a channel of its type.\<close>

definition session_ok :: "'d streams \<Rightarrow> bool" where
  "session_ok s \<longleftrightarrow>
     (\<forall>m. ss_mirror s = Some m \<longrightarrow> mi_running m)
   \<and> (\<forall>r. ss_audio s = Some r \<longrightarrow> au_running (rc_audio r) \<and> ac_data_sock (au_cfg (rc_audio r))
        \<and> (\<exists>c\<in>set (ss_channels s). ch_type c = 96 \<and> ch_control c = Some (rc_control r)))"

lemmas held_defs = held_def session_socks_def session_vars_def

lemma channel_socks_simps [simp]:
  "channel_socks [] = []" "channel_socks (c # cs) = ch_data c # ch_control c # channel_socks cs"
  "channel_socks (cs @ ds) = channel_socks cs @ channel_socks ds"
  by (simp_all add: channel_socks_def)

lemma session_vars_update [simp]:
  "session_vars (s\<lparr>ss_mirror := m\<rparr>) = session_vars s" "session_vars (s\<lparr>ss_audio := a\<rparr>) = session_vars s"
  "session_vars (s\<lparr>ss_channels := c\<rparr>) = session_vars s" "session_vars (s\<lparr>ss_ntp := n\<rparr>) = session_vars s"
  "session_vars (s\<lparr>ss_paused := p\<rparr>) = session_vars s" "session_vars (s\<lparr>ss_track := t\<rparr>) = session_vars s"
  "session_vars (s\<lparr>ss_audio_control := b\<rparr>) = session_vars s" "session_vars (s\<lparr>ss_client := x\<rparr>) = session_vars s"
  "session_vars (s\<lparr>ss_renderer := b\<rparr>) = session_vars s"
  by (simp_all add: session_vars_def)

lemmas held_parts = held_def session_socks_def

lemma held_mirror:
  "ss_mirror s = Some m \<Longrightarrow> mset (held s) = mset (handles (mirror_socks m) @ held (s\<lparr>ss_mirror := None\<rparr>))"
  by (simp add: held_parts)

lemma held_audio:
  "ss_audio s = Some r \<Longrightarrow> mset (held s) = mset (handles (receiver_socks r) @ held (s\<lparr>ss_audio := None\<rparr>))"
  by (simp add: held_parts)

lemma drop_mirror_balanced:
  assumes "owns (held s) k" and "drop_mirror s k = (s', k')"
  shows "balanced (held s) k (held s') k'"
proof (cases "ss_mirror s")
  case None
  then show ?thesis using assms by (simp add: drop_mirror_def balanced_refl)
next
  case (Some m)
  have "owns (handles (mirror_socks m) @ held (s\<lparr>ss_mirror := None\<rparr>)) k"
    using assms(1) held_mirror [OF Some] by (metis owns_perm)
  from mirror.release_balanced [OF this] show ?thesis
    using assms(2) Some held_mirror [OF Some] by (auto simp: drop_mirror_def intro: balanced_perm)
qed

interpretation receiver: socket_owner "\<lambda>r. if au_running (rc_audio r) then handles (receiver_socks r) else []"
  "\<lambda>r k. snd (stop_receiver r k)"
proof
  fix r hs k
  assume "owns ((if au_running (rc_audio r) then handles (receiver_socks r) else []) @ hs) k"
  then show "balanced ((if au_running (rc_audio r) then handles (receiver_socks r) else []) @ hs) k hs
      (snd (stop_receiver r k))"
    using close_all_balanced [of "receiver_socks r" "map Some hs" k]
    by (cases "au_running (rc_audio r)"; cases "ac_data_sock (au_cfg (rc_audio r))")
      (simp_all add: stop_receiver_def receiver_socks_def Let_def balanced_refl)
qed

lemma drop_audio_balanced:
  assumes "owns (held s) k" and "session_ok s" and "drop_audio s k = (s', k')"
  shows "balanced (held s) k (held s') k'"
proof (cases "ss_audio s")
  case None
  then show ?thesis using assms by (simp add: drop_audio_def balanced_refl)
next
  case (Some r)
  then have run: "au_running (rc_audio r)" using assms(2) by (simp add: session_ok_def)
  have "owns (handles (receiver_socks r) @ held (s\<lparr>ss_audio := None\<rparr>)) k"
    using assms(1) held_audio [OF Some] by (metis owns_perm)
  then show ?thesis
    using receiver.release_balanced [of r "held (s\<lparr>ss_audio := None\<rparr>)" k] run assms(3) Some held_audio [OF Some]
    by (auto simp: drop_audio_def intro: balanced_perm)
qed

text \<open>TEARDOWN releases everything.\<close>

lemma held_teardown: "held (fst (teardown s k)) = []"
  by (simp add: teardown_def held_defs drop_mirror_def drop_audio_def Let_def split: option.splits)

lemma drop_fields:
  "drop_mirror s k = (s', k') \<Longrightarrow> ss_mirror s' = None \<and> ss_audio s' = ss_audio s \<and> session_vars s' = session_vars s
     \<and> ss_channels s' = ss_channels s \<and> ss_ntp s' = ss_ntp s"
  "drop_audio s k = (s', k') \<Longrightarrow> ss_audio s' = None \<and> ss_mirror s' = ss_mirror s \<and> session_vars s' = session_vars s
     \<and> ss_channels s' = ss_channels s \<and> ss_ntp s' = ss_ntp s"
  by (auto simp: drop_mirror_def drop_audio_def session_vars_def split: option.splits)

lemma teardown_balanced:
  assumes "owns (held s) k" and "session_ok s" and "teardown s k = (s', k')"
  shows "balanced (held s) k [] k'"
proof -
  let ?s1 = "s\<lparr>ss_audio_control := False, ss_paused := no_pause, ss_track := []\<rparr>"
  obtain s2 k1 where m: "drop_mirror ?s1 k = (s2, k1)" by fastforce
  obtain s3 k2 where a: "drop_audio s2 k1 = (s3, k2)" by fastforce
  have h1: "held ?s1 = held s" by (simp add: held_defs)
  have b1: "balanced (held s) k (held s2) k1"
    using drop_mirror_balanced [OF _ m] assms(1) h1 by simp
  have "session_ok s2" using assms(2) drop_fields(1) [OF m] by (auto simp: session_ok_def)
  note b2 = drop_audio_balanced [OF balanced_owns [OF b1] this a]
  have h3: "held s3 = handles (session_vars s3 @ channel_socks (ss_channels s3))"
    using drop_fields(1) [OF m] drop_fields(2) [OF a] by (simp add: held_def session_socks_def)
  have k': "k' = close_all (session_vars s3 @ channel_socks (ss_channels s3)) k2"
    using assms(3) m a by (auto simp: teardown_def session_vars_def Let_def)
  have "balanced (held s3) k2 [] k'"
    using close_all_balanced [of "session_vars s3 @ channel_socks (ss_channels s3)" "[]" k2]
      balanced_owns [OF b2] by (simp add: h3 k')
  then show ?thesis using b1 b2 by (blast intro: balanced_trans)
qed

interpretation session: socket_owner "\<lambda>s. if session_ok s then held s else []"
  "\<lambda>s k. if session_ok s then snd (teardown s k) else k"
proof
  fix s :: "'d streams" and hs k
  assume own: "owns ((if session_ok s then held s else []) @ hs) k"
  have "balanced (held s @ hs) k hs (snd (teardown s k))" if "session_ok s" "owns (held s @ hs) k"
  proof -
    obtain s' k' where t: "teardown s k = (s', k')" by fastforce
    have o: "owns (held s) k" using that(2) by (simp add: owns_def)
    note b = teardown_balanced [OF o that(1) t]
    have "owns hs k'"
      using b that(2) by (auto simp: balanced_def owns_def unowned_def)
    moreover have "unowned hs k' = unowned (held s @ hs) k"
      using b that(2) by (auto simp: balanced_def owns_def unowned_def)
    ultimately show ?thesis using b t by (simp add: balanced_def)
  qed
  then show "balanced ((if session_ok s then held s else []) @ hs) k hs (if session_ok s then snd (teardown s k) else k)"
    using own by (cases "session_ok s") (simp_all add: balanced_refl)
qed

section \<open>Every operation keeps the ledger\<close>

text \<open>As \<open>balanced\<close>, but the operation overwrote variables that held the handles in \<open>lost\<close>: they
  stay open and nobody owns them any more.\<close>

definition ledger :: "sock list \<Rightarrow> kernel \<Rightarrow> sock list \<Rightarrow> kernel \<Rightarrow> sock set \<Rightarrow> bool" where
  "ledger hs k hs' k' lost \<longleftrightarrow> owns hs' k' \<and> unowned hs' k' = unowned hs k \<union> lost
     \<and> kn_bad k' = kn_bad k \<and> kn_next k \<le> kn_next k'"

lemma ledger_balanced: "balanced hs k hs' k' \<longleftrightarrow> ledger hs k hs' k' {}"
  by (simp add: ledger_def balanced_def)

lemma ledger_owns: "ledger hs k hs' k' X \<Longrightarrow> owns hs' k'"
  by (simp add: ledger_def)

lemma ledger_trans:
  "ledger hs k hs1 k1 X \<Longrightarrow> ledger hs1 k1 hs2 k2 Y \<Longrightarrow> ledger hs k hs2 k2 (X \<union> Y)"
  by (simp add: ledger_def Un_assoc)

lemma ledger_overwrite:
  assumes "owns hs k" and "mset hs = mset (hs' @ old)"
  shows "ledger hs k hs' k (set old)"
proof -
  have o: "owns (hs' @ old) k" using owns_perm [OF assms(1)] assms(2) by simp
  have "set hs = set (hs' @ old)" using assms(2) by (metis set_mset_mset)
  then show ?thesis using o by (auto simp: ledger_def owns_def unowned_def)
qed

definition tame :: "(audio \<Rightarrow> audio) \<Rightarrow> bool" where
  "tame f \<longleftrightarrow> (\<forall>a. au_running (f a) = au_running a \<and> au_cfg (f a) = au_cfg a)"

lemma flush_fields: "au_running (flush now b a) = au_running a" "au_cfg (flush now b a) = au_cfg a"
  by (auto simp: flush_def flush_queue_def flush_saved_def Let_def split: option.splits prod.splits)

lemma enqueue_fields:
  "au_running (enqueue_pcm now p rtp pcm a) = au_running a" "au_cfg (enqueue_pcm now p rtp pcm a) = au_cfg a"
proof -
  have 1: "au_running (append_frame f a) = au_running a" "au_cfg (append_frame f a) = au_cfg a" for f a
    by (auto simp: append_frame_def Let_def split: option.splits)
  have 2: "au_running (restore_import now p f a) = au_running a" "au_cfg (restore_import now p f a) = au_cfg a" for f a
    by (auto simp: restore_import_def Let_def)
  have 3: "au_running (drain_tail f a) = au_running a" "au_cfg (drain_tail f a) = au_cfg a" for f a
    by (auto simp: drain_tail_def Let_def split: option.splits)
  show "au_running (enqueue_pcm now p rtp pcm a) = au_running a" "au_cfg (enqueue_pcm now p rtp pcm a) = au_cfg a"
    by (simp_all add: enqueue_pcm_def 1 2 3 Let_def case_prod_beta)
qed

lemma tame_ops [intro]:
  "tame (flush now b)" "tame (resume now)" "tame discard_pause" "tame (set_synchronized now e)"
  "tame (control_packet pkt)" "tame (first_packet now pkt)" "tame (enqueue_pcm now p rtp pcm)"
  "tame (\<lambda>a. snd (playout_step po a))"
proof -
  show "tame (flush now b)" by (simp add: tame_def flush_fields)
  show "tame (resume now)" by (auto simp: tame_def resume_def Let_def)
  show "tame discard_pause" by (simp add: tame_def discard_pause_def)
  show "tame (set_synchronized now e)" by (auto simp: tame_def set_synchronized_def flush_fields Let_def)
  show "tame (control_packet pkt)" by (auto simp: tame_def control_packet_def Let_def)
  show "tame (first_packet now pkt)" by (simp add: tame_def first_packet_def)
  show "tame (enqueue_pcm now p rtp pcm)" by (simp add: tame_def enqueue_fields)
  show "tame (\<lambda>a. snd (playout_step po a))"
    by (auto simp: tame_def playout_step_def Let_def split: list.splits decision.splits)
qed

lemma with_audio_fields [simp]:
  "session_vars (with_audio f s) = session_vars s" "ss_channels (with_audio f s) = ss_channels s"
  "ss_mirror (with_audio f s) = ss_mirror s" "ss_ntp (with_audio f s) = ss_ntp s"
  "ss_event (with_audio f s) = ss_event s" "ss_ap2_timing (with_audio f s) = ss_ap2_timing s"
  by (simp_all add: with_audio_def)

lemma with_audio_held:
  assumes "tame f"
  shows "held (with_audio f s) = held s" "session_ok (with_audio f s) = session_ok s"
proof -
  show "held (with_audio f s) = held s"
    using assms by (cases "ss_audio s") (simp_all add: held_parts with_audio_def receiver_socks_def tame_def)
  show "session_ok (with_audio f s) = session_ok s"
    using assms by (cases "ss_audio s") (simp_all add: session_ok_def with_audio_def tame_def)
qed

lemma setup_session_ledger:
  assumes "owns (held s) k" and "session_ok s" and "setup_session s k = (r, s', k')"
  shows "ledger (held s) k (held s') k' (if r = None then {} else set (handles [ss_event s, ss_ap2_timing s]))
    \<and> session_ok s'"
proof -
  obtain r1 k1 where b1: "bind_udp k = (r1, k1)" by fastforce
  obtain r2 k2 where b2: "bind_udp k1 = (r2, k2)" by fastforce
  have l1: "balanced (held s) k (gained r1 @ held s) k1"
    using bind_udp_balanced [OF assms(1)] b1 by simp
  have l2: "balanced (gained r1 @ held s) k1 (gained r2 @ gained r1 @ held s) k2"
    using bind_udp_balanced [OF balanced_owns [OF l1]] b2 by simp
  note l = balanced_trans [OF l1 l2]
  show ?thesis
  proof (cases r1)
    case None
    then show ?thesis using assms l1 b1 by (simp add: setup_session_def ledger_balanced)
  next
    case (Some e)
    obtain e0 ep where e: "e = (e0, ep)" by (cases e)
    show ?thesis
    proof (cases r2)
      case None
      then have "balanced (held s) k (held s) (close_socket (Some e0) k2)"
        using l Some e close_all_balanced [of "[Some e0]" "map Some (held s)" k2]
          balanced_owns [OF l] by (auto intro: balanced_trans)
      then show ?thesis using assms b1 b2 Some None e by (simp add: setup_session_def ledger_balanced)
    next
      case (Some t)
      obtain t0 tp where t: "t = (t0, tp)" by (cases t)
      have s': "s' = s\<lparr>ss_event := Some e0, ss_ap2_timing := Some t0\<rparr>" "r \<noteq> None" "k' = k2"
        using assms(3) b1 b2 \<open>r1 = Some e\<close> Some e t by (auto simp: setup_session_def)
      have "ledger (t0 # e0 # held s) k2 (held s') k2 (set (handles [ss_event s, ss_ap2_timing s]))"
        using balanced_owns [OF l] \<open>r1 = Some e\<close> Some e t
        by (intro ledger_overwrite) (simp_all add: s' held_defs handles_def)
      then show ?thesis
        using l s' \<open>r1 = Some e\<close> Some e t assms(2) ledger_trans [of "held s" k "t0 # e0 # held s" k2 "{}"]
        by (auto simp: ledger_balanced session_ok_def)
    qed
  qed
qed

lemma overwrite_mset:
  "mset (h # held s) = mset (held (s\<lparr>ss_data := Some h\<rparr>) @ handles [ss_data s])"
  "mset (h # held s) = mset (held (s\<lparr>ss_ctrl := Some h\<rparr>) @ handles [ss_ctrl s])"
  "mset (h # held s) = mset (held (s\<lparr>ss_timing := Some h\<rparr>) @ handles [ss_timing s])"
  by (simp_all add: held_defs handles_def)

lemma session_ok_vars [simp]:
  "session_ok (s\<lparr>ss_data := x\<rparr>) = session_ok s" "session_ok (s\<lparr>ss_ctrl := x\<rparr>) = session_ok s"
  "session_ok (s\<lparr>ss_timing := x\<rparr>) = session_ok s" "session_ok (s\<lparr>ss_client := y\<rparr>) = session_ok s"
  by (simp_all add: session_ok_def)

lemma bind_into_ledger:
  assumes "owns (held s) k" and "session_ok s" and "bind_into wanted put s k = (r, s', k')"
    and "\<And>h. mset (h # held s) = mset (held (put h s) @ handles [old])" and "\<And>h. session_ok (put h s)"
  shows "(\<exists>X \<subseteq> set (handles [old]). ledger (held s) k (held s') k' X) \<and> session_ok s' \<and> (s' = s \<or> (\<exists>h. s' = put h s))"
proof -
  obtain r1 k1 where b: "bind_udp k = (r1, k1)" by fastforce
  have l: "ledger (held s) k (gained r1 @ held s) k1 {}"
    using bind_udp_balanced [OF assms(1)] b by (simp add: ledger_balanced)
  show ?thesis
  proof (cases "wanted \<and> r1 \<noteq> None")
    case True
    then obtain h p where r1: "r1 = Some (h, p)" by auto
    have "ledger (h # held s) k1 (held (put h s)) k1 (set (handles [old]))"
      using ledger_owns [OF l] r1 by (intro ledger_overwrite assms(4)) simp
    then have "ledger (held s) k (held (put h s)) k1 (set (handles [old]))"
      using ledger_trans [OF l] r1 by auto
    then show ?thesis using assms(3,5) True b r1 by (auto simp: bind_into_def)
  next
    case False
    then show ?thesis
      using assms(1-3) l b
      by (cases wanted; cases r1; intro conjI exI [of _ "{}"])
        (auto simp: bind_into_def ledger_balanced [symmetric] balanced_refl)
  qed
qed

lemma teardown_ledger:
  "owns (held s) k \<Longrightarrow> session_ok s \<Longrightarrow>
     ledger (held s) k (held (fst (teardown s k))) (snd (teardown s k)) {} \<and> session_ok (fst (teardown s k))"
  using teardown_balanced [of s k "fst (teardown s k)" "snd (teardown s k)"]
  by (auto simp: held_teardown ledger_balanced [symmetric])
     (simp add: teardown_def session_ok_def drop_mirror_def drop_audio_def Let_def split: option.splits)

lemma setup_legacy_ledger:
  assumes "owns (held s) k" and "session_ok s" and "setup_legacy transport s k = (r, s', k')"
  shows "(\<exists>X \<subseteq> set (handles [ss_data s, ss_ctrl s, ss_timing s]). ledger (held s) k (held s') k' X) \<and> session_ok s'"
proof -
  let ?s1 = "s\<lparr>ss_client := \<lparr>sp_server = pick_port transport ''server_port'',
    sp_control = pick_port transport ''control_port'', sp_timing = pick_port transport ''timing_port''\<rparr>\<rparr>"
  have h1: "held ?s1 = held s" "session_ok ?s1" using assms(2) by (simp_all add: held_parts session_ok_def)
  obtain a s2 k1 where a: "bind_into True (\<lambda>h s. s\<lparr>ss_data := Some h\<rparr>) ?s1 k = (a, s2, k1)" by (rule prod_cases3)
  obtain b s3 k2 where b: "bind_into (sp_control (ss_client s2) \<noteq> 0) (\<lambda>h s. s\<lparr>ss_ctrl := Some h\<rparr>) s2 k1 = (b, s3, k2)"
    by (rule prod_cases3)
  obtain c s4 k3 where c: "bind_into (sp_timing (ss_client s3) \<noteq> 0) (\<lambda>h s. s\<lparr>ss_timing := Some h\<rparr>) s3 k2 = (c, s4, k3)"
    by (rule prod_cases3)
  have "(\<exists>X \<subseteq> set (handles [ss_data s]). ledger (held s) k (held s2) k1 X) \<and> session_ok s2
      \<and> (s2 = ?s1 \<or> (\<exists>h. s2 = ?s1\<lparr>ss_data := Some h\<rparr>))"
    using bind_into_ledger [OF _ h1(2) a, of "ss_data s"] h1 assms(1) overwrite_mset(1) [of _ ?s1] by simp
  then obtain X where X: "X \<subseteq> set (handles [ss_data s])" "ledger (held s) k (held s2) k1 X" "session_ok s2"
      "ss_ctrl s2 = ss_ctrl s" "ss_timing s2 = ss_timing s" by auto
  have "(\<exists>Y \<subseteq> set (handles [ss_ctrl s2]). ledger (held s2) k1 (held s3) k2 Y) \<and> session_ok s3
      \<and> (s3 = s2 \<or> (\<exists>h. s3 = s2\<lparr>ss_ctrl := Some h\<rparr>))"
    using bind_into_ledger [OF ledger_owns [OF X(2)] X(3) b overwrite_mset(2)] X(3) by simp
  then obtain Y where Y: "Y \<subseteq> set (handles [ss_ctrl s])" "ledger (held s2) k1 (held s3) k2 Y" "session_ok s3"
      "ss_timing s3 = ss_timing s" using X(4,5) by auto
  have "(\<exists>Z \<subseteq> set (handles [ss_timing s3]). ledger (held s3) k2 (held s4) k3 Z) \<and> session_ok s4
      \<and> (s4 = s3 \<or> (\<exists>h. s4 = s3\<lparr>ss_timing := Some h\<rparr>))"
    using bind_into_ledger [OF ledger_owns [OF Y(2)] Y(3) c overwrite_mset(3)] Y(3) by simp
  then obtain Z where Z: "Z \<subseteq> set (handles [ss_timing s])" "ledger (held s3) k2 (held s4) k3 Z" "session_ok s4"
    using Y(4) by auto
  have hs: "set (handles [ss_data s, ss_ctrl s, ss_timing s])
      = set (handles [ss_data s]) \<union> set (handles [ss_ctrl s]) \<union> set (handles [ss_timing s])"
    by (auto simp: handles_def)
  have sub: "X \<subseteq> set (handles [ss_data s, ss_ctrl s, ss_timing s])"
      "X \<union> Y \<subseteq> set (handles [ss_data s, ss_ctrl s, ss_timing s])"
      "X \<union> Y \<union> Z \<subseteq> set (handles [ss_data s, ss_ctrl s, ss_timing s])"
    unfolding hs using X(1) Y(1) Z(1) by auto
  note XY = ledger_trans [OF X(2) Y(2)]
  note XYZ = ledger_trans [OF XY Z(2)]
  note t3 = teardown_ledger [OF ledger_owns [OF Y(2)] Y(3)]
  note t4 = teardown_ledger [OF ledger_owns [OF Z(2)] Z(3)]
  have run: "setup_legacy transport s k = (case a of None \<Rightarrow> (None, s2, k1) | Some server \<Rightarrow>
      (case b of None \<Rightarrow> (None, teardown s3 k2) | Some control \<Rightarrow>
        (case c of None \<Rightarrow> (None, teardown s4 k3) | Some timing \<Rightarrow>
          (Some \<lparr>sp_server = server, sp_control = control, sp_timing = timing\<rparr>, s4, k3))))"
    unfolding setup_legacy_def Let_def a by (cases a; cases b; cases c) (simp_all only: prod.case option.case b c)
  consider "s' = s2" "k' = k1" | "(s', k') = teardown s3 k2" | "(s', k') = teardown s4 k3" | "s' = s4" "k' = k3"
    using assms(3) unfolding run by (cases a; cases b; cases c) (auto simp only: option.case prod.inject)
  then show ?thesis
  proof cases
    case 1
    show ?thesis unfolding 1 using sub(1) X(2,3) by blast
  next
    case 2
    have t: "ledger (held s3) k2 (held s') k' {}" "session_ok s'"
      using t3 unfolding 2 [symmetric] by simp_all
    show ?thesis using ledger_trans [OF XY t(1)] t(2) by (intro conjI exI [of _ "X \<union> Y"] sub(2)) simp_all
  next
    case 3
    have t: "ledger (held s4) k3 (held s') k' {}" "session_ok s'"
      using t4 unfolding 3 [symmetric] by simp_all
    show ?thesis using ledger_trans [OF XYZ t(1)] t(2) by (intro conjI exI [of _ "X \<union> Y \<union> Z"] sub(3)) simp_all
  next
    case 4
    show ?thesis unfolding 4 using sub(3) XYZ Z(3) by blast
  qed
qed

lemma fresh_mirror_idle:
  "mi_running (fresh_mirror cy ops opts r) = False" "mi_client (fresh_mirror cy ops opts r) = None"
  by (auto simp: fresh_mirror_def enable_decrypt_def attach_renderer_def new_mirror_def Let_def split: prod.splits)

lemma held_add_channel:
  "mset (held (add_channel c s)) = mset (handles [ch_data c, ch_control c] @ held s)"
  by (simp add: add_channel_def held_parts handles_def)

lemma add_channel_ok: "session_ok s \<Longrightarrow> session_ok (add_channel c s)"
  by (auto simp: session_ok_def add_channel_def)

lemma drop_ok:
  "session_ok s \<Longrightarrow> drop_mirror s k = (s', k') \<Longrightarrow> session_ok s'"
  "session_ok s \<Longrightarrow> drop_audio s k = (s', k') \<Longrightarrow> session_ok s'"
  by (auto simp: session_ok_def dest!: drop_fields)

lemma setup_mirror_balanced:
  assumes "owns (held s) k" and "session_ok s" and "setup_mirror cy ops env opts s k = (r, s', k')"
  shows "balanced (held s) k (held s') k' \<and> session_ok s'"
proof -
  obtain s1 k1 where d: "drop_mirror s k = (s1, k1)" by fastforce
  let ?m = "fresh_mirror cy ops opts (ss_renderer s1)"
  obtain p m k2 where st: "start_mirror ?m k1 = (p, m, k2)" by (rule prod_cases3)
  note b1 = drop_mirror_balanced [OF assms(1) d]
  note ok1 = drop_ok(1) [OF assms(2) d]
  have b2: "balanced (held s1) k1 (handles (mirror_socks m) @ held s1) k2" and run: "mi_running m \<longleftrightarrow> p \<noteq> None"
    using start_mirror_balanced [OF balanced_owns [OF b1], of ?m] st by (simp_all add: fresh_mirror_idle)
  note b = balanced_trans [OF b1 b2]
  have none: "ss_mirror s1 = None" using drop_fields(1) [OF d] by simp
  show ?thesis
  proof (cases p)
    case None
    then have "r = None" "s' = s1" "k' = k2" using assms(3) d st by (simp_all add: setup_mirror_def)
    then show ?thesis using b ok1 None run by (simp add: mirror_socks_def)
  next
    case (Some port)
    let ?s2 = "s1\<lparr>ss_mirror := Some m\<rparr>"
    have h2: "mset (held ?s2) = mset (handles (mirror_socks m) @ held s1)"
      using none by (simp add: held_parts)
    have ok2: "session_ok ?s2" using ok1 run Some by (simp add: session_ok_def)
    have t: "tame (set_synchronized (ae_now env) False)" by blast
    have s': "s' = add_channel \<lparr>ch_type = 110, ch_data_port = port, ch_control_port = 0, ch_data = None, ch_control = None\<rparr>
        (with_audio (set_synchronized (ae_now env) False) ?s2)" "k' = k2"
      using assms(3) d st Some by (simp_all add: setup_mirror_def)
    have "mset (held s') = mset (handles (mirror_socks m) @ held s1)"
      using h2 by (simp add: s' held_add_channel with_audio_held [OF t])
    then show ?thesis
      using balanced_perm [OF b] s' ok2 by (simp add: add_channel_ok with_audio_held [OF t])
  qed
qed

lemma start_receiver_balanced:
  assumes "owns (d # c # held s) k" and "ss_audio s = None" and "session_ok s"
    and "start_receiver env opts d c s k = (s', k')"
  shows "balanced (d # c # held s) k (c # held s') k'
    \<and> ss_channels s' = ss_channels s \<and> session_ok (s'\<lparr>ss_audio := None\<rparr>)
    \<and> (\<forall>r. ss_audio s' = Some r \<longrightarrow> au_running (rc_audio r) \<and> ac_data_sock (au_cfg (rc_audio r)) \<and> rc_control r = c)"
proof -
  obtain ok a where st: "start_audio (ae_aes env) (ae_decoder env) (ae_sink env) (audio_config_of opts s)
      (ss_paused s) (idle_audio default_config) = (ok, a)" by fastforce
  let ?s1 = "s\<lparr>ss_paused := (ss_paused s)\<lparr>ps_pcm := [], ps_output := False\<rparr>\<rparr>"
  have h: "held ?s1 = held s" by (simp add: held_parts)
  have ok1: "session_ok (?s1\<lparr>ss_audio := x\<rparr>) = session_ok (s\<lparr>ss_audio := x\<rparr>)" for x by (simp add: session_ok_def)
  have okN: "session_ok (s\<lparr>ss_audio := None\<rparr>)" using assms(3) by (simp add: session_ok_def)
  show ?thesis
  proof (cases ok)
    case True
    then have a: "au_running a" "ac_data_sock (au_cfg a)"
      using st by (auto simp: start_audio_def audio_config_of_def Let_def split: if_splits)
    let ?r = "\<lparr>rc_data = d, rc_control = c, rc_audio = a\<rparr>"
    have s': "s' = ?s1\<lparr>ss_audio := Some ?r\<rparr>" "k' = k"
      using assms(4) st True by (simp_all add: start_receiver_def)
    have "mset (held s') = mset (d # held s)"
      using assms(2) a by (simp add: s' held_parts receiver_socks_def)
    then have "balanced (d # c # held s) k (c # held s') k'"
      using balanced_perm [OF balanced_refl [OF assms(1)], of "d # c # held s" "c # held s'"] s' by simp
    then show ?thesis using s' a okN ok1 by simp
  next
    case False
    have s': "s' = ?s1\<lparr>ss_audio := None\<rparr>" "k' = close_socket (Some d) k"
      using assms(4) st False by (simp_all add: start_receiver_def)
    have hn: "held s' = held s" using assms(2) by (simp add: s' held_parts)
    have "balanced (d # c # held s) k (c # held s') k'"
      using close_socket_balanced [of "Some d" "map Some (c # held s)" k] assms(1) s' hn by simp
    then show ?thesis using s' okN ok1 by simp
  qed
qed

lemma setup_udp_balanced:
  assumes "owns (held s) k" and "session_ok s" and "setup_udp env type opts s k = (r, s', k')"
  shows "balanced (held s) k (held s') k' \<and> session_ok s'"
proof -
  obtain r1 k1 where b1: "bind_udp k = (r1, k1)" by fastforce
  obtain r2 k2 where b2: "bind_udp k1 = (r2, k2)" by fastforce
  have l1: "balanced (held s) k (gained r1 @ held s) k1" using bind_udp_balanced [OF assms(1)] b1 by simp
  have l2: "balanced (gained r1 @ held s) k1 (gained r2 @ gained r1 @ held s) k2"
    using bind_udp_balanced [OF balanced_owns [OF l1]] b2 by simp
  note l = balanced_trans [OF l1 l2]
  consider (no1) "r1 = None" | (no2) d p where "r1 = Some (d, p)" "r2 = None"
    | (ok) d p c q where "r1 = Some (d, p)" "r2 = Some (c, q)" by (cases r1; cases r2) auto
  then show ?thesis
  proof cases
    case no1
    then show ?thesis using assms l1 b1 by (simp add: setup_udp_def)
  next
    case no2
    then have "balanced (held s) k (held s) (close_socket (Some d) k2)"
      using l close_all_balanced [of "[Some d]" "map Some (held s)" k2] balanced_owns [OF l]
      by (auto intro: balanced_trans)
    then show ?thesis using assms b1 b2 no2 by (simp add: setup_udp_def)
  next
    case ok
    define ch where "ch = \<lparr>ch_type = type, ch_data_port = p, ch_control_port = q,
      ch_data = (if type = 96 then None else Some d), ch_control = Some c\<rparr>"
    have lb: "balanced (held s) k (c # d # held s) k2" using l ok by simp
    show ?thesis
    proof (cases "type = 96")
      case False
      then have s': "s' = add_channel ch s" "k' = k2"
        using assms(3) b1 b2 ok by (simp_all add: setup_udp_def ch_def Let_def)
      have "mset (held s') = mset (c # d # held s)" using False by (simp add: s' held_add_channel ch_def)
      then show ?thesis using balanced_perm [OF lb] s' assms(2) by (simp add: add_channel_ok)
    next
      case True
      obtain s1 k3 where da: "drop_audio s k2 = (s1, k3)" by fastforce
      obtain s2 k4 where sr: "start_receiver env opts d c s1 k3 = (s2, k4)" by fastforce
      have s': "s' = (add_channel ch s2)\<lparr>ss_audio_control := True\<rparr>" "k' = k4"
        using assms(3) b1 b2 ok True da sr by (simp_all add: setup_udp_def ch_def Let_def)
      have own2: "owns (held s) k2" using balanced_owns [OF lb] by (simp add: owns_def)
      note da1 = drop_audio_balanced [OF own2 assms(2) da]
      have lift: "balanced (c # d # held s) k2 (c # d # held s1) k3"
      proof -
        have "set (held s1) \<subseteq> set (held s)" using da by (auto simp: drop_audio_def held_parts handles_def split: option.splits)
        then show ?thesis
          using da1 balanced_owns [OF lb] by (auto simp: balanced_def owns_def unowned_def)
      qed
      have own3: "owns (d # c # held s1) k3" using owns_perm [OF balanced_owns [OF lift]] by simp
      have none: "ss_audio s1 = None" "ss_channels s1 = ss_channels s" using drop_fields(2) [OF da] by simp_all
      note sr1 = start_receiver_balanced [OF own3 none(1) drop_ok(2) [OF assms(2) da] sr]
      have "balanced (c # d # held s1) k3 (c # held s2) k4"
        using sr1 balanced_perm [of "d # c # held s1" k3 "c # held s2" k4] by simp
      then have "balanced (held s) k (c # held s2) k4"
        using lb lift by (blast intro: balanced_trans)
      moreover have "mset (held s') = mset (c # held s2)"
        using True held_add_channel [of ch s2] by (simp add: s' held_parts ch_def)
      ultimately have "balanced (held s) k (held s') k'"
        using balanced_perm [of "held s" k "c # held s2" k4 "held s" "held s'"] s' by simp
      moreover have "session_ok s'"
        using sr1 True by (auto simp: s' session_ok_def add_channel_def ch_def)
      ultimately show ?thesis by simp
    qed
  qed
qed

lemma suspend_receiver_balanced:
  assumes "owns (held s) k" and "ss_audio s = Some r" and "suspend_receiver r k = (p, r', k')"
  shows "balanced (held s) k (held (s\<lparr>ss_paused := p, ss_audio := None\<rparr>)) k'"
proof -
  have h: "held (s\<lparr>ss_paused := p, ss_audio := None\<rparr>) = held (s\<lparr>ss_audio := None\<rparr>)" by (simp add: held_parts)
  have own: "owns (handles (receiver_socks r @ map Some (held (s\<lparr>ss_audio := None\<rparr>)))) k"
    using assms(1) held_audio [OF assms(2)] owns_perm by simp
  have "k' = close_all (receiver_socks r) k"
    using assms(3) by (auto simp: suspend_receiver_def receiver_socks_def split: prod.splits)
  then have "balanced (handles (receiver_socks r) @ held (s\<lparr>ss_audio := None\<rparr>)) k (held (s\<lparr>ss_audio := None\<rparr>)) k'"
    using close_all_balanced [OF own] by simp
  then show ?thesis using held_audio [OF assms(2)] h by (auto intro: balanced_perm)
qed

lemma channel_socks_partition:
  "mset (handles (channel_socks cs)) = mset (handles (channel_socks (filter P cs)))
     + mset (handles (channel_socks (filter (\<lambda>c. \<not> P c) cs)))"
proof (induction cs)
  case (Cons c cs)
  then show ?case by (cases "ch_data c"; cases "ch_control c") auto
qed simp

lemma close_channels_balanced:
  assumes "owns (held s) k"
  shows "balanced (held s) k (held (s\<lparr>ss_channels := filter (\<lambda>c. ch_type c \<noteq> type) (ss_channels s)\<rparr>))
    (close_all (channel_socks (filter (\<lambda>c. ch_type c = type) (ss_channels s))) k)"
proof -
  let ?s' = "s\<lparr>ss_channels := filter (\<lambda>c. ch_type c \<noteq> type) (ss_channels s)\<rparr>"
  let ?out = "channel_socks (filter (\<lambda>c. ch_type c = type) (ss_channels s))"
  have m: "mset (held s) = mset (handles ?out @ held ?s')"
    using channel_socks_partition [of "ss_channels s" "\<lambda>c. ch_type c = type"] by (simp add: held_parts)
  then have "owns (handles (?out @ map Some (held ?s'))) k" using owns_perm [OF assms] by simp
  from close_all_balanced [OF this] show ?thesis using m by (auto intro: balanced_perm)
qed

lemma stop_mirror_stream_balanced:
  assumes "owns (held s) k" and "session_ok s" and "stop_mirror_stream now s k = (s', k')"
  shows "balanced (held s) k (held s') k' \<and> session_ok s'"
proof (cases "ss_mirror s")
  case None
  then show ?thesis using assms by (simp add: stop_mirror_stream_def balanced_refl)
next
  case (Some m)
  obtain s1 k1 where d: "drop_mirror s k = (s1, k1)" by fastforce
  have t: "tame (set_synchronized now True)" by blast
  have "s' = with_audio (set_synchronized now True) s1" "k' = k1"
    using assms(3) d Some by (simp_all add: stop_mirror_stream_def)
  then show ?thesis
    using drop_mirror_balanced [OF assms(1) d] drop_ok(1) [OF assms(2) d] by (simp add: with_audio_held [OF t])
qed

lemma suspend_audio_stream_balanced:
  assumes "owns (held s) k" and "session_ok s" and "suspend_audio_stream s k = (s', k')"
  shows "balanced (held s) k (held s') k' \<and> session_ok s' \<and> ss_audio s' = None"
proof (cases "ss_audio s")
  case None
  then show ?thesis using assms by (simp add: suspend_audio_stream_def balanced_refl)
next
  case (Some r)
  obtain p r1 k1 where sr: "suspend_receiver r k = (p, r1, k1)" by (rule prod_cases3)
  have "s' = s\<lparr>ss_paused := p, ss_audio := None\<rparr>" "k' = k1"
    using assms(3) sr Some by (simp_all add: suspend_audio_stream_def)
  then show ?thesis
    using suspend_receiver_balanced [OF assms(1) Some sr] assms(2) by (simp add: session_ok_def)
qed

lemma stop_stream_balanced:
  assumes "owns (held s) k" and "session_ok s" and "stop_stream now type s k = (s', k')"
  shows "balanced (held s) k (held s') k' \<and> session_ok s'"
proof -
  obtain s1 k1 where 1: "(if type = 110 then stop_mirror_stream now s k else (s, k)) = (s1, k1)" by fastforce
  obtain s2 k2 where 2: "(if type = 96 then suspend_audio_stream s1 k1 else (s1, k1)) = (s2, k2)" by fastforce
  have run: "(s', k') = close_channels type s2 k2"
    using assms(3) 1 2 by (simp add: stop_stream_def)
  have b1: "balanced (held s) k (held s1) k1 \<and> session_ok s1"
    using 1 stop_mirror_stream_balanced [OF assms(1,2)] assms(1,2) by (auto simp: balanced_refl split: if_splits)
  note own1 = balanced_owns [OF conjunct1 [OF b1]]
  have b2: "balanced (held s1) k1 (held s2) k2 \<and> session_ok s2 \<and> (type = 96 \<longrightarrow> ss_audio s2 = None)"
    using 2 suspend_audio_stream_balanced [OF own1 conjunct2 [OF b1]] own1 b1
    by (auto simp: balanced_refl split: if_splits)
  have "session_ok s'" using b2 run by (auto simp: close_channels_def session_ok_def)
  then show ?thesis
    using b1 b2 close_channels_balanced [of s2 k2 type] balanced_owns run
    by (auto simp: close_channels_def intro: balanced_trans)
qed

section \<open>Runs of a session\<close>

text \<open>What the worker threads do between the calls of the RTSP thread, and those calls.\<close>

datatype audio_work =
  WorkControl bytes
| WorkFirst int bytes
| WorkPcm int int u32 "i16 list"
| WorkPlay playout

fun work :: "audio_work \<Rightarrow> audio \<Rightarrow> audio" where
  "work (WorkControl pkt) a = control_packet pkt a"
| "work (WorkFirst now pkt) a = first_packet now pkt a"
| "work (WorkPcm now pend rtp pcm) a = enqueue_pcm now pend rtp pcm a"
| "work (WorkPlay po) a = snd (playout_step po a)"

lemma tame_work: "tame (work w)"
  by (cases w) (use tame_ops in \<open>auto simp: tame_def\<close>)

datatype session_op =
  SetupLegacy string
| SetupSession
| SetupStream audio_env int stream_opts
| StartNtp string u16
| NtpGivesUp
| StopStream int int
| FlushAudio int "u32 option"
| ResumeAudio int
| AudioTrack string
| Teardown
| MirrorAccept
| MirrorServe "recv_event list"
| AudioWork audio_work

fun exec :: "'k crypto \<Rightarrow> 'd decoder_ops \<Rightarrow> session_op \<Rightarrow> 'd streams \<times> kernel \<Rightarrow> 'd streams \<times> kernel" where
  "exec cy ops (SetupLegacy t) (s, k) = snd (setup_legacy t s k)"
| "exec cy ops SetupSession (s, k) = snd (setup_session s k)"
| "exec cy ops (SetupStream env type opts) (s, k) = snd (setup_stream cy ops env type opts s k)"
| "exec cy ops (StartNtp ip port) (s, k) = (snd (start_ntp ip port s), k)"
| "exec cy ops NtpGivesUp (s, k) = (s\<lparr>ss_ntp := map_option ntp_stop (ss_ntp s)\<rparr>, k)"
| "exec cy ops (StopStream now type) (s, k) = stop_stream now type s k"
| "exec cy ops (FlushAudio now b) (s, k) = (flush_audio now b s, k)"
| "exec cy ops (ResumeAudio now) (s, k) = (resume_audio now s, k)"
| "exec cy ops (AudioTrack t) (s, k) = (set_audio_track t s, k)"
| "exec cy ops Teardown (s, k) = teardown s k"
| "exec cy ops MirrorAccept (s, k) =
     (case ss_mirror s of
        None \<Rightarrow> (s, k)
      | Some m \<Rightarrow> (let (m1, k1) = accept_client m k in (s\<lparr>ss_mirror := Some m1\<rparr>, k1)))"
| "exec cy ops (MirrorServe evs) (s, k) =
     (case ss_mirror s of
        None \<Rightarrow> (s, k)
      | Some m \<Rightarrow> (let (es, m1, k1) = serve_client cy ops evs m k in (s\<lparr>ss_mirror := Some m1\<rparr>, k1)))"
| "exec cy ops (AudioWork w) (s, k) = (with_audio (work w) s, k)"

definition run_session :: "'k crypto \<Rightarrow> 'd decoder_ops \<Rightarrow> session_op list \<Rightarrow> 'd streams \<times> kernel \<Rightarrow> 'd streams \<times> kernel" where
  "run_session cy ops = fold (exec cy ops)"

text \<open>The socket variables an operation may overwrite: none, unless SETUP is repeated.\<close>

fun overwritten :: "session_op \<Rightarrow> 'd streams \<Rightarrow> sock list" where
  "overwritten (SetupLegacy t) s = handles [ss_data s, ss_ctrl s, ss_timing s]"
| "overwritten SetupSession s = handles [ss_event s, ss_ap2_timing s]"
| "overwritten _ s = []"

lemma mirror_swap:
  assumes "ss_mirror s = Some m" and "owns (held s) k"
    and "balanced (handles (mirror_socks m) @ held (s\<lparr>ss_mirror := None\<rparr>)) k
           (handles (mirror_socks m1) @ held (s\<lparr>ss_mirror := None\<rparr>)) k1"
  shows "balanced (held s) k (held (s\<lparr>ss_mirror := Some m1\<rparr>)) k1"
proof -
  have "mset (held (s\<lparr>ss_mirror := Some m1\<rparr>)) = mset (handles (mirror_socks m1) @ held (s\<lparr>ss_mirror := None\<rparr>))"
    using held_mirror [of "s\<lparr>ss_mirror := Some m1\<rparr>" m1] by simp
  then show ?thesis using balanced_perm [OF assms(3)] held_mirror [OF assms(1)] by simp
qed

lemma exec_ledger:
  assumes "owns (held s) k" and "session_ok s" and "exec cy ops op (s, k) = (s', k')"
  shows "(\<exists>X \<subseteq> set (overwritten op s). ledger (held s) k (held s') k' X) \<and> session_ok s'"
proof -
  have quiet: ?thesis if "held s' = held s" "session_ok s'" "k' = k"
    using that assms(1) by (intro conjI exI [of _ "{}"]) (simp_all add: ledger_balanced [symmetric] balanced_refl)
  have bal: ?thesis if "balanced (held s) k (held s') k' \<and> session_ok s'"
    using that by (intro conjI exI [of _ "{}"]) (simp_all add: ledger_balanced [symmetric])
  have tm: ?thesis if "tame f" "s' = with_audio f s" "k' = k" for f
    using quiet that assms(2) by (simp add: with_audio_held)
  show ?thesis
  proof (cases op)
    case (SetupLegacy t)
    then show ?thesis using setup_legacy_ledger [OF assms(1,2), of t _ s' k'] assms(3)
      by (cases "setup_legacy t s k") simp
  next
    case SetupSession
    obtain r where "setup_session s k = (r, s', k')" using assms(3) SetupSession by (cases "setup_session s k") simp
    from setup_session_ledger [OF assms(1,2) this] SetupSession show ?thesis
      by (intro conjI exI [of _ "if r = None then {} else set (handles [ss_event s, ss_ap2_timing s])"]) auto
  next
    case (SetupStream env type opts)
    then obtain r where "setup_stream cy ops env type opts s k = (r, s', k')"
      using assms(3) by (cases "setup_stream cy ops env type opts s k") simp
    then show ?thesis
      using setup_mirror_balanced [OF assms(1,2), of cy ops env opts] setup_udp_balanced [OF assms(1,2)]
      by (intro bal) (auto simp: setup_stream_def split: if_splits)
  next
    case (StopStream now type)
    then show ?thesis using stop_stream_balanced [OF assms(1,2)] assms(3) by (intro bal) simp
  next
    case Teardown
    then show ?thesis using teardown_ledger [OF assms(1,2)] assms(3) by auto
  next
    case MirrorAccept
    show ?thesis
    proof (cases "ss_mirror s")
      case None
      then show ?thesis using assms MirrorAccept by (intro quiet) auto
    next
      case (Some m)
      obtain m1 k1 where a: "accept_client m k = (m1, k1)" by fastforce
      have own: "owns (handles (mirror_socks m) @ held (s\<lparr>ss_mirror := None\<rparr>)) k"
        using owns_perm [OF assms(1)] held_mirror [OF Some] by simp
      have "s' = s\<lparr>ss_mirror := Some m1\<rparr>" "k' = k1" using assms(3) MirrorAccept Some a by auto
      moreover have "mi_running m1" using assms(2) a Some
        by (auto simp: session_ok_def accept_client_def split: prod.splits if_splits)
      ultimately show ?thesis
        using accept_client_balanced [OF own] a mirror_swap [OF Some assms(1)] assms(2)
        by (intro bal) (simp add: session_ok_def)
    qed
  next
    case (MirrorServe evs)
    show ?thesis
    proof (cases "ss_mirror s")
      case None
      then show ?thesis using assms MirrorServe by (intro quiet) auto
    next
      case (Some m)
      obtain es m1 k1 where a: "serve_client cy ops evs m k = (es, m1, k1)" by (rule prod_cases3)
      have own: "owns (handles (mirror_socks m) @ held (s\<lparr>ss_mirror := None\<rparr>)) k"
        using owns_perm [OF assms(1)] held_mirror [OF Some] by simp
      have run: "mi_running m" using assms(2) Some by (simp add: session_ok_def)
      have "s' = s\<lparr>ss_mirror := Some m1\<rparr>" "k' = k1" using assms(3) MirrorServe Some a by auto
      moreover have "mi_running m1" using run a
        by (auto simp: serve_client_def split: prod.splits if_splits)
      moreover have "balanced (handles (mirror_socks m) @ held (s\<lparr>ss_mirror := None\<rparr>)) k
          (handles (mirror_socks m1) @ held (s\<lparr>ss_mirror := None\<rparr>)) k1"
        using serve_client_balanced [OF own run, of cy ops evs] a by simp
      ultimately show ?thesis
        using mirror_swap [OF Some assms(1)] assms(2) by (intro bal) (simp add: session_ok_def)
    qed
  next
    case (StartNtp ip port)
    then show ?thesis using assms by (intro quiet) (auto simp: start_ntp_def held_parts session_ok_def Let_def split: prod.splits if_splits)
  next
    case NtpGivesUp
    then show ?thesis using assms by (intro quiet) (auto simp: held_parts session_ok_def)
  next
    case (FlushAudio now b)
    then show ?thesis using assms(3) by (intro tm [of "flush now b"]) (auto simp: flush_audio_def)
  next
    case (ResumeAudio now)
    then show ?thesis using assms(3) by (intro tm [of "resume now"]) (auto simp: resume_audio_def)
  next
    case (AudioWork w)
    then show ?thesis using assms(3) by (intro tm [OF tame_work]) auto
  next
    case (AudioTrack t)
    have d: "tame discard_pause" by blast
    have eq: "held (s\<lparr>ss_track := t\<rparr>) = held s" "held (s\<lparr>ss_paused := p, ss_track := t\<rparr>) = held s"
      "session_ok (s\<lparr>ss_track := t\<rparr>) = session_ok s" "session_ok (s\<lparr>ss_paused := p, ss_track := t\<rparr>) = session_ok s" for p
      by (simp_all add: held_parts session_ok_def)
    have wa: "(with_audio discard_pause (s\<lparr>ss_paused := p\<rparr>))\<lparr>ss_track := t\<rparr>
        = with_audio discard_pause (s\<lparr>ss_paused := p, ss_track := t\<rparr>)" for p
      by (simp add: with_audio_def)
    show ?thesis
      using AudioTrack assms
      by (intro quiet) (auto simp: set_audio_track_def wa with_audio_held [OF d] eq)
  qed
qed

fun disciplined :: "'k crypto \<Rightarrow> 'd decoder_ops \<Rightarrow> session_op list \<Rightarrow> 'd streams \<times> kernel \<Rightarrow> bool" where
  "disciplined cy ops [] x = True"
| "disciplined cy ops (op # rest) x \<longleftrightarrow> overwritten op (fst x) = [] \<and> disciplined cy ops rest (exec cy ops op x)"

lemma run_session_simps [simp]:
  "run_session cy ops [] x = x" "run_session cy ops (op # rest) x = run_session cy ops rest (exec cy ops op x)"
  "run_session cy ops (a @ b) x = run_session cy ops b (run_session cy ops a x)"
  by (simp_all add: run_session_def)

lemma run_ledger:
  assumes "owns (held s) k" and "session_ok s" and "run_session cy ops script (s, k) = (s', k')"
  shows "(\<exists>X. ledger (held s) k (held s') k' X \<and> (disciplined cy ops script (s, k) \<longrightarrow> X = {})) \<and> session_ok s'"
  using assms
proof (induction script arbitrary: s k)
  case Nil
  then show ?case
    by (intro conjI exI [of _ "{}"]) (simp_all add: ledger_balanced [symmetric] balanced_refl)
next
  case (Cons op script)
  obtain s1 k1 where e: "exec cy ops op (s, k) = (s1, k1)" by fastforce
  obtain X where X: "X \<subseteq> set (overwritten op s)" "ledger (held s) k (held s1) k1 X" "session_ok s1"
    using exec_ledger [OF Cons.prems(1,2) e] by blast
  obtain Y where Y: "ledger (held s1) k1 (held s') k' Y" "disciplined cy ops script (s1, k1) \<longrightarrow> Y = {}" "session_ok s'"
    using Cons.IH [OF ledger_owns [OF X(2)] X(3)] Cons.prems(3) e by auto
  have "disciplined cy ops (op # script) (s, k) \<longrightarrow> X \<union> Y = {}" using X(1) Y(2) e by auto
  then show ?case using ledger_trans [OF X(2) Y(1)] Y(3) by blast
qed

text \<open>The NTP thread borrows the timing socket: it is still that of the session, or it is one that a
  repeated SETUP has forgotten, and that therefore nobody closes.\<close>

definition ntp_safe :: "'d streams \<Rightarrow> kernel \<Rightarrow> bool" where
  "ntp_safe s k \<longleftrightarrow> (\<forall>n h. ss_ntp s = Some n \<and> nl_running n \<and> nl_sock n = Some h \<longrightarrow>
     ss_ap2_timing s = Some h \<or> h \<in> unowned (held s) k)"

lemma exec_ntp:
  assumes "exec cy ops op (s, k) = (s', k')" and "op \<noteq> SetupSession" and "\<And>ip port. op \<noteq> StartNtp ip port"
  shows "ss_ntp s' = None \<or> ss_ap2_timing s' = ss_ap2_timing s \<and> (ss_ntp s' = ss_ntp s \<or> ss_ntp s' = map_option ntp_stop (ss_ntp s))"
proof -
  have dm: "ss_ntp s2 = ss_ntp s1 \<and> ss_ap2_timing s2 = ss_ap2_timing s1" if "drop_mirror s1 k1 = (s2, k2)" for s1 s2 :: "'a streams" and k1 k2
    using drop_fields(1) [OF that] by (simp add: session_vars_def)
  have da: "ss_ntp s2 = ss_ntp s1 \<and> ss_ap2_timing s2 = ss_ap2_timing s1" if "drop_audio s1 k1 = (s2, k2)" for s1 s2 :: "'a streams" and k1 k2
    using drop_fields(2) [OF that] by (simp add: session_vars_def)
  have td: "ss_ntp (fst (teardown s1 k1)) = None" for s1 :: "'a streams" and k1
    by (auto simp: teardown_def Let_def split: prod.splits dest!: da)
  have bi: "s2 = s1 \<or> (\<exists>h. s2 = put h s1)" if "bind_into w put s1 k1 = (r, s2, k2)" for w put s1 k1 r and s2 :: "'a streams" and k2
    using that by (auto simp: bind_into_def split: if_splits prod.splits option.splits)
  show ?thesis
  proof (cases op)
    case (SetupLegacy t)
    obtain r where r: "setup_legacy t s k = (r, s', k')" using assms(1) SetupLegacy by (cases "setup_legacy t s k") simp
    have tt: "ss_ntp s' = None" if "teardown s1 k1 = (s', k')" for s1 k1 using td [of s1 k1] that by simp
    show ?thesis
      using r unfolding setup_legacy_def Let_def
      by (auto split: prod.splits option.splits dest!: bi tt)
  next
    case (SetupStream env type opts)
    have sr: "ss_ntp s2 = ss_ntp s1 \<and> ss_ap2_timing s2 = ss_ap2_timing s1"
      if "start_receiver env opts d c s1 k1 = (s2, k2)" for d c k1 k2 and s1 s2 :: "'a streams"
      using that by (auto simp: start_receiver_def Let_def split: prod.splits if_splits)
    show ?thesis
      using assms(1) SetupStream
      by (auto simp: setup_stream_def setup_mirror_def setup_udp_def add_channel_def with_audio_def Let_def
          split: prod.splits option.splits if_splits dest!: dm da sr)
  next
    case (StopStream now type)
    then show ?thesis
      using assms(1)
      by (auto simp: stop_stream_def stop_mirror_stream_def suspend_audio_stream_def close_channels_def with_audio_def
          Let_def split: prod.splits option.splits if_splits dest!: dm)
  next
    case Teardown
    then show ?thesis using td [of s k] assms(1) by simp
  next
    case (AudioTrack t)
    then show ?thesis
      using assms(1) by (cases "ss_track s \<noteq> [] \<and> t \<noteq> ss_track s") (auto simp: set_audio_track_def with_audio_def Let_def)
  qed (use assms in \<open>auto simp: flush_audio_def resume_audio_def with_audio_def split: option.splits prod.splits\<close>)
qed

lemma exec_ntp_safe:
  assumes "owns (held s) k" and "session_ok s" and "exec cy ops op (s, k) = (s', k')" and "ntp_safe s k"
  shows "ntp_safe s' k'"
proof -
  obtain X where X: "ledger (held s) k (held s') k' X" using exec_ledger [OF assms(1-3)] by blast
  then have un: "unowned (held s) k \<subseteq> unowned (held s') k'" by (auto simp: ledger_def)
  consider (sess) "op = SetupSession" | (ntp) ip port where "op = StartNtp ip port"
    | (other) "op \<noteq> SetupSession" "\<And>ip port. op \<noteq> StartNtp ip port" by blast
  then show ?thesis
  proof cases
    case sess
    obtain r where r: "setup_session s k = (r, s', k')" using assms(3) sess by (cases "setup_session s k") simp
    have "ss_ntp s' = ss_ntp s" "r = None \<Longrightarrow> ss_ap2_timing s' = ss_ap2_timing s"
      using r by (auto simp: setup_session_def split: prod.splits option.splits)
    moreover have "set (handles [ss_ap2_timing s]) \<subseteq> unowned (held s') k'" if "r \<noteq> None"
      using setup_session_ledger [OF assms(1,2) r] that by (auto simp: ledger_def handles_def)
    ultimately show ?thesis
      using assms(4) un by (cases "r = None") (auto simp: ntp_safe_def)
  next
    case ntp
    then show ?thesis
      using assms(3,4) by (auto simp: start_ntp_def ntp_start_def ntp_safe_def Let_def split: if_splits)
  next
    case other
    then show ?thesis using exec_ntp [OF assms(3)] assms(4) un by (auto simp: ntp_safe_def ntp_stop_def)
  qed
qed

lemma run_ntp_safe:
  "owns (held s) k \<Longrightarrow> session_ok s \<Longrightarrow> run_session cy ops script (s, k) = (s', k') \<Longrightarrow> ntp_safe s k \<Longrightarrow> ntp_safe s' k'"
proof (induction script arbitrary: s k)
  case Nil
  then show ?case by simp
next
  case (Cons op script)
  obtain s1 k1 where e: "exec cy ops op (s, k) = (s1, k1)" by fastforce
  have "owns (held s1) k1" "session_ok s1"
    using exec_ledger [OF Cons.prems(1,2) e] ledger_owns by blast+
  then show ?case using Cons.IH Cons.prems e exec_ntp_safe [OF Cons.prems(1,2) e] by simp
qed

lemma new_streams_start:
  "held (new_streams sid) = []" "session_ok (new_streams sid)" "kernel_ok k \<Longrightarrow> owns (held (new_streams sid)) k"
  "ntp_safe (new_streams sid) k"
  by (simp_all add: new_streams_def held_defs session_ok_def owns_def ntp_safe_def)

section \<open>A pause that spans two streams\<close>

lemma suspend_keeps_tail:
  assumes "au_synchronize a" and "ac_preserve (au_cfg a)" and "au_paused a \<noteq> []"
  shows "fst (suspend a) = \<lparr>ps_pcm = au_paused a, ps_output = au_output a, ps_rate = ac_rate (au_cfg a),
    ps_paused_at = au_paused_at a, ps_lead = au_lead a\<rparr>"
  using assms by (auto simp: suspend_def join_workers_def Let_def)

lemma stop_audio_stream_state:
  assumes "ss_audio s = Some r" and "stop_stream now 96 s k = (s1, k1)"
  shows "ss_paused s1 = fst (suspend (rc_audio r)) \<and> ss_audio s1 = None \<and> ss_mirror s1 = ss_mirror s
    \<and> ss_ntp s1 = ss_ntp s \<and> ss_track s1 = ss_track s"
  using assms
  by (auto simp: stop_stream_def suspend_audio_stream_def suspend_receiver_def close_channels_def split: prod.splits)

lemma setup_audio_state:
  assumes "setup_stream cy ops env 96 opts s k = (Some ports, s', k')" and "ss_audio s = None"
    and "ae_aes env" and "0 < so_rate opts" and "length (so_aes_key opts) = 16" and "length (so_aes_iv opts) = 16"
  shows "\<exists>r. ss_audio s' = Some r \<and>
    (if ss_mirror s = None \<and> ps_rate (ss_paused s) = so_rate opts
     then au_paused (rc_audio r) = ps_pcm (ss_paused s) \<and> au_imported (rc_audio r) = (ps_pcm (ss_paused s) \<noteq> [])
       \<and> au_paused_at (rc_audio r) = ps_paused_at (ss_paused s) \<and> au_lead (rc_audio r) = ps_lead (ss_paused s)
     else au_paused (rc_audio r) = [] \<and> \<not> au_imported (rc_audio r))"
  using assms
  by (auto simp: setup_stream_def setup_udp_def drop_audio_def start_receiver_def start_audio_def audio_config_of_def
      idle_audio_def add_channel_def Let_def split: prod.splits option.splits if_splits)

section \<open>Properties\<close>

text \<open>C19: Whatever calls arrive, in any order, with worker threads in between and with any of the
  kernel's calls failing: the session never closes a socket that is not open or not its own, the
  sockets it holds are distinct and open, and no worker is left with a closed socket.\<close>

theorem session_sockets_safe:
  assumes "kernel_ok k0" and "run_session cy ops script (new_streams sid, k0) = (s, k)"
  shows "kn_bad k = kn_bad k0 \<and> set (kn_open k0) \<subseteq> set (kn_open k)
    \<and> distinct (held s) \<and> set (held s) \<subseteq> set (kn_open k)
    \<and> (case ss_audio s of None \<Rightarrow> True | Some r \<Rightarrow> rc_data r \<in> set (kn_open k) \<and> rc_control r \<in> set (kn_open k))
    \<and> (case ss_ntp s of None \<Rightarrow> True | Some n \<Rightarrow> nl_running n \<longrightarrow> set (handles [nl_sock n]) \<subseteq> set (kn_open k))"
proof -
  note start = new_streams_start(3) [OF assms(1)] new_streams_start(2)
  obtain X where X: "ledger [] k0 (held s) k X" "session_ok s"
    using run_ledger [OF start assms(2)] by (auto simp: new_streams_start(1))
  have l: "kn_bad k = kn_bad k0" "set (kn_open k0) \<subseteq> set (kn_open k)" "distinct (held s)" "set (held s) \<subseteq> set (kn_open k)"
    using X(1) by (auto simp: ledger_def owns_def unowned_def)
  have "rc_data r \<in> set (kn_open k) \<and> rc_control r \<in> set (kn_open k)" if r: "ss_audio s = Some r" for r
  proof -
    have "rc_data r \<in> set (held s)" using r X(2) by (simp add: session_ok_def held_parts receiver_socks_def)
    moreover obtain c where "c \<in> set (ss_channels s)" "ch_control c = Some (rc_control r)"
      using r X(2) by (auto simp: session_ok_def)
    then have "rc_control r \<in> set (held s)"
      by (force simp: held_parts handles_def channel_socks_def)
    ultimately show ?thesis using l(4) by blast
  qed
  moreover have "set (handles [nl_sock n]) \<subseteq> set (kn_open k)" if "ss_ntp s = Some n" "nl_running n" for n
  proof -
    have "ntp_safe s k" by (rule run_ntp_safe [OF start assms(2) new_streams_start(4)])
    moreover have "set (handles [ss_ap2_timing s]) \<subseteq> set (held s)"
      by (auto simp: held_defs handles_def)
    ultimately show ?thesis using that l(4)
      by (cases "nl_sock n") (auto simp: ntp_safe_def unowned_def)
  qed
  ultimately show ?thesis using l by (auto split: option.split)
qed

text \<open>C22: When no SETUP repeats one whose sockets are still held, nothing leaks: after TEARDOWN the
  open sockets are exactly those that were open before the session began.\<close>

theorem session_teardown_exact:
  assumes "kernel_ok k0" and "run_session cy ops script (new_streams sid, k0) = (s, k)"
    and "disciplined cy ops script (new_streams sid, k0)"
  shows "set (kn_open (snd (teardown s k))) = set (kn_open k0) \<and> held (fst (teardown s k)) = []"
proof -
  note start = new_streams_start(3) [OF assms(1)] new_streams_start(2)
  have X: "ledger [] k0 (held s) k {}" "session_ok s"
    using run_ledger [OF start assms(2)] assms(3) by (auto simp: new_streams_start(1))
  have "set (kn_open (snd (teardown s k))) = set (kn_open k) - set (held s)"
    using session.release_closes [of s "[]" k] X ledger_owns [OF X(1)] by simp
  then show ?thesis using X(1) by (auto simp: ledger_def unowned_def held_teardown)
qed

text \<open>A pause that the sender makes by tearing the audio stream down and setting it up again is
  carried over: the new receiver starts with the whole tail the old one had saved, waiting for its
  first packet; when another track has begun in between, it starts with nothing.\<close>

theorem pause_spans_streams:
  assumes "ss_audio s = Some r" and "a = rc_audio r" and "au_synchronize a" and "ac_preserve (au_cfg a)"
    and "au_paused a \<noteq> []" and "ss_mirror s = None"
    and "so_rate opts = ac_rate (au_cfg a)" and "0 < so_rate opts" and "ae_aes env"
    and "length (so_aes_key opts) = 16" and "length (so_aes_iv opts) = 16"
    and "stop_stream now 96 s k = (s1, k1)"
    and "setup_stream cy ops env 96 opts s1 k1 = (Some p, s2, k2)"
    and "ss_track s \<noteq> []" and "track \<noteq> ss_track s"
    and "setup_stream cy ops env 96 opts (set_audio_track track s1) k1 = (Some q, s3, k3)"
  shows "(\<exists>b. map_option rc_audio (ss_audio s2) = Some b \<and> au_paused b = au_paused a \<and> au_imported b
      \<and> au_paused_at b = au_paused_at a \<and> au_lead b = au_lead a)
    \<and> (\<exists>b. map_option rc_audio (ss_audio s3) = Some b \<and> au_paused b = [] \<and> \<not> au_imported b)"
proof -
  have s1: "ss_paused s1 = \<lparr>ps_pcm = au_paused a, ps_output = au_output a, ps_rate = ac_rate (au_cfg a),
      ps_paused_at = au_paused_at a, ps_lead = au_lead a\<rparr>" "ss_audio s1 = None" "ss_mirror s1 = None"
      "ss_track s1 = ss_track s"
    using stop_audio_stream_state [OF assms(1,12)] suspend_keeps_tail [OF assms(3-5)] assms(2,6) by simp_all
  have st: "ss_paused (set_audio_track track s1) = no_pause" "ss_audio (set_audio_track track s1) = None"
    using assms(14,15) s1 by (simp_all add: set_audio_track_def with_audio_def)
  show ?thesis
    using setup_audio_state [OF assms(13) s1(2) assms(9,8,10,11)] setup_audio_state [OF assms(16) st(2) assms(9,8,10,11)]
      s1 st assms(5,7) by (auto simp: no_pause_def split: if_splits)
qed

section \<open>Repeated SETUP\<close>

text \<open>Each SETUP with keys binds a new pair and forgets the old one: after \<open>n + 1\<close> of them and the
  TEARDOWN, \<open>2 n\<close> sockets are open that nothing refers to any more.\<close>

lemma repeated_setup_state:
  "\<exists>k. run_session cy ops (replicate (Suc n) SetupSession) (new_streams sid, boot all_ok)
     = ((new_streams sid)\<lparr>ss_event := Some (2 * n), ss_ap2_timing := Some (2 * n + 1)\<rparr>, k)
     \<and> kn_next k = 2 * n + 2 \<and> kn_open k = rev [0..<2 * n + 2] \<and> kn_script k = all_ok"
proof (induction n)
  case 0
  show ?case
    by (simp add: setup_session_def bind_udp_def next_answer_def open_socket_def boot_def upt_rec)
next
  case (Suc n)
  then obtain k where k: "run_session cy ops (replicate (Suc n) SetupSession) (new_streams sid, boot all_ok)
     = ((new_streams sid)\<lparr>ss_event := Some (2 * n), ss_ap2_timing := Some (2 * n + 1)\<rparr>, k)"
     "kn_next k = 2 * n + 2" "kn_open k = rev [0..<2 * n + 2]" "kn_script k = all_ok" by blast
  have rep: "replicate (Suc (Suc n)) SetupSession = replicate (Suc n) SetupSession @ [SetupSession]"
    by (simp add: replicate_append_same)
  show ?case
    unfolding rep run_session_simps(3) k(1)
    using k(2-4) by (simp add: setup_session_def bind_udp_def next_answer_def open_socket_def)
qed

lemma repeated_setup_leaks:
  "length (kn_open (snd (run_session cy ops (replicate (Suc n) SetupSession @ [Teardown]) (new_streams sid, boot all_ok)))) = 2 * n"
proof -
  obtain k where k: "run_session cy ops (replicate (Suc n) SetupSession) (new_streams sid, boot all_ok)
     = ((new_streams sid)\<lparr>ss_event := Some (2 * n), ss_ap2_timing := Some (2 * n + 1)\<rparr>, k)"
     "kn_open k = rev [0..<2 * n + 2]" using repeated_setup_state by blast
  show ?thesis
    unfolding run_session_simps(3) k(1)
    using k(2) by (simp add: teardown_def new_streams_def drop_mirror_def drop_audio_def session_vars_def close_socket_def)
qed

section \<open>Witnesses\<close>

definition sample_opts :: stream_opts where
  "sample_opts = \<lparr>so_aes_key = replicate 16 1, so_aes_iv = replicate 16 2, so_connection = 9, so_ct = 8,
     so_rate = 44100, so_hwaccel = True\<rparr>"

definition sample_env :: audio_env where
  "sample_env = \<lparr>ae_aes = True, ae_decoder = True, ae_sink = True, ae_now = 1000\<rparr>"

definition sample_script :: "session_op list" where
  "sample_script = [SetupSession, StartNtp ''10.0.0.2'' 7010, SetupStream sample_env 96 sample_opts,
     SetupStream sample_env 110 sample_opts, MirrorAccept, StopStream 5 110]"

lemma boot_ok: "kernel_ok (boot f)"
  by (simp add: boot_def kernel_ok_def)

theorem session_sockets_safe_witness:
  "kn_bad (snd (run_session plain_crypto counting_decoder (sample_script @ SetupSession # sample_script)
     (new_streams ''1'', boot all_ok))) = []"
proof -
  obtain s k where r: "run_session plain_crypto counting_decoder (sample_script @ SetupSession # sample_script)
      (new_streams ''1'', boot all_ok) = (s, k)" by fastforce
  show ?thesis unfolding r using session_sockets_safe [OF boot_ok r] by (simp add: boot_def)
qed

theorem session_teardown_exact_witness:
  "set (kn_open (snd (case run_session plain_crypto counting_decoder sample_script (new_streams ''1'', boot all_ok)
     of (s, k) \<Rightarrow> teardown s k))) = {}"
proof -
  obtain s k where r: "run_session plain_crypto counting_decoder sample_script (new_streams ''1'', boot all_ok) = (s, k)"
    by fastforce
  have d: "disciplined plain_crypto counting_decoder sample_script (new_streams ''1'', boot all_ok)"
    by (simp add: sample_script_def new_streams_def)
  show ?thesis
    unfolding r prod.case using session_teardown_exact [OF boot_ok r d] by (simp add: boot_def)
qed

lemma close_socket_script [simp]: "kn_script (close_socket x k) = kn_script k"
  by (simp add: close_socket_def split: option.split)

definition sample_session :: "nat streams" where
  "sample_session = (new_streams ''1'')\<lparr>ss_track := ''a'',
     ss_audio := Some \<lparr>rc_data = 7, rc_control = 8, rc_audio = paused_audio\<rparr>\<rparr>"

theorem pause_spans_streams_witness:
  "\<exists>s1 k1 p s2 k2 b. stop_stream 5 96 sample_session ((boot all_ok)\<lparr>kn_open := [8, 7], kn_next := 9\<rparr>) = (s1, k1)
    \<and> setup_stream plain_crypto counting_decoder sample_env 96 sample_opts s1 k1 = (Some p, s2, k2)
    \<and> map_option rc_audio (ss_audio s2) = Some b
    \<and> au_paused b = [\<lparr>pf_rtp = 90, pf_samples = [9, 9], pf_target = 0\<rparr>]"
proof -
  let ?cy = "plain_crypto" and ?ops = "counting_decoder"
  let ?k = "(boot all_ok)\<lparr>kn_open := [8, 7], kn_next := 9\<rparr>"
  obtain s1 k1 where s1: "stop_stream 5 96 sample_session ?k = (s1, k1)" by fastforce
  have k1: "kn_script k1 = all_ok"
    using s1 by (auto simp: stop_stream_def suspend_audio_stream_def suspend_receiver_def close_channels_def
        sample_session_def new_streams_def boot_def split: prod.splits)
  have total: "\<exists>p s' k'. setup_stream ?cy ?ops sample_env 96 sample_opts s k1 = (Some p, s', k')" for s :: "nat streams"
    by (simp add: setup_stream_def setup_udp_def bind_udp_def next_answer_def open_socket_def k1 Let_def split: prod.split)
  obtain p s2 k2 where s2: "setup_stream ?cy ?ops sample_env 96 sample_opts s1 k1 = (Some p, s2, k2)"
    using total by blast
  obtain q s3 k3 where s3: "setup_stream ?cy ?ops sample_env 96 sample_opts (set_audio_track ''b'' s1) k1 = (Some q, s3, k3)"
    using total by blast
  have "au_paused paused_audio = [\<lparr>pf_rtp = 90, pf_samples = [9, 9], pf_target = 0\<rparr>]"
    by (simp add: paused_audio_def)
  then show ?thesis
    using s1 s2 pause_spans_streams [OF _ refl _ _ _ _ _ _ _ _ _ s1 s2 _ _ s3,
        of "\<lparr>rc_data = 7, rc_control = 8, rc_audio = paused_audio\<rparr>"]
    by (auto simp: sample_session_def new_streams_def paused_audio_def sample_audio_def idle_audio_def
        sample_config_def sample_opts_def sample_env_def)
qed

end
