(* ===== verification/Playlists.thy ===== *)
theory Playlists
  imports Prelude
begin

text \<open>
  The playlist functions of src/airplay/hls_session.cpp: expanding the condensed media playlists of
  YouTube, rewriting every URL of a playlist to a local path, reducing a master playlist to one
  variant, and collecting the media playlists a master names. The loops of the source advance a
  position in the string; the recursions here advance the rest of it.
\<close>

section \<open>Attributes and tokens\<close>

definition dquote :: char where "dquote = CHR 0x22"

definition extract_quoted_attr :: "string \<Rightarrow> string \<Rightarrow> string" where
  "extract_quoted_attr src key =
     (case find_from key src 0 of
        None \<Rightarrow> []
      | Some kp \<Rightarrow>
          (case find_from [dquote] src (kp + length key) of
             None \<Rightarrow> []
           | Some opening \<Rightarrow>
               (case find_from [dquote] src (opening + 1) of
                  None \<Rightarrow> []
                | Some closing \<Rightarrow> substr src (opening + 1) (closing - opening - 1))))"

text \<open>Splitting at a character: text after the last one is a token only when it is not empty.\<close>

function split_at_char :: "char \<Rightarrow> string \<Rightarrow> string list" where
  "split_at_char c s =
     (if s = [] then []
      else case find_pred (\<lambda>x. x = c) s of
             None \<Rightarrow> [s]
           | Some i \<Rightarrow> take i s # split_at_char c (drop (i + 1) s))"
  by pat_completeness auto
termination by (relation "measure (\<lambda>(c, s). length s)") auto

declare split_at_char.simps [simp del]

lemma split_at_char_Nil [simp]: "split_at_char c [] = []"
  by (simp add: split_at_char.simps)

lemma split_at_char_word: "c \<notin> set w \<Longrightarrow> split_at_char c (w @ c # s) = w # split_at_char c s"
proof -
  assume "c \<notin> set w"
  then have "find_pred (\<lambda>x. x = c) (w @ c # s) = Some (length w)" by (intro find_pred_skip) auto
  then show ?thesis by (subst split_at_char.simps) simp
qed

lemma split_at_char_last: "c \<notin> set w \<Longrightarrow> w \<noteq> [] \<Longrightarrow> split_at_char c w = [w]"
  by (subst split_at_char.simps) (auto simp: find_pred_None split: option.split dest!: find_pred_Some)

section \<open>Condensed media playlists\<close>

definition condensed_header :: string where
  "condensed_header = ''#YT-EXT-CONDENSED-URL''"

definition interleave :: "string list \<Rightarrow> string list \<Rightarrow> string" where
  "interleave params parts =
     concat (map (\<lambda>i. ''/'' @ params ! i @ ''/'' @ (if i < length parts then parts ! i else []))
       [0..<length params])"

text \<open>One chunk: a path that already has the keys is kept token by token, one that has only the
  values gets the keys in between; a final slash of the source is kept.\<close>

definition expand_chunk :: "string \<Rightarrow> string list \<Rightarrow> string \<Rightarrow> string" where
  "expand_chunk base_uri params condensed =
     (let parts = filter (\<lambda>t. t \<noteq> []) (split_at_char (CHR ''/'') condensed);
          url = base_uri @ (if hd params \<in> set parts then concat (map (\<lambda>t. ''/'' @ t) parts)
                            else interleave params parts)
      in if condensed \<noteq> [] \<and> last condensed = CHR ''/'' \<and> (url = [] \<or> last url \<noteq> CHR ''/'')
         then url @ ''/'' else url)"

definition line_end :: "string \<Rightarrow> nat \<Rightarrow> nat" where
  "line_end s pos = (case find_from [nl] s pos of None \<Rightarrow> length s | Some e \<Rightarrow> e)"

lemma line_end_ge: "pos \<le> length s \<Longrightarrow> pos \<le> line_end s pos \<and> line_end s pos \<le> length s"
  by (auto simp: line_end_def find_from_def split: option.split dest!: find_str_Some)

function expand_chunks :: "string \<Rightarrow> string list \<Rightarrow> string \<Rightarrow> string \<Rightarrow> string" where
  "expand_chunks base_uri params pre rest =
     (if rest = [] then []
      else case find_str ''#EXTINF'' rest of
             None \<Rightarrow> rest
           | Some extinf \<Rightarrow>
               (case find_from pre rest extinf of
                  None \<Rightarrow> rest
                | Some chunk \<Rightarrow>
                    (let url_end = line_end rest chunk;
                         condensed = substr rest (chunk + length pre) (url_end - chunk - length pre)
                     in take chunk rest @ expand_chunk base_uri params condensed @ [nl]
                        @ expand_chunks base_uri params pre (drop (url_end + 1) rest))))"
  by pat_completeness auto
termination by (relation "measure (\<lambda>(b, p, pre, rest). length rest)") auto

declare expand_chunks.simps [simp del]

definition expand_yt_condensed_playlist :: "string \<Rightarrow> string" where
  "expand_yt_condensed_playlist playlist =
     (case find_from condensed_header playlist 0 of
        None \<Rightarrow> playlist
      | Some hdr_pos \<Rightarrow>
          (case find_from [nl] playlist hdr_pos of
             None \<Rightarrow> playlist
           | Some hdr_eol \<Rightarrow>
               (let hdr_line = substr playlist hdr_pos (hdr_eol - hdr_pos);
                    base_uri = extract_quoted_attr hdr_line ''BASE-URI='';
                    params = extract_quoted_attr hdr_line ''PARAMS='';
                    pre = extract_quoted_attr hdr_line ''PREFIX=''
                in if base_uri = [] \<or> params = [] \<or> pre = [] then playlist
                   else expand_chunks base_uri (split_at_char (CHR '','') params) pre playlist)))"

section \<open>Local paths for segments\<close>

record seg_urls =
  sg_map :: "string \<rightharpoonup> string"
  sg_counter :: nat

definition seg_path :: "nat \<Rightarrow> string" where
  "seg_path n = ''/seg/'' @ show_nat n"

definition local_url :: "u16 \<Rightarrow> nat \<Rightarrow> string" where
  "local_url port n = ''http://localhost:'' @ show_nat (unat port) @ seg_path n"

definition register_local :: "u16 \<Rightarrow> string \<Rightarrow> seg_urls \<Rightarrow> string \<times> seg_urls" where
  "register_local port url sg =
     (local_url port (sg_counter sg),
      sg\<lparr>sg_map := (sg_map sg)(seg_path (sg_counter sg) \<mapsto> url), sg_counter := sg_counter sg + 1\<rparr>)"

definition absolute_url :: "string \<Rightarrow> bool" where
  "absolute_url raw \<longleftrightarrow> raw \<noteq> [] \<and> (prefix ''http://'' raw \<or> prefix ''https://'' raw
     \<or> prefix ''mlhls://'' raw \<or> prefix ''/'' raw)"

definition uri_attr :: string where
  "uri_attr = ''URI='' @ [dquote]"

text \<open>The attributes of one tag: the rest of the line after the last URL that was handled.\<close>

function rewrite_tag :: "u16 \<Rightarrow> string \<Rightarrow> seg_urls \<Rightarrow> string \<times> seg_urls \<times> nat" where
  "rewrite_tag port rest sg =
     (case find_str uri_attr rest of
        None \<Rightarrow> (rest, sg, 0)
      | Some p \<Rightarrow>
          (let v0 = p + length uri_attr
           in case find_from [dquote] rest v0 of
                None \<Rightarrow> (rest, sg, 0)
              | Some v1 \<Rightarrow>
                  (let raw = substr rest v0 (v1 - v0)
                   in if absolute_url raw
                      then (let (url, sg1) = register_local port raw sg;
                                (out, sg2, n) = rewrite_tag port (drop v1 rest) sg1
                            in (take v0 rest @ url @ out, sg2, n + 1))
                      else (let (out, sg2, n) = rewrite_tag port (drop (v1 + 1) rest) sg
                            in (take (v1 + 1) rest @ out, sg2, n)))))"
  by pat_completeness auto
termination
  by (relation "measure (\<lambda>(port, rest, sg). length rest)")
    (auto simp: find_from_def uri_attr_def split: if_splits dest!: find_str_Some)

declare rewrite_tag.simps [simp del]

definition is_uri_line :: "string \<Rightarrow> bool" where
  "is_uri_line line \<longleftrightarrow> line \<noteq> [] \<and> hd line \<notin> {CHR ''#'', CHR '' '', CHR 0x09, CHR 0x0D}"

definition strip_cr :: "string \<Rightarrow> string" where
  "strip_cr line = (if line \<noteq> [] \<and> last line = CHR 0x0D then butlast line else line)"

definition rewrite_line :: "u16 \<Rightarrow> string \<Rightarrow> seg_urls \<Rightarrow> string \<times> seg_urls \<times> nat" where
  "rewrite_line port line sg =
     (if \<not> is_uri_line line then rewrite_tag port line sg
      else (let (url, sg1) = register_local port (strip_cr line) sg in (url, sg1, 1)))"

function rewrite_segments_to_local :: "u16 \<Rightarrow> string \<Rightarrow> seg_urls \<Rightarrow> string \<times> seg_urls \<times> nat" where
  "rewrite_segments_to_local port expanded sg =
     (if expanded = [] then ([], sg, 0)
      else case find_pred (\<lambda>c. c = nl) expanded of
             None \<Rightarrow> rewrite_line port expanded sg
           | Some eol \<Rightarrow>
               (let (line, sg1, n) = rewrite_line port (take eol expanded) sg;
                    (out, sg2, m) = rewrite_segments_to_local port (drop (eol + 1) expanded) sg1
                in (line @ [nl] @ out, sg2, n + m)))"
  by pat_completeness auto
termination by (relation "measure (\<lambda>(port, s, sg). length s)") auto

declare rewrite_segments_to_local.simps [simp del]

section \<open>One variant of a master playlist\<close>

definition quoted :: "string \<Rightarrow> string \<Rightarrow> string" where
  "quoted line key =
     (case find_from key line 0 of
        None \<Rightarrow> []
      | Some p \<Rightarrow>
          (case find_from [dquote] line p of
             None \<Rightarrow> []
           | Some opening \<Rightarrow>
               (case find_from [dquote] line (opening + 1) of
                  None \<Rightarrow> []
                | Some closing \<Rightarrow> substr line (opening + 1) (closing - opening - 1))))"

definition bare_attr :: "string \<Rightarrow> string \<Rightarrow> string" where
  "bare_attr line key =
     (case find_from key line 0 of
        None \<Rightarrow> []
      | Some p \<Rightarrow>
          (let start = p + length key
           in case find_pred_from (\<lambda>c. c \<in> {CHR '','', CHR 0x0D, CHR 0x0A, CHR '' ''}) line start of
                None \<Rightarrow> drop start line
              | Some e \<Rightarrow> substr line start (e - start)))"

definition playlist_lines :: "string \<Rightarrow> string list" where
  "playlist_lines s = map strip_cr (split_at_char nl s)"

definition stream_inf :: "string \<Rightarrow> bool" where
  "stream_inf l \<longleftrightarrow> prefix ''#EXT-X-STREAM-INF:'' l"

definition media_tag :: "string \<Rightarrow> bool" where
  "media_tag l \<longleftrightarrow> prefix ''#EXT-X-MEDIA:'' l"

definition audio_group :: "string list \<Rightarrow> string" where
  "audio_group ls = (case filter stream_inf ls of [] \<Rightarrow> [] | l # _ \<Rightarrow> quoted l ''AUDIO='')"

definition is_yes :: "string \<Rightarrow> bool" where
  "is_yes s \<longleftrightarrow> s = ''YES'' \<or> s = ''yes'' \<or> s = ''1''"

definition looks_french :: "string \<Rightarrow> bool" where
  "looks_french line =
     (let lang = to_lower (quoted line ''LANGUAGE=''); name = to_lower (quoted line ''NAME='')
      in lang = ''fr'' \<or> lang = ''fra'' \<or> lang = ''fre'' \<or> prefix ''fr-'' lang
         \<or> find_str ''franc'' name \<noteq> None \<or> find_str ''french'' name \<noteq> None)"

definition audio_score :: "string \<Rightarrow> int" where
  "audio_score l = 1 + (if is_yes (quoted l ''AUTOSELECT='') then 10 else 0)
     + (if is_yes (quoted l ''DEFAULT='') then 20 else 0) + (if looks_french l then 100 else 0)"

definition audio_candidate :: "string \<Rightarrow> string \<Rightarrow> bool" where
  "audio_candidate grp l \<longleftrightarrow> media_tag l \<and> bare_attr l ''TYPE='' = ''AUDIO''
     \<and> (grp = [] \<or> quoted l ''GROUP-ID='' = grp)"

fun choose_audio :: "string \<Rightarrow> string list \<Rightarrow> nat \<Rightarrow> int \<Rightarrow> nat option \<Rightarrow> nat option" where
  "choose_audio grp [] i best chosen = chosen"
| "choose_audio grp (l # ls) i best chosen =
     (if audio_candidate grp l \<and> audio_score l > best
      then choose_audio grp ls (i + 1) (audio_score l) (Some i)
      else choose_audio grp ls (i + 1) best chosen)"

fun keep_lines :: "nat option \<Rightarrow> nat \<Rightarrow> bool \<Rightarrow> string list \<Rightarrow> string" where
  "keep_lines chosen i emitted [] = []"
| "keep_lines chosen i emitted (l # ls) =
     (if media_tag l
      then (if bare_attr l ''TYPE='' = ''AUDIO'' \<and> chosen = Some i then l @ [nl] else [])
           @ keep_lines chosen (i + 1) emitted ls
      else if stream_inf l
      then (case ls of
              [] \<Rightarrow> (if emitted then [] else l @ [nl])
            | uri # rest \<Rightarrow> (if emitted then [] else l @ [nl] @ uri @ [nl]) @ keep_lines chosen (i + 2) True rest)
      else l @ (if ls \<noteq> [] then [nl] else []) @ keep_lines chosen (i + 1) emitted ls)"

definition filter_master_to_single_variant :: "string \<Rightarrow> string" where
  "filter_master_to_single_variant master =
     (let ls = playlist_lines master
      in keep_lines (choose_audio (audio_group ls) ls 0 (-1) None) 0 False ls)"

section \<open>The media playlists a master names\<close>

definition media_prefix :: string where "media_prefix = ''mlhls://localhost/''"
definition media_suffix :: string where "media_suffix = ''.m3u8''"

function collect_uris :: "string \<Rightarrow> string list \<Rightarrow> string list" where
  "collect_uris rest out =
     (case find_str media_prefix rest of
        None \<Rightarrow> out
      | Some pos \<Rightarrow>
          (case find_from media_suffix rest pos of
             None \<Rightarrow> out
           | Some e \<Rightarrow>
               (let stop = e + length media_suffix; uri = substr rest pos (stop - pos)
                in collect_uris (drop stop rest) (if uri \<in> set out then out else out @ [uri]))))"
  by pat_completeness auto
termination
  by (relation "measure (\<lambda>(rest, out). length rest)")
    (auto simp: find_from_def media_prefix_def media_suffix_def split: if_splits dest!: find_str_Some)

declare collect_uris.simps [simp del]

definition extract_media_uris :: "string \<Rightarrow> string list" where
  "extract_media_uris master = collect_uris master []"

section \<open>Expansion, chunk by chunk\<close>

text \<open>A chunk is the text up to the condensed path, which contains an EXTINF tag after which the prefix
  does not occur earlier, and the path.\<close>

definition wf_chunk :: "string \<Rightarrow> string \<times> string \<Rightarrow> bool" where
  "wf_chunk pre = (\<lambda>(tags, condensed). nl \<notin> set condensed
     \<and> (case find_str ''#EXTINF'' tags of
           None \<Rightarrow> False
         | Some k \<Rightarrow> find_from pre (tags @ pre) k = Some (length tags)))"

definition condensed_text :: "string \<Rightarrow> (string \<times> string) list \<Rightarrow> string" where
  "condensed_text pre chunks = concat (map (\<lambda>(tags, c). tags @ pre @ c @ [nl]) chunks)"

definition expanded_text :: "string \<Rightarrow> string list \<Rightarrow> (string \<times> string) list \<Rightarrow> string" where
  "expanded_text base_uri params chunks =
     concat (map (\<lambda>(tags, c). tags @ expand_chunk base_uri params c @ [nl]) chunks)"

lemma find_from_prefix: "find_from pat s k = Some i \<Longrightarrow> find_from pat (s @ t) k = Some i"
  by (auto simp: find_from_def find_str_append split: if_splits)

lemma find_nl: "nl \<notin> set c \<Longrightarrow> find_str [nl] (c @ nl # r) = Some (length c)"
  using find_str_skip [of nl c "[]" r] by simp

lemma expand_one_chunk:
  assumes "wf_chunk pre (tags, c)" and "nl \<notin> set pre"
  shows "expand_chunks b ps pre (tags @ pre @ c @ nl # r) = tags @ expand_chunk b ps c @ [nl] @ expand_chunks b ps pre r"
proof -
  let ?rest = "tags @ pre @ c @ nl # r"
  obtain k where k: "find_str ''#EXTINF'' tags = Some k" "find_from pre (tags @ pre) k = Some (length tags)"
      "nl \<notin> set c"
    using assms(1) by (auto simp: wf_chunk_def split: option.splits)
  have 1: "find_str ''#EXTINF'' ?rest = Some k" using find_str_append [OF k(1)] by simp
  have 2: "find_from pre ?rest k = Some (length tags)"
    using find_from_prefix [OF k(2), of "c @ nl # r"] by simp
  have 3: "line_end ?rest (length tags) = length tags + length pre + length c"
    using find_nl [of "pre @ c" r] assms(2) k(3) by (simp add: line_end_def find_from_def)
  have 4: "substr ?rest (length tags + length pre) (length c) = c" "drop (length tags + length pre + length c + 1) ?rest = r"
    by (simp_all add: substr_def)
  show ?thesis
    by (subst expand_chunks.simps) (use 1 2 3 4 in \<open>simp add: Let_def\<close>)
qed

lemma expand_chunk_list:
  assumes "list_all (wf_chunk pre) chunks" and "nl \<notin> set pre" and "find_str ''#EXTINF'' end_text = None"
  shows "expand_chunks b ps pre (condensed_text pre chunks @ end_text) = expanded_text b ps chunks @ end_text"
  using assms(1)
proof (induction chunks)
  case Nil
  then show ?case
    using assms(3) by (subst expand_chunks.simps) (simp add: condensed_text_def expanded_text_def)
next
  case (Cons ch chunks)
  obtain tags c where ch: "ch = (tags, c)" by fastforce
  then show ?case
    using expand_one_chunk [of pre tags c b ps "condensed_text pre chunks @ end_text"] Cons assms(2)
    by (simp add: condensed_text_def expanded_text_def)
qed

lemma set_substr: "set (substr s i n) \<subseteq> set s"
  unfolding substr_def by (meson order_trans set_drop_subset set_take_subset)

lemma set_extract_quoted_attr: "set (extract_quoted_attr src key) \<subseteq> set src"
  by (auto simp: extract_quoted_attr_def split: option.splits dest: set_substr [THEN subsetD])

lemma expand_with_header:
  assumes "find_str condensed_header (intro @ hdr) = Some (length intro)" and "nl \<notin> set hdr"
    and "b = extract_quoted_attr hdr ''BASE-URI=''" and "p = extract_quoted_attr hdr ''PARAMS=''"
    and "q = extract_quoted_attr hdr ''PREFIX=''" and "b \<noteq> []" and "p \<noteq> []" and "q \<noteq> []"
  shows "expand_yt_condensed_playlist (intro @ hdr @ nl # r)
    = expand_chunks b (split_at_char (CHR '','') p) q (intro @ hdr @ nl # r)"
proof -
  have 1: "find_from condensed_header (intro @ hdr @ nl # r) 0 = Some (length intro)"
    using find_str_append [OF assms(1), of "nl # r"] by (simp add: find_from_def)
  have 2: "find_from [nl] (intro @ hdr @ nl # r) (length intro) = Some (length intro + length hdr)"
    using find_nl [OF assms(2)] by (simp add: find_from_def)
  have 3: "substr (intro @ hdr @ nl # r) (length intro) (length hdr) = hdr" by (simp add: substr_def)
  show ?thesis
    unfolding expand_yt_condensed_playlist_def using 1 2 3 assms(3-8) by (simp add: Let_def)
qed

subsection \<open>What a condensed path stands for\<close>

text \<open>
  The reference, from the sender's side. A segment is sent by its values, in the order of the keys of the header
  (the last ones may be missing), or with its keys: some directories, keys with their values, and perhaps a key
  at the end that has none. Its full address has every key before its value.
\<close>

datatype segment =
    By_position "string list"
  | By_name "string list" "(string \<times> string) list" "string option"

fun sent_words :: "segment \<Rightarrow> string list" where
  "sent_words (By_position vs) = vs"
| "sent_words (By_name dirs kvs bare) = dirs @ concat (map (\<lambda>(k, v). [k, v]) kvs) @ (case bare of None \<Rightarrow> [] | Some k \<Rightarrow> [k])"

fun segment_ok :: "string list \<Rightarrow> segment \<Rightarrow> bool" where
  "segment_ok keys (By_position vs) \<longleftrightarrow> length vs \<le> length keys \<and> hd keys \<notin> set vs"
| "segment_ok keys (By_name dirs kvs bare) \<longleftrightarrow> hd keys \<in> fst ` set kvs \<or> bare = Some (hd keys)"

fun keyed_path :: "(string \<times> string) list \<Rightarrow> string" where
  "keyed_path [] = []"
| "keyed_path ((k, v) # kvs) = ''/'' @ k @ ''/'' @ v @ keyed_path kvs"

fun full_address :: "string \<Rightarrow> string list \<Rightarrow> segment \<Rightarrow> string" where
  "full_address base keys (By_position vs) = base @ keyed_path (zip keys (vs @ replicate (length keys - length vs) []))"
| "full_address base keys (By_name dirs kvs bare) =
     base @ concat (map (\<lambda>d. ''/'' @ d) dirs) @ keyed_path kvs @ (case bare of None \<Rightarrow> [] | Some k \<Rightarrow> ''/'' @ k)"

text \<open>A path spells words when it is these words with slashes between them, perhaps several, and perhaps around them.\<close>

inductive spells :: "string \<Rightarrow> string list \<Rightarrow> bool" where
  spells_end: "spells (replicate n (CHR ''/'')) []"
| spells_word: "w \<noteq> [] \<Longrightarrow> CHR ''/'' \<notin> set w \<Longrightarrow> spells t ws \<Longrightarrow> t = [] \<or> hd t = CHR ''/''
    \<Longrightarrow> spells (replicate n (CHR ''/'') @ w @ t) (w # ws)"

text \<open>The address ends with a slash when the path did.\<close>

definition ends_like :: "string \<Rightarrow> string \<Rightarrow> string" where
  "ends_like t url = (if suffix ''/'' t \<and> \<not> suffix ''/'' url then url @ ''/'' else url)"

fun joined :: "char \<Rightarrow> string list \<Rightarrow> string" where
  "joined c [] = []"
| "joined c [w] = w"
| "joined c (w # ws) = w @ c # joined c ws"

text \<open>The first time the key stands in the line, it is followed by the value in quotes.\<close>

definition has_attr :: "string \<Rightarrow> string \<Rightarrow> string \<Rightarrow> bool" where
  "has_attr line key v \<longleftrightarrow> dquote \<notin> set v \<and>
     (\<exists>u w. line = u @ key @ [dquote] @ v @ [dquote] @ w \<and> find_str key line = Some (length u))"

lemma has_attr_extract: "has_attr line key v \<Longrightarrow> extract_quoted_attr line key = v"
proof -
  assume "has_attr line key v"
  then obtain u w where l: "dquote \<notin> set v" "line = u @ key @ [dquote] @ v @ [dquote] @ w" "find_str key line = Some (length u)"
    by (auto simp: has_attr_def)
  have "find_from key line 0 = Some (length u)" using l(3) by (simp add: find_from_def)
  moreover have "find_from [dquote] line (length u + length key) = Some (length u + length key)"
    using find_str_skip [of dquote "[]" "[]" "v @ [dquote] @ w"] by (simp add: l(2) find_from_def)
  moreover have "find_from [dquote] line (length u + length key + 1) = Some (length u + length key + 1 + length v)"
    using find_str_skip [OF l(1), of "[]" w] by (simp add: l(2) find_from_def)
  moreover have "substr line (length u + length key + 1) (length v) = v" by (simp add: l(2) substr_def)
  ultimately show ?thesis by (simp add: extract_quoted_attr_def)
qed

lemma split_joined: "keys \<noteq> [] \<Longrightarrow> list_all (\<lambda>k. k \<noteq> [] \<and> c \<notin> set k) keys \<Longrightarrow> split_at_char c (joined c keys) = keys"
  by (induction c keys rule: joined.induct) (simp_all add: split_at_char_last split_at_char_word)

lemma split_slashes: "split_at_char c (replicate n c @ t) = replicate n [] @ split_at_char c t"
proof (induction n)
  case (Suc n)
  then show ?case using split_at_char_word [of c "[]" "replicate n c @ t"] by simp
qed simp

lemma spells_split: "spells t ws \<Longrightarrow> filter (\<lambda>w. w \<noteq> []) (split_at_char (CHR ''/'') t) = ws"
proof (induction rule: spells.induct)
  case (spells_end n)
  then show ?case using split_slashes [of "CHR ''/''" n "[]"] by simp
next
  case (spells_word w t ws n)
  have "filter (\<lambda>w. w \<noteq> []) (split_at_char (CHR ''/'') (w @ t)) = w # ws"
  proof (cases t)
    case Nil
    then show ?thesis using spells_word split_at_char_last [of "CHR ''/''" w] by simp
  next
    case (Cons c t')
    then have c: "t = CHR ''/'' # t'" using spells_word.hyps(4) by simp
    have "split_at_char (CHR ''/'') t = [] # split_at_char (CHR ''/'') t'"
      using split_at_char_word [of "CHR ''/''" "[]" t'] c by simp
    then have "filter (\<lambda>w. w \<noteq> []) (split_at_char (CHR ''/'') t') = ws" using spells_word.IH by simp
    then show ?thesis using spells_word.hyps(1) split_at_char_word [OF spells_word.hyps(2), of t'] c by simp
  qed
  then show ?case by (simp add: split_slashes)
qed

lemma interleave_keyed:
  "length vs \<le> length keys \<Longrightarrow> interleave keys vs = keyed_path (zip keys (vs @ replicate (length keys - length vs) []))"
proof (induction keys arbitrary: vs)
  case Nil
  then show ?case by (simp add: interleave_def)
next
  case (Cons k keys)
  have shift: "interleave (k # keys) us = ''/'' @ k @ ''/'' @ (if us = [] then [] else hd us) @ interleave keys (tl us)" for us
    by (cases us) (simp_all add: interleave_def map_upt_Suc del: upt_Suc cong: if_cong)
  show ?case using Cons.IH [of "tl vs"] Cons.prems by (cases vs) (auto simp: shift)
qed

lemma named_path: "concat (map ((@) ''/'') (concat (map (\<lambda>(k, v). [k, v]) kvs))) = keyed_path kvs"
  by (induction kvs rule: keyed_path.induct) simp_all

lemma ends_like_last: "ends_like t url = (if t \<noteq> [] \<and> last t = CHR ''/'' \<and> (url = [] \<or> last url \<noteq> CHR ''/'') then url @ ''/'' else url)"
proof -
  have "suffix ''/'' s \<longleftrightarrow> s \<noteq> [] \<and> last s = CHR ''/''" for s :: string
    by (cases s rule: rev_cases) (auto simp: suffix_def)
  then show ?thesis by (auto simp: ends_like_def)
qed

lemma expand_chunk_full:
  assumes "spells t (sent_words sg)" and "segment_ok keys sg"
  shows "expand_chunk base keys t = ends_like t (full_address base keys sg)"
proof (cases sg)
  case (By_position vs)
  then have "filter (\<lambda>w. w \<noteq> []) (split_at_char (CHR ''/'') t) = vs" using spells_split [OF assms(1)] by simp
  then show ?thesis
    using assms(2) By_position interleave_keyed [of vs keys] by (simp add: expand_chunk_def ends_like_last Let_def)
next
  case (By_name dirs kvs bare)
  have "hd keys \<in> set (sent_words sg)" using assms(2) By_name by force
  moreover have "full_address base keys sg = base @ concat (map ((@) ''/'') (sent_words sg))"
    using By_name named_path [of kvs] by (simp split: option.split)
  ultimately show ?thesis
    using spells_split [OF assms(1)] by (simp add: expand_chunk_def ends_like_last Let_def)
qed

text \<open>A value that is the first key makes a path of values look like one with its keys, and it is taken as it is.\<close>

lemma value_like_key: "expand_chunk ''b'' [''s'', ''t''] ''/s/1'' = ''b/s/1''"
  by code_simp

section \<open>Rewriting, piece by piece\<close>

text \<open>The reference: a playlist is a sequence of texts that stay and of addresses.\<close>

datatype piece = Verbatim string | Address string

fun piece_text :: "piece \<Rightarrow> string" where
  "piece_text (Verbatim s) = s"
| "piece_text (Address u) = u"

fun addresses :: "piece list \<Rightarrow> string list" where
  "addresses [] = []"
| "addresses (Verbatim s # ps) = addresses ps"
| "addresses (Address u # ps) = u # addresses ps"

fun render_pieces :: "u16 \<Rightarrow> nat \<Rightarrow> piece list \<Rightarrow> string" where
  "render_pieces port n [] = []"
| "render_pieces port n (Verbatim s # ps) = s @ render_pieces port n ps"
| "render_pieces port n (Address u # ps) = local_url port n @ render_pieces port (n + 1) ps"

lemma addresses_append [simp]: "addresses (ps @ qs) = addresses ps @ addresses qs"
  by (induction ps rule: addresses.induct) simp_all

lemma render_append [simp]:
  "render_pieces port n (ps @ qs) = render_pieces port n ps @ render_pieces port (n + length (addresses ps)) qs"
  by (induction port n ps rule: render_pieces.induct) simp_all

function tag_pieces :: "string \<Rightarrow> piece list" where
  "tag_pieces rest =
     (case find_str uri_attr rest of
        None \<Rightarrow> [Verbatim rest]
      | Some p \<Rightarrow>
          (let v0 = p + length uri_attr
           in case find_from [dquote] rest v0 of
                None \<Rightarrow> [Verbatim rest]
              | Some v1 \<Rightarrow>
                  (if absolute_url (substr rest v0 (v1 - v0))
                   then Verbatim (take v0 rest) # Address (substr rest v0 (v1 - v0)) # tag_pieces (drop v1 rest)
                   else Verbatim (take (v1 + 1) rest) # tag_pieces (drop (v1 + 1) rest))))"
  by pat_completeness auto
termination
  by (relation "measure length")
    (auto simp: find_from_def uri_attr_def split: if_splits dest!: find_str_Some)

declare tag_pieces.simps [simp del]

definition line_pieces :: "string \<Rightarrow> piece list" where
  "line_pieces line = (if is_uri_line line then [Address (strip_cr line)] else tag_pieces line)"

function playlist_pieces :: "string \<Rightarrow> piece list" where
  "playlist_pieces s =
     (if s = [] then []
      else case find_pred (\<lambda>c. c = nl) s of
             None \<Rightarrow> line_pieces s
           | Some eol \<Rightarrow> line_pieces (take eol s) @ Verbatim [nl] # playlist_pieces (drop (eol + 1) s))"
  by pat_completeness auto
termination by (relation "measure length") auto

declare playlist_pieces.simps [simp del]

text \<open>The pieces put together are the playlist, without the carriage returns of the address lines.\<close>

lemma find_from_ge: "find_from pat s k = Some i \<Longrightarrow> k \<le> i \<and> i + length pat \<le> length s"
  by (auto simp: find_from_def split: if_splits dest!: find_str_Some)

lemma take_substr_drop: "i \<le> j \<Longrightarrow> take i s @ substr s i (j - i) @ drop j s = s"
  unfolding substr_def by (metis append_take_drop_id drop_drop le_add_diff_inverse2)

lemma tag_pieces_text: "concat (map piece_text (tag_pieces s)) = s"
proof (induction s rule: tag_pieces.induct)
  case (1 rest)
  show ?case
  proof (cases "find_str uri_attr rest")
    case None
    then show ?thesis by (simp add: tag_pieces.simps [of rest])
  next
    case (Some p)
    show ?thesis
    proof (cases "find_from [dquote] rest (p + length uri_attr)")
      case None
      then show ?thesis using Some by (simp add: tag_pieces.simps [of rest])
    next
      case (Some v1)
      note f = \<open>find_str uri_attr rest = Some p\<close> Some
      show ?thesis
        using "1.IH" f find_from_ge [OF Some] take_substr_drop [of "p + length uri_attr" v1 rest]
        by (cases "absolute_url (substr rest (p + length uri_attr) (v1 - (p + length uri_attr)))")
          (simp_all add: tag_pieces.simps [of rest] Let_def)
    qed
  qed
qed

section \<open>The rewriting follows the pieces\<close>

fun register_all :: "string list \<Rightarrow> seg_urls \<Rightarrow> seg_urls" where
  "register_all [] sg = sg"
| "register_all (u # us) sg =
     register_all us (sg\<lparr>sg_map := (sg_map sg)(seg_path (sg_counter sg) \<mapsto> u), sg_counter := sg_counter sg + 1\<rparr>)"

lemma register_all_append [simp]: "register_all (us @ vs) sg = register_all vs (register_all us sg)"
  by (induction us arbitrary: sg) simp_all

lemma register_all_counter [simp]: "sg_counter (register_all us sg) = sg_counter sg + length us"
  by (induction us arbitrary: sg) simp_all

lemma rewrite_tag_pieces:
  "rewrite_tag port rest sg = (render_pieces port (sg_counter sg) (tag_pieces rest),
     register_all (addresses (tag_pieces rest)) sg, length (addresses (tag_pieces rest)))"
proof (induction port rest sg rule: rewrite_tag.induct)
  case (1 port rest sg)
  show ?case
  proof (cases "find_str uri_attr rest")
    case None
    then show ?thesis by (simp add: rewrite_tag.simps [of port rest] tag_pieces.simps [of rest])
  next
    case (Some p)
    show ?thesis
    proof (cases "find_from [dquote] rest (p + length uri_attr)")
      case None
      then show ?thesis using Some by (simp add: rewrite_tag.simps [of port rest] tag_pieces.simps [of rest])
    next
      case (Some v1)
      note f = \<open>find_str uri_attr rest = Some p\<close> Some
      show ?thesis
      proof (cases "absolute_url (substr rest (p + length uri_attr) (v1 - (p + length uri_attr)))")
        case True
        then show ?thesis
          using "1.IH"(1) [OF f(1) refl f(2) refl True] f
          by (simp add: rewrite_tag.simps [of port rest] tag_pieces.simps [of rest] register_local_def Let_def)
      next
        case False
        then show ?thesis
          using "1.IH"(2) [OF f(1) refl f(2) refl False] f
          by (simp add: rewrite_tag.simps [of port rest] tag_pieces.simps [of rest] Let_def)
      qed
    qed
  qed
qed

lemma rewrite_line_pieces:
  "rewrite_line port line sg = (render_pieces port (sg_counter sg) (line_pieces line),
     register_all (addresses (line_pieces line)) sg, length (addresses (line_pieces line)))"
  by (simp add: rewrite_line_def line_pieces_def rewrite_tag_pieces register_local_def)

lemma rewrite_pieces:
  "rewrite_segments_to_local port s sg = (render_pieces port (sg_counter sg) (playlist_pieces s),
     register_all (addresses (playlist_pieces s)) sg, length (addresses (playlist_pieces s)))"
proof (induction port s sg rule: rewrite_segments_to_local.induct)
  case (1 port s sg)
  show ?case
  proof (cases "s = []")
    case True
    then show ?thesis by (simp add: rewrite_segments_to_local.simps playlist_pieces.simps)
  next
    case False
    show ?thesis
    proof (cases "find_pred (\<lambda>c. c = nl) s")
      case None
      then show ?thesis
        using False by (simp add: rewrite_segments_to_local.simps [of port s] playlist_pieces.simps [of s] rewrite_line_pieces)
    next
      case (Some eol)
      show ?thesis
        using "1.IH" [OF False Some rewrite_line_pieces [symmetric] refl] False Some
        by (simp add: rewrite_segments_to_local.simps [of port s] playlist_pieces.simps [of s] rewrite_line_pieces)
    qed
  qed
qed

lemma seg_path_inj [simp]: "seg_path m = seg_path n \<longleftrightarrow> m = n"
  by (auto simp: seg_path_def dest: arg_cong [of _ _ dec_value])

lemma register_all_old: "k < sg_counter sg \<Longrightarrow> sg_map (register_all us sg) (seg_path k) = sg_map sg (seg_path k)"
  by (induction us arbitrary: sg) auto

lemma register_all_new:
  "i < length us \<Longrightarrow> sg_map (register_all us sg) (seg_path (sg_counter sg + i)) = Some (us ! i)"
proof (induction us arbitrary: sg i)
  case (Cons u us)
  let ?sg = "sg\<lparr>sg_map := (sg_map sg)(seg_path (sg_counter sg) \<mapsto> u), sg_counter := sg_counter sg + 1\<rparr>"
  show ?case
  proof (cases i)
    case 0
    then show ?thesis using register_all_old [of "sg_counter sg" ?sg us] by simp
  next
    case (Suc j)
    then show ?thesis using Cons.IH [of j ?sg] Cons.prems by simp
  qed
qed simp

section \<open>The filtered master\<close>

text \<open>The lines the filter emits; the text is these lines with newlines in between.\<close>

fun kept :: "nat option \<Rightarrow> nat \<Rightarrow> bool \<Rightarrow> string list \<Rightarrow> string list" where
  "kept chosen i emitted [] = []"
| "kept chosen i emitted (l # ls) =
     (if media_tag l
      then (if bare_attr l ''TYPE='' = ''AUDIO'' \<and> chosen = Some i then [l] else []) @ kept chosen (i + 1) emitted ls
      else if stream_inf l
      then (case ls of
              [] \<Rightarrow> (if emitted then [] else [l])
            | uri # rest \<Rightarrow> (if emitted then [] else [l, uri]) @ kept chosen (i + 2) True rest)
      else l # kept chosen (i + 1) emitted ls)"

lemma keep_lines_kept:
  assumes "\<not> P []"
  shows "list_all (\<lambda>l. nl \<notin> set l) ls \<Longrightarrow>
    filter P (split_at_char nl (keep_lines chosen i emitted ls)) = filter P (kept chosen i emitted ls)"
proof (induction chosen i emitted ls rule: kept.induct)
  case (1 chosen i emitted)
  then show ?case by simp
next
  case (2 chosen i emitted l ls)
  have l: "nl \<notin> set l" using "2.prems" by simp
  have last: "filter P (split_at_char nl l) = filter P [l]"
    using l assms by (cases "l = []") (simp_all add: split_at_char_last)
  have word: "filter P (split_at_char nl (l @ nl # r)) = filter P [l] @ filter P (split_at_char nl r)" for r
    by (simp add: split_at_char_word [OF l])
  show ?case
  proof (cases "media_tag l")
    case True
    then show ?thesis
      using "2.IH"(1) [OF True] "2.prems" word
      by (cases "bare_attr l ''TYPE='' = ''AUDIO'' \<and> chosen = Some i") auto
  next
    case m: False
    show ?thesis
    proof (cases "stream_inf l")
      case True
      show ?thesis
      proof (cases ls)
        case Nil
        then show ?thesis using m True word [of "[]"] by simp
      next
        case (Cons u r)
        have u: "nl \<notin> set u" using "2.prems" Cons by simp
        show ?thesis
          using "2.IH"(2) [OF m True Cons] "2.prems" Cons m True word by (simp add: split_at_char_word [OF u])
      qed
    next
      case False
      then show ?thesis
        using "2.IH"(3) [OF m False] "2.prems" m word last by (cases "ls = []") simp_all
    qed
  qed
qed

text \<open>A master is regular when the line after a STREAM-INF is not itself one of the two tags.\<close>

fun regular :: "string list \<Rightarrow> bool" where
  "regular [] = True"
| "regular (l # ls) =
     (if stream_inf l then (case ls of [] \<Rightarrow> True | u # r \<Rightarrow> \<not> stream_inf u \<and> \<not> media_tag u \<and> regular r)
      else regular ls)"

lemma tags_apart: "media_tag l \<Longrightarrow> \<not> stream_inf l"
  by (auto simp: media_tag_def stream_inf_def prefix_def)

lemma kept_stream_inf:
  "regular ls \<Longrightarrow> filter stream_inf (kept chosen i emitted ls) = (if emitted then [] else take 1 (filter stream_inf ls))"
proof (induction chosen i emitted ls rule: kept.induct)
  case (2 chosen i emitted l ls)
  show ?case
  proof (cases "stream_inf l")
    case True
    then have "\<not> media_tag l" using tags_apart by blast
    then show ?thesis using 2 True by (cases ls) simp_all
  next
    case False
    then show ?thesis using 2 by (cases "media_tag l") (simp_all add: tags_apart)
  qed
qed simp

definition nth_media :: "nat option \<Rightarrow> nat \<Rightarrow> string list \<Rightarrow> string list" where
  "nth_media chosen i ls = (case chosen of
     None \<Rightarrow> []
   | Some j \<Rightarrow> (if i \<le> j \<and> j < i + length ls \<and> media_tag (ls ! (j - i)) \<and> bare_attr (ls ! (j - i)) ''TYPE='' = ''AUDIO''
                then [ls ! (j - i)] else []))"

lemma nth_media_Cons:
  "nth_media chosen i (l # ls) =
     (if chosen = Some i then (if media_tag l \<and> bare_attr l ''TYPE='' = ''AUDIO'' then [l] else [])
      else nth_media chosen (i + 1) ls)"
proof (cases chosen)
  case (Some j)
  consider "j < i" | "j = i" | "i < j" by linarith
  then show ?thesis
  proof cases
    case 3
    then have "(l # ls) ! (j - i) = ls ! (j - Suc i)" by (simp add: nth_Cons')
    then show ?thesis using Some 3 by (auto simp: nth_media_def)
  qed (use Some in \<open>simp_all add: nth_media_def\<close>)
qed (simp add: nth_media_def)

lemma nth_media_past: "chosen = Some j \<Longrightarrow> j < i \<Longrightarrow> nth_media chosen i ls = []"
  by (simp add: nth_media_def)

lemma kept_media:
  "regular ls \<Longrightarrow> filter media_tag (kept chosen i emitted ls) = nth_media chosen i ls"
proof (induction chosen i emitted ls rule: kept.induct)
  case (1 chosen i emitted)
  then show ?case by (cases chosen) (auto simp: nth_media_def)
next
  case (2 chosen i emitted l ls)
  show ?case
  proof (cases "media_tag l")
    case True
    then have "regular ls" using "2.prems" tags_apart [OF True] by simp
    then have "filter media_tag (kept chosen (i + 1) emitted ls) = nth_media chosen (i + 1) ls"
      using "2.IH"(1) [OF True] by simp
    then show ?thesis
      using True nth_media_past [of chosen i "i + 1" ls] by (simp add: nth_media_Cons)
  next
    case m: False
    show ?thesis
    proof (cases "stream_inf l")
      case True
      show ?thesis
      proof (cases ls)
        case Nil
        then show ?thesis
          using m True by (cases chosen) (auto simp: nth_media_def nth_Cons')
      next
        case (Cons u r)
        then have u: "\<not> media_tag u" "regular r" using "2.prems" True by simp_all
        have "filter media_tag (kept chosen (i + 2) True r) = nth_media chosen (i + 2) r"
          using "2.IH"(2) [OF m True Cons] u(2) by simp
        moreover have "nth_media chosen i (l # ls) = nth_media chosen (i + 2) r"
        proof -
          have "nth_media chosen (i + 2) r = []" if "chosen = Some i \<or> chosen = Some (i + 1)"
            using that by (auto simp: nth_media_def)
          then show ?thesis using m u(1) Cons by (auto simp: nth_media_Cons)
        qed
        ultimately show ?thesis using m True Cons u by simp
      qed
    next
      case False
      then have "filter media_tag (kept chosen (i + 1) emitted ls) = nth_media chosen (i + 1) ls"
        using "2.IH"(3) [OF m False] "2.prems" by simp
      then show ?thesis
        using m False nth_media_past [of chosen i "i + 1" ls] by (auto simp: nth_media_Cons)
    qed
  qed
qed

text \<open>The rendition that is chosen has the best score, and is the first with it.\<close>

lemma choose_audio_best:
  "choose_audio grp ls i best chosen = r \<Longrightarrow>
     (r = chosen \<and> (\<forall>k < length ls. audio_candidate grp (ls ! k) \<longrightarrow> audio_score (ls ! k) \<le> best))
   \<or> (\<exists>j < length ls. r = Some (i + j) \<and> audio_candidate grp (ls ! j) \<and> audio_score (ls ! j) > best
        \<and> (\<forall>k < length ls. audio_candidate grp (ls ! k) \<longrightarrow> audio_score (ls ! k) \<le> audio_score (ls ! j))
        \<and> (\<forall>k < j. audio_candidate grp (ls ! k) \<longrightarrow> audio_score (ls ! k) < audio_score (ls ! j)))"
proof (induction ls arbitrary: i best chosen)
  case Nil
  then show ?case by simp
next
  case (Cons l ls)
  define take_it where "take_it \<longleftrightarrow> audio_candidate grp l \<and> audio_score l > best"
  define b where "b = (if take_it then audio_score l else best)"
  define c where "c = (if take_it then Some i else chosen)"
  have run: "choose_audio grp ls (i + 1) b c = r"
    using Cons.prems by (auto simp: b_def c_def take_it_def split: if_splits)
  from Cons.IH [OF run] show ?case
  proof
    assume old: "r = c \<and> (\<forall>k < length ls. audio_candidate grp (ls ! k) \<longrightarrow> audio_score (ls ! k) \<le> b)"
    show ?case
    proof (cases take_it)
      case True
      then show ?thesis using old
        by (intro disjI2 exI [of _ 0]) (auto simp: b_def c_def take_it_def nth_Cons' less_Suc_eq_0_disj)
    next
      case False
      then show ?thesis using old
        by (intro disjI1) (auto simp: b_def c_def take_it_def less_Suc_eq_0_disj)
    qed
  next
    assume "\<exists>j < length ls. r = Some (i + 1 + j) \<and> audio_candidate grp (ls ! j) \<and> audio_score (ls ! j) > b
        \<and> (\<forall>k < length ls. audio_candidate grp (ls ! k) \<longrightarrow> audio_score (ls ! k) \<le> audio_score (ls ! j))
        \<and> (\<forall>k < j. audio_candidate grp (ls ! k) \<longrightarrow> audio_score (ls ! k) < audio_score (ls ! j))"
    then obtain j where j: "j < length ls" "r = Some (i + 1 + j)" "audio_candidate grp (ls ! j)" "audio_score (ls ! j) > b"
        "\<forall>k < length ls. audio_candidate grp (ls ! k) \<longrightarrow> audio_score (ls ! k) \<le> audio_score (ls ! j)"
        "\<forall>k < j. audio_candidate grp (ls ! k) \<longrightarrow> audio_score (ls ! k) < audio_score (ls ! j)" by blast
    have l: "audio_candidate grp l \<longrightarrow> audio_score l < audio_score (ls ! j)" "audio_score (ls ! j) > best"
      using j(4) by (auto simp: b_def take_it_def split: if_splits)
    show ?case
      using j l by (intro disjI2 exI [of _ "Suc j"]) (auto simp: less_Suc_eq_0_disj)
  qed
qed

lemma nl_split: "list_all (\<lambda>l. c \<notin> set l) (split_at_char c s)"
proof (induction c s rule: split_at_char.induct)
  case (1 c s)
  show ?case
  proof (cases "s = []")
    case False
    show ?thesis
    proof (cases "find_pred (\<lambda>x. x = c) s")
      case None
      moreover have "c \<notin> set s" using None by (auto simp: find_pred_None)
      ultimately show ?thesis using False by (simp add: split_at_char.simps [of c s])
    next
      case (Some i)
      have "c \<notin> set (take i s)"
        using find_pred_Some [OF Some] by (auto simp: in_set_conv_nth)
      then show ?thesis using "1.IH" [OF False Some] False Some by (simp add: split_at_char.simps [of c s])
    qed
  qed simp
qed

lemma nl_playlist_lines: "list_all (\<lambda>l. nl \<notin> set l) (playlist_lines s)"
  using nl_split [of nl s] by (auto simp: playlist_lines_def list_all_iff strip_cr_def dest: in_set_butlastD)

section \<open>Properties\<close>

text \<open>C37: A condensed playlist is expanded to the full addresses of its segments. Whether a segment is sent
  by its values alone or with its keys, and whatever slashes stand between the words, its address is the BASE-URI
  of the header followed by each key and its value, with an empty value where none was sent, and a slash at the end if the path
  has one; all other text stays as it is. The values sent alone are at most as many as the keys, and none of
  them is the first key.\<close>

theorem expand_condensed_exact:
  assumes "find_str condensed_header (intro @ hdr) = Some (length intro)" and "nl \<notin> set hdr"
    and "has_attr hdr ''BASE-URI='' b" and "has_attr hdr ''PARAMS='' (joined (CHR '','') keys)" and "has_attr hdr ''PREFIX='' q"
    and "b \<noteq> []" and "keys \<noteq> []" and "list_all (\<lambda>k. k \<noteq> [] \<and> CHR '','' \<notin> set k) keys" and "q \<noteq> []"
    and "intro @ hdr @ nl # body = concat (map (\<lambda>(tags, sg, t). tags @ q @ t @ [nl]) chunks) @ end_text"
    and "list_all (\<lambda>(tags, sg, t). wf_chunk q (tags, t) \<and> spells t (sent_words sg) \<and> segment_ok keys sg) chunks"
    and "find_str ''#EXTINF'' end_text = None"
  shows "expand_yt_condensed_playlist (intro @ hdr @ nl # body)
    = concat (map (\<lambda>(tags, sg, t). tags @ ends_like t (full_address b keys sg) @ [nl]) chunks) @ end_text"
proof -
  let ?cs = "map (\<lambda>(tags, sg, t). (tags, t)) chunks"
  have p: "extract_quoted_attr hdr ''PARAMS='' = joined (CHR '','') keys" using has_attr_extract [OF assms(4)] .
  have "joined (CHR '','') keys \<noteq> []" using assms(7,8) by (cases "(CHR '','', keys)" rule: joined.cases) auto
  then have e: "expand_yt_condensed_playlist (intro @ hdr @ nl # body) = expand_chunks b keys q (intro @ hdr @ nl # body)"
    using expand_with_header [OF assms(1,2) has_attr_extract [OF assms(3), symmetric] p [symmetric]
        has_attr_extract [OF assms(5), symmetric] assms(6) _ assms(9)] split_joined [OF assms(7,8)] by simp
  have "nl \<notin> set q" using assms(2) has_attr_extract [OF assms(5)] set_extract_quoted_attr by blast
  moreover have "list_all (wf_chunk q) ?cs" using assms(11) by (auto simp: list_all_iff split: prod.splits)
  moreover have "concat (map (\<lambda>(tags, sg, t). tags @ q @ t @ [nl]) chunks) = condensed_text q ?cs"
    by (simp add: condensed_text_def comp_def split_def)
  moreover have "expanded_text b keys ?cs = concat (map (\<lambda>(tags, sg, t). tags @ ends_like t (full_address b keys sg) @ [nl]) chunks)"
    unfolding expanded_text_def map_map
    by (rule arg_cong [where f = concat], rule map_cong [OF refl]) (use assms(11) expand_chunk_full in \<open>force simp: list_all_iff\<close>)
  ultimately show ?thesis using e expand_chunk_list [OF _ _ assms(12)] assms(10) by simp
qed

text \<open>C38: Rewriting a playlist replaces each of its addresses by a fresh local one, in order, and
  nothing else; each fresh local path resolves to the address it replaced, and every path handed
  out before still resolves as it did.\<close>

theorem rewrite_resolves:
  assumes "ps = playlist_pieces s" and "rewrite_segments_to_local port s sg = (out, sg', n)"
  shows "out = render_pieces port (sg_counter sg) ps \<and> n = length (addresses ps)
    \<and> map (\<lambda>i. sg_map sg' (seg_path (sg_counter sg + i))) [0..<n] = map Some (addresses ps)
    \<and> map (\<lambda>k. sg_map sg' (seg_path k)) [0..<sg_counter sg] = map (\<lambda>k. sg_map sg (seg_path k)) [0..<sg_counter sg]
    \<and> sg_counter sg' = sg_counter sg + n"
proof -
  have r: "out = render_pieces port (sg_counter sg) ps" "sg' = register_all (addresses ps) sg" "n = length (addresses ps)"
    using assms rewrite_pieces [of port s sg] by simp_all
  have "map (\<lambda>i. sg_map sg' (seg_path (sg_counter sg + i))) [0..<n] = map Some (addresses ps)"
    by (rule nth_equalityI) (simp_all add: r register_all_new)
  then show ?thesis by (simp add: r register_all_old)
qed

text \<open>A filtered master has the first variant only, and of the media tags only the audio rendition
  of its group that has the best score, the first of the best.\<close>

theorem master_single_variant:
  assumes "ls = playlist_lines master" and "regular ls"
    and "out = split_at_char nl (filter_master_to_single_variant master)"
  shows "filter stream_inf out = take 1 (filter stream_inf ls)
    \<and> (filter media_tag out = [] \<and> list_all (\<lambda>l. \<not> audio_candidate (audio_group ls) l) ls
     \<or> (\<exists>j < length ls. filter media_tag out = [ls ! j] \<and> audio_candidate (audio_group ls) (ls ! j)
          \<and> list_all (\<lambda>l. audio_candidate (audio_group ls) l \<longrightarrow> audio_score l \<le> audio_score (ls ! j)) ls
          \<and> list_all (\<lambda>l. audio_candidate (audio_group ls) l \<longrightarrow> audio_score l < audio_score (ls ! j)) (take j ls)))"
proof -
  let ?g = "audio_group ls" and ?c = "choose_audio (audio_group ls) ls 0 (- 1) None"
  have k: "filter P out = filter P (kept ?c 0 False ls)" if "\<not> P []" for P
    using keep_lines_kept [where P = P, OF that nl_playlist_lines [of master], of ?c 0 False] assms(1,3)
    by (simp add: filter_master_to_single_variant_def Let_def)
  have 1: "filter stream_inf out = take 1 (filter stream_inf ls)"
    using k [of stream_inf] kept_stream_inf [OF assms(2), of ?c 0 False] by (simp add: stream_inf_def)
  have 2: "filter media_tag out = nth_media ?c 0 ls"
    using k [of media_tag] kept_media [OF assms(2), of ?c 0 False] by (simp add: media_tag_def)
  have pos: "audio_score l > - 1" for l by (simp add: audio_score_def)
  from choose_audio_best [of ?g ls 0 "- 1" None ?c] show ?thesis
  proof
    assume "?c = None \<and> (\<forall>k < length ls. audio_candidate ?g (ls ! k) \<longrightarrow> audio_score (ls ! k) \<le> - 1)"
    then have none: "?c = None" "\<forall>k < length ls. audio_candidate ?g (ls ! k) \<longrightarrow> audio_score (ls ! k) \<le> - 1" by blast+
    have "list_all (\<lambda>l. \<not> audio_candidate ?g l) ls"
      unfolding list_all_length using none(2) pos by (meson linorder_not_less)
    moreover have "nth_media ?c 0 ls = []" unfolding none(1) by (simp add: nth_media_def)
    ultimately show ?thesis using 1 2 by simp
  next
    assume "\<exists>j < length ls. ?c = Some (0 + j) \<and> audio_candidate ?g (ls ! j) \<and> audio_score (ls ! j) > - 1
        \<and> (\<forall>k < length ls. audio_candidate ?g (ls ! k) \<longrightarrow> audio_score (ls ! k) \<le> audio_score (ls ! j))
        \<and> (\<forall>k < j. audio_candidate ?g (ls ! k) \<longrightarrow> audio_score (ls ! k) < audio_score (ls ! j))"
    then obtain j where j: "j < length ls" "?c = Some j" "audio_candidate ?g (ls ! j)"
        "\<forall>k < length ls. audio_candidate ?g (ls ! k) \<longrightarrow> audio_score (ls ! k) \<le> audio_score (ls ! j)"
        "\<forall>k < j. audio_candidate ?g (ls ! k) \<longrightarrow> audio_score (ls ! k) < audio_score (ls ! j)" by auto
    have "filter media_tag out = [ls ! j]"
      using 2 j(1-3) by (simp add: nth_media_def audio_candidate_def)
    then show ?thesis
      using 1 j by (intro conjI disjI2 exI [of _ j]) (auto simp: list_all_length)
  qed simp
qed

section \<open>Witnesses\<close>

definition sample_condensed :: string where
  "sample_condensed = ''#EXTM3U'' @ [nl]"

definition sample_header_line :: string where
  "sample_header_line = condensed_header @ '':BASE-URI='' @ [dquote] @ ''https://h/v'' @ [dquote] @ '',PARAMS='' @ [dquote]
     @ ''s,sl'' @ [dquote] @ '',PREFIX='' @ [dquote] @ ''mlhls://x'' @ [dquote]"

definition sample_body :: string where
  "sample_body = ''#EXTINF:5.0,'' @ [nl] @ ''mlhls://x/0/7-9'' @ [nl] @ ''#EXTINF:5.0,'' @ [nl]
     @ ''mlhls://x/s/1/sl/'' @ [nl] @ ''#EXT-X-ENDLIST'' @ [nl]"

definition sample_chunks :: "(string \<times> segment \<times> string) list" where
  "sample_chunks = [(sample_condensed @ sample_header_line @ [nl] @ ''#EXTINF:5.0,'' @ [nl], By_position [''0'', ''7-9''], ''/0/7-9''),
     (''#EXTINF:5.0,'' @ [nl], By_name [] [(''s'', ''1'')] (Some ''sl''), ''/s/1/sl/'')]"

theorem expand_condensed_exact_witness:
  "expand_yt_condensed_playlist (sample_condensed @ sample_header_line @ nl # sample_body)
    = sample_condensed @ sample_header_line @ [nl] @ ''#EXTINF:5.0,'' @ [nl] @ ''https://h/v/s/0/sl/7-9'' @ [nl]
      @ ''#EXTINF:5.0,'' @ [nl] @ ''https://h/v/s/1/sl/'' @ [nl] @ ''#EXT-X-ENDLIST'' @ [nl]"
proof -
  have attr: "has_attr sample_header_line key v"
    if "take (length u) sample_header_line = u" "find_str key sample_header_line = Some (length u)" "dquote \<notin> set v"
      "drop (length u) sample_header_line = key @ [dquote] @ v @ [dquote] @ w" for key v u w
    using that by (metis append_take_drop_id has_attr_def)
  have a: "has_attr sample_header_line ''BASE-URI='' ''https://h/v''"
    by (rule attr [where u = "take 22 sample_header_line" and w = "drop 44 sample_header_line"]) code_simp+
  have b: "has_attr sample_header_line ''PARAMS='' (joined (CHR '','') [''s'', ''sl''])"
    by (rule attr [where u = "take 45 sample_header_line" and w = "drop 58 sample_header_line"]) code_simp+
  have c: "has_attr sample_header_line ''PREFIX='' ''mlhls://x''"
    by (rule attr [where u = "take 59 sample_header_line" and w = "drop 77 sample_header_line"]) code_simp+
  have h: "find_str condensed_header (sample_condensed @ sample_header_line) = Some (length sample_condensed)"
      "nl \<notin> set sample_header_line" by code_simp+
  have n: "''https://h/v'' \<noteq> []" "[''s'', ''sl''] \<noteq> []"
      "list_all (\<lambda>k. k \<noteq> [] \<and> CHR '','' \<notin> set k) [''s'', ''sl'']" "''mlhls://x'' \<noteq> []"
      "sample_condensed @ sample_header_line @ nl # sample_body
        = concat (map (\<lambda>(tags, sg, t). tags @ ''mlhls://x'' @ t @ [nl]) sample_chunks) @ ''#EXT-X-ENDLIST'' @ [nl]"
    by code_simp+
  have s: "spells ''/0/7-9'' [''0'', ''7-9'']"
    using spells_word [of "''0''" "''/7-9''" "[''7-9'']" 1] spells_word [of "''7-9''" "[]" "[]" 1] spells_end [of 0] by simp
  have s': "spells ''/s/1/sl/'' [''s'', ''1'', ''sl'']"
    using spells_word [of "''s''" "''/1/sl/''" "[''1'', ''sl'']" 1] spells_word [of "''1''" "''/sl/''" "[''sl'']" 1]
      spells_word [of "''sl''" "''/''" "[]" 1] spells_end [of 1] by simp
  have "list_all (\<lambda>(tags, sg, t). wf_chunk ''mlhls://x'' (tags, t)) sample_chunks" by code_simp
  then have w: "list_all (\<lambda>(tags, sg, t). wf_chunk ''mlhls://x'' (tags, t) \<and> spells t (sent_words sg) \<and> segment_ok [''s'', ''sl''] sg) sample_chunks"
    using s s' by (simp add: sample_chunks_def)
  have e: "find_str ''#EXTINF'' (''#EXT-X-ENDLIST'' @ [nl]) = None" by code_simp
  have "concat (map (\<lambda>(tags, sg, t). tags @ ends_like t (full_address ''https://h/v'' [''s'', ''sl''] sg) @ [nl]) sample_chunks)
      = sample_condensed @ sample_header_line @ [nl] @ ''#EXTINF:5.0,'' @ [nl] @ ''https://h/v/s/0/sl/7-9'' @ [nl]
        @ ''#EXTINF:5.0,'' @ [nl] @ ''https://h/v/s/1/sl/'' @ [nl]"
    by code_simp
  then show ?thesis using expand_condensed_exact [OF h a b c n w e] by simp
qed

definition sample_media :: string where
  "sample_media = ''#EXT-X-MAP:URI='' @ [dquote] @ ''https://h/i'' @ [dquote] @ [nl] @ ''https://h/1'' @ [nl]"

theorem rewrite_resolves_witness:
  "\<exists>out sg' n. rewrite_segments_to_local 7100 sample_media \<lparr>sg_map = Map.empty, sg_counter = 4\<rparr> = (out, sg', n)
    \<and> map (\<lambda>i. sg_map sg' (seg_path (4 + i))) [0..<n] = [Some ''https://h/i'', Some ''https://h/1'']"
proof -
  obtain out sg' n where r: "rewrite_segments_to_local 7100 sample_media \<lparr>sg_map = Map.empty, sg_counter = 4\<rparr> = (out, sg', n)"
    by (rule prod_cases3)
  have a: "addresses (playlist_pieces sample_media) = [''https://h/i'', ''https://h/1'']" by code_simp
  from rewrite_resolves [OF refl r]
  have "map (\<lambda>i. sg_map sg' (seg_path (sg_counter \<lparr>sg_map = Map.empty, sg_counter = 4\<rparr> + i))) [0..<n]
      = map Some (addresses (playlist_pieces sample_media))" by blast
  then have m: "map (\<lambda>i. sg_map sg' (seg_path (4 + i))) [0..<n] = [Some ''https://h/i'', Some ''https://h/1'']"
    unfolding a seg_urls.select_convs list.map .
  show ?thesis by (intro exI conjI) (rule r, rule m)
qed

definition sample_master :: string where
  "sample_master = ''#EXT-X-MEDIA:TYPE=AUDIO,GROUP-ID='' @ [dquote] @ ''a'' @ [dquote] @ '',NAME='' @ [dquote] @ ''En'' @ [dquote]
     @ '',DEFAULT=NO'' @ [nl] @ ''#EXT-X-MEDIA:TYPE=AUDIO,GROUP-ID='' @ [dquote] @ ''a'' @ [dquote] @ '',NAME='' @ [dquote]
     @ ''De'' @ [dquote] @ '',DEFAULT=YES'' @ [nl] @ ''#EXT-X-STREAM-INF:AUDIO='' @ [dquote] @ ''a'' @ [dquote] @ [nl] @ ''u1'' @ [nl]
     @ ''#EXT-X-STREAM-INF:BANDWIDTH=1'' @ [nl] @ ''u2'' @ [nl]"

theorem master_single_variant_witness:
  "filter stream_inf (split_at_char nl (filter_master_to_single_variant sample_master))
    = [''#EXT-X-STREAM-INF:AUDIO='' @ [dquote] @ ''a'' @ [dquote]]"
proof -
  have r: "regular (playlist_lines sample_master)" by code_simp
  have "take 1 (filter stream_inf (playlist_lines sample_master)) = [''#EXT-X-STREAM-INF:AUDIO='' @ [dquote] @ ''a'' @ [dquote]]"
    by code_simp
  then show ?thesis using master_single_variant [OF refl r refl] by simp
qed

text \<open>DEFAULT and AUTOSELECT are unquoted in HLS, but the filter reads them as quoted attributes and so
  finds the next quoted value, or none: the rendition marked as the default is not preferred.\<close>

lemma default_rendition_ignored:
  "is_yes (quoted ''#EXT-X-MEDIA:TYPE=AUDIO,DEFAULT=YES'' ''DEFAULT='') = False"
  "choose_audio (audio_group (playlist_lines sample_master)) (playlist_lines sample_master) 0 (- 1) None = Some 0"
  by code_simp+

end
