(* ===== verification/Renderer.thy ===== *)
theory Renderer
  imports Complex_Main Prelude
begin

text \<open>
  What the other parts of the program share with the window: the frame slot, the current device,
  the now-playing texts, the progress and the cover of src/video/video_renderer.cpp and .h. The
  drawing itself (SDL, ImGui, Direct3D) is not modelled, nor the statistics of the status bar.
  Times are the nanoseconds of the steady clock and are arguments.
\<close>

section \<open>The frame slot\<close>

text \<open>A reference to a frame of FFmpeg: its own size, its format and its planes with their line sizes.\<close>

record avframe =
  av_width :: int
  av_height :: int
  av_format :: int
  av_planes :: "(bytes \<times> int) list"

record frame_slot =
  fs_avframe :: "avframe option"
  fs_has_frame :: bool
  fs_nv12 :: bool
  fs_width :: int
  fs_height :: int
  fs_y :: bytes
  fs_u :: bytes
  fs_v :: bytes
  fs_uv :: bytes
  fs_origin :: int

definition empty_slot :: frame_slot where
  "empty_slot = \<lparr>fs_avframe = None, fs_has_frame = False, fs_nv12 = False, fs_width = 0, fs_height = 0,
     fs_y = [], fs_u = [], fs_v = [], fs_uv = [], fs_origin = 0\<rparr>"

definition copy_plane :: "bytes \<Rightarrow> nat \<Rightarrow> int \<Rightarrow> int \<Rightarrow> bytes" where
  "copy_plane src stride w h = concat (map (\<lambda>row. substr src (row * stride) (nat w)) [0..<nat h])"

definition push_avframe :: "avframe option \<Rightarrow> int \<Rightarrow> frame_slot \<Rightarrow> frame_slot" where
  "push_avframe src origin s =
     (case src of None \<Rightarrow> s
      | Some f \<Rightarrow> s\<lparr>fs_avframe := Some f, fs_width := av_width f, fs_height := av_height f,
                    fs_has_frame := False, fs_nv12 := False, fs_origin := origin\<rparr>)"

definition push_frame :: "bytes \<Rightarrow> nat \<Rightarrow> bytes \<Rightarrow> nat \<Rightarrow> bytes \<Rightarrow> nat \<Rightarrow> int \<Rightarrow> int \<Rightarrow> int \<Rightarrow> frame_slot \<Rightarrow> frame_slot" where
  "push_frame y ys u us v vs w h origin s =
     (if w \<le> 0 \<or> h \<le> 0 then s
      else s\<lparr>fs_y := copy_plane y ys w h, fs_u := copy_plane u us (w div 2) (h div 2),
             fs_v := copy_plane v vs (w div 2) (h div 2), fs_width := w, fs_height := h,
             fs_has_frame := True, fs_nv12 := False, fs_origin := origin\<rparr>)"

definition push_frame_nv12 :: "bytes \<Rightarrow> nat \<Rightarrow> bytes \<Rightarrow> nat \<Rightarrow> int \<Rightarrow> int \<Rightarrow> int \<Rightarrow> frame_slot \<Rightarrow> frame_slot" where
  "push_frame_nv12 y ys uv uvs w h origin s =
     (if w \<le> 0 \<or> h \<le> 0 then s
      else s\<lparr>fs_y := copy_plane y ys w h, fs_uv := copy_plane uv uvs w (h div 2),
             fs_width := w, fs_height := h, fs_has_frame := True, fs_nv12 := True, fs_origin := origin\<rparr>)"

text \<open>What one pass of the render loop takes out of the slot.\<close>

datatype picture =
  No_picture
| Av_picture avframe int int int
| I420_picture bytes bytes bytes int int int
| Nv12_picture bytes bytes int int int

definition take_picture :: "frame_slot \<Rightarrow> picture \<times> frame_slot" where
  "take_picture s =
     (case fs_avframe s of
        Some f \<Rightarrow> (Av_picture f (fs_width s) (fs_height s) (fs_origin s), s\<lparr>fs_avframe := None\<rparr>)
      | None \<Rightarrow>
          (if fs_has_frame s
           then ((if fs_nv12 s then Nv12_picture (fs_y s) (fs_uv s) (fs_width s) (fs_height s) (fs_origin s)
                  else I420_picture (fs_y s) (fs_u s) (fs_v s) (fs_width s) (fs_height s) (fs_origin s)),
                 s\<lparr>fs_has_frame := False\<rparr>)
           else (No_picture, s)))"

section \<open>Device, metadata, progress and cover\<close>

record device =
  dv_peer :: string
  dv_session :: string
  dv_kind :: string
  dv_name :: string
  dv_model :: string

definition no_device :: device where
  "no_device = \<lparr>dv_peer = [], dv_session = [], dv_kind = [], dv_name = [], dv_model = []\<rparr>"

record renderer =
  vr_slot :: frame_slot
  vr_device :: "device option"
  vr_title :: string
  vr_artist :: string
  vr_album :: string
  vr_meta_dirty :: bool
  vr_elapsed :: u32
  vr_total :: u32
  vr_pushed_at :: int
  vr_playing :: bool
  vr_cover :: bytes
  vr_cover_dirty :: bool
  vr_clear_cover :: bool
  vr_grace_until :: int
  vr_control_available :: bool
  vr_command_pending :: bool
  vr_command_failed :: bool

definition new_renderer :: renderer where
  "new_renderer = \<lparr>vr_slot = empty_slot, vr_device = None, vr_title = [], vr_artist = [], vr_album = [],
     vr_meta_dirty = False, vr_elapsed = 0, vr_total = 0, vr_pushed_at = 0, vr_playing = True, vr_cover = [],
     vr_cover_dirty = False, vr_clear_cover = False, vr_grace_until = 0, vr_control_available = False,
     vr_command_pending = False, vr_command_failed = False\<rparr>"

definition push_cover_art :: "bytes \<Rightarrow> renderer \<Rightarrow> renderer" where
  "push_cover_art jpeg r = (if jpeg = [] then r else r\<lparr>vr_cover := jpeg, vr_cover_dirty := True\<rparr>)"

definition push_progress :: "int \<Rightarrow> u32 \<Rightarrow> u32 \<Rightarrow> renderer \<Rightarrow> renderer" where
  "push_progress now elapsed duration r = r\<lparr>vr_elapsed := elapsed, vr_total := duration, vr_pushed_at := now\<rparr>"

text \<open>Only the comparison of the rate with one half matters.\<close>

definition push_playback_rate :: "real \<Rightarrow> renderer \<Rightarrow> renderer" where
  "push_playback_rate rate r = r\<lparr>vr_playing := rate > 1 / 2\<rparr>"

definition note_flush :: "int \<Rightarrow> renderer \<Rightarrow> renderer" where
  "note_flush now r = r\<lparr>vr_grace_until := now + 500 * 1000000\<rparr>"

definition in_flush_grace :: "int \<Rightarrow> renderer \<Rightarrow> bool" where
  "in_flush_grace now r \<longleftrightarrow> vr_grace_until r \<noteq> 0 \<and> now < vr_grace_until r"

definition clear_session :: "renderer \<Rightarrow> renderer" where
  "clear_session r = r\<lparr>vr_control_available := False, vr_command_pending := False, vr_command_failed := False,
     vr_slot := (vr_slot r)\<lparr>fs_has_frame := False, fs_nv12 := False, fs_width := 0, fs_height := 0, fs_avframe := None\<rparr>,
     vr_title := [], vr_artist := [], vr_album := [], vr_meta_dirty := True, vr_elapsed := 0, vr_total := 0,
     vr_pushed_at := 0, vr_playing := True, vr_clear_cover := True\<rparr>"

definition set_active_device :: "device \<Rightarrow> renderer \<Rightarrow> renderer" where
  "set_active_device d r = r\<lparr>vr_device := Some d\<rparr>"

definition clear_active_device :: "renderer \<Rightarrow> renderer" where
  "clear_active_device r = r\<lparr>vr_device := None\<rparr>"

definition clear_session_if_active :: "string \<Rightarrow> renderer \<Rightarrow> renderer" where
  "clear_session_if_active sid r =
     (case vr_device r of
        None \<Rightarrow> r
      | Some d \<Rightarrow> if dv_session d \<noteq> sid then r else (clear_session r)\<lparr>vr_device := None\<rparr>)"

definition snapshot_device :: "renderer \<Rightarrow> device" where
  "snapshot_device r = (case vr_device r of None \<Rightarrow> no_device | Some d \<Rightarrow> d)"

definition push_metadata :: "string \<Rightarrow> string \<Rightarrow> string \<Rightarrow> renderer \<Rightarrow> renderer" where
  "push_metadata title artist album r =
     (if vr_title r = title \<and> vr_artist r = artist \<and> vr_album r = album then r
      else r\<lparr>vr_title := title, vr_artist := artist, vr_album := album, vr_meta_dirty := True\<rparr>)"

text \<open>The part of a pass of the render loop that consumes a cover: the result is what is decoded
  for display, if anything.\<close>

definition take_cover :: "renderer \<Rightarrow> bytes \<times> renderer" where
  "take_cover r =
     (let r1 = (if vr_clear_cover r then r\<lparr>vr_clear_cover := False, vr_cover := [], vr_cover_dirty := False\<rparr> else r)
      in if vr_cover_dirty r1 then (vr_cover r1, r1\<lparr>vr_cover := [], vr_cover_dirty := False\<rparr>) else ([], r1))"

definition shown_elapsed :: "int \<Rightarrow> renderer \<Rightarrow> nat" where
  "shown_elapsed now r =
     (let whole = unat (vr_total r);
          elapsed = unat (vr_elapsed r)
            + (if vr_playing r \<and> vr_pushed_at r > 0 \<and> now > vr_pushed_at r then nat ((now - vr_pushed_at r) div 1000000) else 0)
      in if whole > 0 then min elapsed whole else 0)"

section \<open>Copying a plane\<close>

text \<open>A plane of a decoder has rows of \<open>stride\<close> bytes, the first \<open>w\<close> of which are pixels.\<close>

definition pixels :: "bytes \<Rightarrow> nat \<Rightarrow> nat \<Rightarrow> nat \<Rightarrow> byte" where
  "pixels src stride row col = src ! (row * stride + col)"

lemma length_substr: "i + n \<le> length s \<Longrightarrow> length (substr s i n) = n"
  by (simp add: substr_def)

lemma length_concat_rows: "list_all (\<lambda>r. length r = n) rs \<Longrightarrow> length (concat rs) = length rs * n"
  by (induction rs) auto

lemma nth_concat_rows:
  "list_all (\<lambda>r. length r = n) rs \<Longrightarrow> i < length rs \<Longrightarrow> j < n \<Longrightarrow> concat rs ! (i * n + j) = rs ! i ! j"
proof (induction rs arbitrary: i)
  case (Cons r rs)
  show ?case
  proof (cases i)
    case 0
    then show ?thesis using Cons.prems by (simp add: nth_append)
  next
    case (Suc k)
    then have "concat (r # rs) ! (i * n + j) = concat rs ! (k * n + j)"
      using Cons.prems by (simp add: nth_append)
    then show ?thesis using Cons Suc by simp
  qed
qed simp

definition plane_ok :: "bytes \<Rightarrow> nat \<Rightarrow> int \<Rightarrow> int \<Rightarrow> bool" where
  "plane_ok src stride w h \<longleftrightarrow> 0 \<le> w \<and> 0 \<le> h \<and> nat w \<le> stride \<and> (0 < h \<longrightarrow> (nat h - 1) * stride + nat w \<le> length src)"

lemma plane_rows:
  assumes "plane_ok src stride w h"
  shows "list_all (\<lambda>r. length r = nat w) (map (\<lambda>row. substr src (row * stride) (nat w)) [0..<nat h])"
proof -
  have "row * stride + nat w \<le> length src" if "row < nat h" for row
  proof -
    have "row * stride \<le> (nat h - 1) * stride" using that by (intro mult_right_mono) auto
    moreover have "(nat h - 1) * stride + nat w \<le> length src" using assms that by (auto simp: plane_ok_def)
    ultimately show ?thesis by linarith
  qed
  then show ?thesis by (auto simp: list_all_iff length_substr)
qed

lemma copy_plane_length: "plane_ok src stride w h \<Longrightarrow> length (copy_plane src stride w h) = nat h * nat w"
  using length_concat_rows [OF plane_rows] by (simp add: copy_plane_def)

lemma copy_plane_nth:
  assumes ok: "plane_ok src stride w h" and r: "row < nat h" and c: "col < nat w"
  shows "copy_plane src stride w h ! (row * nat w + col) = pixels src stride row col"
proof -
  have "copy_plane src stride w h ! (row * nat w + col) = substr src (row * stride) (nat w) ! col"
    unfolding copy_plane_def using nth_concat_rows [OF plane_rows [OF ok], of row col] r c by simp
  also have "\<dots> = pixels src stride row col"
  proof -
    have "length (substr src (row * stride) (nat w)) = nat w"
      using plane_rows [OF ok] r by (auto simp: list_all_length)
    then have "row * stride + nat w \<le> length src \<or> nat w = 0" by (auto simp: substr_def)
    then show ?thesis using c by (auto simp: substr_def pixels_def)
  qed
  finally show ?thesis .
qed

section \<open>The slot holds one picture, the latest\<close>

text \<open>The comment of the header says that exactly one of the two layouts is in use; the operations
  of one producer keep the slot in that state.\<close>

datatype push =
  Push_av avframe int
| Push_i420 bytes nat bytes nat bytes nat int int int
| Push_nv12 bytes nat bytes nat int int int

fun do_push :: "push \<Rightarrow> frame_slot \<Rightarrow> frame_slot" where
  "do_push (Push_av f origin) = push_avframe (Some f) origin"
| "do_push (Push_i420 y ys u us v vs w h origin) = push_frame y ys u us v vs w h origin"
| "do_push (Push_nv12 y ys uv uvs w h origin) = push_frame_nv12 y ys uv uvs w h origin"

fun picture_of :: "push \<Rightarrow> picture" where
  "picture_of (Push_av f origin) = Av_picture f (av_width f) (av_height f) origin"
| "picture_of (Push_i420 y ys u us v vs w h origin) =
     I420_picture (copy_plane y ys w h) (copy_plane u us (w div 2) (h div 2)) (copy_plane v vs (w div 2) (h div 2)) w h origin"
| "picture_of (Push_nv12 y ys uv uvs w h origin) =
     Nv12_picture (copy_plane y ys w h) (copy_plane uv uvs w (h div 2)) w h origin"

fun sized :: "push \<Rightarrow> bool" where
  "sized (Push_av f origin) \<longleftrightarrow> True"
| "sized (Push_i420 y ys u us v vs w h origin) \<longleftrightarrow> 0 < w \<and> 0 < h"
| "sized (Push_nv12 y ys uv uvs w h origin) \<longleftrightarrow> 0 < w \<and> 0 < h"

fun refcounted :: "push \<Rightarrow> bool" where
  "refcounted (Push_av f origin) \<longleftrightarrow> True"
| "refcounted _ \<longleftrightarrow> False"

definition one_layout :: "frame_slot \<Rightarrow> bool" where
  "one_layout s \<longleftrightarrow> fs_avframe s = None \<or> \<not> fs_has_frame s"

lemmas slot_ops = push_avframe_def push_frame_def push_frame_nv12_def take_picture_def

lemma take_latest:
  assumes "sized p" "refcounted p \<or> fs_avframe s = None"
  shows "fst (take_picture (do_push p s)) = picture_of p"
    and "one_layout (do_push p s)" and "one_layout (snd (take_picture (do_push p s)))"
  using assms by (cases p; simp add: slot_ops one_layout_def)+

lemma pushes_no_avframe:
  "list_all (\<lambda>p. \<not> refcounted p) ps \<Longrightarrow> fs_avframe s = None \<Longrightarrow> fs_avframe (fold do_push ps s) = None"
proof (induction ps arbitrary: s)
  case (Cons p ps)
  then have "fs_avframe (do_push p s) = None" by (cases p) (simp_all add: slot_ops)
  then show ?case using Cons by simp
qed simp

lemma take_after_take: "one_layout s \<Longrightarrow> fst (take_picture (snd (take_picture s))) = No_picture"
  by (auto simp: take_picture_def one_layout_def split: option.split)

text \<open>Between two passes of the render loop any number of frames may be pushed by one kind of
  producer: the next pass takes the last of them, whole and with its own size, and the pass after
  it finds nothing.\<close>

theorem latest_frame_shown:
  assumes "sized p" and "refcounted p \<and> list_all refcounted ps \<or> \<not> refcounted p \<and> list_all (\<lambda>q. \<not> refcounted q) ps \<and> fs_avframe s = None"
  shows "fst (take_picture (fold do_push (ps @ [p]) s)) = picture_of p
    \<and> fst (take_picture (snd (take_picture (fold do_push (ps @ [p]) s)))) = No_picture"
proof -
  have "refcounted p \<or> fs_avframe (fold do_push ps s) = None" using assms(2) by (auto simp: pushes_no_avframe)
  note t = take_latest [OF assms(1) this]
  show ?thesis using t(1) take_after_take [OF t(2)] by simp
qed

text \<open>With both kinds of producer at once (a mirrored screen and an HLS video) the layouts are both
  in use: the older frame is taken first, and with the size of the newer one.\<close>

lemma mixed_producers_wrong_size:
  "0 < w \<Longrightarrow> 0 < h \<Longrightarrow>
   fst (take_picture (do_push (Push_nv12 y ys uv uvs w h o2) (do_push (Push_av f o1) s))) = Av_picture f w h o2"
  by (simp add: slot_ops)

lemma mixed_producers_two_layouts:
  "0 < w \<Longrightarrow> 0 < h \<Longrightarrow> \<not> one_layout (do_push (Push_nv12 y ys uv uvs w h o2) (do_push (Push_av f o1) s))"
  by (simp add: slot_ops one_layout_def)

section \<open>Clearing a session\<close>

lemma clear_if_active:
  "vr_device r = Some d \<Longrightarrow> vr_device (clear_session_if_active sid r) = (if dv_session d = sid then None else Some d)"
  by (simp add: clear_session_if_active_def)

lemma clear_if_other [simp]: "vr_device r = Some d \<Longrightarrow> dv_session d \<noteq> sid \<Longrightarrow> clear_session_if_active sid r = r"
  by (simp add: clear_session_if_active_def)

text \<open>A cover that a new session pushes before the next pass of the render loop is thrown away by
  the request to clear the cover of the old one.\<close>

lemma cover_after_clear_lost: "fst (take_cover (push_cover_art jpeg (clear_session r))) = []"
  by (simp add: take_cover_def push_cover_art_def clear_session_def Let_def)

text \<open>Pausing does not freeze the progress: it falls back to the value of the last push.\<close>

lemma pause_rewinds_progress:
  assumes "vr_playing r" "0 < vr_pushed_at r" "vr_pushed_at r + 1000000 \<le> now" "unat (vr_elapsed r) < unat (vr_total r)"
  shows "shown_elapsed now (push_playback_rate 0 r) < shown_elapsed now r"
proof -
  have "1 \<le> (now - vr_pushed_at r) div 1000000"
    using assms(3) zdiv_mono1 [of 1000000 "now - vr_pushed_at r" 1000000] by simp
  then show ?thesis using assms by (simp add: shown_elapsed_def push_playback_rate_def Let_def)
qed

section \<open>Witness\<close>

definition sample_frame :: push where
  "sample_frame = Push_nv12 [1, 2, 0, 3, 4, 0] 3 [5, 6, 0] 3 2 2 9"

theorem latest_frame_shown_witness:
  "fst (take_picture (fold do_push ([sample_frame] @ [sample_frame]) empty_slot)) = Nv12_picture [1, 2, 3, 4] [5, 6] 2 2 9
   \<and> fst (take_picture (snd (take_picture (fold do_push ([sample_frame] @ [sample_frame]) empty_slot)))) = No_picture"
proof -
  have c: "sized sample_frame" "refcounted sample_frame \<and> list_all refcounted [sample_frame]
      \<or> \<not> refcounted sample_frame \<and> list_all (\<lambda>q. \<not> refcounted q) [sample_frame] \<and> fs_avframe empty_slot = None"
    by (simp_all add: sample_frame_def empty_slot_def)
  have "picture_of sample_frame = Nv12_picture [1, 2, 3, 4] [5, 6] 2 2 9"
    by (simp add: sample_frame_def copy_plane_def substr_def upt_rec)
  then show ?thesis using latest_frame_shown [OF c] by simp
qed

end
