(* ===== verification/Plists.thy ===== *)
theory Plists
  imports Complex_Main Prelude
begin

text \<open>
  Property lists as the code sees them: the node types of libplist, which is not part of the
  repository, and the accessors that the handlers of src/airplay/routes.cpp and
  src/airplay/airplay2_setup.cpp build on it. The parser and the printers of libplist are
  parameters; a string node holds a C string.
\<close>

datatype plist =
  PDict "(string \<times> plist) list"
| PArray "plist list"
| PString string
| PUint u64
| PReal real
| PBool bool
| PData bytes

record plist_lib =
  pl_from_bin :: "bytes \<Rightarrow> plist option"
  pl_to_bin :: "plist \<Rightarrow> bytes"
  pl_to_xml :: "plist \<Rightarrow> bytes"

fun dict_item :: "plist \<Rightarrow> string \<Rightarrow> plist option" where
  "dict_item (PDict kvs) key = map_of kvs key"
| "dict_item _ key = None"

definition get_string_of :: "plist \<Rightarrow> string \<Rightarrow> string option" where
  "get_string_of p key = (case dict_item p key of Some (PString s) \<Rightarrow> Some s | _ \<Rightarrow> None)"

definition get_uint_of :: "plist \<Rightarrow> string \<Rightarrow> u64 option" where
  "get_uint_of p key = (case dict_item p key of Some (PUint n) \<Rightarrow> Some n | _ \<Rightarrow> None)"

definition get_data_of :: "plist \<Rightarrow> string \<Rightarrow> bytes option" where
  "get_data_of p key = (case dict_item p key of Some (PData d) \<Rightarrow> Some d | _ \<Rightarrow> None)"

definition get_real :: "plist \<Rightarrow> string \<Rightarrow> real \<Rightarrow> real" where
  "get_real p key fallback =
     (case dict_item p key of Some (PReal v) \<Rightarrow> v | Some (PUint n) \<Rightarrow> of_nat (unat n) | _ \<Rightarrow> fallback)"

definition bplist_magic :: bytes where
  "bplist_magic = to_bytes ''bplist00''"

definition binary_plist :: "bytes \<Rightarrow> bool" where
  "binary_plist body \<longleftrightarrow> length body \<ge> 8 \<and> take 8 body = bplist_magic"

end
