(* ===== verification/Info.thy ===== *)
theory Info
  imports Plists
begin

text \<open>
  What the receiver says about itself: the device context (src/airplay/routes.h), the settings
  that the window changes while the program runs (src/airplay/live_settings.h) and the property
  list of /info (src/airplay/info_plist.cpp).
\<close>

section \<open>The device context\<close>

record live_settings =
  lv_name :: string
  lv_width :: int
  lv_height :: int
  lv_hevc :: bool
  lv_max_fps :: int
  lv_refresh_rate :: int
  lv_hwaccel :: bool

definition default_live :: live_settings where
  "default_live = \<lparr>lv_name = ''AirPlay-Windows'', lv_width = 2560, lv_height = 1440, lv_hevc = True,
     lv_max_fps = 60, lv_refresh_rate = 60, lv_hwaccel = True\<rparr>"

record device_context =
  dc_name :: string
  dc_deviceid :: string
  dc_model :: string
  dc_pi :: string
  dc_features :: string
  dc_srcvers :: string
  dc_public_key :: bytes
  dc_renderer :: bool
  dc_player :: bool
  dc_hls_port :: u16
  dc_width :: int
  dc_height :: int
  dc_hwaccel :: bool
  dc_live :: "live_settings option"

section \<open>Hexadecimal numbers\<close>

definition hex_val :: "char \<Rightarrow> nat option" where
  "hex_val c =
     (let n = of_char c :: nat
      in if 48 \<le> n \<and> n \<le> 57 then Some (n - 48)
         else if 97 \<le> n \<and> n \<le> 102 then Some (10 + n - 97)
         else if 65 \<le> n \<and> n \<le> 70 then Some (10 + n - 65) else None)"

definition is_hex :: "char \<Rightarrow> bool" where
  "is_hex c \<longleftrightarrow> hex_val c \<noteq> None"

definition hex_value :: "string \<Rightarrow> nat" where
  "hex_value ds = foldl (\<lambda>n d. 16 * n + the (hex_val d)) 0 ds"

text \<open>\<open>std::stoull\<close> with base 16 in 64 bits: white space, a sign (a minus negates in 64 bits), a prefix 0x, digits;
  None for the exceptions.\<close>

definition strip_0x :: "string \<Rightarrow> string" where
  "strip_0x s = (case s of
      a # b # c # t \<Rightarrow> if a = CHR ''0'' \<and> (b = CHR ''x'' \<or> b = CHR ''X'') \<and> is_hex c then c # t else s
    | _ \<Rightarrow> s)"

definition stoull16 :: "string \<Rightarrow> u64 option" where
  "stoull16 s =
     (let t = dropWhile isspace s;
          neg = (t \<noteq> [] \<and> hd t = CHR ''-'');
          u = (if t \<noteq> [] \<and> (hd t = CHR ''-'' \<or> hd t = CHR ''+'') then tl t else t);
          ds = takeWhile is_hex (strip_0x u)
      in if ds = [] \<or> hex_value ds \<ge> 2 ^ 64 then None
         else Some (if neg then - of_nat (hex_value ds) else of_nat (hex_value ds)))"

section \<open>The property list of /info\<close>

text \<open>The two words of the feature string; a word that does not parse leaves what was read before.\<close>

definition parse_features :: "string \<Rightarrow> u64" where
  "parse_features s =
     (let comma = find_str '','' s;
          low = stoull16 (case comma of None \<Rightarrow> s | Some i \<Rightarrow> take i s);
          high = (case (low, comma) of (Some l, Some i) \<Rightarrow> stoull16 (drop (i + 1) s) | _ \<Rightarrow> Some 0)
      in or (push_bit 32 (case high of None \<Rightarrow> 0 | Some h \<Rightarrow> h)) (and (case low of None \<Rightarrow> 0 | Some l \<Rightarrow> l) 0xFFFFFFFF))"

definition make_display :: "int \<Rightarrow> int \<Rightarrow> int \<Rightarrow> int \<Rightarrow> plist" where
  "make_display width height refresh max_fps =
     PDict [(''features'', PUint 14), (''width'', PUint (of_int width)), (''height'', PUint (of_int height)),
            (''widthPixels'', PUint (of_int width)), (''heightPixels'', PUint (of_int height)),
            (''widthPhysical'', PUint 0), (''heightPhysical'', PUint 0), (''refreshRate'', PUint (of_int refresh)),
            (''maxFPS'', PUint (of_int max_fps)), (''rotation'', PUint 0), (''overscanned'', PBool False),
            (''uuid'', PString ''e5f7a168-f1f9-4f51-9f9e-6a9cc0c8cc9f'')]"

definition make_audio_format :: "u64 \<Rightarrow> plist" where
  "make_audio_format t = PDict [(''type'', PUint t), (''audioInputFormats'', PUint 0x03FFFFFC),
     (''audioOutputFormats'', PUint 0x03FFFFFC)]"

definition make_audio_latency :: "u64 \<Rightarrow> plist" where
  "make_audio_latency t = PDict [(''audioType'', PString ''default''), (''type'', PUint t),
     (''inputLatencyMicros'', PUint 3000), (''outputLatencyMicros'', PUint 90000)]"

definition hevc_bit :: u64 where
  "hevc_bit = push_bit 32 0x400"

definition info_features :: "device_context \<Rightarrow> u64" where
  "info_features ctx =
     (let feat = parse_features (dc_features ctx);
          hevc = (case dc_live ctx of None \<Rightarrow> True | Some l \<Rightarrow> lv_hevc l)
      in if hevc then or feat hevc_bit else and feat (not hevc_bit))"

definition info_root :: "device_context \<Rightarrow> plist" where
  "info_root ctx =
     (let l = (case dc_live ctx of
                 None \<Rightarrow> default_live\<lparr>lv_name := dc_name ctx, lv_width := dc_width ctx, lv_height := dc_height ctx\<rparr>
               | Some l \<Rightarrow> l)
      in PDict [(''deviceid'', PString (dc_deviceid ctx)), (''macAddress'', PString (dc_deviceid ctx)),
           (''model'', PString (dc_model ctx)), (''name'', PString (lv_name l)), (''pi'', PString (dc_pi ctx)),
           (''sourceVersion'', PString (dc_srcvers ctx)), (''features'', PUint (info_features ctx)),
           (''statusFlags'', PUint 68), (''vv'', PUint 2), (''keepAliveLowPower'', PBool True),
           (''keepAliveSendStatsAsBody'', PBool True),
           (''pk'', PData (if dc_public_key ctx = [] then replicate 32 0 else dc_public_key ctx)),
           (''displays'', PArray [make_display (lv_width l) (lv_height l) (lv_refresh_rate l) (lv_max_fps l)]),
           (''audioFormats'', PArray [make_audio_format 100, make_audio_format 101]),
           (''audioLatencies'', PArray [make_audio_latency 100])])"

definition build_info_plist :: "plist_lib \<Rightarrow> device_context \<Rightarrow> bytes" where
  "build_info_plist lib ctx = pl_to_bin lib (info_root ctx)"

section \<open>The multi-codec bit\<close>

lemma bit_hevc_bit: "bit hevc_bit n \<longleftrightarrow> n = 42"
proof -
  have e: "hevc_bit = push_bit 42 1" unfolding hevc_bit_def by simp
  show ?thesis unfolding e by (auto simp: bit_simps simp del: push_bit_of_1)
qed

text \<open>The switch of the window decides the bit that lets iOS send HEVC, and no other bit of the
  features.\<close>

lemma info_feature_bits:
  "bit (info_features ctx) n =
     (if n = 42 then (case dc_live ctx of None \<Rightarrow> True | Some l \<Rightarrow> lv_hevc l)
      else bit (parse_features (dc_features ctx)) n)"
  by (auto simp: info_features_def bit_hevc_bit bit_simps Let_def dest: bit_imp_le_length split: option.split)

text \<open>The two words of the advertised features come back as one number.\<close>

lemma parse_hls_features: "parse_features ''0x5A7FFEF7,0x400'' = 0x4005A7FFEF7"
proof -
  have "stoull16 ''0x5A7FFEF7'' = Some 0x5A7FFEF7" "stoull16 ''0x400'' = Some 0x400"
    by (simp_all add: stoull16_def strip_0x_def hex_value_def hex_val_def is_hex_def isspace_def)
  moreover have "find_str '','' ''0x5A7FFEF7,0x400'' = Some 10" by code_simp
  ultimately show ?thesis by (simp add: parse_features_def Let_def)
qed

end
