(* ===== verification/HlsRegistry.thy ===== *)
theory HlsRegistry
  imports Plists Playlists
begin

text \<open>
  The state of an HLS playback (src/airplay/hls_session.h and .cpp without the playlist
  functions, which are in Playlists), the registry of the sessions, the registry of the reverse
  channels (src/airplay/reverse_channel.cpp) and the request that the receiver pushes on such a
  channel (src/airplay/fcup.cpp). Times are milliseconds of the steady clock and are arguments;
  the double values of the playback clock are real numbers, without rounding. The sockets and
  their answers are arguments.
\<close>

section \<open>Registries\<close>

text \<open>What a client of a registry may rely on; \<open>ok\<close> says which entries the registry accepts.\<close>

locale registry_ops =
  fixes lookup :: "'s \<Rightarrow> string \<Rightarrow> 'v option"
    and put :: "string \<Rightarrow> 'v \<Rightarrow> 's \<Rightarrow> 's"
    and del :: "string \<Rightarrow> 's \<Rightarrow> 's"
    and ok :: "string \<Rightarrow> 'v \<Rightarrow> bool"
  assumes lookup_put: "lookup (put k v s) k' = (if ok k v \<and> k' = k then Some v else lookup s k')"
    and lookup_del: "lookup (del k s) k' = (if k' = k then None else lookup s k')"
begin

lemma put_del: "lookup (del k (put k v s)) k' = lookup (del k s) k'"
  by (simp add: lookup_put lookup_del)

lemma put_put: "ok k v \<Longrightarrow> lookup (put k v (put k w s)) k' = lookup (put k v s) k'"
  by (simp add: lookup_put)

lemma frame: "k' \<noteq> k \<Longrightarrow> lookup (put k v s) k' = lookup s k' \<and> lookup (del k s) k' = lookup s k'"
  by (simp add: lookup_put lookup_del)

text \<open>A history of insertions and removals, and what the last event about a key leaves.\<close>

fun replay :: "(string \<times> 'v option) list \<Rightarrow> 's \<Rightarrow> 's" where
  "replay [] s = s"
| "replay ((k, Some v) # h) s = replay h (put k v s)"
| "replay ((k, None) # h) s = replay h (del k s)"

lemma replay_frame: "list_all (\<lambda>e. fst e \<noteq> k) h \<Longrightarrow> lookup (replay h s) k = lookup s k"
  by (induction h s rule: replay.induct) (auto simp: lookup_put lookup_del)

lemma replay_append: "replay (g @ h) s = replay h (replay g s)"
  by (induction g s rule: replay.induct) auto

lemma replay_last:
  "list_all (\<lambda>e. fst e \<noteq> k) h \<Longrightarrow> ok k v \<Longrightarrow> lookup (replay (g @ (k, Some v) # h) s) k = Some v"
  "list_all (\<lambda>e. fst e \<noteq> k) h \<Longrightarrow> lookup (replay (g @ (k, None) # h) s) k = None"
  by (simp_all add: replay_append replay_frame lookup_put lookup_del)

lemma replay_values:
  assumes "\<And>k v. lookup s k = Some v \<Longrightarrow> P v" and "list_all (\<lambda>e. case snd e of None \<Rightarrow> True | Some v \<Rightarrow> P v) h"
  shows "lookup (replay h s) k = Some v \<Longrightarrow> P v"
  using assms
proof (induction h s arbitrary: k v rule: replay.induct)
  case (2 k' w h s)
  have "lookup (put k' w s) k2 = Some v2 \<Longrightarrow> P v2" for k2 v2
    using 2 by (auto simp: lookup_put split: if_splits)
  then show ?case using 2 by auto
next
  case (3 k' h s)
  have "lookup (del k' s) k2 = Some v2 \<Longrightarrow> P v2" for k2 v2
    using 3 by (auto simp: lookup_del split: if_splits)
  then show ?case using 3 by auto
qed auto

end

section \<open>Reverse channels\<close>

type_synonym reverse = "string \<rightharpoonup> int"

definition register_socket :: "string \<Rightarrow> int \<Rightarrow> reverse \<Rightarrow> reverse" where
  "register_socket sid fd chs = (if sid = [] \<or> fd < 0 then chs else chs(sid \<mapsto> fd))"

definition unregister_socket :: "string \<Rightarrow> reverse \<Rightarrow> reverse" where
  "unregister_socket sid chs = (if sid = [] then chs else chs(sid := None))"

definition socket_for :: "reverse \<Rightarrow> string \<Rightarrow> int" where
  "socket_for chs sid = (if sid = [] then -1 else case chs sid of None \<Rightarrow> -1 | Some fd \<Rightarrow> fd)"

definition open_channel :: "reverse \<Rightarrow> string \<Rightarrow> int option" where
  "open_channel chs sid = (if sid = [] then None else chs sid)"

interpretation channels: registry_ops open_channel register_socket unregister_socket "\<lambda>sid fd. sid \<noteq> [] \<and> fd \<ge> 0"
  by unfold_locales (auto simp: open_channel_def register_socket_def unregister_socket_def)

lemma socket_for_open: "socket_for chs sid = (case open_channel chs sid of None \<Rightarrow> -1 | Some fd \<Rightarrow> fd)"
  by (simp add: socket_for_def open_channel_def)

section \<open>Sessions\<close>

record hls_session =
  hs_id :: string
  hs_master_url :: string
  hs_master :: string
  hs_next_request :: u32
  hs_master_request :: u32
  hs_generation :: u32
  hs_media_uris :: "string list"
  hs_media :: "string \<rightharpoonup> string"
  hs_segment_data :: "string \<rightharpoonup> string"
  hs_redirects :: "string \<rightharpoonup> string"
  hs_requests :: "u32 \<rightharpoonup> u32"
  hs_segs :: seg_urls
  hs_started :: bool
  hs_ready :: bool
  hs_base :: real
  hs_rate :: real
  hs_anchor :: int
  hs_props :: "string \<rightharpoonup> bytes"

definition new_hls :: "string \<Rightarrow> hls_session" where
  "new_hls sid = \<lparr>hs_id = sid, hs_master_url = [], hs_master = [], hs_next_request = 1, hs_master_request = 0,
     hs_generation = 0, hs_media_uris = [], hs_media = Map.empty, hs_segment_data = Map.empty,
     hs_redirects = Map.empty, hs_requests = Map.empty, hs_segs = \<lparr>sg_map = Map.empty, sg_counter = 0\<rparr>,
     hs_started = False, hs_ready = False, hs_base = 0, hs_rate = 0, hs_anchor = 0, hs_props = Map.empty\<rparr>"

record registry =
  rg_sessions :: "string \<rightharpoonup> hls_session"
  rg_active :: string

definition empty_registry :: registry where
  "empty_registry = \<lparr>rg_sessions = Map.empty, rg_active = []\<rparr>"

definition find_session :: "registry \<Rightarrow> string \<Rightarrow> hls_session option" where
  "find_session reg sid = rg_sessions reg sid"

definition store_session :: "string \<Rightarrow> hls_session \<Rightarrow> registry \<Rightarrow> registry" where
  "store_session sid s reg = reg\<lparr>rg_sessions := (rg_sessions reg)(sid \<mapsto> s)\<rparr>"

definition get_or_create :: "string \<Rightarrow> registry \<Rightarrow> hls_session \<times> registry" where
  "get_or_create sid reg =
     (case find_session reg sid of
        Some s \<Rightarrow> (s, reg)
      | None \<Rightarrow> (new_hls sid, store_session sid (new_hls sid) reg))"

definition set_active_session :: "string \<Rightarrow> registry \<Rightarrow> registry" where
  "set_active_session sid reg = reg\<lparr>rg_active := sid\<rparr>"

definition remove_session :: "string \<Rightarrow> registry \<Rightarrow> registry" where
  "remove_session sid reg =
     (let r = reg\<lparr>rg_sessions := (rg_sessions reg)(sid := None)\<rparr>
      in if rg_active r = sid then r\<lparr>rg_active := []\<rparr> else r)"

interpretation sessions: registry_ops find_session store_session remove_session "\<lambda>sid s. True"
  by unfold_locales (auto simp: find_session_def store_session_def remove_session_def Let_def)

text \<open>A handler holds a pointer to the session and updates it in place.\<close>

definition on_session :: "string \<Rightarrow> (hls_session \<Rightarrow> hls_session) \<Rightarrow> registry \<Rightarrow> registry" where
  "on_session sid f reg = (case find_session reg sid of None \<Rightarrow> reg | Some s \<Rightarrow> store_session sid (f s) reg)"

lemma find_on_session [simp]:
  "find_session (on_session sid f reg) k = (if k = sid then map_option f (find_session reg sid) else find_session reg k)"
  by (simp add: on_session_def sessions.lookup_put split: option.split)

lemma active_on_session [simp]: "rg_active (on_session sid f reg) = rg_active reg"
  by (simp add: on_session_def store_session_def split: option.split)

lemma find_set_active [simp]: "find_session (set_active_session a reg) sid = find_session reg sid"
  by (simp add: find_session_def set_active_session_def)

lemma find_get_or_create: "find_session (snd (get_or_create sid reg)) k
    = (if k = sid then Some (fst (get_or_create sid reg)) else find_session reg k)"
  by (simp add: get_or_create_def sessions.lookup_put split: option.split)

section \<open>Lookups over all the sessions\<close>

text \<open>The scans run over an unordered map: \<open>order\<close> is the order in which it lists the sessions.\<close>

definition candidates :: "string list \<Rightarrow> registry \<Rightarrow> hls_session list" where
  "candidates order reg =
     (if rg_active reg = [] then [] else case find_session reg (rg_active reg) of None \<Rightarrow> [] | Some s \<Rightarrow> [s])
     @ List.map_filter (find_session reg) (filter (\<lambda>sid. sid \<noteq> rg_active reg) order)"

fun first_some :: "('a \<Rightarrow> 'b option) \<Rightarrow> 'a list \<Rightarrow> 'b option" where
  "first_some f [] = None"
| "first_some f (x # xs) = (case f x of None \<Rightarrow> first_some f xs | Some y \<Rightarrow> Some y)"

definition resolve_segment_path :: "string list \<Rightarrow> registry \<Rightarrow> string \<Rightarrow> string" where
  "resolve_segment_path order reg path =
     (case first_some (\<lambda>s. sg_map (hs_segs s) path) (candidates order reg) of None \<Rightarrow> [] | Some url \<Rightarrow> url)"

text \<open>The result and the flag "it is a master", which a failing lookup may also leave set.\<close>

fun scan_playlists :: "string \<Rightarrow> bool \<Rightarrow> hls_session list \<Rightarrow> string option \<times> bool" where
  "scan_playlists url master [] = (None, master)"
| "scan_playlists url master (s # ss) =
     (if hs_master_url s = url
      then (if hs_master s = [] then scan_playlists url True ss else (Some (hs_master s), True))
      else case hs_media s url of
             None \<Rightarrow> scan_playlists url master ss
           | Some txt \<Rightarrow> if txt = [] then scan_playlists url False ss else (Some txt, False))"

definition lookup_playlist :: "string list \<Rightarrow> registry \<Rightarrow> string \<Rightarrow> string option \<times> bool" where
  "lookup_playlist order reg url = scan_playlists url False (candidates order reg)"

section \<open>The request on the reverse channel\<close>

definition fcup_agent :: string where
  "fcup_agent = ''AppleCoreMedia/1.0.0.11B554a (Apple TV; U; CPU OS 7_0_4 like Mac OS X; en_us''"

definition fcup_plist :: "string \<Rightarrow> string \<Rightarrow> u32 \<Rightarrow> plist" where
  "fcup_plist url sid rid =
     PDict [(''sessionID'', PUint 1), (''type'', PString ''unhandledURLRequest''),
            (''request'', PDict
              [(''FCUP_Response_ClientInfo'', PUint 1), (''FCUP_Response_ClientRef'', PUint 40030004),
               (''FCUP_Response_RequestID'', PUint (scast rid)), (''FCUP_Response_URL'', PString url),
               (''sessionID'', PUint 1),
               (''FCUP_Response_Headers'', PDict
                 [(''X-Playback-Session-Id'', PString sid), (''User-Agent'', PString fcup_agent),
                  (''Accept-Language'', PString ''fr-FR,fr;q=0.9,en;q=0.8'')])])]"

definition fcup_message :: "plist_lib \<Rightarrow> string \<Rightarrow> string \<Rightarrow> u32 \<Rightarrow> string option" where
  "fcup_message lib url sid rid =
     (let xml = pl_to_xml lib (fcup_plist url sid rid)
      in if xml = [] then None
         else Some (''POST /event HTTP/1.1'' @ crlf @ ''X-Apple-Session-ID: '' @ sid @ crlf
                    @ ''Content-Type: text/x-apple-plist+xml'' @ crlf
                    @ ''Content-Length: '' @ show_nat (length xml) @ crlf @ crlf @ of_bytes xml))"

text \<open>The socket says whether it takes the message.\<close>

definition send_fcup_request :: "plist_lib \<Rightarrow> (int \<Rightarrow> string \<Rightarrow> bool) \<Rightarrow> int \<Rightarrow> string \<Rightarrow> string \<Rightarrow> u32 \<Rightarrow> bool" where
  "send_fcup_request lib send fd url sid rid =
     (if fd < 0 \<or> url = [] \<or> sid = [] then False
      else case fcup_message lib url sid rid of None \<Rightarrow> False | Some msg \<Rightarrow> send fd msg)"

section \<open>Fetching through the reverse channel\<close>

text \<open>A fetch runs in steps, each under a lock, and other threads run between them. The ticket is
  what the fetching thread keeps in its local variables.\<close>

record ticket =
  tk_session :: string
  tk_fd :: int
  tk_id :: u32
  tk_url :: string
  tk_previous :: "string option"

definition pick_session :: "reverse \<Rightarrow> string list \<Rightarrow> registry \<Rightarrow> (string \<times> int) option" where
  "pick_session chs order reg =
     first_some (\<lambda>sid. if find_session reg sid \<noteq> None \<and> socket_for chs sid \<ge> 0 then Some (sid, socket_for chs sid) else None)
       ((if rg_active reg = [] then [] else [rg_active reg]) @ order)"

definition issue_request :: "reverse \<Rightarrow> string list \<Rightarrow> string \<Rightarrow> registry \<Rightarrow> ticket option \<times> registry" where
  "issue_request chs order url reg =
     (case pick_session chs order reg of
        None \<Rightarrow> (None, reg)
      | Some (sid, fd) \<Rightarrow>
          (case find_session reg sid of
             None \<Rightarrow> (None, reg)
           | Some s \<Rightarrow>
               (Some \<lparr>tk_session = sid, tk_fd = fd, tk_id = hs_next_request s, tk_url = url, tk_previous = None\<rparr>,
                on_session sid (\<lambda>s. s\<lparr>hs_next_request := hs_next_request s + 1\<rparr>) reg)))"

definition record_request :: "ticket \<Rightarrow> registry \<Rightarrow> registry" where
  "record_request tk = on_session (tk_session tk) (\<lambda>s. s\<lparr>hs_requests := (hs_requests s)(tk_id tk \<mapsto> hs_generation s)\<rparr>)"

datatype fetched = Segment_bytes string | Segment_redirect string

definition take_segment :: "ticket \<Rightarrow> registry \<Rightarrow> fetched option \<times> registry" where
  "take_segment tk reg =
     (case find_session reg (tk_session tk) of
        None \<Rightarrow> (None, reg)
      | Some s \<Rightarrow>
          (case hs_redirects s (tk_url tk) of
             Some loc \<Rightarrow> (Some (Segment_redirect loc),
                          on_session (tk_session tk) (\<lambda>s. s\<lparr>hs_redirects := (hs_redirects s)(tk_url tk := None)\<rparr>) reg)
           | None \<Rightarrow>
               (case hs_segment_data s (tk_url tk) of
                  Some d \<Rightarrow> (Some (Segment_bytes d),
                             on_session (tk_session tk) (\<lambda>s. s\<lparr>hs_segment_data := (hs_segment_data s)(tk_url tk := None)\<rparr>) reg)
                | None \<Rightarrow> (None, reg))))"

text \<open>What the other threads do after each step is an argument: after the request number is
  issued, after the first look, and until the fetching thread wakes up or gives up.\<close>

definition fetch_segment ::
  "plist_lib \<Rightarrow> (int \<Rightarrow> string \<Rightarrow> bool) \<Rightarrow> (nat \<Rightarrow> registry \<Rightarrow> registry) \<Rightarrow> reverse \<Rightarrow> string list \<Rightarrow> string
    \<Rightarrow> registry \<Rightarrow> fetched option \<times> registry" where
  "fetch_segment lib send others chs order url reg =
     (case issue_request chs order url reg of
        (None, reg1) \<Rightarrow> (None, reg1)
      | (Some tk, reg1) \<Rightarrow>
          (case take_segment tk (others 0 reg1) of
             (Some r, reg2) \<Rightarrow> (Some r, reg2)
           | (None, reg2) \<Rightarrow>
               (let reg3 = record_request tk (others 1 reg2)
                in if send_fcup_request lib send (tk_fd tk) url (tk_session tk) (tk_id tk)
                   then take_segment tk (others 2 reg3) else (None, reg3))))"

definition deliver_segment_redirect :: "string \<Rightarrow> string \<Rightarrow> string \<Rightarrow> registry \<Rightarrow> registry" where
  "deliver_segment_redirect sid url loc = on_session sid (\<lambda>s. s\<lparr>hs_redirects := (hs_redirects s)(url \<mapsto> loc)\<rparr>)"

definition deliver_segment :: "string \<Rightarrow> string \<Rightarrow> string \<Rightarrow> registry \<Rightarrow> registry" where
  "deliver_segment sid url d = on_session sid (\<lambda>s. s\<lparr>hs_segment_data := (hs_segment_data s)(url \<mapsto> d)\<rparr>)"

text \<open>The first look of a playlist fetch: a cached text ends the fetch, unless a refresh is forced;
  then it is taken out of the cache and kept in the ticket.\<close>

definition begin_playlist :: "bool \<Rightarrow> ticket \<Rightarrow> registry \<Rightarrow> string option \<times> ticket \<times> registry" where
  "begin_playlist force tk reg =
     (case find_session reg (tk_session tk) of
        None \<Rightarrow> (None, tk, reg)
      | Some s \<Rightarrow>
          (case hs_media s (tk_url tk) of
             None \<Rightarrow> (None, tk, reg)
           | Some text \<Rightarrow>
               (if force then (None, tk\<lparr>tk_previous := Some text\<rparr>,
                               on_session (tk_session tk) (\<lambda>s. s\<lparr>hs_media := (hs_media s)(tk_url tk := None)\<rparr>) reg)
                else (Some text, tk, reg))))"

definition restore_playlist :: "ticket \<Rightarrow> registry \<Rightarrow> registry" where
  "restore_playlist tk reg =
     (case tk_previous tk of
        None \<Rightarrow> reg
      | Some text \<Rightarrow> on_session (tk_session tk) (\<lambda>s. s\<lparr>hs_media := (hs_media s)(tk_url tk \<mapsto> text)\<rparr>) reg)"

definition wake_playlist :: "ticket \<Rightarrow> registry \<Rightarrow> string option \<times> registry" where
  "wake_playlist tk reg =
     (case Option.bind (find_session reg (tk_session tk)) (\<lambda>s. hs_media s (tk_url tk)) of
        Some text \<Rightarrow> (Some text, reg)
      | None \<Rightarrow> (None, restore_playlist tk reg))"

definition fetch_playlist ::
  "plist_lib \<Rightarrow> (int \<Rightarrow> string \<Rightarrow> bool) \<Rightarrow> (nat \<Rightarrow> registry \<Rightarrow> registry) \<Rightarrow> reverse \<Rightarrow> string list \<Rightarrow> string \<Rightarrow> bool
    \<Rightarrow> registry \<Rightarrow> string option \<times> registry" where
  "fetch_playlist lib send others chs order url force reg =
     (case issue_request chs order url reg of
        (None, reg1) \<Rightarrow> (None, reg1)
      | (Some tk0, reg1) \<Rightarrow>
          (case begin_playlist force tk0 (others 0 reg1) of
             (Some text, tk, reg2) \<Rightarrow> (Some text, reg2)
           | (None, tk, reg2) \<Rightarrow>
               (let reg3 = record_request tk (others 1 reg2)
                in if send_fcup_request lib send (tk_fd tk) url (tk_session tk) (tk_id tk)
                   then wake_playlist tk (others 2 reg3) else (None, restore_playlist tk reg3))))"

section \<open>The playback clock\<close>

definition hls_position_seconds :: "int \<Rightarrow> hls_session \<Rightarrow> real" where
  "hls_position_seconds now s =
     (if hs_rate s \<le> 0 \<or> hs_anchor s \<le> 0 then hs_base s
      else hs_base s + of_int (now - hs_anchor s) / 1000 * hs_rate s)"

definition hls_set_rate :: "int \<Rightarrow> real \<Rightarrow> hls_session \<Rightarrow> hls_session" where
  "hls_set_rate now rate s =
     (let s1 = s\<lparr>hs_base := hls_position_seconds now s, hs_anchor := now, hs_rate := rate\<rparr>
      in if rate > 0 then s1\<lparr>hs_started := True\<rparr> else s1)"

definition hls_set_position :: "int \<Rightarrow> real \<Rightarrow> hls_session \<Rightarrow> hls_session" where
  "hls_set_position now position s = s\<lparr>hs_base := position, hs_anchor := now\<rparr>"

definition reset_hls_media_state :: "int \<Rightarrow> string \<Rightarrow> real \<Rightarrow> hls_session \<Rightarrow> hls_session" where
  "reset_hls_media_state now master start s =
     (let generation = hs_generation s + 1; rid = hs_next_request s
      in s\<lparr>hs_master_url := master, hs_master := [], hs_media_uris := [], hs_media := Map.empty,
           hs_generation := generation, hs_next_request := rid + 1, hs_master_request := rid,
           hs_segment_data := Map.empty, hs_redirects := Map.empty, hs_requests := [rid \<mapsto> generation],
           hs_segs := \<lparr>sg_map = Map.empty, sg_counter = 0\<rparr>, hs_props := Map.empty, hs_ready := False,
           hs_base := start, hs_anchor := now, hs_rate := 1, hs_started := True\<rparr>)"

text \<open>Changing the rate never makes the position jump, and the clock runs at the new rate.\<close>

lemma position_after_set_rate:
  assumes "0 < now" "now \<le> later"
  shows "hls_position_seconds later (hls_set_rate now rate s)
    = hls_position_seconds now s + of_int (later - now) / 1000 * max 0 rate"
  using assms by (simp add: hls_position_seconds_def hls_set_rate_def Let_def max_def)

end
