(* ===== verification/HlsRoutes.thy ===== *)
theory HlsRoutes
  imports HlsRegistry Info Renderer Rtsp
begin

text \<open>
  The HLS handlers of src/airplay/routes.cpp: /play, /stop, /action, /rate, /scrub, /setProperty,
  /getProperty, /playback-info, /reverse. A handler is one step on the state that all connections
  share: the two registries, the commands given to the media player and the window. The handlers
  of the code update the session without a lock of its own, so that they are steps is an
  assumption; the steps of a fetch, which do lock, are separate. The parsers of the standard library for floating-point
  numbers are parameters, and so is libplist.
\<close>

section \<open>Environment and shared state\<close>

record env =
  en_plist :: plist_lib
  en_stod :: "string \<Rightarrow> real option"
  en_stof :: "string \<Rightarrow> real option"
  en_send :: "int \<Rightarrow> string \<Rightarrow> bool"

datatype player_cmd =
  Player_stop
| Player_start string
| Player_rate real
| Player_seek real
| Player_on_end string u32

record hub =
  hb_registry :: registry
  hb_reverse :: reverse
  hb_player :: "player_cmd list"
  hb_renderer :: renderer

definition player :: "device_context \<Rightarrow> player_cmd list \<Rightarrow> hub \<Rightarrow> hub" where
  "player ctx cmds h = (if dc_player ctx then h\<lparr>hb_player := hb_player h @ cmds\<rparr> else h)"

definition window :: "device_context \<Rightarrow> (renderer \<Rightarrow> renderer) \<Rightarrow> hub \<Rightarrow> hub" where
  "window ctx f h = (if dc_renderer ctx then h\<lparr>hb_renderer := f (hb_renderer h)\<rparr> else h)"

definition in_registry :: "(registry \<Rightarrow> registry) \<Rightarrow> hub \<Rightarrow> hub" where
  "in_registry f h = h\<lparr>hb_registry := f (hb_registry h)\<rparr>"

lemmas hub_ops = player_def window_def in_registry_def

lemma hub_ops_simps [simp]:
  "hb_registry (player ctx cmds h) = hb_registry h" "hb_registry (window ctx f h) = hb_registry h"
  "hb_registry (in_registry g h) = g (hb_registry h)"
  "hb_reverse (player ctx cmds h) = hb_reverse h" "hb_reverse (window ctx f h) = hb_reverse h"
  "hb_reverse (in_registry g h) = hb_reverse h"
  "hb_player (window ctx f h) = hb_player h" "hb_player (in_registry g h) = hb_player h"
  "hb_renderer (player ctx cmds h) = hb_renderer h" "hb_renderer (in_registry g h) = hb_renderer h"
  by (simp_all add: hub_ops)

section \<open>Responses\<close>

definition make_response :: "int \<Rightarrow> string \<Rightarrow> response" where
  "make_response code txt = new_response\<lparr>rs_status := code, rs_text := txt\<rparr>"

definition copy_cseq :: "request \<Rightarrow> response \<Rightarrow> response" where
  "copy_cseq rq r = (let c = header rq ''cseq'' in if c \<noteq> [] then set_header ''CSeq'' c r else r)"

abbreviation ok_reply :: "request \<Rightarrow> response" where
  "ok_reply rq \<equiv> copy_cseq rq (make_response 200 ''OK'')"

definition handle_stream_stub :: "request \<Rightarrow> response" where
  "handle_stream_stub rq = ok_reply rq"

definition session_header :: "request \<Rightarrow> string" where
  "session_header rq = header rq ''x-apple-session-id''"

section \<open>/play\<close>

record play_request =
  pr_url :: string
  pr_uuid :: string
  pr_proc :: string
  pr_start :: real

definition parse_play_plist :: "plist \<Rightarrow> play_request option" where
  "parse_play_plist doc =
     (let str = (\<lambda>k. case get_string_of doc k of None \<Rightarrow> [] | Some s \<Rightarrow> s);
          pr = \<lparr>pr_url = str ''Content-Location'', pr_uuid = str ''uuid'', pr_proc = str ''clientProcName'',
                pr_start = get_real doc ''Start-Position-Seconds'' 0\<rparr>
      in if pr_url pr = [] then None else Some pr)"

definition extract_field :: "string \<Rightarrow> string \<Rightarrow> string" where
  "extract_field txt key =
     (case find_str key txt of
        None \<Rightarrow> []
      | Some pos \<Rightarrow>
          (let start = pos + length key;
               v = (case find_pred_from (\<lambda>c. c = cr \<or> c = nl) txt start of
                      None \<Rightarrow> drop start txt | Some e \<Rightarrow> substr txt start (e - start))
           in dropWhile (\<lambda>c. c = CHR '' '' \<or> c = tab) v))"

definition parse_play_text :: "env \<Rightarrow> string \<Rightarrow> play_request option" where
  "parse_play_text env txt =
     (let url = extract_field txt ''Content-Location:''; sp = extract_field txt ''Start-Position:'';
          start = (if sp = [] then 0 else case en_stod env sp of None \<Rightarrow> 0 | Some d \<Rightarrow> d)
      in if url = [] then None else Some \<lparr>pr_url = url, pr_uuid = [], pr_proc = [], pr_start = start\<rparr>)"

definition parse_play_body :: "env \<Rightarrow> bytes \<Rightarrow> play_request option" where
  "parse_play_body env body =
     (if binary_plist body then Option.bind (pl_from_bin (en_plist env) body) parse_play_plist
      else parse_play_text env (of_bytes body))"

text \<open>The guards of the handler: a body that parses, from YouTube, for a session with a reverse
  channel.\<close>

definition playable :: "env \<Rightarrow> hub \<Rightarrow> request \<Rightarrow> play_request option" where
  "playable env h rq =
     (case parse_play_body env (rq_body rq) of
        None \<Rightarrow> None
      | Some pr \<Rightarrow> if pr_proc pr \<noteq> ''YouTube'' \<or> socket_for (hb_reverse h) (session_header rq) < 0 then None else Some pr)"

definition hls_device :: "string \<Rightarrow> string \<Rightarrow> renderer \<Rightarrow> renderer" where
  "hls_device ip sid r =
     set_active_device ((snapshot_device r)\<lparr>dv_peer := ip, dv_session := sid, dv_kind := ''HLS''\<rparr>) r"

definition start_play :: "int \<Rightarrow> string \<Rightarrow> play_request \<Rightarrow> registry \<Rightarrow> registry" where
  "start_play now sid pr reg =
     on_session sid (reset_hls_media_state now (pr_url pr) (pr_start pr))
       (set_active_session sid (snd (get_or_create sid reg)))"

definition handle_play :: "env \<Rightarrow> device_context \<Rightarrow> string \<Rightarrow> int \<Rightarrow> request \<Rightarrow> hub \<Rightarrow> response \<times> hub" where
  "handle_play env ctx ip now rq h =
     (ok_reply rq,
      case playable env h rq of
        None \<Rightarrow> h
      | Some pr \<Rightarrow>
          (let sid = session_header rq
           in window ctx (hls_device ip sid) (in_registry (start_play now sid pr) (player ctx [Player_stop] h))))"

text \<open>The request for the master playlist that the handler pushes last.\<close>

definition master_request :: "env \<Rightarrow> hub \<Rightarrow> hub \<Rightarrow> request \<Rightarrow> (int \<times> string) option" where
  "master_request env h h' rq =
     (let sid = session_header rq
      in case (playable env h rq, find_session (hb_registry h') sid) of
           (Some pr, Some s) \<Rightarrow>
             map_option (Pair (socket_for (hb_reverse h) sid))
               (fcup_message (en_plist env) (pr_url pr) sid (hs_master_request s))
         | _ \<Rightarrow> None)"

section \<open>/stop\<close>

definition stop_session :: "int \<Rightarrow> hls_session \<Rightarrow> hls_session" where
  "stop_session now s = (hls_set_rate now 0 s)\<lparr>hs_started := False, hs_ready := False, hs_master := [],
     hs_media_uris := [], hs_media := Map.empty, hs_segment_data := Map.empty, hs_redirects := Map.empty,
     hs_segs := \<lparr>sg_map = Map.empty, sg_counter = 0\<rparr>\<rparr>"

definition handle_stop :: "device_context \<Rightarrow> int \<Rightarrow> request \<Rightarrow> hub \<Rightarrow> response \<times> hub" where
  "handle_stop ctx now rq h =
     (let sid = session_header rq;
          h1 = (if sid = [] then h else in_registry (on_session sid (stop_session now)) h);
          h2 = player ctx [Player_stop] h1
      in (ok_reply rq, if sid = [] then h2 else in_registry (set_active_session []) h2))"

section \<open>/action\<close>

record fcup_response =
  fr_url :: string
  fr_id :: u64
  fr_data :: string
  fr_location :: string

definition read_params :: "plist \<Rightarrow> fcup_response" where
  "read_params params =
     \<lparr>fr_url = (case get_string_of params ''FCUP_Response_URL'' of None \<Rightarrow> [] | Some u \<Rightarrow> u),
      fr_id = (case get_uint_of params ''FCUP_Response_RequestID'' of None \<Rightarrow> 0 | Some n \<Rightarrow> n),
      fr_data = (case get_data_of params ''FCUP_Response_Data'' of None \<Rightarrow> [] | Some d \<Rightarrow> of_bytes d),
      fr_location =
        (if get_uint_of params ''FCUP_Response_StatusCode'' = Some 302
         then case dict_item params ''FCUP_Response_Headers'' of
                Some (PDict kvs) \<Rightarrow> (case get_string_of (PDict kvs) ''Location'' of None \<Rightarrow> [] | Some l \<Rightarrow> l)
              | _ \<Rightarrow> []
         else [])\<rparr>"

definition read_action :: "plist_lib \<Rightarrow> bytes \<Rightarrow> fcup_response option" where
  "read_action lib body =
     (if \<not> binary_plist body then None
      else case pl_from_bin lib body of
             None \<Rightarrow> None
           | Some doc \<Rightarrow>
               (case dict_item doc ''params'' of
                  None \<Rightarrow> None
                | Some params \<Rightarrow> if get_string_of doc ''type'' = Some ''unhandledURLResponse'' then Some (read_params params) else None))"

text \<open>A response to a numbered request is current if the number was issued for the current playback;
  a current number is used up. A response without a number is always current.\<close>

definition current_response :: "u64 \<Rightarrow> hls_session \<Rightarrow> bool" where
  "current_response rid s \<longleftrightarrow> rid = 0 \<or> hs_requests s (ucast rid) = Some (hs_generation s)"

definition use_request :: "u64 \<Rightarrow> hls_session \<Rightarrow> hls_session" where
  "use_request rid s = (if rid = 0 then s else s\<lparr>hs_requests := (hs_requests s)(ucast rid := None)\<rparr>)"

definition local_master :: "u16 \<Rightarrow> string" where
  "local_master port = ''http://localhost:'' @ show_nat (unat port) @ ''/master.m3u8''"

definition m3u8 :: "string \<Rightarrow> bool" where
  "m3u8 url \<longleftrightarrow> suffix ''.m3u8'' url"

definition store_master :: "string \<Rightarrow> hls_session \<Rightarrow> hls_session" where
  "store_master playlist s = s\<lparr>hs_master := playlist, hs_media_uris := extract_media_uris playlist\<rparr>"

definition store_media :: "u16 \<Rightarrow> string \<Rightarrow> string \<Rightarrow> hls_session \<Rightarrow> hls_session" where
  "store_media port url playlist s =
     (let (localised, segs, n) = rewrite_segments_to_local port (expand_yt_condensed_playlist playlist) (hs_segs s)
      in s\<lparr>hs_segs := segs, hs_media := (hs_media s)(url \<mapsto> localised), hs_ready := True\<rparr>)"

definition start_player :: "device_context \<Rightarrow> string \<Rightarrow> hls_session \<Rightarrow> hub \<Rightarrow> hub" where
  "start_player ctx sid s h =
     (if dc_player ctx \<and> dc_renderer ctx
      then window ctx (push_playback_rate 1)
             (player ctx [Player_stop, Player_on_end sid (hs_generation s), Player_start (local_master (dc_hls_port ctx)),
                          Player_rate (hs_rate s)] h)
      else h)"

definition accept_response :: "device_context \<Rightarrow> string \<Rightarrow> fcup_response \<Rightarrow> hls_session \<Rightarrow> hub \<Rightarrow> hub" where
  "accept_response ctx sid fr s h =
     (if hs_master_url s \<noteq> [] \<and> fr_url fr = hs_master_url s
      then start_player ctx sid s (in_registry (on_session sid (store_master (fr_data fr))) h)
      else if m3u8 (fr_url fr)
      then in_registry (on_session sid (store_media (dc_hls_port ctx) (fr_url fr) (fr_data fr))) h
      else if fr_location fr \<noteq> [] then in_registry (deliver_segment_redirect sid (fr_url fr) (fr_location fr)) h
      else in_registry (deliver_segment sid (fr_url fr) (fr_data fr)) h)"

definition handle_action :: "env \<Rightarrow> device_context \<Rightarrow> request \<Rightarrow> hub \<Rightarrow> response \<times> hub" where
  "handle_action env ctx rq h =
     (ok_reply rq,
      case read_action (en_plist env) (rq_body rq) of
        None \<Rightarrow> h
      | Some fr \<Rightarrow>
          (let sid = session_header rq
           in case find_session (hb_registry h) sid of
                None \<Rightarrow> h
              | Some s \<Rightarrow>
                  (if current_response (fr_id fr) s
                   then accept_response ctx sid fr s (in_registry (on_session sid (use_request (fr_id fr))) h) else h)))"

text \<open>The callback that the player runs at the end of a stream.\<close>

definition playback_ended :: "string \<Rightarrow> u32 \<Rightarrow> int \<Rightarrow> registry \<Rightarrow> registry" where
  "playback_ended sid generation now reg =
     (case find_session reg sid of
        None \<Rightarrow> reg
      | Some s \<Rightarrow> if hs_generation s \<noteq> generation then reg else on_session sid (hls_set_rate now 0) reg)"

section \<open>/playback-info, /rate and /scrub\<close>

definition playback_plist :: "int \<Rightarrow> hls_session option \<Rightarrow> plist" where
  "playback_plist now s =
     (let flag = (\<lambda>b. PUint (if b then 1 else 0));
          started = (case s of None \<Rightarrow> False | Some t \<Rightarrow> hs_started t);
          ready = (case s of None \<Rightarrow> False | Some t \<Rightarrow> hs_ready t)
      in PDict [(''duration'', PReal 0),
                (''position'', PReal (case s of None \<Rightarrow> 0 | Some t \<Rightarrow> hls_position_seconds now t)),
                (''rate'', PReal (case s of None \<Rightarrow> 0 | Some t \<Rightarrow> hs_rate t)),
                (''readyToPlay'', flag started), (''playbackBufferEmpty'', flag (\<not> ready)),
                (''playbackBufferFull'', flag ready), (''playbackLikelyToKeepUp'', flag ready),
                (''loadedTimeRanges'', PArray []), (''seekableTimeRanges'', PArray [])])"

definition handle_playback_info :: "env \<Rightarrow> int \<Rightarrow> request \<Rightarrow> hub \<Rightarrow> response" where
  "handle_playback_info env now rq h =
     (let sid = session_header rq; s = (if sid = [] then None else find_session (hb_registry h) sid)
      in (set_header ''Content-Type'' ''text/x-apple-plist+xml'' (ok_reply rq))
           \<lparr>rs_body := pl_to_xml (en_plist env) (playback_plist now s)\<rparr>)"

definition query_double :: "env \<Rightarrow> string \<Rightarrow> string \<Rightarrow> real option" where
  "query_double env uri key =
     (case find_str (key @ ''='') uri of
        None \<Rightarrow> None
      | Some p \<Rightarrow>
          (let start = p + length key + 1
           in en_stod env (case find_pred_from (\<lambda>c. c \<in> {CHR ''&'', CHR '' '', cr, nl}) uri start of
                             None \<Rightarrow> drop start uri | Some e \<Rightarrow> substr uri start (e - start))))"

definition handle_scrub :: "env \<Rightarrow> device_context \<Rightarrow> int \<Rightarrow> request \<Rightarrow> hub \<Rightarrow> response \<times> hub" where
  "handle_scrub env ctx now rq h =
     (handle_stream_stub rq,
      case (case query_double env (rq_uri rq) ''position'' of None \<Rightarrow> query_double env (rq_uri rq) ''value'' | Some p \<Rightarrow> Some p) of
        None \<Rightarrow> h
      | Some pos \<Rightarrow>
          (let sid = session_header rq
           in player ctx [Player_seek pos]
                (if sid = [] then h else in_registry (on_session sid (hls_set_position now pos)) h)))"

definition handle_rate :: "env \<Rightarrow> device_context \<Rightarrow> int \<Rightarrow> request \<Rightarrow> hub \<Rightarrow> response \<times> hub" where
  "handle_rate env ctx now rq h =
     (handle_stream_stub rq,
      case find_str ''value='' (rq_uri rq) of
        None \<Rightarrow> h
      | Some eq \<Rightarrow>
          (case en_stof env (drop (eq + 6) (rq_uri rq)) of
             None \<Rightarrow> h
           | Some rate \<Rightarrow>
               (let sid = session_header rq; h1 = player ctx [Player_rate rate] (window ctx (push_playback_rate rate) h)
                in if sid = [] then h1 else in_registry (on_session sid (hls_set_rate now rate)) h1)))"

section \<open>/setProperty, /getProperty and /reverse\<close>

definition property_key :: "string \<Rightarrow> string" where
  "property_key uri =
     (case find_pred (\<lambda>c. c = CHR ''?'') uri of
        None \<Rightarrow> []
      | Some q \<Rightarrow>
          (let prop = drop (q + 1) uri in if prop \<noteq> [] \<and> last prop = CHR ''&'' then butlast prop else prop))"

definition handle_set_property :: "request \<Rightarrow> hub \<Rightarrow> response \<times> hub" where
  "handle_set_property rq h =
     (let sid = session_header rq; prop = property_key (rq_uri rq)
      in (handle_stream_stub rq,
          if sid = [] \<or> prop = [] then h
          else in_registry (\<lambda>reg. on_session sid (\<lambda>s. s\<lparr>hs_props := (hs_props s)(prop \<mapsto> rq_body rq)\<rparr>)
                                    (snd (get_or_create sid reg))) h))"

definition handle_get_property :: "request \<Rightarrow> hub \<Rightarrow> response" where
  "handle_get_property rq h =
     (let sid = session_header rq; prop = property_key (rq_uri rq)
      in if sid = [] \<or> prop = [] then handle_stream_stub rq
         else case Option.bind (find_session (hb_registry h) sid) (\<lambda>s. hs_props s prop) of
                None \<Rightarrow> handle_stream_stub rq
              | Some body \<Rightarrow>
                  (let r = (ok_reply rq)\<lparr>rs_body := body\<rparr>
                   in if binary_plist body then set_header ''Content-Type'' ''application/x-apple-binary-plist'' r else r))"

text \<open>The handler also remembers the session id in the connection.\<close>

definition handle_reverse :: "int \<Rightarrow> request \<Rightarrow> hub \<Rightarrow> response \<times> hub" where
  "handle_reverse fd rq h =
     (let sid = session_header rq;
          r = set_header ''Connection'' ''Upgrade'' (set_header ''Upgrade'' ''PTTH/1.0''
                (copy_cseq rq ((make_response 101 ''Switching Protocols'')\<lparr>rs_version := ''HTTP/1.1''\<rparr>)))
      in (if sid = [] then r else set_header ''X-Apple-Session-ID'' sid r,
          if sid \<noteq> [] \<and> fd \<ge> 0 then h\<lparr>hb_reverse := register_socket sid fd (hb_reverse h)\<rparr> else h))"

end
