(* ===== verification/HlsPlayback.thy ===== *)
theory HlsPlayback
  imports HlsRoutes
begin

text \<open>
  The HLS playback as a whole: the requests of the phone, the fetches of the local server and
  the end of the player interleave in any order. Which responses of the phone count
  (src/airplay/hls_session.cpp and the handlers of src/airplay/routes.cpp), what the local server
  then finds, and the places where an interleaving defeats the guards.
\<close>

section \<open>Interleaved steps\<close>

record world =
  wd_hub :: hub
  wd_picked :: "ticket list"
  wd_waiting :: "ticket list"

definition wd_registry :: "world \<Rightarrow> registry" where
  "wd_registry w = hb_registry (wd_hub w)"

definition with_registry :: "registry \<Rightarrow> world \<Rightarrow> world" where
  "with_registry reg w = w\<lparr>wd_hub := in_registry (\<lambda>_. reg) (wd_hub w)\<rparr>"

text \<open>A step is a request of the phone, a callback, or one of the steps of a fetch.\<close>

inductive hls_step :: "env \<Rightarrow> device_context \<Rightarrow> world \<Rightarrow> world \<Rightarrow> bool" for env ctx where
  step_play: "hls_step env ctx w (w\<lparr>wd_hub := snd (handle_play env ctx ip now rq (wd_hub w))\<rparr>)"
| step_stop: "hls_step env ctx w (w\<lparr>wd_hub := snd (handle_stop ctx now rq (wd_hub w))\<rparr>)"
| step_action: "hls_step env ctx w (w\<lparr>wd_hub := snd (handle_action env ctx rq (wd_hub w))\<rparr>)"
| step_rate: "hls_step env ctx w (w\<lparr>wd_hub := snd (handle_rate env ctx now rq (wd_hub w))\<rparr>)"
| step_scrub: "hls_step env ctx w (w\<lparr>wd_hub := snd (handle_scrub env ctx now rq (wd_hub w))\<rparr>)"
| step_property: "hls_step env ctx w (w\<lparr>wd_hub := snd (handle_set_property rq (wd_hub w))\<rparr>)"
| step_reverse: "hls_step env ctx w (w\<lparr>wd_hub := snd (handle_reverse fd rq (wd_hub w))\<rparr>)"
| step_unregister: "hls_step env ctx w (w\<lparr>wd_hub := (wd_hub w)\<lparr>hb_reverse := unregister_socket sid (hb_reverse (wd_hub w))\<rparr>\<rparr>)"
| step_inactive: "hls_step env ctx w (with_registry (set_active_session [] (wd_registry w)) w)"
| step_ended: "hls_step env ctx w (with_registry (playback_ended sid gen now (wd_registry w)) w)"
| step_issue: "issue_request (hb_reverse (wd_hub w)) order url (wd_registry w) = (Some tk, reg)
    \<Longrightarrow> hls_step env ctx w ((with_registry reg w)\<lparr>wd_picked := tk # wd_picked w\<rparr>)"
| step_look_segment: "tk \<in> set (wd_picked w) \<Longrightarrow> take_segment tk (wd_registry w) = (Some r, reg)
    \<Longrightarrow> hls_step env ctx w ((with_registry reg w)\<lparr>wd_picked := remove1 tk (wd_picked w)\<rparr>)"
| step_look_playlist: "tk \<in> set (wd_picked w) \<Longrightarrow> begin_playlist force tk (wd_registry w) = (res, tk', reg)
    \<Longrightarrow> hls_step env ctx w ((with_registry reg w)\<lparr>wd_picked := (if res = None then [tk'] else []) @ remove1 tk (wd_picked w)\<rparr>)"
| step_record: "tk \<in> set (wd_picked w)
    \<Longrightarrow> hls_step env ctx w ((with_registry (record_request tk (wd_registry w)) w)
          \<lparr>wd_picked := remove1 tk (wd_picked w), wd_waiting := tk # wd_waiting w\<rparr>)"
| step_wake_segment: "tk \<in> set (wd_waiting w)
    \<Longrightarrow> hls_step env ctx w ((with_registry (snd (take_segment tk (wd_registry w))) w)\<lparr>wd_waiting := remove1 tk (wd_waiting w)\<rparr>)"
| step_wake_playlist: "tk \<in> set (wd_waiting w)
    \<Longrightarrow> hls_step env ctx w ((with_registry (snd (wake_playlist tk (wd_registry w))) w)\<lparr>wd_waiting := remove1 tk (wd_waiting w)\<rparr>)"
| step_send_failed: "tk \<in> set (wd_waiting w)
    \<Longrightarrow> hls_step env ctx w ((with_registry (restore_playlist tk (wd_registry w)) w)\<lparr>wd_waiting := remove1 tk (wd_waiting w)\<rparr>)"

lemma wd_registry_simps [simp]:
  "wd_registry (w\<lparr>wd_hub := h\<rparr>) = hb_registry h" "wd_registry (with_registry reg w) = reg"
  "wd_registry (w\<lparr>wd_picked := ts\<rparr>) = wd_registry w" "wd_registry (w\<lparr>wd_waiting := ts\<rparr>) = wd_registry w"
  "wd_picked (with_registry reg w) = wd_picked w" "wd_waiting (with_registry reg w) = wd_waiting w"
  "hb_registry (h\<lparr>hb_reverse := chs\<rparr>) = hb_registry h" "hb_registry (wd_hub w) = wd_registry w"
  by (simp_all add: wd_registry_def with_registry_def)

section \<open>Which request numbers are live\<close>

text \<open>Most steps neither issue nor record a request number.\<close>

definition calm :: "registry \<Rightarrow> registry \<Rightarrow> bool" where
  "calm reg reg' \<longleftrightarrow> (\<forall>sid s. find_session reg sid = Some s \<longrightarrow>
     (\<exists>s'. find_session reg' sid = Some s' \<and> hs_next_request s' = hs_next_request s
        \<and> dom (hs_requests s') \<subseteq> dom (hs_requests s)))"

named_theorems calm_rules

lemma calm_refl [calm_rules]: "calm reg reg"
  by (auto simp: calm_def)

lemma calm_trans: "calm a b \<Longrightarrow> calm b c \<Longrightarrow> calm a c"
  by (fastforce simp: calm_def)

lemma calm_on_session [calm_rules]:
  "(\<And>s. hs_next_request (f s) = hs_next_request s) \<Longrightarrow> (\<And>s. dom (hs_requests (f s)) \<subseteq> dom (hs_requests s))
    \<Longrightarrow> calm reg (on_session sid f reg)"
  by (auto simp: calm_def)

lemma calm_set_active [calm_rules]: "calm reg (set_active_session a reg)"
  by (auto simp: calm_def)

lemma calm_get_or_create [calm_rules]: "calm reg (snd (get_or_create sid reg))"
  by (auto simp: calm_def get_or_create_def find_session_def store_session_def split: option.split)

lemma request_fields [simp]:
  "hs_next_request (hls_set_rate now rate s) = hs_next_request s" "hs_requests (hls_set_rate now rate s) = hs_requests s"
  "hs_next_request (hls_set_position now p s) = hs_next_request s" "hs_requests (hls_set_position now p s) = hs_requests s"
  "hs_next_request (stop_session now s) = hs_next_request s" "hs_requests (stop_session now s) = hs_requests s"
  "hs_next_request (store_master t s) = hs_next_request s" "hs_requests (store_master t s) = hs_requests s"
  "hs_next_request (store_media port u t s) = hs_next_request s" "hs_requests (store_media port u t s) = hs_requests s"
  "hs_next_request (use_request rid s) = hs_next_request s"
  by (simp_all add: hls_set_rate_def hls_set_position_def stop_session_def store_master_def store_media_def
      use_request_def Let_def split: prod.split)

lemma dom_use_request: "dom (hs_requests (use_request rid s)) \<subseteq> dom (hs_requests s)"
  by (auto simp: use_request_def)

lemma calm_rate [calm_rules]: "calm (wd_registry w) (hb_registry (snd (handle_rate env ctx now rq (wd_hub w))))"
  by (auto simp: handle_rate_def Let_def split: option.split intro!: calm_rules)

lemma calm_scrub [calm_rules]: "calm (wd_registry w) (hb_registry (snd (handle_scrub env ctx now rq (wd_hub w))))"
  by (auto simp: handle_scrub_def Let_def split: option.split intro!: calm_rules)

lemma calm_stop [calm_rules]: "calm (wd_registry w) (hb_registry (snd (handle_stop ctx now rq (wd_hub w))))"
  by (auto simp: handle_stop_def Let_def intro!: calm_rules intro: calm_trans [OF calm_on_session calm_set_active])

lemma calm_property [calm_rules]: "calm (wd_registry w) (hb_registry (snd (handle_set_property rq (wd_hub w))))"
  by (auto simp: handle_set_property_def Let_def intro!: calm_rules intro: calm_trans [OF calm_get_or_create calm_on_session])

lemma registry_accept:
  "hb_registry (accept_response ctx sid fr s h) = on_session sid
     (if hs_master_url s \<noteq> [] \<and> fr_url fr = hs_master_url s then store_master (fr_data fr)
      else if m3u8 (fr_url fr) then store_media (dc_hls_port ctx) (fr_url fr) (fr_data fr)
      else if fr_location fr \<noteq> [] then (\<lambda>s. s\<lparr>hs_redirects := (hs_redirects s)(fr_url fr \<mapsto> fr_location fr)\<rparr>)
      else (\<lambda>s. s\<lparr>hs_segment_data := (hs_segment_data s)(fr_url fr \<mapsto> fr_data fr)\<rparr>)) (hb_registry h)"
  by (simp add: accept_response_def start_player_def deliver_segment_redirect_def deliver_segment_def)

lemma calm_action [calm_rules]: "calm (wd_registry w) (hb_registry (snd (handle_action env ctx rq (wd_hub w))))"
proof -
  have "calm reg (on_session sid (use_request rid) reg)" for reg sid rid
    by (rule calm_on_session) (simp_all add: dom_use_request)
  then have "calm reg (hb_registry (accept_response ctx sid fr s h))"
    if "hb_registry h = on_session sid (use_request rid) reg" for reg h sid fr s rid
    unfolding registry_accept that by (rule calm_trans) (rule calm_on_session; simp)
  then show ?thesis
    by (auto simp: handle_action_def Let_def split: option.split intro!: calm_rules)
qed

lemma calm_take_segment [calm_rules]: "calm reg (snd (take_segment tk reg))"
  by (auto simp: take_segment_def split: option.split intro!: calm_rules)

lemma calm_begin_playlist [calm_rules]: "calm reg (snd (snd (begin_playlist force tk reg)))"
  by (auto simp: begin_playlist_def split: option.split intro!: calm_rules)

lemma calm_restore [calm_rules]: "calm reg (restore_playlist tk reg)"
  by (auto simp: restore_playlist_def split: option.split intro!: calm_rules)

lemma calm_wake [calm_rules]: "calm reg (snd (wake_playlist tk reg))"
  by (auto simp: wake_playlist_def split: option.split intro!: calm_rules)

lemma calm_ended [calm_rules]: "calm reg (playback_ended sid g now reg)"
  by (auto simp: playback_ended_def split: option.split intro!: calm_rules)

text \<open>The numbers issued since the number \<open>p\<close>.\<close>

definition issued :: "u32 \<Rightarrow> nat \<Rightarrow> u32 set" where
  "issued p m = (\<lambda>k. p + of_nat k) ` {..<m}"

text \<open>All numbers that are recorded for the session, or held by a fetch that has still to record its own, are among
  these, or among the numbers \<open>X\<close> that were held when the count began.\<close>

definition live :: "u32 set \<Rightarrow> string \<Rightarrow> u32 \<Rightarrow> nat \<Rightarrow> world \<Rightarrow> bool" where
  "live X sid p m w \<longleftrightarrow>
     (\<exists>s. find_session (wd_registry w) sid = Some s \<and> hs_next_request s = p + of_nat m \<and> dom (hs_requests s) \<subseteq> X \<union> issued p m)
     \<and> (\<forall>tk \<in> set (wd_picked w). tk_session tk = sid \<longrightarrow> tk_id tk \<in> X \<union> issued p m)"

lemma issued_Suc: "issued p (Suc m) = insert (p + of_nat m) (issued p m)"
  by (auto simp: issued_def lessThan_Suc)

lemma live_calm:
  assumes "live X sid p m w" "calm (wd_registry w) (wd_registry w')"
    "\<And>tk. tk \<in> set (wd_picked w') \<Longrightarrow> \<exists>t \<in> set (wd_picked w). tk_session t = tk_session tk \<and> tk_id t = tk_id tk"
  shows "live X sid p m w'"
proof -
  obtain s where s: "find_session (wd_registry w) sid = Some s" "hs_next_request s = p + of_nat m" "dom (hs_requests s) \<subseteq> X \<union> issued p m"
    using assms(1) by (auto simp: live_def)
  then obtain s' where "find_session (wd_registry w') sid = Some s'" "hs_next_request s' = hs_next_request s"
      "dom (hs_requests s') \<subseteq> dom (hs_requests s)"
    using assms(2) unfolding calm_def by blast
  then have "\<exists>s. find_session (wd_registry w') sid = Some s \<and> hs_next_request s = p + of_nat m \<and> dom (hs_requests s) \<subseteq> X \<union> issued p m"
    using s by auto
  moreover have "\<forall>tk \<in> set (wd_picked w'). tk_session tk = sid \<longrightarrow> tk_id tk \<in> X \<union> issued p m"
    using assms(1,3) by (fastforce simp: live_def)
  ultimately show ?thesis by (simp add: live_def)
qed

lemma playable_session: "playable env h rq = Some pr \<Longrightarrow> socket_for (hb_reverse h) (session_header rq) \<ge> 0"
  by (auto simp: playable_def split: option.splits if_splits)

lemma registry_play:
  "hb_registry (snd (handle_play env ctx ip now rq h)) =
     (case playable env h rq of None \<Rightarrow> hb_registry h | Some pr \<Rightarrow> start_play now (session_header rq) pr (hb_registry h))"
  by (simp add: handle_play_def Let_def split: option.split)

lemma find_start_play:
  "find_session (start_play now sid pr reg) k =
     (if k = sid then Some (reset_hls_media_state now (pr_url pr) (pr_start pr) (fst (get_or_create sid reg)))
      else find_session reg k)"
  by (simp add: start_play_def find_get_or_create)

lemma reset_fields [simp]:
  "hs_next_request (reset_hls_media_state now u t s) = hs_next_request s + 1"
  "hs_requests (reset_hls_media_state now u t s) = [hs_next_request s \<mapsto> hs_generation s + 1]"
  "hs_generation (reset_hls_media_state now u t s) = hs_generation s + 1"
  "hs_master_request (reset_hls_media_state now u t s) = hs_next_request s"
  by (simp_all add: reset_hls_media_state_def Let_def)

lemma live_keep: "live X sid p m w \<Longrightarrow> find_session (wd_registry w') sid = find_session (wd_registry w) sid
    \<Longrightarrow> wd_picked w' = wd_picked w \<Longrightarrow> live X sid p m w'"
  by (simp add: live_def)

lemma live_more: "live X sid p m w \<Longrightarrow> \<exists>m' \<ge> m. m' \<le> Suc m \<and> live X sid p m' w"
  by (rule exI [of _ m]) simp

lemma live_play:
  assumes "live X sid p m w"
  shows "\<exists>m' \<ge> m. m' \<le> Suc m \<and> live X sid p m' (w\<lparr>wd_hub := snd (handle_play env ctx ip now rq (wd_hub w))\<rparr>)"
proof (cases "\<exists>pr. playable env (wd_hub w) rq = Some pr \<and> session_header rq = sid")
  case True
  then obtain pr where pr: "playable env (wd_hub w) rq = Some pr" "session_header rq = sid" by blast
  obtain s where s: "find_session (wd_registry w) sid = Some s" "hs_next_request s = p + of_nat m" "dom (hs_requests s) \<subseteq> X \<union> issued p m"
    using assms by (auto simp: live_def)
  have "fst (get_or_create sid (wd_registry w)) = s" using s(1) by (simp add: get_or_create_def)
  then have "live X sid p (Suc m) (w\<lparr>wd_hub := snd (handle_play env ctx ip now rq (wd_hub w))\<rparr>)"
    using assms s by (auto simp: live_def registry_play pr find_start_play issued_Suc)
  then show ?thesis by (intro exI [of _ "Suc m"]) simp
next
  case False
  then have "find_session (hb_registry (snd (handle_play env ctx ip now rq (wd_hub w)))) sid = find_session (wd_registry w) sid"
    by (auto simp: registry_play find_start_play split: option.split)
  then show ?thesis by (intro live_more live_keep [OF assms]) simp_all
qed

lemma in_set_remove1D: "x \<in> set (remove1 y xs) \<Longrightarrow> x \<in> set xs"
  using set_remove1_subset [of y xs] by blast

lemma live_issue:
  assumes "live X sid p m w" "issue_request chs order url (wd_registry w) = (Some tk, reg)"
  shows "\<exists>m' \<ge> m. m' \<le> Suc m \<and> live X sid p m' ((with_registry reg w)\<lparr>wd_picked := tk # wd_picked w\<rparr>)"
proof -
  obtain k fd s where k: "find_session (wd_registry w) k = Some s" "tk_session tk = k" "tk_id tk = hs_next_request s"
      "reg = on_session k (\<lambda>s. s\<lparr>hs_next_request := hs_next_request s + 1\<rparr>) (wd_registry w)"
    using assms(2) by (auto simp: issue_request_def split: option.splits prod.splits)
  show ?thesis
  proof (cases "k = sid")
    case True
    then have "live X sid p (Suc m) ((with_registry reg w)\<lparr>wd_picked := tk # wd_picked w\<rparr>)"
      using assms(1) k by (auto simp: live_def issued_Suc)
    then show ?thesis by (intro exI [of _ "Suc m"]) simp
  next
    case False
    then have "live X sid p m ((with_registry reg w)\<lparr>wd_picked := tk # wd_picked w\<rparr>)"
      using assms(1) k by (auto simp: live_def)
    then show ?thesis by (rule live_more)
  qed
qed

lemma live_record:
  assumes "live X sid p m w" "tk \<in> set (wd_picked w)"
  shows "live X sid p m ((with_registry (record_request tk (wd_registry w)) w)
           \<lparr>wd_picked := remove1 tk (wd_picked w), wd_waiting := ts\<rparr>)"
  using assms set_remove1_subset [of tk "wd_picked w"] by (auto simp: live_def record_request_def)

lemma ticket_begin: "begin_playlist force tk reg = (res, tk', reg') \<Longrightarrow> tk_session tk' = tk_session tk \<and> tk_id tk' = tk_id tk"
  by (auto simp: begin_playlist_def split: option.splits if_splits)

lemma live_step:
  assumes "hls_step env ctx w w'" and "live X sid p m w"
  shows "\<exists>m' \<ge> m. m' \<le> Suc m \<and> live X sid p m' w'"
  using assms
proof (induction rule: hls_step.induct)
  case (step_play w ip now rq)
  then show ?case by (rule live_play)
next
  case (step_issue w order url tk reg)
  then show ?case by (blast intro: live_issue)
next
  case (step_record tk w)
  then show ?case by (intro live_more live_record)
next
  case (step_look_segment tk w r reg)
  have "calm (wd_registry w) reg" using calm_take_segment [of "wd_registry w" tk] step_look_segment(2) by simp
  with step_look_segment(3) show ?case
    by (intro live_more, elim live_calm) (auto dest: in_set_remove1D)
next
  case (step_look_playlist tk w force res tk' reg)
  have "calm (wd_registry w) reg" using calm_begin_playlist [of "wd_registry w" force tk] step_look_playlist(2) by simp
  with step_look_playlist(1,3) ticket_begin [OF step_look_playlist(2)] show ?case
    by (intro live_more, elim live_calm) (auto dest: in_set_remove1D split: if_splits)
next
  case (step_reverse w fd rq)
  then show ?case by (intro live_more, elim live_keep) (simp_all add: handle_reverse_def Let_def)
qed (rule live_more, erule live_calm, simp add: calm_rules, auto)+

text \<open>A number the session issued before the point \<open>p\<close> is not live until 2^32 more are issued.\<close>

lemma old_not_issued:
  assumes "0 < j" "j + m < 2 ^ 32"
  shows "p - of_nat j \<notin> issued p (Suc m)"
proof
  assume "p - of_nat j \<in> issued p (Suc m)"
  then obtain k where k: "k < Suc m" "p - of_nat j = p + of_nat k" by (auto simp: issued_def)
  have "(of_nat (k + j) :: u32) = (p + of_nat k) - (p - of_nat j)" by simp
  also have "\<dots> = 0" unfolding k(2) by simp
  finally have "(of_nat (k + j) :: u32) = 0" .
  then have "2 ^ 32 dvd k + j" using word_of_nat_eq_0_iff [of "k + j", where 'a = 32] by (simp only: len_num1 len_bit0 refl simp_thms) simp
  then have "2 ^ 32 \<le> k + j" using assms(1) by (intro dvd_imp_le) auto
  then show False using k(1) assms(2) by simp
qed

lemma live_run:
  assumes "(hls_step env ctx ^^ n) w w'" "live X sid p m w"
  shows "\<exists>m' \<ge> m. m' \<le> m + n \<and> live X sid p m' w'"
  using assms(1)
proof (induction n arbitrary: w')
  case 0
  then show ?case using assms(2) by auto
next
  case (Suc n)
  then obtain v where v: "(hls_step env ctx ^^ n) w v" "hls_step env ctx v w'" by auto
  from Suc.IH [OF v(1)] obtain k where k: "m \<le> k" "k \<le> m + n" "live X sid p k v" by auto
  from live_step [OF v(2) k(3)] obtain k' where "k \<le> k'" "k' \<le> Suc k" "live X sid p k' w'" by auto
  then show ?case using k by (intro exI [of _ k']) auto
qed

lemma issued_mono: "m \<le> n \<Longrightarrow> issued p m \<subseteq> issued p n"
  by (auto simp: issued_def)

lemma live_after_play:
  assumes "playable env (wd_hub w) rq = Some pr" "find_session (wd_registry w) (session_header rq) = Some s"
    "\<forall>tk \<in> set (wd_picked w). tk_session tk = session_header rq \<longrightarrow> tk_id tk \<in> X"
  shows "live X (session_header rq) (hs_next_request s) 1 (w\<lparr>wd_hub := snd (handle_play env ctx ip now rq (wd_hub w))\<rparr>)"
proof -
  have "fst (get_or_create (session_header rq) (wd_registry w)) = s" using assms(2) by (simp add: get_or_create_def)
  then show ?thesis
    using assms(3) by (auto simp: live_def registry_play assms(1) find_start_play issued_def list_all_iff)
qed

lemma not_live_ignored:
  assumes "live X sid p m w" "read_action (en_plist env) (rq_body rq) = Some fr" "session_header rq = sid"
    "fr_id fr \<noteq> 0" "ucast (fr_id fr) \<notin> X \<union> issued p m"
  shows "handle_action env ctx rq (wd_hub w) = (ok_reply rq, wd_hub w)"
proof -
  obtain s where s: "find_session (wd_registry w) sid = Some s" "dom (hs_requests s) \<subseteq> X \<union> issued p m"
    using assms(1) by (auto simp: live_def)
  then have "\<not> current_response (fr_id fr) s" using assms(4,5) by (auto simp: current_response_def)
  then show ?thesis using s assms by (simp add: handle_action_def Let_def)
qed

section \<open>Stale responses\<close>

text \<open>C33: Once /play has been accepted for a session, every response to a request issued before the /play is
  answered and otherwise ignored, whatever requests, fetches and callbacks come in between, for as
  long as fewer than 2^32 steps make the numbers wrap around. Excluded are the requests of those fetches
  that had their number but had not yet recorded it when the /play came.\<close>

theorem stale_response_ignored:
  assumes "playable env (wd_hub w) play = Some pr" and "find_session (wd_registry w) (session_header play) = Some s"
    and "(hls_step env ctx ^^ n) (w\<lparr>wd_hub := snd (handle_play env ctx ip now play (wd_hub w))\<rparr>) w'"
    and "read_action (en_plist env) (rq_body rq) = Some fr" and "session_header rq = session_header play"
    and "fr_id fr \<noteq> 0" and "ucast (fr_id fr) = hs_next_request s - of_nat j" and "0 < j" and "j + n < 2 ^ 32"
    and "\<forall>tk \<in> set (wd_picked w). tk_session tk = session_header play \<longrightarrow> tk_id tk \<noteq> ucast (fr_id fr)"
  shows "handle_action env ctx rq (wd_hub w') = (ok_reply rq, wd_hub w')"
proof -
  define X where "X = tk_id ` {tk \<in> set (wd_picked w). tk_session tk = session_header play}"
  have "\<forall>tk \<in> set (wd_picked w). tk_session tk = session_header play \<longrightarrow> tk_id tk \<in> X" by (simp add: X_def)
  then obtain m where m: "m \<le> 1 + n" "live X (session_header play) (hs_next_request s) m w'"
    using live_run [OF assms(3) live_after_play [OF assms(1,2)]] by blast
  have "ucast (fr_id fr) \<notin> issued (hs_next_request s) m"
    using old_not_issued [OF assms(8,9)] issued_mono [of m "Suc n"] m(1) assms(7) by auto
  moreover have "ucast (fr_id fr) \<notin> X" using assms(10) by (auto simp: X_def)
  ultimately show ?thesis using not_live_ignored [OF m(2) assms(4-6)] by simp
qed

text \<open>The exclusion is needed: a fetch that was given its number before the /play
  records it for the new playback, and the response to the old request is taken as current.\<close>

lemma late_record_is_current:
  assumes "find_session reg (tk_session tk) = Some s" "ucast rid = tk_id tk"
  shows "map_option (current_response rid) (find_session (record_request tk (start_play now (tk_session tk) pr reg)) (tk_session tk)) = Some True"
  using assms by (simp add: record_request_def find_start_play get_or_create_def current_response_def)

text \<open>A /stop forgets neither the numbers nor the master address: the master playlist that arrives
  after it starts the player again.\<close>

lemma master_after_stop_restarts:
  assumes "find_session (hb_registry h) sid = Some s" "session_header stop = sid" "session_header rq = sid" "sid \<noteq> []"
    "read_action (en_plist env) (rq_body rq) = Some fr" "current_response (fr_id fr) s"
    "hs_master_url s \<noteq> []" "fr_url fr = hs_master_url s" "dc_player ctx" "dc_renderer ctx"
  shows "Player_start (local_master (dc_hls_port ctx))
     \<in> set (drop (length (hb_player (snd (handle_stop ctx now stop h))))
          (hb_player (snd (handle_action env ctx rq (snd (handle_stop ctx now stop h))))))"
proof -
  have f: "find_session (hb_registry (snd (handle_stop ctx now stop h))) sid = Some (stop_session now s)"
    using assms by (simp add: handle_stop_def Let_def)
  have "current_response (fr_id fr) (stop_session now s)" "hs_master_url (stop_session now s) = hs_master_url s"
    using assms(6) by (simp_all add: current_response_def stop_session_def hls_set_rate_def Let_def)
  then show ?thesis
    using assms f by (simp add: handle_action_def accept_response_def start_player_def player_def Let_def)
qed

text \<open>A /stop of any session makes the current session of the local server inactive.\<close>

lemma stop_deactivates_other:
  "session_header rq \<noteq> [] \<Longrightarrow> rg_active (hb_registry (snd (handle_stop ctx now rq h))) = []"
  by (simp add: handle_stop_def set_active_session_def Let_def)

section \<open>What the local server finds\<close>

lemma candidates_active:
  "sid \<noteq> [] \<Longrightarrow> rg_active reg = sid \<Longrightarrow> find_session reg sid = Some s
    \<Longrightarrow> \<exists>rest. candidates order reg = s # rest"
  by (simp add: candidates_def)

lemma active_accept:
  "rg_active (hb_registry (accept_response ctx sid fr s h)) = rg_active (hb_registry h)"
  by (simp add: registry_accept)

text \<open>C35: When the current response of the active session brings a media playlist, the local server
  finds under its address the playlist with local addresses, and each local address resolves to
  the address it stands for, whatever other sessions there are.\<close>

theorem media_playlist_served:
  assumes "find_session (hb_registry h) (session_header rq) = Some s" and "rg_active (hb_registry h) = session_header rq"
    and "session_header rq \<noteq> []" and "read_action (en_plist env) (rq_body rq) = Some fr" and "current_response (fr_id fr) s"
    and "fr_url fr \<noteq> hs_master_url s" and "m3u8 (fr_url fr)"
    and "reg = hb_registry (snd (handle_action env ctx rq h))"
    and "ps = playlist_pieces (expand_yt_condensed_playlist (fr_data fr))" and "first = sg_counter (hs_segs s)"
    and "render_pieces (dc_hls_port ctx) first ps \<noteq> []"
  shows "lookup_playlist order reg (fr_url fr) = (Some (render_pieces (dc_hls_port ctx) first ps), False)
    \<and> map (\<lambda>i. resolve_segment_path order reg (seg_path (first + i))) [0..<length (addresses ps)] = addresses ps"
proof -
  let ?sid = "session_header rq"
  let ?s = "store_media (dc_hls_port ctx) (fr_url fr) (fr_data fr) (use_request (fr_id fr) s)"
  have u: "hs_segs (use_request (fr_id fr) s) = hs_segs s" "hs_master_url (use_request (fr_id fr) s) = hs_master_url s"
    by (simp_all add: use_request_def)
  have reg: "reg = on_session ?sid (store_media (dc_hls_port ctx) (fr_url fr) (fr_data fr))
      (on_session ?sid (use_request (fr_id fr)) (hb_registry h))"
    using assms by (simp add: handle_action_def Let_def registry_accept)
  have f: "find_session reg ?sid = Some ?s" "rg_active reg = ?sid" using assms(1,2) by (simp_all add: reg)
  then obtain rest where c: "candidates order reg = ?s # rest" using candidates_active assms(3) by blast
  have fields: "hs_master_url ?s = hs_master_url s" "hs_media ?s (fr_url fr) = Some (render_pieces (dc_hls_port ctx) first ps)"
      "hs_segs ?s = register_all (addresses ps) (hs_segs s)"
    using assms(9,10) by (simp_all add: store_media_def rewrite_pieces u Let_def)
  have "lookup_playlist order reg (fr_url fr) = (Some (render_pieces (dc_hls_port ctx) first ps), False)"
    using assms(6,11) by (simp add: lookup_playlist_def c fields)
  moreover have "resolve_segment_path order reg (seg_path (first + i)) = addresses ps ! i" if "i < length (addresses ps)" for i
    using register_all_new [OF that, of "hs_segs s"] assms(10) by (simp add: resolve_segment_path_def c fields)
  then have "map (\<lambda>i. resolve_segment_path order reg (seg_path (first + i))) [0..<length (addresses ps)] = addresses ps"
    by (intro nth_equalityI) simp_all
  ultimately show ?thesis by blast
qed

section \<open>Refreshing a playlist\<close>

definition cached :: "registry \<Rightarrow> string \<Rightarrow> string \<Rightarrow> string option" where
  "cached reg sid url = Option.bind (find_session reg sid) (\<lambda>s. hs_media s url)"

text \<open>What the other threads may do in the meantime without interfering.\<close>

definition spares :: "(nat \<Rightarrow> registry \<Rightarrow> registry) \<Rightarrow> string \<Rightarrow> string \<Rightarrow> bool" where
  "spares others sid url \<longleftrightarrow> (\<forall>k reg. cached (others k reg) sid url = cached reg sid url
     \<and> (find_session (others k reg) sid = None \<longleftrightarrow> find_session reg sid = None))"

lemma sparesD:
  "spares others sid url \<Longrightarrow> cached (others k reg) sid url = cached reg sid url"
  "spares others sid url \<Longrightarrow> (find_session (others k reg) sid = None) = (find_session reg sid = None)"
  by (simp_all add: spares_def)

lemma cached_on_session:
  "cached (on_session k f reg) sid url = (if k = sid then Option.bind (find_session reg sid) (\<lambda>s. hs_media (f s) url) else cached reg sid url)"
  by (cases "find_session reg sid") (simp_all add: cached_def)

lemma bind_map_opt [simp]: "Option.bind (map_option f x) g = Option.bind x (\<lambda>y. g (f y))"
  by (cases x) simp_all

lemma cached_issue:
  "issue_request chs order u reg = (t, reg') \<Longrightarrow> cached reg' sid url = cached reg sid url
     \<and> (find_session reg' sid = None) = (find_session reg sid = None)
     \<and> (\<forall>tk. t = Some tk \<longrightarrow> tk_url tk = u \<and> tk_previous tk = None)"
  by (auto simp: issue_request_def cached_on_session cached_def split: option.splits prod.splits if_splits)

lemma cached_record: "cached (record_request tk reg) sid url = cached reg sid url"
    "(find_session (record_request tk reg) sid = None) = (find_session reg sid = None)"
  by (simp_all add: record_request_def cached_on_session cached_def)

lemma begin_playlist_cases:
  assumes "begin_playlist force tk reg = (None, tk', reg')" "tk_previous tk = None"
  shows "tk_session tk' = tk_session tk \<and> tk_url tk' = tk_url tk \<and> tk_id tk' = tk_id tk \<and> tk_fd tk' = tk_fd tk
    \<and> tk_previous tk' = cached reg (tk_session tk) (tk_url tk) \<and> cached reg' (tk_session tk) (tk_url tk) = None
    \<and> (\<forall>sid url. (sid, url) \<noteq> (tk_session tk, tk_url tk) \<longrightarrow> cached reg' sid url = cached reg sid url)
    \<and> (\<forall>sid. (find_session reg' sid = None) = (find_session reg sid = None))"
  using assms by (auto simp: begin_playlist_def cached_def split: option.splits if_splits)

lemma cached_restore:
  assumes "find_session reg (tk_session tk) = None \<longrightarrow> tk_previous tk = None"
  shows "cached (restore_playlist tk reg) sid url =
    (if sid = tk_session tk \<and> url = tk_url tk \<and> tk_previous tk \<noteq> None then tk_previous tk else cached reg sid url)"
  using assms by (auto simp: restore_playlist_def cached_on_session cached_def split: option.split)

text \<open>C40: A fetch of a playlist that fails, because there is no channel, the request is not sent or
  nothing arrives in time, leaves a cached playlist as it was, even when a refresh had taken
  it out of the cache, provided that no other thread touches that playlist or creates or removes its session while
  the fetch is under way (\<open>spares\<close>).\<close>

theorem failed_fetch_keeps_playlist:
  assumes "spares others sid url" and "fetch_playlist lib send others chs order url force reg = (None, reg')"
  shows "cached reg' sid url = cached reg sid url"
proof (cases "issue_request chs order url reg")
  case (Pair t reg1)
  show ?thesis
  proof (cases t)
    case None
    then show ?thesis using assms(2) cached_issue [OF Pair, of sid url] by (simp add: fetch_playlist_def Pair)
  next
    case (Some tk0)
    note i = cached_issue [OF Pair, of sid url]
    obtain res tk reg2 where b: "begin_playlist force tk0 (others 0 reg1) = (res, tk, reg2)" by (rule prod_cases3)
    then have n: "res = None" using assms(2) Some Pair by (auto simp: fetch_playlist_def split: option.splits)
    have pre: "tk_url tk0 = url" "tk_previous tk0 = None" using i Some by auto
    note c = begin_playlist_cases [OF b [unfolded n] pre(2)]
    define reg3 where "reg3 = record_request tk (others 1 reg2)"
    have reg3: "cached reg3 sid url = cached reg2 sid url" "(find_session reg3 sid = None) = (find_session reg2 sid = None)"
      using sparesD [OF assms(1)] by (simp_all add: reg3_def cached_record)
    have r: "cached (restore_playlist tk r) sid url = cached reg sid url"
      if e: "cached r sid url = cached reg3 sid url" "(find_session r sid = None) = (find_session reg3 sid = None)" for r
    proof (cases "sid = tk_session tk")
      case True
      then have "tk_previous tk = cached reg sid url" using c pre i sparesD [OF assms(1)] by simp
      moreover have "find_session r sid = None \<longrightarrow> tk_previous tk = None"
        using True c pre i e reg3 sparesD [OF assms(1)] by (auto simp: cached_def)
      ultimately show ?thesis using True c pre e reg3 by (simp add: cached_restore)
    next
      case False
      then have "cached reg2 sid url = cached reg sid url" using c i sparesD [OF assms(1)] by auto
      then show ?thesis using False e reg3 by (simp add: restore_playlist_def cached_on_session split: option.split)
    qed
    show ?thesis
    proof (cases "send_fcup_request lib send (tk_fd tk) url (tk_session tk) (tk_id tk)")
      case True
      then have w: "wake_playlist tk (others 2 reg3) = (None, reg')"
        using assms(2) b Some Pair n by (simp add: fetch_playlist_def reg3_def Let_def)
      then have "reg' = restore_playlist tk (others 2 reg3)" by (auto simp: wake_playlist_def split: option.splits)
      then show ?thesis using r sparesD [OF assms(1)] by simp
    next
      case False
      then have "reg' = restore_playlist tk reg3"
        using assms(2) b Some Pair n by (simp add: fetch_playlist_def reg3_def Let_def)
      then show ?thesis using r by simp
    qed
  qed
qed

text \<open>Interference matters: when a /play intervenes, a refresh that times out puts the playlist of the
  previous video into the cache of the new one.\<close>

lemma refresh_resurrects_old_playlist:
  assumes "tk_previous tk = Some txt"
  shows "cached (snd (wake_playlist tk (start_play now (tk_session tk) pr reg))) (tk_session tk) (tk_url tk) = Some txt"
proof -
  have "cached (start_play now (tk_session tk) pr reg) (tk_session tk) (tk_url tk) = None"
    by (simp add: cached_def find_start_play reset_hls_media_state_def Let_def)
  then show ?thesis using assms by (simp add: wake_playlist_def cached_def find_start_play restore_playlist_def)
qed

section \<open>Witnesses\<close>

definition sample_response :: "u64 \<Rightarrow> plist" where
  "sample_response rid = PDict [(''type'', PString ''unhandledURLResponse''),
     (''params'', PDict [(''FCUP_Response_URL'', PString ''mlhls://localhost/a.m3u8''),
        (''FCUP_Response_RequestID'', PUint rid), (''FCUP_Response_Data'', PData (to_bytes ''http://c/1''))])]"

definition sample_lib :: plist_lib where
  "sample_lib = \<lparr>pl_from_bin = (\<lambda>b. if b = bplist_magic
       then Some (PDict [(''Content-Location'', PString ''mlhls://localhost/master.m3u8''), (''clientProcName'', PString ''YouTube'')])
       else Some (sample_response 2)), pl_to_bin = (\<lambda>_. []), pl_to_xml = (\<lambda>_. [1])\<rparr>"

definition sample_env :: env where
  "sample_env = \<lparr>en_plist = sample_lib, en_stod = (\<lambda>_. None), en_stof = (\<lambda>_. None), en_send = (\<lambda>_ _. True)\<rparr>"

definition sample_context :: device_context where
  "sample_context = \<lparr>dc_name = ''r'', dc_deviceid = [], dc_model = [], dc_pi = [], dc_features = [], dc_srcvers = [],
     dc_public_key = [], dc_renderer = True, dc_player = True, dc_hls_port = 7100, dc_width = 0, dc_height = 0,
     dc_hwaccel = False, dc_live = None\<rparr>"

definition sample_session :: hls_session where
  "sample_session = (new_hls ''s'')\<lparr>hs_next_request := 3, hs_requests := [2 \<mapsto> 0]\<rparr>"

definition sample_hub :: hub where
  "sample_hub = \<lparr>hb_registry = \<lparr>rg_sessions = [''s'' \<mapsto> sample_session], rg_active = ''s''\<rparr>, hb_reverse = [''s'' \<mapsto> 9],
     hb_player = [], hb_renderer = new_renderer\<rparr>"

definition sample_req :: "bytes \<Rightarrow> request" where
  "sample_req body = empty_request\<lparr>rq_headers := [''x-apple-session-id'' \<mapsto> ''s''], rq_body := body\<rparr>"

lemma sample_session_header [simp]: "session_header (sample_req body) = ''s''" "rq_body (sample_req body) = body"
proof -
  have "to_lower ''x-apple-session-id'' = ''x-apple-session-id''" by code_simp
  then show "session_header (sample_req body) = ''s''" by (simp add: session_header_def header_def sample_req_def)
qed (simp add: sample_req_def)

lemma sample_playable: "playable sample_env sample_hub (sample_req bplist_magic) =
    Some \<lparr>pr_url = ''mlhls://localhost/master.m3u8'', pr_uuid = [], pr_proc = ''YouTube'', pr_start = 0\<rparr>"
  by (simp add: playable_def parse_play_body_def binary_plist_def bplist_magic_def sample_env_def sample_lib_def
      parse_play_plist_def get_string_of_def get_real_def sample_hub_def socket_for_def Let_def)

lemma sample_action: "read_action (en_plist sample_env) (rq_body (sample_req (bplist_magic @ [0]))) =
    Some \<lparr>fr_url = ''mlhls://localhost/a.m3u8'', fr_id = 2, fr_data = ''http://c/1'', fr_location = []\<rparr>"
  by (simp add: read_action_def binary_plist_def bplist_magic_def sample_env_def sample_lib_def sample_response_def
      read_params_def get_string_of_def get_uint_of_def get_data_of_def)

lemma sample_find: "find_session (hb_registry sample_hub) ''s'' = Some sample_session"
  by (simp add: sample_hub_def find_session_def)

definition sample_world :: world where
  "sample_world = \<lparr>wd_hub = sample_hub, wd_picked = [], wd_waiting = []\<rparr>"

theorem stale_response_ignored_witness:
  "handle_action sample_env sample_context (sample_req (bplist_magic @ [0]))
      (snd (handle_play sample_env sample_context [] 5 (sample_req bplist_magic) sample_hub))
    = (ok_reply (sample_req (bplist_magic @ [0])), snd (handle_play sample_env sample_context [] 5 (sample_req bplist_magic) sample_hub))"
proof -
  have w: "wd_hub sample_world = sample_hub" "wd_registry sample_world = hb_registry sample_hub"
    by (simp_all add: sample_world_def wd_registry_def)
  have p: "wd_picked sample_world = []" "hs_next_request sample_session = 3"
    by (simp_all add: sample_world_def sample_session_def)
  have "(hls_step sample_env sample_context ^^ 0)
      (sample_world\<lparr>wd_hub := snd (handle_play sample_env sample_context [] 5 (sample_req bplist_magic) (wd_hub sample_world))\<rparr>)
      (sample_world\<lparr>wd_hub := snd (handle_play sample_env sample_context [] 5 (sample_req bplist_magic) (wd_hub sample_world))\<rparr>)"
    by simp
  note run = this
  show ?thesis
    using stale_response_ignored [OF _ _ run sample_action, of _ sample_session 1]
    by (simp add: w p sample_playable sample_find)
qed

theorem media_playlist_served_witness:
  "lookup_playlist [] (hb_registry (snd (handle_action sample_env sample_context (sample_req (bplist_magic @ [0])) sample_hub)))
     ''mlhls://localhost/a.m3u8'' = (Some ''http://localhost:7100/seg/0'', False)"
proof -
  have p: "playlist_pieces (expand_yt_condensed_playlist ''http://c/1'') = [Address ''http://c/1'']" by code_simp
  have r: "local_url 7100 0 = ''http://localhost:7100/seg/0''"
  proof -
    have "show_nat 7100 = ''7100''" "show_nat 0 = ''0''" by (simp_all add: show_nat.simps [of 7100] show_nat.simps [of 710] show_nat.simps [of 71] show_nat.simps [of 7]
          show_nat.simps [of 0] digit_char_def char_of_def bit_Suc_0_iff)
    then show ?thesis by (simp add: local_url_def seg_path_def)
  qed
  have m: "m3u8 ''mlhls://localhost/a.m3u8''" by code_simp
  have c: "current_response 2 sample_session" by (simp add: current_response_def sample_session_def new_hls_def)
  have s: "hs_master_url sample_session = []" "sg_counter (hs_segs sample_session) = 0" "rg_active (hb_registry sample_hub) = ''s''"
      "dc_hls_port sample_context = 7100"
    by (simp_all add: sample_hub_def sample_session_def new_hls_def sample_context_def)
  show ?thesis
    using media_playlist_served [OF _ _ _ sample_action _ _ _ refl refl refl, of sample_hub sample_session sample_context "[]"]
    by (simp add: sample_find c s m p r)
qed

lemma never_sent: "send_fcup_request lib (\<lambda>_ _. False) fd url sid rid = False"
  by (simp add: send_fcup_request_def split: option.split)

lemma unsent_refresh_fails: "fst (fetch_playlist lib (\<lambda>_ _. False) others chs order url True reg) = None"
  by (auto simp: fetch_playlist_def never_sent begin_playlist_def Let_def split: option.split prod.split)

theorem failed_fetch_keeps_playlist_witness:
  "cached (snd (fetch_playlist sample_lib (\<lambda>_ _. False) (\<lambda>_ r. r) [''s'' \<mapsto> 9] [] ''u'' True
      (on_session ''s'' (\<lambda>s. s\<lparr>hs_media := [''u'' \<mapsto> ''old'']\<rparr>) (hb_registry sample_hub)))) ''s'' ''u'' = Some ''old''"
    (is "cached (snd ?f) _ _ = _")
proof -
  have "?f = (None, snd ?f)" using unsent_refresh_fails by (metis prod.collapse)
  moreover have "spares (\<lambda>_ r. r) ''s'' ''u''" by (simp add: spares_def)
  ultimately have "cached (snd ?f) ''s'' ''u''
      = cached (on_session ''s'' (\<lambda>s. s\<lparr>hs_media := [''u'' \<mapsto> ''old'']\<rparr>) (hb_registry sample_hub)) ''s'' ''u''"
    using failed_fetch_keeps_playlist by blast
  then show ?thesis by (simp add: cached_def sample_find)
qed

end
