(* ===== verification/HlsServer.thy ===== *)
theory HlsServer
  imports HlsPlayback
begin

text \<open>
  The local HTTP server that the media player reads from (src/airplay/hls_local_server.cpp): the
  request it reads, the decoding of the path, the ranges, the three kinds of answers and the
  proxy for the segments. What libavio answers for an address is an argument: the size it
  announces and the blocks that the reads return. A connection is the characters that arrive on
  it and the text that is sent; that sending fails is not modelled.
\<close>

section \<open>The request\<close>

text \<open>One character at a time, up to 8192 of them, until an empty line.\<close>

fun read_head :: "string \<Rightarrow> string \<Rightarrow> string" where
  "read_head acc [] = acc"
| "read_head acc (c # cs) =
     (if length acc \<ge> 8192 then acc
      else if suffix (crlf @ crlf) (acc @ [c]) then acc @ [c] else read_head (acc @ [c]) cs)"

definition request_path :: "string \<Rightarrow> string" where
  "request_path headers =
     (case find_str crlf headers of
        None \<Rightarrow> []
      | Some eol \<Rightarrow>
          (case next_token (take eol headers) of
             None \<Rightarrow> []
           | Some (meth, r1) \<Rightarrow>
               (case next_token r1 of
                  None \<Rightarrow> []
                | Some (uri, r2) \<Rightarrow> if next_token r2 \<noteq> None \<and> meth = ''GET'' then uri else [])))"

fun url_decode :: "string \<Rightarrow> string" where
  "url_decode (p # a # b # cs) =
     (if p = CHR ''%'' \<and> is_hex a \<and> is_hex b
      then char_of (16 * the (hex_val a) + the (hex_val b)) # url_decode cs
      else p # url_decode (a # b # cs))"
| "url_decode s = s"

definition mlhls_url :: "string \<Rightarrow> string" where
  "mlhls_url path = media_prefix @ (if path = [] \<or> hd path \<noteq> CHR ''/'' then path else tl path)"

section \<open>Ranges\<close>

definition lower_ascii :: "string \<Rightarrow> string" where
  "lower_ascii s = map tolower s"

text \<open>The start and the end of a range, -1 for none.\<close>

definition range_of :: "string \<Rightarrow> int \<times> int" where
  "range_of val =
     (case find_pred (\<lambda>c. c = CHR ''-'') val of
        None \<Rightarrow> (-1, -1)
      | Some dash \<Rightarrow>
          (case (if dash > 0 then stoll (take dash val) else Some (-1)) of
             None \<Rightarrow> (-1, -1)
           | Some start \<Rightarrow>
               (start, if dash + 1 < length val
                       then (case stoll (drop (dash + 1) val) of None \<Rightarrow> -1 | Some e \<Rightarrow> e) else -1)))"

definition parse_range :: "string \<Rightarrow> int \<times> int" where
  "parse_range headers =
     (case find_str (crlf @ ''range:'') (lower_ascii headers) of
        None \<Rightarrow> (-1, -1)
      | Some rp \<Rightarrow>
          (case (find_pred_from (\<lambda>c. c = CHR ''='') headers rp, find_from crlf headers (rp + 2)) of
             (Some eq, Some eol) \<Rightarrow> if eq < eol then range_of (substr headers (eq + 1) (eol - eq - 1)) else (-1, -1)
           | _ \<Rightarrow> (-1, -1)))"

section \<open>Answers\<close>

definition send_response :: "nat \<Rightarrow> string \<Rightarrow> string \<Rightarrow> string \<Rightarrow> string" where
  "send_response status txt body ctype =
     ''HTTP/1.1 '' @ show_nat status @ '' '' @ txt @ crlf @ ''Content-Type: '' @ ctype @ crlf
     @ ''Content-Length: '' @ show_nat (length body) @ crlf @ ''Connection: close'' @ crlf @ crlf @ body"

fun hex_digits :: "nat \<Rightarrow> string" where
  "hex_digits n = (if n < 16 then [] else hex_digits (n div 16)) @ [''0123456789abcdef'' ! (n mod 16)]"

declare hex_digits.simps [simp del]

text \<open>What libavio answers for an address, an offset and an end offset (-1 when the option is not set).\<close>

record upstream =
  up_size :: int
  up_reads :: "string list"

definition proxy_head :: "int \<Rightarrow> int \<Rightarrow> int \<Rightarrow> string" where
  "proxy_head range_start range_end sz =
     (if range_start \<ge> 0
      then (let e = (if range_end \<ge> 0 then range_end else if sz > 0 then range_start + sz - 1 else -1)
            in ''HTTP/1.1 206 Partial Content'' @ crlf @ ''Content-Type: application/octet-stream'' @ crlf
               @ (if e \<ge> 0 then ''Content-Range: bytes '' @ show_int range_start @ ''-'' @ show_int e @ ''/*'' @ crlf else [])
               @ ''Accept-Ranges: bytes'' @ crlf)
      else ''HTTP/1.1 200 OK'' @ crlf @ ''Content-Type: application/octet-stream'' @ crlf @ ''Accept-Ranges: bytes'' @ crlf)
     @ (if sz > 0 then ''Content-Length: '' @ show_int sz @ crlf else ''Transfer-Encoding: chunked'' @ crlf)
     @ ''Connection: close'' @ crlf @ crlf"

definition chunk :: "string \<Rightarrow> string" where
  "chunk d = hex_digits (length d) @ crlf @ d @ crlf"

definition proxy_body :: "upstream \<Rightarrow> string" where
  "proxy_body up =
     (let reads = takeWhile (\<lambda>d. d \<noteq> []) (up_reads up)
      in if up_size up > 0 then concat reads else concat (map chunk reads) @ ''0'' @ crlf @ crlf)"

definition proxy :: "(string \<Rightarrow> int \<Rightarrow> int \<Rightarrow> upstream option) \<Rightarrow> string \<Rightarrow> int \<times> int \<Rightarrow> string" where
  "proxy avio url rng =
     (case (if fst rng \<ge> 0 then avio url (fst rng) (if snd rng \<ge> 0 then snd rng + 1 else -1) else avio url (-1) (-1)) of
        None \<Rightarrow> send_response 502 ''Bad Gateway'' [] ''text/plain''
      | Some up \<Rightarrow> proxy_head (fst rng) (snd rng) (up_size up) @ proxy_body up)"

function rewrite_urls :: "u16 \<Rightarrow> string \<Rightarrow> string" where
  "rewrite_urls port content =
     (case find_str media_prefix content of
        None \<Rightarrow> content
      | Some hit \<Rightarrow> take hit content @ ''http://localhost:'' @ show_nat (unat port) @ ''/''
                      @ rewrite_urls port (drop (hit + length media_prefix) content))"
  by pat_completeness auto
termination
  by (relation "measure (\<lambda>(p, content). length content)") (auto simp: media_prefix_def dest!: find_str_Some)

declare rewrite_urls.simps [simp del]

section \<open>One connection\<close>

text \<open>The fetches through the reverse channel are the two functions \<open>fetch_pl\<close> and \<open>fetch_seg\<close>.\<close>

definition serve_playlist ::
  "(string \<Rightarrow> bool \<Rightarrow> registry \<Rightarrow> string option \<times> registry) \<Rightarrow> string list \<Rightarrow> u16 \<Rightarrow> string \<Rightarrow> registry \<Rightarrow> string \<times> registry" where
  "serve_playlist fetch_pl order port url reg =
     (let answer = (\<lambda>body master. let b = rewrite_urls port body
                                  in send_response 200 ''OK'' (if master then filter_master_to_single_variant b else b)
                                       ''application/vnd.apple.mpegurl'')
      in case lookup_playlist order reg url of
           (None, master) \<Rightarrow>
             (case fetch_pl url False reg of
                (None, reg') \<Rightarrow> (send_response 504 ''Gateway Timeout'' [] ''text/plain'', reg')
              | (Some body, reg') \<Rightarrow> (answer body master, reg'))
         | (Some body, master) \<Rightarrow>
             (if \<not> master \<and> find_str ''#EXT-X-ENDLIST'' body = None
              then (case fetch_pl url True reg of
                      (None, reg') \<Rightarrow> (answer body master, reg')
                    | (Some fresh, reg') \<Rightarrow> (answer fresh master, reg'))
              else (answer body master, reg)))"

definition serve_segment :: "(string \<Rightarrow> registry \<Rightarrow> fetched option \<times> registry) \<Rightarrow> string \<Rightarrow> registry \<Rightarrow> string \<times> registry" where
  "serve_segment fetch_seg url reg =
     (case fetch_seg url reg of
        (None, reg') \<Rightarrow> (send_response 504 ''Gateway Timeout'' [] ''text/plain'', reg')
      | (Some (Segment_redirect loc), reg') \<Rightarrow>
          (if loc = [] then (send_response 200 ''OK'' [] ''application/octet-stream'', reg')
           else (''HTTP/1.1 302 Found'' @ crlf @ ''Location: '' @ loc @ crlf @ ''Content-Length: 0'' @ crlf
                 @ ''Connection: close'' @ crlf @ crlf, reg'))
      | (Some (Segment_bytes d), reg') \<Rightarrow> (send_response 200 ''OK'' d ''application/octet-stream'', reg'))"

definition seg_route :: string where
  "seg_route = ''/seg/''"

definition handle_get ::
  "(string \<Rightarrow> bool \<Rightarrow> registry \<Rightarrow> string option \<times> registry) \<Rightarrow> (string \<Rightarrow> registry \<Rightarrow> fetched option \<times> registry)
    \<Rightarrow> (string \<Rightarrow> int \<Rightarrow> int \<Rightarrow> upstream option) \<Rightarrow> string list \<Rightarrow> u16 \<Rightarrow> string \<Rightarrow> registry \<Rightarrow> string \<times> registry" where
  "handle_get fetch_pl fetch_seg avio order port input reg =
     (let headers = read_head [] input; path = url_decode (request_path headers)
      in if path = [] then (send_response 400 ''Bad Request'' [] ''text/plain'', reg)
         else if length path > 5 \<and> prefix seg_route path
         then (let cdn = resolve_segment_path order reg path
               in if cdn = [] then (send_response 404 ''Not Found'' [] ''text/plain'', reg)
                  else (proxy avio cdn (parse_range headers), reg))
         else if m3u8 path then serve_playlist fetch_pl order port (mlhls_url path) reg
         else serve_segment fetch_seg (mlhls_url path) reg)"

definition serve_local ::
  "plist_lib \<Rightarrow> (int \<Rightarrow> string \<Rightarrow> bool) \<Rightarrow> (nat \<Rightarrow> registry \<Rightarrow> registry) \<Rightarrow> reverse \<Rightarrow> string list
    \<Rightarrow> (string \<Rightarrow> int \<Rightarrow> int \<Rightarrow> upstream option) \<Rightarrow> u16 \<Rightarrow> string \<Rightarrow> registry \<Rightarrow> string \<times> registry" where
  "serve_local lib send others chs order avio port input reg =
     handle_get (\<lambda>url force. fetch_playlist lib send others chs order url force)
       (\<lambda>url. fetch_segment lib send others chs order url) avio order port input reg"

section \<open>Percent encoding\<close>

text \<open>A client may encode any character, and must encode the percent sign.\<close>

inductive encodes :: "string \<Rightarrow> string \<Rightarrow> bool" where
  encodes_Nil: "encodes [] []"
| encodes_literal: "c \<noteq> CHR ''%'' \<Longrightarrow> encodes p q \<Longrightarrow> encodes (c # p) (c # q)"
| encodes_hex: "is_hex a \<Longrightarrow> is_hex b \<Longrightarrow> char_of (16 * the (hex_val a) + the (hex_val b)) = c \<Longrightarrow> encodes p q
    \<Longrightarrow> encodes (c # p) (CHR ''%'' # a # b # q)"

lemma decode_literal: "c \<noteq> CHR ''%'' \<Longrightarrow> url_decode (c # q) = c # url_decode q"
  by (cases q rule: url_decode.cases) auto

lemma decode_encodes: "encodes p q \<Longrightarrow> url_decode q = p"
  by (induction rule: encodes.induct) (simp_all add: decode_literal)

section \<open>Reading the request\<close>

lemma read_head_stop:
  assumes "\<And>k. k < length h \<Longrightarrow> \<not> suffix (crlf @ crlf) (acc @ take k h)" "suffix (crlf @ crlf) (acc @ h)" "h \<noteq> []"
    "length acc + length h \<le> 8192"
  shows "read_head acc (h @ more_input) = acc @ h"
  using assms
proof (induction h arbitrary: acc)
  case (Cons c h)
  show ?case
  proof (cases "h = []")
    case True
    then show ?thesis using Cons.prems by simp
  next
    case False
    have "\<not> suffix (crlf @ crlf) (acc @ [c])" using Cons.prems(1) [of 1] False by simp
    moreover have "read_head (acc @ [c]) (h @ more_input) = (acc @ [c]) @ h"
    proof (rule Cons.IH)
      show "\<not> suffix (crlf @ crlf) ((acc @ [c]) @ take k h)" if "k < length h" for k
        using Cons.prems(1) [of "Suc k"] that by simp
    qed (use Cons.prems False in simp_all)
    ultimately show ?thesis using Cons.prems(4) False by simp
  qed
qed simp

lemma suffix_find: "suffix p s \<Longrightarrow> \<exists>i. find_str p s = Some i \<and> i + length p \<le> length s"
proof -
  assume "suffix p s"
  then have "prefix p (drop (length s - length p) s)" by (auto simp: suffix_def)
  then have "find_str p s \<noteq> None" unfolding find_str_None by (auto intro!: exI [of _ "length s - length p"])
  then show ?thesis by (auto dest: find_str_Some)
qed

text \<open>A head is a text whose first empty line is its last.\<close>

definition is_head :: "string \<Rightarrow> bool" where
  "is_head h \<longleftrightarrow> suffix (crlf @ crlf) h \<and> find_str (crlf @ crlf) h = Some (length h - 4) \<and> length h \<le> 8192"

lemma read_head_head:
  assumes "is_head h"
  shows "read_head [] (h @ more_input) = h"
proof -
  have l: "length (crlf @ crlf) = 4" by (simp add: crlf_def)
  have "\<not> suffix (crlf @ crlf) (take k h)" if k: "k < length h" for k
  proof
    assume "suffix (crlf @ crlf) (take k h)"
    then obtain i where i: "find_str (crlf @ crlf) (take k h) = Some i" "i + 4 \<le> length (take k h)"
      using suffix_find l by metis
    then have "find_str (crlf @ crlf) (take k h @ drop k h) = Some i"
      using i(1) find_from_append [of "crlf @ crlf" "take k h" 0 i "drop k h"] by (simp add: find_from_def)
    then show False using assms i(2) k by (simp add: is_head_def)
  qed
  moreover have "h \<noteq> []" using assms by (auto simp: is_head_def crlf_def suffix_def)
  ultimately show ?thesis using assms read_head_stop [of h "[]"] by (simp add: is_head_def)
qed

definition get_line :: "string \<Rightarrow> string" where
  "get_line q = ''GET '' @ q @ '' HTTP/1.1''"

lemma request_path_get:
  assumes "q \<noteq> []" "list_all (\<lambda>c. \<not> isspace c) q"
  shows "request_path (get_line q @ crlf @ r) = q"
proof -
  have no_cr: "cr \<notin> set (get_line q)"
    using assms(2) by (auto simp: get_line_def cr_def list_all_iff isspace_def)
  have "find_str crlf (get_line q @ crlf @ r) = Some (length (get_line q))"
    using find_str_skip [of cr "get_line q" "[nl]" r] no_cr by (simp add: ctl_defs)
  moreover have "next_token (get_line q) = Some (''GET'', CHR '' '' # q @ '' HTTP/1.1'')"
    using next_token_word [of "''GET''" "CHR '' '' # q @ '' HTTP/1.1''"] by (simp add: get_line_def isspace_def)
  moreover have "next_token (CHR '' '' # q @ '' HTTP/1.1'') = Some (q, '' HTTP/1.1'')"
    using next_token_word [of q "'' HTTP/1.1''"] assms by (simp add: next_token_space isspace_def list_all_iff)
  moreover have "next_token '' HTTP/1.1'' \<noteq> None" by code_simp
  ultimately show ?thesis by (simp add: request_path_def)
qed

section \<open>Chunks\<close>

text \<open>The reading of a chunked body: the size in hexadecimal, the data, and a chunk of size zero at
  the end.\<close>

function dechunk :: "string \<Rightarrow> string option" where
  "dechunk s =
     (case find_str crlf s of
        None \<Rightarrow> None
      | Some e \<Rightarrow>
          (let n = hex_value (take e s); r = drop (e + 2) s
           in if n = 0 then (if r = crlf then Some [] else None)
              else if prefix crlf (drop n r) then map_option (\<lambda>d. take n r @ d) (dechunk (drop (n + 2) r)) else None))"
  by pat_completeness auto
termination
  by (relation "measure length") (auto simp: crlf_def dest!: find_str_Some)

declare dechunk.simps [simp del]

lemma hex_value_snoc: "hex_value (ds @ [d]) = 16 * hex_value ds + the (hex_val d)"
  by (simp add: hex_value_def)

lemma hex_digit_cases:
  assumes "k < 16"
  shows "hex_val (''0123456789abcdef'' ! k) = Some k \<and> ''0123456789abcdef'' ! k \<noteq> cr"
proof -
  have "list_all (\<lambda>k. hex_val (''0123456789abcdef'' ! k) = Some k \<and> ''0123456789abcdef'' ! k \<noteq> cr) [0..<16]"
    by code_simp
  then show ?thesis using assms by (simp add: list_all_iff)
qed

lemma hex_value_digits: "hex_value (hex_digits n) = n"
proof (induction n rule: hex_digits.induct)
  case (1 n)
  have "hex_val (''0123456789abcdef'' ! (n mod 16)) = Some (n mod 16)" using hex_digit_cases [of "n mod 16"] by simp
  then show ?case using 1 by (subst hex_digits.simps) (simp add: hex_value_snoc, simp add: hex_value_def)
qed

lemma hex_digits_no_cr: "cr \<notin> set (hex_digits n)"
proof (induction n rule: hex_digits.induct)
  case (1 n)
  then show ?case using hex_digit_cases [of "n mod 16"] by (subst hex_digits.simps) auto
qed

lemma find_crlf: "cr \<notin> set u \<Longrightarrow> find_str crlf (u @ crlf @ r) = Some (length u)"
  using find_str_skip [of cr u "[nl]" r] by (simp add: ctl_defs)

lemma dechunk_chunk: "d \<noteq> [] \<Longrightarrow> dechunk (chunk d @ r) = map_option ((@) d) (dechunk r)"
  using find_crlf [OF hex_digits_no_cr, of "length d" "d @ crlf @ r"]
  by (subst dechunk.simps) (simp add: chunk_def hex_value_digits crlf_def Let_def)

lemma dechunk_end: "dechunk (''0'' @ crlf @ crlf) = Some []"
proof -
  have "find_str crlf (''0'' @ crlf @ crlf) = Some 1" "hex_value ''0'' = 0" by code_simp+
  then show ?thesis by (subst dechunk.simps) (simp add: crlf_def)
qed

lemma dechunk_chunks: "list_all (\<lambda>d. d \<noteq> []) ds \<Longrightarrow> dechunk (concat (map chunk ds) @ ''0'' @ crlf @ crlf) = Some (concat ds)"
  by (induction ds) (simp_all add: dechunk_end [simplified] dechunk_chunk)

section \<open>A segment through the proxy\<close>

lemma seg_path_route: "length (seg_path k) > 5 \<and> prefix seg_route (seg_path k)"
  by (simp add: seg_path_def seg_route_def)

text \<open>
  How a client reads an answer: the head up to the empty line, by the general reading of a head
  (\<open>parse_head\<close>, which calls the version, the status and the first word of the reason a method, an
  address and a version), and then the body by what the head says of it: in chunks, or as many
  characters as are announced, of which none may be missing.
\<close>

definition answer_head :: "string \<Rightarrow> (request \<times> string) option" where
  "answer_head s =
     (case find_str (crlf @ crlf) s of
        None \<Rightarrow> None
      | Some e \<Rightarrow> map_option (\<lambda>q. (q, drop (e + 4) s)) (parse_head (take (e + 4) s) (e + 4)))"

definition answer_body :: "request \<Rightarrow> string \<Rightarrow> string option" where
  "answer_body q rest =
     (if rq_headers q ''transfer-encoding'' = Some ''chunked'' then dechunk rest
      else case rq_headers q ''content-length'' of
             None \<Rightarrow> Some rest
           | Some v \<Rightarrow>
               (case stoll v of
                  None \<Rightarrow> None
                | Some n \<Rightarrow> if nat n \<le> length rest then Some (take (nat n) rest) else None))"

lemma parse_head_wire:
  assumes "request_line line = Some (m, u, v)" and "cr \<notin> set line" and "\<forall>kv \<in> set hs. clean_field kv"
    and "head = line @ crlf @ concat (map header_line hs) @ crlf"
  shows "parse_head head (length head) = Some (empty_request\<lparr>rq_method := m, rq_uri := normalise_uri u, rq_version := v,
    rq_headers := header_map hs\<rparr>)"
proof -
  define fl where "fl = map (\<lambda>kv. fst kv @ '': '' @ snd kv) hs"
  have hl: "concat (map header_line hs) = concat (map (\<lambda>l. l @ crlf) fl)"
    by (simp add: fl_def comp_def header_line_def [abs_def])
  have "\<forall>l \<in> set fl. CHR 0x0D \<notin> set l \<and> l \<noteq> []" using assms(3) by (auto simp: fl_def clean_field_def cr_def)
  then have "header_loop head (length head) (length line + 2) Map.empty = header_map hs"
    using header_loop_lines [of fl "line @ crlf" "[]" Map.empty] fold_store_header [OF assms(3), of Map.empty]
    by (simp add: assms(4) hl crlf_def header_map_def fl_def add_ac)
  moreover have "find_str crlf head = Some (length line)" using find_crlf [OF assms(2)] by (simp add: assms(4))
  ultimately show ?thesis using assms(1) by (simp add: parse_head_def assms(4))
qed

lemma answer_head_wire:
  assumes "request_line line = Some (m, u, v)" and "cr \<notin> set line" and "\<forall>kv \<in> set hs. clean_field kv"
  shows "answer_head (line @ crlf @ concat (map header_line hs) @ crlf @ rest)
    = Some (empty_request\<lparr>rq_method := m, rq_uri := normalise_uri u, rq_version := v, rq_headers := header_map hs\<rparr>, rest)"
proof -
  let ?h = "line @ crlf @ concat (map header_line hs) @ crlf"
  have l: "length line + length (concat (map header_line hs)) + 4 = length ?h" by (simp add: crlf_def)
  have s: "line @ crlf @ concat (map header_line hs) @ crlf @ rest = ?h @ rest" by simp
  have f: "find_str (crlf @ crlf) (?h @ rest) = Some (length line + length (concat (map header_line hs)))"
    using find_head_end [OF assms(2,3), of rest] by simp
  show ?thesis unfolding s answer_head_def f option.case l using parse_head_wire [OF assms refl] by simp
qed

subsection \<open>The head of the proxy\<close>

definition range_end :: "int \<Rightarrow> int \<Rightarrow> int \<Rightarrow> int option" where
  "range_end lo hi sz = (if lo < 0 then None else if hi \<ge> 0 then Some hi else if sz > 0 then Some (lo + sz - 1) else None)"

definition proxy_fields :: "int \<Rightarrow> int \<Rightarrow> int \<Rightarrow> (string \<times> string) list" where
  "proxy_fields lo hi sz =
     [(''Content-Type'', ''application/octet-stream'')]
     @ (case range_end lo hi sz of None \<Rightarrow> [] | Some e \<Rightarrow> [(''Content-Range'', ''bytes '' @ show_int lo @ ''-'' @ show_int e @ ''/*'')])
     @ [(''Accept-Ranges'', ''bytes''),
        (if sz > 0 then (''Content-Length'', show_int sz) else (''Transfer-Encoding'', ''chunked'')), (''Connection'', ''close'')]"

definition proxy_line :: "int \<Rightarrow> string" where
  "proxy_line lo = (if lo \<ge> 0 then ''HTTP/1.1 206 Partial Content'' else ''HTTP/1.1 200 OK'')"

lemma proxy_head_fields:
  assumes "lo < 0 \<or> hi \<ge> 0 \<or> sz \<le> 0 \<or> lo + sz - 1 \<ge> 0"
  shows "proxy_head lo hi sz = proxy_line lo @ crlf @ concat (map header_line (proxy_fields lo hi sz)) @ crlf"
  using assms by (auto simp: proxy_head_def proxy_line_def proxy_fields_def range_end_def header_line_def)

lemma clean_range_value: "trim_ws (''bytes '' @ show_int lo @ ''-'' @ show_int e @ ''/*'') = ''bytes '' @ show_int lo @ ''-'' @ show_int e @ ''/*''"
  unfolding trim_ws_def by (rule trim_set_id) (simp_all add: tab_def)

lemma proxy_fields_clean: "\<forall>kv \<in> set (proxy_fields lo hi sz). clean_field kv"
proof -
  have c: "cr \<notin> set (show_int i)" for i by (rule word_ok_no_cr) simp
  have words: "list_all clean_field [(''Content-Type'', ''application/octet-stream''), (''Accept-Ranges'', ''bytes''),
      (''Transfer-Encoding'', ''chunked''), (''Connection'', ''close'')]" by code_simp
  have keys: "trim_ws ''Content-Range'' = ''Content-Range''" "trim_ws ''Content-Length'' = ''Content-Length''" by code_simp+
  have "clean_field (''Content-Range'', ''bytes '' @ show_int lo @ ''-'' @ show_int e @ ''/*'')" for e
    using clean_range_value [of lo e] keys c by (simp add: clean_field_def cr_def)
  moreover have "clean_field (''Content-Length'', show_int sz)"
    using keys c trim_ws_word [OF show_int_word_ok, of sz] by (simp add: clean_field_def cr_def)
  ultimately show ?thesis using words by (auto simp: proxy_fields_def split: option.split)
qed

lemma proxy_line_read:
  "request_line (proxy_line lo) = Some (''HTTP/1.1'', if lo \<ge> 0 then ''206'' else ''200'', if lo \<ge> 0 then ''Partial'' else ''OK'')"
  "cr \<notin> set (proxy_line lo)"
proof -
  have "request_line ''HTTP/1.1 206 Partial Content'' = Some (''HTTP/1.1'', ''206'', ''Partial'')"
    "request_line ''HTTP/1.1 200 OK'' = Some (''HTTP/1.1'', ''200'', ''OK'')" by code_simp+
  then show "request_line (proxy_line lo) = Some (''HTTP/1.1'', if lo \<ge> 0 then ''206'' else ''200'', if lo \<ge> 0 then ''Partial'' else ''OK'')"
    by (simp add: proxy_line_def)
  show "cr \<notin> set (proxy_line lo)" by (simp add: proxy_line_def cr_def)
qed

lemma proxy_keys:
  "to_lower ''Content-Type'' = ''content-type''" "to_lower ''Content-Range'' = ''content-range''"
  "to_lower ''Accept-Ranges'' = ''accept-ranges''" "to_lower ''Transfer-Encoding'' = ''transfer-encoding''"
  "to_lower ''Connection'' = ''connection''"
  by code_simp+

lemma proxy_map:
  "header_map (proxy_fields lo hi sz) ''content-length'' = (if sz > 0 then Some (show_int sz) else None)"
  "header_map (proxy_fields lo hi sz) ''transfer-encoding'' = (if sz > 0 then None else Some ''chunked'')"
  "header_map (proxy_fields lo hi sz) ''content-range''
     = map_option (\<lambda>e. ''bytes '' @ show_int lo @ ''-'' @ show_int e @ ''/*'') (range_end lo hi sz)"
  by (simp_all add: header_map_def proxy_fields_def proxy_keys split: option.split)

lemma proxy_body_read:
  assumes "rq_headers q = header_map (proxy_fields lo hi (up_size up))" and "up_size up < 2 ^ 63"
    and "delivered = concat (takeWhile (\<lambda>d. d \<noteq> []) (up_reads up))"
  shows "answer_body q (proxy_body up)
    = (if int (length delivered) < up_size up then None
       else Some (if up_size up > 0 then take (nat (up_size up)) delivered else delivered))"
proof (cases "up_size up > 0")
  case True
  then have "stoll (show_int (up_size up)) = Some (up_size up)" using assms(2) by (intro stoi_show_int) simp_all
  then show ?thesis using True assms by (auto simp: answer_body_def proxy_map proxy_body_def)
next
  case False
  have "list_all (\<lambda>d. d \<noteq> []) (takeWhile (\<lambda>d. d \<noteq> []) (up_reads up))"
    by (auto simp: list_all_iff dest: set_takeWhileD)
  then show ?thesis using False assms dechunk_chunks by (auto simp: answer_body_def proxy_map proxy_body_def Let_def)
qed


text \<open>The size that \<open>avio_size\<close> answers is that of the whole resource. For a range that does not start at its
  beginning it is more than will be delivered: the answer promises the size of the whole, and a player that counts
  never gets to its end.\<close>

lemma range_answer_short:
  assumes "avio cdn lo (-1) = Some up" and "0 < lo" and "up_size up < 2 ^ 63"
    and "int (length (concat (takeWhile (\<lambda>d. d \<noteq> []) (up_reads up)))) = up_size up - lo"
  shows "\<exists>a. answer_head (proxy avio cdn (lo, -1)) = Some (a, proxy_body up) \<and> answer_body a (proxy_body up) = None"
proof -
  let ?a = "empty_request\<lparr>rq_method := ''HTTP/1.1'', rq_uri := normalise_uri (if lo \<ge> 0 then ''206'' else ''200''),
    rq_version := if lo \<ge> 0 then ''Partial'' else ''OK'', rq_headers := header_map (proxy_fields lo (-1) (up_size up))\<rparr>"
  have "lo < 0 \<or> (-1::int) \<ge> 0 \<or> up_size up \<le> 0 \<or> lo + up_size up - 1 \<ge> 0" using assms(2) by linarith
  then have "answer_head (proxy avio cdn (lo, -1)) = Some (?a, proxy_body up)"
    using answer_head_wire [OF proxy_line_read [of lo] proxy_fields_clean] proxy_head_fields assms(1,2) by (simp add: proxy_def)
  moreover have "answer_body ?a (proxy_body up) = None"
    using proxy_body_read [OF _ assms(3) refl, of ?a lo "-1"] assms(2,4) by simp
  ultimately show ?thesis by blast
qed

section \<open>Witness\<close>

definition sample_head :: string where
  "sample_head = get_line ''/seg/%30'' @ crlf @ ''Range: bytes=2-'' @ crlf @ crlf"

definition sample_segments :: registry where
  "sample_segments = \<lparr>rg_sessions = [''s'' \<mapsto> (new_hls ''s'')\<lparr>hs_segs := \<lparr>sg_map = [''/seg/0'' \<mapsto> ''http://c/1''], sg_counter = 1\<rparr>\<rparr>],
     rg_active = ''s''\<rparr>"


end
