(* ===== verification/SetupPlist.thy ===== *)
theory SetupPlist
  imports Plists
begin

text \<open>
  The property lists of the AirPlay 2 SETUP request and response
  (src/airplay/airplay2_setup.cpp and .h).
\<close>

section \<open>The request\<close>

record stream_request =
  sr_type :: int
  sr_connection :: u64
  sr_control_port :: int
  sr_ct :: int
  sr_spf :: int
  sr_format :: u64

record setup_request =
  sq_has_keys :: bool
  sq_ekey :: bytes
  sq_eiv :: bytes
  sq_device :: string
  sq_model :: string
  sq_name :: string
  sq_timing_protocol :: string
  sq_timing_port :: u64
  sq_remote_only :: bool
  sq_has_streams :: bool
  sq_streams :: "stream_request list"

definition empty_setup :: setup_request where
  "empty_setup = \<lparr>sq_has_keys = False, sq_ekey = [], sq_eiv = [], sq_device = [], sq_model = [], sq_name = [],
     sq_timing_protocol = [], sq_timing_port = 0, sq_remote_only = False, sq_has_streams = False, sq_streams = []\<rparr>"

definition get_str :: "plist \<Rightarrow> string \<Rightarrow> string" where
  "get_str p key = (case get_string_of p key of None \<Rightarrow> [] | Some s \<Rightarrow> s)"

definition get_uint :: "plist \<Rightarrow> string \<Rightarrow> u64" where
  "get_uint p key = (case get_uint_of p key of None \<Rightarrow> 0 | Some n \<Rightarrow> n)"

definition get_bool :: "plist \<Rightarrow> string \<Rightarrow> bool" where
  "get_bool p key = (dict_item p key = Some (PBool True))"

definition get_data :: "plist \<Rightarrow> string \<Rightarrow> bytes" where
  "get_data p key = (case get_data_of p key of None \<Rightarrow> [] | Some d \<Rightarrow> d)"

text \<open>\<open>static_cast<int>\<close> of a 64-bit value keeps the low 32 bits.\<close>

definition to_int :: "u64 \<Rightarrow> int" where
  "to_int n = sint (ucast n :: u32)"

definition read_stream :: "plist \<Rightarrow> stream_request option" where
  "read_stream s =
     (case s of
        PDict _ \<Rightarrow> Some \<lparr>sr_type = to_int (get_uint s ''type''), sr_connection = get_uint s ''streamConnectionID'',
                         sr_control_port = to_int (get_uint s ''controlPort''), sr_ct = to_int (get_uint s ''ct''),
                         sr_spf = to_int (get_uint s ''spf''), sr_format = get_uint s ''audioFormat''\<rparr>
      | _ \<Rightarrow> None)"

definition read_setup :: "plist \<Rightarrow> setup_request" where
  "read_setup doc =
     (let ekey = get_data doc ''ekey''; eiv = get_data doc ''eiv'';
          q = empty_setup\<lparr>sq_ekey := ekey, sq_eiv := eiv\<rparr>;
          q1 = (if ekey \<noteq> [] \<and> eiv \<noteq> []
                then q\<lparr>sq_has_keys := True, sq_device := get_str doc ''deviceID'', sq_model := get_str doc ''model'',
                       sq_name := get_str doc ''name'', sq_timing_protocol := get_str doc ''timingProtocol'',
                       sq_timing_port := get_uint doc ''timingPort'', sq_remote_only := get_bool doc ''isRemoteControlOnly''\<rparr>
                else q)
      in case dict_item doc ''streams'' of
           Some (PArray ss) \<Rightarrow> q1\<lparr>sq_has_streams := True, sq_streams := List.map_filter read_stream ss\<rparr>
         | _ \<Rightarrow> q1)"

text \<open>None where the function returns false.\<close>

definition parse_airplay2_setup :: "plist_lib \<Rightarrow> bytes \<Rightarrow> setup_request option" where
  "parse_airplay2_setup lib body =
     (if length body < 8 then None
      else case pl_from_bin lib body of
             Some (PDict kvs) \<Rightarrow>
               (let q = read_setup (PDict kvs) in if sq_has_keys q \<or> sq_has_streams q then Some q else None)
           | _ \<Rightarrow> None)"

section \<open>The response\<close>

definition add_session :: "u16 \<Rightarrow> (string \<times> plist) list" where
  "add_session timing_port = [(''eventPort'', PUint 0), (''timingPort'', PUint (ucast timing_port))]"

definition stream_entry :: "stream_request \<Rightarrow> u16 \<times> u16 \<Rightarrow> plist" where
  "stream_entry q ports =
     PDict ([(''type'', PUint (of_int (sr_type q))), (''dataPort'', PUint (ucast (fst ports)))]
            @ (if sr_type q = 96 then [(''controlPort'', PUint (ucast (snd ports)))] else []))"

definition add_streams :: "stream_request list \<Rightarrow> (u16 \<times> u16) list \<Rightarrow> (string \<times> plist) list" where
  "add_streams qs ports = [(''streams'', PArray (map2 stream_entry qs ports))]"

section \<open>What a client sends and reads\<close>

text \<open>The request of a client that sets a session up, streams up, or both.\<close>

definition render_stream :: "stream_request \<Rightarrow> plist" where
  "render_stream q = PDict [(''type'', PUint (of_int (sr_type q))), (''streamConnectionID'', PUint (sr_connection q)),
     (''controlPort'', PUint (of_int (sr_control_port q))), (''ct'', PUint (of_int (sr_ct q))),
     (''spf'', PUint (of_int (sr_spf q))), (''audioFormat'', PUint (sr_format q))]"

definition render_setup :: "setup_request \<Rightarrow> plist" where
  "render_setup q = PDict
     ((if sq_has_keys q
       then [(''ekey'', PData (sq_ekey q)), (''eiv'', PData (sq_eiv q)), (''deviceID'', PString (sq_device q)),
             (''model'', PString (sq_model q)), (''name'', PString (sq_name q)),
             (''timingProtocol'', PString (sq_timing_protocol q)), (''timingPort'', PUint (sq_timing_port q)),
             (''isRemoteControlOnly'', PBool (sq_remote_only q))]
       else [])
      @ (if sq_has_streams q then [(''streams'', PArray (map render_stream (sq_streams q)))] else []))"

definition int32 :: "int \<Rightarrow> bool" where
  "int32 i \<longleftrightarrow> - (2 ^ 31) \<le> i \<and> i < 2 ^ 31"

definition wf_stream :: "stream_request \<Rightarrow> bool" where
  "wf_stream q \<longleftrightarrow> int32 (sr_type q) \<and> int32 (sr_control_port q) \<and> int32 (sr_ct q) \<and> int32 (sr_spf q)"

definition wf_setup :: "setup_request \<Rightarrow> bool" where
  "wf_setup q \<longleftrightarrow> (sq_has_keys q \<or> sq_has_streams q) \<and> list_all wf_stream (sq_streams q)
     \<and> (if sq_has_keys q then sq_ekey q \<noteq> [] \<and> sq_eiv q \<noteq> []
        else sq_ekey q = [] \<and> sq_eiv q = [] \<and> sq_device q = [] \<and> sq_model q = [] \<and> sq_name q = []
          \<and> sq_timing_protocol q = [] \<and> sq_timing_port q = 0 \<and> \<not> sq_remote_only q)
     \<and> (\<not> sq_has_streams q \<longrightarrow> sq_streams q = [])"

lemma to_int_of_int: "int32 i \<Longrightarrow> to_int (of_int i) = i"
proof -
  assume "int32 i"
  moreover have "ucast (of_int i :: u64) = (of_int i :: u32)"
    by (rule bit_word_eqI) (simp add: bit_unsigned_iff bit_of_int_iff)
  ultimately show ?thesis
    by (simp add: to_int_def int32_def signed_of_int signed_take_bit_int_eq_self)
qed

lemmas getters = get_str_def get_uint_def get_bool_def get_data_def get_string_of_def get_uint_of_def get_data_of_def

lemma read_render_stream: "wf_stream q \<Longrightarrow> read_stream (render_stream q) = Some q"
  by (simp add: read_stream_def render_stream_def wf_stream_def getters to_int_of_int)

lemma map_filter_render: "list_all wf_stream qs \<Longrightarrow> List.map_filter read_stream (map render_stream qs) = qs"
  by (induction qs) (simp_all add: read_render_stream List.map_filter_simps)

lemma read_render_setup: "wf_setup q \<Longrightarrow> read_setup (render_setup q) = q"
  by (cases "sq_has_keys q"; cases "sq_has_streams q")
    (auto simp: read_setup_def render_setup_def wf_setup_def getters map_filter_render empty_setup_def Let_def)

text \<open>The parser reads back what a client renders, given that libplist does.\<close>

lemma parse_render_setup:
  assumes "wf_setup q" "pl_from_bin lib body = Some (render_setup q)" "8 \<le> length body"
  shows "parse_airplay2_setup lib body = Some q"
proof -
  obtain kvs where "render_setup q = PDict kvs" by (simp add: render_setup_def)
  then show ?thesis
    using assms read_render_setup [OF assms(1)] by (simp add: parse_airplay2_setup_def Let_def wf_setup_def)
qed

end
