(* ===== verification/Routes.thy ===== *)
theory Routes
  imports HlsRoutes SetupPlist PairVerify StreamKeys Streams Sdp Daap RtpFlush
begin

text \<open>
  The request handlers and the dispatcher of src/airplay/routes.cpp over the state of a
  connection (src/airplay/client_session.h), the state all connections share and the sockets.
  The HLS handlers are those of HlsRoutes. What the environment decides, the key the random
  source yields, the outcome of the calls into the audio libraries, the clock and the id of a new
  session, is an argument. Setting the volume, which only reaches the sound device, and the log
  are left out. \<open>parse_daap_mlit\<close> returns on every body a connection can carry.
\<close>

section \<open>The state of a connection\<close>

record 'd client =
  cl_ip :: string
  cl_fd :: int
  cl_reverse :: string
  cl_hwaccel :: bool
  cl_pv :: "pv_session option"
  cl_fp :: "fp_session option"
  cl_sdp :: "sdp_session option"
  cl_streams :: "'d streams option"
  cl_key :: bytes
  cl_iv :: bytes
  cl_start :: u64
  cl_curr :: u64

definition new_client :: "string \<Rightarrow> int \<Rightarrow> bool \<Rightarrow> 'd client" where
  "new_client ip fd hw = \<lparr>cl_ip = ip, cl_fd = fd, cl_reverse = [], cl_hwaccel = hw, cl_pv = None, cl_fp = None,
     cl_sdp = None, cl_streams = None, cl_key = [], cl_iv = [], cl_start = 0, cl_curr = 0\<rparr>"

record 'd state =
  st_client :: "'d client"
  st_hub :: hub
  st_kernel :: kernel
  st_cover_file :: bytes

record ('k, 'd) route_env =
  rv_env :: env
  rv_crypto :: "'k crypto"
  rv_ops :: "'d decoder_ops"
  rv_audio :: audio_env
  rv_blobs :: fp_blobs
  rv_playfair :: "(bytes \<Rightarrow> bytes \<Rightarrow> bytes) option"
  rv_key :: "'k option"
  rv_now :: int
  rv_fresh :: string

definition on_client :: "('d client \<Rightarrow> 'd client) \<Rightarrow> 'd state \<Rightarrow> 'd state" where
  "on_client f st = st\<lparr>st_client := f (st_client st)\<rparr>"

definition on_hub :: "(hub \<Rightarrow> hub) \<Rightarrow> 'd state \<Rightarrow> 'd state" where
  "on_hub f st = st\<lparr>st_hub := f (st_hub st)\<rparr>"

definition on_window :: "device_context \<Rightarrow> (renderer \<Rightarrow> renderer) \<Rightarrow> 'd state \<Rightarrow> 'd state" where
  "on_window ctx f = on_hub (window ctx f)"

text \<open>A call on the stream session, if there is one.\<close>

definition on_streams :: "('d streams \<Rightarrow> kernel \<Rightarrow> 'd streams \<times> kernel) \<Rightarrow> 'd state \<Rightarrow> 'd state" where
  "on_streams f st =
     (case cl_streams (st_client st) of
        None \<Rightarrow> st
      | Some s \<Rightarrow> (let (s', k') = f s (st_kernel st)
                   in (on_client (\<lambda>c. c\<lparr>cl_streams := Some s'\<rparr>) st)\<lparr>st_kernel := k'\<rparr>))"

definition pure_streams :: "('d streams \<Rightarrow> 'd streams) \<Rightarrow> 'd state \<Rightarrow> 'd state" where
  "pure_streams f = on_streams (\<lambda>s k. (f s, k))"

definition ms :: "int \<Rightarrow> int" where
  "ms ns = ns div 1000000"

definition with_status :: "int \<Rightarrow> string \<Rightarrow> response \<Rightarrow> response" where
  "with_status code txt r = r\<lparr>rs_status := code, rs_text := txt\<rparr>"

definition with_body :: "bytes \<Rightarrow> response \<Rightarrow> response" where
  "with_body b r = r\<lparr>rs_body := b\<rparr>"

section \<open>Identification and keys\<close>

definition handle_info :: "('k, 'd) route_env \<Rightarrow> device_context \<Rightarrow> request \<Rightarrow> response" where
  "handle_info rv ctx rq =
     (let body = build_info_plist (en_plist (rv_env rv)) ctx
      in if body \<noteq> [] then with_body body (set_header ''Content-Type'' ''application/x-apple-binary-plist'' (ok_reply rq))
         else with_body (to_bytes (''name='' @ (case dc_live ctx of None \<Rightarrow> dc_name ctx | Some l \<Rightarrow> lv_name l)
                                   @ [nl] @ ''deviceid='' @ dc_deviceid ctx @ [nl]))
                (set_header ''Content-Type'' ''text/plain'' (ok_reply rq)))"

definition octets :: "request \<Rightarrow> response" where
  "octets rq = set_header ''Content-Type'' ''application/octet-stream'' (ok_reply rq)"

definition handle_pair_setup :: "device_context \<Rightarrow> request \<Rightarrow> response" where
  "handle_pair_setup ctx rq =
     (if length (dc_public_key ctx) \<noteq> 32 then with_status 500 ''Internal Server Error'' (octets rq)
      else with_body (dc_public_key ctx) (octets rq))"

definition handle_pair_verify :: "('k, 'd) route_env \<Rightarrow> request \<Rightarrow> 'd state \<Rightarrow> response \<times> 'd state" where
  "handle_pair_verify rv rq st =
     (let body = rq_body rq;
          pv = (case cl_pv (st_client st) of None \<Rightarrow> new_session | Some p \<Rightarrow> p)
      in if length body < 4 then (with_status 400 ''Bad Request'' (octets rq), st)
         else if body ! 0 \<noteq> 0
         then (case handle_message1 (rv_crypto rv) (rv_key rv) body pv of
                 (None, p) \<Rightarrow> (with_status 470 ''Connection Authorization Required'' (octets rq), on_client (\<lambda>c. c\<lparr>cl_pv := Some p\<rparr>) st)
               | (Some out, p) \<Rightarrow> (with_body out (octets rq), on_client (\<lambda>c. c\<lparr>cl_pv := Some p\<rparr>) st))
         else (case handle_message2 (rv_crypto rv) body pv of
                 (ok, p) \<Rightarrow> (if ok then octets rq else with_status 470 ''Connection Authorization Required'' (octets rq),
                             on_client (\<lambda>c. c\<lparr>cl_pv := Some p\<rparr>) st)))"

definition handle_fp_setup :: "('k, 'd) route_env \<Rightarrow> request \<Rightarrow> 'd state \<Rightarrow> response \<times> 'd state" where
  "handle_fp_setup rv rq st =
     (case fp_process (rv_blobs rv) (rq_body rq) (case cl_fp (st_client st) of None \<Rightarrow> new_fairplay | Some f \<Rightarrow> f) of
        (None, f) \<Rightarrow> (with_status 400 ''Bad Request'' (octets rq), on_client (\<lambda>c. c\<lparr>cl_fp := Some f\<rparr>) st)
      | (Some out, f) \<Rightarrow> (with_body out (octets rq), on_client (\<lambda>c. c\<lparr>cl_fp := Some f\<rparr>) st))"

definition handle_announce :: "request \<Rightarrow> 'd state \<Rightarrow> response \<times> 'd state" where
  "handle_announce rq st =
     (case parse_sdp (of_bytes (rq_body rq)) of
        (ok, sdp) \<Rightarrow> if ok then (ok_reply rq, on_client (\<lambda>c. c\<lparr>cl_sdp := Some sdp\<rparr>) st)
                    else (with_status 400 ''Bad Request'' (ok_reply rq), st))"

section \<open>SETUP\<close>

definition ensure_streams :: "('d streams \<Rightarrow> 'd streams) \<Rightarrow> string \<Rightarrow> 'd state \<Rightarrow> 'd state" where
  "ensure_streams f fresh st =
     (if cl_streams (st_client st) = None then on_client (\<lambda>c. c\<lparr>cl_streams := Some (f (new_streams fresh))\<rparr>) st else st)"

definition session_id_of :: "'d state \<Rightarrow> string" where
  "session_id_of st = (case cl_streams (st_client st) of None \<Rightarrow> [] | Some s \<Rightarrow> ss_id s)"

text \<open>A call on the stream session that has a result; without a session it fails.\<close>

definition call_streams :: "('d streams \<Rightarrow> kernel \<Rightarrow> 'r option \<times> 'd streams \<times> kernel) \<Rightarrow> 'd state \<Rightarrow> 'r option \<times> 'd state" where
  "call_streams f st =
     (case cl_streams (st_client st) of
        None \<Rightarrow> (None, st)
      | Some s \<Rightarrow> (let (r, s', k') = f s (st_kernel st)
                   in (r, (on_client (\<lambda>c. c\<lparr>cl_streams := Some s'\<rparr>) st)\<lparr>st_kernel := k'\<rparr>)))"

definition transport_line :: "stream_ports \<Rightarrow> string" where
  "transport_line p = ''RTP/AVP/UDP;unicast;mode=record;server_port='' @ show_nat (unat (sp_server p))
     @ (if sp_control p \<noteq> 0 then '';control_port='' @ show_nat (unat (sp_control p)) else [])
     @ (if sp_timing p \<noteq> 0 then '';timing_port='' @ show_nat (unat (sp_timing p)) else [])"

definition setup_legacy_path :: "('k, 'd) route_env \<Rightarrow> request \<Rightarrow> 'd state \<Rightarrow> response \<times> 'd state" where
  "setup_legacy_path rv rq st =
     (case call_streams (setup_legacy (header rq ''transport'')) (ensure_streams id (rv_fresh rv) st) of
        (None, st2) \<Rightarrow> (with_status 500 ''Internal Server Error'' (ok_reply rq), st2)
      | (Some p, st2) \<Rightarrow>
          (set_header ''Session'' (session_id_of st2) (set_header ''Transport'' (transport_line p) (ok_reply rq)), st2))"

text \<open>The device that the window shows, when it is another one than this client's.\<close>

definition taken_by_other :: "device_context \<Rightarrow> 'd state \<Rightarrow> bool" where
  "taken_by_other ctx st \<longleftrightarrow> cl_streams (st_client st) = None \<and> dc_renderer ctx
     \<and> (case vr_device (hb_renderer (st_hub st)) of
          None \<Rightarrow> False | Some d \<Rightarrow> dv_peer d \<noteq> [] \<and> dv_peer d \<noteq> cl_ip (st_client st))"

definition stream_key :: "('k, 'd) route_env \<Rightarrow> bytes \<Rightarrow> 'd client \<Rightarrow> bytes option" where
  "stream_key rv ekey c =
     (case cl_fp c of
        None \<Rightarrow> None
      | Some fp \<Rightarrow>
          (let k = decrypt_stream_key (rv_playfair rv) ekey fp
           in if length k \<noteq> 16 then None
              else case cl_pv c of
                     None \<Rightarrow> Some k
                   | Some pv \<Rightarrow>
                       (if length (pv_ecdh pv) \<noteq> 32 then Some k
                        else case sha512_first_16 (rv_crypto rv) k (pv_ecdh pv) of None \<Rightarrow> Some k | Some h \<Rightarrow> Some h)))"

definition store_key :: "('k, 'd) route_env \<Rightarrow> setup_request \<Rightarrow> 'd client \<Rightarrow> 'd client" where
  "store_key rv q c = (case stream_key rv (sq_ekey q) c of None \<Rightarrow> c | Some k \<Rightarrow> c\<lparr>cl_key := k, cl_iv := sq_eiv q\<rparr>)"

text \<open>The two branches yield the entries of the response, or None for an answer 500.\<close>

definition session_branch :: "('k, 'd) route_env \<Rightarrow> setup_request \<Rightarrow> 'd state \<Rightarrow> (string \<times> plist) list option \<times> 'd state" where
  "session_branch rv q st =
     (if \<not> sq_has_keys q then (Some [], st)
      else if sq_remote_only q then (None, st)
      else case call_streams setup_session (on_client (store_key rv q) st) of
             (None, st2) \<Rightarrow> (None, st2)
           | (Some ports, st2) \<Rightarrow>
               (Some (add_session (snd ports)),
                if sq_timing_port q \<noteq> 0 \<and> cl_ip (st_client st2) \<noteq> []
                then pure_streams (\<lambda>s. snd (start_ntp (cl_ip (st_client st2)) (ucast (sq_timing_port q)) s)) st2 else st2))"

definition opts_for :: "device_context \<Rightarrow> 'd client \<Rightarrow> stream_request \<Rightarrow> stream_opts" where
  "opts_for ctx c q = \<lparr>so_aes_key = cl_key c, so_aes_iv = cl_iv c, so_connection = sr_connection q, so_ct = sr_ct q,
     so_rate = 44100, so_hwaccel = (case dc_live ctx of None \<Rightarrow> cl_hwaccel c | Some l \<Rightarrow> lv_hwaccel l)\<rparr>"

fun allocate_streams ::
  "('k, 'd) route_env \<Rightarrow> device_context \<Rightarrow> stream_request list \<Rightarrow> 'd state \<Rightarrow> (u16 \<times> u16) list option \<times> 'd state" where
  "allocate_streams rv ctx [] st = (Some [], st)"
| "allocate_streams rv ctx (q # qs) st =
     (case call_streams (setup_stream (rv_crypto rv) (rv_ops rv) (rv_audio rv) (sr_type q) (opts_for ctx (st_client st) q)) st of
        (None, st1) \<Rightarrow> (None, st1)
      | (Some p, st1) \<Rightarrow>
          (case allocate_streams rv ctx qs st1 of
             (None, st2) \<Rightarrow> (None, st2)
           | (Some ps, st2) \<Rightarrow> (Some (p # ps), st2)))"

definition streams_branch ::
  "('k, 'd) route_env \<Rightarrow> device_context \<Rightarrow> setup_request \<Rightarrow> 'd state \<Rightarrow> (string \<times> plist) list option \<times> 'd state" where
  "streams_branch rv ctx q st =
     (if \<not> sq_has_streams q then (Some [], st)
      else case allocate_streams rv ctx (sq_streams q) st of
             (None, st1) \<Rightarrow> (None, st1)
           | (Some ps, st1) \<Rightarrow> (Some (add_streams (sq_streams q) ps), st1))"

definition shown_device :: "setup_request \<Rightarrow> string \<Rightarrow> string \<Rightarrow> device \<Rightarrow> device" where
  "shown_device q ip sid d =
     (let types = map sr_type (sq_streams q);
          d1 = d\<lparr>dv_peer := ip, dv_session := sid, dv_name := (if sq_name q \<noteq> [] then sq_name q else dv_name d),
                 dv_model := (if sq_model q \<noteq> [] then sq_model q else dv_model d)\<rparr>
      in if 110 \<in> set types \<and> dv_kind d \<noteq> ''HLS'' then d1\<lparr>dv_kind := ''Mirror''\<rparr>
         else if 96 \<in> set types \<and> dv_kind d \<noteq> ''HLS'' \<and> dv_kind d \<noteq> ''Mirror'' then d1\<lparr>dv_kind := ''Audio''\<rparr>
         else d1)"

definition show_device :: "device_context \<Rightarrow> setup_request \<Rightarrow> 'd state \<Rightarrow> 'd state" where
  "show_device ctx q st = on_window ctx
     (\<lambda>r. set_active_device (shown_device q (cl_ip (st_client st)) (session_id_of st) (snapshot_device r)) r) st"

definition plist_reply :: "request \<Rightarrow> response" where
  "plist_reply rq = set_header ''Content-Type'' ''application/x-apple-binary-plist'' (ok_reply rq)"

definition setup_airplay2_path :: "('k, 'd) route_env \<Rightarrow> device_context \<Rightarrow> request \<Rightarrow> 'd state \<Rightarrow> response \<times> 'd state" where
  "setup_airplay2_path rv ctx rq st =
     (let lib = en_plist (rv_env rv)
      in case parse_airplay2_setup lib (rq_body rq) of
           None \<Rightarrow> (with_status 400 ''Bad Request'' (plist_reply rq), st)
         | Some q \<Rightarrow>
             (if taken_by_other ctx st
              then (set_header ''Connection'' ''close'' (with_status 503 ''Service Unavailable'' (plist_reply rq)), st)
              else case session_branch rv q (ensure_streams (set_renderer (dc_renderer ctx)) (rv_fresh rv) st) of
                     (None, st2) \<Rightarrow> (with_status 500 ''Internal Server Error'' (plist_reply rq), st2)
                   | (Some es, st2) \<Rightarrow>
                       (case streams_branch rv ctx q st2 of
                          (None, st3) \<Rightarrow> (with_status 500 ''Internal Server Error'' (plist_reply rq), st3)
                        | (Some fs, st3) \<Rightarrow>
                            (let st4 = show_device ctx q st3
                             in (set_header ''Session'' (session_id_of st4)
                                   (with_body (pl_to_bin lib (PDict (es @ fs))) (plist_reply rq)), st4)))))"

definition handle_setup :: "('k, 'd) route_env \<Rightarrow> device_context \<Rightarrow> request \<Rightarrow> 'd state \<Rightarrow> response \<times> 'd state" where
  "handle_setup rv ctx rq st =
     (if rq_body rq \<noteq> [] then setup_airplay2_path rv ctx rq st
      else if header rq ''transport'' = [] then (copy_cseq rq (make_response 400 ''Bad Request''), st)
      else setup_legacy_path rv rq st)"

section \<open>RECORD and TEARDOWN\<close>

definition handle_record :: "device_context \<Rightarrow> request \<Rightarrow> 'd state \<Rightarrow> response \<times> 'd state" where
  "handle_record ctx rq st =
     (case cl_streams (st_client st) of
        None \<Rightarrow> (with_status 455 ''Method Not Valid In This State'' (ok_reply rq), st)
      | Some s \<Rightarrow> (set_header ''Session'' (ss_id s) (ok_reply rq), on_window ctx (push_playback_rate 1) st))"

definition teardown_types :: "plist_lib \<Rightarrow> bytes \<Rightarrow> int list" where
  "teardown_types lib body =
     (if body = [] then []
      else case parse_airplay2_setup lib body of
             None \<Rightarrow> []
           | Some q \<Rightarrow> if sq_has_streams q then map sr_type (sq_streams q) else [])"

text \<open>The destructor of the stream session.\<close>

definition reset_streams :: "'d state \<Rightarrow> 'd state" where
  "reset_streams st = on_client (\<lambda>c. c\<lparr>cl_streams := None\<rparr>) (on_streams teardown st)"

definition end_playback :: "device_context \<Rightarrow> string \<Rightarrow> 'd state \<Rightarrow> 'd state" where
  "end_playback ctx sid st =
     on_hub (\<lambda>h. let h1 = player ctx [Player_stop] h
                 in if sid = [] then h1 else in_registry (set_active_session []) h1) st"

definition handle_teardown :: "('k, 'd) route_env \<Rightarrow> device_context \<Rightarrow> request \<Rightarrow> 'd state \<Rightarrow> response \<times> 'd state" where
  "handle_teardown rv ctx rq st =
     (let types = teardown_types (en_plist (rv_env rv)) (rq_body rq); sid = session_header rq
      in (set_header ''Connection'' ''close'' (ok_reply rq),
          if types \<noteq> [] \<and> cl_streams (st_client st) \<noteq> None
          then fold (\<lambda>t. on_streams (stop_stream (rv_now rv) t)) types st
          else if cl_streams (st_client st) \<noteq> None
          then end_playback ctx sid
                 (on_window ctx (\<lambda>r. clear_active_device (clear_session r))
                    (on_client (\<lambda>c. c\<lparr>cl_sdp := None\<rparr>) (reset_streams st)))
          else end_playback ctx sid st))"

section \<open>Parameters\<close>

definition handle_get_parameter :: "request \<Rightarrow> response" where
  "handle_get_parameter rq =
     with_body (if find_str ''volume'' (of_bytes (rq_body rq)) \<noteq> None then to_bytes (''volume: 0.000000'' @ crlf) else [])
       (set_header ''Content-Type'' ''text/parameters'' (ok_reply rq))"

text \<open>\<open>%llu\<close> of sscanf.\<close>

definition scan_ull :: "string \<Rightarrow> (u64 \<times> string) option" where
  "scan_ull s =
     (let t = dropWhile isspace s;
          neg = (t \<noteq> [] \<and> hd t = CHR ''-'');
          u = (if t \<noteq> [] \<and> (hd t = CHR ''-'' \<or> hd t = CHR ''+'') then tl t else t);
          ds = takeWhile isdigit u; v = dec_value ds
      in if ds = [] then None
         else Some (if v \<ge> 2 ^ 64 then -1 else if neg then - of_nat v else of_nat v, dropWhile isdigit u))"

fun slash :: "string \<Rightarrow> string option" where
  "slash (c # s) = (if c = CHR ''/'' then Some s else None)"
| "slash [] = None"

definition scan_progress :: "string \<Rightarrow> (u64 \<times> u64 \<times> u64) option" where
  "scan_progress s =
     Option.bind (scan_ull s) (\<lambda>(a, s1). Option.bind (slash s1) (\<lambda>s2.
     Option.bind (scan_ull s2) (\<lambda>(b, s3). Option.bind (slash s3) (\<lambda>s4.
     map_option (\<lambda>(c, s5). (a, b, c)) (scan_ull s4)))))"

definition ticks_to_ms :: "u64 \<Rightarrow> u32" where
  "ticks_to_ms t = ucast (t * 1000 div 44100)"

definition set_progress :: "('k, 'd) route_env \<Rightarrow> device_context \<Rightarrow> u64 \<Rightarrow> u64 \<Rightarrow> u64 \<Rightarrow> 'd state \<Rightarrow> 'd state" where
  "set_progress rv ctx start pos fin st =
     on_window ctx (push_progress (rv_now rv) (ticks_to_ms (if pos > start then pos - start else 0)) (ticks_to_ms (fin - start)))
       (on_client (\<lambda>c. c\<lparr>cl_start := start, cl_curr := pos\<rparr>) st)"

definition text_parameter :: "('k, 'd) route_env \<Rightarrow> device_context \<Rightarrow> string \<Rightarrow> 'd state \<Rightarrow> 'd state" where
  "text_parameter rv ctx body st =
     (if prefix ''volume:'' body then st
      else if prefix ''progress:'' body
      then (case scan_progress (takeWhile (\<lambda>c. c \<noteq> CHR 0x00) (drop 9 body)) of
              None \<Rightarrow> st
            | Some (start, pos, fin) \<Rightarrow> if fin \<ge> start then set_progress rv ctx start pos fin st else st)
      else if prefix ''rate:'' body
      then (case en_stof (rv_env rv) (drop 5 body) of None \<Rightarrow> st | Some rate \<Rightarrow> on_window ctx (push_playback_rate rate) st)
      else st)"

definition dmap_parameter :: "device_context \<Rightarrow> bytes \<Rightarrow> 'd state \<Rightarrow> 'd state" where
  "dmap_parameter ctx body st =
     (case parse_daap_mlit body of
        Some (True, md) \<Rightarrow>
          on_window ctx (push_metadata (dm_title md) (dm_artist md) (dm_album md))
            (if dm_title md \<noteq> []
             then pure_streams (set_audio_track (dm_title md @ [nl] @ dm_artist md @ [nl] @ dm_album md)) st else st)
      | _ \<Rightarrow> st)"

definition handle_set_parameter :: "('k, 'd) route_env \<Rightarrow> device_context \<Rightarrow> request \<Rightarrow> 'd state \<Rightarrow> response \<times> 'd state" where
  "handle_set_parameter rv ctx rq st =
     (let body = rq_body rq; ctype = header rq ''content-type''
      in (ok_reply rq,
          if body = [] then st
          else if find_str ''text/parameters'' ctype \<noteq> None \<or> ctype = []
          then text_parameter rv ctx (of_bytes (take 256 body)) st
          else if find_str ''image/'' ctype \<noteq> None
          then on_window ctx (push_cover_art body) (st\<lparr>st_cover_file := body\<rparr>)
          else if find_str ''dmap'' ctype \<noteq> None \<or> length body \<ge> 4 \<and> take 4 body = to_bytes ''mlit''
          then dmap_parameter ctx body st else st))"

section \<open>The remaining routes\<close>

definition handle_unimplemented :: "request \<Rightarrow> string \<Rightarrow> response" where
  "handle_unimplemented rq what =
     with_body (to_bytes (''TODO: '' @ what @ '' not implemented in skeleton'' @ [nl]))
       (set_header ''Content-Type'' ''text/plain'' (copy_cseq rq (make_response 501 ''Not Implemented'')))"

definition server_info_plist :: "device_context \<Rightarrow> plist" where
  "server_info_plist ctx = PDict [(''features'', PUint 0x27F), (''macAddress'', PString (dc_deviceid ctx)),
     (''deviceid'', PString (dc_deviceid ctx)), (''model'', PString (dc_model ctx)), (''osBuildVersion'', PString ''12B435''),
     (''protovers'', PString ''1.0''), (''srcvers'', PString (dc_srcvers ctx)), (''vv'', PUint 2)]"

definition handle_server_info :: "('k, 'd) route_env \<Rightarrow> device_context \<Rightarrow> request \<Rightarrow> response" where
  "handle_server_info rv ctx rq =
     set_header ''Content-Type'' ''text/x-apple-plist+xml''
       (with_body (pl_to_xml (en_plist (rv_env rv)) (server_info_plist ctx)) (ok_reply rq))"

definition handle_flush :: "('k, 'd) route_env \<Rightarrow> device_context \<Rightarrow> request \<Rightarrow> 'd state \<Rightarrow> response \<times> 'd state" where
  "handle_flush rv ctx rq st =
     (ok_reply rq,
      on_window ctx (\<lambda>r. push_playback_rate 0 (note_flush (rv_now rv) r))
        (pure_streams (flush_audio (rv_now rv) (flush_timestamp (header rq ''rtp-info''))) st))"

definition handle_audio_mode :: "('k, 'd) route_env \<Rightarrow> device_context \<Rightarrow> request \<Rightarrow> 'd state \<Rightarrow> response \<times> 'd state" where
  "handle_audio_mode rv ctx rq st =
     (handle_stream_stub rq, on_window ctx (push_playback_rate 1) (pure_streams (resume_audio (rv_now rv)) st))"

text \<open>A handler on the shared state, and one that only answers.\<close>

definition via_hub :: "(hub \<Rightarrow> response \<times> hub) \<Rightarrow> 'd state \<Rightarrow> response \<times> 'd state" where
  "via_hub f st = (let (r, h) = f (st_hub st) in (r, st\<lparr>st_hub := h\<rparr>))"

definition open_reverse :: "request \<Rightarrow> 'd state \<Rightarrow> response \<times> 'd state" where
  "open_reverse rq st =
     (let (r, st1) = via_hub (handle_reverse (cl_fd (st_client st)) rq) st; sid = session_header rq
      in (r, if sid \<noteq> [] \<and> cl_fd (st_client st) \<ge> 0 then on_client (\<lambda>c. c\<lparr>cl_reverse := sid\<rparr>) st1 else st1))"

definition options_list :: string where
  "options_list = ''ANNOUNCE, SETUP, RECORD, PAUSE, FLUSH, TEARDOWN, OPTIONS, GET_PARAMETER, SET_PARAMETER, POST, GET''"

definition route_path :: "string \<Rightarrow> string" where
  "route_path uri = takeWhile (\<lambda>c. c \<noteq> CHR ''?'') uri"

definition dispatch :: "('k, 'd) route_env \<Rightarrow> device_context \<Rightarrow> request \<Rightarrow> 'd state \<Rightarrow> response \<times> 'd state" where
  "dispatch rv ctx rq st =
     (let m = rq_method rq; p = route_path (rq_uri rq); env = rv_env rv; t = ms (rv_now rv)
      in if prefix ''HTTP/'' m then ((make_response 200 ''OK'')\<lparr>rs_silent := True\<rparr>, st)
         else if m = ''GET'' \<and> p = ''/info'' then (handle_info rv ctx rq, st)
         else if m = ''POST'' \<and> p = ''/pair-setup'' then (handle_pair_setup ctx rq, st)
         else if m = ''POST'' \<and> p = ''/pair-verify'' then handle_pair_verify rv rq st
         else if m = ''POST'' \<and> p = ''/fp-setup'' then handle_fp_setup rv rq st
         else if m = ''POST'' \<and> p = ''/auth-setup'' then (handle_unimplemented rq ''auth-setup'', st)
         else if m = ''POST'' \<and> p = ''/feedback'' then (ok_reply rq, st)
         else if m = ''OPTIONS'' then (set_header ''Public'' options_list (ok_reply rq), st)
         else if m = ''ANNOUNCE'' then handle_announce rq st
         else if m = ''SETUP'' then handle_setup rv ctx rq st
         else if m = ''RECORD'' then handle_record ctx rq st
         else if m = ''TEARDOWN'' then handle_teardown rv ctx rq st
         else if m = ''GET_PARAMETER'' then (handle_get_parameter rq, st)
         else if m = ''SET_PARAMETER'' then handle_set_parameter rv ctx rq st
         else if m = ''FLUSH'' \<or> m = ''PAUSE'' then handle_flush rv ctx rq st
         else if m = ''POST'' \<and> p = ''/rate'' then via_hub (handle_rate env ctx t rq) st
         else if m = ''POST'' \<and> p = ''/reverse'' then open_reverse rq st
         else if m = ''GET'' \<and> p = ''/server-info'' then (handle_server_info rv ctx rq, st)
         else if m = ''POST'' \<and> p = ''/audioMode'' then handle_audio_mode rv ctx rq st
         else if m = ''POST'' \<and> p = ''/play'' then via_hub (handle_play env ctx (cl_ip (st_client st)) t rq) st
         else if m = ''POST'' \<and> p = ''/action'' then via_hub (handle_action env ctx rq) st
         else if m = ''POST'' \<and> p = ''/stop'' then via_hub (handle_stop ctx t rq) st
         else if (m = ''POST'' \<or> m = ''GET'') \<and> p = ''/scrub'' then via_hub (handle_scrub env ctx t rq) st
         else if (m = ''POST'' \<or> m = ''PUT'') \<and> p = ''/setProperty'' then via_hub (handle_set_property rq) st
         else if (m = ''POST'' \<or> m = ''PUT'') \<and> p = ''/getProperty'' then (handle_get_property rq (st_hub st), st)
         else if m = ''GET'' \<and> p = ''/playback-info'' then (handle_playback_info env t rq (st_hub st), st)
         else if m = ''POST'' \<and> p = ''/command'' then (handle_stream_stub rq, st)
         else (handle_unimplemented rq ''unknown route'', st))"

section \<open>The form of the answers\<close>

definition clean_value :: "string \<Rightarrow> bool" where
  "clean_value v \<longleftrightarrow> cr \<notin> set v \<and> trim_ws v = v"

definition clean_request :: "request \<Rightarrow> bool" where
  "clean_request rq \<longleftrightarrow> (\<forall>k v. rq_headers rq k = Some v \<longrightarrow> clean_value v)"

definition reply_names :: "string list" where
  "reply_names = [''CSeq'', ''Content-Type'', ''Transport'', ''Session'', ''Connection'', ''Public'', ''Upgrade'', ''X-Apple-Session-ID'']"

definition reply_codes :: "(int \<times> string) list" where
  "reply_codes = [(200, ''OK''), (101, ''Switching Protocols''), (400, ''Bad Request''), (455, ''Method Not Valid In This State''),
     (470, ''Connection Authorization Required''), (500, ''Internal Server Error''), (501, ''Not Implemented''),
     (503, ''Service Unavailable'')]"

definition echo :: "request \<Rightarrow> string option" where
  "echo rq = (if header rq ''cseq'' = [] then None else Some (header rq ''cseq''))"

text \<open>What every answer keeps to: a known status, known headers with values that fit on a line, and the
  sequence number of the request.\<close>

definition good_reply :: "request \<Rightarrow> response \<Rightarrow> bool" where
  "good_reply rq r \<longleftrightarrow> (rs_status r, rs_text r) \<in> set reply_codes \<and> rs_version r \<in> {''RTSP/1.0'', ''HTTP/1.1''} \<and> \<not> rs_silent r
     \<and> rs_headers r ''CSeq'' = echo rq \<and> (\<forall>k v. rs_headers r k = Some v \<longrightarrow> k \<in> set reply_names \<and> clean_value v)"

named_theorems reply

lemma clean_constants [reply]:
  "clean_value ''application/x-apple-binary-plist''" "clean_value ''text/plain''" "clean_value ''application/octet-stream''"
  "clean_value ''text/parameters''" "clean_value ''text/x-apple-plist+xml''" "clean_value ''close''" "clean_value ''Upgrade''"
  "clean_value ''PTTH/1.0''" "clean_value options_list" "clean_value []"
  by code_simp+

lemma clean_header [reply]: "clean_request rq \<Longrightarrow> clean_value (header rq k)"
  by (auto simp: header_def clean_request_def clean_constants split: option.split)

lemma clean_word: "word_ok w \<Longrightarrow> clean_value w"
  using word_ok_no_cr [of w] trim_ws_word [of w] by (auto simp: clean_value_def cr_def)

lemma clean_transport [reply]: "clean_value (transport_line p)"
  by (rule clean_word) (auto simp: word_ok_def transport_line_def isdigit_not_isspace dest!: show_nat_digits; simp add: isspace_def)

lemma good_base:
  assumes "clean_request rq" "(code, txt) \<in> set reply_codes"
  shows "good_reply rq (copy_cseq rq (make_response code txt))"
  using assms clean_header [of rq "''cseq''"]
  by (auto simp: good_reply_def copy_cseq_def make_response_def new_response_def set_header_def echo_def reply_names_def Let_def)

lemma good_ok [reply]: "clean_request rq \<Longrightarrow> good_reply rq (ok_reply rq)"
  by (rule good_base) (simp_all add: reply_codes_def)

lemma good_set [reply]:
  "good_reply rq r \<Longrightarrow> clean_value v \<Longrightarrow> k \<in> set reply_names \<Longrightarrow> k \<noteq> ''CSeq'' \<Longrightarrow> good_reply rq (set_header k v r)"
  by (auto simp: good_reply_def set_header_def)

lemma good_status [reply]: "good_reply rq r \<Longrightarrow> (code, txt) \<in> set reply_codes \<Longrightarrow> good_reply rq (with_status code txt r)"
  by (simp add: good_reply_def with_status_def)

lemma good_body [reply]: "good_reply rq r \<Longrightarrow> good_reply rq (with_body b r)" "good_reply rq r \<Longrightarrow> good_reply rq (r\<lparr>rs_body := b\<rparr>)"
  by (simp_all add: good_reply_def with_body_def)

lemma good_octets [reply]: "clean_request rq \<Longrightarrow> good_reply rq (octets rq)" "clean_request rq \<Longrightarrow> good_reply rq (plist_reply rq)"
  by (simp_all add: octets_def plist_reply_def good_set good_ok clean_constants reply_names_def)

lemma good_unimplemented [reply]: "clean_request rq \<Longrightarrow> good_reply rq (handle_unimplemented rq w)"
  unfolding handle_unimplemented_def
  by (intro good_body good_set good_base) (simp_all add: reply_codes_def reply_names_def clean_constants)

lemmas good_simps = reply reply_names_def reply_codes_def

lemma good_identification [reply]:
  "clean_request rq \<Longrightarrow> good_reply rq (handle_info rv ctx rq)"
  "clean_request rq \<Longrightarrow> good_reply rq (handle_pair_setup ctx rq)"
  "clean_request rq \<Longrightarrow> good_reply rq (fst (handle_pair_verify rv rq st))"
  "clean_request rq \<Longrightarrow> good_reply rq (fst (handle_fp_setup rv rq st))"
  "clean_request rq \<Longrightarrow> good_reply rq (fst (handle_announce rq st))"
  "clean_request rq \<Longrightarrow> good_reply rq (handle_server_info rv ctx rq)"
  "clean_request rq \<Longrightarrow> good_reply rq (handle_get_parameter rq)"
  by (auto simp: handle_info_def handle_pair_setup_def handle_pair_verify_def handle_fp_setup_def handle_announce_def
      handle_server_info_def handle_get_parameter_def good_simps Let_def split: option.split prod.split)

lemma good_hls [reply]:
  "clean_request rq \<Longrightarrow> good_reply rq (handle_stream_stub rq)"
  "clean_request rq \<Longrightarrow> good_reply rq (handle_get_property rq h)"
  "clean_request rq \<Longrightarrow> good_reply rq (handle_playback_info env t rq h)"
  "clean_request rq \<Longrightarrow> good_reply rq (fst (handle_play env ctx ip t rq h))"
  "clean_request rq \<Longrightarrow> good_reply rq (fst (handle_action env ctx rq h))"
  "clean_request rq \<Longrightarrow> good_reply rq (fst (handle_stop ctx t rq h))"
  "clean_request rq \<Longrightarrow> good_reply rq (fst (handle_scrub env ctx t rq h))"
  "clean_request rq \<Longrightarrow> good_reply rq (fst (handle_rate env ctx t rq h))"
  "clean_request rq \<Longrightarrow> good_reply rq (fst (handle_set_property rq h))"
  by (auto simp: handle_stream_stub_def handle_get_property_def handle_playback_info_def handle_play_def handle_action_def
      handle_stop_def handle_scrub_def handle_rate_def handle_set_property_def good_simps Let_def split: option.split)

lemma good_reverse [reply]: "clean_request rq \<Longrightarrow> good_reply rq (fst (handle_reverse fd rq h))"
proof -
  assume c: "clean_request rq"
  have "good_reply rq (copy_cseq rq ((make_response 101 ''Switching Protocols'')\<lparr>rs_version := ''HTTP/1.1''\<rparr>))"
    using c clean_header [of rq "''cseq''"]
    by (auto simp: good_reply_def copy_cseq_def make_response_def new_response_def set_header_def echo_def reply_names_def
        reply_codes_def Let_def)
  then show ?thesis
    using c by (auto simp: handle_reverse_def session_header_def Let_def good_simps)
qed

lemma fst_via_hub [simp]: "fst (via_hub f st) = fst (f (st_hub st))"
  by (simp add: via_hub_def split: prod.split)

text \<open>The id of a stream session never changes.\<close>

lemma id_drop [simp]: "ss_id (fst (drop_mirror s k)) = ss_id s" "ss_id (fst (drop_audio s k)) = ss_id s"
  by (auto simp: drop_mirror_def drop_audio_def split: option.split)

lemma id_teardown: "ss_id (fst (teardown s k)) = ss_id s"
  by (simp add: teardown_def drop_mirror_def drop_audio_def Let_def split: option.split)

lemma id_bind_into: "bind_into b put s k = (r, s', k') \<Longrightarrow> (\<And>h s. ss_id (put h s) = ss_id s) \<Longrightarrow> ss_id s' = ss_id s"
  by (auto simp: bind_into_def split: if_splits option.splits prod.splits)

lemma id_setup_legacy: "setup_legacy tr s k = (r, s', k') \<Longrightarrow> ss_id s' = ss_id s"
  by (auto simp: setup_legacy_def Let_def dest!: id_bind_into split: option.splits prod.splits)
    (metis fst_conv id_teardown)+

lemma id_setup_session: "setup_session s k = (r, s', k') \<Longrightarrow> ss_id s' = ss_id s"
  by (auto simp: setup_session_def split: option.splits prod.splits)

lemma id_small [simp]:
  "ss_id (add_channel c s) = ss_id s" "ss_id (with_audio f s) = ss_id s" "ss_id (snd (start_ntp ip port s)) = ss_id s"
  "ss_id (set_renderer b s) = ss_id s"
  by (simp_all add: add_channel_def with_audio_def start_ntp_def set_renderer_def Let_def split: prod.split)

lemma id_start_receiver: "start_receiver env opts d c s k = (s', k') \<Longrightarrow> ss_id s' = ss_id s"
  by (auto simp: start_receiver_def Let_def split: if_splits prod.splits)

lemma id_setup_stream: "setup_stream cy ops env t opts s k = (r, s', k') \<Longrightarrow> ss_id s' = ss_id s"
proof (cases "t = 110")
  case True
  assume "setup_stream cy ops env t opts s k = (r, s', k')"
  then have "setup_mirror cy ops env opts s k = (r, s', k')" using True by (simp add: setup_stream_def)
  moreover obtain s1 k1 where d: "drop_mirror s k = (s1, k1)" by fastforce
  moreover have "ss_id s1 = ss_id s" using id_drop(1) [of s k] d by simp
  ultimately show ?thesis by (auto simp: setup_mirror_def Let_def split: option.splits prod.splits)
next
  case False
  assume "setup_stream cy ops env t opts s k = (r, s', k')"
  then have u: "setup_udp env t opts s k = (r, s', k')" using False by (simp add: setup_stream_def)
  show ?thesis
  proof (cases "t = 96")
    case True
    have "drop_audio s k2 = (s1, k3) \<Longrightarrow> ss_id s1 = ss_id s" for k2 s1 k3 using id_drop(2) [of s k2] by simp
    then show ?thesis using u True
      by (auto simp: setup_udp_def Let_def dest!: id_start_receiver split: option.splits prod.splits)
  next
    case False
    then show ?thesis using u by (auto simp: setup_udp_def Let_def split: option.splits prod.splits)
  qed
qed

definition clean_session :: "'d state \<Rightarrow> bool" where
  "clean_session st \<longleftrightarrow> clean_value (session_id_of st)"

lemma session_of_on_client [simp]:
  "session_id_of (on_client f st) = (case cl_streams (f (st_client st)) of None \<Rightarrow> [] | Some s \<Rightarrow> ss_id s)"
  "session_id_of (st\<lparr>st_kernel := k\<rparr>) = session_id_of st" "session_id_of (on_window ctx g st) = session_id_of st"
  by (simp_all add: session_id_of_def on_client_def on_window_def on_hub_def)

lemma session_call_streams:
  assumes "call_streams f st = (r, st')" "\<And>s k r s' k'. f s k = (r, s', k') \<Longrightarrow> ss_id s' = ss_id s"
  shows "session_id_of st' = session_id_of st"
  using assms(1) by (auto simp: call_streams_def session_id_of_def on_client_def dest: assms(2) split: option.splits prod.splits)

lemma session_ensure: "clean_session st \<Longrightarrow> clean_value fresh \<Longrightarrow> (\<And>s. ss_id (f s) = ss_id s) \<Longrightarrow> clean_session (ensure_streams f fresh st)"
  by (auto simp: clean_session_def ensure_streams_def new_streams_def)

lemma session_pure: "(\<And>s. ss_id (f s) = ss_id s) \<Longrightarrow> session_id_of (pure_streams f st) = session_id_of st"
  by (simp add: pure_streams_def on_streams_def session_id_of_def on_client_def split: option.split)

lemma session_store_key [simp]: "cl_streams (store_key rv q c) = cl_streams c"
  by (simp add: store_key_def split: option.split)

lemma session_same_streams:
  "cl_streams (f (st_client st)) = cl_streams (st_client st) \<Longrightarrow> session_id_of (on_client f st) = session_id_of st"
  by (simp add: session_id_of_def on_client_def)

lemma session_session_branch: "session_branch rv q st = (r, st') \<Longrightarrow> session_id_of st' = session_id_of st"
  by (auto simp: session_branch_def session_pure session_same_streams simp del: session_of_on_client(1)
      dest!: session_call_streams [OF _ id_setup_session] split: if_splits option.splits prod.splits)

lemma session_allocate: "allocate_streams rv ctx qs st = (r, st') \<Longrightarrow> session_id_of st' = session_id_of st"
  by (induction rv ctx qs st arbitrary: r st' rule: allocate_streams.induct)
    (auto dest!: session_call_streams [OF _ id_setup_stream] split: option.splits prod.splits)

lemma session_streams_branch: "streams_branch rv ctx q st = (r, st') \<Longrightarrow> session_id_of st' = session_id_of st"
  by (auto simp: streams_branch_def dest!: session_allocate split: if_splits option.splits prod.splits)

lemma good_setup [reply]:
  assumes "clean_request rq" "clean_session st" "clean_value (rv_fresh rv)"
  shows "good_reply rq (fst (handle_setup rv ctx rq st))"
proof -
  have legacy: "good_reply rq (fst (setup_legacy_path rv rq st))"
  proof (cases "call_streams (setup_legacy (header rq ''transport'')) (ensure_streams id (rv_fresh rv) st)")
    case (Pair r st2)
    have "session_id_of st2 = session_id_of (ensure_streams id (rv_fresh rv) st)"
      using session_call_streams [OF Pair id_setup_legacy] .
    then have "clean_value (session_id_of st2)"
      using session_ensure [OF assms(2,3), of id] by (simp add: clean_session_def)
    then show ?thesis using assms(1) Pair by (auto simp: setup_legacy_path_def good_simps split: option.split)
  qed
  have "good_reply rq (fst (setup_airplay2_path rv ctx rq st))"
  proof -
    let ?st = "ensure_streams (set_renderer (dc_renderer ctx)) (rv_fresh rv) st"
    have e: "clean_value (session_id_of ?st)"
      using session_ensure [OF assms(2,3), of "set_renderer (dc_renderer ctx)"] by (simp add: clean_session_def)
    have "clean_value (session_id_of st3)"
      if "session_branch rv q ?st = (es, st2)" "streams_branch rv ctx q st2 = (fs, st3)" for q es st2 fs st3
      using session_session_branch [OF that(1)] session_streams_branch [OF that(2)] e by simp
    then show ?thesis
      using assms(1) by (auto simp: setup_airplay2_path_def show_device_def good_simps Let_def split: option.split prod.split)
  qed
  then show ?thesis using legacy assms(1) by (auto simp: handle_setup_def good_simps good_base)
qed

lemma good_dispatch:
  assumes "clean_request rq" "clean_session st" "clean_value (rv_fresh rv)" "\<not> prefix ''HTTP/'' (rq_method rq)"
  shows "good_reply rq (fst (dispatch rv ctx rq st))"
proof -
  have "clean_value (session_id_of st)" using assms(2) by (simp add: clean_session_def)
  then have rest: "good_reply rq (fst (handle_record ctx rq st))" "good_reply rq (fst (handle_teardown rv ctx rq st))"
      "good_reply rq (fst (handle_set_parameter rv ctx rq st))" "good_reply rq (fst (handle_flush rv ctx rq st))"
      "good_reply rq (fst (handle_audio_mode rv ctx rq st))" "good_reply rq (fst (open_reverse rq st))"
      "good_reply rq (set_header ''Public'' options_list (ok_reply rq))"
    using assms(1)
    by (auto simp: handle_record_def handle_teardown_def handle_set_parameter_def handle_flush_def handle_audio_mode_def
        open_reverse_def session_id_of_def good_simps reply Let_def case_prod_unfold split: option.split)
  show ?thesis
    unfolding dispatch_def Let_def using assms by (simp add: rest reply)
qed

lemma reply_codes_words:
  "list_all (\<lambda>(c, txt). word_ok (takeWhile (\<lambda>c. c \<noteq> CHR '' '') txt) \<and> cr \<notin> set (dropWhile (\<lambda>c. c \<noteq> CHR '' '') txt)
     \<and> (dropWhile (\<lambda>c. c \<noteq> CHR '' '') txt = [] \<or> isspace (hd (dropWhile (\<lambda>c. c \<noteq> CHR '' '') txt)))) reply_codes"
  by code_simp

lemma reply_names_clean:
  "list_all (\<lambda>k. k \<noteq> [] \<and> CHR '':'' \<notin> set k \<and> cr \<notin> set k \<and> trim_ws k = k \<and> (''cseq'' = to_lower k) = (k = ''CSeq'')) reply_names"
  by code_simp

lemma header_map_cseq:
  "distinct (map fst hs) \<Longrightarrow> list_all (\<lambda>kv. fst kv \<in> set reply_names) hs \<Longrightarrow> header_map hs ''cseq'' = map_of hs ''CSeq''"
proof (induction hs rule: rev_induct)
  case Nil
  then show ?case by (simp add: header_map_def)
next
  case (snoc kv hs)
  obtain k v where kv: "kv = (k, v)" by fastforce
  have l: "(''cseq'' = to_lower k) = (k = ''CSeq'')"
    using snoc.prems(2) reply_names_clean by (simp add: list_all_iff kv)
  have ih: "header_map hs ''cseq'' = map_of hs ''CSeq''" using snoc by simp
  have "header_map (hs @ [kv]) ''cseq'' = (if k = ''CSeq'' then Some v else map_of hs ''CSeq'')"
    unfolding header_map_snoc kv fst_conv snd_conv fun_upd_apply l ih ..
  moreover have "k = ''CSeq'' \<Longrightarrow> map_of hs ''CSeq'' = None"
    using snoc.prems(1) by (auto simp: kv map_of_eq_None_iff)
  then have "map_of (hs @ [kv]) ''CSeq'' = (if k = ''CSeq'' then Some v else map_of hs ''CSeq'')"
    by (cases "k = ''CSeq''") (simp_all add: kv map_add_def split: option.split)
  ultimately show ?case by simp
qed

lemma good_reply_parses:
  assumes g: "good_reply rq r" and hs: "distinct (map fst hs)" "map_of hs = rs_headers r" and b: "length (rs_body r) < 2 ^ 32"
  shows "\<exists>q. parse_message (serialize hs r @ rest) = Some (q, rest) \<and> rq_body q = rs_body r
    \<and> rq_uri q = show_int (rs_status r) \<and> rq_headers q ''cseq'' = echo rq"
proof -
  have field: "fst kv \<in> set reply_names \<and> clean_value (snd kv)" if "kv \<in> set hs" for kv
  proof -
    have "rs_headers r (fst kv) = Some (snd kv)"
      using hs that by (metis map_of_eq_Some_iff prod.collapse)
    then show ?thesis using g by (auto simp: good_reply_def)
  qed
  then have clean: "\<forall>kv \<in> set hs. clean_field kv"
    using reply_names_clean by (auto simp: clean_field_def clean_value_def list_all_iff)
  let ?t = "takeWhile (\<lambda>c. c \<noteq> CHR '' '') (rs_text r)" and ?tr = "dropWhile (\<lambda>c. c \<noteq> CHR '' '') (rs_text r)"
  have code: "(rs_status r, rs_text r) \<in> set reply_codes" using g by (simp add: good_reply_def)
  then have t: "word_ok ?t" "cr \<notin> set ?tr" "?tr \<noteq> [] \<Longrightarrow> isspace (hd ?tr)"
    using reply_codes_words by (auto simp: list_all_iff)
  have v: "word_ok (rs_version r)" using g by (auto simp: good_reply_def word_ok_def isspace_def)
  have m: "header_map hs ''cseq'' = echo rq"
    using header_map_cseq [OF hs(1)] field hs(2) g by (auto simp: list_all_iff good_reply_def)
  have "to_lower ''Content-Length'' \<noteq> ''cseq''" by simp
  then show ?thesis
    using parse_message_serialize [OF clean v, of ?t ?tr rest] t b m
    by (simp add: header_map_snoc length_field_def)
qed

section \<open>Properties\<close>

text \<open>C17: Whatever the request, the state and the outcome of every call, the answer of the dispatcher
  has one of the eight status lines, known headers whose values fit on a line, and the CSeq of
  the request and no other; it is not sent only for the responses of the phone.\<close>

theorem dispatch_reply_typed:
  assumes "clean_request rq" and "clean_session st" and "clean_value (rv_fresh rv)" and "r = fst (dispatch rv ctx rq st)"
  shows "if prefix ''HTTP/'' (rq_method rq) then rs_silent r else good_reply rq r"
  using assms good_dispatch [OF assms(1-3)] by (auto simp: dispatch_def)

text \<open>C16: So the client of a connection can read every answer off the stream: framing it by its own
  Content-Length gives the status, the body and the sequence number, and what follows is left,
  for every order in which the header map is iterated.\<close>

theorem dispatch_reply_framed:
  assumes "clean_request rq" and "clean_session st" and "clean_value (rv_fresh rv)" and "\<not> prefix ''HTTP/'' (rq_method rq)"
    and "r = fst (dispatch rv ctx rq st)" and "distinct (map fst hs)" and "map_of hs = rs_headers r"
    and "length (rs_body r) < 2 ^ 32"
  shows "\<exists>q. parse_message (serialize hs r @ rest) = Some (q, rest) \<and> rq_body q = rs_body r
    \<and> rq_uri q = show_int (rs_status r) \<and> rq_headers q ''cseq'' = echo rq"
  using good_reply_parses [OF _ assms(6-8)] good_dispatch [OF assms(1-4)] assms(5) by simp

text \<open>While the window shows a device of another address, the AirPlay 2 SETUP of a new client is
  refused with 503, and nothing changes: no session, no socket, no key, no entry of the window.\<close>

theorem second_device_refused:
  assumes "rq_method rq = ''SETUP''" and "parse_airplay2_setup (en_plist (rv_env rv)) (rq_body rq) = Some q"
    and "cl_streams (st_client st) = None" and "dc_renderer ctx"
    and "vr_device (hb_renderer (st_hub st)) = Some d" and "dv_peer d \<noteq> []" and "dv_peer d \<noteq> cl_ip (st_client st)"
  shows "snd (dispatch rv ctx rq st) = st \<and> rs_status (fst (dispatch rv ctx rq st)) = 503
    \<and> rs_headers (fst (dispatch rv ctx rq st)) ''Connection'' = Some ''close''"
proof -
  have b: "rq_body rq \<noteq> []" using assms(2) by (auto simp: parse_airplay2_setup_def)
  have "taken_by_other ctx st" using assms by (simp add: taken_by_other_def)
  then have "handle_setup rv ctx rq st
      = (set_header ''Connection'' ''close'' (with_status 503 ''Service Unavailable'' (plist_reply rq)), st)"
    using b assms(2) by (simp add: handle_setup_def setup_airplay2_path_def)
  then show ?thesis using assms(1) by (simp add: dispatch_def set_header_def with_status_def)
qed

text \<open>The guard asks only for the first SETUP of a connection: a legacy SETUP, which is not guarded,
  lets the next one through.\<close>

lemma legacy_setup_bypasses_guard:
  assumes "snd (setup_legacy_path rv rq st) = st'"
  shows "\<not> taken_by_other ctx st'"
proof -
  let ?st = "ensure_streams id (rv_fresh rv) st"
  have "cl_streams (st_client ?st) \<noteq> None" by (auto simp: ensure_streams_def on_client_def)
  moreover have "cl_streams (st_client st2) \<noteq> None"
    if "call_streams (setup_legacy t) ?st = (r, st2)" for t r st2
    using that \<open>cl_streams (st_client ?st) \<noteq> None\<close>
    by (auto simp: call_streams_def on_client_def split: option.splits prod.splits)
  ultimately show ?thesis
    using assms by (auto simp: setup_legacy_path_def taken_by_other_def split: option.splits prod.splits)
qed

text \<open>A body without content type is text: the test for a body that begins with mlit, meant for a
  missing header, is never reached then.\<close>

lemma dmap_without_type_ignored:
  assumes "header rq ''content-type'' = []" "rq_body rq = to_bytes (''mlit'' @ r)"
  shows "snd (handle_set_parameter rv ctx rq st) = st"
proof -
  obtain b where b: "take 256 (rq_body rq) = to_bytes (''mlit'' @ b)"
    using assms(2) by (auto simp: to_bytes_def take_map)
  then have "of_bytes (take 256 (rq_body rq)) = ''mlit'' @ b" by simp
  moreover have "text_parameter rv ctx (''mlit'' @ b) st = st" by (simp add: text_parameter_def)
  moreover have "rq_body rq \<noteq> []" using assms(2) by (simp add: to_bytes_def)
  ultimately show ?thesis using assms(1) by (simp add: handle_set_parameter_def Let_def del: append.simps)
qed

text \<open>An HLS playback names the device by the id of the HLS session, not of the stream session.\<close>

lemma play_renames_device:
  assumes "playable (rv_env rv) (st_hub st) rq = Some pr" "dc_renderer ctx"
  shows "map_option dv_session (vr_device (hb_renderer (snd (handle_play (rv_env rv) ctx ip t rq (st_hub st))))) = Some (session_header rq)"
  using assms by (simp add: handle_play_def window_def hls_device_def set_active_device_def Let_def)

section \<open>Witnesses\<close>

definition sample_rv :: "(nat, nat) route_env" where
  "sample_rv = \<lparr>rv_env = \<lparr>en_plist = \<lparr>pl_from_bin = (\<lambda>_. Some (PDict [(''streams'', PArray [])])), pl_to_bin = (\<lambda>_. [1]),
       pl_to_xml = (\<lambda>_. [1])\<rparr>, en_stod = (\<lambda>_. None), en_stof = (\<lambda>_. None), en_send = (\<lambda>_ _. True)\<rparr>,
     rv_crypto = plain_crypto, rv_ops = counting_decoder, rv_audio = sample_env, rv_blobs = sample_blobs,
     rv_playfair = None, rv_key = None, rv_now = 0, rv_fresh = ''1''\<rparr>"

definition route_context :: device_context where
  "route_context = \<lparr>dc_name = ''r'', dc_deviceid = [], dc_model = [], dc_pi = [], dc_features = [], dc_srcvers = [],
     dc_public_key = [], dc_renderer = True, dc_player = True, dc_hls_port = 7100, dc_width = 0, dc_height = 0,
     dc_hwaccel = False, dc_live = None\<rparr>"

definition route_hub :: hub where
  "route_hub = \<lparr>hb_registry = empty_registry, hb_reverse = Map.empty, hb_player = [],
     hb_renderer = set_active_device (no_device\<lparr>dv_peer := ''10.0.0.9''\<rparr>) new_renderer\<rparr>"

definition route_state :: "nat state" where
  "route_state = \<lparr>st_client = new_client ''10.0.0.2'' 5 True, st_hub = route_hub, st_kernel = boot all_ok, st_cover_file = []\<rparr>"

definition route_request :: "string \<Rightarrow> request" where
  "route_request m = empty_request\<lparr>rq_method := m, rq_headers := [''cseq'' \<mapsto> ''7''], rq_body := replicate 8 0\<rparr>"

lemma route_clean: "clean_request (route_request m)" "clean_session route_state" "clean_value (rv_fresh sample_rv)"
proof -
  have "clean_value ''7''" "clean_value ''1''" "clean_value []" by code_simp+
  then show "clean_request (route_request m)" "clean_session route_state" "clean_value (rv_fresh sample_rv)"
    by (simp_all add: clean_request_def route_request_def clean_session_def session_id_of_def route_state_def new_client_def
        sample_rv_def)
qed

lemma route_cseq: "header (route_request m) ''cseq'' = ''7''"
proof -
  have "to_lower ''cseq'' = ''cseq''" by code_simp
  then show ?thesis by (simp add: header_def route_request_def)
qed

theorem dispatch_reply_typed_witness:
  "good_reply (route_request ''OPTIONS'') (fst (dispatch sample_rv route_context (route_request ''OPTIONS'') route_state))"
  using dispatch_reply_typed [OF route_clean refl, of "''OPTIONS''" route_context] by (simp add: route_request_def)

theorem dispatch_reply_framed_witness:
  "\<exists>q. parse_message (serialize [(''Public'', options_list), (''CSeq'', ''7'')]
      (fst (dispatch sample_rv route_context (route_request ''OPTIONS'') route_state)) @ ''rest'') = Some (q, ''rest'')
    \<and> rq_headers q ''cseq'' = Some ''7''"
proof -
  have r: "fst (dispatch sample_rv route_context (route_request ''OPTIONS'') route_state)
      = set_header ''Public'' options_list (ok_reply (route_request ''OPTIONS''))"
    by (simp add: dispatch_def route_request_def)
  have h: "map_of [(''Public'', options_list), (''CSeq'', ''7'')]
      = rs_headers (fst (dispatch sample_rv route_context (route_request ''OPTIONS'') route_state))"
    unfolding r by (simp add: set_header_def copy_cseq_def route_cseq make_response_def new_response_def fun_upd_twist)
  have b: "length (rs_body (fst (dispatch sample_rv route_context (route_request ''OPTIONS'') route_state))) < 2 ^ 32"
    unfolding r by (simp add: set_header_def copy_cseq_def route_cseq make_response_def new_response_def)
  have m: "\<not> prefix ''HTTP/'' (rq_method (route_request ''OPTIONS''))" by (simp add: route_request_def)
  show ?thesis
    using dispatch_reply_framed [OF route_clean m refl _ h b, of "''rest''"] by (auto simp: echo_def route_cseq)
qed

theorem second_device_refused_witness:
  "snd (dispatch sample_rv route_context (route_request ''SETUP'') route_state) = route_state
    \<and> rs_status (fst (dispatch sample_rv route_context (route_request ''SETUP'') route_state)) = 503"
proof -
  have "parse_airplay2_setup (en_plist (rv_env sample_rv)) (rq_body (route_request ''SETUP''))
      = Some (empty_setup\<lparr>sq_has_streams := True\<rparr>)"
    by (simp add: parse_airplay2_setup_def sample_rv_def route_request_def read_setup_def getters empty_setup_def List.map_filter_simps)
  then show ?thesis
    using second_device_refused [where rv = sample_rv and rq = "route_request ''SETUP''" and ctx = route_context and st = route_state]
    by (simp add: route_request_def route_state_def new_client_def route_context_def route_hub_def set_active_device_def)
qed

end
