(* ===== verification/TcpServer.thy ===== *)
theory TcpServer
  imports Sockets "HOL-Library.Multiset"
begin

text \<open>
  The TCP server of src/net/tcp_server.cpp: the listener, the text by which a peer is named, and the
  threads that share its state, as steps over one state. The accept thread takes a connection in
  three steps (the call returns, the block under \<open>clients_mtx_\<close>, the new worker); a worker leaves in
  two (the block under the lock, the flag \<open>finished\<close>); the thread that disconnects or stops moves
  through \<open>caller\<close>. A descriptor that is closed may be handed out again at once, so the invariant says
  that a shutdown and a close only ever meet the descriptor of the connection they are meant for.
\<close>

section \<open>The listener\<close>

text \<open>What the calls of \<open>start\<close> answer.\<close>

record tcp_answers =
  ta_v6 :: bool
  ta_v4 :: bool
  ta_bind :: bool
  ta_listen :: bool
  ta_name :: bool
  ta_port :: u16

text \<open>A thread that has taken a connection and not yet started its worker, a worker, and the place at
  which the thread stands that disconnects all clients or stops the server.\<close>

datatype pending = Nothing_pending | Accepted sock | Admitted sock nat

record worker =
  wk_fd :: sock
  wk_flag :: nat
  wk_released :: bool
  wk_finished :: bool

datatype caller = Calm | Draining | Joining_accept | Stop_draining | Joining_workers

record tcp =
  tc_listener :: "sock option"
  tc_port :: u16
  tc_running :: bool
  tc_accepting :: bool
  tc_disconnecting :: bool
  tc_active :: "(sock \<times> nat) list"
  tc_cancelled :: "nat list"
  tc_shut :: "sock list"
  tc_next_flag :: nat
  tc_pending :: pending
  tc_workers :: "worker list"
  tc_caller :: caller
  tc_open :: "sock list"
  tc_bad :: "sock list"

definition idle_tcp :: tcp where
  "idle_tcp = \<lparr>tc_listener = None, tc_port = 0, tc_running = False, tc_accepting = False, tc_disconnecting = False,
     tc_active = [], tc_cancelled = [], tc_shut = [], tc_next_flag = 0, tc_pending = Nothing_pending, tc_workers = [],
     tc_caller = Calm, tc_open = [], tc_bad = []\<rparr>"

text \<open>The descriptor is chosen by the kernel: any that is not open.\<close>

definition start_tcp :: "tcp_answers \<Rightarrow> sock \<Rightarrow> tcp \<Rightarrow> bool \<times> tcp" where
  "start_tcp a h s =
     (if tc_running s then (False, s)
      else if \<not> ta_v6 a \<and> \<not> ta_v4 a then (False, s\<lparr>tc_listener := None\<rparr>)
      else if \<not> ta_bind a \<or> \<not> ta_listen a \<or> \<not> ta_name a then (False, s\<lparr>tc_listener := None\<rparr>)
      else (True, s\<lparr>tc_listener := Some h, tc_port := ta_port a, tc_running := True, tc_accepting := True,
                    tc_open := h # tc_open s\<rparr>))"

section \<open>The name of a peer\<close>

datatype address = In4 bytes u16 | In6 bytes u16 | Other_family

definition dotted :: "bytes \<Rightarrow> string" where
  "dotted b = concat (map (\<lambda>i. (if i = 0 then [] else ''.'') @ show_nat (unat (b ! i))) [0..<length b])"

definition v4_mapped :: "bytes \<Rightarrow> bool" where
  "v4_mapped b \<longleftrightarrow> take 12 b = replicate 10 0 @ [0xFF, 0xFF]"

text \<open>\<open>ntop6\<close> is \<open>inet_ntop\<close> for IPv6.\<close>

definition peer_name :: "(bytes \<Rightarrow> string) \<Rightarrow> address \<Rightarrow> string" where
  "peer_name ntop6 a =
     (case a of
        In6 b port \<Rightarrow>
          (if v4_mapped b then dotted (drop 12 b) @ '':'' @ show_nat (unat port)
           else ''['' @ ntop6 b @ '']:'' @ show_nat (unat port))
      | In4 b port \<Rightarrow> dotted b @ '':'' @ show_nat (unat port)
      | Other_family \<Rightarrow> '':'' @ show_nat 0)"

lemma dotted_chars: "c \<in> set (dotted b) \<Longrightarrow> isdigit c \<or> c = CHR ''.''"
  by (auto simp: dotted_def split: if_splits dest: show_nat_digits)

section \<open>The steps\<close>

definition close_fd :: "sock \<Rightarrow> tcp \<Rightarrow> tcp" where
  "close_fd h s =
     (if h \<in> set (tc_open s) then s\<lparr>tc_open := removeAll h (tc_open s), tc_shut := removeAll h (tc_shut s)\<rparr>
      else s\<lparr>tc_bad := h # tc_bad s\<rparr>)"

text \<open>The accept loop: a call that returns a connection, a call that fails and ends the loop, the test
  at the head of the loop; then the block under the lock, and the worker, before which the finished
  workers are joined.\<close>

definition accept_fails :: "tcp \<Rightarrow> tcp" where
  "accept_fails s = s\<lparr>tc_accepting := False\<rparr>"

definition accept_returns :: "sock \<Rightarrow> tcp \<Rightarrow> tcp" where
  "accept_returns fd s = s\<lparr>tc_open := fd # tc_open s, tc_pending := Accepted fd\<rparr>"

definition emplace :: "'a \<Rightarrow> 'b \<Rightarrow> ('a \<times> 'b) list \<Rightarrow> ('a \<times> 'b) list" where
  "emplace k v al = (if map_of al k = None then al @ [(k, v)] else al)"

definition admit :: "sock \<Rightarrow> tcp \<Rightarrow> tcp" where
  "admit fd s =
     (if \<not> tc_running s \<or> tc_disconnecting s then close_fd fd (s\<lparr>tc_pending := Nothing_pending\<rparr>)
      else s\<lparr>tc_active := emplace fd (tc_next_flag s) (tc_active s), tc_next_flag := tc_next_flag s + 1,
             tc_pending := Admitted fd (tc_next_flag s)\<rparr>)"

definition reap :: "worker list \<Rightarrow> worker list" where
  "reap ws = filter (\<lambda>w. \<not> wk_finished w) ws"

definition spawn :: "sock \<Rightarrow> nat \<Rightarrow> tcp \<Rightarrow> tcp" where
  "spawn fd f s =
     s\<lparr>tc_workers := reap (tc_workers s) @ [\<lparr>wk_fd = fd, wk_flag = f, wk_released = False, wk_finished = False\<rparr>],
       tc_pending := Nothing_pending\<rparr>"

text \<open>A worker whose handler has returned.\<close>

definition release :: "nat \<Rightarrow> tcp \<Rightarrow> tcp" where
  "release i s =
     (let w = tc_workers s ! i; s1 = close_fd (wk_fd w) s
      in s1\<lparr>tc_active := filter (\<lambda>(fd, _). fd \<noteq> wk_fd w) (tc_active s1), tc_workers := (tc_workers s1)[i := w\<lparr>wk_released := True\<rparr>]\<rparr>)"

definition finish :: "nat \<Rightarrow> tcp \<Rightarrow> tcp" where
  "finish i s = s\<lparr>tc_workers := (tc_workers s)[i := (tc_workers s ! i)\<lparr>wk_finished := True\<rparr>]\<rparr>"

text \<open>\<open>close_all_clients\<close> up to its wait (every client in the table gets its flag set and its socket shut
  down), and from the wait to its end; \<open>stop\<close> around it.\<close>

definition begin_drain :: "caller \<Rightarrow> tcp \<Rightarrow> tcp" where
  "begin_drain c s =
     s\<lparr>tc_disconnecting := True, tc_cancelled := map snd (tc_active s) @ tc_cancelled s,
       tc_shut := map fst (tc_active s) @ tc_shut s, tc_caller := c\<rparr>"

definition end_drain :: "caller \<Rightarrow> tcp \<Rightarrow> tcp" where
  "end_drain c s = s\<lparr>tc_disconnecting := False, tc_caller := c\<rparr>"

definition begin_stop :: "tcp \<Rightarrow> tcp" where
  "begin_stop s =
     (let s1 = (case tc_listener s of None \<Rightarrow> s | Some h \<Rightarrow> close_fd h s) in s1\<lparr>tc_running := False, tc_caller := Joining_accept\<rparr>)"

definition end_stop :: "tcp \<Rightarrow> tcp" where
  "end_stop s = s\<lparr>tc_workers := [], tc_port := 0, tc_caller := Calm\<rparr>"

inductive tcp_step :: "tcp \<Rightarrow> tcp \<Rightarrow> bool" where
  start: "tc_caller s = Calm \<Longrightarrow> h \<notin> set (tc_open s) \<Longrightarrow> start_tcp a h s = (r, s') \<Longrightarrow> tcp_step s s'"
| accept: "tc_accepting s \<Longrightarrow> tc_pending s = Nothing_pending \<Longrightarrow> fd \<notin> set (tc_open s) \<Longrightarrow> tcp_step s (accept_returns fd s)"
| accept_error: "tc_accepting s \<Longrightarrow> tc_pending s = Nothing_pending \<Longrightarrow> tcp_step s (accept_fails s)"
| admission: "tc_pending s = Accepted fd \<Longrightarrow> tcp_step s (admit fd s)"
| spawning: "tc_pending s = Admitted fd f \<Longrightarrow> tcp_step s (spawn fd f s)"
| handler_returns: "i < length (tc_workers s) \<Longrightarrow> \<not> wk_released (tc_workers s ! i) \<Longrightarrow> tcp_step s (release i s)"
| finishing: "i < length (tc_workers s) \<Longrightarrow> wk_released (tc_workers s ! i) \<Longrightarrow> tcp_step s (finish i s)"
| disconnect: "tc_caller s = Calm \<Longrightarrow> tcp_step s (begin_drain Draining s)"
| drained: "tc_caller s = Draining \<Longrightarrow> tc_active s = [] \<Longrightarrow> tcp_step s (end_drain Calm s)"
| stop: "tc_caller s = Calm \<Longrightarrow> tc_running s \<Longrightarrow> tcp_step s (begin_stop s)"
| stop_drain: "tc_caller s = Joining_accept \<Longrightarrow> \<not> tc_accepting s \<Longrightarrow> tc_pending s = Nothing_pending
    \<Longrightarrow> tcp_step s (begin_drain Stop_draining (s\<lparr>tc_listener := None\<rparr>))"
| stop_drained: "tc_caller s = Stop_draining \<Longrightarrow> tc_active s = [] \<Longrightarrow> tcp_step s (end_drain Joining_workers s)"
| stopped: "tc_caller s = Joining_workers \<Longrightarrow> list_all wk_finished (tc_workers s) \<Longrightarrow> tcp_step s (end_stop s)"

inductive_cases tcp_stepE: "tcp_step s s'"

text \<open>A worker that \<open>release\<close> or \<open>finish\<close> names.\<close>

lemma worker_split:
  assumes "i < length (tc_workers s)"
  obtains ws1 w ws2 where "tc_workers s = ws1 @ w # ws2" and "i = length ws1"
  using assms by (metis id_take_nth_drop length_take min.absorb4)

definition tcp_start :: "tcp \<Rightarrow> bool" where
  "tcp_start s \<longleftrightarrow> s = idle_tcp"

section \<open>The invariant\<close>

definition pending_fds :: "pending \<Rightarrow> sock list" where
  "pending_fds p = (case p of Nothing_pending \<Rightarrow> [] | Accepted fd \<Rightarrow> [fd] | Admitted fd f \<Rightarrow> [fd])"

definition pending_clients :: "pending \<Rightarrow> (sock \<times> nat) list" where
  "pending_clients p = (case p of Admitted fd f \<Rightarrow> [(fd, f)] | _ \<Rightarrow> [])"

definition live :: "worker list \<Rightarrow> worker list" where
  "live ws = filter (\<lambda>w. \<not> wk_released w) ws"

definition client_of :: "worker \<Rightarrow> sock \<times> nat" where
  "client_of w = (wk_fd w, wk_flag w)"

definition listener_fds :: "tcp \<Rightarrow> sock list" where
  "listener_fds s = (if tc_running s then handles [tc_listener s] else [])"

definition clients :: "tcp \<Rightarrow> (sock \<times> nat) list" where
  "clients s = pending_clients (tc_pending s) @ map client_of (live (tc_workers s))"

definition owned_fds :: "tcp \<Rightarrow> sock list" where
  "owned_fds s = listener_fds s @ pending_fds (tc_pending s) @ map wk_fd (live (tc_workers s))"

text \<open>Every open descriptor has exactly one owner, the table lists exactly the connections under way,
  each with the flag its worker looks at, and a flag is set exactly while all clients are being
  disconnected.\<close>

definition descriptors_ok :: "tcp \<Rightarrow> bool" where
  "descriptors_ok s \<longleftrightarrow> mset (owned_fds s) = mset (tc_open s) \<and> distinct (tc_open s) \<and> tc_bad s = []"

definition flags_ok :: "tcp \<Rightarrow> bool" where
  "flags_ok s \<longleftrightarrow> list_all (\<lambda>(fd, f). f < tc_next_flag s \<and> (f \<in> set (tc_cancelled s) \<longleftrightarrow> tc_disconnecting s)) (tc_active s)
     \<and> list_all (\<lambda>f. f < tc_next_flag s) (tc_cancelled s)"

text \<open>A socket is shut down exactly while its client is being disconnected with all the others.\<close>

definition shut_ok :: "tcp \<Rightarrow> bool" where
  "shut_ok s \<longleftrightarrow> set (tc_shut s) = (if tc_disconnecting s then fst ` set (tc_active s) else {})"

definition table_ok :: "tcp \<Rightarrow> bool" where
  "table_ok s \<longleftrightarrow> mset (tc_active s) = mset (clients s)"

definition phase_ok :: "tcp \<Rightarrow> bool" where
  "phase_ok s \<longleftrightarrow> (tc_disconnecting s \<longleftrightarrow> tc_caller s = Draining \<or> tc_caller s = Stop_draining)
     \<and> (tc_running s \<longrightarrow> tc_caller s = Calm \<or> tc_caller s = Draining)
     \<and> (\<not> tc_running s \<longrightarrow> tc_caller s \<noteq> Joining_accept \<longrightarrow> \<not> tc_accepting s \<and> tc_pending s = Nothing_pending)
     \<and> (\<not> tc_accepting s \<or> tc_running s \<or> tc_caller s = Joining_accept)
     \<and> (tc_caller s = Joining_workers \<longrightarrow> tc_active s = [])
     \<and> (tc_running s \<longrightarrow> tc_listener s \<noteq> None)
     \<and> (\<not> tc_running s \<longrightarrow> tc_caller s = Calm \<or> tc_caller s = Draining \<longrightarrow> tc_workers s = [])
     \<and> (\<forall>w\<in>set (tc_workers s). wk_finished w \<longrightarrow> wk_released w)"

lemmas tcp_views = owned_fds_def clients_def listener_fds_def pending_fds_def pending_clients_def live_def client_of_def

section \<open>Every step keeps the invariant\<close>

lemma live_simps [simp]:
  "live [] = []" "live (ws @ vs) = live ws @ live vs"
  "live (w # ws) = (if wk_released w then live ws else w # live ws)"
  by (simp_all add: live_def)

lemma live_reap [simp]: "list_all (\<lambda>w. wk_finished w \<longrightarrow> wk_released w) ws \<Longrightarrow> live (reap ws) = live ws"
  by (induction ws) (simp_all add: reap_def)

lemma emplace_new [simp]: "k \<notin> fst ` set al \<Longrightarrow> emplace k v al = al @ [(k, v)]"
  by (simp add: emplace_def map_of_eq_None_iff)

definition tcp_ok :: "tcp \<Rightarrow> bool" where
  "tcp_ok s \<longleftrightarrow> descriptors_ok s \<and> table_ok s \<and> flags_ok s \<and> phase_ok s"

lemma fst_clients: "mset (map fst (clients s)) \<subseteq># mset (owned_fds s)"
  by (simp add: clients_def owned_fds_def pending_clients_def pending_fds_def client_of_def comp_def
      subset_mset.add_increasing split: pending.split)

lemma distinct_submset:
  assumes "mset xs \<subseteq># mset ys" and "distinct ys"
  shows "distinct xs"
proof -
  obtain zs where "mset ys = mset (xs @ zs)"
    using assms(1) by (metis ex_mset mset_append subset_mset.le_iff_add)
  then show ?thesis using assms(2) by (metis distinct_append mset_eq_imp_distinct_iff)
qed

lemma active_fds:
  assumes "table_ok s" and "descriptors_ok s"
  shows "distinct (map fst (tc_active s)) \<and> fst ` set (tc_active s) \<subseteq> set (tc_open s)"
proof -
  have "mset (map fst (tc_active s)) \<subseteq># mset (tc_open s)"
    using fst_clients [of s] assms by (simp add: table_ok_def descriptors_ok_def)
  then show ?thesis
    using assms(2) distinct_submset [of "map fst (tc_active s)" "tc_open s"] set_mset_mono
    unfolding descriptors_ok_def by fastforce
qed

lemma clients_upd [simp]:
  "clients (s\<lparr>tc_open := x\<rparr>) = clients s" "clients (s\<lparr>tc_active := y\<rparr>) = clients s"
  "clients (s\<lparr>tc_shut := sh\<rparr>) = clients s" "clients (s\<lparr>tc_next_flag := n\<rparr>) = clients s" "clients (s\<lparr>tc_cancelled := cs\<rparr>) = clients s"
  "clients (s\<lparr>tc_disconnecting := b\<rparr>) = clients s" "clients (s\<lparr>tc_caller := c\<rparr>) = clients s"
  "clients (s\<lparr>tc_accepting := b\<rparr>) = clients s" "clients (s\<lparr>tc_listener := l\<rparr>) = clients s"
  "clients (s\<lparr>tc_running := b\<rparr>) = clients s" "clients (s\<lparr>tc_port := p\<rparr>) = clients s"
  "clients (s\<lparr>tc_workers := ws\<rparr>) = pending_clients (tc_pending s) @ map client_of (live ws)"
  "clients (s\<lparr>tc_pending := q\<rparr>) = pending_clients q @ map client_of (live (tc_workers s))"
  by (simp_all add: clients_def)

lemma pending_simps [simp]:
  "pending_clients Nothing_pending = []" "pending_clients (Accepted fd) = []" "pending_clients (Admitted fd f) = [(fd, f)]"
  "pending_fds Nothing_pending = []" "pending_fds (Accepted fd) = [fd]" "pending_fds (Admitted fd f) = [fd]"
  by (simp_all add: pending_clients_def pending_fds_def)

lemma listener_upd [simp]:
  "listener_fds (s\<lparr>tc_open := x\<rparr>) = listener_fds s" "listener_fds (s\<lparr>tc_active := y\<rparr>) = listener_fds s"
  "listener_fds (s\<lparr>tc_shut := sh\<rparr>) = listener_fds s" "listener_fds (s\<lparr>tc_next_flag := n\<rparr>) = listener_fds s" "listener_fds (s\<lparr>tc_cancelled := cs\<rparr>) = listener_fds s"
  "listener_fds (s\<lparr>tc_disconnecting := b\<rparr>) = listener_fds s" "listener_fds (s\<lparr>tc_caller := c\<rparr>) = listener_fds s"
  "listener_fds (s\<lparr>tc_accepting := b\<rparr>) = listener_fds s" "listener_fds (s\<lparr>tc_port := p\<rparr>) = listener_fds s"
  "listener_fds (s\<lparr>tc_workers := ws\<rparr>) = listener_fds s" "listener_fds (s\<lparr>tc_pending := q\<rparr>) = listener_fds s"
  by (simp_all add: listener_fds_def)

lemma owned_upd [simp]:
  "owned_fds (s\<lparr>tc_open := x\<rparr>) = owned_fds s" "owned_fds (s\<lparr>tc_active := y\<rparr>) = owned_fds s"
  "owned_fds (s\<lparr>tc_shut := sh\<rparr>) = owned_fds s" "owned_fds (s\<lparr>tc_next_flag := n\<rparr>) = owned_fds s" "owned_fds (s\<lparr>tc_cancelled := cs\<rparr>) = owned_fds s"
  "owned_fds (s\<lparr>tc_disconnecting := b\<rparr>) = owned_fds s" "owned_fds (s\<lparr>tc_caller := c\<rparr>) = owned_fds s"
  "owned_fds (s\<lparr>tc_accepting := b\<rparr>) = owned_fds s" "owned_fds (s\<lparr>tc_port := p\<rparr>) = owned_fds s"
  "owned_fds (s\<lparr>tc_workers := ws\<rparr>) = listener_fds s @ pending_fds (tc_pending s) @ map wk_fd (live ws)"
  "owned_fds (s\<lparr>tc_pending := q\<rparr>) = listener_fds s @ pending_fds q @ map wk_fd (live (tc_workers s))"
  by (simp_all add: owned_fds_def listener_fds_def)

lemma mset_open_remove: "distinct xs \<Longrightarrow> mset (removeAll x xs) = mset xs - {#x#}"
  by (simp add: distinct_remove1_removeAll [symmetric])

lemma owned_open: "descriptors_ok s \<Longrightarrow> set (owned_fds s) = set (tc_open s) \<and> distinct (owned_fds s)"
  unfolding descriptors_ok_def by (metis mset_eq_imp_distinct_iff mset_eq_setD)

lemma accepted_fresh:
  assumes "tcp_ok s" and "tc_pending s = Accepted fd"
  shows "fd \<notin> fst ` set (tc_active s)"
proof -
  have s: "descriptors_ok s" "table_ok s" using assms by (simp_all add: tcp_ok_def)
  have "mset (map fst (clients s)) + {#fd#} \<subseteq># mset (owned_fds s)"
    using assms(2) by (simp add: clients_def owned_fds_def client_of_def comp_def)
  then have "distinct (fd # map fst (tc_active s))"
    using s distinct_submset [of "fd # map fst (tc_active s)" "tc_open s"]
    by (simp add: descriptors_ok_def table_ok_def)
  then show ?thesis by simp
qed

lemma ok_admit:
  assumes "tcp_ok s" and "tc_pending s = Accepted fd"
  shows "tcp_ok (admit fd s)"
proof -
  have s: "descriptors_ok s" "table_ok s" "flags_ok s" "phase_ok s" using assms by (simp_all add: tcp_ok_def)
  have "fd \<in> set (owned_fds s)" using assms(2) by (simp add: owned_fds_def)
  then have o: "fd \<in> set (tc_open s)" using owned_open [OF s(1)] by simp
  have mo: "mset (owned_fds s) = mset (tc_open s)" using s(1) by (simp add: descriptors_ok_def)
  have n: "fd \<notin> fst ` set (tc_active s)" by (rule accepted_fresh [OF assms])
  show ?thesis
  proof (cases "\<not> tc_running s \<or> tc_disconnecting s")
    case True
    have "admit fd s = s\<lparr>tc_pending := Nothing_pending, tc_open := removeAll fd (tc_open s), tc_shut := removeAll fd (tc_shut s)\<rparr>"
      using True o by (simp add: admit_def close_fd_def)
    moreover have "phase_ok \<dots>" using s(4) by (simp add: phase_ok_def)
    moreover have "descriptors_ok \<dots>"
      using s(1) assms(2) unfolding descriptors_ok_def
      by (simp add: mset_open_remove distinct_removeAll flip: mo) (simp add: owned_fds_def)
    ultimately show ?thesis using s(2,3) assms(2)
      by (simp add: tcp_ok_def table_ok_def flags_ok_def clients_def)
  next
    case False
    have "phase_ok (admit fd s)" using s(4) assms(2) False by (simp add: admit_def phase_ok_def)
    then show ?thesis using s(1-3) assms(2) False n
      by (auto simp: admit_def tcp_ok_def table_ok_def flags_ok_def descriptors_ok_def clients_def owned_fds_def list_all_iff)
  qed
qed

lemma ok_spawn:
  assumes "tcp_ok s" and "tc_pending s = Admitted fd f"
  shows "tcp_ok (spawn fd f s)"
proof -
  have s: "descriptors_ok s" "table_ok s" "flags_ok s" "phase_ok s" using assms by (simp_all add: tcp_ok_def)
  then have r: "live (reap (tc_workers s)) = live (tc_workers s)" by (simp add: phase_ok_def list_all_iff)
  have "phase_ok (spawn fd f s)" using s(4) assms(2) by (auto simp: spawn_def phase_ok_def reap_def)
  then show ?thesis using s(1-3) assms(2) r
    by (simp add: spawn_def tcp_ok_def table_ok_def flags_ok_def descriptors_ok_def clients_def owned_fds_def client_of_def)
qed

lemma filter_key: "distinct (map fst (x # xs)) \<Longrightarrow> filter (\<lambda>(k, _). k \<noteq> fst x) xs = xs"
  by (induction xs) auto

lemma ok_release:
  assumes "tcp_ok s" and "i < length (tc_workers s)" and "\<not> wk_released (tc_workers s ! i)"
  shows "tcp_ok (release i s)"
proof -
  have s: "descriptors_ok s" "table_ok s" "flags_ok s" "phase_ok s" using assms by (simp_all add: tcp_ok_def)
  have mo: "mset (owned_fds s) = mset (tc_open s)" using s(1) by (simp add: descriptors_ok_def)
  obtain ws1 w ws2 where w: "tc_workers s = ws1 @ w # ws2" "i = length ws1" by (rule worker_split [OF assms(2)])
  have n: "\<not> wk_released w" using assms(3) w by simp
  have "wk_fd w \<in> set (owned_fds s)" using w n by (simp add: owned_fds_def)
  then have o: "wk_fd w \<in> set (tc_open s)" using owned_open [OF s(1)] by simp
  let ?P = "\<lambda>(fd, _). fd \<noteq> wk_fd w" and ?rest = "pending_clients (tc_pending s) @ map client_of (live (ws1 @ ws2))"
  have r: "release i s = s\<lparr>tc_open := removeAll (wk_fd w) (tc_open s), tc_shut := removeAll (wk_fd w) (tc_shut s), tc_active := filter ?P (tc_active s),
      tc_workers := ws1 @ w\<lparr>wk_released := True\<rparr> # ws2\<rparr>"
    using o w by (simp add: release_def close_fd_def nth_append list_update_append Let_def)
  have c: "mset (clients s) = mset (client_of w # ?rest)" using w n by (simp add: clients_def)
  have "mset (map fst (client_of w # ?rest)) \<subseteq># mset (tc_open s)" using fst_clients [of s] c mo by (metis mset_map)
  from distinct_submset [OF this] have "distinct (map fst (client_of w # ?rest))"
    using s(1) by (simp only: descriptors_ok_def)
  from filter_key [OF this] have "filter ?P ?rest = ?rest" by (simp only: client_of_def fst_conv)
  moreover have "mset (tc_active s) = mset (client_of w # ?rest)" using s(2) c by (simp only: table_ok_def)
  then have "mset (filter ?P (tc_active s)) = mset (filter ?P (client_of w # ?rest))" by (metis mset_filter)
  ultimately have "mset (filter ?P (tc_active s)) = mset ?rest" by (simp add: client_of_def del: filter_append)
  then have "table_ok (release i s)" unfolding r by (simp add: table_ok_def)
  moreover have "descriptors_ok (release i s)"
    using s(1) w n unfolding r descriptors_ok_def
    by (simp add: mset_open_remove distinct_removeAll flip: mo) (simp add: owned_fds_def)
  moreover have "flags_ok (release i s)" using s(3) unfolding r by (auto simp: flags_ok_def list_all_iff)
  moreover have "phase_ok (release i s)" using s(4) w unfolding r by (auto simp: phase_ok_def)
  ultimately show ?thesis by (simp add: tcp_ok_def)
qed

lemma ok_finish:
  assumes "tcp_ok s" and "i < length (tc_workers s)" and "wk_released (tc_workers s ! i)"
  shows "tcp_ok (finish i s)"
proof -
  obtain ws1 w ws2 where w: "tc_workers s = ws1 @ w # ws2" "i = length ws1" by (rule worker_split [OF assms(2)])
  have r: "finish i s = s\<lparr>tc_workers := ws1 @ w\<lparr>wk_finished := True\<rparr> # ws2\<rparr>"
    using w by (simp add: finish_def nth_append list_update_append)
  have "phase_ok (finish i s)" using assms w unfolding r by (auto simp: tcp_ok_def phase_ok_def)
  then show ?thesis using assms w unfolding r
    by (simp add: tcp_ok_def descriptors_ok_def table_ok_def flags_ok_def owned_fds_def clients_def)
qed

lemma ok_start:
  assumes "tcp_ok s" and "tc_caller s = Calm" and "h \<notin> set (tc_open s)" and "start_tcp a h s = (r, s')"
  shows "tcp_ok s'"
proof -
  have s: "descriptors_ok s" "table_ok s" "flags_ok s" "phase_ok s" using assms by (simp_all add: tcp_ok_def)
  consider (same) "s' = s" | (failed) "\<not> tc_running s" "s' = s\<lparr>tc_listener := None\<rparr>"
    | (up) "\<not> tc_running s" "s' = s\<lparr>tc_listener := Some h, tc_port := ta_port a, tc_running := True, tc_accepting := True,
        tc_open := h # tc_open s\<rparr>"
    using assms(4) by (simp add: start_tcp_def split: if_splits)
  then show ?thesis
  proof cases
    case same
    then show ?thesis using assms(1) by simp
  next
    case failed
    then show ?thesis
      using s assms(2) by (simp add: tcp_ok_def descriptors_ok_def table_ok_def flags_ok_def phase_ok_def owned_fds_def listener_fds_def)
  next
    case up
    then have "phase_ok s'" using s(4) assms(2) by (simp add: phase_ok_def)
    then show ?thesis
      using s(1-3) up assms(3) by (simp add: tcp_ok_def descriptors_ok_def table_ok_def flags_ok_def owned_fds_def listener_fds_def)
  qed
qed

lemma ok_begin_drain:
  assumes "tcp_ok s" and "tc_caller s = Calm \<and> c = Draining
    \<or> tc_caller s = Joining_accept \<and> c = Stop_draining \<and> \<not> tc_accepting s \<and> tc_pending s = Nothing_pending"
  shows "tcp_ok (begin_drain c s)"
proof -
  have "phase_ok (begin_drain c s)"
    using assms by (elim disjE conjE) (simp_all add: begin_drain_def tcp_ok_def phase_ok_def)
  moreover have "flags_ok (begin_drain c s)"
    using assms(1) by (force simp: begin_drain_def tcp_ok_def flags_ok_def list_all_iff)
  ultimately show ?thesis
    using assms(1) by (simp add: begin_drain_def tcp_ok_def descriptors_ok_def table_ok_def)
qed

lemma ok_end_drain:
  assumes "tcp_ok s" and "tc_active s = []"
    and "tc_caller s = Draining \<and> c = Calm \<or> tc_caller s = Stop_draining \<and> c = Joining_workers"
  shows "tcp_ok (end_drain c s)"
proof -
  have "phase_ok (end_drain c s)"
    using assms by (elim disjE conjE) (simp_all add: end_drain_def tcp_ok_def phase_ok_def)
  then show ?thesis
    using assms(1,2) by (simp add: end_drain_def tcp_ok_def descriptors_ok_def table_ok_def flags_ok_def)
qed

lemma ok_begin_stop:
  assumes "tcp_ok s" and "tc_caller s = Calm" and "tc_running s"
  shows "tcp_ok (begin_stop s)"
proof -
  have s: "descriptors_ok s" "table_ok s" "flags_ok s" "phase_ok s" using assms by (simp_all add: tcp_ok_def)
  have mo: "mset (owned_fds s) = mset (tc_open s)" using s(1) by (simp add: descriptors_ok_def)
  obtain h where h: "tc_listener s = Some h" using assms s(4) by (auto simp: phase_ok_def)
  then have "h \<in> set (owned_fds s)" using assms(3) by (simp add: owned_fds_def listener_fds_def)
  then have r: "begin_stop s = s\<lparr>tc_open := removeAll h (tc_open s), tc_shut := removeAll h (tc_shut s), tc_running := False, tc_caller := Joining_accept\<rparr>"
    using owned_open [OF s(1)] h by (simp add: begin_stop_def close_fd_def)
  have "descriptors_ok (begin_stop s)"
    using s(1) h assms(3) unfolding r descriptors_ok_def
    by (simp add: mset_open_remove distinct_removeAll flip: mo) (simp add: owned_fds_def listener_fds_def)
  moreover have "phase_ok (begin_stop s)" using s(4) assms unfolding r by (auto simp: phase_ok_def)
  ultimately show ?thesis using s(2,3) unfolding r by (simp add: tcp_ok_def table_ok_def flags_ok_def)
qed

lemma ok_stopped:
  assumes "tcp_ok s" and "tc_caller s = Joining_workers" and "list_all wk_finished (tc_workers s)"
  shows "tcp_ok (end_stop s)"
proof -
  have s: "descriptors_ok s" "table_ok s" "flags_ok s" "phase_ok s" using assms by (simp_all add: tcp_ok_def)
  have l: "live (tc_workers s) = []"
    using s(4) assms(3) by (auto simp: phase_ok_def list_all_iff live_def filter_empty_conv)
  have "phase_ok (end_stop s)" using s(4) assms(2) by (auto simp: end_stop_def phase_ok_def)
  then show ?thesis using s(1-3) l
    by (simp add: end_stop_def tcp_ok_def descriptors_ok_def table_ok_def flags_ok_def owned_fds_def clients_def)
qed

lemma ok_accept:
  assumes "tcp_ok s" and "tc_accepting s" and "tc_pending s = Nothing_pending" and "fd \<notin> set (tc_open s)"
  shows "tcp_ok (accept_returns fd s)" "tcp_ok (accept_fails s)"
proof -
  have "phase_ok (accept_returns fd s)" "phase_ok (accept_fails s)"
    using assms by (auto simp: accept_returns_def accept_fails_def tcp_ok_def phase_ok_def)
  then show "tcp_ok (accept_returns fd s)" "tcp_ok (accept_fails s)"
    using assms by (simp_all add: accept_returns_def accept_fails_def tcp_ok_def descriptors_ok_def table_ok_def
        flags_ok_def owned_fds_def clients_def)
qed

lemma tcp_ok_step:
  assumes "tcp_ok s" and "tcp_step s s'"
  shows "tcp_ok s'"
  using assms(2)
proof (cases rule: tcp_step.cases)
  case (start h a r)
  then show ?thesis using ok_start [OF assms(1)] by blast
next
  case (accept fd)
  then show ?thesis using ok_accept [OF assms(1)] by simp
next
  case accept_error
  obtain fd where "fd \<notin> set (tc_open s)" using ex_new_if_finite [OF infinite_UNIV_nat] by blast
  then show ?thesis using accept_error ok_accept(2) [OF assms(1)] by simp
next
  case stop_drain
  have "tcp_ok (s\<lparr>tc_listener := None\<rparr>)"
    using assms(1) stop_drain
    by (auto simp: tcp_ok_def descriptors_ok_def table_ok_def flags_ok_def phase_ok_def owned_fds_def listener_fds_def)
  then show ?thesis using stop_drain ok_begin_drain by simp
qed (use assms(1) ok_admit ok_spawn ok_release ok_finish ok_begin_drain ok_end_drain ok_begin_stop ok_stopped in simp_all)

lemma close_shut:
  "tc_shut (close_fd h s) = (if h \<in> set (tc_open s) then removeAll h (tc_shut s) else tc_shut s)"
  "tc_active (close_fd h s) = tc_active s" "tc_disconnecting (close_fd h s) = tc_disconnecting s"
  by (simp_all add: close_fd_def)

lemma shut_ok_step:
  assumes ok: "tcp_ok s" and sh: "shut_ok s" and "tcp_step s s'"
  shows "shut_ok s'"
  using assms(3)
proof (cases rule: tcp_step.cases)
  case (admission fd)
  have "fd \<notin> fst ` set (tc_active s)" by (rule accepted_fresh [OF ok admission(2)])
  then show ?thesis using admission sh by (auto simp: shut_ok_def admit_def close_shut)
next
  case (handler_returns i)
  have "wk_fd (tc_workers s ! i) \<in> set (tc_open s)"
  proof -
    have "wk_fd (tc_workers s ! i) \<in> set (owned_fds s)"
      using handler_returns by (auto simp: owned_fds_def live_def)
    then show ?thesis using ok owned_open by (auto simp: tcp_ok_def)
  qed
  then show ?thesis using sh by (auto simp: handler_returns shut_ok_def release_def close_fd_def Let_def split: if_splits)
next
  case stop
  then have "\<not> tc_disconnecting s" using ok by (simp add: tcp_ok_def phase_ok_def)
  then show ?thesis using stop sh
    by (auto simp: shut_ok_def begin_stop_def close_shut Let_def split: option.splits)
next
  case (start h a r)
  then have "tc_shut s' = tc_shut s" "tc_active s' = tc_active s" "tc_disconnecting s' = tc_disconnecting s"
    by (auto simp: start_tcp_def split: if_splits)
  then show ?thesis using sh by (simp add: shut_ok_def)
next
  case disconnect
  then show ?thesis using sh by (cases "tc_disconnecting s") (simp_all add: shut_ok_def begin_drain_def)
next
  case stop_drain
  then show ?thesis using sh by (cases "tc_disconnecting s") (simp_all add: shut_ok_def begin_drain_def)
next
  case drained
  then show ?thesis using sh by (cases "tc_disconnecting s") (simp_all add: shut_ok_def end_drain_def)
next
  case stop_drained
  then show ?thesis using sh by (cases "tc_disconnecting s") (simp_all add: shut_ok_def end_drain_def)
qed (use sh in \<open>simp_all add: shut_ok_def accept_returns_def accept_fails_def spawn_def finish_def end_stop_def\<close>)

interpretation tcp: invariant_of tcp_start tcp_step "\<lambda>s. tcp_ok s \<and> shut_ok s"
proof
  fix s assume "tcp_start s"
  then show "tcp_ok s \<and> shut_ok s"
    by (simp add: tcp_start_def idle_tcp_def tcp_ok_def descriptors_ok_def table_ok_def flags_ok_def phase_ok_def shut_ok_def
        owned_fds_def clients_def listener_fds_def)
qed (use tcp_ok_step shut_ok_step in blast)

section \<open>Disconnecting ends\<close>

definition draining :: "tcp \<Rightarrow> bool" where
  "draining s \<longleftrightarrow> tc_caller s = Draining \<or> tc_caller s = Stop_draining"

definition drain_weight :: "tcp \<Rightarrow> nat" where
  "drain_weight s = 2 * length (pending_clients (tc_pending s)) + length (live (tc_workers s))"

definition after_drain :: "caller \<Rightarrow> caller" where
  "after_drain c = (if c = Draining then Calm else Joining_workers)"

text \<open>The steps the server can count on, whatever the peers do: a thread is started for a connection that
  was admitted, and a handler returns once \<open>close_all_clients\<close> has set the flag it looks at and has shut
  its socket down (the reader of requests looks at the flag at each turn of its wait, and a socket
  that is shut down neither delivers nor blocks). Nothing makes any other handler return.\<close>

inductive owed_step :: "tcp \<Rightarrow> tcp \<Rightarrow> bool" where
  owed_start: "tc_pending s = Admitted fd f \<Longrightarrow> owed_step s (spawn fd f s)"
| owed_return: "i < length (tc_workers s) \<Longrightarrow> \<not> wk_released (tc_workers s ! i)
    \<Longrightarrow> wk_flag (tc_workers s ! i) \<in> set (tc_cancelled s) \<Longrightarrow> wk_fd (tc_workers s ! i) \<in> set (tc_shut s)
    \<Longrightarrow> owed_step s (release i s)"

inductive_cases owed_stepE: "owed_step s t"

lemma owed_is_step: "owed_step s t \<Longrightarrow> tcp_step s t"
  by (erule owed_stepE) (auto intro: tcp_step.spawning tcp_step.handler_returns)

lemma drain_end:
  assumes "draining s" and "tc_active s = []"
  shows "tcp_step s (end_drain (after_drain (tc_caller s)) s)"
  using assms tcp_step.drained tcp_step.stop_drained by (auto simp: draining_def after_drain_def)

lemma release_weight:
  assumes "i < length (tc_workers s)" and "\<not> wk_released (tc_workers s ! i)"
  shows "drain_weight (release i s) < drain_weight s" and "tc_caller (release i s) = tc_caller s"
proof -
  obtain ws1 w ws2 where w: "tc_workers s = ws1 @ w # ws2" "i = length ws1" by (rule worker_split [OF assms(1)])
  then show "drain_weight (release i s) < drain_weight s" "tc_caller (release i s) = tc_caller s"
    using assms(2) by (simp_all add: release_def close_fd_def nth_append list_update_append drain_weight_def Let_def)
qed

lemma spawn_weight:
  assumes "tc_pending s = Admitted fd f"
  shows "drain_weight (spawn fd f s) < drain_weight s" and "tc_caller (spawn fd f s) = tc_caller s"
proof -
  have "length (live (reap ws)) \<le> length (live ws)" for ws by (induction ws) (simp_all add: reap_def)
  then show "drain_weight (spawn fd f s) < drain_weight s" "tc_caller (spawn fd f s) = tc_caller s"
    using assms by (simp_all add: spawn_def drain_weight_def less_Suc_eq_le)
qed

lemma owed_weight:
  assumes "owed_step s t"
  shows "drain_weight t < drain_weight s" and "tc_caller t = tc_caller s"
  using assms by (auto elim!: owed_stepE simp: release_weight spawn_weight)

lemma owed_bounded: "(owed_step ^^ n) s t \<Longrightarrow> n + drain_weight t \<le> drain_weight s"
proof (induction n arbitrary: t)
  case (Suc n)
  then obtain u where "(owed_step ^^ n) s u" "owed_step u t" by (auto elim: relpowp_Suc_E)
  then show ?case using Suc.IH [of u] owed_weight(1) [of u t] by simp
qed simp

lemma owed_run:
  "owed_step\<^sup>*\<^sup>* s t \<Longrightarrow> tcp_ok s \<Longrightarrow> shut_ok s \<Longrightarrow> tcp_ok t \<and> shut_ok t \<and> tc_caller t = tc_caller s"
  by (induction rule: rtranclp_induct) (auto dest: owed_is_step owed_weight(2) intro: tcp_ok_step shut_ok_step)

text \<open>While a client is left, one of these steps can be taken: its thread is still to be started, or its
  flag is set and its socket is shut down.\<close>

lemma drain_progress:
  assumes "tcp_ok s" and "shut_ok s" and "draining s" and "tc_active s \<noteq> []"
  shows "\<exists>t. owed_step s t"
proof -
  have d: "tc_disconnecting s" using assms(1,3) by (auto simp: tcp_ok_def phase_ok_def draining_def)
  have "clients s \<noteq> []" using assms by (auto simp: tcp_ok_def table_ok_def)
  then consider fd f where "tc_pending s = Admitted fd f" | "live (tc_workers s) \<noteq> []"
    by (cases "tc_pending s") (auto simp: clients_def)
  then show ?thesis
  proof cases
    case 1
    then show ?thesis using owed_start by blast
  next
    case 2
    then obtain w where w: "w \<in> set (tc_workers s)" "\<not> wk_released w" by (auto simp: live_def filter_empty_conv)
    then obtain i where i: "i < length (tc_workers s)" "tc_workers s ! i = w" by (auto simp: in_set_conv_nth)
    have "client_of w \<in># mset (clients s)" using w by (simp add: clients_def live_def)
    then have a: "(wk_fd w, wk_flag w) \<in> set (tc_active s)"
      using assms(1) by (simp add: tcp_ok_def table_ok_def client_of_def flip: set_mset_mset)
    have "wk_flag w \<in> set (tc_cancelled s)" using a d assms(1) by (auto simp: tcp_ok_def flags_ok_def list_all_iff)
    moreover have "wk_fd w \<in> set (tc_shut s)" using a d assms(2) by (force simp: shut_ok_def)
    ultimately show ?thesis using owed_return i w(2) by blast
  qed
qed

lemma drain_monotone:
  assumes "tcp_ok s" and "draining s" and "tcp_step s t"
  shows "drain_weight t \<le> drain_weight s"
  using assms(3)
proof (cases rule: tcp_step.cases)
  case (admission fd)
  then show ?thesis using assms(1,2)
    by (auto simp: admit_def close_fd_def tcp_ok_def phase_ok_def draining_def drain_weight_def)
next
  case (spawning fd f)
  then show ?thesis using spawn_weight(1) by (simp add: less_imp_le)
next
  case (handler_returns i)
  then show ?thesis using release_weight(1) by (simp add: less_imp_le)
next
  case (finishing i)
  obtain ws1 w ws2 where w: "tc_workers s = ws1 @ w # ws2" "i = length ws1" by (rule worker_split [OF finishing(2)])
  then show ?thesis using finishing
    by (simp add: finish_def nth_append list_update_append drain_weight_def)
qed (use assms(2) in \<open>auto simp: draining_def drain_weight_def accept_returns_def accept_fails_def end_drain_def\<close>)

section \<open>Properties\<close>

text \<open>C2: In every interleaving the table of clients lists exactly the connections under way, on
  distinct open descriptors, so that a shutdown meets no descriptor that was handed out again; no
  close meets one that is not open; the flag of a client is set exactly while all clients are being
  disconnected, so a client that comes later is not cancelled; and after \<open>stop\<close> nothing is open and
  no thread is left.\<close>

theorem connections_tracked:
  assumes "reach tcp_start tcp_step s"
  shows "tc_bad s = [] \<and> mset (tc_active s) = mset (clients s) \<and> distinct (map fst (tc_active s))
    \<and> fst ` set (tc_active s) \<subseteq> set (tc_open s)
    \<and> list_all (\<lambda>(fd, f). (f \<in> set (tc_cancelled s)) = tc_disconnecting s) (tc_active s)
    \<and> (tc_caller s = Calm \<and> \<not> tc_running s \<longrightarrow> tc_open s = [] \<and> tc_workers s = [])"
proof -
  have ok: "descriptors_ok s" "table_ok s" "flags_ok s" "phase_ok s"
    using tcp.holds [OF assms] by (simp_all add: tcp_ok_def)
  have "tc_open s = []" if "tc_caller s = Calm" "\<not> tc_running s"
    using ok(1,4) that by (simp add: descriptors_ok_def phase_ok_def owned_fds_def listener_fds_def)
  moreover have "tc_workers s = []" if "tc_caller s = Calm" "\<not> tc_running s"
    using ok(4) that by (simp add: phase_ok_def)
  moreover have "list_all (\<lambda>(fd, f). (f \<in> set (tc_cancelled s)) = tc_disconnecting s) (tc_active s)"
    using ok(3) by (fastforce simp: flags_ok_def list_all_iff)
  ultimately show ?thesis
    using ok(1,2) active_fds [OF ok(2,1)] by (simp add: descriptors_ok_def table_ok_def)
qed

text \<open>C3: Disconnecting all clients ends, as long as a handler returns once its own flag is set and its own
  socket is shut down and an admitted connection gets its thread; no other handler need ever return.
  In every state in which a thread waits for the end, such a step can be taken as long as a client is
  left, at most \<open>drain_weight\<close> of them can follow one another, and where none can be taken any more the
  table is empty and the waiting thread goes on; nothing else that happens meanwhile makes the work
  that is left grow.\<close>

theorem disconnect_ends:
  assumes "reach tcp_start tcp_step s" and "draining s"
  shows "(\<forall>n t. (owed_step ^^ n) s t \<longrightarrow> n \<le> drain_weight s)
    \<and> (\<forall>t. owed_step\<^sup>*\<^sup>* s t \<and> \<not> (\<exists>u. owed_step t u)
        \<longrightarrow> tc_active t = [] \<and> tcp_step t (end_drain (after_drain (tc_caller s)) t))
    \<and> (tc_active s \<noteq> [] \<longrightarrow> (\<exists>t. owed_step s t))
    \<and> (\<forall>t. tcp_step s t \<longrightarrow> drain_weight t \<le> drain_weight s)"
proof -
  note ok = tcp.holds [OF assms(1)]
  have "tc_active t = [] \<and> tcp_step t (end_drain (after_drain (tc_caller s)) t)"
    if "owed_step\<^sup>*\<^sup>* s t" "\<not> (\<exists>u. owed_step t u)" for t
  proof -
    have t: "tcp_ok t" "shut_ok t" "tc_caller t = tc_caller s" using owed_run [OF that(1)] ok by simp_all
    then have "draining t" using assms(2) by (simp add: draining_def)
    then show ?thesis using drain_progress [OF t(1,2)] that(2) drain_end [of t] t(3) by metis
  qed
  moreover have "n \<le> drain_weight s" if "(owed_step ^^ n) s t" for n t using owed_bounded [OF that] by simp
  ultimately show ?thesis using drain_progress [of s] drain_monotone [of s] ok assms(2) by blast
qed

section \<open>A call that fails\<close>

text \<open>When accept fails once, for whatever reason, the loop is over; the server still counts as running,
  so it cannot be started again, and no step but \<open>stop\<close> changes that.\<close>

lemma failed_accept_is_final:
  assumes "tc_running s" and "\<not> tc_accepting s" and "tcp_step s t" and "tc_running t"
  shows "\<not> tc_accepting t"
  using assms(3)
proof (cases rule: tcp_step.cases)
  case (start h a r)
  then show ?thesis using assms by (simp add: start_tcp_def)
qed (use assms in \<open>auto simp: admit_def close_fd_def spawn_def release_def finish_def begin_drain_def end_drain_def
  begin_stop_def end_stop_def Let_def split: if_splits option.splits\<close>)

section \<open>Witnesses\<close>

definition serving :: tcp where
  "serving = idle_tcp\<lparr>tc_listener := Some 3, tc_port := 7000, tc_running := True, tc_accepting := True,
     tc_open := [5, 3], tc_active := [(5, 0)], tc_next_flag := 1,
     tc_workers := [\<lparr>wk_fd = 5, wk_flag = 0, wk_released = False, wk_finished = False\<rparr>]\<rparr>"

lemma serving_reached: "reach tcp_start tcp_step serving"
proof -
  let ?s1 = "idle_tcp\<lparr>tc_listener := Some 3, tc_port := 7000, tc_running := True, tc_accepting := True, tc_open := [3]\<rparr>"
  have "tcp_step idle_tcp ?s1"
    by (rule tcp_step.start [of _ 3 "\<lparr>ta_v6 = True, ta_v4 = True, ta_bind = True, ta_listen = True, ta_name = True, ta_port = 7000\<rparr>" True])
      (simp_all add: idle_tcp_def start_tcp_def)
  then have 1: "reach tcp_start tcp_step ?s1"
    by (rule reach.advance [OF reach.initial, rotated]) (simp add: tcp_start_def)
  have "reach tcp_start tcp_step (accept_returns 5 ?s1)"
    by (rule reach.advance [OF 1 tcp_step.accept]) (simp_all add: idle_tcp_def)
  then have "reach tcp_start tcp_step (admit 5 (accept_returns 5 ?s1))"
    by (rule reach.advance) (rule tcp_step.admission, simp add: accept_returns_def)
  then have "reach tcp_start tcp_step (spawn 5 0 (admit 5 (accept_returns 5 ?s1)))"
    by (rule reach.advance) (rule tcp_step.spawning, simp add: accept_returns_def admit_def idle_tcp_def)
  then show ?thesis
    by (simp add: serving_def spawn_def admit_def accept_returns_def idle_tcp_def reap_def emplace_def)
qed

theorem connections_tracked_witness: "tc_bad serving = [] \<and> mset [(5 :: sock, 0 :: nat)] = mset (clients serving)"
  using connections_tracked [OF serving_reached] by (simp add: serving_def)

theorem disconnect_ends_witness:
  "\<not> (\<exists>t. (owed_step ^^ 2) (begin_drain Draining serving) t) \<and> (\<exists>t. owed_step (begin_drain Draining serving) t)"
proof -
  let ?s = "begin_drain Draining serving"
  have r: "reach tcp_start tcp_step ?s"
    by (rule reach.advance [OF serving_reached tcp_step.disconnect]) (simp add: serving_def idle_tcp_def)
  have s: "draining ?s" "drain_weight ?s = 1" "tc_active ?s \<noteq> []"
    by (simp_all add: draining_def begin_drain_def drain_weight_def serving_def idle_tcp_def)
  have "n \<le> 1" if "(owed_step ^^ n) ?s t" for n t using disconnect_ends [OF r s(1)] s(2) that by metis
  from this [of 2] have "\<not> (\<exists>t. (owed_step ^^ 2) ?s t)" by auto
  moreover have "\<exists>t. owed_step ?s t" using disconnect_ends [OF r s(1)] s(3) by blast
  ultimately show ?thesis by blast
qed

end
