(* ===== verification/DacpRemote.thy ===== *)
theory DacpRemote
  imports Rtsp
begin

text \<open>
  The remote control of the sender's audio (src/airplay/dacp_remote.cpp): which credentials a
  connection keeps, when a command can be sent, the request that is written and the answer that
  counts as success. The resolution of the sender's service is asynchronous: the look-up a
  connection waits for is a number, and the completion of an older one is without effect. The
  lookup itself, the connection and the clock are not under the control of the program; their
  outcomes are arguments. What is modelled is the Windows build; elsewhere no look-up is started
  and no command is sent.
\<close>

section \<open>Credentials\<close>

definition ishex :: "char \<Rightarrow> bool" where
  "ishex c \<longleftrightarrow> isdigit c \<or> c \<in> set ''abcdefABCDEF''"

definition hex_id :: "string \<Rightarrow> bool" where
  "hex_id s \<longleftrightarrow> s \<noteq> [] \<and> length s \<le> 16 \<and> list_all ishex s"

definition remote_token :: "string \<Rightarrow> bool" where
  "remote_token s \<longleftrightarrow> s \<noteq> [] \<and> length s \<le> 20 \<and> list_all isdigit s"

record resolve =
  rs_query :: nat
  rs_pending :: bool
  rs_port :: u16

record remote =
  dr_ip :: string
  dr_id :: string
  dr_token :: string
  dr_session :: string
  dr_audio_only :: bool
  dr_resolve :: "resolve option"
  dr_queries :: nat

definition new_remote :: "string \<Rightarrow> remote" where
  "new_remote ip = \<lparr>dr_ip = ip, dr_id = [], dr_token = [], dr_session = [], dr_audio_only = False,
     dr_resolve = None, dr_queries = 0\<rparr>"

text \<open>\<open>asked\<close>: whether the system accepts the look-up.\<close>

definition start_resolve :: "bool \<Rightarrow> remote \<Rightarrow> remote" where
  "start_resolve asked r =
     r\<lparr>dr_resolve := Some \<lparr>rs_query = dr_queries r, rs_pending = asked, rs_port = 0\<rparr>, dr_queries := dr_queries r + 1\<rparr>"

definition completed :: "nat \<Rightarrow> u16 option \<Rightarrow> remote \<Rightarrow> remote" where
  "completed n port r =
     (case dr_resolve r of
        None \<Rightarrow> r
      | Some q \<Rightarrow>
          (if rs_query q \<noteq> n \<or> \<not> rs_pending q then r
           else r\<lparr>dr_resolve := Some (q\<lparr>rs_port := (case port of None \<Rightarrow> 0 | Some p \<Rightarrow> p), rs_pending := False\<rparr>)\<rparr>))"

definition update_remote :: "bool \<Rightarrow> string \<Rightarrow> string \<Rightarrow> bool \<Rightarrow> string \<Rightarrow> remote \<Rightarrow> remote" where
  "update_remote asked i token only sid r0 =
     (let r1 = r0\<lparr>dr_audio_only := only, dr_session := sid\<rparr>;
          r2 = (if token \<noteq> [] then r1\<lparr>dr_token := (if remote_token token then token else [])\<rparr> else r1)
      in if i \<noteq> [] \<and> i \<noteq> dr_id r2
         then (let r3 = r2\<lparr>dr_resolve := None, dr_id := (if hex_id i then i else [])\<rparr>
               in if dr_id r3 \<noteq> [] then start_resolve asked r3 else r3)
         else r2)"

definition available :: "string \<Rightarrow> remote \<Rightarrow> bool" where
  "available sid r \<longleftrightarrow> dr_audio_only r \<and> dr_token r \<noteq> [] \<and> (sid = [] \<or> sid = dr_session r)
     \<and> (case dr_resolve r of None \<Rightarrow> False | Some q \<Rightarrow> rs_port q \<noteq> 0)"

section \<open>Commands\<close>

datatype media_command = PlayPause | Previous | Next | Seek

definition command_path :: "media_command \<Rightarrow> u32 \<Rightarrow> string" where
  "command_path c pos =
     (case c of PlayPause \<Rightarrow> ''playpause'' | Previous \<Rightarrow> ''previtem'' | Next \<Rightarrow> ''nextitem''
      | Seek \<Rightarrow> ''setproperty?dacp.playingtime='' @ show_nat (unat pos))"

definition host_name :: "string \<Rightarrow> string" where
  "host_name ip = (if CHR '':'' \<notin> set ip then ip else ''['' @ ip @ '']'')"

definition command_request :: "string \<Rightarrow> u16 \<Rightarrow> string \<Rightarrow> string \<Rightarrow> bool \<Rightarrow> string" where
  "command_request ip port token path post =
     (if post then ''POST'' else ''GET'') @ '' /ctrl-int/1/'' @ path @ '' HTTP/1.1'' @ crlf
     @ ''Host: '' @ host_name ip @ '':'' @ show_nat (unat port) @ crlf
     @ ''Active-Remote: '' @ token @ crlf @ ''Content-Length: 0'' @ crlf @ ''Connection: close'' @ crlf @ crlf"

text \<open>The status line of the answer: \<open>operator>>\<close> reads a word and a number, 0 when there is none.\<close>

definition command_accepted :: "string \<Rightarrow> bool" where
  "command_accepted line \<longleftrightarrow>
     (case find_str crlf line of
        None \<Rightarrow> False
      | Some _ \<Rightarrow>
          (case next_token line of
             None \<Rightarrow> False
           | Some (version, rest) \<Rightarrow>
               (let code = (case stoi rest of None \<Rightarrow> 0 | Some c \<Rightarrow> c)
                in prefix ''HTTP/'' version \<and> 200 \<le> code \<and> code < 300)))"

text \<open>\<open>waited\<close> is the look-up after the wait for at most 750 ms: the request to be written and where,
  or nothing when the command is dropped.\<close>

definition send_command :: "media_command \<Rightarrow> u32 \<Rightarrow> string \<Rightarrow> (resolve \<Rightarrow> resolve) \<Rightarrow> remote \<Rightarrow> (string \<times> u16 \<times> string) option" where
  "send_command c pos sid waited r =
     (if \<not> dr_audio_only r \<or> sid \<noteq> [] \<and> sid \<noteq> dr_session r then None
      else case dr_resolve r of
             None \<Rightarrow> None
           | Some q \<Rightarrow>
               (if dr_token r = [] \<or> rs_port (waited q) = 0 then None
                else Some (dr_ip r, rs_port (waited q),
                           command_request (dr_ip r) (rs_port (waited q)) (dr_token r) (command_path c pos) (c = Seek))))"

section \<open>What the phone says\<close>

datatype remote_event = Update bool string string bool string | Completed nat "u16 option"

fun remote_step :: "remote_event \<Rightarrow> remote \<Rightarrow> remote" where
  "remote_step (Update asked i token only sid) r = update_remote asked i token only sid r"
| "remote_step (Completed n port) r = completed n port r"

definition run_remote :: "remote_event list \<Rightarrow> remote \<Rightarrow> remote" where
  "run_remote = fold remote_step"

definition credentials_ok :: "remote \<Rightarrow> bool" where
  "credentials_ok r \<longleftrightarrow> (dr_token r = [] \<or> remote_token (dr_token r)) \<and> (dr_id r = [] \<or> hex_id (dr_id r))
     \<and> (dr_resolve r \<noteq> None \<longrightarrow> dr_id r \<noteq> [])
     \<and> (\<forall>q. dr_resolve r = Some q \<longrightarrow> rs_query q < dr_queries r \<and> (rs_pending q \<longrightarrow> rs_port q = 0))"

lemma credentials_step: "credentials_ok r \<Longrightarrow> credentials_ok (remote_step e r)"
  by (cases e) (auto simp: credentials_ok_def update_remote_def completed_def start_resolve_def hex_id_def Let_def
      split: option.splits)

lemma credentials_run: "credentials_ok r \<Longrightarrow> credentials_ok (run_remote es r)"
  by (induction es arbitrary: r) (simp_all add: run_remote_def credentials_step)

lemma run_remote_ip: "dr_ip (run_remote es r) = dr_ip r"
proof (induction es arbitrary: r)
  case (Cons e es)
  have "dr_ip (remote_step e r) = dr_ip r"
    by (cases e) (simp_all add: update_remote_def completed_def start_resolve_def Let_def split: option.split)
  then show ?case using Cons by (simp add: run_remote_def)
qed (simp add: run_remote_def)

text \<open>A failed look-up is not repeated: as long as the phone names the same id, the remote control
  stays unavailable.\<close>

lemma failed_lookup_is_final:
  assumes "dr_resolve r = Some q" and "\<not> rs_pending q" and "rs_port q = 0" and "dr_id r \<noteq> []"
    and "list_all (\<lambda>e. case e of Update asked i token only sid \<Rightarrow> i = dr_id r \<or> i = [] | Completed n p \<Rightarrow> True) es"
  shows "\<not> available sid (run_remote es r)"
  using assms
proof (induction es arbitrary: r)
  case Nil
  then show ?case by (simp add: run_remote_def available_def)
next
  case (Cons e es)
  have "dr_resolve (remote_step e r) = Some q \<and> dr_id (remote_step e r) = dr_id r"
    using Cons.prems by (cases e) (auto simp: update_remote_def completed_def Let_def)
  then show ?case using Cons.IH [of "remote_step e r"] Cons.prems by (simp add: run_remote_def)
qed

section \<open>The request on the wire\<close>

definition command_fields :: "string \<Rightarrow> u16 \<Rightarrow> string \<Rightarrow> (string \<times> string) list" where
  "command_fields ip port token = [(''Host'', host_name ip @ '':'' @ show_nat (unat port)), (''Active-Remote'', token),
     (''Content-Length'', ''0''), (''Connection'', ''close'')]"

definition command_message :: "string \<Rightarrow> u16 \<Rightarrow> string \<Rightarrow> media_command \<Rightarrow> u32 \<Rightarrow> request" where
  "command_message ip port token c pos = empty_request\<lparr>
     rq_method := (if c = Seek then ''POST'' else ''GET''), rq_uri := ''/ctrl-int/1/'' @ command_path c pos, rq_version := ''HTTP/1.1'',
     rq_headers := header_map (command_fields ip port token)\<rparr>"

lemma command_request_render:
  "command_request ip port token (command_path c pos) (c = Seek)
     = render_request (command_fields ip port token) (command_message ip port token c pos)"
  by (simp add: command_request_def render_request_def command_message_def command_fields_def header_line_def empty_request_def of_bytes_def)

lemma clean_word_field: "word_ok k \<Longrightarrow> CHR '':'' \<notin> set k \<Longrightarrow> word_ok v \<Longrightarrow> clean_field (k, v)"
  using word_ok_no_cr [of k] word_ok_no_cr [of v] trim_ws_word [of k] trim_ws_word [of v]
  by (simp add: clean_field_def word_ok_def)

lemma word_ok_append: "word_ok v \<Longrightarrow> word_ok w \<Longrightarrow> word_ok (v @ w)"
  by (auto simp: word_ok_def)

lemma word_constants [simp]:
  "word_ok ''Host''" "word_ok ''Active-Remote''" "word_ok ''Content-Length''" "word_ok ''Connection''" "word_ok ''close''"
  "word_ok ''0''" "word_ok ''POST''" "word_ok ''GET''" "word_ok ''HTTP/1.1''" "word_ok '':''" "word_ok ''[''" "word_ok '']''"
  "word_ok ''/ctrl-int/1/''" "word_ok ''playpause''" "word_ok ''previtem''" "word_ok ''nextitem''"
  "word_ok ''setproperty?dacp.playingtime=''"
  by code_simp+

lemma word_token: "remote_token t \<Longrightarrow> word_ok t"
  using isdigit_not_isspace by (auto simp: remote_token_def word_ok_def list_all_iff)

lemma command_wf:
  assumes "word_ok ip" and "remote_token token"
  shows "wf_request (command_fields ip port token) (command_message ip port token c pos)"
proof -
  have "word_ok (host_name ip)"
    using word_ok_append [of "''[''"] word_ok_append [of ip "'']''"] assms(1) by (simp add: host_name_def)
  then have "word_ok (host_name ip @ '':'' @ show_nat (unat port))"
    using word_ok_append [of "'':''" "show_nat (unat port)"] word_ok_append by simp
  then have "\<forall>kv\<in>set (command_fields ip port token). clean_field kv"
    using word_token [OF assms(2)] by (simp add: command_fields_def clean_word_field)
  moreover have "word_ok (command_path c pos)"
    using word_ok_append [of "''setproperty?dacp.playingtime=''" "show_nat (unat pos)"] by (cases c) (simp_all add: command_path_def)
  then have "word_ok (''/ctrl-int/1/'' @ command_path c pos)"
    using word_ok_append [of "''/ctrl-int/1/''"] by simp
  moreover have "normalise_uri (CHR ''/'' # u) = CHR ''/'' # u" for u by (simp add: normalise_uri_def)
  moreover have l: "to_lower ''Host'' = ''host''" "to_lower ''Active-Remote'' = ''active-remote''" "to_lower ''Connection'' = ''connection''"
    by code_simp+
  have z: "show_nat 0 = ''0''" by (simp add: show_nat.simps [of 0] digit_char_def char_of_def bit_Suc_0_iff)
  have "content_length (command_message ip port token c pos) = 0"
    using content_length_show_nat [of "command_message ip port token c pos" 0] l
    by (simp add: command_message_def header_map_def command_fields_def z)
  ultimately show ?thesis by (simp add: wf_request_def command_message_def empty_request_def)
qed

section \<open>Properties\<close>

text \<open>C39: Whatever ids and tokens a phone puts into its headers, in whatever order with the answers of
  the look-ups, a command that is written goes to the address of that phone and is one request with
  exactly the four fields meant, an empty body and nothing after it: what the phone said appears only
  as a decimal token.\<close>

theorem dacp_request_unforged:
  assumes "word_ok ip" and "send_command c pos sid waited (run_remote es (new_remote ip)) = Some (dst, port, wire)"
  shows "dst = ip \<and> (\<exists>token. remote_token token \<and> parse_message wire = Some (command_message ip port token c pos, [])
    \<and> rq_headers (command_message ip port token c pos) = [''connection'' \<mapsto> ''close'', ''content-length'' \<mapsto> ''0'',
         ''active-remote'' \<mapsto> token, ''host'' \<mapsto> host_name ip @ '':'' @ show_nat (unat port)])"
proof -
  let ?r = "run_remote es (new_remote ip)"
  have ip: "dr_ip ?r = ip" by (simp add: run_remote_ip new_remote_def)
  have w: "dst = ip" "wire = command_request ip port (dr_token ?r) (command_path c pos) (c = Seek)" "dr_token ?r \<noteq> []"
    using assms(2) ip by (auto simp: send_command_def split: if_splits option.splits)
  have "credentials_ok ?r" by (rule credentials_run) (simp add: new_remote_def credentials_ok_def)
  then have t: "remote_token (dr_token ?r)" using w(3) by (simp add: credentials_ok_def)
  have "parse_message wire = Some (command_message ip port (dr_token ?r) c pos, [])"
    using parse_message_render [OF command_wf [OF assms(1) t], of _ _ _ "[]"] w(2) by (simp add: command_request_render)
  moreover have "to_lower ''Host'' = ''host''" "to_lower ''Active-Remote'' = ''active-remote''" "to_lower ''Connection'' = ''connection''"
    by code_simp+
  then have "rq_headers (command_message ip port (dr_token ?r) c pos) = [''connection'' \<mapsto> ''close'', ''content-length'' \<mapsto> ''0'',
         ''active-remote'' \<mapsto> dr_token ?r, ''host'' \<mapsto> host_name ip @ '':'' @ show_nat (unat port)]"
    by (simp add: command_message_def header_map_def command_fields_def fun_upd_twist)
  ultimately show ?thesis using w(1) t by blast
qed

section \<open>Witnesses\<close>

definition sample_remote :: "remote_event list" where
  "sample_remote = [Update True ''AB12'' ''77'' True ''s'', Completed 0 (Some 3689)]"

theorem dacp_request_unforged_witness:
  "\<exists>wire. send_command Next 0 ''s'' id (run_remote sample_remote (new_remote ''10.0.0.2'')) = Some (''10.0.0.2'', 3689, wire)
    \<and> rq_method (fst (the (parse_message wire))) = ''GET'' \<and> snd (the (parse_message wire)) = []"
proof -
  have t: "remote_token ''77''" "hex_id ''AB12''" by code_simp+
  have "\<exists>wire. send_command Next 0 ''s'' id (run_remote sample_remote (new_remote ''10.0.0.2'')) = Some (''10.0.0.2'', 3689, wire)"
    by (simp add: run_remote_def sample_remote_def update_remote_def completed_def start_resolve_def new_remote_def send_command_def t Let_def)
  moreover have "word_ok ''10.0.0.2''" by code_simp
  ultimately show ?thesis
    using dacp_request_unforged [of "''10.0.0.2''" Next 0 "''s''" id sample_remote] by (fastforce simp: command_message_def empty_request_def)
qed

end
