(* ===== verification/Server.thy ===== *)
theory Server
  imports Routes TcpServer DacpRemote
begin

text \<open>
  A control connection from its first request to its end (src/airplay/server.cpp) over the handlers
  of Routes: the loop of \<open>handle_client\<close>, what it releases afterwards, and the registry of the remote
  controls. Between two requests the worker threads of the stream session take steps of their own.
  The ledger of the stream session (Streams) is lifted to the whole connection: whatever the phone
  sends, the connection closes no socket but its own, and when it ends it has closed all of them.
\<close>

section \<open>The address of the peer\<close>

definition peer_ip :: "string \<Rightarrow> string" where
  "peer_ip peer =
     (if peer \<noteq> [] \<and> hd peer = CHR ''[''
      then (case find_pred (\<lambda>c. c = CHR '']'') peer of
              None \<Rightarrow> drop 1 peer | Some close_br \<Rightarrow> substr peer 1 (close_br - 1))
      else (case rfind_char (CHR '':'') peer of None \<Rightarrow> peer | Some colon \<Rightarrow> take colon peer))"

section \<open>The connection\<close>

text \<open>One turn of the loop: the request, the environment of its handler, whether the system accepts the
  look-up of the remote control, whether the connection has been cancelled by then and whether the
  answer could be sent; or a step of a worker.\<close>

datatype ('k, 'd) turn =
  Ask "('k, 'd) route_env" request bool bool bool
| Worker session_op

definition only_audio :: "'d state \<Rightarrow> bool" where
  "only_audio st = (case cl_streams (st_client st) of None \<Rightarrow> False | Some s \<Rightarrow> audio_only s)"

definition refresh_remote :: "bool \<Rightarrow> request \<Rightarrow> 'd state \<Rightarrow> remote \<Rightarrow> remote" where
  "refresh_remote asked rq st = update_remote asked (header rq ''dacp-id'') (header rq ''active-remote'') (only_audio st) (session_id_of st)"

text \<open>The answers that were sent, and the state in which the loop ends.\<close>

fun serve :: "'k crypto \<Rightarrow> 'd decoder_ops \<Rightarrow> device_context \<Rightarrow> ('k, 'd) turn list \<Rightarrow> 'd state \<times> remote
    \<Rightarrow> response list \<times> 'd state \<times> remote" where
  "serve cy ops ctx [] x = ([], x)"
| "serve cy ops ctx (Worker op # ts) (st, d) = serve cy ops ctx ts (on_streams (\<lambda>s k. exec cy ops op (s, k)) st, d)"
| "serve cy ops ctx (Ask rv rq asked cancelled sent # ts) (st, d) =
     (let (r, st1) = dispatch (rv\<lparr>rv_crypto := cy, rv_ops := ops\<rparr>) ctx rq st; d1 = refresh_remote asked rq st1 d
      in if cancelled then ([], (st1, d1))
         else if rs_silent r then serve cy ops ctx ts (st1, d1)
         else if \<not> sent then ([], (st1, d1))
         else (let (rs, y) = serve cy ops ctx ts (st1, d1) in (r # rs, y)))"

definition end_connection :: "device_context \<Rightarrow> 'd state \<Rightarrow> 'd state" where
  "end_connection ctx st =
     (let st1 = (if cl_reverse (st_client st) = [] then st
                 else on_hub (\<lambda>h. h\<lparr>hb_reverse := unregister_socket (cl_reverse (st_client st)) (hb_reverse h)\<rparr>) st);
          ended = session_id_of st1;
          st2 = reset_streams st1
      in if ended = [] then st2 else on_window ctx (clear_session_if_active ended) st2)"

text \<open>The whole connection, for the client that the socket server hands over.\<close>

definition handle_client ::
  "'k crypto \<Rightarrow> 'd decoder_ops \<Rightarrow> device_context \<Rightarrow> ('k, 'd) turn list \<Rightarrow> string \<Rightarrow> int \<Rightarrow> hub \<Rightarrow> kernel \<Rightarrow> bytes
     \<Rightarrow> response list \<times> 'd state" where
  "handle_client cy ops ctx ts peer fd h k file =
     (let ip = peer_ip peer;
          st0 = \<lparr>st_client = new_client ip fd (dc_hwaccel ctx), st_hub = h, st_kernel = k, st_cover_file = file\<rparr>;
          (rs, (st, _)) = serve cy ops ctx ts (st0, new_remote ip)
      in (rs, end_connection ctx st))"

section \<open>All connections\<close>

text \<open>\<open>disconnect_clients\<close>: the callback that runs when the last connection has ended.\<close>

definition all_disconnected :: "device_context \<Rightarrow> hub \<Rightarrow> hub" where
  "all_disconnected ctx h =
     window ctx (\<lambda>r. clear_active_device (clear_session r)) (in_registry (set_active_session []) (player ctx [Player_stop] h))"

text \<open>The remote controls, by connection; a scan in the order of the descriptors.\<close>

type_synonym remotes = "(sock \<times> remote) list"

definition audio_control_available :: "string \<Rightarrow> remotes \<Rightarrow> bool" where
  "audio_control_available sid rs = (sid \<noteq> [] \<and> list_ex (\<lambda>(fd, r). available sid r) rs)"

definition control_audio ::
  "media_command \<Rightarrow> u32 \<Rightarrow> string \<Rightarrow> (resolve \<Rightarrow> resolve) \<Rightarrow> remotes \<Rightarrow> (string \<times> u16 \<times> string) option" where
  "control_audio c pos sid waited rs =
     (if sid = [] then None
      else case find (\<lambda>(fd, r). available sid r) rs of
             None \<Rightarrow> None | Some (fd, r) \<Rightarrow> send_command c pos sid waited r)"

section \<open>The ledger of a connection\<close>

definition conn_socks :: "'d state \<Rightarrow> sock list" where
  "conn_socks st = (case cl_streams (st_client st) of None \<Rightarrow> [] | Some s \<Rightarrow> held s)"

definition conn_ok :: "'d state \<Rightarrow> bool" where
  "conn_ok st \<longleftrightarrow> owns (conn_socks st) (st_kernel st) \<and> (case cl_streams (st_client st) of None \<Rightarrow> True | Some s \<Rightarrow> session_ok s)"

definition conn_ledger :: "'d state \<Rightarrow> 'd state \<Rightarrow> sock set \<Rightarrow> bool" where
  "conn_ledger st st' lost \<longleftrightarrow> ledger (conn_socks st) (st_kernel st) (conn_socks st') (st_kernel st') lost \<and> conn_ok st'"

definition same_streams :: "'d state \<Rightarrow> 'd state \<Rightarrow> bool" where
  "same_streams st st' \<longleftrightarrow> cl_streams (st_client st') = cl_streams (st_client st) \<and> st_kernel st' = st_kernel st"

lemma conn_same: "conn_ok st \<Longrightarrow> same_streams st st' \<Longrightarrow> conn_ledger st st' {}"
  by (simp add: conn_ledger_def same_streams_def conn_ok_def conn_socks_def ledger_balanced [symmetric] balanced_refl)

lemma conn_trans: "conn_ledger st st1 X \<Longrightarrow> conn_ledger st1 st2 Y \<Longrightarrow> conn_ledger st st2 (X \<union> Y)"
  unfolding conn_ledger_def using ledger_trans by blast

lemma conn_step:
  assumes "conn_ok st" and "cl_streams (st_client st) = Some s" and "exec cy ops op (s, st_kernel st) = (s', k')"
    and "cl_streams (st_client st') = Some s'" and "st_kernel st' = k'"
  shows "\<exists>X \<subseteq> set (overwritten op s). conn_ledger st st' X"
proof -
  have "owns (held s) (st_kernel st)" "session_ok s" using assms(1,2) by (simp_all add: conn_ok_def conn_socks_def)
  from exec_ledger [OF this assms(3)] obtain X
    where "X \<subseteq> set (overwritten op s)" "ledger (held s) (st_kernel st) (held s') k' X" "session_ok s'" by blast
  then show ?thesis
    using assms ledger_owns by (intro exI [of _ X]) (auto simp: conn_ledger_def conn_ok_def conn_socks_def)
qed

text \<open>Calls on the stream session.\<close>

lemma conn_on_streams:
  fixes st :: "'d state"
  assumes "conn_ok st" and "\<And>s k. f s k = exec cy ops op (s, k)" and "\<And>s :: 'd streams. overwritten op s = []"
  shows "conn_ledger st (on_streams f st) {}"
proof (cases "cl_streams (st_client st)")
  case None
  then show ?thesis using conn_same [OF assms(1), of st] by (simp add: on_streams_def same_streams_def)
next
  case (Some s)
  obtain s' k' where e: "exec cy ops op (s, st_kernel st) = (s', k')" by fastforce
  have "on_streams f st = (on_client (\<lambda>c. c\<lparr>cl_streams := Some s'\<rparr>) st)\<lparr>st_kernel := k'\<rparr>"
    using Some e assms(2) by (simp add: on_streams_def)
  then have "\<exists>X \<subseteq> set (overwritten op s). conn_ledger st (on_streams f st) X"
    by (intro conn_step [OF assms(1) Some e]) (simp_all add: on_client_def)
  then show ?thesis using assms(3) by simp
qed

lemma conn_call_streams:
  assumes "conn_ok st" and "\<And>s k. snd (f s k) = exec cy ops op (s, k)" and "call_streams f st = (r, st')"
  shows "\<exists>X. conn_ledger st st' X \<and> (case cl_streams (st_client st) of None \<Rightarrow> X = {} | Some s \<Rightarrow> X \<subseteq> set (overwritten op s))"
proof (cases "cl_streams (st_client st)")
  case None
  then show ?thesis using conn_same [OF assms(1), of st] assms(3) by (auto simp: call_streams_def same_streams_def)
next
  case (Some s)
  obtain r' s' k' where f: "f s (st_kernel st) = (r', s', k')" by (rule prod_cases3)
  then have e: "exec cy ops op (s, st_kernel st) = (s', k')" using assms(2) [of s "st_kernel st"] by simp
  have "st' = (on_client (\<lambda>c. c\<lparr>cl_streams := Some s'\<rparr>) st)\<lparr>st_kernel := k'\<rparr>"
    using Some f assms(3) by (simp add: call_streams_def)
  then show ?thesis using conn_step [OF assms(1) Some e, of st'] Some by (auto simp: on_client_def)
qed

lemma conn_ensure:
  fixes st :: "'a state"
  assumes "conn_ok st"
  shows "conn_ledger st (ensure_streams (set_renderer b) sid st) {}" "conn_ledger st (ensure_streams id sid st) {}"
proof -
  have h: "held (set_renderer b (new_streams sid) :: 'a streams) = []" "session_ok (set_renderer b (new_streams sid) :: 'a streams)"
    "held (new_streams sid :: 'a streams) = []" "session_ok (new_streams sid :: 'a streams)"
    by (simp_all add: new_streams_def held_defs session_ok_def set_renderer_def)
  show "conn_ledger st (ensure_streams (set_renderer b) sid st) {}" "conn_ledger st (ensure_streams id sid st) {}"
    using assms h
    by (auto simp del: id_apply simp: ensure_streams_def on_client_def conn_ledger_def conn_ok_def conn_socks_def
        ledger_balanced [symmetric] balanced_refl id_def split: option.splits)
qed

lemma conn_reset:
  assumes "conn_ok st"
  shows "conn_ledger st (reset_streams st) {} \<and> conn_socks (reset_streams st) = [] \<and> cl_streams (st_client (reset_streams st)) = None"
proof (cases "cl_streams (st_client st)")
  case None
  then show ?thesis using conn_same [OF assms, of "reset_streams st"]
    by (simp add: reset_streams_def on_streams_def on_client_def same_streams_def conn_socks_def)
next
  case (Some s)
  obtain s' k' where t: "teardown s (st_kernel st) = (s', k')" by fastforce
  have s: "owns (held s) (st_kernel st)" "session_ok s" using assms Some by (simp_all add: conn_ok_def conn_socks_def)
  have "balanced (held s) (st_kernel st) [] k'" by (rule teardown_balanced [OF s t])
  then show ?thesis using Some t balanced_owns
    by (auto simp: reset_streams_def on_streams_def on_client_def conn_ledger_def conn_ok_def conn_socks_def ledger_balanced)
qed

section \<open>The handlers keep the ledger\<close>

lemma same_small [simp]:
  "same_streams st st" "same_streams st (on_hub g st)" "same_streams st (on_window ctx w st)"
  "same_streams st (st\<lparr>st_cover_file := b\<rparr>)" "same_streams st (snd (via_hub h st))" "same_streams st (end_playback ctx sid st)"
  by (simp_all add: same_streams_def on_hub_def on_window_def via_hub_def end_playback_def case_prod_unfold Let_def)

lemma same_on_client: "(\<And>c. cl_streams (g c) = cl_streams c) \<Longrightarrow> same_streams st (on_client g st)"
  by (simp add: same_streams_def on_client_def)

lemma same_trans: "same_streams st st1 \<Longrightarrow> same_streams st1 st2 \<Longrightarrow> same_streams st st2"
  by (simp add: same_streams_def)

lemma conn_then_same: "conn_ledger st st1 X \<Longrightarrow> same_streams st1 st2 \<Longrightarrow> conn_ledger st st2 X"
  using conn_trans [of st st1 X st2 "{}"] conn_same [of st1 st2] by (simp add: conn_ledger_def)

text \<open>The sockets that a SETUP would overwrite; for every other request, and for a SETUP that does not
  repeat one, there are none.\<close>

definition repeated :: "('k, 'd) route_env \<Rightarrow> request \<Rightarrow> 'd state \<Rightarrow> bool" where
  "repeated rv rq st \<longleftrightarrow> rq_method rq = ''SETUP'' \<and>
     (case cl_streams (st_client st) of
        None \<Rightarrow> False
      | Some s \<Rightarrow>
          (if rq_body rq = [] then handles [ss_data s, ss_ctrl s, ss_timing s] \<noteq> []
           else (\<exists>q. parse_airplay2_setup (en_plist (rv_env rv)) (rq_body rq) = Some q \<and> sq_has_keys q)
                \<and> handles [ss_event s, ss_ap2_timing s] \<noteq> []))"

lemma ensure_overwritten:
  "cl_streams (st_client st) = None \<Longrightarrow> cl_streams (st_client (ensure_streams f sid st)) = Some (f (new_streams sid))"
  "cl_streams (st_client st) = Some s \<Longrightarrow> ensure_streams f sid st = st"
  by (simp_all add: ensure_streams_def on_client_def)

lemma new_overwritten: "overwritten op (set_renderer b (new_streams sid)) = []" "overwritten op (new_streams sid) = []"
  by (cases op; simp add: new_streams_def set_renderer_def)+

lemma conn_legacy:
  fixes st :: "'d state"
  assumes "conn_ok st"
  shows "\<exists>X. conn_ledger st (snd (setup_legacy_path rv rq st)) X
    \<and> (X = {} \<or> (\<exists>s. cl_streams (st_client st) = Some s \<and> handles [ss_data s, ss_ctrl s, ss_timing s] \<noteq> []))"
proof -
  let ?e = "ensure_streams id (rv_fresh rv) st" and ?t = "header rq ''transport''"
  obtain r st2 where c: "call_streams (setup_legacy ?t) ?e = (r, st2)" by fastforce
  have e: "conn_ledger st ?e {}" by (rule conn_ensure(2) [OF assms])
  then have "conn_ok ?e" by (simp add: conn_ledger_def)
  from conn_call_streams [OF this, where cy = undefined and ops = undefined and op = "SetupLegacy ?t", OF _ c]
  obtain X where X: "conn_ledger ?e st2 X"
    "case cl_streams (st_client ?e) of None \<Rightarrow> X = {} | Some s \<Rightarrow> X \<subseteq> set (overwritten (SetupLegacy ?t) s)" by auto
  have "snd (setup_legacy_path rv rq st) = st2" using c by (simp add: setup_legacy_path_def split: option.split)
  moreover have "X = {} \<or> (\<exists>s. cl_streams (st_client st) = Some s \<and> handles [ss_data s, ss_ctrl s, ss_timing s] \<noteq> [])"
  proof (cases "cl_streams (st_client st)")
    case None
    then show ?thesis using X(2) by (simp add: ensure_overwritten(1) new_overwritten(2) del: overwritten.simps)
  next
    case (Some s)
    then show ?thesis using X(2) by (cases "handles [ss_data s, ss_ctrl s, ss_timing s] = []") (simp_all add: ensure_overwritten(2))
  qed
  ultimately show ?thesis using conn_trans [OF e X(1)] by auto
qed

lemma conn_session_branch:
  fixes st :: "'d state"
  assumes "conn_ok st" and "session_branch rv q st = (r, st')"
  shows "\<exists>X. conn_ledger st st' X \<and> (X = {} \<or> sq_has_keys q \<and>
    (\<exists>s. cl_streams (st_client st) = Some s \<and> handles [ss_event s, ss_ap2_timing s] \<noteq> []))"
proof (cases "\<not> sq_has_keys q \<or> sq_remote_only q")
  case True
  then have "st' = st" using assms(2) by (auto simp: session_branch_def split: if_splits)
  then show ?thesis using conn_same [OF assms(1), of st] by (intro exI [of _ "{}"]) simp
next
  case False
  let ?e = "on_client (store_key rv q) st"
  obtain r2 st2 where c: "call_streams setup_session ?e = (r2, st2)" by fastforce
  have s: "same_streams st ?e" by (rule same_on_client) simp
  then have e: "conn_ledger st ?e {}" by (rule conn_same [OF assms(1)])
  then have "conn_ok ?e" by (simp add: conn_ledger_def)
  from conn_call_streams [OF this, where cy = undefined and ops = undefined and op = SetupSession, OF _ c]
  obtain X where X: "conn_ledger ?e st2 X"
    "case cl_streams (st_client ?e) of None \<Rightarrow> X = {} | Some s \<Rightarrow> X \<subseteq> set (overwritten SetupSession s)" by auto
  have ok2: "conn_ok st2" using X(1) by (simp add: conn_ledger_def)
  have "conn_ledger st2 st' {}"
  proof -
    let ?f = "\<lambda>s :: 'd streams. snd (start_ntp (cl_ip (st_client st2)) (ucast (sq_timing_port q)) s)"
    have "conn_ledger st2 (pure_streams ?f st2) {}"
      unfolding pure_streams_def
      by (rule conn_on_streams [OF ok2, where op = "StartNtp (cl_ip (st_client st2)) (ucast (sq_timing_port q))"]) simp_all
    moreover have "st' = st2 \<or> st' = pure_streams ?f st2"
      using assms(2) False c by (auto simp: session_branch_def split: option.splits if_splits prod.splits)
    ultimately show ?thesis using conn_same [OF ok2, of st2] by auto
  qed
  from conn_trans [OF conn_trans [OF e X(1)] this] have "conn_ledger st st' X" by simp
  moreover have "X = {} \<or> (\<exists>s. cl_streams (st_client st) = Some s \<and> handles [ss_event s, ss_ap2_timing s] \<noteq> [])"
    using X(2) s by (auto simp: same_streams_def split: option.splits)
  ultimately show ?thesis using False by blast
qed

lemma conn_allocate:
  "conn_ok st \<Longrightarrow> allocate_streams rv ctx qs st = (r, st') \<Longrightarrow> conn_ledger st st' {}"
proof (induction rv ctx qs st arbitrary: r st' rule: allocate_streams.induct)
  case (1 rv ctx st)
  then show ?case using conn_same [of st st] by simp
next
  case (2 rv ctx q qs st)
  let ?o = "opts_for ctx (st_client st) q"
  let ?f = "setup_stream (rv_crypto rv) (rv_ops rv) (rv_audio rv) (sr_type q) ?o"
  obtain r1 st1 where c: "call_streams ?f st = (r1, st1)" by fastforce
  from conn_call_streams [OF 2(2), where cy = "rv_crypto rv" and ops = "rv_ops rv" and op = "SetupStream (rv_audio rv) (sr_type q) ?o", OF _ c]
  have l: "conn_ledger st st1 {}" by (auto split: option.splits)
  show ?case
  proof (cases r1)
    case None
    then show ?thesis using 2(3) c l by simp
  next
    case (Some p)
    obtain r2 st2 where a: "allocate_streams rv ctx qs st1 = (r2, st2)" by fastforce
    have "conn_ledger st1 st2 {}" using 2(1) [OF c [symmetric] Some _ a] l by (simp add: conn_ledger_def)
    moreover have "st' = st2" using 2(3) c Some a by (auto split: option.splits)
    ultimately show ?thesis using conn_trans [OF l] by fastforce
  qed
qed

lemma conn_airplay2:
  fixes st :: "'d state"
  assumes "conn_ok st"
  shows "\<exists>X. conn_ledger st (snd (setup_airplay2_path rv ctx rq st)) X \<and> (X = {} \<or>
    (\<exists>q s. parse_airplay2_setup (en_plist (rv_env rv)) (rq_body rq) = Some q \<and> sq_has_keys q
       \<and> cl_streams (st_client st) = Some s \<and> handles [ss_event s, ss_ap2_timing s] \<noteq> []))"
proof -
  let ?p = "setup_airplay2_path rv ctx rq st" and ?b = "parse_airplay2_setup (en_plist (rv_env rv)) (rq_body rq)"
  let ?e = "ensure_streams (set_renderer (dc_renderer ctx)) (rv_fresh rv) st"
  have idle: ?thesis if "snd ?p = st" using conn_same [OF assms, of st] that by (intro exI [of _ "{}"]) simp
  show ?thesis
  proof (cases ?b)
    case None
    then show ?thesis by (intro idle) (simp add: setup_airplay2_path_def)
  next
    case (Some q)
    obtain es st2 where b: "session_branch rv q ?e = (es, st2)" by fastforce
    obtain fs st3 where a: "streams_branch rv ctx q st2 = (fs, st3)" by fastforce
    have e: "conn_ledger st ?e {}" by (rule conn_ensure(1) [OF assms])
    then have oke: "conn_ok ?e" by (simp add: conn_ledger_def)
    obtain X where X: "conn_ledger ?e st2 X" "X = {} \<or> sq_has_keys q \<and>
        (\<exists>s. cl_streams (st_client ?e) = Some s \<and> handles [ss_event s, ss_ap2_timing s] \<noteq> [])"
      using conn_session_branch [OF oke b] by blast
    have ok2: "conn_ok st2" using X(1) by (simp add: conn_ledger_def)
    have s3: "conn_ledger st2 st3 {}"
    proof (cases "sq_has_streams q")
      case False
      then show ?thesis using a conn_same [OF ok2, of st2] by (simp add: streams_branch_def)
    next
      case True
      obtain r st4 where c: "allocate_streams rv ctx (sq_streams q) st2 = (r, st4)" by fastforce
      then have "st3 = st4" using True a by (auto simp: streams_branch_def split: option.splits)
      then show ?thesis using conn_allocate [OF ok2 c] by simp
    qed
    have l: "conn_ledger st st2 X" "conn_ledger st st3 X"
      using conn_trans [OF e X(1)] conn_trans [OF conn_trans [OF e X(1)] s3] by simp_all
    have "\<exists>st4. (snd ?p = st \<or> snd ?p = st2 \<or> snd ?p = st4) \<and> same_streams st3 st4"
      using Some b a by (auto simp: setup_airplay2_path_def show_device_def Let_def intro: exI [of _ st3] split: option.splits)
    then have "snd ?p = st \<or> conn_ledger st (snd ?p) X" using l conn_then_same by metis
    moreover have "X = {} \<or> sq_has_keys q \<and> (\<exists>s. cl_streams (st_client st) = Some s \<and> handles [ss_event s, ss_ap2_timing s] \<noteq> [])"
    proof (cases "cl_streams (st_client st)")
      case None
      then show ?thesis using X(2) by (auto simp: ensure_overwritten(1) set_renderer_def new_streams_def)
    next
      case (Some s)
      then show ?thesis using X(2) by (simp add: ensure_overwritten(2))
    qed
    ultimately show ?thesis using Some idle by blast
  qed
qed

lemma conn_setup:
  assumes "conn_ok st" and "rq_method rq = ''SETUP''"
  shows "\<exists>X. conn_ledger st (snd (handle_setup rv ctx rq st)) X \<and> (\<not> repeated rv rq st \<longrightarrow> X = {})"
proof (cases "rq_body rq = []")
  case True
  then show ?thesis
    using conn_legacy [OF assms(1), of rv rq] conn_same [OF assms(1), of st] assms(2)
    by (cases "header rq ''transport'' = []") (auto simp: handle_setup_def repeated_def)
next
  case False
  then show ?thesis
    using conn_airplay2 [OF assms(1), of rv ctx rq] assms(2) by (auto simp: handle_setup_def repeated_def)
qed

lemma conn_stop_streams: "conn_ok st \<Longrightarrow> conn_ledger st (fold (\<lambda>t. on_streams (stop_stream now t)) types st) {}"
proof (induction types arbitrary: st)
  case Nil
  then show ?case using conn_same [of st st] by simp
next
  case (Cons t types)
  have l: "conn_ledger st (on_streams (stop_stream now t) st) {}"
    by (rule conn_on_streams [OF Cons.prems, where cy = undefined and ops = undefined and op = "StopStream now t"]) simp_all
  then show ?case using conn_trans [OF l Cons.IH] by (simp add: conn_ledger_def)
qed

lemma conn_teardown:
  assumes "conn_ok st"
  shows "conn_ledger st (snd (handle_teardown rv ctx rq st)) {}"
proof -
  have "same_streams (reset_streams st) (end_playback ctx sid (on_window ctx w (on_client (\<lambda>c. c\<lparr>cl_sdp := None\<rparr>) (reset_streams st))))"
    for sid w
    by (rule same_trans [OF same_on_client same_trans [OF same_small(3) same_small(6)]]) simp
  then show ?thesis
    using conn_stop_streams [OF assms] conn_then_same [OF conn_reset [OF assms, THEN conjunct1]] conn_same [OF assms same_small(6)]
    by (simp add: handle_teardown_def Let_def)
qed

lemma conn_pure:
  assumes "conn_ok st" and "\<And>s k. exec (undefined :: unit crypto) undefined op (s, k) = (f s, k)" and "\<And>s :: 'd streams. overwritten op s = []"
  shows "conn_ledger st (pure_streams f st :: 'd state) {}"
  unfolding pure_streams_def
  by (rule conn_on_streams [OF assms(1), where cy = "undefined :: unit crypto" and ops = undefined and op = op]) (simp_all add: assms(2,3))

lemma conn_parameter:
  assumes "conn_ok st"
  shows "conn_ledger st (snd (handle_set_parameter rv ctx rq st)) {}"
proof -
  have t: "same_streams st (text_parameter rv ctx body st)" for body
    by (auto simp: text_parameter_def set_progress_def same_streams_def on_window_def on_hub_def on_client_def split: option.splits)
  have a: "conn_ledger st (pure_streams (set_audio_track tr) st) {}" for tr
    by (rule conn_pure [OF assms, where op = "AudioTrack tr"]) simp_all
  have "conn_ledger st (on_window ctx w (pure_streams (set_audio_track tr) st)) {}" for tr w
    by (rule conn_then_same [OF a same_small(3)])
  then have d: "conn_ledger st (dmap_parameter ctx body st) {}" for body
    using conn_same [OF assms] by (simp add: dmap_parameter_def split: option.split prod.split bool.split)
  have c: "same_streams st (on_window ctx w (st\<lparr>st_cover_file := b\<rparr>))" for w b
    by (rule same_trans [OF same_small(4) same_small(3)])
  show ?thesis
    using conn_same [OF assms t] d conn_same [OF assms c] conn_same [OF assms, of st]
    by (simp add: handle_set_parameter_def Let_def)
qed

lemma conn_dispatch:
  assumes "conn_ok st"
  shows "\<exists>X. conn_ledger st (snd (dispatch rv ctx rq st)) X \<and> (\<not> repeated rv rq st \<longrightarrow> X = {})"
proof -
  have flush: "conn_ledger st (snd (handle_flush rv ctx rq st)) {}"
  proof -
    have "conn_ledger st (pure_streams (flush_audio (rv_now rv) (flush_timestamp (header rq ''rtp-info''))) st) {}"
      by (rule conn_pure [OF assms, where op = "FlushAudio (rv_now rv) (flush_timestamp (header rq ''rtp-info''))"]) simp_all
    then show ?thesis by (auto simp: handle_flush_def intro: conn_then_same)
  qed
  have mode: "conn_ledger st (snd (handle_audio_mode rv ctx rq st)) {}"
  proof -
    have "conn_ledger st (pure_streams (resume_audio (rv_now rv)) st) {}"
      by (rule conn_pure [OF assms, where op = "ResumeAudio (rv_now rv)"]) simp_all
    then show ?thesis by (auto simp: handle_audio_mode_def intro: conn_then_same)
  qed
  have same: "same_streams st (snd (handle_pair_verify rv rq st))" "same_streams st (snd (handle_fp_setup rv rq st))"
      "same_streams st (snd (handle_announce rq st))" "same_streams st (snd (handle_record ctx rq st))"
      "same_streams st (snd (open_reverse rq st))"
    by (auto simp: handle_pair_verify_def handle_fp_setup_def handle_announce_def handle_record_def open_reverse_def via_hub_def
        same_streams_def on_client_def on_window_def on_hub_def Let_def split: option.splits prod.splits)
  have quiet: ?thesis if "same_streams st (snd (dispatch rv ctx rq st))"
    using conn_same [OF assms that] by blast
  consider "rq_method rq = ''SETUP''" | "rq_method rq = ''TEARDOWN''" | "rq_method rq = ''SET_PARAMETER''"
    | "rq_method rq = ''FLUSH'' \<or> rq_method rq = ''PAUSE''"
    | "rq_method rq = ''POST''" "route_path (rq_uri rq) = ''/audioMode''"
    | (other) "rq_method rq \<notin> {''SETUP'', ''TEARDOWN'', ''SET_PARAMETER'', ''FLUSH'', ''PAUSE''}"
        "\<not> (rq_method rq = ''POST'' \<and> route_path (rq_uri rq) = ''/audioMode'')"
    by blast
  then show ?thesis
  proof cases
    case 1
    then show ?thesis using conn_setup [OF assms 1] by (simp add: dispatch_def)
  next
    case 2
    then show ?thesis using conn_teardown [OF assms, of rv ctx rq] by (auto simp: dispatch_def)
  next
    case 3
    then show ?thesis using conn_parameter [OF assms, of rv ctx rq] by (auto simp: dispatch_def)
  next
    case 4
    then show ?thesis using flush by (auto simp: dispatch_def)
  next
    case 5
    then show ?thesis using mode by (auto simp: dispatch_def)
  next
    case other
    then show ?thesis by (intro quiet) (simp add: dispatch_def Let_def same, blast)
  qed
qed

section \<open>The whole connection\<close>

definition worker_op :: "session_op \<Rightarrow> bool" where
  "worker_op op \<longleftrightarrow> (case op of NtpGivesUp \<Rightarrow> True | MirrorAccept \<Rightarrow> True | MirrorServe evs \<Rightarrow> True | AudioWork w \<Rightarrow> True | _ \<Rightarrow> False)"

lemma worker_calm: "worker_op op \<Longrightarrow> overwritten op s = []"
  by (cases op) (simp_all add: worker_op_def)

text \<open>The turns of a connection in which no SETUP repeats one whose sockets are still held.\<close>

fun orderly :: "'k crypto \<Rightarrow> 'd decoder_ops \<Rightarrow> device_context \<Rightarrow> ('k, 'd) turn list \<Rightarrow> 'd state \<Rightarrow> bool" where
  "orderly cy ops ctx [] st = True"
| "orderly cy ops ctx (Worker op # ts) st = orderly cy ops ctx ts (on_streams (\<lambda>s k. exec cy ops op (s, k)) st)"
| "orderly cy ops ctx (Ask rv rq asked cancelled sent # ts) st =
     (\<not> repeated (rv\<lparr>rv_crypto := cy, rv_ops := ops\<rparr>) rq st
      \<and> orderly cy ops ctx ts (snd (dispatch (rv\<lparr>rv_crypto := cy, rv_ops := ops\<rparr>) ctx rq st)))"

definition workers_only :: "('k, 'd) turn list \<Rightarrow> bool" where
  "workers_only ts = list_all (\<lambda>t. case t of Ask rv rq asked cancelled sent \<Rightarrow> True | Worker op \<Rightarrow> worker_op op) ts"

lemma conn_serve:
  "conn_ok st \<Longrightarrow> workers_only ts \<Longrightarrow> serve cy ops ctx ts (st, d) = (rs, (st', d'))
     \<Longrightarrow> \<exists>X. conn_ledger st st' X \<and> (orderly cy ops ctx ts st \<longrightarrow> X = {})"
proof (induction ts arbitrary: st d rs)
  case Nil
  then show ?case using conn_same [of st st] by fastforce
next
  case (Cons t ts)
  show ?case
  proof (cases t)
    case (Worker op)
    let ?st = "on_streams (\<lambda>s k. exec cy ops op (s, k)) st"
    have w: "worker_op op" using Cons.prems(2) Worker by (simp add: workers_only_def)
    have l: "conn_ledger st ?st {}"
      by (rule conn_on_streams [OF Cons.prems(1), where cy = cy and ops = ops and op = op]) (simp_all add: worker_calm [OF w])
    then have "conn_ok ?st" by (simp add: conn_ledger_def)
    then obtain X where "conn_ledger ?st st' X" "orderly cy ops ctx ts ?st \<longrightarrow> X = {}"
      using Cons.IH [of ?st d rs] Cons.prems(2,3) Worker by (auto simp: workers_only_def)
    then show ?thesis using conn_trans [OF l] Worker by fastforce
  next
    case (Ask rv rq asked cancelled sent)
    let ?rv = "rv\<lparr>rv_crypto := cy, rv_ops := ops\<rparr>"
    obtain r st1 where d: "dispatch ?rv ctx rq st = (r, st1)" by fastforce
    obtain X where X: "conn_ledger st st1 X" "\<not> repeated ?rv rq st \<longrightarrow> X = {}"
      using conn_dispatch [OF Cons.prems(1), of ?rv ctx rq] d by auto
    have ok: "conn_ok st1" using X(1) by (simp add: conn_ledger_def)
    show ?thesis
    proof (cases "cancelled \<or> \<not> rs_silent r \<and> \<not> sent")
      case True
      then have "st' = st1" using Cons.prems(3) Ask d by (auto simp: Let_def split: if_splits)
      then show ?thesis using X Ask by auto
    next
      case False
      obtain rs1 where "serve cy ops ctx ts (st1, refresh_remote asked rq st1 d) = (rs1, (st', d'))"
        using Cons.prems(3) Ask d False by (auto simp: Let_def split: if_splits prod.splits)
      then obtain Y where Y: "conn_ledger st1 st' Y" "orderly cy ops ctx ts st1 \<longrightarrow> Y = {}"
        using Cons.IH [OF ok] Cons.prems(2) by (auto simp: workers_only_def)
      have "orderly cy ops ctx (t # ts) st \<longrightarrow> X \<union> Y = {}" using X(2) Y(2) Ask d by auto
      then show ?thesis using conn_trans [OF X(1) Y(1)] by blast
    qed
  qed
qed

lemma conn_end:
  assumes "conn_ok st"
  shows "conn_ledger st (end_connection ctx st) {} \<and> cl_streams (st_client (end_connection ctx st)) = None"
proof -
  let ?st1 = "if cl_reverse (st_client st) = [] then st
    else on_hub (\<lambda>h. h\<lparr>hb_reverse := unregister_socket (cl_reverse (st_client st)) (hb_reverse h)\<rparr>) st"
  have 1: "conn_ledger st ?st1 {}" by (rule conn_same [OF assms]) simp
  then have "conn_ok ?st1" by (simp add: conn_ledger_def)
  note 2 = conn_reset [OF this]
  have "conn_ledger st (reset_streams ?st1) {}" using conn_trans [OF 1 conjunct1 [OF 2]] by simp
  moreover have "same_streams (reset_streams ?st1) (end_connection ctx st)" by (simp add: end_connection_def Let_def)
  ultimately have "conn_ledger st (end_connection ctx st) {}" by (rule conn_then_same)
  moreover have "cl_streams (st_client (end_connection ctx st)) = cl_streams (st_client (reset_streams ?st1))"
    using \<open>same_streams (reset_streams ?st1) (end_connection ctx st)\<close> by (simp add: same_streams_def)
  ultimately show ?thesis using 2 by simp
qed

section \<open>Properties\<close>

text \<open>C4: Whatever a phone sends on a control connection, with any outcome of every call, any steps of
  the workers in between and the connection cut at any point: the connection closes no socket that is
  not its own, has no stream session left when it ends, and, when no SETUP repeated one whose sockets
  were still held, leaves exactly the sockets open that were open before.\<close>

theorem connection_leaves_no_socket:
  assumes "kernel_ok k" and "workers_only ts"
    and "handle_client cy ops ctx ts peer fd h k file = (rs, st)"
    and "st0 = \<lparr>st_client = new_client (peer_ip peer) fd (dc_hwaccel ctx), st_hub = h, st_kernel = k, st_cover_file = file\<rparr>"
  shows "kn_bad (st_kernel st) = kn_bad k \<and> set (kn_open k) \<subseteq> set (kn_open (st_kernel st))
    \<and> cl_streams (st_client st) = None
    \<and> (orderly cy ops ctx ts st0 \<longrightarrow> set (kn_open (st_kernel st)) = set (kn_open k))"
proof -
  have socks: "conn_socks st0 = []" and ok: "conn_ok st0"
    using assms(1,4) by (simp_all add: conn_ok_def conn_socks_def new_client_def owns_def)
  obtain st1 d where s: "serve cy ops ctx ts (st0, new_remote (peer_ip peer)) = (rs, (st1, d))" and st: "st = end_connection ctx st1"
    using assms(3,4) by (auto simp: handle_client_def Let_def split: prod.splits)
  obtain X where X: "conn_ledger st0 st1 X" "orderly cy ops ctx ts st0 \<longrightarrow> X = {}"
    using conn_serve [OF ok assms(2) s] by blast
  have "conn_ok st1" using X(1) by (simp add: conn_ledger_def)
  note e = conn_end [OF this, of ctx]
  have l: "conn_ledger st0 st X" using conn_trans [OF X(1) conjunct1 [OF e]] st by simp
  have "conn_socks st = []" using e st by (simp add: conn_socks_def)
  then have "set (kn_open (st_kernel st)) = set (kn_open k) \<union> X" "kn_bad (st_kernel st) = kn_bad k"
    using l socks assms(4) by (simp_all add: conn_ledger_def ledger_def unowned_def)
  then show ?thesis using X(2) e st by auto
qed

text \<open>The address that the connection handler cuts out of the name of a peer is the address that
  the socket server put into it, whatever the family and the port.\<close>

theorem peer_address_roundtrip:
  assumes "CHR '']'' \<notin> set (ntop6 b)"
  shows "peer_ip (peer_name ntop6 (In4 b p)) = dotted b
    \<and> peer_ip (peer_name ntop6 (In6 b p)) = (if v4_mapped b then dotted (drop 12 b) else ntop6 b)
    \<and> peer_ip (peer_name ntop6 Other_family) = []"
proof -
  have tail: "peer_ip (w @ '':'' @ show_nat n) = w" if "\<And>c. c \<in> set w \<Longrightarrow> isdigit c \<or> c = CHR ''.''" for w n
  proof -
    have "\<forall>x\<in>set (rev (show_nat n)). x \<noteq> CHR '':''" using show_nat_digits [of "CHR '':''" n] by (auto simp: isdigit_def)
    then have d: "find_pred (\<lambda>x. x = CHR '':'') (rev (show_nat n) @ CHR '':'' # rev w) = Some (length (show_nat n))"
      using find_pred_skip [of "rev (show_nat n)"] by simp
    have "hd (w @ '':'' @ show_nat n) \<noteq> CHR ''[''"
      using that [of "hd w"] by (cases w) (auto simp: isdigit_def)
    moreover have "rfind_char (CHR '':'') (w @ '':'' @ show_nat n) = Some (length w)"
      using d by (simp add: rfind_char_def)
    ultimately show ?thesis by (simp add: peer_ip_def)
  qed
  have six: "peer_ip (''['' @ a @ '']:'' @ show_nat n) = a" if "CHR '']'' \<notin> set a" for a n
  proof -
    have "find_pred (\<lambda>c. c = CHR '']'') ((''['' @ a) @ CHR '']'' # ('':'' @ show_nat n)) = Some (length (''['' @ a))"
      using that by (intro find_pred_skip) auto
    then show ?thesis by (simp add: peer_ip_def substr_def)
  qed
  show ?thesis
    using tail [of "dotted b"] tail [of "dotted (drop 12 b)"] tail [of "[]"] six [OF assms] dotted_chars
    by (simp add: peer_name_def)
qed

section \<open>What a connection leaves behind\<close>

text \<open>The window keeps a device whose session id is not that of the stream session that ends. After a
  /play the device carries the id of the HLS session (\<open>play_renames_device\<close>), so it stays, and every
  other address is refused from then on (\<open>second_device_refused\<close>) until all are disconnected.\<close>

lemma device_outlives_connection:
  assumes "vr_device (hb_renderer (st_hub st)) = Some d" and "dv_session d \<noteq> session_id_of st"
  shows "vr_device (hb_renderer (st_hub (end_connection ctx st))) = Some d"
proof -
  have r: "st_hub (reset_streams st1) = st_hub st1" for st1 :: "'a state"
    by (simp add: reset_streams_def on_streams_def on_client_def split: option.split prod.split)
  show ?thesis
    using assms
    by (simp add: end_connection_def r on_window_def on_hub_def window_def session_id_of_def Let_def)
qed

lemma disconnected_device_gone:
  "dc_renderer ctx \<Longrightarrow> st_hub st = all_disconnected ctx h \<Longrightarrow> \<not> taken_by_other ctx st"
  by (simp add: taken_by_other_def all_disconnected_def window_def clear_active_device_def)

text \<open>A reverse channel is given up by its id: when another connection has registered the same id in
  the meantime, its channel is lost; and of two ids registered on one connection the first stays,
  with the number of a closed socket.\<close>

lemma reregistered_channel_lost:
  assumes "cl_reverse (st_client st) = sid" and "sid \<noteq> []"
  shows "socket_for (hb_reverse (st_hub (end_connection ctx st))) sid = -1"
    and "other \<noteq> sid \<Longrightarrow> socket_for (hb_reverse (st_hub (end_connection ctx st))) other = socket_for (hb_reverse (st_hub st)) other"
proof -
  have r: "st_hub (reset_streams st1) = st_hub st1" for st1 :: "'a state"
    by (simp add: reset_streams_def on_streams_def on_client_def split: option.split prod.split)
  have "hb_reverse (st_hub (end_connection ctx st)) = unregister_socket sid (hb_reverse (st_hub st))"
    using assms by (simp add: end_connection_def r on_window_def on_hub_def Let_def)
  then show "socket_for (hb_reverse (st_hub (end_connection ctx st))) sid = -1"
    "other \<noteq> sid \<Longrightarrow> socket_for (hb_reverse (st_hub (end_connection ctx st))) other = socket_for (hb_reverse (st_hub st)) other"
    by (simp_all add: unregister_socket_def socket_for_def assms(2))
qed

section \<open>Witnesses\<close>

definition setup_request_line :: request where
  "setup_request_line = empty_request\<lparr>rq_method := ''SETUP'',
     rq_headers := [''transport'' \<mapsto> ''RTP/AVP/UDP;unicast;control_port=6001;timing_port=6002'']\<rparr>"

definition sample_turns :: "(nat, nat) turn list" where
  "sample_turns = [Ask sample_rv setup_request_line True False True, Worker MirrorAccept,
     Ask sample_rv (empty_request\<lparr>rq_method := ''RECORD''\<rparr>) True False True]"

theorem connection_leaves_no_socket_witness:
  "set (kn_open (st_kernel (snd (handle_client plain_crypto counting_decoder route_context sample_turns ''10.0.0.2:50000'' 5
     route_hub (boot all_ok) [])))) = {}"
proof -
  let ?st0 = "\<lparr>st_client = new_client (peer_ip ''10.0.0.2:50000'') 5 (dc_hwaccel route_context), st_hub = route_hub,
    st_kernel = boot all_ok, st_cover_file = []\<rparr> :: nat state"
  obtain rs st where h: "handle_client plain_crypto counting_decoder route_context sample_turns ''10.0.0.2:50000'' 5
      route_hub (boot all_ok) [] = (rs, st)" by fastforce
  have w: "workers_only sample_turns" by (simp add: workers_only_def sample_turns_def worker_op_def)
  have "orderly plain_crypto counting_decoder route_context sample_turns ?st0"
    by (simp add: sample_turns_def repeated_def setup_request_line_def new_client_def empty_request_def)
  then show ?thesis
    using connection_leaves_no_socket [OF boot_ok w h refl] h by (simp add: boot_def)
qed

theorem peer_address_roundtrip_witness: "peer_ip (peer_name (\<lambda>b. ''fe80::1'') (In6 (replicate 16 0) 7000)) = ''fe80::1''"
proof -
  have v: "\<not> v4_mapped (replicate 16 0)" proof -
    have "replicate 12 (0 :: byte) = replicate 10 0 @ replicate 2 0" by (simp flip: replicate_add)
    moreover have "replicate 2 (0 :: byte) = [0, 0]" by (simp add: numeral_2_eq_2)
    ultimately show ?thesis by (simp add: v4_mapped_def take_replicate)
  qed
  show ?thesis using peer_address_roundtrip [of "\<lambda>b. ''fe80::1''" "replicate 16 0" 7000] v by simp
qed

end
