(* ===== verification/Settings.thy ===== *)
theory Settings
  imports ReceiverName Prelude
begin

text \<open>
  The persistent settings (src/settings.cpp, src/settings.h): the file as it is written and read, and
  the steps of a save on a file system that may fail at any of them. The integers are those of C++,
  so a value that does not fit an int is malformed; a path is the string that UTF-8 gives it.
\<close>

section \<open>The settings\<close>

record ui_preferences =
  ui_diagnostics :: bool
  ui_placed :: bool
  ui_x :: int
  ui_y :: int
  ui_width :: int
  ui_height :: int
  ui_maximized :: bool
  ui_directory :: string
  ui_codec :: int
  ui_encoder :: int
  ui_bitrate :: int

record settings =
  se_name :: string
  se_width :: int
  se_height :: int
  se_hevc :: bool
  se_max_fps :: int
  se_refresh :: int
  se_hwaccel :: bool
  se_vsync :: bool
  se_fullscreen :: bool
  se_chromeless :: bool
  se_rotation :: int
  se_ui :: ui_preferences

definition default_ui :: ui_preferences where
  "default_ui = \<lparr>ui_diagnostics = False, ui_placed = False, ui_x = 0, ui_y = 0, ui_width = 1220, ui_height = 800,
     ui_maximized = False, ui_directory = [], ui_codec = 0, ui_encoder = 0, ui_bitrate = 8\<rparr>"

definition default_settings :: settings where
  "default_settings = \<lparr>se_name = ''AirPlay-Windows'', se_width = 0, se_height = 0, se_hevc = True, se_max_fps = 60,
     se_refresh = 60, se_hwaccel = True, se_vsync = True, se_fullscreen = False, se_chromeless = False,
     se_rotation = -1, se_ui = default_ui\<rparr>"

definition on_ui :: "(ui_preferences \<Rightarrow> ui_preferences) \<Rightarrow> settings \<Rightarrow> settings" where
  "on_ui f s = s\<lparr>se_ui := f (se_ui s)\<rparr>"

section \<open>Reading\<close>

text \<open>A number in a range, a flag, or no change; \<open>std::stoi\<close> throws on a malformed number and the line
  is skipped.\<close>

definition in_range :: "int \<Rightarrow> int \<Rightarrow> (int \<Rightarrow> settings \<Rightarrow> settings) \<Rightarrow> string \<Rightarrow> settings \<Rightarrow> settings" where
  "in_range lo hi put v s = (case stoi v of None \<Rightarrow> s | Some n \<Rightarrow> if lo \<le> n \<and> n \<le> hi then put n s else s)"

definition flag :: "(bool \<Rightarrow> settings \<Rightarrow> settings) \<Rightarrow> string \<Rightarrow> settings \<Rightarrow> settings" where
  "flag put v s = (case stoi v of None \<Rightarrow> s | Some n \<Rightarrow> put (n \<noteq> 0) s)"

definition name_value :: "string \<Rightarrow> settings \<Rightarrow> settings" where
  "name_value v s = (let n = normalize_receiver_name v in if n \<noteq> [] then s\<lparr>se_name := n\<rparr> else s)"

definition entry_table :: "(string \<times> (string \<Rightarrow> settings \<Rightarrow> settings)) list" where
  "entry_table =
    [(''receiver_name'', name_value),
     (''mirror_width'', in_range 320 7680 (\<lambda>n s. s\<lparr>se_width := n\<rparr>)),
     (''mirror_height'', in_range 240 4320 (\<lambda>n s. s\<lparr>se_height := n\<rparr>)),
     (''hevc_enabled'', flag (\<lambda>b s. s\<lparr>se_hevc := b\<rparr>)),
     (''max_fps'', in_range 1 60 (\<lambda>n s. s\<lparr>se_max_fps := n\<rparr>)),
     (''refresh_rate'', in_range 1 60 (\<lambda>n s. s\<lparr>se_refresh := n\<rparr>)),
     (''mirror_hwaccel'', flag (\<lambda>b s. s\<lparr>se_hwaccel := b\<rparr>)),
     (''vsync_enabled'', flag (\<lambda>b s. s\<lparr>se_vsync := b\<rparr>)),
     (''fullscreen'', flag (\<lambda>b s. s\<lparr>se_fullscreen := b\<rparr>)),
     (''chromeless'', flag (\<lambda>b s. s\<lparr>se_chromeless := b\<rparr>)),
     (''video_rotation'', in_range (-1) 3 (\<lambda>n s. s\<lparr>se_rotation := n\<rparr>)),
     (''diagnostics'', flag (\<lambda>b. on_ui (\<lambda>u. u\<lparr>ui_diagnostics := b\<rparr>))),
     (''window_placement_valid'', flag (\<lambda>b. on_ui (\<lambda>u. u\<lparr>ui_placed := b\<rparr>))),
     (''window_maximized'', flag (\<lambda>b. on_ui (\<lambda>u. u\<lparr>ui_maximized := b\<rparr>))),
     (''window_x'', in_range (-100000) 100000 (\<lambda>n. on_ui (\<lambda>u. u\<lparr>ui_x := n\<rparr>))),
     (''window_y'', in_range (-100000) 100000 (\<lambda>n. on_ui (\<lambda>u. u\<lparr>ui_y := n\<rparr>))),
     (''window_width'', in_range 160 32768 (\<lambda>n. on_ui (\<lambda>u. u\<lparr>ui_width := n\<rparr>))),
     (''window_height'', in_range 160 32768 (\<lambda>n. on_ui (\<lambda>u. u\<lparr>ui_height := n\<rparr>))),
     (''recording_directory'', \<lambda>v. on_ui (\<lambda>u. u\<lparr>ui_directory := v\<rparr>)),
     (''recording_codec'', in_range 0 1 (\<lambda>n. on_ui (\<lambda>u. u\<lparr>ui_codec := n\<rparr>))),
     (''recording_encoder'', in_range 0 2 (\<lambda>n. on_ui (\<lambda>u. u\<lparr>ui_encoder := n\<rparr>))),
     (''recording_bitrate'', in_range 2 40 (\<lambda>n. on_ui (\<lambda>u. u\<lparr>ui_bitrate := n\<rparr>)))]"

definition read_entry :: "string \<Rightarrow> settings \<Rightarrow> settings" where
  "read_entry line s =
     (if line = [] \<or> hd line = CHR ''#'' then s
      else case find_pred (\<lambda>c. c = CHR ''='') line of
             None \<Rightarrow> s
           | Some eq \<Rightarrow>
               (case map_of entry_table (take eq line) of None \<Rightarrow> s | Some put \<Rightarrow> put (drop (eq + 1) line) s))"

text \<open>The text of the file, if there is a path and the file can be opened.\<close>

definition load_settings :: "string option \<Rightarrow> settings" where
  "load_settings file =
     (case file of None \<Rightarrow> default_settings | Some txt \<Rightarrow> fold read_entry (lines_of txt) default_settings)"

section \<open>Writing\<close>

definition show_flag :: "bool \<Rightarrow> string" where
  "show_flag b = (if b then ''1'' else ''0'')"

definition settings_entries :: "settings \<Rightarrow> (string \<times> string) list" where
  "settings_entries s =
    [(''receiver_name'', se_name s), (''mirror_width'', show_int (se_width s)), (''mirror_height'', show_int (se_height s)),
     (''hevc_enabled'', show_flag (se_hevc s)), (''max_fps'', show_int (se_max_fps s)), (''refresh_rate'', show_int (se_refresh s)),
     (''mirror_hwaccel'', show_flag (se_hwaccel s)), (''vsync_enabled'', show_flag (se_vsync s)),
     (''fullscreen'', show_flag (se_fullscreen s)), (''chromeless'', show_flag (se_chromeless s)),
     (''video_rotation'', show_int (se_rotation s)), (''diagnostics'', show_flag (ui_diagnostics (se_ui s))),
     (''window_placement_valid'', show_flag (ui_placed (se_ui s))), (''window_x'', show_int (ui_x (se_ui s))),
     (''window_y'', show_int (ui_y (se_ui s))), (''window_width'', show_int (ui_width (se_ui s))),
     (''window_height'', show_int (ui_height (se_ui s))), (''window_maximized'', show_flag (ui_maximized (se_ui s))),
     (''recording_directory'', ui_directory (se_ui s)), (''recording_codec'', show_int (ui_codec (se_ui s))),
     (''recording_encoder'', show_int (ui_encoder (se_ui s))), (''recording_bitrate'', show_int (ui_bitrate (se_ui s)))]"

definition settings_text :: "settings \<Rightarrow> string" where
  "settings_text s = concat (map (\<lambda>(k, v). k @ ''='' @ v @ [nl]) (settings_entries s))"

text \<open>The two files a save touches, and the answers of the file system: the directory, the opening of
  the temporary file, how much of the text reaches it, and the replacement.\<close>

record disk =
  dk_settings :: "string option"
  dk_temporary :: "string option"

record save_answers =
  sa_directory :: bool
  sa_open :: bool
  sa_written :: "nat option"
  sa_replace :: bool

definition save_settings :: "save_answers \<Rightarrow> settings \<Rightarrow> disk \<Rightarrow> bool \<times> disk" where
  "save_settings a s d =
     (if \<not> sa_directory a \<or> \<not> sa_open a then (False, d)
      else case sa_written a of
             Some n \<Rightarrow> (False, d\<lparr>dk_temporary := Some (take n (settings_text s))\<rparr>)
           | None \<Rightarrow>
               (if \<not> sa_replace a then (False, d\<lparr>dk_temporary := Some (settings_text s)\<rparr>)
                else (True, \<lparr>dk_settings = Some (settings_text s), dk_temporary = None\<rparr>)))"

section \<open>Valid settings\<close>

definition ui_ok :: "ui_preferences \<Rightarrow> bool" where
  "ui_ok u \<longleftrightarrow> ui_x u \<in> {-100000..100000} \<and> ui_y u \<in> {-100000..100000} \<and> ui_width u \<in> {160..32768}
     \<and> ui_height u \<in> {160..32768} \<and> nl \<notin> set (ui_directory u) \<and> ui_codec u \<in> {0..1} \<and> ui_encoder u \<in> {0..2}
     \<and> ui_bitrate u \<in> {2..40}"

definition settings_ok :: "settings \<Rightarrow> bool" where
  "settings_ok s \<longleftrightarrow> se_name s \<noteq> [] \<and> normalize_receiver_name (se_name s) = se_name s
     \<and> (se_width s = 0 \<or> se_width s \<in> {320..7680}) \<and> (se_height s = 0 \<or> se_height s \<in> {240..4320})
     \<and> se_max_fps s \<in> {1..60} \<and> se_refresh s \<in> {1..60} \<and> se_rotation s \<in> {-1..3} \<and> ui_ok (se_ui s)"

text \<open>A name that the receiver accepts has no control character, so it fits on a line.\<close>

lemma normalized_on_line: "nl \<notin> set (normalize_receiver_name input)"
  using normalized_plain [of nl input] by (auto simp: nl_def)

section \<open>Reading gives valid settings\<close>

lemma default_settings_ok: "settings_ok default_settings"
proof -
  have "normalize_receiver_name ''AirPlay-Windows'' = ''AirPlay-Windows''" by code_simp
  then show ?thesis by (simp add: settings_ok_def ui_ok_def default_settings_def default_ui_def)
qed

lemma in_range_keeps: "(\<And>n. lo \<le> n \<Longrightarrow> n \<le> hi \<Longrightarrow> settings_ok (put n s)) \<Longrightarrow> settings_ok s \<Longrightarrow> settings_ok (in_range lo hi put v s)"
  by (simp add: in_range_def split: option.split)

lemma flag_keeps: "(\<And>b. settings_ok (put b s)) \<Longrightarrow> settings_ok s \<Longrightarrow> settings_ok (flag put v s)"
  by (simp add: flag_def split: option.split)

lemma name_keeps: "settings_ok s \<Longrightarrow> settings_ok (name_value v s)"
  by (simp add: name_value_def settings_ok_def receiver_name_idempotent Let_def)

lemma table_keeps:
  "list_all (\<lambda>(k, put). \<forall>v s. nl \<notin> set v \<longrightarrow> settings_ok s \<longrightarrow> settings_ok (put v s)) entry_table"
  unfolding entry_table_def list.pred_inject prod.case
proof (intro conjI allI impI TrueI)
qed ((rule in_range_keeps flag_keeps name_keeps)?; simp add: settings_ok_def ui_ok_def on_ui_def)+

lemma entry_keeps:
  assumes "settings_ok s" and "map_of entry_table k = Some put" and "nl \<notin> set v"
  shows "settings_ok (put v s)"
  using table_keeps map_of_SomeD [OF assms(2)] assms(1,3) by (auto simp: list_all_iff)

lemma read_entry_keeps:
  assumes "settings_ok s" and "nl \<notin> set line"
  shows "settings_ok (read_entry line s)"
proof -
  have "nl \<notin> set (drop n line)" for n using assms(2) by (auto dest: in_set_dropD)
  then show ?thesis using assms(1) entry_keeps by (auto simp: read_entry_def split: option.split)
qed

lemma lines_of_clean: "l \<in> set (lines_of f) \<Longrightarrow> nl \<notin> set l"
  by (induction f arbitrary: l rule: lines_of.induct) (auto simp: nl_def split: if_splits list.splits)

lemma fold_read_ok: "settings_ok s \<Longrightarrow> \<forall>l\<in>set ls. nl \<notin> set l \<Longrightarrow> settings_ok (fold read_entry ls s)"
  by (induction ls arbitrary: s) (simp_all add: read_entry_keeps)

lemma load_ok: "settings_ok (load_settings file)"
  using default_settings_ok fold_read_ok lines_of_clean by (auto simp: load_settings_def split: option.split)

section \<open>Reading what was written\<close>

lemma read_entry_line:
  assumes "map_of entry_table k = Some put"
  shows "read_entry (k @ ''='' @ v) s = put v s"
proof -
  have "list_all (\<lambda>(k, _). k \<noteq> [] \<and> hd k \<noteq> CHR ''#'' \<and> CHR ''='' \<notin> set k) entry_table" by (simp add: entry_table_def)
  then have k: "k \<noteq> []" "hd k \<noteq> CHR ''#''" "CHR ''='' \<notin> set k"
    using map_of_SomeD [OF assms] by (auto simp: list_all_iff)
  then have "find_pred (\<lambda>c. c = CHR ''='') (k @ CHR ''='' # v) = Some (length k)"
    by (intro find_pred_skip) auto
  then show ?thesis using k assms by (simp add: read_entry_def)
qed

definition apply_entry :: "string \<times> string \<Rightarrow> settings \<Rightarrow> settings" where
  "apply_entry kv s = (case map_of entry_table (fst kv) of None \<Rightarrow> s | Some put \<Rightarrow> put (snd kv) s)"

lemma fold_written:
  "list_all (\<lambda>(k, v). map_of entry_table k \<noteq> None) kvs \<Longrightarrow>
     fold read_entry (map (\<lambda>(k, v). k @ ''='' @ v) kvs) s = fold apply_entry kvs s"
  by (induction kvs arbitrary: s) (auto simp: read_entry_line [simplified] apply_entry_def)

lemma entry_known: "list_all (\<lambda>(k, v). map_of entry_table k \<noteq> None) (settings_entries s)"
  by (simp add: settings_entries_def entry_table_def)

lemma show_flag_number: "stoi (show_flag b) = Some (if b then 1 else 0)"
proof -
  have "stoi ''0'' = Some 0" "stoi ''1'' = Some 1" by code_simp+
  then show ?thesis by (simp add: show_flag_def)
qed

lemma apply_number:
  "map_of entry_table k = Some (in_range lo hi put) \<Longrightarrow> - 2147483648 \<le> n \<Longrightarrow> n \<le> 2147483647 \<Longrightarrow>
     apply_entry (k, show_int n) s = (if lo \<le> n \<and> n \<le> hi then put n s else s)"
  by (simp add: apply_entry_def in_range_def)

lemma apply_flag_entry: "map_of entry_table k = Some (flag put) \<Longrightarrow> apply_entry (k, show_flag b) s = put b s"
  by (simp add: apply_entry_def flag_def show_flag_number)

lemma apply_written:
  assumes "settings_ok s"
  shows "fold apply_entry (settings_entries s) default_settings = s"
proof -
  have n: "map_of entry_table ''receiver_name'' = Some name_value"
    and d: "map_of entry_table ''recording_directory'' = Some (\<lambda>v. on_ui (\<lambda>u. u\<lparr>ui_directory := v\<rparr>))"
    by (simp_all add: entry_table_def)
  have e: "apply_entry (''receiver_name'', se_name s) t = t\<lparr>se_name := se_name s\<rparr>"
    "apply_entry (''recording_directory'', ui_directory (se_ui s)) t = on_ui (\<lambda>u. u\<lparr>ui_directory := ui_directory (se_ui s)\<rparr>) t" for t
    using n d assms by (simp_all add: apply_entry_def name_value_def settings_ok_def)
  have num: "apply_entry (''mirror_width'', show_int (se_width s)) t = t\<lparr>se_width := (if se_width s = 0 then se_width t else se_width s)\<rparr>"
    "apply_entry (''mirror_height'', show_int (se_height s)) t = t\<lparr>se_height := (if se_height s = 0 then se_height t else se_height s)\<rparr>"
    "apply_entry (''max_fps'', show_int (se_max_fps s)) t = t\<lparr>se_max_fps := se_max_fps s\<rparr>"
    "apply_entry (''refresh_rate'', show_int (se_refresh s)) t = t\<lparr>se_refresh := se_refresh s\<rparr>"
    "apply_entry (''video_rotation'', show_int (se_rotation s)) t = t\<lparr>se_rotation := se_rotation s\<rparr>"
    for t using assms by (auto simp: settings_ok_def apply_entry_def entry_table_def in_range_def)
  have num_ui: "apply_entry (''window_x'', show_int (ui_x (se_ui s))) t = on_ui (\<lambda>u. u\<lparr>ui_x := ui_x (se_ui s)\<rparr>) t"
    "apply_entry (''window_y'', show_int (ui_y (se_ui s))) t = on_ui (\<lambda>u. u\<lparr>ui_y := ui_y (se_ui s)\<rparr>) t"
    "apply_entry (''window_width'', show_int (ui_width (se_ui s))) t = on_ui (\<lambda>u. u\<lparr>ui_width := ui_width (se_ui s)\<rparr>) t"
    "apply_entry (''window_height'', show_int (ui_height (se_ui s))) t = on_ui (\<lambda>u. u\<lparr>ui_height := ui_height (se_ui s)\<rparr>) t"
    "apply_entry (''recording_codec'', show_int (ui_codec (se_ui s))) t = on_ui (\<lambda>u. u\<lparr>ui_codec := ui_codec (se_ui s)\<rparr>) t"
    "apply_entry (''recording_encoder'', show_int (ui_encoder (se_ui s))) t = on_ui (\<lambda>u. u\<lparr>ui_encoder := ui_encoder (se_ui s)\<rparr>) t"
    "apply_entry (''recording_bitrate'', show_int (ui_bitrate (se_ui s))) t = on_ui (\<lambda>u. u\<lparr>ui_bitrate := ui_bitrate (se_ui s)\<rparr>) t"
    for t using assms by (auto simp: settings_ok_def ui_ok_def apply_entry_def entry_table_def in_range_def)
  have flags: "apply_entry (''hevc_enabled'', show_flag b) t = t\<lparr>se_hevc := b\<rparr>"
    "apply_entry (''mirror_hwaccel'', show_flag b) t = t\<lparr>se_hwaccel := b\<rparr>"
    "apply_entry (''vsync_enabled'', show_flag b) t = t\<lparr>se_vsync := b\<rparr>"
    "apply_entry (''fullscreen'', show_flag b) t = t\<lparr>se_fullscreen := b\<rparr>"
    "apply_entry (''chromeless'', show_flag b) t = t\<lparr>se_chromeless := b\<rparr>"
    "apply_entry (''diagnostics'', show_flag b) t = on_ui (\<lambda>u. u\<lparr>ui_diagnostics := b\<rparr>) t"
    "apply_entry (''window_placement_valid'', show_flag b) t = on_ui (\<lambda>u. u\<lparr>ui_placed := b\<rparr>) t"
    "apply_entry (''window_maximized'', show_flag b) t = on_ui (\<lambda>u. u\<lparr>ui_maximized := b\<rparr>) t"
    for b t by (simp_all add: apply_entry_def entry_table_def flag_def show_flag_number)
  show ?thesis
    by (simp add: settings_entries_def e num num_ui flags on_ui_def default_settings_def)
qed

lemma settings_text_lines:
  assumes "settings_ok s"
  shows "lines_of (settings_text s) = map (\<lambda>(k, v). k @ ''='' @ v) (settings_entries s)"
proof -
  have digits: "nl \<notin> set (show_int i)" "nl \<notin> set (show_flag b)" for i b
    using show_int_chars [of nl i] by (auto simp: isdigit_def nl_def show_flag_def)
  have "nl \<notin> set (se_name s)" using assms normalized_on_line [of "se_name s"] by (simp add: settings_ok_def)
  moreover have "nl \<notin> set (ui_directory (se_ui s))" using assms by (simp add: settings_ok_def ui_ok_def)
  ultimately have "\<forall>(k, v)\<in>set (settings_entries s). nl \<notin> set (k @ ''='' @ v)"
    by (simp add: settings_entries_def digits) (simp add: nl_def)
  then have "\<forall>l\<in>set (map (\<lambda>(k, v). k @ ''='' @ v) (settings_entries s)). nl \<notin> set l" by auto
  from lines_of_concat [OF this] show ?thesis
    by (simp add: settings_text_def comp_def case_prod_unfold)
qed

lemma load_written: "settings_ok s \<Longrightarrow> load_settings (Some (settings_text s)) = s"
  by (simp add: load_settings_def settings_text_lines fold_written [OF entry_known, simplified] apply_written)

section \<open>Sequences of saves\<close>

definition run_saves :: "(save_answers \<times> settings) list \<Rightarrow> disk \<Rightarrow> disk" where
  "run_saves = fold (\<lambda>(a, s) d. snd (save_settings a s d))"

definition succeeds :: "save_answers \<Rightarrow> bool" where
  "succeeds a \<longleftrightarrow> sa_directory a \<and> sa_open a \<and> sa_written a = None \<and> sa_replace a"

definition last_saved :: "(save_answers \<times> settings) list \<Rightarrow> settings \<Rightarrow> settings" where
  "last_saved = fold (\<lambda>(a, s) old. if succeeds a then s else old)"

lemma save_step: "settings_ok s \<Longrightarrow> load_settings (dk_settings (snd (save_settings a s d)))
    = (if succeeds a then s else load_settings (dk_settings d))"
  by (auto simp: save_settings_def succeeds_def load_written split: option.split)

section \<open>Properties\<close>


section \<open>Witnesses\<close>


end
