(* ===== verification/Net.thy ===== *)
theory Net
  imports TcpServer Sockets
begin

text \<open>
  The rest of src/net/socket.cpp: the loops that send and receive a given number of bytes over calls
  that take or give a part of them, the wait that a flag can end, and the addresses by which the
  receiver names itself. The calls into the system are scripts of their answers.
\<close>

section \<open>Receiving\<close>

text \<open>What reaches a socket: bytes in portions that the network chooses, the end of the stream, an
  error. A call of \<open>recv\<close> takes what it has room for from the next portion and leaves the rest; when
  nothing more arrives it does not return, which is the result None.\<close>

datatype arrival = Arrived bytes | Ended | Failed

fun recv_loop :: "nat \<Rightarrow> bytes \<Rightarrow> arrival list \<Rightarrow> (int \<times> bytes \<times> arrival list) option" where
  "recv_loop len got [] = (if length got < len then None else Some (int (length got), got, []))"
| "recv_loop len got (a # as) =
     (if \<not> length got < len then Some (int (length got), got, a # as)
      else case a of
             Ended \<Rightarrow> Some (int (length got), got, a # as)
           | Failed \<Rightarrow> Some (- 1, got, a # as)
           | Arrived b \<Rightarrow>
               (if length b \<le> len - length got then recv_loop len (got @ b) as
                else Some (int len, got @ take (len - length got) b, Arrived (drop (len - length got) b) # as)))"

definition recv_all :: "nat \<Rightarrow> arrival list \<Rightarrow> (int \<times> bytes \<times> arrival list) option" where
  "recv_all len as = recv_loop len [] as"

text \<open>The wait for data: the flag before the call of \<open>select\<close>, its result, the flag after it.\<close>

record poll_answer =
  po_cancelled :: bool
  po_ready :: int
  po_cancelled_after :: bool

fun recv_interruptible :: "poll_answer list \<Rightarrow> arrival list \<Rightarrow> nat \<Rightarrow> (int \<times> bytes \<times> arrival list) option" where
  "recv_interruptible [] as len = None"
| "recv_interruptible (p # ps) as len =
     (if po_cancelled p then Some (- 1, [], as)
      else if po_cancelled_after p then Some (- 1, [], as)
      else if po_ready p < 0 then Some (- 1, [], as)
      else if po_ready p > 0 then
        (case as of
           Arrived b # as' \<Rightarrow>
             Some (int (length (take len b)), take len b, (if length b \<le> len then as' else Arrived (drop len b) # as'))
         | Ended # as' \<Rightarrow> Some (0, [], as)
         | Failed # as' \<Rightarrow> Some (- 1, [], as)
         | [] \<Rightarrow> None)
      else recv_interruptible ps as len)"

section \<open>Sending\<close>

text \<open>The answers are what \<open>send\<close> returns, which takes at most what it is offered; the last component is
  what has gone out.\<close>

fun send_loop :: "bytes \<Rightarrow> nat \<Rightarrow> int list \<Rightarrow> bytes \<Rightarrow> (int \<times> bytes) option" where
  "send_loop buf sent ns wire =
     (if \<not> sent < length buf then Some (int sent, wire)
      else case ns of
             [] \<Rightarrow> None
           | n # ns' \<Rightarrow>
               (if n \<le> 0 then Some (- 1, wire)
                else let k = min (nat n) (length buf - sent)
                     in send_loop buf (sent + k) ns' (wire @ take k (drop sent buf))))"

declare send_loop.simps [simp del]

definition send_all :: "bytes \<Rightarrow> int list \<Rightarrow> (int \<times> bytes) option" where
  "send_all buf ns = send_loop buf 0 ns []"

section \<open>The address of the receiver\<close>

text \<open>The answers to the calls by which the address is found that the routing table would use: the
  socket, the connection, the name.\<close>

record route_answer =
  ro_socket :: bool
  ro_connect :: bool
  ro_name :: "bytes option"

definition route_probe :: "route_answer \<Rightarrow> string \<Rightarrow> (bytes \<Rightarrow> string) \<Rightarrow> kernel \<Rightarrow> string \<times> kernel" where
  "route_probe a none show k =
     (if \<not> ro_socket a then (none, k)
      else let (s, k1) = open_socket k;
               result = (if ro_connect a then case ro_name a of Some b \<Rightarrow> show b | None \<Rightarrow> none else none)
           in (result, close_socket (Some s) k1))"

definition primary_ipv4 :: "route_answer \<Rightarrow> kernel \<Rightarrow> string \<times> kernel" where
  "primary_ipv4 a k = route_probe a ''0.0.0.0'' dotted k"

definition routable_v6 :: "(bytes \<Rightarrow> string) \<Rightarrow> bytes \<Rightarrow> string" where
  "routable_v6 ntop6 b = (if take 4 (ntop6 b) \<noteq> ''fe80'' \<and> take 2 (ntop6 b) \<noteq> ''::'' then ntop6 b else [])"

definition primary_ipv6 :: "(bytes \<Rightarrow> string) \<Rightarrow> route_answer \<Rightarrow> kernel \<Rightarrow> string \<times> kernel" where
  "primary_ipv6 ntop6 a k = route_probe a [] (routable_v6 ntop6) k"

record adapter =
  ad_mac :: bytes
  ad_addresses :: "address list"

datatype adapters_answer = Overflow | Adapters "adapter list" | No_adapters

definition upper_digit :: "nat \<Rightarrow> char" where
  "upper_digit n = ''0123456789ABCDEF'' ! n"

definition hex_byte :: "byte \<Rightarrow> string" where
  "hex_byte b = [upper_digit (unat b div 16), upper_digit (unat b mod 16)]"

definition mac_text :: "bytes \<Rightarrow> string" where
  "mac_text b = hex_byte (b ! 0) @ concat (map (\<lambda>i. CHR '':'' # hex_byte (b ! i)) [1..<6])"

definition address_text :: "(bytes \<Rightarrow> string) \<Rightarrow> address \<Rightarrow> string option" where
  "address_text ntop6 a = (case a of In4 b _ \<Rightarrow> Some (dotted b) | In6 b _ \<Rightarrow> Some (ntop6 b) | Other_family \<Rightarrow> None)"

definition address_match :: "string \<Rightarrow> string \<Rightarrow> string option \<Rightarrow> bool" where
  "address_match v4 v6 ip =
     (case ip of None \<Rightarrow> False
      | Some s \<Rightarrow> (v4 \<noteq> [] \<and> v4 \<noteq> ''0.0.0.0'' \<and> v4 = s) \<or> (v6 \<noteq> [] \<and> v6 = s))"

fun matching_mac :: "(bytes \<Rightarrow> string) \<Rightarrow> string \<Rightarrow> string \<Rightarrow> adapter list \<Rightarrow> string" where
  "matching_mac ntop6 v4 v6 [] = ''02:00:00:00:00:00''"
| "matching_mac ntop6 v4 v6 (a # as) =
     (if length (ad_mac a) \<noteq> 6 then matching_mac ntop6 v4 v6 as
      else if list_ex (\<lambda>u. address_match v4 v6 (address_text ntop6 u)) (ad_addresses a) then mac_text (ad_mac a)
      else matching_mac ntop6 v4 v6 as)"

text \<open>The list is asked for a second time when the first buffer is too small.\<close>

definition primary_mac :: "(bytes \<Rightarrow> string) \<Rightarrow> string \<Rightarrow> string \<Rightarrow> adapters_answer \<Rightarrow> adapters_answer \<Rightarrow> string" where
  "primary_mac ntop6 v4 v6 first second =
     (case (if first = Overflow then second else first) of
        Adapters as \<Rightarrow> matching_mac ntop6 v4 v6 as
      | _ \<Rightarrow> ''02:00:00:00:00:00'')"

section \<open>The stream behind the portions\<close>

fun arriving :: "arrival list \<Rightarrow> bytes" where
  "arriving (Arrived b # as) = b @ arriving as"
| "arriving _ = []"

fun ending :: "arrival list \<Rightarrow> arrival option" where
  "ending (Arrived b # as) = ending as"
| "ending (a # as) = Some a"
| "ending [] = None"

lemma recv_loop_enough:
  assumes "length got \<le> len" and "len - length got \<le> length (arriving as)"
  shows "\<exists>rest. recv_loop len got as = Some (int len, got @ take (len - length got) (arriving as), rest)
    \<and> arriving rest = drop (len - length got) (arriving as) \<and> ending rest = ending as"
  using assms
proof (induction len got as rule: recv_loop.induct)
  case (2 len got a as)
  show ?case
  proof (cases "length got < len")
    case True
    show ?thesis
    proof (cases a)
      case (Arrived b)
      show ?thesis
      proof (cases "length b \<le> len - length got")
        case short: True
        have "\<exists>rest. recv_loop len (got @ b) as = Some (int len, (got @ b) @ take (len - length (got @ b)) (arriving as), rest)
          \<and> arriving rest = drop (len - length (got @ b)) (arriving as) \<and> ending rest = ending as"
          using True Arrived short 2(2,3) by (intro "2.IH") auto
        then show ?thesis using True Arrived short by (simp add: diff_diff_eq)
      qed (use True Arrived in simp)
    qed (use True 2 in auto)
  qed (use 2 in auto)
qed auto

lemma recv_loop_short:
  assumes "length got + length (arriving as) < len"
  shows "recv_loop len got as =
    (case ending as of
       None \<Rightarrow> None
     | Some a \<Rightarrow> Some (if a = Failed then - 1 else int (length got + length (arriving as)), got @ arriving as,
                       dropWhile (\<lambda>a. a \<noteq> Ended \<and> a \<noteq> Failed) as))"
  using assms
proof (induction len got as rule: recv_loop.induct)
  case (2 len got a as)
  show ?case
  proof (cases a)
    case (Arrived b)
    then have "recv_loop len got (a # as) = recv_loop len (got @ b) as" using 2(2) by auto
    also have "\<dots> = (case ending as of
       None \<Rightarrow> None
     | Some a \<Rightarrow> Some (if a = Failed then - 1 else int (length (got @ b) + length (arriving as)), (got @ b) @ arriving as,
                       dropWhile (\<lambda>a. a \<noteq> Ended \<and> a \<noteq> Failed) as))"
      using Arrived 2(2) by (intro "2.IH") auto
    finally show ?thesis using Arrived by (simp add: add.assoc del: recv_loop.simps split: option.split)
  qed (use 2 in auto)
qed simp

lemma send_loop_done: "\<not> sent < length buf \<Longrightarrow> send_loop buf sent ns wire = Some (int sent, wire)"
  by (simp add: send_loop.simps [of buf sent ns wire])

lemma send_loop_Nil: "sent < length buf \<Longrightarrow> send_loop buf sent [] wire = None"
  by (simp add: send_loop.simps [of buf sent "[]" wire])

lemma send_loop_Cons:
  "sent < length buf \<Longrightarrow> send_loop buf sent (n # ns) wire =
     (if n \<le> 0 then Some (- 1, wire)
      else send_loop buf (sent + min (nat n) (length buf - sent)) ns (wire @ take (min (nat n) (length buf - sent)) (drop sent buf)))"
  by (simp add: send_loop.simps [of buf sent "n # ns" wire] Let_def)

lemma send_loop_exact:
  assumes "sent \<le> length buf"
  shows "send_loop buf sent ns (take sent buf) = None \<or> send_loop buf sent ns (take sent buf) = Some (int (length buf), buf)
    \<or> (\<exists>k < length buf. send_loop buf sent ns (take sent buf) = Some (- 1, take k buf))"
  using assms
proof (induction ns arbitrary: sent)
  case Nil
  then show ?case by (cases "sent < length buf") (simp_all add: send_loop_Nil send_loop_done)
next
  case (Cons n ns)
  let ?k = "min (nat n) (length buf - sent)"
  have t: "take sent buf @ take ?k (drop sent buf) = take (sent + ?k) buf" by (simp add: take_add)
  show ?case
  proof (cases "sent < length buf")
    case True
    have "send_loop buf (sent + ?k) ns (take (sent + ?k) buf) = None \<or>
      send_loop buf (sent + ?k) ns (take (sent + ?k) buf) = Some (int (length buf), buf) \<or>
      (\<exists>k < length buf. send_loop buf (sent + ?k) ns (take (sent + ?k) buf) = Some (- 1, take k buf))"
      using True by (intro Cons.IH) simp
    then show ?thesis using True unfolding send_loop_Cons [OF True] t by (cases "n \<le> 0") auto
  qed (use Cons.prems in \<open>simp add: send_loop_done\<close>)
qed

text \<open>Every call that takes at least a byte brings the end nearer, so as many answers as there are bytes
  are enough.\<close>

lemma send_loop_returns:
  "length buf \<le> sent + length ns \<Longrightarrow> send_loop buf sent ns wire \<noteq> None"
proof (induction ns arbitrary: sent wire)
  case Nil
  then show ?case by (simp add: send_loop_done)
next
  case (Cons n ns)
  show ?case
  proof (cases "sent < length buf \<and> \<not> n \<le> 0")
    case True
    then have "1 \<le> min (nat n) (length buf - sent)" by auto
    then have "send_loop buf (sent + min (nat n) (length buf - sent)) ns w \<noteq> None" for w
      using Cons.prems by (intro Cons.IH) auto
    then show ?thesis using True by (simp add: send_loop_Cons)
  next
    case False
    then show ?thesis by (cases "sent < length buf") (simp_all add: send_loop_Cons send_loop_done)
  qed
qed

section \<open>The form of an address\<close>

lemma upper_digit_plain: "n < 16 \<Longrightarrow> upper_digit n \<in> set ''0123456789ABCDEF''"
  unfolding upper_digit_def by (rule nth_mem) simp

lemma hex_byte_plain: "set (hex_byte b) \<subseteq> set ''0123456789ABCDEF''"
proof -
  have "unat b < 256" using unsigned_less [of b, where ?'a = nat] by simp
  then have "unat b div 16 < 16" "unat b mod 16 < 16" by auto
  then show ?thesis using upper_digit_plain unfolding hex_byte_def by auto
qed

lemma no_colon_hex_byte: "filter (\<lambda>c. c \<noteq> CHR '':'') (hex_byte b) = hex_byte b"
  using hex_byte_plain [of b] by (intro filter_True) auto

lemma length_hex_byte [simp]: "length (hex_byte b) = 2"
  by (simp add: hex_byte_def)

definition mac_digits :: "string \<Rightarrow> string" where
  "mac_digits m = filter (\<lambda>c. c \<noteq> CHR '':'') m"

lemma mac_text_digits: "mac_digits (mac_text b) = concat (map (\<lambda>i. hex_byte (b ! i)) [0..<6])"
  by (simp add: mac_digits_def mac_text_def no_colon_hex_byte upt_conv_Cons)

lemma mac_text_form: "length (mac_text b) = 17 \<and> length (mac_digits (mac_text b)) = 12
    \<and> set (mac_digits (mac_text b)) \<subseteq> set ''0123456789ABCDEF''"
proof -
  have "set (mac_digits (mac_text b)) \<subseteq> set ''0123456789ABCDEF''"
    using hex_byte_plain by (auto simp: mac_text_digits simp del: list.set)
  moreover have "length (mac_text b) = 17 \<and> length (mac_digits (mac_text b)) = 12"
    unfolding mac_text_digits by (simp add: mac_text_def upt_conv_Cons)
  ultimately show ?thesis by blast
qed

lemma matching_mac_form:
  "length (matching_mac n v4 v6 as) = 17 \<and> length (mac_digits (matching_mac n v4 v6 as)) = 12
    \<and> set (mac_digits (matching_mac n v4 v6 as)) \<subseteq> set ''0123456789ABCDEF''"
proof (induction as)
  case (Cons a as)
  then show ?case using mac_text_form [of "ad_mac a"] by simp
qed (simp add: mac_digits_def)

lemma primary_mac_form:
  "length (primary_mac n v4 v6 f s) = 17 \<and> length (mac_digits (primary_mac n v4 v6 f s)) = 12
    \<and> set (mac_digits (primary_mac n v4 v6 f s)) \<subseteq> set ''0123456789ABCDEF''"
  using matching_mac_form by (auto simp: primary_mac_def mac_digits_def split: adapters_answer.split)

lemma route_probe_closes:
  "kernel_ok k \<Longrightarrow> kn_open (snd (route_probe a none sh k)) = kn_open k \<and> kn_bad (snd (route_probe a none sh k)) = kn_bad k"
  by (simp add: route_probe_def open_socket_def close_socket_def kernel_ok_def split_def)

section \<open>Properties\<close>

text \<open>A message that \<open>send_all\<close> reports as sent is received whole by \<open>recv_all\<close>, however the two systems
  cut it into pieces, and what follows it stays for the next call; a failure is reported after a
  proper prefix only.\<close>

theorem transfer_exact:
  assumes "send_all buf ns = Some (r, wire)"
  shows "(r = int (length buf) \<and> wire = buf \<or> r = - 1 \<and> (\<exists>k < length buf. wire = take k buf))
    \<and> (r \<noteq> - 1 \<longrightarrow> arriving as = wire @ later \<longrightarrow>
        (\<exists>rest. recv_all (length buf) as = Some (r, buf, rest) \<and> arriving rest = later \<and> ending rest = ending as))"
proof -
  have one: "r = int (length buf) \<and> wire = buf \<or> r = - 1 \<and> (\<exists>k < length buf. wire = take k buf)"
    using send_loop_exact [of 0 buf ns] assms by (auto simp: send_all_def)
  have "recv_loop (length buf) [] as = Some (int (length buf), buf, rest) \<Longrightarrow> recv_all (length buf) as = Some (int (length buf), buf, rest)" for rest
    by (simp add: recv_all_def)
  then show ?thesis using one recv_loop_enough [of "[]" "length buf" as] by auto
qed

section \<open>Witnesses\<close>

theorem transfer_exact_witness:
  "\<exists>rest. recv_all (length [1, 2, 3, 4 :: byte]) [Arrived [1], Arrived [2, 3], Arrived [4, 5], Ended] = Some (4, [1, 2, 3, 4], rest) \<and> arriving rest = [5]"
proof -
  have "send_all [1, 2, 3, 4] [3, 1] = Some (4, [1, 2, 3, 4])" by (simp add: send_all_def eval_nat_numeral send_loop.simps)
  from transfer_exact [OF this, of "[Arrived [1], Arrived [2, 3], Arrived [4, 5], Ended]" "[5]"]
  show ?thesis by fastforce
qed

end
