(* ===== verification/Mdns.thy ===== *)
theory Mdns
  imports Net Info ReceiverName
begin

text \<open>
  The advertisement of the receiver on the local network (src/mdns/mdns_service.cpp, the part for
  Windows): the two services with the names and the text entries they carry, and the conversation
  with the DNS service of the system, which completes every request later, on a thread of its own.
  Strings stay in UTF-8; the conversion to wide characters is the system's.
\<close>

section \<open>What is advertised\<close>

definition low_digit :: "nat \<Rightarrow> char" where
  "low_digit n = ''0123456789abcdef'' ! n"

definition pk_hex :: "bytes \<Rightarrow> string" where
  "pk_hex pk = concat (map (\<lambda>b. [low_digit (unat (drop_bit 4 b)), low_digit (unat (and b 0x0f))]) pk)"

definition airplay_instance :: "device_context \<Rightarrow> string" where
  "airplay_instance ctx = dc_name ctx @ ''._airplay._tcp.local''"

definition airplay_entries :: "device_context \<Rightarrow> (string \<times> string) list" where
  "airplay_entries ctx =
    [(''deviceid'', dc_deviceid ctx), (''features'', dc_features ctx), (''flags'', ''0x4''), (''model'', dc_model ctx),
     (''pi'', dc_pi ctx), (''pk'', pk_hex (dc_public_key ctx)), (''pw'', ''false''), (''srcvers'', dc_srcvers ctx), (''vv'', ''2'')]"

definition raop_label :: "device_context \<Rightarrow> string" where
  "raop_label ctx = filter (\<lambda>c. c \<noteq> CHR '':'') (dc_deviceid ctx) @ ''@'' @ dc_name ctx"

definition raop_instance :: "device_context \<Rightarrow> string" where
  "raop_instance ctx = raop_label ctx @ ''._raop._tcp.local''"

definition raop_entries :: "device_context \<Rightarrow> (string \<times> string) list" where
  "raop_entries ctx =
    [(''txtvers'', ''1''), (''ch'', ''2''), (''cn'', ''0,1,2,3''), (''da'', ''true''), (''et'', ''0,3,5''),
     (''ft'', dc_features ctx), (''md'', ''0,1,2''), (''am'', dc_model ctx), (''rhd'', ''5.6.0.0''),
     (''pk'', pk_hex (dc_public_key ctx)), (''pw'', ''false''), (''sf'', ''0x4''), (''sr'', ''44100''), (''ss'', ''16''),
     (''sv'', ''false''), (''tp'', ''UDP''), (''vn'', ''65537''), (''vs'', dc_srcvers ctx), (''vv'', ''2'')]"

section \<open>A service\<close>

text \<open>What passes between the program and the DNS service, with whether a request was taken.\<close>

datatype dns_event =
    Asked string string u16 "(string \<times> string) list" bool
  | Cancelled string
  | Withdrawn string bool
  | Completed u32

text \<open>\<open>sv_contexts\<close> counts the references that were given to the system with a request and keep the
  service alive until its completion; the log is not part of the program.\<close>

record service =
  sv_instance :: string
  sv_host :: string
  sv_entries :: "(string \<times> string) list"
  sv_contexts :: nat
  sv_pending :: bool
  sv_deregistering :: bool
  sv_status :: u32
  sv_active :: bool
  sv_log :: "dns_event list"

definition new_service :: service where
  "new_service = \<lparr>sv_instance = [], sv_host = [], sv_entries = [], sv_contexts = 0, sv_pending = False,
     sv_deregistering = False, sv_status = 0, sv_active = False, sv_log = []\<rparr>"

definition note_event :: "dns_event \<Rightarrow> service \<Rightarrow> service" where
  "note_event e s = s\<lparr>sv_log := sv_log s @ [e]\<rparr>"

text \<open>A completion; the system completes only what it holds.\<close>

definition on_complete :: "u32 \<Rightarrow> service \<Rightarrow> service" where
  "on_complete st s =
     (if sv_contexts s = 0 then s
      else note_event (Completed st) (s\<lparr>sv_contexts := sv_contexts s - 1, sv_status := st, sv_pending := False\<rparr>))"

definition register_service :: "bool \<Rightarrow> u16 \<Rightarrow> service \<Rightarrow> bool \<times> service" where
  "register_service taken port s =
     (let s1 = note_event (Asked (sv_instance s) (sv_host s) port (sv_entries s) taken)
                 (s\<lparr>sv_contexts := sv_contexts s + 1, sv_pending := True\<rparr>)
      in if \<not> taken then (False, s1\<lparr>sv_contexts := sv_contexts s1 - 1, sv_pending := False\<rparr>)
         else (True, s1\<lparr>sv_active := True\<rparr>))"

text \<open>A wait of three seconds for the completion, during which the given completions arrive.\<close>

fun wait_done :: "u32 list \<Rightarrow> service \<Rightarrow> service" where
  "wait_done [] s = s"
| "wait_done (st # sts) s = (if \<not> sv_pending s then s else wait_done sts (on_complete st s))"

record unregister_answers =
  ua_first :: "u32 list"
  ua_second :: "u32 list"
  ua_taken :: bool
  ua_last :: "u32 list"

definition withdraw :: "unregister_answers \<Rightarrow> service \<Rightarrow> service" where
  "withdraw a s =
     (if sv_status s \<noteq> 0 then s
      else let s1 = note_event (Withdrawn (sv_instance s) (ua_taken a))
                      (s\<lparr>sv_deregistering := True, sv_pending := True, sv_contexts := sv_contexts s + 1\<rparr>)
           in if \<not> ua_taken a then s1\<lparr>sv_contexts := sv_contexts s1 - 1, sv_pending := False\<rparr>
              else wait_done (ua_last a) s1)"

definition unregister_service :: "unregister_answers \<Rightarrow> service \<Rightarrow> service" where
  "unregister_service a s =
     (if \<not> sv_active s then s
      else let s1 = wait_done (ua_first a) (s\<lparr>sv_active := False\<rparr>)
           in if \<not> sv_pending s1 then withdraw a s1
              else let s2 = wait_done (ua_second a) (note_event (Cancelled (sv_instance s1)) s1)
                   in if sv_pending s2 then s2 else withdraw a s2)"

section \<open>The two services\<close>

record mdns =
  md_airplay :: service
  md_raop :: service

definition new_mdns :: mdns where
  "new_mdns = \<lparr>md_airplay = new_service, md_raop = new_service\<rparr>"

definition name_service :: "string \<Rightarrow> string \<Rightarrow> (string \<times> string) list \<Rightarrow> service \<Rightarrow> service" where
  "name_service host name es s = s\<lparr>sv_host := host, sv_instance := name, sv_entries := es\<rparr>"

text \<open>The answers: the name of the computer, and whether each request is taken.\<close>

definition start_mdns :: "string option \<Rightarrow> bool \<Rightarrow> bool \<Rightarrow> device_context \<Rightarrow> u16 \<Rightarrow> mdns \<Rightarrow> bool \<times> mdns" where
  "start_mdns computer taken1 taken2 ctx port m =
     (case computer of
        None \<Rightarrow> (False, m)
      | Some c \<Rightarrow>
          (let local_host = c @ ''.local'';
               (ok, a) = register_service taken1 port (name_service local_host (airplay_instance ctx) (airplay_entries ctx) (md_airplay m));
               m1 = m\<lparr>md_airplay := a\<rparr>
           in if \<not> ok then (False, m1)
              else let (_, r) = register_service taken2 port
                                  (name_service local_host (raop_instance ctx) (raop_entries ctx) (md_raop m1))
                   in (True, m1\<lparr>md_raop := r\<rparr>)))"

definition stop_mdns :: "unregister_answers \<Rightarrow> unregister_answers \<Rightarrow> mdns \<Rightarrow> mdns" where
  "stop_mdns a1 a2 m = m\<lparr>md_airplay := unregister_service a1 (md_airplay m), md_raop := unregister_service a2 (md_raop m)\<rparr>"

text \<open>The calls of the program, and the completions that come between them.\<close>

datatype mdns_event =
    Start_mdns "string option" bool bool device_context u16
  | Stop_mdns unregister_answers unregister_answers
  | Airplay_completes u32
  | Raop_completes u32

fun mdns_event_step :: "mdns_event \<Rightarrow> mdns \<Rightarrow> mdns" where
  "mdns_event_step (Start_mdns c t1 t2 ctx port) m = snd (start_mdns c t1 t2 ctx port m)"
| "mdns_event_step (Stop_mdns a1 a2) m = stop_mdns a1 a2 m"
| "mdns_event_step (Airplay_completes st) m = m\<lparr>md_airplay := on_complete st (md_airplay m)\<rparr>"
| "mdns_event_step (Raop_completes st) m = m\<lparr>md_raop := on_complete st (md_raop m)\<rparr>"

section \<open>What the network sees\<close>

text \<open>The side of the DNS service: the names that devices may see, and the requests it has taken and not
  completed yet, the oldest first. A name may be seen from the moment its registration is taken until
  that registration is reported as failed or a withdrawal of the name as done; a request that is not
  taken changes nothing, and neither does the wish to cancel one, which only leads to a completion.
  Completions are read in the order of the requests; where at most one is due, as below, that is no
  assumption.\<close>

datatype due = Registration string | Withdrawal string

type_synonym network = "string list \<times> due list"

fun hears :: "dns_event \<Rightarrow> network \<Rightarrow> network" where
  "hears (Asked n _ _ _ taken) (seen, due) = (if taken then (seen @ [n], due @ [Registration n]) else (seen, due))"
| "hears (Cancelled n) nw = nw"
| "hears (Withdrawn n taken) (seen, due) = (if taken then (seen, due @ [Withdrawal n]) else (seen, due))"
| "hears (Completed st) (seen, []) = (seen, [])"
| "hears (Completed st) (seen, Registration n # due) = (if st = 0 then seen else remove1 n seen, due)"
| "hears (Completed st) (seen, Withdrawal n # due) = (if st = 0 then remove1 n seen else seen, due)"

definition network :: "service \<Rightarrow> network" where
  "network s = fold hears (sv_log s) ([], [])"

definition seen_names :: "service \<Rightarrow> string list" where
  "seen_names s = fst (network s)"

text \<open>A stop during which the service answers in time: a registration that is still due is completed,
  with whatever status, by the end of the second wait, and a withdrawal is taken and completed with
  success during its own.\<close>

definition timely :: "unregister_answers \<Rightarrow> bool" where
  "timely a \<longleftrightarrow> (ua_first a \<noteq> [] \<or> ua_second a \<noteq> []) \<and> ua_taken a \<and> (case ua_last a of [] \<Rightarrow> False | st # _ \<Rightarrow> st = 0)"

lemma network_note [simp]: "network (note_event e s) = hears e (network s)"
  by (simp add: network_def note_event_def)

lemma network_other [simp]:
  "network (sv_pending_update f s) = network s" "network (sv_contexts_update g s) = network s"
  "network (sv_active_update h s) = network s" "network (sv_status_update i s) = network s"
  "network (sv_deregistering_update j s) = network s" "network (name_service a b c s) = network s"
  by (simp_all add: network_def name_service_def)

lemma note_fields [simp]:
  "sv_pending (note_event e s) = sv_pending s" "sv_contexts (note_event e s) = sv_contexts s"
  "sv_active (note_event e s) = sv_active s" "sv_status (note_event e s) = sv_status s"
  "sv_instance (note_event e s) = sv_instance s"
  by (simp_all add: note_event_def)

lemma name_service_fields [simp]:
  "sv_active (name_service h n es s) = sv_active s" "sv_instance (name_service h n es s) = n"
  "sv_pending (name_service h n es s) = sv_pending s" "sv_contexts (name_service h n es s) = sv_contexts s"
  by (simp_all add: name_service_def)

text \<open>An active service has its own name on the network and no other, unless its registration was
  reported as failed; one that is not active has no request under way and no name there.\<close>

definition shows_name :: "service \<Rightarrow> bool" where
  "shows_name s \<longleftrightarrow>
     (if sv_pending s then network s = ([sv_instance s], [Registration (sv_instance s)]) \<and> sv_contexts s = 1
      else network s = (if sv_status s = 0 then [sv_instance s] else [], []) \<and> sv_contexts s = 0)"

definition quiet :: "service \<Rightarrow> bool" where
  "quiet s \<longleftrightarrow> network s = ([], []) \<and> sv_contexts s = 0 \<and> \<not> sv_pending s"

definition service_ok :: "service \<Rightarrow> bool" where
  "service_ok s \<longleftrightarrow> (if sv_active s then shows_name s else quiet s)"

lemma new_service_ok: "service_ok new_service"
  by (simp add: service_ok_def new_service_def quiet_def network_def)

lemma complete_fields [simp]:
  "sv_active (on_complete st s) = sv_active s" "sv_instance (on_complete st s) = sv_instance s"
  by (simp_all add: on_complete_def)

lemma complete_shows: "shows_name s \<Longrightarrow> shows_name (on_complete st s)"
  by (auto simp: shows_name_def on_complete_def split: if_splits)

lemma complete_ends: "shows_name s \<Longrightarrow> \<not> sv_pending (on_complete st s)"
  by (auto simp: shows_name_def on_complete_def split: if_splits)

lemma complete_quiet: "quiet s \<Longrightarrow> on_complete st s = s"
  by (simp add: quiet_def on_complete_def)

lemma complete_ok: "service_ok s \<Longrightarrow> service_ok (on_complete st s)"
  by (auto simp: service_ok_def complete_shows complete_quiet)

lemma wait_fields [simp]: "sv_active (wait_done sts s) = sv_active s" "sv_instance (wait_done sts s) = sv_instance s"
  by (induction sts s rule: wait_done.induct) simp_all

lemma wait_idle [simp]: "\<not> sv_pending s \<Longrightarrow> wait_done sts s = s"
  by (cases sts) simp_all

lemma wait_shows: "shows_name s \<Longrightarrow> shows_name (wait_done sts s) \<and> (sts \<noteq> [] \<longrightarrow> \<not> sv_pending (wait_done sts s))"
  by (cases sts; cases "sv_pending s") (simp_all add: complete_shows complete_ends)

lemma withdraw_quiet:
  assumes "shows_name s" and "\<not> sv_pending s" and "timely a"
  shows "quiet (withdraw a s) \<and> sv_active (withdraw a s) = sv_active s"
proof (cases "sv_status s = 0")
  case True
  obtain sts where "ua_taken a" "ua_last a = 0 # sts" using assms(3) by (auto simp: timely_def split: list.splits)
  then show ?thesis using assms True
    by (simp add: withdraw_def shows_name_def on_complete_def quiet_def)
qed (use assms in \<open>simp add: withdraw_def shows_name_def quiet_def\<close>)

lemma unregister_ok:
  assumes "service_ok s" and "timely a"
  shows "service_ok (unregister_service a s) \<and> \<not> sv_active (unregister_service a s)"
proof (cases "sv_active s")
  case True
  let ?s1 = "wait_done (ua_first a) (s\<lparr>sv_active := False\<rparr>)"
  let ?c = "note_event (Cancelled (sv_instance ?s1)) ?s1"
  let ?s2 = "wait_done (ua_second a) ?c"
  have "shows_name (s\<lparr>sv_active := False\<rparr>)" using assms(1) True by (simp add: service_ok_def shows_name_def)
  from wait_shows [OF this] have one: "shows_name ?s1" "ua_first a \<noteq> [] \<Longrightarrow> \<not> sv_pending ?s1" by blast+
  then have "shows_name ?c" by (simp add: shows_name_def)
  from wait_shows [OF this] have two: "shows_name ?s2" "ua_second a \<noteq> [] \<Longrightarrow> \<not> sv_pending ?s2" by blast+
  show ?thesis
  proof (cases "sv_pending ?s1")
    case False
    then have "unregister_service a s = withdraw a ?s1" using True by (simp add: unregister_service_def Let_def)
    then show ?thesis using withdraw_quiet [OF one(1) False assms(2)] by (simp add: service_ok_def)
  next
    case pend: True
    then have "\<not> sv_pending ?s2" using one(2) two(2) assms(2) by (auto simp: timely_def)
    moreover from this pend have "unregister_service a s = withdraw a ?s2" using True by (simp add: unregister_service_def Let_def)
    ultimately show ?thesis using withdraw_quiet [OF two(1) _ assms(2)] by (simp add: service_ok_def)
  qed
qed (use assms in \<open>simp add: unregister_service_def\<close>)

lemma register_ok:
  assumes "service_ok s" and "\<not> sv_active s"
  shows "service_ok (snd (register_service taken port (name_service h n es s)))"
    and "taken \<Longrightarrow> seen_names (snd (register_service taken port (name_service h n es s))) = [n]"
  using assms by (auto simp: service_ok_def register_service_def Let_def quiet_def shows_name_def seen_names_def)

lemma seen_only: "service_ok s \<Longrightarrow> set (seen_names s) \<subseteq> (if sv_active s then {sv_instance s} else {})"
  by (auto simp: service_ok_def shows_name_def quiet_def seen_names_def split: if_splits)

section \<open>Runs\<close>

definition mdns_ok :: "bool \<Rightarrow> mdns \<Rightarrow> bool" where
  "mdns_ok started m \<longleftrightarrow> service_ok (md_airplay m) \<and> service_ok (md_raop m)
     \<and> (\<not> started \<longrightarrow> \<not> sv_active (md_airplay m) \<and> \<not> sv_active (md_raop m))"

lemma start_ok: "mdns_ok False m \<Longrightarrow> mdns_ok True (snd (start_mdns c t1 t2 ctx port m))"
  using register_ok(1) by (auto simp: mdns_ok_def start_mdns_def Let_def split_def split: option.split)

lemma stop_ok: "mdns_ok b m \<Longrightarrow> timely a1 \<Longrightarrow> timely a2 \<Longrightarrow> mdns_ok False (stop_mdns a1 a2 m)"
  by (simp add: mdns_ok_def stop_mdns_def unregister_ok)

text \<open>A start whose requests are taken brings both names to the network.\<close>

lemma start_seen:
  assumes "mdns_ok False m" and "t1"
  shows "seen_names (md_airplay (snd (start_mdns (Some c) t1 t2 ctx port m))) = [airplay_instance ctx]"
    and "t2 \<Longrightarrow> seen_names (md_raop (snd (start_mdns (Some c) t1 t2 ctx port m))) = [raop_instance ctx]"
proof -
  have fst1: "fst (register_service True port x)" for x by (simp add: register_service_def Let_def)
  note a = register_ok(2) [of "md_airplay m" True port] and b = register_ok(2) [of "md_raop m" True port]
  show "seen_names (md_airplay (snd (start_mdns (Some c) t1 t2 ctx port m))) = [airplay_instance ctx]"
    "t2 \<Longrightarrow> seen_names (md_raop (snd (start_mdns (Some c) t1 t2 ctx port m))) = [raop_instance ctx]"
    using assms a b by (simp_all add: start_mdns_def Let_def split_def fst1 mdns_ok_def)
qed

section \<open>Late completions\<close>

text \<open>The completion of an old request is taken for that of the new one: when the cancellation of the
  first name is reported after the second name was registered, the stop that follows finds a status
  that is not success and withdraws nothing.\<close>

definition no_answer :: unregister_answers where
  "no_answer = \<lparr>ua_first = [], ua_second = [], ua_taken = True, ua_last = []\<rparr>"

lemma late_completion_keeps_name:
  "let s1 = snd (register_service True 7000 (name_service ''h'' ''old'' [] new_service));
       s2 = unregister_service no_answer s1;
       s3 = snd (register_service True 7000 (name_service ''h'' ''new'' [] s2));
       s4 = unregister_service no_answer (on_complete 1223 (on_complete 0 s3))
   in sv_log s4 = [Asked ''old'' ''h'' 7000 [] True, Cancelled ''old'', Asked ''new'' ''h'' 7000 [] True,
                   Completed 0, Completed 1223] \<and> sv_contexts s4 = 0 \<and> \<not> sv_active s4"
  by code_simp

section \<open>The labels and the key\<close>

lemma raop_label_length:
  assumes "dc_deviceid ctx = primary_mac n v4 v6 f s" and "dc_name ctx = normalize_receiver_name x"
  shows "length (raop_label ctx) \<le> 63"
  using primary_mac_form [of n v4 v6 f s] normalized_short [of x] assms
  by (simp add: raop_label_def mac_digits_def)

lemma raop_label_chars:
  assumes "dc_deviceid ctx = primary_mac n v4 v6 f s" and "dc_name ctx = normalize_receiver_name x"
  shows "CHR ''.'' \<notin> set (raop_label ctx)"
proof -
  have "CHR ''.'' \<notin> set (mac_digits (primary_mac n v4 v6 f s))"
    using primary_mac_form [of n v4 v6 f s] by (auto dest: subsetD)
  then show ?thesis
    using normalized_plain [of "CHR ''.''" x] assms by (auto simp: raop_label_def mac_digits_def)
qed

end
