(* ===== verification/MainLoop.thy ===== *)
theory MainLoop
  imports Settings Mdns Server
begin

text \<open>
  The program itself (src/main.cpp): the options, what the receiver says about itself, the order in
  which its parts are started and stopped, and the loop that carries the wishes of the window to the
  parts; with the settings that the window changes (src/airplay/live_settings.h).
\<close>

section \<open>The settings of the window\<close>

record window_settings = live_settings +
  lv_vsync :: bool
  lv_fullscreen :: bool
  lv_chromeless :: bool
  lv_rotation :: int
  lv_ui :: ui_preferences

definition snapshot :: "window_settings \<Rightarrow> settings" where
  "snapshot l = \<lparr>se_name = lv_name l, se_width = lv_width l, se_height = lv_height l, se_hevc = lv_hevc l,
     se_max_fps = lv_max_fps l, se_refresh = lv_refresh_rate l, se_hwaccel = lv_hwaccel l, se_vsync = lv_vsync l,
     se_fullscreen = lv_fullscreen l, se_chromeless = lv_chromeless l, se_rotation = lv_rotation l, se_ui = lv_ui l\<rparr>"

section \<open>The options\<close>

text \<open>The size of the screen, when the settings have none; None where SDL does not answer.\<close>

definition initial_size :: "(int \<times> int) option \<Rightarrow> settings \<Rightarrow> settings" where
  "initial_size mode saved =
     (if se_width saved = 0 \<or> se_height saved = 0
      then let s = saved\<lparr>se_width := 2560, se_height := 1440\<rparr>
           in case mode of
                Some (w, h) \<Rightarrow> if 320 \<le> w \<and> 240 \<le> h \<and> w \<le> 7680 \<and> h \<le> 4320 then s\<lparr>se_width := w, se_height := h\<rparr> else s
              | None \<Rightarrow> s
      else saved)"

record options =
  op_hls :: bool
  op_hwaccel :: bool
  op_width :: int
  op_height :: int

definition default_options :: "settings \<Rightarrow> options" where
  "default_options saved = \<lparr>op_hls = False, op_hwaccel = se_hwaccel saved, op_width = se_width saved, op_height = se_height saved\<rparr>"

definition mirror_resolution :: "string \<Rightarrow> options \<Rightarrow> options" where
  "mirror_resolution v o1 =
     (case find_pred (\<lambda>c. c \<in> {CHR ''x'', CHR ''X'', CHR ''*''}) v of
        None \<Rightarrow> o1
      | Some x \<Rightarrow>
          (case (stoi (take x v), stoi (drop (x + 1) v)) of
             (Some w, Some h) \<Rightarrow>
               if 320 \<le> w \<and> 240 \<le> h \<and> w \<le> 7680 \<and> h \<le> 4320 then o1\<lparr>op_width := w, op_height := h\<rparr> else o1
           | _ \<Rightarrow> o1))"

datatype argument = Hls_option | Hwaccel_option | Resolution_option | Help_option | Other_option

definition argument :: "string \<Rightarrow> argument" where
  "argument a =
     (if a = ''--hls-proxy-playback'' \<or> a = ''--hls'' then Hls_option
      else if a = ''--mirror-hwaccel'' then Hwaccel_option
      else if a = ''--mirror-res'' \<or> a = ''-r'' then Resolution_option
      else if a = ''--help'' \<or> a = ''-h'' then Help_option else Other_option)"

text \<open>None is the request for help, at which the program ends; a size is taken from the next argument,
  if there is one.\<close>

fun parse_arguments :: "string list \<Rightarrow> options \<Rightarrow> options option" where
  "parse_arguments [] o1 = Some o1"
| "parse_arguments (a # as) o1 =
     (case argument a of
        Hls_option \<Rightarrow> parse_arguments as (o1\<lparr>op_hls := True\<rparr>)
      | Hwaccel_option \<Rightarrow> parse_arguments as (o1\<lparr>op_hwaccel := True\<rparr>)
      | Resolution_option \<Rightarrow>
          (case as of [] \<Rightarrow> Some o1 | v # as' \<Rightarrow> parse_arguments as' (mirror_resolution v o1))
      | Help_option \<Rightarrow> None
      | Other_option \<Rightarrow> parse_arguments as o1)"

section \<open>What the receiver says about itself\<close>

definition build_device_context :: "bool \<Rightarrow> string \<Rightarrow> device_context" where
  "build_device_context hls mac =
     \<lparr>dc_name = ''AirPlay-Windows'', dc_deviceid = mac, dc_model = ''AppleTV3,2'',
      dc_pi = ''b08f5a79-db29-4384-b456-a4784d9e6055'',
      dc_features = (if hls then ''0x5A7FFEF7,0x400'' else ''0x5A7FFEE6,0x400''), dc_srcvers = ''220.68'',
      dc_public_key = [], dc_renderer = False, dc_player = False, dc_hls_port = 7100, dc_width = 2560, dc_height = 1440,
      dc_hwaccel = True, dc_live = None\<rparr>"

definition seed_live :: "settings \<Rightarrow> options \<Rightarrow> window_settings" where
  "seed_live saved o1 =
     \<lparr>lv_name = se_name saved, lv_width = op_width o1, lv_height = op_height o1, lv_hevc = se_hevc saved,
      lv_max_fps = se_max_fps saved, lv_refresh_rate = se_refresh saved, lv_hwaccel = op_hwaccel o1,
      lv_vsync = se_vsync saved, lv_fullscreen = se_fullscreen saved, lv_chromeless = se_chromeless saved,
      lv_rotation = se_rotation saved, lv_ui = se_ui saved\<rparr>"

text \<open>The context as the server copies it; the port of the local HLS server is stored into the context of
  \<open>main\<close> after that copy was made.\<close>

definition server_context :: "settings \<Rightarrow> options \<Rightarrow> string \<Rightarrow> bytes \<Rightarrow> device_context" where
  "server_context saved o1 mac pk =
     (build_device_context (op_hls o1) mac)
       \<lparr>dc_name := se_name saved, dc_width := op_width o1, dc_height := op_height o1, dc_hwaccel := op_hwaccel o1,
        dc_live := Some (live_settings.truncate (seed_live saved o1)), dc_public_key := pk, dc_renderer := True,
        dc_player := op_hls o1\<rparr>"

definition shown_address :: "string \<Rightarrow> string \<Rightarrow> string" where
  "shown_address v4 v6 = (if (v4 = [] \<or> v4 = ''0.0.0.0'') \<and> v6 \<noteq> [] then v6 else v4)"

section \<open>Starting and stopping\<close>

datatype part = Network | Window | Control | Hls_proxy | Discovery | Usb | Sdl | Player

datatype main_call = Start part bool | Stop part | Configure_firewall | Error_box | Loop | Save_settings

datatype instance_answer = Primary | Secondary | Instance_error

record main_answers =
  ma_instance :: instance_answer
  ma_network :: bool
  ma_identity :: bool
  ma_window :: bool
  ma_control :: bool
  ma_proxy :: bool
  ma_discovery :: bool
  ma_mode :: "(int \<times> int) option"
  ma_firewall :: int

text \<open>The loop is one call here; SDL is asked for the size of the screen and shut down again on the
  way.\<close>

definition run_parts :: "main_answers \<Rightarrow> options \<Rightarrow> main_call list \<times> int" where
  "run_parts a o1 =
     (if \<not> ma_identity a then ([Stop Network], 1)
      else let window = [Start Window (ma_window a)]
           in if \<not> ma_control a then (window @ [Start Control False, Stop Window, Stop Network], 1)
              else (window @ [Start Control True] @ (if op_hls o1 then [Start Hls_proxy (ma_proxy a)] else [])
                    @ [Start Discovery (ma_discovery a), Start Usb True, Loop, Stop Control, Stop Discovery, Stop Usb,
                       Stop Player, Stop Hls_proxy, Stop Window, Save_settings, Stop Sdl, Stop Network], 0))"

definition main_program :: "main_answers \<Rightarrow> string option \<Rightarrow> string list \<Rightarrow> main_call list \<times> int" where
  "main_program a file args =
     (if ''--configure-firewall'' \<in> set args then ([Configure_firewall], ma_firewall a)
      else let help_only = (''--help'' \<in> set args \<or> ''-h'' \<in> set args)
           in if \<not> help_only \<and> ma_instance a = Secondary then ([], 0)
              else if \<not> help_only \<and> ma_instance a = Instance_error then ([Error_box], 1)
              else let saved = initial_size (ma_mode a) (load_settings file)
                   in if \<not> ma_network a then ([Start Network False], 1)
                      else case parse_arguments args (default_options saved) of
                             None \<Rightarrow> ([Start Network True, Stop Network], 0)
                           | Some o1 \<Rightarrow> (let (calls, code) = run_parts a o1 in (Start Network True # calls, code)))"

section \<open>The loop\<close>

text \<open>What a turn asks of the other parts.\<close>

datatype loop_call =
    Idle_info string string
  | Disconnect_clients
  | Control_audio media_command u32 string
  | Command_finished bool
  | Control_available bool
  | Save_attempt settings int

record loop_state =
  lo_name :: string
  lo_mdns :: mdns
  lo_disconnect :: bool
  lo_request :: "(media_command \<times> u32 \<times> string) option"
  lo_last_saved :: settings
  lo_observed :: settings
  lo_changed_at :: int
  lo_disk :: disk

text \<open>What a turn reads: the name and the settings of the window, the device it shows, the remote
  controls, the clock in nanoseconds; and the answers of the calls.\<close>

record turn_input =
  tu_name :: string
  tu_settings :: settings
  tu_computer :: "string option"
  tu_taken1 :: bool
  tu_taken2 :: bool
  tu_stop1 :: unregister_answers
  tu_stop2 :: unregister_answers
  tu_success :: bool
  tu_device :: string
  tu_remotes :: remotes
  tu_now :: int
  tu_save :: save_answers

definition half_second :: int where
  "half_second = 500000000"

definition rename_step :: "device_context \<Rightarrow> string \<Rightarrow> u16 \<Rightarrow> turn_input \<Rightarrow> loop_state \<Rightarrow> loop_call list \<times> loop_state" where
  "rename_step ctx ip port i s =
     (if tu_name i = lo_name s then ([], s)
      else let m = stop_mdns (tu_stop1 i) (tu_stop2 i) (lo_mdns s);
               (_, m1) = start_mdns (tu_computer i) (tu_taken1 i) (tu_taken2 i) (ctx\<lparr>dc_name := tu_name i\<rparr>) port m
           in ([Idle_info (tu_name i) ip], s\<lparr>lo_name := tu_name i, lo_mdns := m1\<rparr>))"

definition request_step :: "turn_input \<Rightarrow> loop_state \<Rightarrow> loop_call list \<times> loop_state" where
  "request_step i s =
     ((if lo_disconnect s then [Disconnect_clients] else [])
      @ (case lo_request s of None \<Rightarrow> [] | Some (c, pos, sid) \<Rightarrow> [Control_audio c pos sid, Command_finished (tu_success i)])
      @ [Control_available (audio_control_available (tu_device i) (tu_remotes i))],
      s\<lparr>lo_disconnect := False, lo_request := None\<rparr>)"

definition settings_step :: "turn_input \<Rightarrow> loop_state \<Rightarrow> loop_call list \<times> loop_state" where
  "settings_step i s =
     (let cur = tu_settings i;
          s1 = (if cur \<noteq> lo_observed s then s\<lparr>lo_observed := cur, lo_changed_at := tu_now i\<rparr> else s)
      in if cur \<noteq> lo_last_saved s1 \<and> half_second \<le> tu_now i - lo_changed_at s1
         then let (ok, d) = save_settings (tu_save i) cur (lo_disk s1);
                  s2 = s1\<lparr>lo_disk := d\<rparr>;
                  s3 = (if ok then s2\<lparr>lo_last_saved := cur\<rparr> else s2)
              in ([Save_attempt cur (tu_now i)], s3\<lparr>lo_changed_at := tu_now i\<rparr>)
         else ([], s1))"

definition turn_step :: "device_context \<Rightarrow> string \<Rightarrow> u16 \<Rightarrow> turn_input \<Rightarrow> loop_state \<Rightarrow> loop_call list \<times> loop_state" where
  "turn_step ctx ip port i s =
     (let (c1, s1) = rename_step ctx ip port i s;
          (c2, s2) = request_step i s1;
          (c3, s3) = settings_step i s2
      in (c1 @ c2 @ c3, s3))"

text \<open>Between the turns the thread of the window sets the wishes, a later one in the place of an earlier
  one, and the DNS service completes its requests.\<close>

datatype loop_event =
    Turn turn_input
  | Wish_disconnect
  | Wish_audio media_command u32 string
  | Dns_airplay u32
  | Dns_raop u32

fun loop_step :: "device_context \<Rightarrow> string \<Rightarrow> u16 \<Rightarrow> loop_event \<Rightarrow> loop_state \<Rightarrow> loop_call list \<times> loop_state" where
  "loop_step ctx ip port (Turn i) s = turn_step ctx ip port i s"
| "loop_step ctx ip port Wish_disconnect s = ([], s\<lparr>lo_disconnect := True\<rparr>)"
| "loop_step ctx ip port (Wish_audio c pos sid) s = ([], s\<lparr>lo_request := Some (c, pos, sid)\<rparr>)"
| "loop_step ctx ip port (Dns_airplay st) s = ([], s\<lparr>lo_mdns := mdns_event_step (Airplay_completes st) (lo_mdns s)\<rparr>)"
| "loop_step ctx ip port (Dns_raop st) s = ([], s\<lparr>lo_mdns := mdns_event_step (Raop_completes st) (lo_mdns s)\<rparr>)"

fun run_loop :: "device_context \<Rightarrow> string \<Rightarrow> u16 \<Rightarrow> loop_event list \<Rightarrow> loop_state \<Rightarrow> loop_call list \<times> loop_state" where
  "run_loop ctx ip port [] s = ([], s)"
| "run_loop ctx ip port (e # es) s =
     (let (c, s1) = loop_step ctx ip port e s; (cs, s2) = run_loop ctx ip port es s1 in (c @ cs, s2))"

text \<open>The state in which the loop begins, with the advertisement just started.\<close>

definition loop_start :: "string option \<Rightarrow> bool \<Rightarrow> bool \<Rightarrow> device_context \<Rightarrow> u16 \<Rightarrow> settings \<Rightarrow> int \<Rightarrow> disk \<Rightarrow> loop_state" where
  "loop_start computer t1 t2 ctx port lv now d =
     \<lparr>lo_name = dc_name ctx, lo_mdns = snd (start_mdns computer t1 t2 ctx port new_mdns), lo_disconnect = False,
      lo_request = None, lo_last_saved = lv, lo_observed = lv, lo_changed_at = now, lo_disk = d\<rparr>"

section \<open>The first advertisement\<close>

definition size_ok :: "int \<Rightarrow> int \<Rightarrow> bool" where
  "size_ok w h \<longleftrightarrow> w \<in> {320..7680} \<and> h \<in> {240..4320}"

definition options_ok :: "options \<Rightarrow> bool" where
  "options_ok o1 \<longleftrightarrow> size_ok (op_width o1) (op_height o1)"

lemma initial_size_ok: "settings_ok s \<Longrightarrow> options_ok (default_options (initial_size mode s))"
  by (auto simp: initial_size_def default_options_def options_ok_def size_ok_def settings_ok_def Let_def split: option.split)

lemma initial_size_others:
  "se_name (initial_size mode s) = se_name s" "se_max_fps (initial_size mode s) = se_max_fps s"
  "se_refresh (initial_size mode s) = se_refresh s" "se_hevc (initial_size mode s) = se_hevc s"
  by (auto simp: initial_size_def Let_def split: option.split)

lemma resolution_ok: "options_ok o1 \<Longrightarrow> options_ok (mirror_resolution v o1)"
  by (auto simp: mirror_resolution_def options_ok_def size_ok_def split: option.split)

lemma arguments_ok: "options_ok o1 \<Longrightarrow> parse_arguments as o1 = Some o2 \<Longrightarrow> options_ok o2"
proof (induction as o1 rule: parse_arguments.induct)
  case (2 a as o1)
  then show ?case by (cases "argument a"; cases as) (simp_all add: options_ok_def resolution_ok [unfolded options_ok_def])
qed simp

text \<open>The entry of the screen in the answer to /info.\<close>

definition info_entries :: "device_context \<Rightarrow> (string \<times> plist) list" where
  "info_entries ctx = (case info_root ctx of PDict es \<Rightarrow> es | _ \<Rightarrow> [])"

lemma info_display:
  "map_of (info_entries (server_context s o1 mac pk)) ''displays''
     = Some (PArray [make_display (op_width o1) (op_height o1) (se_refresh s) (se_max_fps s)])"
  by (simp add: info_entries_def info_root_def server_context_def seed_live_def live_settings.truncate_def Let_def)

lemma parse_mirror_features: "parse_features ''0x5A7FFEE6,0x400'' = 0x4005A7FFEE6"
proof -
  have "stoull16 ''0x5A7FFEE6'' = Some 0x5A7FFEE6" "stoull16 ''0x400'' = Some 0x400"
    by (simp_all add: stoull16_def strip_0x_def hex_value_def hex_val_def is_hex_def isspace_def)
  moreover have "find_str '','' ''0x5A7FFEE6,0x400'' = Some 10" by code_simp
  ultimately show ?thesis by (simp add: parse_features_def Let_def)
qed

text \<open>The text entries of mDNS carry the features of the options whatever the switch for HEVC says, while
  the answer to /info follows the switch.\<close>

lemma hevc_advertised_anyway:
  assumes "\<not> se_hevc s"
  shows "map_of (airplay_entries (server_context s o1 mac pk)) ''features'' = Some (dc_features (build_device_context (op_hls o1) mac))
    \<and> bit (parse_features (dc_features (build_device_context (op_hls o1) mac))) 42
    \<and> \<not> bit (info_features (server_context s o1 mac pk)) 42"
proof -
  have "bit (0x4005A7FFEF7 :: u64) 42" "bit (0x4005A7FFEE6 :: u64) 42" by (simp_all add: bit_iff_odd)
  then have "bit (parse_features (dc_features (build_device_context (op_hls o1) mac))) 42"
    by (simp add: build_device_context_def parse_hls_features parse_mirror_features)
  moreover have "\<not> bit (info_features (server_context s o1 mac pk)) 42"
    using assms by (simp add: info_feature_bits server_context_def seed_live_def live_settings.truncate_def)
  ultimately show ?thesis by (simp add: airplay_entries_def server_context_def)
qed

section \<open>The parts of the program\<close>

text \<open>Every part that was started is stopped once, later, whichever way the program ends.\<close>

definition released :: "part \<Rightarrow> main_call list \<Rightarrow> bool" where
  "released p calls \<longleftrightarrow>
     (let mine = filter (\<lambda>c. case c of Start q b \<Rightarrow> q = p \<and> b | Stop q \<Rightarrow> q = p | _ \<Rightarrow> False) calls
      in Start p True \<in> set calls \<longrightarrow> mine = [Start p True, Stop p])"

lemma parts_released: "released p (fst (main_program a file args))"
proof -
  have run: "released p (Start Network True # fst (run_parts a o1))" for o1
    by (cases p) (simp_all add: run_parts_def Let_def released_def)
  show ?thesis
  proof (cases "parse_arguments args (default_options (initial_size (ma_mode a) (load_settings file)))")
    case None
    then show ?thesis by (cases p) (simp_all add: main_program_def Let_def released_def)
  next
    case (Some o1)
    then show ?thesis using run [of o1]
      by (auto simp: main_program_def Let_def split_def) (auto simp: released_def)
  qed
qed

section \<open>The settings on the disk\<close>

fun turns :: "loop_event list \<Rightarrow> turn_input list" where
  "turns [] = []"
| "turns (Turn i # es) = i # turns es"
| "turns (_ # es) = turns es"

text \<open>The settings are touched by the last part of a turn only.\<close>

definition same_saving :: "loop_state \<Rightarrow> loop_state \<Rightarrow> bool" where
  "same_saving s t \<longleftrightarrow> lo_last_saved t = lo_last_saved s \<and> lo_observed t = lo_observed s
     \<and> lo_changed_at t = lo_changed_at s \<and> lo_disk t = lo_disk s"

lemma rename_saving: "same_saving s (snd (rename_step ctx ip port i s))"
  by (simp add: rename_step_def same_saving_def Let_def split_def)

lemma request_saving: "same_saving s (snd (request_step i s))"
  by (simp add: request_step_def same_saving_def)

definition save_due :: "turn_input \<Rightarrow> loop_state \<Rightarrow> bool" where
  "save_due i s \<longleftrightarrow> tu_settings i = lo_observed s \<and> tu_settings i \<noteq> lo_last_saved s \<and> half_second \<le> tu_now i - lo_changed_at s"

lemma settings_step_eq:
  "lo_observed (snd (settings_step i s)) = tu_settings i
   \<and> lo_last_saved (snd (settings_step i s)) = (if save_due i s \<and> succeeds (tu_save i) then tu_settings i else lo_last_saved s)
   \<and> lo_changed_at (snd (settings_step i s)) = (if save_due i s \<or> tu_settings i \<noteq> lo_observed s then tu_now i else lo_changed_at s)
   \<and> lo_disk (snd (settings_step i s)) = (if save_due i s then snd (save_settings (tu_save i) (tu_settings i) (lo_disk s)) else lo_disk s)
   \<and> fst (settings_step i s) = (if save_due i s then [Save_attempt (tu_settings i) (tu_now i)] else [])"
proof -
  have "fst (save_settings a t d) = succeeds a" for a t d
    by (auto simp: save_settings_def succeeds_def split: option.split)
  then show ?thesis by (auto simp: settings_step_def save_due_def half_second_def Let_def split_def)
qed

definition after_turn :: "turn_input \<Rightarrow> loop_state \<Rightarrow> loop_state \<Rightarrow> bool" where
  "after_turn i s t \<longleftrightarrow> lo_observed t = tu_settings i
   \<and> lo_last_saved t = (if save_due i s \<and> succeeds (tu_save i) then tu_settings i else lo_last_saved s)
   \<and> lo_changed_at t = (if save_due i s \<or> tu_settings i \<noteq> lo_observed s then tu_now i else lo_changed_at s)
   \<and> lo_disk t = (if save_due i s then snd (save_settings (tu_save i) (tu_settings i) (lo_disk s)) else lo_disk s)"

fun attempts :: "loop_call list \<Rightarrow> int list" where
  "attempts [] = []"
| "attempts (Save_attempt _ now # cs) = now # attempts cs"
| "attempts (_ # cs) = attempts cs"

lemma attempts_append [simp]: "attempts (a @ b) = attempts a @ attempts b"
  by (induction a rule: attempts.induct) simp_all

lemma turn_saving:
  "after_turn i s (snd (turn_step ctx ip port i s)) \<and> attempts (fst (turn_step ctx ip port i s)) = (if save_due i s then [tu_now i] else [])"
proof -
  let ?s1 = "snd (rename_step ctx ip port i s)"
  let ?s2 = "snd (request_step i ?s1)"
  have same: "same_saving s ?s2" using rename_saving [of s ctx ip port i] request_saving [of ?s1 i] by (simp add: same_saving_def)
  then have due: "save_due i ?s2 = save_due i s" by (simp add: save_due_def same_saving_def)
  have "attempts (fst (rename_step ctx ip port i s)) = []" by (simp add: rename_step_def split_def Let_def)
  moreover have "attempts (fst (request_step i ?s1)) = []" by (simp add: request_step_def split: option.split)
  ultimately have "attempts (fst (turn_step ctx ip port i s)) = attempts (fst (settings_step i ?s2))"
    by (simp add: turn_step_def split_def Let_def)
  moreover have "snd (turn_step ctx ip port i s) = snd (settings_step i ?s2)" by (simp add: turn_step_def split_def Let_def)
  ultimately show ?thesis using settings_step_eq [of i ?s2] same due by (simp add: after_turn_def same_saving_def)
qed

lemma other_saving: "turns [e] = [] \<Longrightarrow> same_saving s (snd (loop_step ctx ip port e s)) \<and> attempts (fst (loop_step ctx ip port e s)) = []"
  by (cases e) (simp_all add: same_saving_def)

lemma loop_step_saving:
  obtains (turn) i where "turns (e # es) = i # turns es" "after_turn i s (snd (loop_step ctx ip port e s))"
    "attempts (fst (loop_step ctx ip port e s)) = (if save_due i s then [tu_now i] else [])"
  | (other) "turns (e # es) = turns es" "same_saving s (snd (loop_step ctx ip port e s))" "attempts (fst (loop_step ctx ip port e s)) = []"
proof (cases e)
  case (Turn i)
  then show ?thesis using turn_saving [of i s ctx ip port] by (intro turn) simp_all
qed (use other_saving [of e s ctx ip port] other in simp_all)

lemma run_loop_Cons:
  "run_loop ctx ip port (e # es) s =
     (fst (loop_step ctx ip port e s) @ fst (run_loop ctx ip port es (snd (loop_step ctx ip port e s))),
      snd (run_loop ctx ip port es (snd (loop_step ctx ip port e s))))"
  by (simp add: split_def Let_def)

text \<open>Two attempts to save are half a second apart, and the first comes half a second after the last
  change.\<close>

lemma attempts_spaced:
  assumes "sorted (lo_changed_at s # map tu_now (turns es))"
  shows "successively (\<lambda>a b. a + half_second \<le> b) (lo_changed_at s # attempts (fst (run_loop ctx ip port es s)))"
  using assms
proof (induction es arbitrary: s)
  case (Cons e es)
  let ?t = "snd (loop_step ctx ip port e s)"
  have later: "successively (\<lambda>a b. a + half_second \<le> b) (c # xs)" if "c \<le> d" "successively (\<lambda>a b. a + half_second \<le> b) (d # xs)" for c d xs
    using that by (cases xs) auto
  show ?case
  proof (cases rule: loop_step_saving [of e es s ctx ip port, case_names turn other])
    case (turn i)
    then have "sorted (lo_changed_at ?t # map tu_now (turns es))" "lo_changed_at s \<le> lo_changed_at ?t"
      using Cons.prems by (auto simp: after_turn_def split: if_splits)
    then show ?thesis
      using Cons.IH [of ?t] turn later by (auto simp: run_loop_Cons after_turn_def save_due_def simp del: run_loop.simps)
  next
    case other
    then show ?thesis using Cons.IH [of ?t] Cons.prems by (simp add: run_loop_Cons same_saving_def del: run_loop.simps)
  qed
qed simp

text \<open>Settings that stay are saved.\<close>

definition steady :: "settings \<Rightarrow> loop_event list \<Rightarrow> bool" where
  "steady cur es \<longleftrightarrow> (\<forall>i\<in>set (turns es). tu_settings i = cur \<and> succeeds (tu_save i))"

lemma kept_saved:
  assumes "steady cur es" and "settings_ok cur" and "lo_last_saved s = cur" and "load_settings (dk_settings (lo_disk s)) = cur"
  shows "load_settings (dk_settings (lo_disk (snd (run_loop ctx ip port es s)))) = cur"
  using assms
proof (induction es arbitrary: s)
  case (Cons e es)
  let ?t = "snd (loop_step ctx ip port e s)"
  have "steady cur es \<and> lo_last_saved ?t = cur \<and> load_settings (dk_settings (lo_disk ?t)) = cur"
    using Cons.prems by (cases rule: loop_step_saving [of e es s ctx ip port, case_names turn other])
      (auto simp: after_turn_def save_due_def same_saving_def steady_def)
  then show ?case using Cons.IH [of ?t] Cons.prems(2) by (simp add: run_loop_Cons del: run_loop.simps)
qed simp

definition waiting :: "settings \<Rightarrow> int \<Rightarrow> loop_state \<Rightarrow> bool" where
  "waiting cur t0 s \<longleftrightarrow> lo_observed s = cur
     \<and> (if lo_last_saved s = cur then load_settings (dk_settings (lo_disk s)) = cur else lo_changed_at s \<le> t0)"

lemma waiting_saved:
  assumes "steady cur es" and "settings_ok cur" and "waiting cur t0 s" and "\<exists>i\<in>set (turns es). t0 + half_second \<le> tu_now i"
  shows "load_settings (dk_settings (lo_disk (snd (run_loop ctx ip port es s)))) = cur"
  using assms
proof (induction es arbitrary: s)
  case (Cons e es)
  let ?t = "snd (loop_step ctx ip port e s)"
  show ?case
  proof (cases rule: loop_step_saving [of e es s ctx ip port, case_names turn other])
    case (turn i)
    then have cur: "steady cur es" "tu_settings i = cur" "succeeds (tu_save i)"
      using Cons.prems(1) by (auto simp: steady_def)
    show ?thesis
    proof (cases "save_due i s \<or> lo_last_saved s = cur")
      case True
      then have "lo_last_saved ?t = cur \<and> load_settings (dk_settings (lo_disk ?t)) = cur"
        using turn(2) cur Cons.prems(2,3) by (auto simp: after_turn_def save_step waiting_def save_due_def)
      then show ?thesis using kept_saved [OF cur(1) Cons.prems(2), of ?t] by (simp add: run_loop_Cons del: run_loop.simps)
    next
      case False
      then have "waiting cur t0 ?t" using turn(2) cur Cons.prems(3) by (simp add: after_turn_def waiting_def)
      moreover have "\<not> t0 + half_second \<le> tu_now i"
        using False cur(2) Cons.prems(3) by (auto simp: save_due_def waiting_def)
      ultimately show ?thesis
        using Cons.IH [of ?t] Cons.prems(2,4) cur(1) turn(1) by (simp add: run_loop_Cons del: run_loop.simps)
    qed
  next
    case other
    then show ?thesis
      using Cons.IH [of ?t] Cons.prems by (simp add: run_loop_Cons same_saving_def waiting_def steady_def del: run_loop.simps)
  qed
qed simp

section \<open>The name on the network\<close>

definition named :: "device_context \<Rightarrow> loop_state \<Rightarrow> bool" where
  "named ctx s \<longleftrightarrow> mdns_ok True (lo_mdns s)
     \<and> (sv_active (md_airplay (lo_mdns s)) \<longrightarrow> sv_instance (md_airplay (lo_mdns s)) = airplay_instance (ctx\<lparr>dc_name := lo_name s\<rparr>))
     \<and> (sv_active (md_raop (lo_mdns s)) \<longrightarrow> sv_instance (md_raop (lo_mdns s)) = raop_instance (ctx\<lparr>dc_name := lo_name s\<rparr>))"

lemma start_names:
  fixes c t1 t2 ctx port m
  assumes "mdns_ok False m"
  defines "m1 \<equiv> snd (start_mdns c t1 t2 ctx port m)"
  shows "(sv_active (md_airplay m1) \<longrightarrow> sv_instance (md_airplay m1) = airplay_instance ctx)
    \<and> (sv_active (md_raop m1) \<longrightarrow> sv_instance (md_raop m1) = raop_instance ctx)"
  using assms by (auto simp: start_mdns_def register_service_def mdns_ok_def Let_def split: option.split if_splits)

lemma rename_named:
  assumes "named ctx s" and "timely (tu_stop1 i)" and "timely (tu_stop2 i)"
  shows "named ctx (snd (rename_step ctx ip port i s)) \<and> lo_name (snd (rename_step ctx ip port i s)) = tu_name i"
proof (cases "tu_name i = lo_name s")
  case False
  let ?m = "stop_mdns (tu_stop1 i) (tu_stop2 i) (lo_mdns s)"
  have m: "mdns_ok False ?m" using assms stop_ok by (auto simp: named_def)
  have "snd (rename_step ctx ip port i s) = s\<lparr>lo_name := tu_name i,
      lo_mdns := snd (start_mdns (tu_computer i) (tu_taken1 i) (tu_taken2 i) (ctx\<lparr>dc_name := tu_name i\<rparr>) port ?m)\<rparr>"
    using False by (simp add: rename_step_def Let_def split_def)
  then show ?thesis using start_ok [OF m] start_names [OF m] by (simp add: named_def)
qed (use assms in \<open>simp add: rename_step_def\<close>)

lemma settings_named: "named ctx s \<Longrightarrow> named ctx (snd (settings_step i s)) \<and> lo_name (snd (settings_step i s)) = lo_name s"
  by (simp add: settings_step_def named_def Let_def split_def)

lemma turn_named:
  assumes "named ctx s" and "timely (tu_stop1 i)" and "timely (tu_stop2 i)"
  shows "named ctx (snd (turn_step ctx ip port i s)) \<and> lo_name (snd (turn_step ctx ip port i s)) = tu_name i"
proof -
  let ?s1 = "snd (rename_step ctx ip port i s)"
  have "named ctx (snd (request_step i ?s1)) \<and> lo_name (snd (request_step i ?s1)) = tu_name i"
    using rename_named [OF assms, of ip port] by (simp add: request_step_def named_def)
  then show ?thesis
    using settings_named [of ctx "snd (request_step i ?s1)" i] by (simp add: turn_step_def split_def Let_def)
qed

lemma complete_named: "mdns_ok True m \<Longrightarrow> mdns_ok True (m\<lparr>md_airplay := on_complete st (md_airplay m)\<rparr>) \<and> mdns_ok True (m\<lparr>md_raop := on_complete st (md_raop m)\<rparr>)"
  by (simp add: mdns_ok_def complete_ok)

lemma turns_append: "turns (es @ fs) = turns es @ turns fs"
  by (induction es rule: turns.induct) simp_all

definition answered_in_time :: "loop_event list \<Rightarrow> bool" where
  "answered_in_time es \<longleftrightarrow> list_all (\<lambda>i. timely (tu_stop1 i) \<and> timely (tu_stop2 i)) (turns es)"

lemma loop_named: "answered_in_time es \<Longrightarrow> named ctx s \<Longrightarrow> named ctx (snd (run_loop ctx ip port es s))"
proof (induction es arbitrary: s)
  case (Cons e es)
  have "named ctx (snd (loop_step ctx ip port e s))"
    using Cons.prems turn_named complete_named by (cases e) (simp_all add: named_def answered_in_time_def)
  moreover have "answered_in_time es" using Cons.prems(1) by (cases e) (simp_all add: answered_in_time_def)
  ultimately show ?case using Cons.IH by (simp add: run_loop_Cons del: run_loop.simps)
qed simp

lemma start_named: "named ctx (loop_start c t1 t2 ctx port lv now d)"
proof -
  have m: "mdns_ok False new_mdns" by (simp add: mdns_ok_def new_mdns_def new_service_ok) (simp add: new_service_def)
  show ?thesis using start_ok [OF m] start_names [OF m] by (simp add: named_def loop_start_def)
qed

lemma named_seen:
  assumes "named ctx s"
  shows "set (seen_names (md_airplay (lo_mdns s))) \<subseteq> {airplay_instance (ctx\<lparr>dc_name := lo_name s\<rparr>)}"
    and "set (seen_names (md_raop (lo_mdns s))) \<subseteq> {raop_instance (ctx\<lparr>dc_name := lo_name s\<rparr>)}"
  using assms seen_only [of "md_airplay (lo_mdns s)"] seen_only [of "md_raop (lo_mdns s)"]
  by (auto simp: named_def mdns_ok_def split: if_splits)

lemma turn_mdns: "lo_mdns (snd (turn_step ctx ip port i s)) = lo_mdns (snd (rename_step ctx ip port i s))"
  by (simp add: turn_step_def request_step_def settings_step_def Let_def split_def)

lemma rename_seen:
  assumes "named ctx s" and "timely (tu_stop1 i)" and "timely (tu_stop2 i)" and "tu_name i \<noteq> lo_name s"
    and "tu_computer i \<noteq> None" and "tu_taken1 i" and "tu_taken2 i"
  shows "seen_names (md_airplay (lo_mdns (snd (rename_step ctx ip port i s)))) = [airplay_instance (ctx\<lparr>dc_name := tu_name i\<rparr>)]"
    and "seen_names (md_raop (lo_mdns (snd (rename_step ctx ip port i s)))) = [raop_instance (ctx\<lparr>dc_name := tu_name i\<rparr>)]"
proof -
  have m: "mdns_ok False (stop_mdns (tu_stop1 i) (tu_stop2 i) (lo_mdns s))"
    using assms(1-3) stop_ok by (auto simp: named_def)
  show "seen_names (md_airplay (lo_mdns (snd (rename_step ctx ip port i s)))) = [airplay_instance (ctx\<lparr>dc_name := tu_name i\<rparr>)]"
    "seen_names (md_raop (lo_mdns (snd (rename_step ctx ip port i s)))) = [raop_instance (ctx\<lparr>dc_name := tu_name i\<rparr>)]"
    using assms(4-7) start_seen [OF m] by (auto simp: rename_step_def Let_def split_def)
qed

text \<open>A name whose advertisement fails is not tried again: the next turns find it unchanged.\<close>

lemma failed_rename_stays: "tu_name i = lo_name s \<Longrightarrow> lo_mdns (snd (turn_step ctx ip port i s)) = lo_mdns s"
  by (simp add: turn_step_def rename_step_def request_step_def settings_step_def Let_def split_def)

section \<open>Properties\<close>

text \<open>C9: Whatever the settings file, the screen and the arguments are, the screen that the answer to
  /info describes has a size from 320x240 to 7680x4320 and from 1 to 60 frames a second, and the
  label of the sound service, with the address of any adapter and the stored name, fits the 63 bytes
  of a DNS label and contains no dot.\<close>

theorem first_advertisement_valid:
  assumes "parse_arguments args (default_options (initial_size mode (load_settings file))) = Some o1"
  shows "let ctx = server_context (initial_size mode (load_settings file)) o1 (primary_mac ntop6 v4 v6 first second) pk in
    (\<exists>w h rate fps. map_of (info_entries ctx) ''displays'' = Some (PArray [make_display w h rate fps])
      \<and> w \<in> {320..7680} \<and> h \<in> {240..4320} \<and> rate \<in> {1..60} \<and> fps \<in> {1..60})
    \<and> length (raop_label ctx) \<le> 63 \<and> CHR ''.'' \<notin> set (raop_label ctx) \<and> dc_name ctx \<noteq> []"
proof -
  let ?s = "initial_size mode (load_settings file)"
  let ?ctx = "server_context ?s o1 (primary_mac ntop6 v4 v6 first second) pk"
  have o1: "options_ok o1" using arguments_ok [OF initial_size_ok [OF load_ok] assms(1)] .
  have s: "settings_ok (load_settings file)" by (rule load_ok)
  have "dc_name ?ctx = normalize_receiver_name (se_name (load_settings file))" "dc_name ?ctx \<noteq> []"
    and "dc_deviceid ?ctx = primary_mac ntop6 v4 v6 first second"
    using s by (simp_all add: server_context_def build_device_context_def initial_size_others settings_ok_def)
  then have "length (raop_label ?ctx) \<le> 63 \<and> CHR ''.'' \<notin> set (raop_label ?ctx) \<and> dc_name ?ctx \<noteq> []"
    using raop_label_length raop_label_chars by blast
  moreover have "map_of (info_entries ?ctx) ''displays''
      = Some (PArray [make_display (op_width o1) (op_height o1) (se_refresh ?s) (se_max_fps ?s)])"
    by (rule info_display)
  moreover have "op_width o1 \<in> {320..7680}" "op_height o1 \<in> {240..4320}" using o1 by (simp_all add: options_ok_def size_ok_def)
  moreover have "se_refresh ?s \<in> {1..60}" "se_max_fps ?s \<in> {1..60}" using s by (simp_all add: initial_size_others settings_ok_def)
  ultimately show ?thesis unfolding Let_def by blast
qed


text \<open>C6: When the DNS service answers in time (at each renaming the registration that is still due is
  completed, with whatever status, before its wait is over, and the withdrawal is taken and completed
  with success), then at any moment of the loop no name is on the network but that of the present name
  of the receiver, whatever the user renames and which registrations fail; a turn that finds another
  name in the window has, when both registrations are taken, exactly that one on the network, and after
  every turn the present name is the one the window has. A completion that comes later than that can
  leave an older name there.\<close>

theorem only_present_name:
  assumes "answered_in_time (es @ [Turn i])"
  shows "let s = snd (run_loop ctx ip port es (loop_start c t1 t2 ctx port lv now d));
      t = snd (loop_step ctx ip port (Turn i) s) in
    set (seen_names (md_airplay (lo_mdns s))) \<subseteq> {lo_name s @ ''._airplay._tcp.local''}
    \<and> set (seen_names (md_raop (lo_mdns s))) \<subseteq> {raop_instance (ctx\<lparr>dc_name := lo_name s\<rparr>)}
    \<and> lo_name t = tu_name i
    \<and> (tu_name i \<noteq> lo_name s \<longrightarrow> tu_computer i \<noteq> None \<longrightarrow> tu_taken1 i \<longrightarrow> tu_taken2 i \<longrightarrow>
        seen_names (md_airplay (lo_mdns t)) = [tu_name i @ ''._airplay._tcp.local'']
        \<and> seen_names (md_raop (lo_mdns t)) = [raop_instance (ctx\<lparr>dc_name := tu_name i\<rparr>)])"
proof -
  define s where "s = snd (run_loop ctx ip port es (loop_start c t1 t2 ctx port lv now d))"
  have es: "answered_in_time es" and i: "timely (tu_stop1 i)" "timely (tu_stop2 i)"
    using assms by (simp_all add: answered_in_time_def turns_append)
  have n: "named ctx s" unfolding s_def by (rule loop_named [OF es start_named])
  have a: "airplay_instance (ctx\<lparr>dc_name := x\<rparr>) = x @ ''._airplay._tcp.local''" for x
    by (simp add: airplay_instance_def)
  show ?thesis
    using named_seen [OF n] turn_named [OF n i, of ip port] rename_seen [OF n i, of ip port]
    unfolding Let_def s_def [symmetric] loop_step.simps(1) turn_mdns a by blast
qed

section \<open>Witnesses\<close>

definition good_save :: save_answers where
  "good_save = \<lparr>sa_directory = True, sa_open = True, sa_written = None, sa_replace = True\<rparr>"

definition quiet_turn :: "settings \<Rightarrow> int \<Rightarrow> turn_input" where
  "quiet_turn t now = \<lparr>tu_name = se_name t, tu_settings = t, tu_computer = Some ''pc'', tu_taken1 = True, tu_taken2 = True,
     tu_stop1 = no_answer, tu_stop2 = no_answer, tu_success = True, tu_device = [], tu_remotes = [], tu_now = now, tu_save = good_save\<rparr>"

definition sample_loop :: loop_state where
  "sample_loop = loop_start (Some ''pc'') True True (build_device_context False ''02:00:00:00:00:00'') 7000 default_settings 0
     \<lparr>dk_settings = None, dk_temporary = None\<rparr>"

theorem first_advertisement_valid_witness:
  "let ctx = server_context (initial_size (Some (1920, 1080)) (load_settings None)) (default_options (initial_size (Some (1920, 1080)) (load_settings None)))
      (primary_mac (\<lambda>_. []) ''10.0.0.2'' [] (Adapters []) No_adapters) []
   in length (raop_label ctx) \<le> 63 \<and> dc_name ctx \<noteq> []"
  using first_advertisement_valid [of "[]" "Some (1920, 1080)" None
      "default_options (initial_size (Some (1920, 1080)) (load_settings None))" "\<lambda>_. []" "''10.0.0.2''" "[]" "Adapters []" No_adapters "[]"]
  unfolding Let_def by simp


definition in_time :: unregister_answers where
  "in_time = \<lparr>ua_first = [0], ua_second = [], ua_taken = True, ua_last = [0]\<rparr>"

definition renaming_turn :: turn_input where
  "renaming_turn = (quiet_turn (default_settings\<lparr>se_name := ''Kitchen''\<rparr>) 1)\<lparr>tu_stop1 := in_time, tu_stop2 := in_time\<rparr>"

lemma sample_name: "lo_name sample_loop = ''AirPlay-Windows''"
  by (simp add: sample_loop_def loop_start_def build_device_context_def)

theorem only_present_name_witness:
  "seen_names (md_airplay (lo_mdns (snd (turn_step (build_device_context False ''02:00:00:00:00:00'') [] 7000 renaming_turn sample_loop))))
     = [''Kitchen._airplay._tcp.local'']"
proof -
  have "answered_in_time ([] @ [Turn renaming_turn])"
    by (simp add: answered_in_time_def renaming_turn_def in_time_def timely_def)
  from only_present_name [OF this, of "build_device_context False ''02:00:00:00:00:00''" "[]" 7000 "Some ''pc''" True True default_settings 0
      "\<lparr>dk_settings = None, dk_temporary = None\<rparr>"]
  show ?thesis
    unfolding run_loop.simps snd_conv sample_loop_def [symmetric] loop_step.simps
    by (simp add: Let_def renaming_turn_def quiet_turn_def sample_name default_settings_def)
qed

end
