(* ===== verification/Recorder.thy ===== *)
theory Recorder
  imports Prelude
begin

text \<open>
  The recorder (src/video/video_recorder.cpp, src/video/video_recorder.h): the two bounded queues into
  which the decoders put pictures and sound, the choice of an encoder, and the thread that turns the
  queues into one timeline and hands it to the encoders. The encoders, the file and the conversion of
  pixels belong to FFmpeg and to Direct3D; their answers are arguments. Times are integers: clock
  values in nanoseconds, marks in milliseconds, as 64-bit counts that do not overflow.
\<close>

type_synonym sample = "16 word"

section \<open>Options and encoders\<close>

datatype encoder_mode = Mode_auto | Mode_gpu | Mode_cpu

datatype video_codec = H264 | H265

record rec_options =
  ro_mode :: encoder_mode
  ro_codec :: video_codec
  ro_bitrate :: int

datatype pixel_format = Yuv420p | Nv12 | D3d11 | Other_format

text \<open>The formats an encoder supports: None when the encoder is missing, \<open>Some None\<close> when it accepts
  every format.\<close>

type_synonym format_table = "string \<Rightarrow> pixel_format list option option"

definition encoder_pixel_format :: "pixel_format list option option \<Rightarrow> bool \<Rightarrow> pixel_format option" where
  "encoder_pixel_format codec prefer_gpu =
     (case codec of
        None \<Rightarrow> None
      | Some None \<Rightarrow> Some Yuv420p
      | Some (Some fs) \<Rightarrow>
          (if prefer_gpu \<and> D3d11 \<in> set fs then Some D3d11
           else if Yuv420p \<in> set fs then Some Yuv420p
           else if Nv12 \<in> set fs then Some Nv12 else None))"

definition gpu_candidates :: "video_codec \<Rightarrow> string list" where
  "gpu_candidates c =
     (case c of H264 \<Rightarrow> [''h264_nvenc'', ''h264_amf'', ''h264_qsv'', ''h264_mf'']
      | H265 \<Rightarrow> [''hevc_nvenc'', ''hevc_amf'', ''hevc_qsv'', ''hevc_mf''])"

definition cpu_candidates :: "video_codec \<Rightarrow> string list" where
  "cpu_candidates c = (case c of H264 \<Rightarrow> [''libx264'', ''mpeg4''] | H265 \<Rightarrow> [''libx265''])"

definition encoder_candidates :: "rec_options \<Rightarrow> string list" where
  "encoder_candidates op = (if ro_mode op \<noteq> Mode_cpu then gpu_candidates (ro_codec op) else [])
     @ (if ro_mode op \<noteq> Mode_gpu then cpu_candidates (ro_codec op) else [])"

text \<open>The first candidate with a usable format that opens.\<close>

fun choose_encoder :: "encoder_mode \<Rightarrow> bool \<Rightarrow> bool \<Rightarrow> format_table \<Rightarrow> (string \<Rightarrow> pixel_format \<Rightarrow> bool) \<Rightarrow> string list
    \<Rightarrow> (string \<times> pixel_format) option" where
  "choose_encoder mode gpu_input conversion table opens [] = None"
| "choose_encoder mode gpu_input conversion table opens (n # ns) =
     (case encoder_pixel_format (table n) conversion of
        None \<Rightarrow> choose_encoder mode gpu_input conversion table opens ns
      | Some f \<Rightarrow>
          (if gpu_input \<and> mode = Mode_gpu \<and> f \<noteq> D3d11 then choose_encoder mode gpu_input conversion table opens ns
           else if opens n f then Some (n, f)
           else choose_encoder mode gpu_input conversion table opens ns))"

section \<open>The queues\<close>

record picture =
  pc_id :: nat
  pc_width :: int
  pc_height :: int
  pc_hardware :: bool
  pc_d3d11 :: bool

record sound =
  so_samples :: "sample list"
  so_rate :: int
  so_pts :: int

datatype failure =
    Mp4_initialization | No_encoder video_codec encoder_mode | Video_stream | Video_parameters
  | Aac_unavailable | Aac_allocation | Aac_open | Audio_stream | Audio_parameters | Output_file | Mp4_header
  | Encoder_frame | Aac_frame | Download | Gpu_conversion | Pixel_conversion | Video_encoding
  | Aac_prepare | Aac_encoding | Folder

record recorder =
  rc_queue :: "(picture \<times> int) list"
  rc_audio :: "sound list"
  rc_accepting :: bool
  rc_stop :: bool
  rc_path :: string
  rc_codec_name :: string
  rc_error :: "failure option"
  rc_options :: rec_options
  rc_written :: nat
  rc_dropped :: nat
  rc_samples :: nat
  rc_readback :: nat
  rc_resident :: bool
  rc_started :: int

definition max_queued :: nat where
  "max_queued = 90"

definition since_start :: "int \<Rightarrow> recorder \<Rightarrow> int" where
  "since_start now s = (now - rc_started s) div 1000000"

text \<open>A picture from the decoder; \<open>cloned\<close> is whether the reference could be taken.\<close>

definition submit :: "int \<Rightarrow> bool \<Rightarrow> picture \<Rightarrow> recorder \<Rightarrow> recorder" where
  "submit now cloned f s =
     (if \<not> rc_accepting s \<or> pc_width f \<le> 0 \<or> pc_height f \<le> 0 \<or> \<not> cloned then s
      else let pts = max 0 (since_start now s);
               queue_limit = (if pc_hardware f then 2 else max_queued);
               s1 = (if queue_limit \<le> length (rc_queue s)
                     then s\<lparr>rc_queue := tl (rc_queue s), rc_dropped := rc_dropped s + 1\<rparr> else s)
           in s1\<lparr>rc_queue := rc_queue s1 @ [(f, pts)]\<rparr>)"

definition queued_values :: "sound list \<Rightarrow> nat" where
  "queued_values q = sum_list (map (\<lambda>a. length (so_samples a)) q)"

fun make_room :: "nat \<Rightarrow> int \<Rightarrow> sound list \<Rightarrow> sound list" where
  "make_room need limit [] = []"
| "make_room need limit (a # q) =
     (if limit < int (queued_values (a # q) + need) then make_room need limit q else a # q)"

definition submit_audio :: "int \<Rightarrow> sample list \<Rightarrow> int \<Rightarrow> int \<Rightarrow> recorder \<Rightarrow> recorder" where
  "submit_audio now samples rate channels s =
     (if \<not> rc_accepting s \<or> samples = [] \<or> rate \<le> 0 \<or> channels \<noteq> 2 then s
      else let now_ms = max 0 (since_start now s);
               frames = int (length samples) div channels;
               a = \<lparr>so_samples = samples, so_rate = rate, so_pts = max 0 (now_ms - frames * 1000 div rate)\<rparr>
           in s\<lparr>rc_audio := make_room (length samples) (rate * channels * 10) (rc_audio s) @ [a]\<rparr>)"

section \<open>The thread\<close>

text \<open>What is handed to the encoders and to the file, in its order: pictures and blocks of sound with
  their time marks, the flushes, and the trailer.\<close>

datatype handed =
    Video int picture
  | Sound_block int "(sample \<times> sample) list"
  | Video_flush
  | Sound_flush
  | Trailer

record encoder =
  en_name :: string
  en_gpu :: bool
  en_resident :: bool
  en_samples :: nat

record rec_thread =
  rt_encoder :: "encoder option"
  rt_first :: int
  rt_last :: int
  rt_next_audio :: int
  rt_timeline :: bool
  rt_pcm :: "sample list"
  rt_failed :: bool
  rt_last_picture :: "picture option"
  rt_handed :: "handed list"
  rt_done :: bool

definition new_thread :: rec_thread where
  "new_thread = \<lparr>rt_encoder = None, rt_first = -1, rt_last = -1, rt_next_audio = 0, rt_timeline = False, rt_pcm = [],
     rt_failed = False, rt_last_picture = None, rt_handed = [], rt_done = False\<rparr>"

definition audio_rate :: int where
  "audio_rate = 44100"

text \<open>The answers to the calls that set the file and the encoders up; \<open>su_frame_size\<close> is what the AAC
  encoder takes at a time, or 0.\<close>

record setup_answers =
  su_context :: bool
  su_conversion :: bool
  su_formats :: format_table
  su_opens :: "string \<Rightarrow> pixel_format \<Rightarrow> bool"
  su_stream :: bool
  su_parameters :: bool
  su_aac :: bool
  su_aac_context :: bool
  su_aac_open :: bool
  su_audio_stream :: bool
  su_audio_parameters :: bool
  su_file :: bool
  su_header :: bool
  su_frame :: bool
  su_audio_frame :: bool
  su_frame_size :: nat

definition encoder_for :: "setup_answers \<Rightarrow> rec_options \<Rightarrow> picture \<Rightarrow> (string \<times> pixel_format) option" where
  "encoder_for a op f =
     (let gpu_input = (pc_d3d11 f \<and> pc_hardware f);
          conversion = (gpu_input \<and> ro_mode op \<noteq> Mode_cpu \<and> su_conversion a)
      in choose_encoder (ro_mode op) gpu_input conversion (su_formats a) (su_opens a) (encoder_candidates op))"

text \<open>A missing AAC encoder is reported as a failed allocation, because that test comes right after it.\<close>

definition open_output :: "setup_answers \<Rightarrow> rec_options \<Rightarrow> picture \<Rightarrow> failure + encoder" where
  "open_output a op f =
     (if \<not> su_context a then Inl Mp4_initialization
      else case encoder_for a op f of
             None \<Rightarrow> Inl (No_encoder (ro_codec op) (ro_mode op))
           | Some (n, fmt) \<Rightarrow>
               (if \<not> su_stream a then Inl Video_stream
                else if \<not> su_parameters a then Inl Video_parameters
                else if \<not> su_aac a then Inl Aac_allocation
                else if \<not> su_aac_context a then Inl Aac_allocation
                else if \<not> su_aac_open a then Inl Aac_open
                else if \<not> su_audio_stream a then Inl Audio_stream
                else if \<not> su_audio_parameters a then Inl Audio_parameters
                else if \<not> su_file a then Inl Output_file
                else if \<not> su_header a then Inl Mp4_header
                else if \<not> su_frame a then Inl Encoder_frame
                else if \<not> su_audio_frame a then Inl Aac_frame
                else Inr \<lparr>en_name = n, en_gpu = (n \<in> set (gpu_candidates (ro_codec op))), en_resident = (fmt = D3d11),
                          en_samples = (if 0 < su_frame_size a then su_frame_size a else 1024)\<rparr>))"

text \<open>The answers of one turn: the download and the conversion of a picture, whether the output frame
  can be written, and for every block of sound whether it can be prepared and encoded.\<close>

record turn_answers =
  ta_setup :: setup_answers
  ta_download :: bool
  ta_convert :: bool
  ta_writable :: bool
  ta_video :: bool
  ta_prepare :: "nat \<Rightarrow> bool"
  ta_sound :: "nat \<Rightarrow> bool"

definition fail_with :: "failure \<Rightarrow> recorder \<times> rec_thread \<Rightarrow> recorder \<times> rec_thread" where
  "fail_with e x = (fst x\<lparr>rc_accepting := False, rc_error := Some e\<rparr>, snd x\<lparr>rt_failed := True\<rparr>)"

definition write_video :: "bool \<Rightarrow> picture \<Rightarrow> int \<Rightarrow> recorder \<times> rec_thread \<Rightarrow> recorder \<times> rec_thread" where
  "write_video drained f pts_ms x =
     (let (s, t) = x;
          t1 = (if rt_first t < 0 then t\<lparr>rt_first := pts_ms\<rparr> else t);
          pts = max (rt_last t1 + 1) (pts_ms - rt_first t1);
          t2 = t1\<lparr>rt_last := pts, rt_handed := rt_handed t1 @ [Video pts f]\<rparr>
      in if \<not> drained then fail_with Video_encoding (s, t2)
         else (s\<lparr>rc_written := rc_written s + 1\<rparr>, t2\<lparr>rt_last_picture := Some f\<rparr>))"

text \<open>A picture that was taken from the queue, with an encoder that is open.\<close>

definition record_picture :: "turn_answers \<Rightarrow> encoder \<Rightarrow> picture \<times> int \<Rightarrow> recorder \<times> rec_thread \<Rightarrow> recorder \<times> rec_thread" where
  "record_picture a en item x =
     (let (f, pts) = item
      in if en_resident en
         then (if \<not> ta_convert a then fail_with Gpu_conversion x else write_video (ta_video a) f pts x)
         else if pc_hardware f \<and> \<not> ta_download a then fail_with Download x
         else let (s, t) = x;
                  x1 = (if pc_hardware f then (s\<lparr>rc_readback := rc_readback s + 1\<rparr>, t) else x)
              in if \<not> ta_writable a then x1
                 else if \<not> ta_convert a then fail_with Pixel_conversion x1
                 else write_video (ta_video a) f pts x1)"

text \<open>The sound joins the timeline of the pictures: silence before the first block when it begins later
  than the first picture, a cut when it begins earlier.\<close>

definition place_sound :: "int \<Rightarrow> sound \<Rightarrow> bool \<times> sample list \<Rightarrow> bool \<times> sample list" where
  "place_sound first a x =
     (let (started, pcm) = x
      in if started then (True, pcm @ so_samples a)
         else let delta = so_pts a - first
              in if 0 < delta then (True, pcm @ replicate (nat (delta * audio_rate div 1000 * 2)) 0 @ so_samples a)
                 else if delta < 0
                      then (True, pcm @ drop (nat (min (int (length (so_samples a) div 2)) (- delta * audio_rate div 1000) * 2)) (so_samples a))
                      else (True, pcm @ so_samples a))"

text \<open>The left and right values of a block.\<close>

definition block_of :: "nat \<Rightarrow> sample list \<Rightarrow> (sample \<times> sample) list" where
  "block_of n pcm = map (\<lambda>i. (pcm ! (2 * i), pcm ! (2 * i + 1))) [0..<n]"

function encode_sound :: "turn_answers \<Rightarrow> nat \<Rightarrow> nat \<Rightarrow> recorder \<times> rec_thread \<Rightarrow> recorder \<times> rec_thread" where
  "encode_sound a n i x =
     (let (s, t) = x
      in if n = 0 \<or> length (rt_pcm t) < 2 * n then x
         else if \<not> ta_prepare a i then fail_with Aac_prepare x
         else let t1 = t\<lparr>rt_pcm := drop (2 * n) (rt_pcm t), rt_next_audio := rt_next_audio t + int n,
                          rt_handed := rt_handed t @ [Sound_block (rt_next_audio t) (block_of n (rt_pcm t))]\<rparr>
              in if \<not> ta_sound a i then fail_with Aac_encoding (s, t1)
                 else encode_sound a n (i + 1) (s\<lparr>rc_samples := rc_samples s + n\<rparr>, t1))"
  by pat_completeness auto
termination
  by (relation "measure (\<lambda>(a, n, i, x). length (rt_pcm (snd x)))") auto

declare encode_sound.simps [simp del]

text \<open>The block under the lock: a picture, if there is one, all sound once an encoder is open or about to
  be, and whether this is the last turn.\<close>

definition take_batch :: "recorder \<Rightarrow> rec_thread \<Rightarrow> (picture \<times> int) option \<times> sound list \<times> bool \<times> recorder" where
  "take_batch s t =
     (let item = (case rc_queue s of [] \<Rightarrow> None | q # _ \<Rightarrow> Some q);
          s1 = s\<lparr>rc_queue := tl (rc_queue s)\<rparr>;
          take_sound = (rt_encoder t \<noteq> None \<or> item \<noteq> None);
          batch = (if take_sound then rc_audio s1 else []);
          s2 = (if take_sound then s1\<lparr>rc_audio := []\<rparr> else s1);
          s3 = (if rc_stop s2 \<and> rt_encoder t = None \<and> item = None then s2\<lparr>rc_audio := []\<rparr> else s2)
      in (item, batch, rc_stop s3 \<and> rc_queue s3 = [] \<and> rc_audio s3 = [], s3))"

definition awake :: "recorder \<Rightarrow> rec_thread \<Rightarrow> bool" where
  "awake s t \<longleftrightarrow> rc_stop s \<or> rc_queue s \<noteq> [] \<or> (rt_encoder t \<noteq> None \<and> rc_audio s \<noteq> [])"

definition open_encoder :: "turn_answers \<Rightarrow> (picture \<times> int) option \<Rightarrow> recorder \<times> rec_thread \<Rightarrow> recorder \<times> rec_thread" where
  "open_encoder a item x =
     (case (rt_encoder (snd x), item) of
        (None, Some (f, _)) \<Rightarrow>
          (case open_output (ta_setup a) (rc_options (fst x)) f of
             Inl e \<Rightarrow> fail_with e x
           | Inr en \<Rightarrow> (fst x\<lparr>rc_codec_name := en_name en, rc_resident := en_resident en\<rparr>, snd x\<lparr>rt_encoder := Some en\<rparr>))
      | _ \<Rightarrow> x)"

definition picture_step :: "turn_answers \<Rightarrow> (picture \<times> int) option \<Rightarrow> recorder \<times> rec_thread \<Rightarrow> recorder \<times> rec_thread" where
  "picture_step a item x =
     (case (rt_encoder (snd x), item) of
        (Some en, Some q) \<Rightarrow> if rt_failed (snd x) then x else record_picture a en q x
      | _ \<Rightarrow> x)"

definition sound_step :: "turn_answers \<Rightarrow> sound list \<Rightarrow> recorder \<times> rec_thread \<Rightarrow> recorder \<times> rec_thread" where
  "sound_step a batch x =
     (case rt_encoder (snd x) of
        None \<Rightarrow> x
      | Some en \<Rightarrow>
          (if rt_failed (snd x) \<or> rt_first (snd x) < 0 then x
           else let (s, t) = x;
                    (started, pcm) = fold (place_sound (rt_first t)) batch (rt_timeline t, rt_pcm t)
                in encode_sound a (en_samples en) 0 (s, t\<lparr>rt_timeline := started, rt_pcm := pcm\<rparr>)))"

text \<open>One turn of the loop; a thread that waits does nothing.\<close>

definition work :: "turn_answers \<Rightarrow> recorder \<times> rec_thread \<Rightarrow> recorder \<times> rec_thread" where
  "work a x =
     (let (s, t) = x
      in if rt_done t \<or> \<not> awake s t then x
         else let (item, batch, last_turn, s1) = take_batch s t
              in if item = None \<and> rt_encoder t = None then (s1, t\<lparr>rt_done := last_turn\<rparr>)
                 else let x1 = sound_step a batch (picture_step a item (open_encoder a item (s1, t)))
                      in if rt_failed (snd x1)
                         then (fst x1\<lparr>rc_stop := True, rc_queue := [], rc_audio := []\<rparr>, snd x1\<lparr>rt_done := True\<rparr>)
                         else (fst x1, snd x1\<lparr>rt_done := last_turn\<rparr>))"

section \<open>Stopping\<close>

definition request_stop :: "recorder \<Rightarrow> recorder" where
  "request_stop s = s\<lparr>rc_accepting := False, rc_stop := True\<rparr>"

definition pad_block :: "nat \<Rightarrow> sample list \<Rightarrow> (sample \<times> sample) list" where
  "pad_block n pcm = map (\<lambda>i. if 2 * i + 2 \<le> length pcm then (pcm ! (2 * i), pcm ! (2 * i + 1)) else (0, 0)) [0..<n]"

text \<open>The end of the thread, after its last turn: the rest of the sound in a block filled up with silence,
  the last picture once more at the time of the stop, the flushes and the trailer.\<close>

definition finish_sound :: "bool \<Rightarrow> nat \<Rightarrow> recorder \<times> rec_thread \<Rightarrow> recorder \<times> rec_thread" where
  "finish_sound prepared n x =
     (let (s, t) = x
      in if rt_pcm t = [] \<or> \<not> prepared then x
         else (s\<lparr>rc_samples := rc_samples s + n\<rparr>,
               t\<lparr>rt_pcm := drop (2 * n) (rt_pcm t), rt_next_audio := rt_next_audio t + int n,
                 rt_handed := rt_handed t @ [Sound_block (rt_next_audio t) (pad_block n (rt_pcm t))]\<rparr>))"

definition last_picture :: "int \<Rightarrow> rec_thread \<Rightarrow> handed list" where
  "last_picture elapsed t =
     (let final_pts = max (rt_last t + 1) (elapsed - max 0 (rt_first t))
      in case rt_last_picture t of
           Some f \<Rightarrow> if rt_last t + 1 < final_pts then [Video final_pts f] else []
         | None \<Rightarrow> [])"

definition finish :: "int \<Rightarrow> bool \<Rightarrow> recorder \<times> rec_thread \<Rightarrow> recorder \<times> rec_thread" where
  "finish now prepared x =
     (case rt_encoder (snd x) of
        None \<Rightarrow> (fst x\<lparr>rc_accepting := False\<rparr>, snd x)
      | Some en \<Rightarrow>
          (if rt_failed (snd x) then (fst x\<lparr>rc_accepting := False\<rparr>, snd x)
           else let (s, t) = finish_sound prepared (en_samples en) x
                in (s\<lparr>rc_accepting := False\<rparr>,
                    t\<lparr>rt_handed := rt_handed t @ last_picture (since_start now s) t @ [Video_flush, Sound_flush, Trailer]\<rparr>)))"

text \<open>The start, when the previous recording has been stopped; None of the folder is an exception.\<close>

definition start_recording :: "int \<Rightarrow> string option \<Rightarrow> string \<Rightarrow> rec_options \<Rightarrow> recorder \<Rightarrow> bool \<times> recorder \<times> rec_thread option" where
  "start_recording now folder name op s0 =
     (let s = (request_stop s0)\<lparr>rc_queue := [], rc_audio := []\<rparr>
      in case folder of
           None \<Rightarrow> (False, s\<lparr>rc_accepting := False, rc_error := Some Folder\<rparr>, None)
         | Some dir \<Rightarrow>
             (True, s\<lparr>rc_path := dir @ name, rc_codec_name := [], rc_error := None,
                      rc_options := op\<lparr>ro_bitrate := min 100 (max 1 (ro_bitrate op))\<rparr>, rc_stop := False,
                      rc_written := 0, rc_dropped := 0, rc_samples := 0, rc_readback := 0, rc_resident := False,
                      rc_started := now, rc_accepting := True\<rparr>, Some new_thread))"

section \<open>Runs\<close>

text \<open>The decoders and the thread take turns under the lock; the stop is asked for by another thread.\<close>

datatype rec_event =
    Submit int bool picture
  | Submit_sound int "sample list" int int
  | Work turn_answers
  | Ask_stop

fun rec_step :: "rec_event \<Rightarrow> recorder \<times> rec_thread \<Rightarrow> recorder \<times> rec_thread" where
  "rec_step (Submit now cloned f) x = (submit now cloned f (fst x), snd x)"
| "rec_step (Submit_sound now samples rate channels) x = (submit_audio now samples rate channels (fst x), snd x)"
| "rec_step (Work a) x = work a x"
| "rec_step Ask_stop x = (request_stop (fst x), snd x)"

definition run_recording :: "rec_event list \<Rightarrow> recorder \<times> rec_thread \<Rightarrow> recorder \<times> rec_thread" where
  "run_recording = fold rec_step"

section \<open>The choice of the encoder\<close>

lemma format_d3d11: "encoder_pixel_format c g = Some D3d11 \<Longrightarrow> g"
  by (auto simp: encoder_pixel_format_def split: option.splits if_splits)

lemma choose_encoder_ok:
  "choose_encoder m g c tb opens ns = Some (n, f) \<Longrightarrow>
     n \<in> set ns \<and> opens n f \<and> encoder_pixel_format (tb n) c = Some f \<and> (g \<longrightarrow> m = Mode_gpu \<longrightarrow> f = D3d11)"
  by (induction ns) (auto split: option.splits if_splits)

lemma encoder_for_mode:
  assumes "encoder_for a op f = Some (n, fmt)"
  shows "n \<in> set (encoder_candidates op)"
    and "ro_mode op = Mode_gpu \<Longrightarrow> pc_d3d11 f \<Longrightarrow> pc_hardware f \<Longrightarrow> fmt = D3d11"
    and "ro_mode op = Mode_cpu \<Longrightarrow> fmt \<noteq> D3d11"
  using choose_encoder_ok [OF assms [unfolded encoder_for_def Let_def]] format_d3d11 by auto

section \<open>What was handed over\<close>

fun marks :: "handed list \<Rightarrow> int list" where
  "marks [] = []"
| "marks (Video p f # hs) = p # marks hs"
| "marks (_ # hs) = marks hs"

fun blocks :: "handed list \<Rightarrow> (int \<times> (sample \<times> sample) list) list" where
  "blocks [] = []"
| "blocks (Sound_block p b # hs) = (p, b) # blocks hs"
| "blocks (_ # hs) = blocks hs"

fun pictures :: "handed list \<Rightarrow> nat list" where
  "pictures [] = []"
| "pictures (Video p f # hs) = pc_id f # pictures hs"
| "pictures (_ # hs) = pictures hs"

lemma handed_append [simp]:
  "marks (a @ b) = marks a @ marks b" "blocks (a @ b) = blocks a @ blocks b" "pictures (a @ b) = pictures a @ pictures b"
  by (induction a rule: marks.induct) simp_all

definition blocks_ok :: "nat \<Rightarrow> int \<Rightarrow> (int \<times> (sample \<times> sample) list) list \<Rightarrow> bool" where
  "blocks_ok n next_mark bs \<longleftrightarrow> map fst bs = map (\<lambda>i. int (i * n)) [0..<length bs] \<and> (\<forall>b\<in>set bs. length (snd b) = n)
     \<and> next_mark = int (length bs * n)"

lemma blocks_ok_snoc: "blocks_ok n m bs \<Longrightarrow> length b = n \<Longrightarrow> blocks_ok n (m + int n) (bs @ [(m, b)])"
  by (auto simp: blocks_ok_def)

text \<open>The values handed over and those that wait for a full block.\<close>

definition interleave :: "(sample \<times> sample) list \<Rightarrow> sample list" where
  "interleave b = concat (map (\<lambda>(l, r). [l, r]) b)"

lemma interleave_block: "2 * n \<le> length pcm \<Longrightarrow> interleave (block_of n pcm) = take (2 * n) pcm"
proof (induction n)
  case (Suc n)
  then have "2 * n < length pcm" "2 * n + 1 < length pcm" by auto
  then have "take (2 * Suc n) pcm = take (2 * n) pcm @ [pcm ! (2 * n), pcm ! (2 * n + 1)]"
    by (simp add: take_Suc_conv_app_nth)
  then show ?case using Suc by (simp add: interleave_def block_of_def)
qed (simp add: interleave_def block_of_def)

definition sound_values :: "rec_thread \<Rightarrow> sample list" where
  "sound_values t = concat (map (\<lambda>(_, b). interleave b) (blocks (rt_handed t))) @ rt_pcm t"

definition thread_ok :: "rec_thread \<Rightarrow> bool" where
  "thread_ok t \<longleftrightarrow> -1 \<le> rt_last t \<and> sorted_wrt (<) (marks (rt_handed t) @ [rt_last t + 1]) \<and> (\<forall>p\<in>set (marks (rt_handed t)). 0 \<le> p)
     \<and> (case rt_encoder t of
          None \<Rightarrow> blocks (rt_handed t) = [] \<and> rt_next_audio t = 0
        | Some en \<Rightarrow> 0 < en_samples en \<and> blocks_ok (en_samples en) (rt_next_audio t) (blocks (rt_handed t)))"

lemma thread_ok_other [simp]:
  "thread_ok (t\<lparr>rt_failed := b\<rparr>) = thread_ok t" "thread_ok (t\<lparr>rt_first := i\<rparr>) = thread_ok t"
  "thread_ok (t\<lparr>rt_last_picture := p\<rparr>) = thread_ok t" "thread_ok (t\<lparr>rt_timeline := b\<rparr>) = thread_ok t"
  "thread_ok (t\<lparr>rt_done := b\<rparr>) = thread_ok t" "thread_ok (t\<lparr>rt_pcm := pcm\<rparr>) = thread_ok t"
  by (simp_all add: thread_ok_def cong: option.case_cong)

lemma sound_values_other [simp]:
  "sound_values (t\<lparr>rt_failed := b\<rparr>) = sound_values t" "sound_values (t\<lparr>rt_first := i\<rparr>) = sound_values t"
  "sound_values (t\<lparr>rt_last_picture := p\<rparr>) = sound_values t" "sound_values (t\<lparr>rt_timeline := b\<rparr>) = sound_values t"
  "sound_values (t\<lparr>rt_done := b\<rparr>) = sound_values t" "sound_values (t\<lparr>rt_encoder := e\<rparr>) = sound_values t"
  by (simp_all add: sound_values_def)

lemma new_thread_ok: "thread_ok new_thread"
  by (simp add: thread_ok_def new_thread_def)

text \<open>Each part of a turn keeps this, and adds to the sound at its end only.\<close>

definition extends :: "rec_thread \<Rightarrow> rec_thread \<Rightarrow> bool" where
  "extends t t' \<longleftrightarrow> thread_ok t' \<and> prefix (sound_values t) (sound_values t')"

lemma extends_refl: "thread_ok t \<Longrightarrow> extends t t"
  by (simp add: extends_def)

lemma extends_trans: "extends t t' \<Longrightarrow> extends t' t'' \<Longrightarrow> extends t t''"
  by (auto simp: extends_def)

lemma fail_extends: "extends t (snd x) \<Longrightarrow> extends t (snd (fail_with e x))"
  by (simp add: extends_def fail_with_def)

lemma fail_fields [simp]:
  "thread_ok (snd (fail_with e x)) = thread_ok (snd x)" "sound_values (snd (fail_with e x)) = sound_values (snd x)"
  "rt_encoder (snd (fail_with e x)) = rt_encoder (snd x)" "rt_failed (snd (fail_with e x))"
  by (simp_all add: fail_with_def)

lemma thread_ok_video:
  assumes "thread_ok t" and "rt_last t < pts"
  shows "thread_ok (t\<lparr>rt_last := pts, rt_handed := rt_handed t @ [Video pts f]\<rparr>)"
    and "sound_values (t\<lparr>rt_last := pts, rt_handed := rt_handed t @ [Video pts f]\<rparr>) = sound_values t"
  using assms by (auto simp: thread_ok_def sound_values_def sorted_wrt_append cong: option.case_cong)

lemma write_extends:
  assumes "thread_ok (snd x)"
  shows "extends (snd x) (snd (write_video d f pts x))"
proof -
  obtain s t where x: "x = (s, t)" by (cases x)
  define t1 where "t1 = (if rt_first t < 0 then t\<lparr>rt_first := pts\<rparr> else t)"
  define p where "p = max (rt_last t1 + 1) (pts - rt_first t1)"
  have "thread_ok t1" "sound_values t1 = sound_values t" "rt_last t1 < p" using assms x by (auto simp: t1_def p_def)
  from this(2) thread_ok_video [OF this(1,3), of f] show ?thesis
    by (simp add: x write_video_def Let_def t1_def [symmetric] p_def [symmetric] extends_def fail_with_def)
qed

lemma picture_extends:
  assumes "thread_ok (snd x)"
  shows "extends (snd x) (snd (picture_step a item x))"
proof -
  have w: "extends (snd x) (snd (write_video d f pts (s, snd x)))" for d f pts s
    using write_extends [of "(s, snd x)"] assms by simp
  have "extends (snd x) (snd (record_picture a en q x))" for en q
  proof -
    obtain f pts s t where "q = (f, pts)" "x = (s, t)" by (metis surj_pair)
    then show ?thesis
      using w [of "ta_video a" f pts s] w [of "ta_video a" f pts "s\<lparr>rc_readback := rc_readback s + 1\<rparr>"] extends_refl [OF assms]
      unfolding record_picture_def Let_def split_def
      by (cases "en_resident en"; cases "pc_hardware f"; cases "ta_download a"; cases "ta_writable a"; cases "ta_convert a")
        (simp_all add: fail_extends)
  qed
  then show ?thesis using extends_refl [OF assms] by (simp add: picture_step_def split: option.split)
qed

lemma open_output_samples: "open_output a op f = Inr en \<Longrightarrow> 0 < en_samples en"
  by (auto simp: open_output_def split: option.splits if_splits)

lemma thread_ok_encoder:
  "thread_ok t \<Longrightarrow> rt_encoder t = None \<Longrightarrow> 0 < en_samples en \<Longrightarrow> thread_ok (t\<lparr>rt_encoder := Some en\<rparr>)"
  by (simp add: thread_ok_def blocks_ok_def)

lemma open_extends:
  assumes "thread_ok (snd x)"
  shows "extends (snd x) (snd (open_encoder a item x))"
  using extends_refl [OF assms] thread_ok_encoder [OF assms]
  by (auto simp: open_encoder_def fail_extends extends_def dest: open_output_samples split: option.split sum.split)

lemma thread_ok_block:
  assumes "thread_ok t" and "rt_encoder t = Some en" and "length b = en_samples en"
  shows "thread_ok (t\<lparr>rt_pcm := pcm, rt_next_audio := rt_next_audio t + int (en_samples en),
           rt_handed := rt_handed t @ [Sound_block (rt_next_audio t) b]\<rparr>)"
  using assms blocks_ok_snoc by (simp add: thread_ok_def)

text \<open>The blocks are cut off the front of what waits, so nothing of the sound changes.\<close>

lemma encode_sound_extends:
  assumes "thread_ok (snd x)" and "rt_encoder (snd x) = Some en" and "n = en_samples en"
  shows "extends (snd x) (snd (encode_sound a n i x)) \<and> sound_values (snd (encode_sound a n i x)) = sound_values (snd x)
    \<and> rt_encoder (snd (encode_sound a n i x)) = Some en"
  using assms
proof (induction a n i x rule: encode_sound.induct)
  case (1 a n i x)
  obtain s t where x: "x = (s, t)" by (cases x)
  let ?t1 = "t\<lparr>rt_pcm := drop (2 * n) (rt_pcm t), rt_next_audio := rt_next_audio t + int n,
                rt_handed := rt_handed t @ [Sound_block (rt_next_audio t) (block_of n (rt_pcm t))]\<rparr>"
  show ?case
  proof (cases "n = 0 \<or> length (rt_pcm t) < 2 * n \<or> \<not> ta_prepare a i")
    case True
    then show ?thesis using "1.prems" x by (subst (1 2 3) encode_sound.simps) (auto simp: extends_def)
  next
    case False
    have ok: "thread_ok ?t1" "rt_encoder ?t1 = Some en"
      using "1.prems" x thread_ok_block [of t en "block_of n (rt_pcm t)" "drop (2 * n) (rt_pcm t)"] by (simp_all add: block_of_def)
    have v: "sound_values ?t1 = sound_values t"
      using False by (simp add: sound_values_def interleave_block)
    have e: "encode_sound a n i x = (if ta_sound a i then encode_sound a n (i + 1) (s\<lparr>rc_samples := rc_samples s + n\<rparr>, ?t1)
        else fail_with Aac_encoding (s, ?t1))"
      using False x by (subst encode_sound.simps) (simp add: Let_def)
    show ?thesis
    proof (cases "ta_sound a i")
      case True
      then show ?thesis
        using "1.IH" [OF refl x [symmetric], of ?t1] False ok v "1.prems"(3) x e by (simp add: extends_def)
    next
      case False
      then show ?thesis using e ok v x by (simp add: extends_def)
    qed
  qed
qed

lemma place_appends: "\<exists>ys. snd (place_sound first a x) = snd x @ ys"
  by (cases x) (simp add: place_sound_def Let_def)

lemma places_append: "\<exists>ys. snd (fold (place_sound first) batch x) = snd x @ ys"
proof (induction batch arbitrary: x)
  case (Cons a batch)
  then show ?case using place_appends [of first a x] by (metis append.assoc fold_simps(2))
qed simp

lemma sound_extends:
  assumes "thread_ok (snd x)"
  shows "extends (snd x) (snd (sound_step a batch x))"
proof (cases "rt_encoder (snd x) = None \<or> rt_failed (snd x) \<or> rt_first (snd x) < 0")
  case True
  then show ?thesis using extends_refl [OF assms] by (auto simp: sound_step_def split: option.split)
next
  case False
  then obtain en where en: "rt_encoder (snd x) = Some en" by auto
  obtain s t where x: "x = (s, t)" by (cases x)
  obtain started pcm where p: "fold (place_sound (rt_first t)) batch (rt_timeline t, rt_pcm t) = (started, pcm)" by (metis surj_pair)
  let ?t1 = "t\<lparr>rt_timeline := started, rt_pcm := pcm\<rparr>"
  obtain ys where "pcm = rt_pcm t @ ys" using places_append [of "rt_first t" batch "(rt_timeline t, rt_pcm t)"] p by auto
  then have "prefix (sound_values t) (sound_values ?t1)" by (simp add: sound_values_def)
  moreover have "sound_step a batch x = encode_sound a (en_samples en) 0 (s, ?t1)"
    using False en x p by (simp add: sound_step_def)
  moreover have "thread_ok ?t1" "rt_encoder ?t1 = Some en" using assms en x by simp_all
  ultimately show ?thesis
    using encode_sound_extends [of "(s, ?t1)" en "en_samples en" a 0] x by (simp add: extends_def)
qed

lemma work_extends:
  assumes "thread_ok (snd x)"
  shows "extends (snd x) (snd (work a x))"
proof -
  obtain s t where x: "x = (s, t)" by (cases x)
  obtain item batch last_turn s1 where b: "take_batch s t = (item, batch, last_turn, s1)" by (metis surj_pair)
  let ?x1 = "sound_step a batch (picture_step a item (open_encoder a item (s1, t)))"
  have t: "thread_ok t" using assms x by simp
  have "extends t (snd (open_encoder a item (s1, t)))" using open_extends [of "(s1, t)"] t by simp
  then have "extends t (snd (picture_step a item (open_encoder a item (s1, t))))"
    using picture_extends extends_def extends_trans by blast
  then have "extends t (snd ?x1)" using sound_extends extends_def extends_trans by blast
  then show ?thesis
    using x b t extends_refl [OF t] by (simp add: work_def Let_def extends_def)
qed

lemma step_extends: "thread_ok (snd x) \<Longrightarrow> extends (snd x) (snd (rec_step e x))"
  by (cases e) (simp_all add: work_extends extends_refl)

lemma run_extends: "thread_ok (snd x) \<Longrightarrow> extends (snd x) (snd (run_recording es x))"
proof (induction es arbitrary: x)
  case (Cons e es)
  then show ?case using step_extends [OF Cons.prems, of e] extends_trans [of "snd x" "snd (rec_step e x)"]
    by (simp add: run_recording_def extends_def)
qed (simp add: run_recording_def extends_refl)

section \<open>The bounds of the queues\<close>

lemma take_batch_fields:
  assumes "take_batch s t = (item, batch, last_turn, s1)"
  shows "item = (case rc_queue s of [] \<Rightarrow> None | q # _ \<Rightarrow> Some q)" and "rc_queue s1 = tl (rc_queue s)"
    and "rc_options s1 = rc_options s" and "rc_stop s1 = rc_stop s" and "rc_readback s1 = rc_readback s"
    and "last_turn \<longleftrightarrow> rc_stop s \<and> tl (rc_queue s) = [] \<and> rc_audio s1 = []" and "rc_stop s \<Longrightarrow> rc_audio s1 = []"
proof -
  have e: "item = fst (take_batch s t)" "last_turn = fst (snd (snd (take_batch s t)))" "s1 = snd (snd (snd (take_batch s t)))"
    using assms by simp_all
  show "item = (case rc_queue s of [] \<Rightarrow> None | q # _ \<Rightarrow> Some q)" unfolding e by (simp add: take_batch_def Let_def)
  show "rc_queue s1 = tl (rc_queue s)" "rc_options s1 = rc_options s" "rc_stop s1 = rc_stop s" "rc_readback s1 = rc_readback s"
    unfolding e by (simp_all add: take_batch_def Let_def)
  show "last_turn \<longleftrightarrow> rc_stop s \<and> tl (rc_queue s) = [] \<and> rc_audio s1 = []" unfolding e by (simp add: take_batch_def Let_def)
  show "rc_stop s \<Longrightarrow> rc_audio s1 = []" unfolding e by (simp add: take_batch_def Let_def)
qed

lemma work_queue: "length (rc_queue (fst (work a x))) \<le> length (rc_queue (fst x))"
proof -
  obtain s t where x: "x = (s, t)" by (cases x)
  have f: "rc_queue (fst (fail_with e y)) = rc_queue (fst y)" for e y by (simp add: fail_with_def)
  have o1: "rc_queue (fst (open_encoder a item y)) = rc_queue (fst y)" for item y
    by (simp add: open_encoder_def f split: option.split sum.split)
  have w: "rc_queue (fst (write_video d p m y)) = rc_queue (fst y)" for d p m y
    by (simp add: write_video_def f Let_def split_def)
  have p: "rc_queue (fst (picture_step a item y)) = rc_queue (fst y)" for item y
    by (simp add: picture_step_def record_picture_def f w Let_def split_def split: option.split)
  have e: "rc_queue (fst (encode_sound a n i y)) = rc_queue (fst y)" for n i y
  proof (induction a n i y rule: encode_sound.induct)
    case (1 a n i y)
    obtain s t where y: "y = (s, t)" by (cases y)
    show ?case using "1.IH" [OF refl y [symmetric]] y by (subst encode_sound.simps) (auto simp: f Let_def)
  qed
  have q: "rc_queue (fst (sound_step a batch y)) = rc_queue (fst y)" for batch y
    by (simp add: sound_step_def e split_def Let_def split: option.split)
  obtain item batch last_turn s1 where b: "take_batch s t = (item, batch, last_turn, s1)" by (metis surj_pair)
  then have "length (rc_queue s1) \<le> length (rc_queue s)" by (simp add: take_batch_fields)
  then show ?thesis using x b by (simp add: work_def Let_def o1 p q)
qed

lemma make_room_length: "int (queued_values (make_room need limit q) + need) \<le> max limit (int need)"
  by (induction q) (auto simp: queued_values_def)

lemma submit_queue: "length (rc_queue s) \<le> max_queued \<Longrightarrow> length (rc_queue (submit now c f s)) \<le> max_queued"
  by (auto simp: submit_def Let_def max_queued_def)

lemma step_queue: "length (rc_queue (fst x)) \<le> max_queued \<Longrightarrow> length (rc_queue (fst (rec_step e x))) \<le> max_queued"
  using submit_queue work_queue [THEN order_trans]
  by (cases e) (simp_all add: submit_audio_def request_stop_def Let_def)

lemma run_queue: "length (rc_queue (fst x)) \<le> max_queued \<Longrightarrow> length (rc_queue (fst (run_recording es x))) \<le> max_queued"
proof (induction es arbitrary: x)
  case (Cons e es)
  then show ?case using step_queue [OF Cons.prems, of e] by (simp add: run_recording_def)
qed (simp add: run_recording_def)

section \<open>Stopping without a failure\<close>

text \<open>The system does its part: an encoder opens for every picture, and no call fails.\<close>

definition good_turn :: "rec_options \<Rightarrow> turn_answers \<Rightarrow> bool" where
  "good_turn op a \<longleftrightarrow> (\<forall>f. \<exists>en. open_output (ta_setup a) op f = Inr en) \<and> ta_download a \<and> ta_convert a \<and> ta_writable a
     \<and> ta_video a \<and> (\<forall>i. ta_prepare a i \<and> ta_sound a i)"

definition going :: "rec_options \<Rightarrow> nat list \<Rightarrow> nat list \<Rightarrow> recorder \<times> rec_thread \<Rightarrow> bool" where
  "going op ids waiting x \<longleftrightarrow> rc_options (fst x) = op \<and> map (pc_id \<circ> fst) (rc_queue (fst x)) = waiting
     \<and> \<not> rt_failed (snd x) \<and> pictures (rt_handed (snd x)) = ids \<and> rc_stop (fst x)"

lemma open_going:
  assumes "good_turn op a" and "going op ids w x" and "item \<noteq> None \<or> rt_encoder (snd x) \<noteq> None"
  shows "going op ids w (open_encoder a item x) \<and> rt_encoder (snd (open_encoder a item x)) \<noteq> None
    \<and> rc_audio (fst (open_encoder a item x)) = rc_audio (fst x)"
proof (cases "rt_encoder (snd x)")
  case None
  then obtain f p where f: "item = Some (f, p)" using assms(3) by auto
  obtain en where "open_output (ta_setup a) op f = Inr en" using assms(1) by (auto simp: good_turn_def)
  then show ?thesis using None f assms(2) by (simp add: open_encoder_def going_def)
qed (use assms in \<open>simp add: open_encoder_def\<close>)

lemma write_going:
  "going op ids w x \<Longrightarrow> going op (ids @ [pc_id f]) w (write_video True f p x) \<and> rt_encoder (snd (write_video True f p x)) = rt_encoder (snd x)
    \<and> rc_audio (fst (write_video True f p x)) = rc_audio (fst x)"
  by (simp add: write_video_def going_def Let_def split_def)

lemma picture_going:
  assumes "good_turn op a" and "going op ids w x" and "rt_encoder (snd x) \<noteq> None"
  shows "going op (ids @ (case item of None \<Rightarrow> [] | Some (f, p) \<Rightarrow> [pc_id f])) w (picture_step a item x)
    \<and> rt_encoder (snd (picture_step a item x)) \<noteq> None \<and> rc_audio (fst (picture_step a item x)) = rc_audio (fst x)"
proof (cases item)
  case (Some q)
  obtain f p where q: "q = (f, p)" by (cases q)
  obtain s t where x: "x = (s, t)" by (cases x)
  obtain en where en: "rt_encoder t = Some en" using assms(3) x by auto
  let ?x1 = "if \<not> en_resident en \<and> pc_hardware f then (s\<lparr>rc_readback := rc_readback s + 1\<rparr>, t) else x"
  have g: "ta_convert a" "ta_video a" "ta_download a" "ta_writable a" using assms(1) by (simp_all add: good_turn_def)
  have "\<not> rt_failed t" using assms(2) x by (simp add: going_def)
  then have "picture_step a item x = write_video True f p ?x1"
    using en g Some q x by (simp add: picture_step_def record_picture_def Let_def)
  moreover have "going op ids w ?x1" "rt_encoder (snd ?x1) = Some en" "rc_audio (fst ?x1) = rc_audio (fst x)"
    using assms(2) x en by (simp_all add: going_def)
  ultimately show ?thesis using write_going [of op ids w ?x1 f p] Some q by simp
qed (use assms in \<open>auto simp: picture_step_def\<close>)

lemma encode_going:
  assumes "good_turn op a" and "going op ids w x"
  shows "going op ids w (encode_sound a n i x) \<and> rc_audio (fst (encode_sound a n i x)) = rc_audio (fst x)"
  using assms
proof (induction a n i x rule: encode_sound.induct)
  case (1 a n i x)
  obtain s t where x: "x = (s, t)" by (cases x)
  let ?t1 = "t\<lparr>rt_pcm := drop (2 * n) (rt_pcm t), rt_next_audio := rt_next_audio t + int n,
                rt_handed := rt_handed t @ [Sound_block (rt_next_audio t) (block_of n (rt_pcm t))]\<rparr>"
  have g: "ta_prepare a i" "ta_sound a i" using "1.prems"(1) by (simp_all add: good_turn_def)
  show ?case
  proof (cases "n = 0 \<or> length (rt_pcm t) < 2 * n")
    case True
    then show ?thesis using "1.prems" x by (subst (1 2) encode_sound.simps) simp
  next
    case False
    then have "encode_sound a n i x = encode_sound a n (i + 1) (s\<lparr>rc_samples := rc_samples s + n\<rparr>, ?t1)"
      using g x by (subst encode_sound.simps) (simp add: Let_def)
    moreover have "going op ids w (s\<lparr>rc_samples := rc_samples s + n\<rparr>, ?t1)" using "1.prems"(2) x by (simp add: going_def)
    ultimately show ?thesis using "1.IH" [OF refl x [symmetric], of ?t1] False g "1.prems"(1) x by simp
  qed
qed

lemma sound_going:
  assumes "good_turn op a" and "going op ids w x"
  shows "going op ids w (sound_step a batch x) \<and> rc_audio (fst (sound_step a batch x)) = rc_audio (fst x)"
proof (cases "rt_encoder (snd x)")
  case (Some en)
  obtain s t where x: "x = (s, t)" by (cases x)
  obtain started pcm where p: "fold (place_sound (rt_first t)) batch (rt_timeline t, rt_pcm t) = (started, pcm)" by (metis surj_pair)
  have "going op ids w (s, t\<lparr>rt_timeline := started, rt_pcm := pcm\<rparr>)" using assms(2) x by (simp add: going_def)
  then show ?thesis using encode_going [OF assms(1)] assms(2) Some x p by (simp add: sound_step_def)
qed (use assms in \<open>simp add: sound_step_def\<close>)

lemma work_done: "rt_done (snd x) \<Longrightarrow> work a x = x"
  by (simp add: work_def split_def)

lemma work_going:
  assumes "good_turn op a" and "going op ids w x" and "\<not> rt_done (snd x)"
  shows "going op (ids @ take 1 w) (drop 1 w) (work a x) \<and> (rt_done (snd (work a x)) \<longleftrightarrow> drop 1 w = [])"
proof -
  obtain s t where x: "x = (s, t)" by (cases x)
  have aw: "awake s t" using assms(2) x by (simp add: awake_def going_def)
  obtain item batch last_turn s1 where b: "take_batch s t = (item, batch, last_turn, s1)" by (metis surj_pair)
  have w: "map (pc_id \<circ> fst) (rc_queue s) = w" using assms(2) x by (simp add: going_def)
  note f = take_batch_fields [OF b]
  note item = f(1)
  then have ids: "(case item of None \<Rightarrow> [] | Some (f, p) \<Rightarrow> [pc_id f]) = take 1 w" using w by (auto split: list.splits)
  have stop: "rc_stop s" using assms(2) x by (simp add: going_def)
  have s1: "going op ids (drop 1 w) (s1, t)"
    using f assms(2) x w by (simp add: going_def map_tl drop_Suc)
  have "tl (rc_queue s) = [] \<longleftrightarrow> drop 1 w = []" using w by (cases "rc_queue s") auto
  then have lt: "last_turn \<longleftrightarrow> drop 1 w = []" using f stop by simp
  show ?thesis
  proof (cases "item = None \<and> rt_encoder t = None")
    case True
    then have "work a x = (s1, t\<lparr>rt_done := last_turn\<rparr>)" using assms(3) x aw b by (simp add: work_def)
    moreover have "w = []" using True item w by (auto split: list.splits)
    ultimately show ?thesis using s1 lt by (simp add: going_def)
  next
    case False
    let ?o = "open_encoder a item (s1, t)"
    let ?x1 = "sound_step a batch (picture_step a item ?o)"
    have o1: "going op ids (drop 1 w) ?o \<and> rt_encoder (snd ?o) \<noteq> None"
      using open_going [OF assms(1) s1, of item] False by auto
    then have "going op (ids @ take 1 w) (drop 1 w) (picture_step a item ?o)"
      using picture_going [OF assms(1), of ids "drop 1 w" ?o item] ids by simp
    then have g: "going op (ids @ take 1 w) (drop 1 w) ?x1" using sound_going [OF assms(1)] by blast
    then have "work a x = (fst ?x1, snd ?x1\<lparr>rt_done := last_turn\<rparr>)"
      using False assms(3) x aw b by (auto simp: work_def going_def Let_def)
    then show ?thesis using g lt by (simp add: going_def)
  qed
qed

lemma works_done: "rt_done (snd x) \<Longrightarrow> run_recording (map Work as) x = x"
  by (induction as) (simp_all add: run_recording_def work_done)

lemma works_going:
  assumes "\<forall>a\<in>set as. good_turn op a" and "going op ids w x" and "\<not> rt_done (snd x)" and "length w < length as"
  shows "rt_done (snd (run_recording (map Work as) x)) \<and> going op (ids @ w) [] (run_recording (map Work as) x)"
  using assms
proof (induction as arbitrary: ids w x)
  case (Cons a as)
  have w: "going op (ids @ take 1 w) (drop 1 w) (work a x)" "rt_done (snd (work a x)) \<longleftrightarrow> drop 1 w = []"
    using work_going [of op a ids w x] Cons.prems by auto
  have r: "run_recording (map Work (a # as)) x = run_recording (map Work as) (work a x)" by (simp add: run_recording_def)
  show ?case
  proof (cases "drop 1 w = []")
    case True
    then show ?thesis using w works_done [of "work a x" as] r by (cases w) simp_all
  next
    case False
    have "rt_done (snd (run_recording (map Work as) (work a x)))
        \<and> going op ((ids @ take 1 w) @ drop 1 w) [] (run_recording (map Work as) (work a x))"
      using w False Cons.prems by (intro Cons.IH) auto
    then show ?thesis using r by simp
  qed
qed simp

section \<open>The end of the file\<close>

definition file_ok :: "handed list \<Rightarrow> bool" where
  "file_ok hs \<longleftrightarrow> sorted_wrt (<) (marks hs) \<and> list_all (\<lambda>p. 0 \<le> p) (marks hs) \<and> (\<exists>n m. 0 < n \<and> blocks_ok n m (blocks hs))"

lemma thread_file_ok: "thread_ok t \<Longrightarrow> file_ok (rt_handed t)"
proof -
  assume t: "thread_ok t"
  then have "\<exists>n m. 0 < n \<and> blocks_ok n m (blocks (rt_handed t))"
    by (cases "rt_encoder t") (auto simp: thread_ok_def blocks_ok_def)
  then show "file_ok (rt_handed t)" using t by (auto simp: file_ok_def thread_ok_def sorted_wrt_append list_all_iff)
qed

lemma file_ok_append: "thread_ok t \<Longrightarrow> marks hs = [] \<or> (\<exists>p. marks hs = [p] \<and> rt_last t < p) \<Longrightarrow> blocks hs = [] \<Longrightarrow> file_ok (rt_handed t @ hs)"
  using thread_file_ok [of t] by (auto simp: file_ok_def thread_ok_def sorted_wrt_append list_all_iff)

lemma finish_ok:
  assumes "thread_ok (snd x)"
  shows "file_ok (rt_handed (snd (finish now prepared x)))"
proof (cases "rt_encoder (snd x) = None \<or> rt_failed (snd x)")
  case True
  then show ?thesis using thread_file_ok assms by (auto simp: finish_def split: option.split)
next
  case False
  then obtain en where en: "rt_encoder (snd x) = Some en" by auto
  obtain s t where f: "finish_sound prepared (en_samples en) x = (s, t)" by (metis surj_pair)
  have "thread_ok (snd (finish_sound prepared (en_samples en) x))"
    using assms thread_ok_block [OF assms en, of "pad_block (en_samples en) (rt_pcm (snd x))"]
    by (simp add: finish_sound_def pad_block_def split_def Let_def)
  then have t: "thread_ok t" using f by simp
  let ?again = "last_picture (since_start now s) t"
  have "rt_handed (snd (finish now prepared x)) = rt_handed t @ ?again @ [Video_flush, Sound_flush, Trailer]"
    using en False f by (simp add: finish_def)
  moreover have "marks ?again = [] \<or> (\<exists>p. marks ?again = [p] \<and> rt_last t < p)" "blocks ?again = []"
    by (auto simp: last_picture_def Let_def split: option.split)
  ultimately show ?thesis using file_ok_append [OF t, of "?again @ [Video_flush, Sound_flush, Trailer]"] by simp
qed

section \<open>What the recording loses\<close>

text \<open>Once a recording has sound, the time of a block is not looked at any more: what comes after a pause,
  or after blocks that the full queue dropped, is joined to what was before.\<close>

lemma later_sound_unaligned: "place_sound first (a\<lparr>so_pts := p\<rparr>) (True, pcm) = place_sound first a (True, pcm)"
  by (simp add: place_sound_def)

text \<open>A failure after the header leaves a file without its trailer, whatever was recorded before.\<close>

lemma failure_leaves_no_trailer: "rt_failed (snd x) \<Longrightarrow> snd (finish now prepared x) = snd x"
  by (auto simp: finish_def split_def split: option.split)

lemma missing_aac_unreported: "\<not> su_aac a \<Longrightarrow> open_output a op f \<noteq> Inl Aac_unavailable \<and> open_output a op f \<noteq> Inr en"
  by (auto simp: open_output_def split: option.split)

section \<open>Pictures on the graphics card\<close>

definition gpu_picture :: "picture \<Rightarrow> bool" where
  "gpu_picture f \<longleftrightarrow> pc_d3d11 f \<and> pc_hardware f"

definition resident_only :: "recorder \<times> rec_thread \<Rightarrow> bool" where
  "resident_only x \<longleftrightarrow> ro_mode (rc_options (fst x)) = Mode_gpu \<and> (\<forall>q\<in>set (rc_queue (fst x)). gpu_picture (fst q)) \<and> rc_readback (fst x) = 0
     \<and> (case rt_encoder (snd x) of None \<Rightarrow> True | Some en \<Rightarrow> en_resident en)"

lemma in_tl: "x \<in> set (tl xs) \<Longrightarrow> x \<in> set xs"
  by (cases xs) auto

lemma fail_resident: "resident_only x \<Longrightarrow> resident_only (fail_with e x)"
  by (simp add: resident_only_def fail_with_def)

lemma write_resident: "resident_only x \<Longrightarrow> resident_only (write_video d f p x)"
  by (simp add: resident_only_def write_video_def fail_with_def Let_def split_def)

lemma open_resident:
  assumes "resident_only x" and "case item of None \<Rightarrow> True | Some (f, _) \<Rightarrow> gpu_picture f"
  shows "resident_only (open_encoder a item x)"
proof (cases "rt_encoder (snd x) = None \<and> item \<noteq> None")
  case True
  then obtain f p where f: "item = Some (f, p)" by auto
  show ?thesis
  proof (cases "open_output (ta_setup a) (rc_options (fst x)) f")
    case (Inr en)
    then have "en_resident en"
      using encoder_for_mode(2) [of "ta_setup a" "rc_options (fst x)" f] assms f
      by (auto simp: open_output_def resident_only_def gpu_picture_def split: option.splits if_splits)
    then show ?thesis using Inr f True assms(1) by (simp add: open_encoder_def resident_only_def)
  qed (use f True assms(1) fail_resident in \<open>simp add: open_encoder_def\<close>)
qed (use assms in \<open>auto simp: open_encoder_def split: option.split\<close>)

lemma picture_resident: "resident_only x \<Longrightarrow> resident_only (picture_step a item x)"
proof (cases "rt_encoder (snd x)")
  case (Some en)
  moreover assume r: "resident_only x"
  ultimately have "en_resident en" by (simp add: resident_only_def)
  then show ?thesis using r Some fail_resident write_resident
    by (auto simp: picture_step_def record_picture_def split_def Let_def split: option.split)
qed (simp add: picture_step_def)

lemma encode_resident: "resident_only x \<Longrightarrow> resident_only (encode_sound a n i x)"
proof (induction a n i x rule: encode_sound.induct)
  case (1 a n i x)
  obtain s t where x: "x = (s, t)" by (cases x)
  have r: "resident_only (s\<lparr>rc_samples := k\<rparr>, t\<lparr>rt_pcm := p, rt_next_audio := m, rt_handed := h\<rparr>)"
    "resident_only (s, t\<lparr>rt_pcm := p, rt_next_audio := m, rt_handed := h\<rparr>)" for k p m h
    using "1.prems" x by (simp_all add: resident_only_def)
  show ?case
    using "1.IH" [OF refl x [symmetric]] x r "1.prems" fail_resident by (subst encode_sound.simps) (auto simp: Let_def)
qed

lemma sound_resident:
  assumes "resident_only x"
  shows "resident_only (sound_step a batch x)"
proof -
  have "resident_only (fst x, snd x\<lparr>rt_timeline := b, rt_pcm := p\<rparr>)" for b p using assms by (simp add: resident_only_def)
  then show ?thesis using assms encode_resident by (simp add: sound_step_def split_def Let_def split: option.split)
qed

lemma work_resident:
  assumes "resident_only x"
  shows "resident_only (work a x)"
proof -
  obtain s t where x: "x = (s, t)" by (cases x)
  obtain item batch last_turn s1 where b: "take_batch s t = (item, batch, last_turn, s1)" by (metis surj_pair)
  note f = take_batch_fields [OF b]
  have s1: "resident_only (s1, t)" using assms x f(2-5) by (auto simp: resident_only_def dest: in_tl)
  have item: "case item of None \<Rightarrow> True | Some (f, _) \<Rightarrow> gpu_picture f"
    using assms x f(1) by (cases "rc_queue s") (auto simp: resident_only_def split: prod.splits)
  have "resident_only (sound_step a batch (picture_step a item (open_encoder a item (s1, t))))"
    by (intro sound_resident picture_resident open_resident s1 item)
  then show ?thesis using x b assms s1 by (auto simp: work_def Let_def resident_only_def)
qed

fun gpu_events :: "rec_event list \<Rightarrow> bool" where
  "gpu_events [] = True"
| "gpu_events (Submit now cloned f # es) = (gpu_picture f \<and> gpu_events es)"
| "gpu_events (_ # es) = gpu_events es"

lemma submit_resident: "resident_only x \<Longrightarrow> gpu_picture f \<Longrightarrow> resident_only (submit now c f (fst x), snd x)"
  by (auto simp: resident_only_def submit_def Let_def dest: in_tl split: if_splits)

lemma run_resident: "resident_only x \<Longrightarrow> gpu_events es \<Longrightarrow> resident_only (run_recording es x)"
proof (induction es arbitrary: x)
  case (Cons e es)
  have "resident_only (rec_step e x)"
  proof (cases e)
    case (Submit now c f)
    then show ?thesis using Cons.prems submit_resident by simp
  next
    case (Work a)
    then show ?thesis using Cons.prems(1) work_resident by simp
  qed (use Cons.prems(1) in \<open>simp_all add: resident_only_def submit_audio_def request_stop_def Let_def\<close>)
  moreover have "gpu_events es" using Cons.prems(2) by (cases e) simp_all
  ultimately show ?case using Cons.IH by (simp add: run_recording_def)
qed (simp add: run_recording_def)

section \<open>Properties\<close>

definition armed :: "int \<Rightarrow> string \<Rightarrow> string \<Rightarrow> rec_options \<Rightarrow> recorder \<Rightarrow> recorder \<times> rec_thread" where
  "armed now dir name op s = (fst (snd (start_recording now (Some dir) name op s)), new_thread)"

lemma armed_fields:
  "rc_queue (fst (armed now dir name op s)) = []" "snd (armed now dir name op s) = new_thread"
  "ro_mode (rc_options (fst (armed now dir name op s))) = ro_mode op" "rc_readback (fst (armed now dir name op s)) = 0"
  by (simp_all add: armed_def start_recording_def Let_def)

text \<open>C25: Whatever the decoders submit, whatever the encoders answer and whenever the recording is stopped,
  the pictures in the file have strictly increasing times from zero on, the sound is cut into blocks of
  one size whose times follow each other without a gap, at most 90 pictures wait, and sound that has
  found its place on the timeline is never moved, changed or dropped by what comes later.\<close>

theorem recording_timeline:
  "let x = run_recording es (armed now0 dir name op s) in
     file_ok (rt_handed (snd (finish now prepared x))) \<and> length (rc_queue (fst x)) \<le> max_queued
     \<and> prefix (sound_values (snd x)) (sound_values (snd (run_recording later x)))"
proof -
  let ?x = "run_recording es (armed now0 dir name op s)"
  have t: "thread_ok (snd ?x)" using run_extends [of "armed now0 dir name op s" es] new_thread_ok by (simp add: extends_def armed_fields)
  have "length (rc_queue (fst ?x)) \<le> max_queued" by (rule run_queue) (simp add: armed_fields)
  then show ?thesis using finish_ok [OF t] run_extends [OF t, of later] by (simp add: Let_def extends_def)
qed

text \<open>C26: A stop ends: as long as nothing fails, one turn more than pictures wait is enough for the thread
  to come to its end, and until then it has handed every waiting picture to the encoder, in order and
  once.\<close>

theorem stop_drains:
  assumes "\<forall>a\<in>set as. good_turn (rc_options (fst x)) a" and "\<not> rt_failed (snd x)" and "\<not> rt_done (snd x)"
    and "length (rc_queue (fst x)) < length as"
  shows "let y = run_recording (Ask_stop # map Work as) x in
     rt_done (snd y) \<and> rc_queue (fst y) = []
     \<and> pictures (rt_handed (snd y)) = pictures (rt_handed (snd x)) @ map (pc_id \<circ> fst) (rc_queue (fst x))"
proof -
  let ?w = "map (pc_id \<circ> fst) (rc_queue (fst x))"
  let ?x1 = "(request_stop (fst x), snd x)"
  have g: "going (rc_options (fst x)) (pictures (rt_handed (snd x))) ?w ?x1"
    using assms(2) by (simp add: going_def request_stop_def)
  have "run_recording (Ask_stop # map Work as) x = run_recording (map Work as) ?x1" by (simp add: run_recording_def)
  then show ?thesis
    using works_going [OF assms(1) g] assms(3,4) by (simp add: Let_def going_def)
qed

text \<open>C27: A recording in GPU mode whose pictures are all on the graphics card never reads one of them back
  into the memory of the processor, whatever encoders the machine has.\<close>

theorem gpu_mode_never_reads_back:
  assumes "ro_mode op = Mode_gpu" and "gpu_events es"
  shows "rc_readback (fst (run_recording es (armed now0 dir name op s))) = 0"
proof -
  have "resident_only (armed now0 dir name op s)" using assms(1) by (simp add: resident_only_def armed_fields new_thread_def)
  from run_resident [OF this assms(2)] show ?thesis by (simp add: resident_only_def)
qed

section \<open>Witnesses\<close>

definition sample_setup :: setup_answers where
  "sample_setup = \<lparr>su_context = True, su_conversion = True, su_formats = (\<lambda>_. Some (Some [D3d11, Nv12])), su_opens = (\<lambda>_ _. True),
     su_stream = True, su_parameters = True, su_aac = True, su_aac_context = True, su_aac_open = True, su_audio_stream = True,
     su_audio_parameters = True, su_file = True, su_header = True, su_frame = True, su_audio_frame = True, su_frame_size = 1024\<rparr>"

definition sample_turn :: turn_answers where
  "sample_turn = \<lparr>ta_setup = sample_setup, ta_download = True, ta_convert = True, ta_writable = True, ta_video = True,
     ta_prepare = (\<lambda>_. True), ta_sound = (\<lambda>_. True)\<rparr>"

definition sample_picture :: "nat \<Rightarrow> picture" where
  "sample_picture i = \<lparr>pc_id = i, pc_width = 1920, pc_height = 1080, pc_hardware = True, pc_d3d11 = True\<rparr>"

definition sample_recorder :: "encoder_mode \<Rightarrow> recorder" where
  "sample_recorder m = \<lparr>rc_queue = [(sample_picture 1, 0), (sample_picture 2, 16)], rc_audio = [], rc_accepting = True, rc_stop = False,
     rc_path = [], rc_codec_name = [], rc_error = None, rc_options = \<lparr>ro_mode = m, ro_codec = H264, ro_bitrate = 8\<rparr>,
     rc_written = 0, rc_dropped = 0, rc_samples = 0, rc_readback = 0, rc_resident = False, rc_started = 0\<rparr>"

lemma sample_good: "good_turn \<lparr>ro_mode = Mode_auto, ro_codec = H264, ro_bitrate = 8\<rparr> sample_turn"
  by (auto simp: good_turn_def sample_turn_def sample_setup_def open_output_def encoder_for_def encoder_candidates_def
      gpu_candidates_def encoder_pixel_format_def Let_def)

theorem stop_drains_witness:
  "let y = run_recording (Ask_stop # map Work (replicate 3 sample_turn)) (sample_recorder Mode_auto, new_thread) in
     rt_done (snd y) \<and> pictures (rt_handed (snd y)) = [1, 2]"
  using stop_drains [of "replicate 3 sample_turn" "(sample_recorder Mode_auto, new_thread)"] sample_good
  unfolding Let_def by (simp add: sample_recorder_def sample_picture_def new_thread_def)

theorem gpu_mode_never_reads_back_witness:
  "rc_readback (fst (run_recording [Submit 5 True (sample_picture 1), Work sample_turn]
     (armed 0 [] [] \<lparr>ro_mode = Mode_gpu, ro_codec = H264, ro_bitrate = 8\<rparr> (sample_recorder Mode_gpu)))) = 0"
  by (rule gpu_mode_never_reads_back) (simp_all add: gpu_picture_def sample_picture_def)

end
