(* ===== verification/Usb.thy ===== *)
theory Usb
  imports Plists Info "HOL-Library.Char_ord" "HOL-Library.List_Lexorder"
begin

text \<open>
  The watch for devices on USB (src/usb/usb_supervisor.cpp) and the pair records that Apple's service
  leaves on the disk (src/usb/pair_record.cpp). The enumeration of the system, the directory and the
  property list library are arguments.
\<close>

section \<open>Instance identifiers\<close>

record apple_device =
  ap_udid :: string
  ap_name :: string
  ap_pid :: u16

text \<open>\<open>USB\VID_05AC&PID_12A8\serial\<close>: the characters lose their upper halves, four digits follow each
  mark, and a serial number has no ampersand. \<open>std::stoul\<close> on four characters gives the same low 16
  bits whatever the width of a long is.\<close>

definition narrow :: "u16 list \<Rightarrow> string" where
  "narrow w = map (\<lambda>c. char_of_byte (ucast c)) w"

definition rfind_slash :: "string \<Rightarrow> nat option" where
  "rfind_slash s = (case find_pred (\<lambda>c. c = CHR 0x5C \<or> c = CHR ''/'') (rev s) of
     None \<Rightarrow> None | Some i \<Rightarrow> Some (length s - 1 - i))"

definition parse_instance_id :: "u16 list \<Rightarrow> (u16 \<times> string) option" where
  "parse_instance_id w =
     (let s = narrow w
      in case (find_str ''VID_'' s, find_str ''PID_'' s) of
           (Some v, Some p) \<Rightarrow>
             (if v + 8 > length s \<or> p + 8 > length s then None
              else case (stoull16 (substr s (v + 4) 4), stoull16 (substr s (p + 4) 4)) of
                     (Some vid, Some pid) \<Rightarrow>
                       (if vid \<noteq> 0x05AC then None
                        else case rfind_slash s of
                               None \<Rightarrow> None
                             | Some i \<Rightarrow>
                                 (if i + 1 \<ge> length s then None
                                  else let serial = drop (i + 1) s
                                       in if CHR ''&'' \<in> set serial then None else Some (ucast pid, serial)))
                   | _ \<Rightarrow> None)
         | _ \<Rightarrow> None)"

text \<open>An enumeration: for each device its identifier, if the system gives one, and its name, which may be
  empty.\<close>

definition enumerate_devices :: "(u16 list option \<times> string) list \<Rightarrow> apple_device list" where
  "enumerate_devices found = concat (map (\<lambda>(w, name).
     case w of None \<Rightarrow> []
     | Some w \<Rightarrow> (case parse_instance_id w of None \<Rightarrow> []
                 | Some (pid, serial) \<Rightarrow> [\<lparr>ap_udid = serial, ap_name = (if name = [] then ''Apple device'' else name), ap_pid = pid\<rparr>])) found)"

section \<open>Polling\<close>

datatype usb_event = Arrival apple_device | Removal apple_device

record supervisor =
  us_known :: "string set"
  us_last :: "apple_device list"

definition device_key :: "apple_device \<Rightarrow> string" where
  "device_key d = to_lower (ap_udid d)"

fun arrivals :: "apple_device list \<Rightarrow> string set \<Rightarrow> usb_event list \<times> string set" where
  "arrivals [] known = ([], known)"
| "arrivals (d # ds) known =
     (if device_key d \<in> known then arrivals ds known
      else let (es, k) = arrivals ds (insert (device_key d) known) in (Arrival d # es, k))"

text \<open>The set is walked in its order.\<close>

definition removals :: "apple_device list \<Rightarrow> string set \<Rightarrow> string set \<Rightarrow> usb_event list" where
  "removals before current known =
     concat (map (\<lambda>k. case find (\<lambda>d. device_key d = k) before of None \<Rightarrow> [] | Some d \<Rightarrow> [Removal d])
       (filter (\<lambda>k. k \<notin> current) (sorted_list_of_set known)))"

definition poll :: "apple_device list \<Rightarrow> supervisor \<Rightarrow> usb_event list \<times> supervisor" where
  "poll current s =
     (let keys = set (map device_key current);
          (es, known) = arrivals current (us_known s)
      in (es @ removals (us_last s) keys known, \<lparr>us_known = {k \<in> known. k \<in> keys}, us_last = current\<rparr>))"

fun polls :: "apple_device list list \<Rightarrow> supervisor \<Rightarrow> usb_event list \<times> supervisor" where
  "polls [] s = ([], s)"
| "polls (c # cs) s = (let (es, s1) = poll c s; (fs, s2) = polls cs s1 in (es @ fs, s2))"

definition new_supervisor :: supervisor where
  "new_supervisor = \<lparr>us_known = {}, us_last = []\<rparr>"

text \<open>The sleep between two polls, in slices, while the flag is read before each; the steps slept.\<close>

fun sleep_slices :: "nat \<Rightarrow> bool list \<Rightarrow> nat list" where
  "sleep_slices remaining [] = []"
| "sleep_slices remaining (running # rs) =
     (if remaining = 0 \<or> \<not> running then []
      else let step = min remaining 200 in step # sleep_slices (remaining - step) rs)"

section \<open>Pair records\<close>

definition strip_dashes :: "string \<Rightarrow> string" where
  "strip_dashes s = filter (\<lambda>c. c \<noteq> CHR ''-'') s"

definition candidate_filenames :: "string \<Rightarrow> string list" where
  "candidate_filenames udid =
     (udid @ ''.plist'') #
     (if strip_dashes udid \<noteq> udid then [strip_dashes udid @ ''.plist'']
      else if length udid = 24 then [take 8 udid @ ''-'' @ drop 8 udid @ ''.plist''] else [])"

type_synonym directory = "string \<rightharpoonup> bytes"

text \<open>\<open>readable\<close> is whether a file that can be opened can be read to its end.\<close>

definition pair_record_exists :: "string \<Rightarrow> directory \<Rightarrow> string \<Rightarrow> bool" where
  "pair_record_exists dir fs udid =
     (dir \<noteq> [] \<and> udid \<noteq> [] \<and> list_ex (\<lambda>n. fs (dir @ CHR 0x5C # n) \<noteq> None) (candidate_filenames udid))"

record pair_record =
  pr_host_id :: string
  pr_system_buid :: string
  pr_wifi_mac :: string
  pr_host_certificate :: bytes
  pr_host_key :: bytes
  pr_root_certificate :: bytes
  pr_root_key :: bytes
  pr_device_certificate :: bytes

definition string_at :: "plist \<Rightarrow> string \<Rightarrow> string" where
  "string_at p key = (case get_string_of p key of Some s \<Rightarrow> s | None \<Rightarrow> [])"

definition data_at :: "plist \<Rightarrow> string \<Rightarrow> bytes" where
  "data_at p key = (case get_data_of p key of Some d \<Rightarrow> d | None \<Rightarrow> [])"

definition record_of :: "plist \<Rightarrow> pair_record" where
  "record_of p =
     \<lparr>pr_host_id = string_at p ''HostID'', pr_system_buid = string_at p ''SystemBUID'', pr_wifi_mac = string_at p ''WiFiMACAddress'',
      pr_host_certificate = data_at p ''HostCertificate'', pr_host_key = data_at p ''HostPrivateKey'',
      pr_root_certificate = data_at p ''RootCertificate'', pr_root_key = data_at p ''RootPrivateKey'',
      pr_device_certificate = data_at p ''DeviceCertificate''\<rparr>"

fun first_file :: "directory \<Rightarrow> (bytes \<Rightarrow> bool) \<Rightarrow> string \<Rightarrow> string list \<Rightarrow> bytes option" where
  "first_file fs readable dir [] = None"
| "first_file fs readable dir (n # ns) =
     (case fs (dir @ CHR 0x5C # n) of
        None \<Rightarrow> first_file fs readable dir ns
      | Some b \<Rightarrow> if readable b then Some b else first_file fs readable dir ns)"

definition load_pair_record ::
  "(bytes \<Rightarrow> plist option) \<Rightarrow> (bytes \<Rightarrow> bool) \<Rightarrow> string \<Rightarrow> directory \<Rightarrow> string \<Rightarrow> pair_record \<Rightarrow> bool \<times> pair_record" where
  "load_pair_record parse readable dir fs udid out =
     (if dir = [] \<or> udid = [] then (False, out)
      else case first_file fs readable dir (candidate_filenames udid) of
             None \<Rightarrow> (False, out)
           | Some b \<Rightarrow>
               (case parse b of
                  None \<Rightarrow> (False, out)
                | Some p \<Rightarrow> (pr_host_id (record_of p) \<noteq> [], record_of p)))"

text \<open>The comment of the header promises that a failure leaves the record alone; a list without the host
  identifier replaces it.\<close>

lemma failed_load_overwrites:
  assumes "dir \<noteq> []" and "udid \<noteq> []" and "first_file fs readable dir (candidate_filenames udid) = Some b"
    and "parse b = Some (PDict [])"
  shows "load_pair_record parse readable dir fs udid out = (False, record_of (PDict [])) \<and> pr_host_id (record_of (PDict [])) = []"
  using assms by (simp add: load_pair_record_def record_of_def string_at_def get_string_of_def)

text \<open>The two forms of a UDID lead to the same files.\<close>

lemma filenames_agree:
  assumes "length u = 24" and "CHR ''-'' \<notin> set u"
  shows "set (candidate_filenames (take 8 u @ ''-'' @ drop 8 u)) = set (candidate_filenames u)"
proof -
  have "strip_dashes u = u" using assms(2) by (auto simp: strip_dashes_def intro!: filter_True)
  moreover have "strip_dashes (take 8 u @ ''-'' @ drop 8 u) = strip_dashes u"
  proof -
    have "strip_dashes (take 8 u @ ''-'' @ drop 8 u) = strip_dashes (take 8 u @ drop 8 u)"
      unfolding strip_dashes_def filter_append by simp
    then show ?thesis by simp
  qed
  moreover have "take 8 u @ ''-'' @ drop 8 u \<noteq> u"
  proof
    assume "take 8 u @ ''-'' @ drop 8 u = u"
    then have "CHR ''-'' \<in> set u" by (metis in_set_conv_decomp append_Cons append_Nil)
    with assms(2) show False by simp
  qed
  ultimately show ?thesis using assms(1) by (auto simp: candidate_filenames_def)
qed

section \<open>Arrivals and removals\<close>

text \<open>The events of one device.\<close>

fun of_key :: "string \<Rightarrow> usb_event list \<Rightarrow> bool list" where
  "of_key k [] = []"
| "of_key k (Arrival d # es) = (if device_key d = k then True # of_key k es else of_key k es)"
| "of_key k (Removal d # es) = (if device_key d = k then False # of_key k es else of_key k es)"

text \<open>They alternate, beginning with an arrival when the device is not there; the result is whether it is
  there afterwards.\<close>

fun plugged :: "bool \<Rightarrow> bool list \<Rightarrow> bool option" where
  "plugged present [] = Some present"
| "plugged present (e # es) = (if e = present then None else plugged e es)"

lemma of_key_append [simp]: "of_key k (a @ b) = of_key k a @ of_key k b"
  by (induction k a rule: of_key.induct) simp_all

lemma plugged_append: "plugged p (a @ b) = (case plugged p a of None \<Rightarrow> None | Some q \<Rightarrow> plugged q b)"
  by (induction a arbitrary: p) auto

lemma arrivals_known: "snd (arrivals ds known) = known \<union> set (map device_key ds)"
  by (induction ds known rule: arrivals.induct) (auto simp: split_def Let_def)

lemma arrivals_of_key:
  "of_key k (fst (arrivals ds known)) = (if k \<notin> known \<and> k \<in> set (map device_key ds) then [True] else [])"
proof (induction ds known rule: arrivals.induct)
  case (2 d ds known)
  then show ?case by (cases "device_key d \<in> known") (auto simp: split_def Let_def)
qed simp

lemma find_key: "find P xs = Some x \<Longrightarrow> x \<in> set xs \<and> P x"
  by (induction xs) (auto split: if_splits)

lemma removals_of_list:
  assumes "distinct ks"
  shows "of_key k (concat (map (\<lambda>k. case find (\<lambda>d. device_key d = k) before of None \<Rightarrow> [] | Some d \<Rightarrow> [Removal d]) ks))
    = (if k \<in> set ks \<and> k \<in> set (map device_key before) then [False] else [])"
  using assms
proof (induction ks)
  case (Cons a ks)
  show ?case
  proof (cases "find (\<lambda>d. device_key d = a) before")
    case None
    then have "a \<notin> set (map device_key before)" by (auto simp: find_None_iff)
    then show ?thesis using Cons None by (cases "k = a") simp_all
  next
    case (Some d)
    then have d: "device_key d = a" "d \<in> set before" using find_key by fastforce+
    then have "a \<in> set (map device_key before)" by auto
    then show ?thesis using Cons Some d(1) by (cases "k = a") simp_all
  qed
qed simp

definition supervisor_ok :: "supervisor \<Rightarrow> bool" where
  "supervisor_ok s \<longleftrightarrow> us_known s = set (map device_key (us_last s))"

lemma poll_ok: "supervisor_ok (snd (poll current s)) \<and> us_last (snd (poll current s)) = current"
  using arrivals_known [of current "us_known s"] by (auto simp: poll_def supervisor_ok_def split_def Let_def)

lemma poll_of_key:
  assumes "supervisor_ok s"
  shows "plugged (k \<in> us_known s) (of_key k (fst (poll current s))) = Some (k \<in> us_known (snd (poll current s)))"
proof -
  let ?keys = "set (map device_key current)"
  have fin: "finite (us_known s \<union> ?keys)" using assms by (simp add: supervisor_ok_def)
  then have "set (filter (\<lambda>k. k \<notin> ?keys) (sorted_list_of_set (us_known s \<union> ?keys))) = us_known s - ?keys" by auto
  then have "of_key k (removals (us_last s) ?keys (us_known s \<union> ?keys)) = (if k \<in> us_known s \<and> k \<notin> ?keys then [False] else [])"
    using assms unfolding removals_def by (subst removals_of_list) (auto simp: supervisor_ok_def)
  moreover have "us_known (snd (poll current s)) = ?keys" using poll_ok [of current s] by (simp add: supervisor_ok_def)
  ultimately show ?thesis
    using arrivals_of_key [of k current "us_known s"] arrivals_known [of current "us_known s"]
    by (auto simp: poll_def split_def Let_def)
qed

lemma polls_of_key:
  "supervisor_ok s \<Longrightarrow> plugged (k \<in> us_known s) (of_key k (fst (polls cs s))) = Some (k \<in> us_known (snd (polls cs s)))
     \<and> supervisor_ok (snd (polls cs s)) \<and> (cs \<noteq> [] \<longrightarrow> us_last (snd (polls cs s)) = last cs)"
proof (induction cs arbitrary: s)
  case (Cons c cs)
  have ok: "supervisor_ok (snd (poll c s))" using poll_ok by simp
  show ?case
    using Cons.IH [OF ok] poll_of_key [OF Cons.prems, of k c] poll_ok [of c s]
    by (cases cs) (simp_all add: split_def Let_def plugged_append)
qed simp

section \<open>Properties\<close>

text \<open>Whatever the polls find, also the same device twice or in another spelling, the log of every device
  begins with an arrival and alternates between arrivals and removals, and after the last poll the
  devices that have arrived and not been removed are exactly those which that poll found.\<close>

theorem usb_log_alternates:
  "plugged False (of_key k (fst (polls (cs @ [c]) new_supervisor))) = Some (k \<in> set (map device_key c))"
proof -
  have n: "supervisor_ok new_supervisor" by (simp add: supervisor_ok_def new_supervisor_def)
  from polls_of_key [OF n, of k "cs @ [c]"] show ?thesis by (simp add: supervisor_ok_def new_supervisor_def)
qed

end
