(* ===== verification/TextRuns.thy ===== *)
theory TextRuns
  imports ReceiverName Prelude
begin

text \<open>
  The texts of the stage (src/video/video_renderer.cpp: \<open>utf8_next\<close>, \<open>pick_font_for\<close>,
  \<open>render_multi_font\<close>): the decoder of UTF-8, the choice of a font for each character, the division of
  a text into runs of one font, and the place of the rendered runs. A position in the text is the rest
  of the text that begins there; the fonts are numbers, and which characters a font provides and how
  large a rendered run is are arguments.
\<close>

section \<open>Decoding\<close>

fun decode_tail :: "nat \<Rightarrow> nat \<Rightarrow> string \<Rightarrow> nat \<times> string" where
  "decode_tail 0 cp s = (cp, s)"
| "decode_tail (Suc k) cp [] = (0xFFFD, [])"
| "decode_tail (Suc k) cp (c # s) =
     (if \<not> (0x80 \<le> code c \<and> code c < 0xC0) then (0xFFFD, c # s) else decode_tail k (cp * 64 + code c mod 64) s)"

definition utf8_next :: "string \<Rightarrow> nat \<times> string" where
  "utf8_next s =
     (case s of
        [] \<Rightarrow> (0, [])
      | c # r \<Rightarrow>
          (if code c < 0x80 then (code c, r)
           else if 0xC0 \<le> code c \<and> code c < 0xE0 then decode_tail 1 (code c mod 32) r
           else if 0xE0 \<le> code c \<and> code c < 0xF0 then decode_tail 2 (code c mod 16) r
           else if 0xF0 \<le> code c \<and> code c < 0xF8 then decode_tail 3 (code c mod 8) r
           else (0xFFFD, r)))"

lemma decode_tail_numeral:
  "decode_tail (numeral k) cp (c # s) =
     (if \<not> (0x80 \<le> code c \<and> code c < 0xC0) then (0xFFFD, c # s) else decode_tail (pred_numeral k) (cp * 64 + code c mod 64) s)"
  by (simp add: numeral_eq_Suc)

lemma decode_tail_shorter: "length (snd (decode_tail k cp s)) \<le> length s"
proof (induction k cp s rule: decode_tail.induct)
  case (3 k cp c s)
  then show ?case by (cases "0x80 \<le> code c \<and> code c < 0xC0") auto
qed simp_all

lemma utf8_next_shorter: "s \<noteq> [] \<Longrightarrow> length (snd (utf8_next s)) < length s"
  using decode_tail_shorter [of _ _ "tl s"]
  by (cases s) (auto simp: utf8_next_def less_Suc_eq_le simp del: One_nat_def decode_tail.simps)

lemma decode_tail_suffix: "\<exists>p. s = p @ snd (decode_tail k cp s)"
proof (induction k cp s rule: decode_tail.induct)
  case (3 k cp c s)
  show ?case
  proof (cases "0x80 \<le> code c \<and> code c < 0xC0")
    case True
    from "3.IH" True obtain p where "s = p @ snd (decode_tail k (cp * 64 + code c mod 64) s)" by auto
    then show ?thesis using True by (intro exI [of _ "c # p"]) simp
  qed auto
qed simp_all

lemma utf8_next_suffix: "\<exists>p. s = p @ snd (utf8_next s)"
proof (cases s)
  case (Cons c r)
  have "\<exists>p. c # r = p @ snd (decode_tail k cp r)" for k cp using decode_tail_suffix [of r k cp] by (metis append_Cons)
  moreover have "\<exists>p. c # r = p @ r" by (rule exI [of _ "[c]"]) simp
  ultimately show ?thesis using Cons by (simp add: utf8_next_def)
qed (simp add: utf8_next_def)

section \<open>Fonts and runs\<close>

definition pick_font_for :: "(nat \<Rightarrow> nat \<Rightarrow> bool) \<Rightarrow> nat list \<Rightarrow> nat \<Rightarrow> nat option" where
  "pick_font_for provides fonts cp =
     (case find (\<lambda>f. provides f cp) fonts of Some f \<Rightarrow> Some f | None \<Rightarrow> (case fonts of [] \<Rightarrow> None | f # _ \<Rightarrow> Some f))"

definition push_run :: "nat option \<Rightarrow> string \<Rightarrow> (nat option \<times> string) list \<Rightarrow> (nat option \<times> string) list" where
  "push_run font part runs = (if part \<noteq> [] then runs @ [(font, part)] else runs)"

function font_loop :: "(nat \<Rightarrow> nat option) \<Rightarrow> string \<Rightarrow> nat option \<Rightarrow> string \<Rightarrow> (nat option \<times> string) list \<Rightarrow> (nat option \<times> string) list" where
  "font_loop pick s cur part runs =
     (if s = [] then push_run cur part runs
      else let (cp, r) = utf8_next s;
               f = pick cp;
               bytes = take (length s - length r) s
           in if f \<noteq> cur then font_loop pick r f bytes (push_run cur part runs)
              else font_loop pick r cur (part @ bytes) runs)"
  by pat_completeness auto
termination
proof (relation "measure (\<lambda>(pick, s, _). length s)")
qed (use utf8_next_shorter in \<open>auto simp: prod_eq_iff\<close>)

declare font_loop.simps [simp del]

definition text_runs :: "(nat \<Rightarrow> nat \<Rightarrow> bool) \<Rightarrow> nat list \<Rightarrow> string \<Rightarrow> (nat option \<times> string) list" where
  "text_runs provides fonts s = (if fonts = [] \<or> s = [] then [] else font_loop (pick_font_for provides fonts) s None [] [])"

text \<open>The runs side by side, standing on one line: the width and height of the whole and the place of
  every run that could be rendered.\<close>

fun place_runs :: "int \<Rightarrow> int \<Rightarrow> (int \<times> int) option list \<Rightarrow> (int \<times> int \<times> int \<times> int) list" where
  "place_runs x max_h [] = []"
| "place_runs x max_h (None # ss) = place_runs x max_h ss"
| "place_runs x max_h (Some (w, h) # ss) = (x, max_h - h, w, h) # place_runs (x + w) max_h ss"

definition sizes_of :: "(int \<times> int) option list \<Rightarrow> (int \<times> int) list" where
  "sizes_of ss = concat (map (\<lambda>s. case s of None \<Rightarrow> [] | Some p \<Rightarrow> [p]) ss)"

definition join_runs :: "(int \<times> int) option list \<Rightarrow> (int \<times> int \<times> (int \<times> int \<times> int \<times> int) list) option" where
  "join_runs ss =
     (let total_w = sum_list (map fst (sizes_of ss)); max_h = fold (\<lambda>p m. max m (snd p)) (sizes_of ss) 0
      in if total_w = 0 then None else Some (total_w, max_h, place_runs 0 max_h ss))"

section \<open>Well-formed text\<close>

definition encode_char :: "nat \<Rightarrow> string" where
  "encode_char v = map char_of (utf8_encode v)"

lemma code_char [simp]: "n < 256 \<Longrightarrow> code (char_of n) = n"
  by (simp add: of_char_of)

lemma lead_mod:
  "n < 64 \<Longrightarrow> (128 + n) mod 64 = (n :: nat)" "n < 32 \<Longrightarrow> (192 + n) mod 32 = (n :: nat)"
  "n < 16 \<Longrightarrow> (224 + n) mod 16 = (n :: nat)" "n < 8 \<Longrightarrow> (240 + n) mod 8 = (n :: nat)"
  by (simp_all add: le_mod_geq)

lemma decode_tail_step:
  "n < 64 \<Longrightarrow> decode_tail (Suc k) cp (char_of (0x80 + n) # s) = decode_tail k (cp * 64 + n) s"
  by (simp add: lead_mod)

lemma utf8_next_encode:
  assumes "scalar_value v"
  shows "utf8_next (encode_char v @ r) = (v, r)"
proof -
  have m: "n mod 64 < 64" for n :: nat by simp
  consider "v < 0x80" | "\<not> v < 0x80" "v < 0x800" | "\<not> v < 0x800" "v < 0x10000" | "\<not> v < 0x10000" "v < 0x200000"
    using assms by (fastforce simp: scalar_value_def)
  then show ?thesis
  proof cases
    case 1
    then show ?thesis by (simp add: encode_char_def utf8_encode_def utf8_next_def)
  next
    case 2
    then have h: "v div 64 < 32" by auto
    have "utf8_next (encode_char v @ r) = decode_tail (Suc 0) (v div 64) (char_of (0x80 + v mod 64) # r)"
      using 2 h by (simp add: encode_char_def utf8_encode_def utf8_next_def lead_mod del: decode_tail.simps)
    also have "\<dots> = (v div 64 * 64 + v mod 64, r)" unfolding decode_tail_step [OF m] by simp
    finally show ?thesis by (simp add: div_mult_mod_eq)
  next
    case 3
    then have h: "v div 4096 < 16" "v div 64 div 64 = v div 4096" by (auto simp: div_mult2_eq [symmetric])
    have "utf8_next (encode_char v @ r) = decode_tail (Suc (Suc 0)) (v div 4096) (char_of (0x80 + v div 64 mod 64) # char_of (0x80 + v mod 64) # r)"
      using 3 h by (simp add: encode_char_def utf8_encode_def utf8_next_def numeral_2_eq_2 lead_mod del: decode_tail.simps)
    also have "\<dots> = ((v div 4096 * 64 + v div 64 mod 64) * 64 + v mod 64, r)" unfolding decode_tail_step [OF m] by simp
    also have "v div 4096 * 64 + v div 64 mod 64 = v div 64" unfolding h(2) [symmetric] by (rule div_mult_mod_eq)
    finally show ?thesis by (simp add: div_mult_mod_eq)
  next
    case 4
    then have h: "v div 262144 < 8" "v div 64 div 64 = v div 4096" "v div 4096 div 64 = v div 262144"
      by (auto simp: div_mult2_eq [symmetric])
    have "utf8_next (encode_char v @ r) = decode_tail (Suc (Suc (Suc 0))) (v div 262144)
        (char_of (0x80 + v div 4096 mod 64) # char_of (0x80 + v div 64 mod 64) # char_of (0x80 + v mod 64) # r)"
      using 4 h by (simp add: encode_char_def utf8_encode_def utf8_next_def numeral_3_eq_3 lead_mod del: decode_tail.simps)
    also have "\<dots> = (((v div 262144 * 64 + v div 4096 mod 64) * 64 + v div 64 mod 64) * 64 + v mod 64, r)"
      unfolding decode_tail_step [OF m] by simp
    also have "v div 262144 * 64 + v div 4096 mod 64 = v div 4096" unfolding h(3) [symmetric] by (rule div_mult_mod_eq)
    also have "v div 4096 * 64 + v div 64 mod 64 = v div 64" unfolding h(2) [symmetric] by (rule div_mult_mod_eq)
    finally show ?thesis by (simp add: div_mult_mod_eq)
  qed
qed

lemma encode_char_nonempty [simp]: "encode_char v \<noteq> []"
  by (simp add: encode_char_def utf8_encode_def)

section \<open>What the runs are\<close>

text \<open>The reference: the values of a text, grouped by font from the right.\<close>

definition attach :: "nat option \<Rightarrow> 'a list \<Rightarrow> (nat option \<times> 'a list) list \<Rightarrow> (nat option \<times> 'a list) list" where
  "attach f p rs = (case rs of (g, q) # rest \<Rightarrow> if g = f then (f, p @ q) # rest else (f, p) # rs | [] \<Rightarrow> [(f, p)])"

primrec group_fonts :: "(nat \<Rightarrow> nat option) \<Rightarrow> nat list \<Rightarrow> (nat option \<times> nat list) list" where
  "group_fonts pick [] = []"
| "group_fonts pick (v # vs) = attach (pick v) [v] (group_fonts pick vs)"

definition encode_text :: "nat list \<Rightarrow> string" where
  "encode_text vs = concat (map encode_char vs)"

definition encode_run :: "nat option \<times> nat list \<Rightarrow> nat option \<times> string" where
  "encode_run r = (fst r, encode_text (snd r))"

lemma encode_text_simps [simp]:
  "encode_text [] = []" "encode_text (v # vs) = encode_char v @ encode_text vs" "encode_text (us @ vs) = encode_text us @ encode_text vs"
  by (simp_all add: encode_text_def)

lemma attach_encode: "map encode_run (attach f p rs) = attach f (encode_text p) (map encode_run rs)"
  by (cases rs) (auto simp: attach_def encode_run_def)

lemma attach_same: "attach f p (attach f q rs) = attach f (p @ q) rs"
  by (cases rs) (auto simp: attach_def)

lemma attach_other: "f \<noteq> g \<Longrightarrow> attach f p (attach g q rs) = (f, p) # attach g q rs"
  by (cases rs) (auto simp: attach_def)

lemma attach_parts:
  "concat (map snd (attach f p rs)) = p @ concat (map snd rs)"
  "p \<noteq> [] \<Longrightarrow> list_all (\<lambda>r. snd r \<noteq> []) rs \<Longrightarrow> list_all (\<lambda>r. snd r \<noteq> []) (attach f p rs)"
  "distinct_adj (map fst rs) \<Longrightarrow> distinct_adj (map fst (attach f p rs))"
  by (cases rs; auto simp: attach_def distinct_adj_Cons split: list.splits)+

text \<open>The same grouping over any text, by what the decoder takes in one step.\<close>

function decode_groups :: "(nat \<Rightarrow> nat option) \<Rightarrow> string \<Rightarrow> (nat option \<times> string) list" where
  "decode_groups pick s =
     (if s = [] then []
      else let (cp, r) = utf8_next s in attach (pick cp) (take (length s - length r) s) (decode_groups pick r))"
  by pat_completeness auto
termination
proof (relation "measure (\<lambda>(pick, s). length s)")
qed (use utf8_next_shorter in \<open>auto simp: prod_eq_iff\<close>)

declare decode_groups.simps [simp del]

lemma decode_step:
  assumes "s \<noteq> []" and "utf8_next s = (cp, r)" and "p = take (length s - length r) s"
  shows "p \<noteq> []" and "s = p @ r" and "length r < length s"
    and "decode_groups pick s = attach (pick cp) p (decode_groups pick r)"
    and "font_loop pick s cur part runs =
      (if pick cp \<noteq> cur then font_loop pick r (pick cp) p (push_run cur part runs) else font_loop pick r cur (part @ p) runs)"
proof -
  obtain q where q: "s = q @ r" using utf8_next_suffix [of s] assms(2) by auto
  show "length r < length s" using utf8_next_shorter [OF assms(1)] assms(2) by simp
  then show "p \<noteq> []" "s = p @ r" using q assms(3) by auto
  show "decode_groups pick s = attach (pick cp) p (decode_groups pick r)"
    using assms by (subst decode_groups.simps) simp
  show "font_loop pick s cur part runs =
      (if pick cp \<noteq> cur then font_loop pick r (pick cp) p (push_run cur part runs) else font_loop pick r cur (part @ p) runs)"
    using assms by (subst font_loop.simps) simp
qed

lemma font_loop_groups:
  "part \<noteq> [] \<Longrightarrow> font_loop pick s cur part runs = runs @ attach cur part (decode_groups pick s)"
proof (induction "length s" arbitrary: s cur part runs rule: less_induct)
  case less
  show ?case
  proof (cases "s = []")
    case True
    then show ?thesis using less.prems by (simp add: font_loop.simps decode_groups.simps attach_def push_run_def)
  next
    case False
    obtain cp r where u: "utf8_next s = (cp, r)" by (cases "utf8_next s") auto
    note step = decode_step [OF False u refl]
    show ?thesis using less.prems step(1)
      by (simp only: step(4,5) [of pick]) (simp add: less.hyps [OF step(3)] attach_same attach_other push_run_def)
  qed
qed

lemma pick_font_some: "fonts \<noteq> [] \<Longrightarrow> pick_font_for provides fonts cp \<noteq> None"
  by (cases fonts) (auto simp: pick_font_for_def split: option.split)

lemma text_runs_groups: "fonts \<noteq> [] \<Longrightarrow> text_runs provides fonts s = decode_groups (pick_font_for provides fonts) s"
proof (cases "s = []")
  case False
  assume f: "fonts \<noteq> []"
  obtain cp r where u: "utf8_next s = (cp, r)" by (cases "utf8_next s") auto
  note step = decode_step [OF False u refl]
  have "font_loop (pick_font_for provides fonts) s None [] [] = decode_groups (pick_font_for provides fonts) s"
    using step(1) by (simp only: step(4,5)) (simp add: pick_font_some [OF f] font_loop_groups push_run_def)
  then show ?thesis using f False by (simp add: text_runs_def)
qed (simp add: text_runs_def decode_groups.simps)

text \<open>No byte of a text is lost, whether it is well-formed or not, no run is empty, and neighbouring runs
  have different fonts.\<close>

lemma decode_groups_parts:
  "concat (map snd (decode_groups pick s)) = s \<and> list_all (\<lambda>r. snd r \<noteq> []) (decode_groups pick s) \<and> distinct_adj (map fst (decode_groups pick s))"
proof (induction "length s" arbitrary: s rule: less_induct)
  case less
  show ?case
  proof (cases "s = []")
    case False
    obtain cp r where u: "utf8_next s = (cp, r)" by (cases "utf8_next s") auto
    note step = decode_step [OF False u refl]
    show ?thesis using less.hyps [OF step(3)] step(1) step(2) [symmetric] by (simp add: step(4) attach_parts del: take_eq_Nil)
  qed (simp add: decode_groups.simps)
qed

lemma decode_groups_encode: "list_all scalar_value vs \<Longrightarrow> decode_groups pick (encode_text vs) = map encode_run (group_fonts pick vs)"
proof (induction vs)
  case (Cons v vs)
  then have u: "utf8_next (encode_text (v # vs)) = (v, encode_text vs)" by (simp add: utf8_next_encode)
  show ?case using Cons u by (subst decode_groups.simps) (simp add: attach_encode)
qed (simp add: decode_groups.simps)

text \<open>C29: A text is divided into its runs exactly: whatever its bytes are, the runs put together are the
  text, none is empty and neighbours differ in font; and a well-formed text is divided as its characters
  are when they are grouped by the first font that provides them (the first of all where none does), so
  no character is ever split.\<close>

theorem text_runs_exact:
  assumes "fonts \<noteq> []" and "list_all scalar_value vs"
  shows "concat (map snd (text_runs provides fonts s)) = s \<and> list_all (\<lambda>r. snd r \<noteq> []) (text_runs provides fonts s)
    \<and> distinct_adj (map fst (text_runs provides fonts s))
    \<and> text_runs provides fonts (encode_text vs) = map encode_run (group_fonts (pick_font_for provides fonts) vs)"
  using decode_groups_parts decode_groups_encode [OF assms(2)] by (simp add: text_runs_groups [OF assms(1)])

section \<open>The place of the runs\<close>

lemma place_runs_row:
  "list_all (\<lambda>p. 0 \<le> fst p \<and> snd p \<le> m) (sizes_of ss) \<Longrightarrow>
   list_all (\<lambda>(rx, ry, w, h). x \<le> rx \<and> rx + w \<le> x + sum_list (map fst (sizes_of ss)) \<and> 0 \<le> ry \<and> ry + h = m) (place_runs x m ss)
   \<and> sorted_wrt (\<lambda>(rx, _, w, _) (rx', _). rx + w \<le> rx') (place_runs x m ss)"
proof (induction x m ss rule: place_runs.induct)
  case (3 x m w h ss)
  have s: "sizes_of (Some (w, h) # ss) = (w, h) # sizes_of ss" by (simp add: sizes_of_def)
  have n: "0 \<le> sum_list (map fst (sizes_of ss))" using "3.prems" by (intro sum_list_nonneg) (auto simp: s list_all_iff)
  have "list_all (\<lambda>(rx, ry, w', h). x + w \<le> rx \<and> rx + w' \<le> x + w + sum_list (map fst (sizes_of ss)) \<and> 0 \<le> ry \<and> ry + h = m) (place_runs (x + w) m ss)
    \<and> sorted_wrt (\<lambda>(rx, _, w, _) (rx', _). rx + w \<le> rx') (place_runs (x + w) m ss)"
    using 3 by (simp add: s)
  then show ?case using "3.prems" n by (fastforce simp: s list_all_iff)
qed (simp_all add: sizes_of_def)

text \<open>What the decoder lets through: an overlong form, a surrogate and a value past the last character are
  decoded like any other sequence.\<close>

lemma decoder_accepts_malformed:
  "utf8_next [char_of (0xC0 :: nat), char_of (0xAF :: nat)] = (0x2F, [])"
  "utf8_next [char_of (0xED :: nat), char_of (0xA0 :: nat), char_of (0x80 :: nat)] = (0xD800, [])"
  "utf8_next [char_of (0xF7 :: nat), char_of (0xBF :: nat), char_of (0xBF :: nat), char_of (0xBF :: nat)] = (0x1FFFFF, [])"
  by (simp_all add: utf8_next_def decode_tail_numeral)

section \<open>Witnesses\<close>

theorem text_runs_exact_witness:
  "text_runs (\<lambda>f cp. f = 0 \<and> cp < 0x80 \<or> f = 1 \<and> 0x80 \<le> cp) [0, 1] (encode_text [0x41, 0x42, 0x65E5, 0x43])
     = map encode_run (group_fonts (pick_font_for (\<lambda>f cp. f = 0 \<and> cp < 0x80 \<or> f = 1 \<and> 0x80 \<le> cp) [0, 1]) [0x41, 0x42, 0x65E5, 0x43])
   \<and> map fst (group_fonts (pick_font_for (\<lambda>f cp. f = 0 \<and> cp < 0x80 \<or> f = 1 \<and> 0x80 \<le> cp) [0, 1]) [0x41, 0x42, 0x65E5, 0x43]) = [Some 0, Some 1, Some 0]"
  using text_runs_exact [of "[0, 1]" "[0x41, 0x42, 0x65E5, 0x43]" "\<lambda>f cp. f = 0 \<and> cp < 0x80 \<or> f = 1 \<and> 0x80 \<le> cp"]
  by (simp add: scalar_value_def attach_def pick_font_for_def)

end
