(* ===== verification/Window.thy ===== *)
theory Window
  imports MainLoop Renderer "HOL-Library.Signed_Division"
begin

text \<open>
  The window (src/video/video_renderer.cpp, \<open>VideoRenderer::run\<close>): where it opens, its resize handles, the
  keys and the layers they peel off, the settings that the user edits and the preferences that are
  published at the end of every frame, and the layout of the stage. What SDL and ImGui report about the
  window and the widgets are arguments; the drawing is left out.
\<close>

section \<open>The place of the window\<close>

record rect =
  rc_x :: int
  rc_y :: int
  rc_w :: int
  rc_h :: int

datatype coordinate = Centered | At int

definition toolbar_height :: int where
  "toolbar_height = 45"

definition clamp :: "int \<Rightarrow> int \<Rightarrow> int \<Rightarrow> int" where
  "clamp v lo hi = (if v < lo then lo else if hi < v then hi else v)"

text \<open>A display that shows the title bar of the stored window.\<close>

definition reachable :: "ui_preferences \<Rightarrow> rect \<Rightarrow> bool" where
  "reachable p b \<longleftrightarrow> rc_y b \<le> ui_y p \<and> ui_y p + toolbar_height \<le> rc_y b + rc_h b
     \<and> ui_x p + 100 \<le> rc_x b + rc_w b \<and> rc_x b \<le> ui_x p + ui_width p - 100"

fun first_reachable :: "ui_preferences \<Rightarrow> rect option list \<Rightarrow> rect option" where
  "first_reachable p [] = None"
| "first_reachable p (None # ds) = first_reachable p ds"
| "first_reachable p (Some b # ds) = (if reachable p b then Some b else first_reachable p ds)"

text \<open>The position and the size; the usable bounds of each display are None where SDL gives none.\<close>

definition place :: "ui_preferences \<Rightarrow> rect option list \<Rightarrow> coordinate \<times> coordinate \<times> int \<times> int" where
  "place p displays =
     (if \<not> ui_placed p then (Centered, Centered, 1220, 800)
      else case first_reachable p displays of
             Some b \<Rightarrow>
               (let w = min (ui_width p) (rc_w b); h = min (ui_height p) (rc_h b)
                in (At (clamp (ui_x p) (rc_x b) (rc_x b + rc_w b - w)), At (clamp (ui_y p) (rc_y b) (rc_y b + rc_h b - h)), w, h))
           | None \<Rightarrow>
               (case displays of
                  Some b # _ \<Rightarrow>
                    (let w = min (ui_width p) (rc_w b); h = min (ui_height p) (rc_h b)
                     in (At (rc_x b + (rc_w b - w) div 2), At (rc_y b + (rc_h b - h) div 2), w, h))
                | _ \<Rightarrow> (Centered, Centered, ui_width p, ui_height p)))"

definition inside :: "rect \<Rightarrow> rect \<Rightarrow> bool" where
  "inside r b \<longleftrightarrow> rc_x b \<le> rc_x r \<and> rc_x r + rc_w r \<le> rc_x b + rc_w b \<and> rc_y b \<le> rc_y r \<and> rc_y r + rc_h r \<le> rc_y b + rc_h b"

lemma first_reachable_in: "first_reachable p ds = Some b \<Longrightarrow> Some b \<in> set ds"
  by (induction ds rule: first_reachable.induct) (auto split: if_splits)

section \<open>The handles of the border\<close>

datatype hit = Hit_normal | Hit_draggable | Hit_resize bool bool bool bool

text \<open>The handle names the sides it moves: top, bottom, left, right. Opposite sides in a very small window
  count as the first of the two.\<close>

record hit_state =
  ht_w :: int
  ht_h :: int
  ht_fullscreen :: bool
  ht_maximized :: bool
  ht_chromeless :: bool

definition hit_test :: "hit_state \<Rightarrow> int \<Rightarrow> int \<Rightarrow> hit" where
  "hit_test h x y =
     (if ht_fullscreen h then Hit_normal
      else let b = (if ht_chromeless h then 10 else 6);
               resizable = \<not> ht_maximized h;
               upper = (resizable \<and> y < b);
               lower = (resizable \<and> ht_h h - b \<le> y);
               left = (resizable \<and> x < b);
               right = (resizable \<and> ht_w h - b \<le> x)
           in if upper \<and> left then Hit_resize True False True False
              else if upper \<and> right then Hit_resize True False False True
              else if lower \<and> left then Hit_resize False True True False
              else if lower \<and> right then Hit_resize False True False True
              else if upper then Hit_resize True False False False
              else if lower then Hit_resize False True False False
              else if left then Hit_resize False False True False
              else if right then Hit_resize False False False True
              else if ht_chromeless h \<or> (y < toolbar_height \<and> x < ht_w h - 144) then Hit_draggable
              else Hit_normal)"

lemma close_button_not_dragged:
  "\<not> ht_chromeless h \<Longrightarrow> ht_w h - 144 \<le> x \<Longrightarrow> x < ht_w h - 6 \<Longrightarrow> 6 \<le> y \<Longrightarrow> y < ht_h h - 6 \<Longrightarrow> 6 \<le> x \<Longrightarrow> hit_test h x y = Hit_normal"
  by (simp add: hit_test_def Let_def)

section \<open>The state of the window\<close>

record window =
  wn_fullscreen :: bool
  wn_chromeless :: bool
  wn_settings_open :: bool
  wn_diagnostics :: bool
  wn_page :: nat
  wn_was_connected :: bool
  wn_running :: bool
  wn_closed :: bool
  wn_prev_chromeless :: bool
  wn_prev_video :: "int \<times> int"
  wn_saved :: "int \<times> int"
  wn_saved_maximized :: bool
  wn_preferences :: ui_preferences
  wn_directory :: string
  wn_codec :: int
  wn_encoder :: int
  wn_bitrate :: int
  wn_live :: window_settings

definition buffer_of :: "nat \<Rightarrow> string \<Rightarrow> string" where
  "buffer_of n s = take (n - 1) s"

definition open_window :: "string \<Rightarrow> window_settings \<Rightarrow> window" where
  "open_window default_dir lv =
     (let p = lv_ui lv
      in \<lparr>wn_fullscreen = lv_fullscreen lv, wn_chromeless = lv_chromeless lv, wn_settings_open = False,
          wn_diagnostics = ui_diagnostics p, wn_page = 0, wn_was_connected = False, wn_running = True, wn_closed = False,
          wn_prev_chromeless = False, wn_prev_video = (0, 0), wn_saved = (0, 0), wn_saved_maximized = False,
          wn_preferences = p, wn_directory = buffer_of 1024 (if ui_directory p = [] then default_dir else ui_directory p),
          wn_codec = ui_codec p, wn_encoder = ui_encoder p, wn_bitrate = ui_bitrate p, wn_live = lv\<rparr>)"

text \<open>What is asked of SDL and of the recorder.\<close>

datatype window_call =
    Set_fullscreen bool
  | Set_minimum int int
  | Set_size int int
  | Center_window
  | Restore_window
  | Maximize_window
  | Snap_to_video
  | Snap_preserving_area
  | Toggle_recording

definition toggle_fullscreen :: "window \<Rightarrow> window_call list \<times> window" where
  "toggle_fullscreen s =
     (let f = \<not> wn_fullscreen s in ([Set_fullscreen f], s\<lparr>wn_fullscreen := f, wn_live := (wn_live s)\<lparr>lv_fullscreen := f\<rparr>\<rparr>))"

section \<open>Keys\<close>

datatype key = Key_escape | Key_f | Key_f11 | Key_h | Key_r | Key_other

record key_event =
  ke_key :: key
  ke_repeat :: bool
  ke_modified :: bool
  ke_text_input :: bool
  ke_captured :: bool

definition allow_key :: "key_event \<Rightarrow> bool" where
  "allow_key e =
     (if ke_key e \<in> {Key_f, Key_f11, Key_h, Key_r} then \<not> ke_text_input e \<and> \<not> ke_modified e else \<not> ke_captured e)"

definition press_key :: "key_event \<Rightarrow> window \<Rightarrow> window_call list \<times> window" where
  "press_key e s =
     (if ke_repeat e \<or> \<not> allow_key e then ([], s)
      else case ke_key e of
             Key_escape \<Rightarrow>
               (if wn_fullscreen s then toggle_fullscreen s
                else if wn_chromeless s then ([], s\<lparr>wn_chromeless := False\<rparr>)
                else if wn_settings_open s then ([], s\<lparr>wn_settings_open := False\<rparr>)
                else ([], s\<lparr>wn_closed := True, wn_running := False\<rparr>))
           | Key_f \<Rightarrow> toggle_fullscreen s
           | Key_f11 \<Rightarrow> toggle_fullscreen s
           | Key_h \<Rightarrow> ([], s\<lparr>wn_chromeless := \<not> wn_chromeless s\<rparr>)
           | Key_r \<Rightarrow> ([Toggle_recording], s)
           | Key_other \<Rightarrow> ([], s))"

definition layers :: "window \<Rightarrow> nat" where
  "layers s = (if wn_fullscreen s then 1 else 0) + (if wn_chromeless s then 1 else 0) + (if wn_settings_open s then 1 else 0)"

text \<open>Every press of Escape takes one layer away, and the next one closes the window.\<close>

lemma escape_peels:
  assumes "ke_key e = Key_escape" and "\<not> ke_repeat e" and "\<not> ke_captured e"
  shows "if layers s = 0 then wn_closed (snd (press_key e s)) \<and> \<not> wn_running (snd (press_key e s))
    else layers (snd (press_key e s)) + 1 = layers s"
  using assms by (auto simp: press_key_def allow_key_def layers_def toggle_fullscreen_def Let_def)

section \<open>Chromeless mode\<close>

text \<open>What SDL reports: the size, whether the window is maximised, and the size of the picture as shown.\<close>

record window_report =
  wr_size :: "int \<times> int"
  wr_position :: "int \<times> int"
  wr_maximized :: bool
  wr_minimized :: bool
  wr_video :: "int \<times> int"

definition chrome_step :: "window_report \<Rightarrow> window \<Rightarrow> window_call list \<times> window" where
  "chrome_step r s =
     (if wn_chromeless s \<noteq> wn_prev_chromeless s
      then let (calls, s1) =
                 (if wn_chromeless s \<and> \<not> wn_fullscreen s
                  then ((if wr_maximized r then [Restore_window] else []) @ [Snap_to_video],
                        s\<lparr>wn_saved_maximized := wr_maximized r, wn_saved := wr_size r\<rparr>)
                  else if \<not> wn_chromeless s \<and> 0 < fst (wn_saved s) \<and> 0 < snd (wn_saved s)
                  then (Set_size (fst (wn_saved s)) (snd (wn_saved s)) # (if wn_saved_maximized s then [Maximize_window] else []), s)
                  else ([], s))
           in ((if wn_chromeless s then Set_minimum 160 120 else Set_minimum 960 720) # calls,
               s1\<lparr>wn_prev_chromeless := wn_chromeless s, wn_live := (wn_live s1)\<lparr>lv_chromeless := wn_chromeless s\<rparr>,
                  wn_prev_video := wr_video r\<rparr>)
      else if wn_chromeless s \<and> wr_video r \<noteq> wn_prev_video s then ([Snap_preserving_area], s\<lparr>wn_prev_video := wr_video r\<rparr>)
      else ([], s))"

section \<open>Preferences and settings\<close>

definition publish_preferences :: "window_report \<Rightarrow> window \<Rightarrow> window" where
  "publish_preferences r s =
     (let cur = (wn_preferences s)\<lparr>ui_diagnostics := wn_diagnostics s, ui_directory := wn_directory s, ui_codec := wn_codec s,
                  ui_encoder := wn_encoder s, ui_bitrate := wn_bitrate s\<rparr>;
          cur1 = (if \<not> wn_fullscreen s \<and> \<not> wn_chromeless s \<and> \<not> wr_minimized r
                  then let c = cur\<lparr>ui_maximized := wr_maximized r\<rparr>
                       in if \<not> wr_maximized r
                          then c\<lparr>ui_x := fst (wr_position r), ui_y := snd (wr_position r), ui_width := fst (wr_size r),
                                 ui_height := snd (wr_size r), ui_placed := True\<rparr>
                          else c
                  else cur)
      in if cur1 \<noteq> wn_preferences s then s\<lparr>wn_preferences := cur1, wn_live := (wn_live s)\<lparr>lv_ui := cur1\<rparr>\<rparr> else s)"

definition presets :: "(int \<times> int) list" where
  "presets = [(1920, 1080), (2560, 1440), (1920, 1920), (2560, 2560), (2868, 2868), (3840, 3840), (3840, 2160)]"

text \<open>The edits of the settings drawer; a name is applied by its button or by Enter, the size fields are
  written while they are typed, the folder comes from a field of 1024 bytes.\<close>

datatype edit =
    Edit_name string
  | Edit_preset nat
  | Edit_size int int
  | Edit_hwaccel bool
  | Edit_vsync bool
  | Edit_hevc bool
  | Edit_fps int
  | Edit_rotation nat
  | Edit_directory string
  | Edit_codec nat
  | Edit_encoder nat
  | Edit_bitrate int
  | Edit_diagnostics bool
  | Reset_all "(int \<times> int) option" string window_report

definition edit_live :: "(window_settings \<Rightarrow> window_settings) \<Rightarrow> window \<Rightarrow> window" where
  "edit_live f s = s\<lparr>wn_live := f (wn_live s)\<rparr>"

definition reset_all :: "(int \<times> int) option \<Rightarrow> string \<Rightarrow> window_report \<Rightarrow> window \<Rightarrow> window" where
  "reset_all mode default_dir r s =
     (let dims = (case mode of
                    Some (w, h) \<Rightarrow> if 320 \<le> w \<and> 240 \<le> h \<and> w \<le> 7680 \<and> h \<le> 4320 then (w, h) else (2560, 1440)
                  | None \<Rightarrow> (2560, 1440));
          d = default_settings
      in publish_preferences r (s\<lparr>wn_live := (wn_live s)\<lparr>lv_name := se_name d, lv_width := fst dims, lv_height := snd dims, lv_hevc := se_hevc d,
              lv_max_fps := se_max_fps d, lv_refresh_rate := se_refresh d, lv_hwaccel := se_hwaccel d, lv_vsync := se_vsync d,
              lv_fullscreen := se_fullscreen d, lv_chromeless := se_chromeless d, lv_rotation := se_rotation d, lv_ui := se_ui d\<rparr>,
           wn_preferences := se_ui d, wn_directory := buffer_of 1024 default_dir, wn_codec := 0, wn_encoder := 0, wn_bitrate := 8,
           wn_diagnostics := ui_diagnostics (se_ui d), wn_chromeless := False, wn_prev_chromeless := False, wn_saved := (0, 0),
           wn_saved_maximized := False, wn_fullscreen := False\<rparr>))"

definition reset_calls :: "window_call list" where
  "reset_calls = [Set_fullscreen False, Restore_window, Set_minimum 960 720,
     Set_size (ui_width (se_ui default_settings)) (ui_height (se_ui default_settings)), Center_window]"

fun edit_calls :: "edit \<Rightarrow> window_call list" where
  "edit_calls (Reset_all mode dir r) = reset_calls"
| "edit_calls _ = []"

definition edit_name :: "string \<Rightarrow> window \<Rightarrow> window" where
  "edit_name typed s =
     (let n = normalize_receiver_name (buffer_of 51 typed) in if n \<noteq> [] \<and> n \<noteq> lv_name (wn_live s) then edit_live (\<lambda>l. l\<lparr>lv_name := n\<rparr>) s else s)"

definition edit_preset :: "nat \<Rightarrow> window \<Rightarrow> window" where
  "edit_preset i s =
     (if i < length presets then edit_live (\<lambda>l. l\<lparr>lv_width := fst (presets ! i), lv_height := snd (presets ! i)\<rparr>) s else s)"

definition edit_size :: "int \<Rightarrow> int \<Rightarrow> window \<Rightarrow> window" where
  "edit_size w h s =
     (let s1 = (if 320 \<le> w \<and> w \<le> 7680 then edit_live (\<lambda>l. l\<lparr>lv_width := w\<rparr>) s else s)
      in if 240 \<le> h \<and> h \<le> 4320 then edit_live (\<lambda>l. l\<lparr>lv_height := h\<rparr>) s1 else s1)"

definition edit_fps :: "int \<Rightarrow> window \<Rightarrow> window" where
  "edit_fps n s = edit_live (\<lambda>l. l\<lparr>lv_max_fps := n, lv_refresh_rate := n\<rparr>) s"

definition edit_rotation :: "nat \<Rightarrow> window \<Rightarrow> window" where
  "edit_rotation i s = edit_live (\<lambda>l. l\<lparr>lv_rotation := int i - 1\<rparr>) s"

fun apply_edit :: "edit \<Rightarrow> window \<Rightarrow> window" where
  "apply_edit (Edit_name typed) s = edit_name typed s"
| "apply_edit (Edit_preset i) s = edit_preset i s"
| "apply_edit (Edit_size w h) s = edit_size w h s"
| "apply_edit (Edit_hwaccel b) s = edit_live (\<lambda>l. l\<lparr>lv_hwaccel := b\<rparr>) s"
| "apply_edit (Edit_vsync b) s = edit_live (\<lambda>l. l\<lparr>lv_vsync := b\<rparr>) s"
| "apply_edit (Edit_hevc b) s = edit_live (\<lambda>l. l\<lparr>lv_hevc := b\<rparr>) s"
| "apply_edit (Edit_fps n) s = edit_fps n s"
| "apply_edit (Edit_rotation i) s = edit_rotation i s"
| "apply_edit (Edit_directory d) s = s\<lparr>wn_directory := buffer_of 1024 d\<rparr>"
| "apply_edit (Edit_codec i) s = s\<lparr>wn_codec := int i\<rparr>"
| "apply_edit (Edit_encoder i) s = s\<lparr>wn_encoder := int i\<rparr>"
| "apply_edit (Edit_bitrate n) s = s\<lparr>wn_bitrate := n\<rparr>"
| "apply_edit (Edit_diagnostics b) s = s\<lparr>wn_diagnostics := b\<rparr>"
| "apply_edit (Reset_all mode dir r) s = reset_all mode dir r s"

section \<open>The panels\<close>

text \<open>The page follows a device that comes or goes, as the panels are drawn; fullscreen and chromeless mode
  draw none.\<close>

definition follow_device :: "string option \<Rightarrow> window \<Rightarrow> window" where
  "follow_device kind s =
     (if wn_fullscreen s \<or> wn_chromeless s then s
      else let s1 = (if kind \<noteq> None \<and> \<not> wn_was_connected s then s\<lparr>wn_page := (if kind = Some ''Audio'' then 1 else 2)\<rparr> else s);
               s2 = (if kind = None \<and> wn_was_connected s1 then s1\<lparr>wn_page := 0\<rparr> else s1)
           in s2\<lparr>wn_was_connected := (kind \<noteq> None)\<rparr>)"

section \<open>The frames\<close>

datatype ui_event =
    Press key_event
  | Double_click bool
  | Quit_event
  | Edit edit
  | Hide_interface
  | Open_settings bool
  | Choose_page nat
  | Draw_panels "string option"
  | Chrome window_report
  | Frame_end window_report

fun ui_step :: "ui_event \<Rightarrow> window \<Rightarrow> window_call list \<times> window" where
  "ui_step (Press e) s = press_key e s"
| "ui_step (Double_click captured) s = (if captured then ([], s) else toggle_fullscreen s)"
| "ui_step Quit_event s = ([], s\<lparr>wn_closed := True, wn_running := False\<rparr>)"
| "ui_step (Edit e) s = (edit_calls e, apply_edit e s)"
| "ui_step Hide_interface s = ([], s\<lparr>wn_chromeless := True\<rparr>)"
| "ui_step (Open_settings b) s = ([], s\<lparr>wn_settings_open := b\<rparr>)"
| "ui_step (Choose_page n) s = ([], s\<lparr>wn_page := n\<rparr>)"
| "ui_step (Draw_panels kind) s = ([], follow_device kind s)"
| "ui_step (Chrome r) s = chrome_step r s"
| "ui_step (Frame_end r) s = ([], publish_preferences r s)"

definition run_ui :: "ui_event list \<Rightarrow> window \<Rightarrow> window" where
  "run_ui = fold (\<lambda>e s. snd (ui_step e s))"

section \<open>The stage\<close>

text \<open>The rectangle of the picture, inside the panels; \<open>notice\<close> is the height of the firewall banner.\<close>

definition diagnostics_height :: "int \<Rightarrow> int" where
  "diagnostics_height full_w =
     (let columns = clamp ((full_w - 20) div 300) 1 4; rows = (9 + columns - 1) div columns in rows * 24 + 8)"

definition stage_rect :: "bool \<Rightarrow> bool \<Rightarrow> bool \<Rightarrow> int \<Rightarrow> int \<Rightarrow> int \<Rightarrow> rect" where
  "stage_rect no_chrome diagnostics show_video notice full_w full_h =
     (let top_h = (if no_chrome then 0 else toolbar_height);
          bottom_h = (if no_chrome \<or> \<not> diagnostics then 0 else diagnostics_height full_w);
          left_w = (if no_chrome then 0 else 190);
          stage_w = max 0 (full_w - left_w);
          stage_h = max 0 (full_h - top_h - bottom_h);
          framed = (\<not> no_chrome \<and> show_video)
      in \<lparr>rc_x = left_w + (if framed then 42 else 0), rc_y = top_h + (if framed then 96 + notice else 0),
          rc_w = max 1 (stage_w - (if framed then 84 else 0)), rc_h = max 1 (stage_h - (if framed then 156 + notice else 0))\<rparr>)"

lemma stage_inside:
  assumes "960 \<le> w" and "720 \<le> h" and "0 \<le> notice" and "notice \<le> 150"
  shows "inside (stage_rect c d v notice w h) \<lparr>rc_x = 0, rc_y = 0, rc_w = w, rc_h = h\<rparr>"
proof -
  have "0 \<le> diagnostics_height w \<and> diagnostics_height w \<le> 80"
  proof -
    have k: "3 \<le> (w - 20) div 300" using assms(1) zdiv_mono1 [of 900 "w - 20" 300] by simp
    then have "clamp ((w - 20) div 300) 1 4 = 3 \<or> clamp ((w - 20) div 300) 1 4 = 4" by (auto simp: clamp_def)
    then show ?thesis by (auto simp: diagnostics_height_def Let_def)
  qed
  then show ?thesis using assms by (auto simp: stage_rect_def inside_def toolbar_height_def Let_def)
qed

text \<open>The picture stays while a device is there, because iOS sends no pictures of a screen that stands
  still.\<close>

definition show_video :: "bool \<Rightarrow> string option \<Rightarrow> bool \<Rightarrow> bool \<Rightarrow> bool" where
  "show_video texture kind fresh playing =
     (texture \<and> kind \<noteq> Some ''Audio'' \<and> (fresh \<or> kind \<noteq> None \<or> \<not> playing))"

definition rotation_degrees :: "int \<Rightarrow> int" where
  "rotation_degrees mode = (if 0 \<le> mode \<and> mode \<le> 3 then mode * 90 else 0)"

definition displayed_size :: "int \<Rightarrow> int \<times> int \<Rightarrow> int \<times> int" where
  "displayed_size mode v = (if rotation_degrees mode mod 180 \<noteq> 0 then (snd v, fst v) else v)"

text \<open>SDL rotates the rectangle about its centre, so its sides are swapped before.\<close>

definition rotated_target :: "int \<Rightarrow> rect \<Rightarrow> rect" where
  "rotated_target mode d =
     (if rotation_degrees mode mod 180 = 0 then d
      else \<lparr>rc_x = rc_x d + (rc_w d - rc_h d) sdiv 2, rc_y = rc_y d + (rc_h d - rc_w d) sdiv 2, rc_w = rc_h d, rc_h = rc_w d\<rparr>)"

section \<open>Valid settings\<close>

definition window_ok :: "window \<Rightarrow> bool" where
  "window_ok s \<longleftrightarrow> settings_ok (snapshot (wn_live s)) \<and> ui_ok (wn_preferences s) \<and> nl \<notin> set (wn_directory s)
     \<and> wn_codec s \<in> {0..1} \<and> wn_encoder s \<in> {0..2} \<and> wn_bitrate s \<in> {2..40}"

definition report_ok :: "window_report \<Rightarrow> bool" where
  "report_ok r \<longleftrightarrow> fst (wr_position r) \<in> {-100000..100000} \<and> snd (wr_position r) \<in> {-100000..100000}
     \<and> fst (wr_size r) \<in> {160..32768} \<and> snd (wr_size r) \<in> {160..32768}"

text \<open>The widgets keep to the ranges they show.\<close>

fun edit_ok :: "edit \<Rightarrow> bool" where
  "edit_ok (Edit_fps n) = (n \<in> {1..60})"
| "edit_ok (Edit_rotation i) = (i < 5)"
| "edit_ok (Edit_directory d) = (nl \<notin> set d)"
| "edit_ok (Edit_codec i) = (i < 2)"
| "edit_ok (Edit_encoder i) = (i < 3)"
| "edit_ok (Edit_bitrate n) = (n \<in> {2..40})"
| "edit_ok (Reset_all mode dir r) = (nl \<notin> set dir \<and> report_ok r)"
| "edit_ok _ = True"

fun event_ok :: "ui_event \<Rightarrow> bool" where
  "event_ok (Edit e) = edit_ok e"
| "event_ok (Frame_end r) = report_ok r"
| "event_ok _ = True"

definition live_ok :: "window_settings \<Rightarrow> bool" where
  "live_ok l \<longleftrightarrow> settings_ok (snapshot l)"

lemma live_ok_simps:
  "live_ok (l\<lparr>lv_fullscreen := b\<rparr>) = live_ok l" "live_ok (l\<lparr>lv_chromeless := b\<rparr>) = live_ok l"
  "live_ok (l\<lparr>lv_hwaccel := b\<rparr>) = live_ok l" "live_ok (l\<lparr>lv_vsync := b\<rparr>) = live_ok l" "live_ok (l\<lparr>lv_hevc := b\<rparr>) = live_ok l"
  by (simp_all add: live_ok_def settings_ok_def snapshot_def)

lemma live_ok_changes:
  assumes "live_ok l"
  shows "n \<noteq> [] \<Longrightarrow> normalize_receiver_name n = n \<Longrightarrow> live_ok (l\<lparr>lv_name := n\<rparr>)"
    and "w \<in> {320..7680} \<Longrightarrow> live_ok (l\<lparr>lv_width := w\<rparr>)"
    and "h \<in> {240..4320} \<Longrightarrow> live_ok (l\<lparr>lv_height := h\<rparr>)"
    and "c \<in> {1..60} \<Longrightarrow> live_ok (l\<lparr>lv_max_fps := c, lv_refresh_rate := c\<rparr>)"
    and "i < 5 \<Longrightarrow> live_ok (l\<lparr>lv_rotation := int i - 1\<rparr>)"
    and "ui_ok p \<Longrightarrow> live_ok (l\<lparr>lv_ui := p\<rparr>)"
  using assms by (auto simp: live_ok_def settings_ok_def snapshot_def)

lemma default_ui_ok: "ui_ok (se_ui default_settings)"
  using default_settings_ok by (simp add: settings_ok_def)

lemma reset_live_ok:
  assumes "w \<in> {320..7680}" and "h \<in> {240..4320}"
  shows "live_ok (l\<lparr>lv_name := se_name default_settings, lv_width := w, lv_height := h, lv_hevc := a, lv_max_fps := se_max_fps default_settings,
      lv_refresh_rate := se_refresh default_settings, lv_hwaccel := b, lv_vsync := c, lv_fullscreen := d, lv_chromeless := e,
      lv_rotation := se_rotation default_settings, lv_ui := se_ui default_settings\<rparr>)"
  using default_settings_ok assms by (simp add: live_ok_def settings_ok_def snapshot_def)

lemma window_ok_eq: "window_ok s \<longleftrightarrow> live_ok (wn_live s) \<and> ui_ok (wn_preferences s) \<and> nl \<notin> set (wn_directory s)
     \<and> wn_codec s \<in> {0..1} \<and> wn_encoder s \<in> {0..2} \<and> wn_bitrate s \<in> {2..40}"
  by (simp add: window_ok_def live_ok_def)

lemma buffer_clean: "nl \<notin> set d \<Longrightarrow> nl \<notin> set (buffer_of n d)"
  by (auto simp: buffer_of_def dest: in_set_takeD)

lemma presets_ok: "i < length presets \<Longrightarrow> fst (presets ! i) \<in> {320..7680} \<and> snd (presets ! i) \<in> {240..4320}"
proof -
  have "list_all (\<lambda>p. fst p \<in> {320..7680} \<and> snd p \<in> {240..4320}) presets" by (simp add: presets_def)
  then show "i < length presets \<Longrightarrow> fst (presets ! i) \<in> {320..7680} \<and> snd (presets ! i) \<in> {240..4320}" by (simp add: list_all_length)
qed

lemma publish_keeps:
  assumes "window_ok s" and "report_ok r"
  shows "window_ok (publish_preferences r s)"
proof -
  define cur where "cur = (wn_preferences s)\<lparr>ui_diagnostics := wn_diagnostics s, ui_directory := wn_directory s, ui_codec := wn_codec s,
      ui_encoder := wn_encoder s, ui_bitrate := wn_bitrate s\<rparr>"
  have c: "ui_ok cur" using assms(1) by (simp add: window_ok_eq ui_ok_def cur_def)
  then have m: "ui_ok (cur\<lparr>ui_maximized := b\<rparr>)" for b by (simp add: ui_ok_def)
  have p: "ui_ok (cur\<lparr>ui_maximized := b, ui_x := fst (wr_position r), ui_y := snd (wr_position r), ui_width := fst (wr_size r),
      ui_height := snd (wr_size r), ui_placed := True\<rparr>)" for b
    using c assms(2) by (simp add: ui_ok_def report_ok_def)
  show ?thesis
    using assms(1) c m p live_ok_changes(6) unfolding publish_preferences_def cur_def [symmetric] Let_def
    by (simp add: window_ok_eq)
qed

lemma edit_keeps:
  assumes "window_ok s" and "edit_ok e"
  shows "window_ok (apply_edit e s)"
proof (cases e)
  case (Edit_name typed)
  then show ?thesis using assms(1) live_ok_changes(1) by (simp add: window_ok_eq edit_name_def edit_live_def Let_def receiver_name_idempotent)
next
  case (Edit_preset i)
  then show ?thesis using assms(1) presets_ok live_ok_changes(2,3) by (simp add: window_ok_eq edit_preset_def edit_live_def)
next
  case (Edit_size w h)
  then show ?thesis using assms(1) live_ok_changes(2,3) by (simp add: window_ok_eq edit_size_def edit_live_def Let_def)
next
  case (Reset_all mode dir r)
  then have "report_ok r" using assms(2) by simp
  then show ?thesis unfolding Reset_all apply_edit.simps reset_all_def Let_def
    by (rule publish_keeps [rotated]) (use assms Reset_all default_ui_ok reset_live_ok buffer_clean in
      \<open>simp add: window_ok_eq split: option.split\<close>)
qed (use assms live_ok_changes buffer_clean live_ok_simps in \<open>simp_all add: window_ok_eq edit_fps_def edit_rotation_def edit_live_def\<close>)

lemma toggle_keeps: "window_ok s \<Longrightarrow> window_ok (snd (toggle_fullscreen s))"
  by (simp add: window_ok_eq toggle_fullscreen_def Let_def live_ok_simps)

lemma press_keeps: "window_ok s \<Longrightarrow> window_ok (snd (press_key e s))"
  using toggle_keeps [of s] by (auto simp: press_key_def window_ok_eq split: key.split)

lemma chrome_keeps: "window_ok s \<Longrightarrow> window_ok (snd (chrome_step r s))"
  by (simp add: chrome_step_def window_ok_eq Let_def split_def live_ok_simps)

lemma follow_keeps: "window_ok s \<Longrightarrow> window_ok (follow_device kind s)"
  by (simp add: follow_device_def window_ok_eq Let_def)

lemma ui_step_keeps: "window_ok s \<Longrightarrow> event_ok e \<Longrightarrow> window_ok (snd (ui_step e s))"
  using toggle_keeps press_keeps edit_keeps chrome_keeps publish_keeps follow_keeps
  by (cases e) (simp_all add: window_ok_eq)

lemma run_ui_keeps: "window_ok s \<Longrightarrow> list_all event_ok es \<Longrightarrow> window_ok (run_ui es s)"
  by (induction es arbitrary: s) (simp_all add: run_ui_def ui_step_keeps)

lemma open_window_ok:
  assumes "parse_arguments args (default_options (initial_size mode (load_settings file))) = Some o1" and "nl \<notin> set dir"
  shows "window_ok (open_window dir (seed_live (initial_size mode (load_settings file)) o1))"
proof -
  let ?s = "initial_size mode (load_settings file)"
  have f: "settings_ok (load_settings file)" by (rule load_ok)
  have u: "se_ui ?s = se_ui (load_settings file)" "se_rotation ?s = se_rotation (load_settings file)"
    by (auto simp: initial_size_def Let_def split: option.split)
  have o1: "options_ok o1" using arguments_ok [OF initial_size_ok [OF f] assms(1)] .
  have "live_ok (seed_live ?s o1)"
    using f o1 u by (simp add: live_ok_def settings_ok_def snapshot_def seed_live_def options_ok_def size_ok_def initial_size_others)
  moreover have "ui_ok (se_ui ?s)" using f u by (simp add: settings_ok_def)
  ultimately show ?thesis
    using assms(2) buffer_clean by (simp add: window_ok_eq open_window_def Let_def seed_live_def ui_ok_def)
qed

section \<open>Properties\<close>

text \<open>C28: What the user sets within the ranges of the widgets survives a restart: whatever the settings file
  held and the arguments said, and whatever the user then does in the window, the settings as they are saved
  are read back unchanged, as long as each edit keeps to its widget's range (1 to 60 frames a second, 2 to 40
  megabits, an entry of its list), the folders hold no line break and the window reports a place within
  100000 of the origin and sides from 160 to 32768. The sliders do not enforce their range on a number that
  is typed: such a value is saved, and replaced by the default when it is read.\<close>

theorem settings_survive_restart:
  assumes "parse_arguments args (default_options (initial_size mode (load_settings file))) = Some o1" and "nl \<notin> set dir"
    and "list_all event_ok es"
  shows "let s = run_ui es (open_window dir (seed_live (initial_size mode (load_settings file)) o1))
    in load_settings (Some (settings_text (snapshot (wn_live s)))) = snapshot (wn_live s)"
proof -
  have "window_ok (run_ui es (open_window dir (seed_live (initial_size mode (load_settings file)) o1)))"
    by (rule run_ui_keeps [OF open_window_ok [OF assms(1,2)] assms(3)])
  then show ?thesis by (simp add: Let_def window_ok_def load_written)
qed

text \<open>A window that is put at a place, and not left to the system to center, lies inside the usable part of
  one of the displays, whatever the stored placement is.\<close>

lemma placed_inside:
  assumes "place p displays = (At x, At y, w, h)"
  shows "\<exists>b. Some b \<in> set displays \<and> inside \<lparr>rc_x = x, rc_y = y, rc_w = w, rc_h = h\<rparr> b"
proof (cases "first_reachable p displays")
  case (Some b)
  then show ?thesis using assms first_reachable_in [OF Some]
    by (intro exI [of _ b]) (auto simp: place_def inside_def clamp_def Let_def split: if_splits)
next
  case None
  then obtain b ds where b: "displays = Some b # ds"
    using assms by (auto simp: place_def split: if_splits list.splits option.splits)
  have half: "0 \<le> d \<Longrightarrow> 0 \<le> d div 2 \<and> d div 2 \<le> d" for d :: int by auto
  show ?thesis using assms None b half [of "rc_w b - min (ui_width p) (rc_w b)"] half [of "rc_h b - min (ui_height p) (rc_h b)"]
    by (intro exI [of _ b]) (auto simp: place_def inside_def Let_def split: if_splits)
qed

section \<open>Witnesses\<close>

theorem settings_survive_restart_witness:
  "let s = run_ui [Edit (Edit_name ''Kitchen''), Edit (Edit_preset 6), Press \<lparr>ke_key = Key_h, ke_repeat = False, ke_modified = False,
       ke_text_input = False, ke_captured = False\<rparr>]
     (open_window ''C'' (seed_live (initial_size None (load_settings None)) (default_options (initial_size None (load_settings None)))))
   in load_settings (Some (settings_text (snapshot (wn_live s)))) = snapshot (wn_live s)"
  by (rule settings_survive_restart [where args = "[]"]) (simp_all add: nl_def)

end
