(* ===== verification/Decoder.thy ===== *)
theory Decoder
  imports Mirror
begin

text \<open>
  The video decoder (src/video/h264_decoder.cpp): the parsers of the configuration records that a phone
  sends (avcC, hvcC, bare or inside a sample entry), the opening of a codec with its fall-back to
  software, and the packets that are built for libavcodec. FFmpeg is a record of operations on a state
  of its own; a log of the packets is returned beside each result.
\<close>

section \<open>Configuration records\<close>

definition append_annexb_nal :: "bytes \<Rightarrow> bytes \<Rightarrow> bytes" where
  "append_annexb_nal dst nal = dst @ [0, 0, 0, 1] @ nal"

text \<open>A run of NAL units, each behind its length in two bytes.\<close>

fun take_nals :: "nat \<Rightarrow> bytes \<Rightarrow> (bytes list \<times> bytes) option" where
  "take_nals 0 s = Some ([], s)"
| "take_nals (Suc n) (a # b # s) =
     (let len = unat (be16 a b)
      in if length s < len then None
         else map_option (\<lambda>(nals, r). (take len s # nals, r)) (take_nals n (drop len s)))"
| "take_nals (Suc n) _ = None"

definition first_annexb :: "bytes list \<Rightarrow> bytes" where
  "first_annexb nals = (case nals of [] \<Rightarrow> [] | n # _ \<Rightarrow> append_annexb_nal [] n)"

definition parse_avcc :: "bytes \<Rightarrow> (bytes \<times> bytes) option" where
  "parse_avcc blob =
     (if length blob < 7 \<or> blob ! 0 \<noteq> 0x01 then None
      else let num_sps = unat (blob ! 5 AND 0x1f)
           in if num_sps < 1 then None
              else case take_nals num_sps (drop 6 blob) of
                     Some (spss, num_pps # r) \<Rightarrow>
                       (case take_nals (unat num_pps) r of
                          None \<Rightarrow> None
                        | Some (ppss, _) \<Rightarrow>
                            (let sps = first_annexb spss; pps = first_annexb ppss
                             in if sps \<noteq> [] \<and> pps \<noteq> [] then Some (sps, pps) else None))
                   | _ \<Rightarrow> None)"

record param_sets =
  ps_vps :: bytes
  ps_sps :: bytes
  ps_pps :: bytes

definition no_sets :: param_sets where
  "no_sets = \<lparr>ps_vps = [], ps_sps = [], ps_pps = []\<rparr>"

definition store_set :: "byte \<Rightarrow> bytes list \<Rightarrow> param_sets \<Rightarrow> param_sets" where
  "store_set t nals out =
     (case nals of
        [] \<Rightarrow> out
      | n # _ \<Rightarrow>
          (if t = 32 then out\<lparr>ps_vps := append_annexb_nal (ps_vps out) n\<rparr>
           else if t = 33 then out\<lparr>ps_sps := append_annexb_nal (ps_sps out) n\<rparr>
           else if t = 34 then out\<lparr>ps_pps := append_annexb_nal (ps_pps out) n\<rparr>
           else out))"

fun hvcc_arrays :: "nat \<Rightarrow> bytes \<Rightarrow> param_sets \<Rightarrow> param_sets option" where
  "hvcc_arrays 0 s out = Some out"
| "hvcc_arrays (Suc n) (t # hi # lo # s) out =
     (case take_nals (unat (be16 hi lo)) s of
        None \<Rightarrow> None
      | Some (nals, r) \<Rightarrow> hvcc_arrays n r (store_set (t AND 0x3f) nals out))"
| "hvcc_arrays (Suc n) _ out = None"

definition parse_hvcc :: "bytes \<Rightarrow> param_sets option" where
  "parse_hvcc blob =
     (if length blob < 23 \<or> blob ! 0 \<noteq> 0x01 then None
      else case hvcc_arrays (unat (blob ! 22)) (drop 23 blob) no_sets of
             None \<Rightarrow> None
           | Some out \<Rightarrow> if ps_vps out \<noteq> [] \<and> ps_sps out \<noteq> [] \<and> ps_pps out \<noteq> [] then Some out else None)"

text \<open>The content of the box whose type stands at \<open>i\<close>, if it has that type and lies inside the blob.\<close>

definition box_at :: "bytes \<Rightarrow> string \<Rightarrow> nat \<Rightarrow> bytes option" where
  "box_at blob fourcc i =
     (if substr blob i 4 = to_bytes fourcc
      then let box_size = unat (be32 (blob ! (i - 4)) (blob ! (i - 3)) (blob ! (i - 2)) (blob ! (i - 1)))
           in if 9 \<le> box_size \<and> i - 4 + box_size \<le> length blob then Some (substr blob (i + 4) (box_size - 8)) else None
      else None)"

fun first_some :: "'a option list \<Rightarrow> 'a option" where
  "first_some [] = None"
| "first_some (Some x # xs) = Some x"
| "first_some (None # xs) = first_some xs"

definition find_inner_config_box :: "bytes \<Rightarrow> bytes option" where
  "find_inner_config_box blob =
     first_some (concat (map (\<lambda>fourcc. map (box_at blob fourcc) [4..<length blob - 3]) [''avcC'', ''hvcC'']))"

section \<open>The decoder\<close>

datatype codec_id = Codec_h264 | Codec_hevc

datatype codec_context = No_context | Unopened codec_id | Opened codec_id bool

datatype pixel_layout = D3d11 | Yuv420p | Yuvj420p | Yuv422p | Yuvj422p | Yuv444p | Yuvj444p | Other_layout nat

record decoded =
  pc_width :: int
  pc_height :: int
  pc_hw :: bool
  pc_format :: pixel_layout
  pc_planes :: "(bytes \<times> int) option list"

datatype answer = Av_ok | Av_again | Av_eof | Av_error

text \<open>FFmpeg: which decoders there are, whether an allocation succeeds, whether a context opens (with the
  device of the renderer, or in software), and what comes of a packet.\<close>

record 'w libav =
  av_available :: "codec_id \<Rightarrow> bool"
  av_alloc :: "'w \<Rightarrow> bool \<times> 'w"
  av_open :: "codec_id \<Rightarrow> bool \<Rightarrow> 'w \<Rightarrow> bool \<times> 'w"
  av_send :: "codec_context \<Rightarrow> bytes \<Rightarrow> 'w \<Rightarrow> answer \<times> 'w"
  av_receive :: "codec_context \<Rightarrow> 'w \<Rightarrow> (answer \<times> decoded) \<times> 'w"

record 'w video_decoder =
  vd_context :: codec_context
  vd_codec :: codec_id
  vd_sets :: param_sets
  vd_width :: int
  vd_height :: int
  vd_yuv420 :: bool
  vd_frames :: u64
  vd_hwaccel :: bool
  vd_device :: bool
  vd_backend_hw :: bool
  vd_frame_hw :: bool
  vd_frame :: "decoded option"
  vd_lib :: 'w

text \<open>The choice of the output layout; \<open>accelerated\<close> says of a layout whether it is one of a device, if it
  is known at all.\<close>

definition get_hw_format_cb :: "(pixel_layout \<Rightarrow> bool option) \<Rightarrow> pixel_layout option \<Rightarrow> pixel_layout list \<Rightarrow> pixel_layout option" where
  "get_hw_format_cb accelerated wanted fmts =
     (case find (\<lambda>f. Some f = wanted) fmts of
        Some f \<Rightarrow> Some f
      | None \<Rightarrow> find (\<lambda>f. accelerated f = Some False) fmts)"

definition new_decoder :: "'w \<Rightarrow> 'w video_decoder" where
  "new_decoder w = \<lparr>vd_context = No_context, vd_codec = Codec_h264, vd_sets = no_sets, vd_width = 0, vd_height = 0,
     vd_yuv420 = False, vd_frames = 0, vd_hwaccel = False, vd_device = False, vd_backend_hw = False, vd_frame_hw = False,
     vd_frame = None, vd_lib = w\<rparr>"

definition alloc_context :: "'w libav \<Rightarrow> codec_id \<Rightarrow> 'w video_decoder \<Rightarrow> bool \<times> 'w video_decoder" where
  "alloc_context lib cd d =
     (let (ok, w) = av_alloc lib (vd_lib d) in (ok, d\<lparr>vd_context := (if ok then Unopened cd else No_context), vd_lib := w\<rparr>))"

definition open_context :: "'w libav \<Rightarrow> codec_id \<Rightarrow> bool \<Rightarrow> 'w video_decoder \<Rightarrow> bool \<times> 'w video_decoder" where
  "open_context lib cd hw d =
     (let (ok, w) = av_open lib cd hw (vd_lib d) in (ok, d\<lparr>vd_context := (if ok then Opened cd hw else vd_context d), vd_lib := w\<rparr>))"

definition open_software :: "'w libav \<Rightarrow> codec_id \<Rightarrow> 'w video_decoder \<Rightarrow> bool \<times> 'w video_decoder" where
  "open_software lib cd d =
     (let (ok, d1) = alloc_context lib cd d
      in if \<not> ok then (False, d1)
         else let (opened, d2) = open_context lib cd False d1
              in if opened then (True, d2\<lparr>vd_backend_hw := False\<rparr>) else (False, d2))"

definition open_codec :: "'w libav \<Rightarrow> codec_id \<Rightarrow> 'w video_decoder \<Rightarrow> bool \<times> 'w video_decoder" where
  "open_codec lib cd d =
     (let hw = (vd_hwaccel d \<and> vd_device d)
      in if \<not> av_available lib cd then (False, d)
         else let (ok, d1) = alloc_context lib cd (d\<lparr>vd_codec := cd\<rparr>)
              in if \<not> ok then (False, d1)
                 else let (opened, d2) = open_context lib cd hw (d1\<lparr>vd_backend_hw := hw\<rparr>)
                      in if opened then (True, d2) else if hw then open_software lib cd d2 else (False, d2))"

text \<open>\<open>device\<close>: the renderer has a decode device; \<open>referenced\<close>: a reference to it could be made.\<close>

definition init_decoder :: "'w libav \<Rightarrow> bool \<Rightarrow> bool \<Rightarrow> bool \<Rightarrow> 'w video_decoder \<Rightarrow> bool \<times> 'w video_decoder" where
  "init_decoder lib hwaccel device referenced d =
     (let (pkt, w1) = av_alloc lib (vd_lib d); (frame, w2) = av_alloc lib w1; d1 = d\<lparr>vd_lib := w2\<rparr>
      in if \<not> pkt \<or> \<not> frame then (False, d1)
         else let req = (hwaccel \<and> device)
              in open_codec lib Codec_h264 (d1\<lparr>vd_hwaccel := req, vd_device := req \<and> referenced\<rparr>))"

definition reopen_for_sps_change :: "'w libav \<Rightarrow> codec_id \<Rightarrow> 'w video_decoder \<Rightarrow> bool \<times> 'w video_decoder" where
  "reopen_for_sps_change lib cd d = (if vd_codec d = cd then (True, d) else open_codec lib cd d)"

definition use_sets :: "'w libav \<Rightarrow> codec_id \<Rightarrow> param_sets \<Rightarrow> 'w video_decoder \<Rightarrow> bool \<times> 'w video_decoder" where
  "use_sets lib cd ps d =
     (let (ok, d1) = reopen_for_sps_change lib cd d in if ok then (True, d1\<lparr>vd_sets := ps\<rparr>) else (False, d1))"

definition unwrap_config :: "bytes \<Rightarrow> bytes option" where
  "unwrap_config blob =
     (if length blob < 7 then None
      else case (if blob ! 0 \<noteq> 0x01 then find_inner_config_box blob else Some blob) of
             None \<Rightarrow> None
           | Some cfg \<Rightarrow> if cfg ! 0 \<noteq> 0x01 then None else Some cfg)"

definition set_parameter_sets_from_avcc :: "'w libav \<Rightarrow> bytes \<Rightarrow> 'w video_decoder \<Rightarrow> bool \<times> 'w video_decoder" where
  "set_parameter_sets_from_avcc lib blob d =
     (case unwrap_config blob of
        None \<Rightarrow> (False, d)
      | Some cfg \<Rightarrow>
          (case parse_avcc cfg of
             Some (sps, pps) \<Rightarrow> use_sets lib Codec_h264 \<lparr>ps_vps = [], ps_sps = sps, ps_pps = pps\<rparr> d
           | None \<Rightarrow>
               (case parse_hvcc cfg of
                  Some out \<Rightarrow> use_sets lib Codec_hevc out d
                | None \<Rightarrow> (False, d))))"

definition packet_of :: "bool \<Rightarrow> bytes \<Rightarrow> 'w video_decoder \<Rightarrow> bytes" where
  "packet_of is_idr nal d = (if is_idr then ps_vps (vd_sets d) @ ps_sps (vd_sets d) @ ps_pps (vd_sets d) else []) @ nal"

record decode_result =
  dr_ok :: bool
  dr_got :: bool
  dr_width :: int
  dr_height :: int

definition no_picture :: "bool \<Rightarrow> decode_result" where
  "no_picture ok = \<lparr>dr_ok = ok, dr_got = False, dr_width = 0, dr_height = 0\<rparr>"

definition note_picture :: "decoded \<Rightarrow> 'w video_decoder \<Rightarrow> 'w video_decoder" where
  "note_picture p d =
     d\<lparr>vd_width := pc_width p, vd_height := pc_height p, vd_frame_hw := pc_hw p,
       vd_yuv420 := (\<not> pc_hw p \<and> (pc_format p = Yuv420p \<or> pc_format p = Yuvj420p)),
       vd_frame := Some p, vd_frames := vd_frames d + 1\<rparr>"

text \<open>The first component is what was handed to \<open>avcodec_send_packet\<close>.\<close>

definition decode :: "'w libav \<Rightarrow> bytes \<Rightarrow> bool \<Rightarrow> 'w video_decoder \<Rightarrow> bytes list \<times> decode_result \<times> 'w video_decoder" where
  "decode lib nal is_idr d =
     (if vd_context d = No_context \<or> nal = [] then ([], no_picture False, d)
      else let packet = packet_of is_idr nal d;
               (sent, w1) = av_send lib (vd_context d) packet (vd_lib d);
               d1 = d\<lparr>vd_lib := w1\<rparr>
           in if sent \<noteq> Av_ok \<and> sent \<noteq> Av_again then ([packet], no_picture False, d1)
              else let ((got, p), w2) = av_receive lib (vd_context d) w1; d2 = d1\<lparr>vd_lib := w2\<rparr>
                   in case got of
                        Av_ok \<Rightarrow>
                          ([packet], \<lparr>dr_ok = True, dr_got = True, dr_width = pc_width p, dr_height = pc_height p\<rparr>, note_picture p d2)
                      | Av_error \<Rightarrow> ([packet], no_picture False, d2\<lparr>vd_frame := None\<rparr>)
                      | _ \<Rightarrow> ([packet], no_picture True, d2\<lparr>vd_frame := None\<rparr>))"

definition is_hevc :: "'w video_decoder \<Rightarrow> bool" where
  "is_hevc d \<longleftrightarrow> vd_codec d = Codec_hevc"

text \<open>None inside is a frame that the last call of \<open>avcodec_receive_frame\<close> has emptied.\<close>

definition current_avframe :: "'w video_decoder \<Rightarrow> decoded option option" where
  "current_avframe d = (if vd_width d = 0 then None else Some (vd_frame d))"

definition last_frame_yuv :: "'w video_decoder \<Rightarrow> ((bytes \<times> int) list \<times> int \<times> int) option" where
  "last_frame_yuv d =
     (if \<not> vd_yuv420 d \<or> vd_width d = 0 \<or> vd_frame_hw d then None
      else case vd_frame d of
             Some p \<Rightarrow>
               (case pc_planes p of
                  Some py # Some pu # Some pv # _ \<Rightarrow> Some ([py, pu, pv], vd_width d, vd_height d)
                | _ \<Rightarrow> None)
           | None \<Rightarrow> None)"

text \<open>The diagnostic dump; \<open>scale\<close> is swscale, which gets the picture, its layout without the range, the
  range and the size, and gives the pixels unless it has no converter.\<close>

definition full_range :: "pixel_layout \<Rightarrow> pixel_layout \<times> bool" where
  "full_range l =
     (case l of Yuvj420p \<Rightarrow> (Yuv420p, True) | Yuvj422p \<Rightarrow> (Yuv422p, True) | Yuvj444p \<Rightarrow> (Yuv444p, True) | _ \<Rightarrow> (l, False))"

definition dump_last_frame_ppm ::
  "(decoded \<Rightarrow> pixel_layout \<Rightarrow> bool \<Rightarrow> int \<Rightarrow> int \<Rightarrow> string option) \<Rightarrow> bool \<Rightarrow> 'w video_decoder \<Rightarrow> string option" where
  "dump_last_frame_ppm scale writable d =
     (if vd_width d = 0 then None
      else case vd_frame d of
             None \<Rightarrow> None
           | Some p \<Rightarrow>
               (if vd_frame_hw d \<and> pc_format p = D3d11 \<or> pc_width p \<le> 0 \<or> pc_height p \<le> 0 then None
                else case scale p (fst (full_range (pc_format p))) (snd (full_range (pc_format p))) (vd_width d) (vd_height d) of
                       None \<Rightarrow> None
                     | Some rgb \<Rightarrow>
                         (if \<not> writable then None
                          else Some (''P6'' @ [nl] @ show_int (vd_width d) @ '' '' @ show_int (vd_height d) @ [nl] @ ''255'' @ [nl] @ rgb))))"

section \<open>Opening\<close>

lemma get_hw_format_member: "get_hw_format_cb acc wanted fmts = Some f \<Longrightarrow> f \<in> set fmts"
  by (auto simp: get_hw_format_cb_def find_Some_iff split: option.splits)

text \<open>A library that has both codecs, does not run out of memory and opens them in software; with the
  device it may fail.\<close>

definition software_opens :: "'w libav \<Rightarrow> bool" where
  "software_opens lib \<longleftrightarrow> (\<forall>cd. av_available lib cd) \<and> (\<forall>w. fst (av_alloc lib w)) \<and> (\<forall>cd w. fst (av_open lib cd False w))"

lemma open_codec_opens:
  assumes "software_opens lib"
  obtains d1 where "open_codec lib cd d = (True, d1)" and "vd_codec d1 = cd" and "vd_sets d1 = vd_sets d" and "\<exists>hw. vd_context d1 = Opened cd hw"
proof -
  have l: "av_available lib cd" "\<And>w. fst (av_alloc lib w)" "\<And>w. fst (av_open lib cd False w)"
    using assms by (auto simp: software_opens_def)
  have "fst (open_codec lib cd d) \<and> vd_codec (snd (open_codec lib cd d)) = cd \<and> vd_sets (snd (open_codec lib cd d)) = vd_sets d
      \<and> (\<exists>hw. vd_context (snd (open_codec lib cd d)) = Opened cd hw)"
    using l by (auto simp: open_codec_def open_software_def alloc_context_def open_context_def Let_def split_def)
  then show thesis using that [of "snd (open_codec lib cd d)"] by (cases "open_codec lib cd d") auto
qed

text \<open>A codec that could not be opened is taken for the one in use all the same: the next
  configuration of the same codec is accepted without another attempt.\<close>

lemma failed_switch_not_retried:
  assumes "av_available lib cd" and "\<not> fst (open_codec lib cd d)"
  shows "reopen_for_sps_change lib cd (snd (open_codec lib cd d)) = (True, snd (open_codec lib cd d))
    \<and> (\<nexists>hw. vd_context (snd (open_codec lib cd d)) = Opened cd hw)"
  using assms by (auto simp: open_codec_def open_software_def alloc_context_def open_context_def reopen_for_sps_change_def
      Let_def split_def split: if_splits)

section \<open>What a sender encodes\<close>

definition put_nal :: "bytes \<Rightarrow> bytes" where
  "put_nal n = put_be16 (word_of_nat (length n)) @ n"

definition put_nals :: "bytes list \<Rightarrow> bytes" where
  "put_nals ns = concat (map put_nal ns)"

definition short :: "bytes list \<Rightarrow> bool" where
  "short = list_all (\<lambda>n. length n < 65536)"

lemma take_nals_put: "short ns \<Longrightarrow> take_nals (length ns) (put_nals ns @ r) = Some (ns, r)"
proof (induction ns)
  case (Cons n ns)
  then have "unat (word_of_nat (length n) :: u16) = length n" by (simp add: short_def unat_of_nat)
  then show ?case using Cons by (simp add: put_nals_def put_nal_def put_be16_def short_def)
qed (simp add: put_nals_def)

datatype video_config =
    Avc bytes "bytes list" "bytes list" bytes
  | Hevc bytes bytes "(byte \<times> bytes list) list" bytes

text \<open>The profile bytes, the sets and what follows them; for HEVC the arrays with their types.\<close>

definition put_array :: "byte \<times> bytes list \<Rightarrow> bytes" where
  "put_array a = fst a # put_be16 (word_of_nat (length (snd a))) @ put_nals (snd a)"

fun config_record :: "video_config \<Rightarrow> bytes" where
  "config_record (Avc profile spss ppss rest) =
     [1] @ profile @ [0xE0 OR word_of_nat (length spss)] @ put_nals spss @ [word_of_nat (length ppss)] @ put_nals ppss @ rest"
| "config_record (Hevc profile constraints arrays rest) =
     [1] @ profile @ constraints @ [word_of_nat (length arrays)] @ concat (map put_array arrays) @ rest"

fun config_ok :: "video_config \<Rightarrow> bool" where
  "config_ok (Avc profile spss ppss rest) =
     (length profile = 4 \<and> spss \<noteq> [] \<and> length spss < 32 \<and> short spss \<and> ppss \<noteq> [] \<and> length ppss < 256 \<and> short ppss)"
| "config_ok (Hevc profile constraints arrays rest) =
     (length profile = 4 \<and> length constraints = 17 \<and> constraints ! 0 AND 0x1f = 0 \<and> length arrays < 256
      \<and> list_all (\<lambda>a. length (snd a) < 65536 \<and> short (snd a)) arrays
      \<and> (\<forall>t \<in> {32, 33, 34}. list_ex (\<lambda>a. fst a AND 0x3f = t \<and> snd a \<noteq> []) arrays))"

definition sets_of_type :: "byte \<Rightarrow> (byte \<times> bytes list) list \<Rightarrow> bytes list" where
  "sets_of_type t arrays = concat (map snd (filter (\<lambda>a. fst a AND 0x3f = t) arrays))"

text \<open>All parameter sets of a configuration, in Annex-B form: what must precede a key frame. For HEVC those
  of the stream come before the sequence and the picture sets, whatever the order of the arrays.\<close>

fun config_sets :: "video_config \<Rightarrow> bytes" where
  "config_sets (Avc profile spss ppss rest) = annexb_encode (spss @ ppss)"
| "config_sets (Hevc profile constraints arrays rest) =
     annexb_encode (sets_of_type 32 arrays @ sets_of_type 33 arrays @ sets_of_type 34 arrays)"

text \<open>The decoder keeps the first set of each list only.\<close>

definition first_of_type :: "byte \<Rightarrow> (byte \<times> bytes list) list \<Rightarrow> bytes" where
  "first_of_type t arrays = annexb_encode (map (hd \<circ> snd) (filter (\<lambda>a. fst a AND 0x3f = t \<and> snd a \<noteq> []) arrays))"

fun kept_sets :: "video_config \<Rightarrow> bytes" where
  "kept_sets (Avc profile spss ppss rest) = annexb_encode [hd spss, hd ppss]"
| "kept_sets (Hevc profile constraints arrays rest) = first_of_type 32 arrays @ first_of_type 33 arrays @ first_of_type 34 arrays"

text \<open>A configuration with one sequence set and one picture set, as phones send it; for HEVC with at most
  one set in each array.\<close>

fun single_sets :: "video_config \<Rightarrow> bool" where
  "single_sets (Avc profile spss ppss rest) = (length spss = 1 \<and> length ppss = 1)"
| "single_sets (Hevc profile constraints arrays rest) = list_all (\<lambda>a. fst a AND 0x3f \<in> {32, 33, 34} \<longrightarrow> length (snd a) \<le> 1) arrays"

lemma annexb_append: "annexb_encode (xs @ ys) = annexb_encode xs @ annexb_encode ys"
  by (simp add: annexb_encode_def)

lemma single_of_type:
  "list_all (\<lambda>a. fst a AND 0x3f = t \<longrightarrow> length (snd a) \<le> 1) arrays \<Longrightarrow> first_of_type t arrays = annexb_encode (sets_of_type t arrays)"
proof (induction arrays)
  case (Cons a arrays)
  then have IH: "first_of_type t arrays = annexb_encode (sets_of_type t arrays)" by simp
  consider "fst a AND 0x3f \<noteq> t" | "fst a AND 0x3f = t" "snd a = []" | n where "fst a AND 0x3f = t" "snd a = [n]"
    using Cons.prems by (cases "snd a") auto
  then show ?case
    by cases (use IH in \<open>simp_all add: first_of_type_def sets_of_type_def annexb_encode_def\<close>)
qed (simp add: first_of_type_def sets_of_type_def annexb_encode_def)

lemma single_kept: "single_sets c \<Longrightarrow> kept_sets c = config_sets c"
proof (cases c)
  case (Avc profile spss ppss rest)
  assume "single_sets c"
  then have "spss = [hd spss]" "ppss = [hd ppss]" using Avc by (auto simp: length_Suc_conv)
  then show ?thesis using Avc by (metis append_Cons append_Nil config_sets.simps(1) kept_sets.simps(1))
next
  case (Hevc profile constraints arrays rest)
  assume "single_sets c"
  then have "list_all (\<lambda>a. fst a AND 0x3f = t \<longrightarrow> length (snd a) \<le> 1) arrays" if "t \<in> {32, 33, 34}" for t
    using Hevc that by (auto simp: list_all_iff)
  then show ?thesis using single_of_type Hevc by (simp add: annexb_append)
qed

text \<open>A record is sent bare or inside a box with its type in a sample entry.\<close>

fun config_type :: "video_config \<Rightarrow> string" where
  "config_type (Avc _ _ _ _) = ''avcC''"
| "config_type (Hevc _ _ _ _) = ''hvcC''"

definition wrap_config :: "(bytes \<times> bytes) option \<Rightarrow> video_config \<Rightarrow> bytes" where
  "wrap_config entry c =
     (case entry of
        None \<Rightarrow> config_record c
      | Some (before, after) \<Rightarrow>
          before @ put_be32 (word_of_nat (8 + length (config_record c))) @ to_bytes (config_type c) @ config_record c @ after)"

definition wrap_ok :: "(bytes \<times> bytes) option \<Rightarrow> video_config \<Rightarrow> bool" where
  "wrap_ok entry c \<longleftrightarrow> config_ok c \<and>
     (case entry of
        None \<Rightarrow> True
      | Some (before, after) \<Rightarrow>
          before \<noteq> [] \<and> hd before \<noteq> 1 \<and> 8 + length (config_record c) < 2 ^ 32
          \<and> find_str (to_bytes (config_type c)) (wrap_config entry c) = Some (length before + 4)
          \<and> (case c of Hevc _ _ _ _ \<Rightarrow> find_str (to_bytes ''avcC'') (wrap_config entry c) = None | _ \<Rightarrow> True))"

section \<open>The parsers read what was encoded\<close>

lemma length_put_be16 [simp]: "length (put_be16 v) = 2"
  by (simp add: put_be16_def)

lemma first_annexb_hd: "ns \<noteq> [] \<Longrightarrow> first_annexb ns = [0, 0, 0, 1] @ hd ns"
  by (cases ns) (simp_all add: first_annexb_def append_annexb_nal_def)

lemma five_bits:
  assumes "n < 32"
  shows "unat ((0xE0 OR word_of_nat n :: byte) AND 0x1f) = n"
proof -
  have "(0xE0 OR word_of_nat n :: byte) AND 0x1f = take_bit 5 (word_of_nat n)"
    by (simp add: word_ao_dist take_bit_eq_mask mask_eq_exp_minus_1)
  then show ?thesis using assms by (simp add: unsigned_take_bit_eq unat_of_nat take_bit_nat_eq_self)
qed

lemma length_4E:
  assumes "length xs = 4"
  obtains a b c d where "xs = [a, b, c, d]"
  using assms by (auto simp: length_Suc_conv numeral_eq_Suc)

lemma parse_avcc_record:
  assumes "config_ok (Avc profile spss ppss rest)"
  shows "parse_avcc (config_record (Avc profile spss ppss rest)) = Some ([0, 0, 0, 1] @ hd spss, [0, 0, 0, 1] @ hd ppss)"
proof -
  obtain a b c d where p: "profile = [a, b, c, d]" using assms by (auto elim: length_4E)
  have sps: "take_nals (length spss) (put_nals spss @ r) = Some (spss, r)" for r using assms by (simp add: take_nals_put)
  have pps: "take_nals (length ppss) (put_nals ppss @ r) = Some (ppss, r)" for r using assms by (simp add: take_nals_put)
  have n: "1 \<le> length spss" "length spss < 32" using assms by (auto simp: Suc_le_eq)
  have m: "unat (word_of_nat (length ppss) :: byte) = length ppss" using assms by (simp add: unat_of_nat)
  show ?thesis using assms n
    by (simp add: parse_avcc_def p five_bits sps m pps first_annexb_hd Let_def)
qed

lemma put_nal_length: "2 \<le> length (put_nal n)"
  by (simp add: put_nal_def)

lemma hvcc_not_avcc:
  "config_ok (Hevc profile constraints arrays rest) \<Longrightarrow> parse_avcc (config_record (Hevc profile constraints arrays rest)) = None"
  by (cases constraints) (auto elim!: length_4E simp: parse_avcc_def)

definition store_arrays :: "(byte \<times> bytes list) list \<Rightarrow> param_sets \<Rightarrow> param_sets" where
  "store_arrays arrays out = fold (\<lambda>a. store_set (fst a AND 0x3f) (snd a)) arrays out"

lemma hvcc_arrays_put:
  "list_all (\<lambda>a. length (snd a) < 65536 \<and> short (snd a)) arrays \<Longrightarrow>
   hvcc_arrays (length arrays) (concat (map put_array arrays) @ rest) out = Some (store_arrays arrays out)"
proof (induction arrays arbitrary: out)
  case (Cons a arrays)
  then have "unat (word_of_nat (length (snd a)) :: u16) = length (snd a)" by (simp add: unat_of_nat)
  then show ?case using Cons by (simp add: put_array_def put_be16_def take_nals_put store_arrays_def)
qed (simp add: store_arrays_def)

lemma store_arrays_sets:
  "ps_vps (store_arrays arrays out) = ps_vps out @ first_of_type 32 arrays"
  "ps_sps (store_arrays arrays out) = ps_sps out @ first_of_type 33 arrays"
  "ps_pps (store_arrays arrays out) = ps_pps out @ first_of_type 34 arrays"
proof (induction arrays arbitrary: out)
  case Nil
  case 1 show ?case by (simp add: store_arrays_def first_of_type_def annexb_encode_def)
  case 2 show ?case by (simp add: store_arrays_def first_of_type_def annexb_encode_def)
  case 3 show ?case by (simp add: store_arrays_def first_of_type_def annexb_encode_def)
next
  case (Cons a arrays)
  have s: "store_arrays (a # arrays) out = store_arrays arrays (store_set (fst a AND 0x3f) (snd a) out)" for out
    by (simp add: store_arrays_def)
  case 1 show ?case using Cons(1) by (cases "snd a") (auto simp: s store_set_def append_annexb_nal_def first_of_type_def annexb_encode_def)
  case 2 show ?case using Cons(2) by (cases "snd a") (auto simp: s store_set_def append_annexb_nal_def first_of_type_def annexb_encode_def)
  case 3 show ?case using Cons(3) by (cases "snd a") (auto simp: s store_set_def append_annexb_nal_def first_of_type_def annexb_encode_def)
qed

lemma first_of_type_nonempty:
  "list_ex (\<lambda>a. fst a AND 0x3f = t \<and> snd a \<noteq> []) arrays \<Longrightarrow> first_of_type t arrays \<noteq> []"
  by (induction arrays) (auto simp: first_of_type_def annexb_encode_def)

lemma parse_hvcc_record:
  assumes "config_ok (Hevc profile constraints arrays rest)"
  shows "parse_hvcc (config_record (Hevc profile constraints arrays rest))
    = Some \<lparr>ps_vps = first_of_type 32 arrays, ps_sps = first_of_type 33 arrays, ps_pps = first_of_type 34 arrays\<rparr>"
proof -
  let ?blob = "config_record (Hevc profile constraints arrays rest)"
  have l: "length profile = 4" "length constraints = 17" using assms by simp_all
  have e: "?blob = (1 # profile @ constraints) @ word_of_nat (length arrays) # concat (map put_array arrays) @ rest" by simp
  have d: "?blob ! 22 = word_of_nat (length arrays)" "drop 23 ?blob = concat (map put_array arrays) @ rest"
    using l unfolding e by (simp_all add: nth_append)
  have n: "unat (word_of_nat (length arrays) :: byte) = length arrays" using assms by (simp add: unat_of_nat)
  have "hvcc_arrays (length arrays) (concat (map put_array arrays) @ rest) no_sets = Some (store_arrays arrays no_sets)"
    using assms by (simp add: hvcc_arrays_put)
  moreover have "23 \<le> length ?blob" using l by simp
  ultimately show ?thesis
    using assms unfolding parse_hvcc_def d n
    by (simp add: store_arrays_sets first_of_type_nonempty no_sets_def param_sets.equality)
qed

text \<open>The box of the record is the first of its type in the entry.\<close>

lemma first_some_skip: "list_all (\<lambda>x. x = None) xs \<Longrightarrow> first_some (xs @ ys) = first_some ys"
  by (induction xs) auto

lemma first_some_upt:
  assumes "f k = Some b" and "a \<le> k" and "k < m" and "\<And>j. a \<le> j \<Longrightarrow> j < k \<Longrightarrow> f j = None"
  shows "first_some (map f [a..<m] @ ys) = Some b"
proof -
  have "[a..<m] = [a..<k] @ k # [Suc k..<m]"
    using assms(2,3) by (metis less_imp_le_nat upt_add_eq_append upt_conv_Cons le_add_diff_inverse)
  moreover have "list_all (\<lambda>x. x = None) (map f [a..<k])" using assms(4) by (auto simp: list_all_iff)
  ultimately show ?thesis using assms(1) by (simp add: first_some_skip)
qed

lemma no_box_before:
  assumes "length fourcc = 4" and "\<not> prefix (to_bytes fourcc) (drop j blob)"
  shows "box_at blob fourcc j = None"
  using assms by (simp add: box_at_def substr_def prefix_iff_take)

lemma wrapped_box:
  assumes "blob = before @ put_be32 (word_of_nat (8 + length cfg)) @ to_bytes fourcc @ cfg @ after"
    and "length fourcc = 4" and "cfg \<noteq> []" and "8 + length cfg < 2 ^ 32"
  shows "box_at blob fourcc (length before + 4) = Some cfg"
proof -
  define v :: u32 where "v = word_of_nat (8 + length cfg)"
  obtain a b c d where q: "put_be32 v = [a, b, c, d]" by (simp add: put_be32_def)
  then have "be32 a b c d = v" using put_be32_nth [of v] by (simp add: numeral_2_eq_2 numeral_3_eq_3)
  then have n: "unat (be32 a b c d) = 8 + length cfg" using assms(4) by (simp add: v_def unat_of_nat del: of_nat_add)
  have at: "blob ! length before = a" "blob ! (length before + 1) = b" "blob ! (length before + 2) = c" "blob ! (length before + 3) = d"
    by (simp_all add: assms(1) v_def [symmetric] q nth_append del: of_nat_add)
  have "substr blob (length before + 4) 4 = to_bytes fourcc" "substr blob (length before + 8) (length cfg) = cfg"
    using assms(2) by (simp_all add: assms(1) v_def [symmetric] q substr_def del: of_nat_add)
  moreover have "length blob = length before + 8 + length cfg + length after" using assms(2) by (simp add: assms(1) v_def [symmetric] q del: of_nat_add)
  moreover have "1 \<le> length cfg" using assms(3) by (cases cfg) auto
  ultimately show ?thesis using at n by (simp add: box_at_def numeral_eq_Suc)
qed

lemma config_record_head: "config_ok c \<Longrightarrow> 7 \<le> length (config_record c) \<and> config_record c ! 0 = 1"
proof (cases c)
  case (Avc profile spss ppss rest)
  assume ok: "config_ok c"
  then obtain n ns where "spss = n # ns" using Avc by (cases spss) auto
  then show ?thesis using Avc ok put_nal_length [of n] by (simp add: put_nals_def)
qed simp_all

lemma unwrap_wrapped:
  assumes "wrap_ok entry c"
  shows "unwrap_config (wrap_config entry c) = Some (config_record c)"
proof (cases entry)
  case None
  then show ?thesis using assms config_record_head [of c] by (simp add: wrap_ok_def wrap_config_def unwrap_config_def)
next
  case (Some p)
  obtain before after where p: "p = (before, after)" by (cases p)
  let ?blob = "wrap_config entry c" and ?type = "config_type c"
  have ok: "config_ok c" "before \<noteq> []" "hd before \<noteq> 1" "8 + length (config_record c) < 2 ^ 32"
      "find_str (to_bytes ?type) ?blob = Some (length before + 4)"
    using assms Some p by (auto simp: wrap_ok_def)
  have e: "?blob = before @ put_be32 (word_of_nat (8 + length (config_record c))) @ to_bytes ?type @ config_record c @ after"
    by (simp add: wrap_config_def Some p)
  have t: "length ?type = 4" by (cases c) simp_all
  note h = config_record_head [OF ok(1)]
  have box: "box_at ?blob ?type (length before + 4) = Some (config_record c)"
    using h by (intro wrapped_box [OF e t _ ok(4)]) auto
  have m: "length before + 4 < length ?blob - 3" using h t by (simp add: e)
  have found: "first_some (map (box_at ?blob ?type) [4..<length ?blob - 3] @ ys) = Some (config_record c)" for ys
    using find_str_least [OF ok(5)] t box m
    by (intro first_some_upt [where f = "box_at ?blob ?type" and k = "length before + 4"]) (auto intro: no_box_before)
  have "find_inner_config_box ?blob = Some (config_record c)"
  proof (cases c)
    case Avc
    then show ?thesis using found by (simp add: find_inner_config_box_def)
  next
    case Hevc
    then have "find_str (to_bytes ''avcC'') ?blob = None" using assms Some p by (simp add: wrap_ok_def)
    then have "box_at ?blob ''avcC'' j = None" if "j < length ?blob" for j
      using that by (intro no_box_before) (simp_all add: find_str_None)
    then have "list_all (\<lambda>x. x = None) (map (box_at ?blob ''avcC'') [4..<length ?blob - 3])" by (auto simp: list_all_iff)
    then show ?thesis using found [of "[]"] Hevc by (simp add: find_inner_config_box_def first_some_skip)
  qed
  moreover have "?blob ! 0 \<noteq> 1" using ok(2,3) by (cases before) (simp_all add: e)
  moreover have "7 \<le> length ?blob" using h by (simp add: e)
  ultimately show ?thesis using h by (simp add: unwrap_config_def)
qed

definition all_sets :: "param_sets \<Rightarrow> bytes" where
  "all_sets ps = ps_vps ps @ ps_sps ps @ ps_pps ps"

lemma use_sets_result:
  assumes "software_opens lib" and "vd_context d \<noteq> No_context"
  shows "\<exists>d1. use_sets lib cd ps d = (True, d1) \<and> vd_sets d1 = ps \<and> vd_context d1 \<noteq> No_context \<and> vd_codec d1 = cd"
  using assms(2) by (cases "vd_codec d = cd")
    (auto simp: use_sets_def reopen_for_sps_change_def intro: open_codec_opens [OF assms(1), of cd d])

text \<open>A well-formed configuration is accepted, whether bare or wrapped, and leaves its parameter sets.\<close>

lemma configured:
  assumes "software_opens lib" and "vd_context d \<noteq> No_context" and "wrap_ok entry c"
  shows "\<exists>d1. set_parameter_sets_from_avcc lib (wrap_config entry c) d = (True, d1) \<and> all_sets (vd_sets d1) = kept_sets c
    \<and> vd_context d1 \<noteq> No_context \<and> (is_hevc d1 \<longleftrightarrow> config_type c = ''hvcC'')"
proof (cases c)
  case (Avc profile spss ppss rest)
  have "config_ok (Avc profile spss ppss rest)" using assms(3) Avc by (simp add: wrap_ok_def)
  note r = parse_avcc_record [OF this] unwrap_wrapped [OF assms(3), unfolded Avc]
  show ?thesis
    using use_sets_result [OF assms(1,2), of Codec_h264 "\<lparr>ps_vps = [], ps_sps = [0, 0, 0, 1] @ hd spss, ps_pps = [0, 0, 0, 1] @ hd ppss\<rparr>"]
    by (auto simp: set_parameter_sets_from_avcc_def Avc r all_sets_def annexb_encode_def is_hevc_def
        simp del: config_record.simps)
next
  case (Hevc profile constraints arrays rest)
  have "config_ok (Hevc profile constraints arrays rest)" using assms(3) Hevc by (simp add: wrap_ok_def)
  note r = hvcc_not_avcc [OF this] parse_hvcc_record [OF this] unwrap_wrapped [OF assms(3), unfolded Hevc]
  show ?thesis
    using use_sets_result [OF assms(1,2), of Codec_hevc "\<lparr>ps_vps = first_of_type 32 arrays, ps_sps = first_of_type 33 arrays, ps_pps = first_of_type 34 arrays\<rparr>"]
    by (auto simp: set_parameter_sets_from_avcc_def Hevc r all_sets_def is_hevc_def
        simp del: config_record.simps)
qed

lemma decode_fields:
  assumes "vd_context d \<noteq> No_context" and "nal \<noteq> []"
  shows "\<exists>r d1. decode lib nal is_idr d = ([(if is_idr then all_sets (vd_sets d) else []) @ nal], r, d1)
    \<and> vd_context d1 = vd_context d \<and> vd_sets d1 = vd_sets d"
  using assms by (simp add: decode_def packet_of_def all_sets_def note_picture_def Let_def split_def split: answer.split)

section \<open>The decoder of a mirror session\<close>

definition mirror_decoder_ops :: "'w libav \<Rightarrow> bool \<Rightarrow> bool \<Rightarrow> 'w \<Rightarrow> 'w video_decoder decoder_ops" where
  "mirror_decoder_ops lib device referenced w =
     \<lparr>dx_init = (\<lambda>hw. let (ok, d) = init_decoder lib hw device referenced (new_decoder w) in if ok then Some d else None),
      dx_params = (\<lambda>blob d. snd (set_parameter_sets_from_avcc lib blob d)),
      dx_hevc = is_hevc,
      dx_decode = (\<lambda>nal is_idr d. let (sent, r, d1) = decode lib nal is_idr d in (dr_got r, d1))\<rparr>"

text \<open>The calls that the mirror listener makes on the decoder, and the packets they hand to libavcodec.\<close>

definition feed_call :: "'w libav \<Rightarrow> mirror_effect \<Rightarrow> 'w video_decoder \<Rightarrow> bytes list \<times> 'w video_decoder" where
  "feed_call lib e d =
     (case e of
        SetParams blob \<Rightarrow> ([], snd (set_parameter_sets_from_avcc lib blob d))
      | Decode nal is_idr \<Rightarrow> (let (sent, r, d1) = decode lib nal is_idr d in (sent, d1))
      | _ \<Rightarrow> ([], d))"

fun fed_packets :: "'w libav \<Rightarrow> mirror_effect list \<Rightarrow> 'w video_decoder \<Rightarrow> bytes list" where
  "fed_packets lib [] d = []"
| "fed_packets lib (e # es) d = (let (sent, d1) = feed_call lib e d in sent @ fed_packets lib es d1)"

lemma fed_packets_quiet:
  "fed_packets lib ((if b then [RecordBytes n] else []) @ es) d = fed_packets lib es d"
  "fed_packets lib ((if b then [ReportConfig r] else []) @ es) d = fed_packets lib es d"
  "fed_packets lib ((if b then [PushFrame] else []) @ es) d = fed_packets lib es d"
  by (simp_all add: feed_call_def)

text \<open>A session as the sender means it.\<close>

datatype coded =
    Coded_config "(bytes \<times> bytes) option" video_config
  | Coded_picture bool "bytes list"
  | Coded_heartbeat
  | Coded_report bytes

fun coded_item :: "coded \<Rightarrow> mirror_item" where
  "coded_item (Coded_config entry c) = Config (wrap_config entry c)"
| "coded_item (Coded_picture idr nals) = Video idr nals"
| "coded_item Coded_heartbeat = Heartbeat"
| "coded_item (Coded_report p) = Report p"

definition coded_frames :: "(coded \<times> u16 \<times> u64 \<times> bytes) list \<Rightarrow> sent_frame list" where
  "coded_frames = map (\<lambda>(c, rest). (coded_item c, rest))"

lemma coded_frames_simps [simp]:
  "coded_frames [] = []" "coded_frames ((c, rest) # fs) = (coded_item c, rest) # coded_frames fs"
  by (simp_all add: coded_frames_def)

text \<open>A well-formed configuration that fits its frame, with one parameter set of each kind.\<close>

fun coded_ok :: "coded \<Rightarrow> bool" where
  "coded_ok (Coded_config entry c) = (wrap_ok entry c \<and> single_sets c)"
| "coded_ok _ = True"

text \<open>What libavcodec must get: the NAL units of every picture in Annex-B form, those of a key frame behind
  the parameter sets of the last configuration.\<close>

fun expected_packets :: "coded list \<Rightarrow> bytes \<Rightarrow> bytes list" where
  "expected_packets [] sets = []"
| "expected_packets (Coded_config entry c # cs) sets = expected_packets cs (config_sets c)"
| "expected_packets (Coded_picture idr nals # cs) sets = ((if idr then sets else []) @ annexb_encode nals) # expected_packets cs sets"
| "expected_packets (_ # cs) sets = expected_packets cs sets"

lemma fed_packets_deliver:
  assumes "software_opens lib"
  shows "list_all (\<lambda>f. coded_ok (fst f)) fs \<Longrightarrow> list_all wf_sent (coded_frames fs) \<Longrightarrow> vd_context d \<noteq> No_context \<Longrightarrow>
    fed_packets lib (deliver ops renderer (coded_frames fs) n (Some x)) d = expected_packets (map fst fs) (all_sets (vd_sets d))"
proof (induction fs arbitrary: n x d)
  case (Cons f fs)
  obtain c rest where f: "f = (c, rest)" by (cases f)
  note IH = Cons.IH
  show ?case
  proof (cases c)
    case (Coded_config entry v)
    have w: "wrap_ok entry v" and one: "kept_sets v = config_sets v" using Cons.prems(1) f Coded_config single_kept by simp_all
    obtain d1 where d1: "set_parameter_sets_from_avcc lib (wrap_config entry v) d = (True, d1)"
        "all_sets (vd_sets d1) = config_sets v" "vd_context d1 \<noteq> No_context"
      using configured [OF assms Cons.prems(3) w] one by auto
    have "wrap_config entry v \<noteq> []" using unwrap_wrapped [OF w] by (auto simp: unwrap_config_def)
    then show ?thesis using IH [of d1] d1 Cons.prems(1,2) f
      by (simp add: f Coded_config fed_packets_quiet feed_call_def)
  next
    case (Coded_picture idr nals)
    have "nals \<noteq> []" using Cons.prems(2) by (cases rest) (simp add: f Coded_picture wf_sent_def)
    then have "annexb_encode nals \<noteq> []" by (cases nals) (simp_all add: annexb_encode_def)
    from decode_fields [OF Cons.prems(3) this, of lib idr] obtain r d1 where d1:
      "decode lib (annexb_encode nals) idr d = ([(if idr then all_sets (vd_sets d) else []) @ annexb_encode nals], r, d1)"
      "vd_context d1 = vd_context d" "vd_sets d1 = vd_sets d" by blast
    then show ?thesis using IH [of d1] Cons.prems f
      by (simp add: f Coded_picture fed_packets_quiet feed_call_def Let_def split_def)
  qed (use IH [of d] Cons.prems f in \<open>simp_all add: fed_packets_quiet feed_call_def\<close>)
qed simp

lemma init_opened:
  assumes "software_opens lib" and "init_decoder lib hwaccel device referenced (new_decoder w) = (True, d)"
  shows "vd_context d \<noteq> No_context" and "all_sets (vd_sets d) = []"
proof -
  obtain x where x: "open_codec lib Codec_h264 x = (True, d)" "vd_sets x = no_sets"
    using assms(2) by (auto simp: init_decoder_def new_decoder_def Let_def split_def split: if_splits)
  obtain d1 where "open_codec lib Codec_h264 x = (True, d1)" "vd_sets d1 = vd_sets x" "\<exists>hw. vd_context d1 = Opened Codec_h264 hw"
    using open_codec_opens [OF assms(1)] by metis
  then show "vd_context d \<noteq> No_context" "all_sets (vd_sets d) = []" using x by (auto simp: all_sets_def no_sets_def)
qed

text \<open>Of several picture parameter sets the first alone is kept.\<close>

lemma further_sets_lost:
  "parse_avcc (config_record (Avc [100, 0, 40, 255] [[0x67]] [[0x68, 1], [0x68, 2]] [])) = Some ([0, 0, 0, 1, 0x67], [0, 0, 0, 1, 0x68, 1])"
  by code_simp

section \<open>Properties\<close>

text \<open>C10: End to end, libavcodec gets the pictures of a mirror session as the phone encoded them: whatever
  the blocks in which the encrypted stream arrives, and whether a configuration is an avcC or an hvcC
  record, bare or inside a sample entry, each packet is one picture in Annex-B form, in order, and a key
  frame comes behind all parameter sets of the last configuration before it. A configuration holds one
  sequence set and one picture set (for HEVC at most one set in each array); of several the decoder
  would keep the first only.\<close>

theorem mirror_packets_exact:
  assumes "lawful_crypto cy valid" and "length key = 16"
    and "sha512_first_16 cy (mirror_salt ''AirPlayStreamKey'' sid) key = Some k"
    and "sha512_first_16 cy (mirror_salt ''AirPlayStreamIV'' sid) key = Some iv"
    and "aes_ctr_init cy k iv = Keystream ks"
    and "list_all wf_sent (coded_frames fs)" and "list_all (\<lambda>f. coded_ok (fst f)) fs"
    and "benign evs" and "block_data evs = encode_frames ks 0 (coded_frames fs)"
    and "software_opens lib" and "init_decoder lib (hwaccel \<and> mi_renderer m) device referenced (new_decoder w) = (True, d)"
  shows "\<exists>m1. enable_decrypt cy (mirror_decoder_ops lib device referenced w) key sid hwaccel m = (True, m1)
    \<and> fed_packets lib (fst (serve_client cy (mirror_decoder_ops lib device referenced w) evs (m1\<lparr>mi_client := Some c\<rparr>) kn)) d
        = expected_packets (map fst fs) []"
proof -
  let ?ops = "mirror_decoder_ops lib device referenced w"
  have init: "mirror_init cy key sid \<lparr>mc_ctx = None\<rparr> = (True, \<lparr>mc_ctx = Some (ks, 0)\<rparr>)"
    using assms(2-5) by (simp add: mirror_init_def)
  have dx: "dx_init ?ops (hwaccel \<and> mi_renderer m) = Some d" using assms(11) by (simp add: mirror_decoder_ops_def)
  have d: "vd_context d \<noteq> No_context" "all_sets (vd_sets d) = []" using init_opened [OF assms(10,11)] .
  show ?thesis
    using reader_delivers [OF assms(1,6,8,9), of "\<lparr>re_cipher = Some \<lparr>mc_ctx = Some (ks, 0)\<rparr>, re_decoder = Some d, re_configs = 0\<rparr>"
        "\<lparr>mc_ctx = Some (ks, 0)\<rparr>" ?ops "mi_renderer m"]
      fed_packets_deliver [OF assms(10,7,6) d(1), of ?ops "mi_renderer m" 0 d]
    by (simp add: enable_decrypt_def init serve_client_def case_prod_beta dx d(2))
qed

section \<open>Witnesses\<close>

definition sample_library :: "unit libav" where
  "sample_library = \<lparr>av_available = (\<lambda>cd. True), av_alloc = (\<lambda>w. (True, w)), av_open = (\<lambda>cd hw w. (\<not> hw, w)),
     av_send = (\<lambda>c p w. (Av_ok, w)),
     av_receive = (\<lambda>c w. ((Av_ok, \<lparr>pc_width = 640, pc_height = 480, pc_hw = False, pc_format = Yuv420p, pc_planes = []\<rparr>), w))\<rparr>"

definition sample_coded :: "(coded \<times> u16 \<times> u64 \<times> bytes) list" where
  "sample_coded = [(Coded_config None (Avc [0x64, 0, 0x28, 0xff] [[0x67, 1]] [[0x68]] []), 0, 5, replicate 112 0),
     (Coded_heartbeat, 0, 6, replicate 112 0), (Coded_picture True [[0x65, 1]], 0x1602, 7, replicate 112 0),
     (Coded_picture False [[0x41], [0x42]], 0, 8, replicate 112 0)]"

lemma sample_coded_ok: "list_all wf_sent (coded_frames sample_coded)" "list_all (\<lambda>f. coded_ok (fst f)) sample_coded"
  by (simp_all add: sample_coded_def wf_sent_def max_payload_def wf_nal_def avcc_encode_def wrap_config_def wrap_ok_def short_def
      put_nals_def put_nal_def)

theorem mirror_packets_exact_witness:
  "\<exists>m1 ks d. enable_decrypt plain_crypto (mirror_decoder_ops sample_library True True ()) (replicate 16 1) 9 True
        (new_mirror\<lparr>mi_renderer := True\<rparr>) = (True, m1)
    \<and> fed_packets sample_library (fst (serve_client plain_crypto (mirror_decoder_ops sample_library True True ())
        [Quiet, Got (encode_frames ks 0 (coded_frames sample_coded))] (m1\<lparr>mi_client := Some 4\<rparr>) (boot all_ok))) d
      = [[0, 0, 0, 1, 0x67, 1, 0, 0, 0, 1, 0x68, 0, 0, 0, 1, 0x65, 1], [0, 0, 0, 1, 0x41, 0, 0, 0, 1, 0x42]]"
proof -
  let ?key = "replicate 16 1 :: bytes"
  obtain k iv ks where c: "sha512_first_16 plain_crypto (mirror_salt ''AirPlayStreamKey'' 9) ?key = Some k"
      "sha512_first_16 plain_crypto (mirror_salt ''AirPlayStreamIV'' 9) ?key = Some iv"
      "aes_ctr_init plain_crypto k iv = Keystream ks"
    using mirror_init_lawful [OF plain_crypto_lawful, of ?key 9 "\<lparr>mc_ctx = None\<rparr>"] by fastforce
  have lib: "software_opens sample_library" by (simp add: software_opens_def sample_library_def)
  obtain d where d: "init_decoder sample_library (True \<and> mi_renderer (new_mirror\<lparr>mi_renderer := True\<rparr> :: unit video_decoder mirror)) True True (new_decoder ()) = (True, d)"
    by (simp add: init_decoder_def open_codec_def open_software_def alloc_context_def open_context_def sample_library_def)
  have ev: "benign [Quiet, Got (encode_frames ks 0 (coded_frames sample_coded))]"
      "block_data [Quiet, Got (encode_frames ks 0 (coded_frames sample_coded))] = encode_frames ks 0 (coded_frames sample_coded)"
    by (simp_all add: sample_coded_def Let_def encode_head_def rev_put_be32)
  have e: "expected_packets (map fst sample_coded) []
      = [[0, 0, 0, 1, 0x67, 1, 0, 0, 0, 1, 0x68, 0, 0, 0, 1, 0x65, 1], [0, 0, 0, 1, 0x41, 0, 0, 0, 1, 0x42]]"
    by (simp add: sample_coded_def annexb_encode_def)
  show ?thesis
    using mirror_packets_exact [OF plain_crypto_lawful _ c sample_coded_ok ev lib d, of 4 "boot all_ok"] unfolding e by auto
qed

end
