(* ===== verification/AacDecoder.thy ===== *)
theory AacDecoder
  imports Complex_Main Prelude
begin

text \<open>
  The audio decoder (src/audio/aac_decoder.cpp): the AudioSpecificConfig and the ALAC cookie that tell
  libavcodec the format, the conversion of decoded samples to interleaved 16-bit PCM and the queue from
  which they are pulled. FFmpeg is an argument: a script of what it answers to a packet.
\<close>

section \<open>The writer of bits\<close>

fun freq_index :: "int \<Rightarrow> int" where
  "freq_index sample_rate =
     (if sample_rate = 96000 then 0 else if sample_rate = 88200 then 1 else if sample_rate = 64000 then 2
      else if sample_rate = 48000 then 3 else if sample_rate = 44100 then 4 else if sample_rate = 32000 then 5
      else if sample_rate = 24000 then 6 else if sample_rate = 22050 then 7 else if sample_rate = 16000 then 8
      else if sample_rate = 12000 then 9 else if sample_rate = 11025 then 10 else if sample_rate = 8000 then 11
      else if sample_rate = 7350 then 12 else 15)"

record bit_writer =
  bw_buf :: bytes
  bw_pos :: nat

definition put_bit :: "bool \<Rightarrow> bit_writer \<Rightarrow> bit_writer" where
  "put_bit b bw =
     (let buf = (if bw_pos bw div 8 \<ge> length (bw_buf bw) then bw_buf bw @ [0] else bw_buf bw);
          off = bw_pos bw div 8
      in \<lparr>bw_buf = (if b then buf[off := buf ! off OR push_bit (7 - bw_pos bw mod 8) 1] else buf), bw_pos = bw_pos bw + 1\<rparr>)"

fun put_bits :: "int \<Rightarrow> nat \<Rightarrow> bit_writer \<Rightarrow> bit_writer" where
  "put_bits v 0 bw = bw"
| "put_bits v (Suc n) bw = put_bits v n (put_bit (bit v n) bw)"

definition new_writer :: bit_writer where
  "new_writer = \<lparr>bw_buf = [], bw_pos = 0\<rparr>"

definition frame_length_flag :: "int \<Rightarrow> int" where
  "frame_length_flag spf = (if spf = 480 then 1 else 0)"

definition asc_fields :: "int \<Rightarrow> int \<Rightarrow> int \<Rightarrow> (int \<times> nat) list" where
  "asc_fields sample_rate channels spf =
     [(31, 5), (7, 6), (freq_index sample_rate, 4), (channels, 4), (frame_length_flag spf, 1), (0, 1), (0, 1), (0, 1), (0, 1), (0, 4)]"

definition build_asc_aac_eld :: "int \<Rightarrow> int \<Rightarrow> int \<Rightarrow> bytes" where
  "build_asc_aac_eld sample_rate channels spf =
     bw_buf (fold (\<lambda>(v, n). put_bits v n) (asc_fields sample_rate channels spf) new_writer)"

text \<open>The bits written so far, most significant first.\<close>

definition byte_bits :: "byte \<Rightarrow> bool list" where
  "byte_bits b = map (\<lambda>i. bit b (7 - i)) [0..<8]"

definition all_bits :: "bytes \<Rightarrow> bool list" where
  "all_bits bs = concat (map byte_bits bs)"

definition msb_bits :: "int \<Rightarrow> nat \<Rightarrow> bool list" where
  "msb_bits v n = map (bit v) (rev [0..<n])"

definition writer_ok :: "bit_writer \<Rightarrow> bool list \<Rightarrow> bool" where
  "writer_ok bw bits \<longleftrightarrow> bw_pos bw = length bits \<and> length (bw_buf bw) = (length bits + 7) div 8
     \<and> all_bits (bw_buf bw) = bits @ replicate (8 * length (bw_buf bw) - length bits) False"

lemma length_all_bits [simp]: "length (all_bits bs) = 8 * length bs"
  by (induction bs) (simp_all add: all_bits_def byte_bits_def)

lemma nth_all_bits: "i < 8 * length bs \<Longrightarrow> all_bits bs ! i = bit (bs ! (i div 8)) (7 - i mod 8)"
proof (induction bs arbitrary: i)
  case (Cons b bs)
  have c: "all_bits (b # bs) = byte_bits b @ all_bits bs" by (simp add: all_bits_def)
  show ?case
  proof (cases "i < 8")
    case True
    then show ?thesis by (simp add: c nth_append byte_bits_def)
  next
    case False
    then have "i = 8 + (i - 8)" by simp
    then obtain j where j: "i = 8 + j" by blast
    then show ?thesis using Cons by (simp add: c nth_append byte_bits_def)
  qed
qed simp

lemma put_bit_ok:
  assumes "writer_ok bw bits"
  shows "writer_ok (put_bit b bw) (bits @ [b])"
proof -
  define p where "p = length bits"
  define buf where "buf = (if p div 8 \<ge> length (bw_buf bw) then bw_buf bw @ [0] else bw_buf bw)"
  have w: "bw_pos bw = p" "length (bw_buf bw) = (p + 7) div 8" "all_bits (bw_buf bw) = bits @ replicate (8 * length (bw_buf bw) - p) False"
    using assms by (auto simp: writer_ok_def p_def)
  have l: "length buf = (p + 8) div 8"
    using w(2) by (auto simp: buf_def)
  then have lt: "p div 8 < length buf" "p < 8 * length buf" by auto
  have bufbits: "all_bits buf = bits @ replicate (8 * length buf - p) False"
  proof (cases "p div 8 \<ge> length (bw_buf bw)")
    case True
    have z: "all_bits [0] = replicate 8 False" by (simp add: all_bits_def byte_bits_def numeral_eq_Suc)
    have "8 * length (bw_buf bw) - p + 8 = 8 * length buf - p" using True w(2) by (simp add: buf_def)
    then show ?thesis using True w(3) z by (simp add: buf_def all_bits_def replicate_add [symmetric])
  qed (use w(3) in \<open>simp add: buf_def\<close>)
  define new where "new = (if b then buf[p div 8 := buf ! (p div 8) OR push_bit (7 - p mod 8) 1] else buf)"
  have ln: "length new = length buf" by (simp add: new_def)
  have at: "all_bits new ! i = (all_bits buf ! i \<or> b \<and> i = p)" if i: "i < 8 * length buf" for i
  proof (cases "i div 8 = p div 8")
    case True
    have e: "7 - i mod 8 = 7 - p mod 8 \<longleftrightarrow> i = p"
      using True div_mult_mod_eq [of i 8] div_mult_mod_eq [of p 8] mod_less_divisor [of 8 i] mod_less_divisor [of 8 p] by linarith
    show ?thesis using i True lt e by (auto simp: nth_all_bits ln new_def bit_simps)
  next
    case False
    then show ?thesis using i by (auto simp: nth_all_bits ln new_def)
  qed
  have "all_bits new = (bits @ [b]) @ replicate (8 * length new - Suc p) False"
  proof (rule nth_equalityI)
    show "length (all_bits new) = length ((bits @ [b]) @ replicate (8 * length new - Suc p) False)" using lt by (simp add: ln p_def)
    fix i assume "i < length (all_bits new)"
    then have i: "i < 8 * length buf" by (simp add: ln)
    consider "i < p" | "i = p" | "p < i" by linarith
    then show "all_bits new ! i = ((bits @ [b]) @ replicate (8 * length new - Suc p) False) ! i"
      using i by cases (auto simp: at bufbits p_def nth_append ln)
  qed
  moreover have "put_bit b bw = \<lparr>bw_buf = new, bw_pos = p + 1\<rparr>" by (simp add: put_bit_def w(1) buf_def new_def Let_def)
  ultimately show ?thesis using l ln by (simp add: writer_ok_def p_def)
qed

lemma msb_bits_Suc: "msb_bits v (Suc n) = bit v n # msb_bits v n"
  by (simp add: msb_bits_def)

lemma put_bits_ok: "writer_ok bw bits \<Longrightarrow> writer_ok (put_bits v n bw) (bits @ msb_bits v n)"
proof (induction v n bw arbitrary: bits rule: put_bits.induct)
  case (2 v n bw)
  from "2.IH" [OF put_bit_ok [OF "2.prems", of "bit v n"]] show ?case by (simp add: msb_bits_Suc)
qed (simp add: msb_bits_def)

lemma put_fields_ok:
  "writer_ok bw bits \<Longrightarrow> writer_ok (fold (\<lambda>(v, n). put_bits v n) fs bw) (bits @ concat (map (\<lambda>(v, n). msb_bits v n) fs))"
proof (induction fs arbitrary: bw bits)
  case (Cons f fs)
  obtain v n where f: "f = (v, n)" by (cases f)
  from Cons.IH [OF put_bits_ok [OF Cons.prems, of v n]] show ?case by (simp add: f)
qed simp

text \<open>Reading the fields back: the value of a run of bits, and a run cut into fields.\<close>

definition bits_value :: "bool list \<Rightarrow> int" where
  "bits_value bs = foldl (\<lambda>v b. 2 * v + of_bool b) 0 bs"

fun read_fields :: "nat list \<Rightarrow> bool list \<Rightarrow> int list" where
  "read_fields [] bits = []"
| "read_fields (n # ns) bits = bits_value (take n bits) # read_fields ns (drop n bits)"

lemma foldl_bits_value: "foldl (\<lambda>v b. 2 * v + of_bool b) a bs = a * 2 ^ length bs + bits_value bs"
proof (induction bs arbitrary: a)
  case (Cons b bs)
  show ?case using Cons [of "2 * a + of_bool b"] Cons [of "of_bool b"] by (simp add: bits_value_def algebra_simps)
qed (simp add: bits_value_def)

lemma bits_value_msb: "bits_value (msb_bits v n) = v mod 2 ^ n"
proof (induction n)
  case (Suc n)
  have "bits_value (msb_bits v (Suc n)) = of_bool (bit v n) * 2 ^ n + v mod 2 ^ n"
    using foldl_bits_value [of "of_bool (bit v n)" "msb_bits v n"] Suc by (simp add: msb_bits_Suc bits_value_def msb_bits_def)
  also have "\<dots> = v mod 2 ^ Suc n"
    using take_bit_Suc_from_most [of n v] by (simp add: take_bit_eq_mod)
  finally show ?case .
qed (simp add: msb_bits_def bits_value_def)

lemma length_msb_bits [simp]: "length (msb_bits v n) = n"
  by (simp add: msb_bits_def)

lemma read_fields_msb:
  "read_fields (map snd fs) (concat (map (\<lambda>(v, n). msb_bits v n) fs) @ r) = map (\<lambda>(v, n). v mod 2 ^ n) fs"
  by (induction fs) (auto simp: bits_value_msb)

lemma asc_bits:
  "length (build_asc_aac_eld rate ch spf) = 4"
  "all_bits (build_asc_aac_eld rate ch spf) = concat (map (\<lambda>(v, n). msb_bits v n) (asc_fields rate ch spf)) @ replicate 4 False"
proof -
  have "writer_ok new_writer []" by (simp add: writer_ok_def new_writer_def all_bits_def)
  from put_fields_ok [OF this, of "asc_fields rate ch spf"]
  have w: "writer_ok (fold (\<lambda>(v, n). put_bits v n) (asc_fields rate ch spf) new_writer)
      (concat (map (\<lambda>(v, n). msb_bits v n) (asc_fields rate ch spf)))" by simp
  have l: "length (concat (map (\<lambda>(v, n). msb_bits v n) (asc_fields rate ch spf))) = 28" by (simp add: asc_fields_def)
  show "length (build_asc_aac_eld rate ch spf) = 4" using w l by (simp add: writer_ok_def build_asc_aac_eld_def)
  then show "all_bits (build_asc_aac_eld rate ch spf)
      = concat (map (\<lambda>(v, n). msb_bits v n) (asc_fields rate ch spf)) @ replicate 4 False"
    using w l by (simp add: writer_ok_def build_asc_aac_eld_def)
qed

section \<open>Opening\<close>

record aac_config =
  cf_ct :: int
  cf_rate :: int
  cf_channels :: int
  cf_spf :: int

definition default_config :: aac_config where
  "default_config = \<lparr>cf_ct = 8, cf_rate = 44100, cf_channels = 2, cf_spf = 480\<rparr>"

definition alac_cookie :: "aac_config \<Rightarrow> bytes" where
  "alac_cookie cfg =
     [0x00, 0x00, 0x00, 0x24] @ to_bytes ''alac'' @
     [0x00, 0x00, 0x00, 0x00,
      0x00, 0x00, 0x01, 0x60,
      0x00, 0x10, 0x28, 0x0a, 0x0e, word_of_int (cf_channels cfg),
      0x00, 0xff,
      0x00, 0x00, 0x00, 0x00,
      0x00, 0x00, 0x00, 0x00,
      0x00, 0x00, word_of_int (cf_rate cfg div 256), word_of_int (cf_rate cfg)]"

definition extradata :: "aac_config \<Rightarrow> bytes" where
  "extradata cfg = (if cf_ct cfg = 2 then alac_cookie cfg else build_asc_aac_eld (cf_rate cfg) (cf_channels cfg) (cf_spf cfg))"

datatype audio_codec = Codec_alac | Codec_aac

record audio_decoder =
  ad_context :: bool
  ad_rate :: int
  ad_channels :: int
  ad_frames :: u64
  ad_pcm :: "16 word list"

definition new_audio_decoder :: audio_decoder where
  "new_audio_decoder = \<lparr>ad_context = False, ad_rate = 0, ad_channels = 0, ad_frames = 0, ad_pcm = []\<rparr>"

text \<open>\<open>found\<close>: the decoders libavcodec has; \<open>alloc\<close>: whether the context and the buffers could be allocated;
  \<open>opens\<close>: whether the context opens with its codec, rate, channels and extradata.\<close>

definition init_audio ::
  "(audio_codec \<Rightarrow> bool) \<Rightarrow> bool \<times> bool \<Rightarrow> (audio_codec \<Rightarrow> int \<Rightarrow> int \<Rightarrow> bytes \<Rightarrow> bool) \<Rightarrow> aac_config \<Rightarrow> audio_decoder \<Rightarrow> bool \<times> audio_decoder" where
  "init_audio found alloc opens cfg d =
     (let codec = (if cf_ct cfg = 2 then Codec_alac else Codec_aac)
      in if \<not> found codec then (False, d)
         else let d1 = d\<lparr>ad_context := fst alloc\<rparr>
              in if \<not> fst alloc \<or> \<not> snd alloc then (False, d1)
                 else if \<not> opens codec (cf_rate cfg) (cf_channels cfg) (extradata cfg) then (False, d1)
                 else (True, d1\<lparr>ad_rate := cf_rate cfg, ad_channels := cf_channels cfg\<rparr>))"

section \<open>Samples\<close>

text \<open>A decoded sample; a float is a real number and \<open>rnd\<close> the rounding of a product to its type.\<close>

datatype sample = Flt real | Dbl real | S16 "16 word" | S32 "32 word" | Unknown_sample

definition unit_clip :: "real \<Rightarrow> real" where
  "unit_clip x = (let y = (if x > 1 then 1 else x) in if y < -1 then -1 else y)"

definition cast_s16 :: "real \<Rightarrow> 16 word" where
  "cast_s16 x = word_of_int (if x < 0 then - \<lfloor>- x\<rfloor> else \<lfloor>x\<rfloor>)"

fun sample_to_s16 :: "(real \<Rightarrow> real) \<Rightarrow> sample \<Rightarrow> 16 word" where
  "sample_to_s16 rnd (Flt x) = cast_s16 (rnd (unit_clip x * 32767))"
| "sample_to_s16 rnd (Dbl x) = cast_s16 (rnd (unit_clip x * 32767))"
| "sample_to_s16 rnd (S16 v) = v"
| "sample_to_s16 rnd (S32 v) = ucast (signed_drop_bit 16 v)"
| "sample_to_s16 rnd Unknown_sample = 0"

text \<open>A decoded block: its planes by number and position.\<close>

record audio_frame =
  fr_samples :: nat
  fr_planar :: bool
  fr_data :: "nat \<Rightarrow> nat \<Rightarrow> sample"

definition sample_at :: "audio_frame \<Rightarrow> nat \<Rightarrow> nat \<Rightarrow> nat \<Rightarrow> sample" where
  "sample_at f ch c i = (if fr_planar f then fr_data f c i else fr_data f 0 (i * ch + c))"

definition frame_pcm :: "(real \<Rightarrow> real) \<Rightarrow> nat \<Rightarrow> audio_frame \<Rightarrow> 16 word list" where
  "frame_pcm rnd ch f = concat (map (\<lambda>i. map (\<lambda>c. sample_to_s16 rnd (sample_at f ch c i)) [0..<ch]) [0..<fr_samples f])"

datatype receive = Frame audio_frame | Drained | Failed

text \<open>What libavcodec answers: to the packet, then to the requests for frames; when the script is over, that
  there is no more.\<close>

fun receive_frames :: "(real \<Rightarrow> real) \<Rightarrow> receive list \<Rightarrow> int \<Rightarrow> audio_decoder \<Rightarrow> int \<times> audio_decoder" where
  "receive_frames rnd [] produced d = (produced, d)"
| "receive_frames rnd (Drained # _) produced d = (produced, d)"
| "receive_frames rnd (Failed # _) produced d = (-1, d)"
| "receive_frames rnd (Frame f # rs) produced d =
     receive_frames rnd rs (produced + int (fr_samples f) * ad_channels d)
       (d\<lparr>ad_pcm := ad_pcm d @ frame_pcm rnd (nat (ad_channels d)) f, ad_frames := ad_frames d + 1\<rparr>)"

datatype send = Accepted | Try_again | Refused

definition decode_audio :: "(real \<Rightarrow> real) \<Rightarrow> bytes \<Rightarrow> send \<Rightarrow> receive list \<Rightarrow> audio_decoder \<Rightarrow> int \<times> audio_decoder" where
  "decode_audio rnd frame sent rs d =
     (if \<not> ad_context d \<or> frame = [] then (0, d)
      else if sent = Refused then (-1, d)
      else receive_frames rnd rs 0 d)"

text \<open>A negative count becomes a huge unsigned one.\<close>

definition pull_pcm_s16 :: "int \<Rightarrow> audio_decoder \<Rightarrow> 16 word list \<times> audio_decoder" where
  "pull_pcm_s16 max_samples d =
     (let n = (if max_samples < 0 then length (ad_pcm d) else min (length (ad_pcm d)) (nat max_samples))
      in (take n (ad_pcm d), d\<lparr>ad_pcm := drop n (ad_pcm d)\<rparr>))"

section \<open>What is said of the format\<close>

text \<open>The cookie holds sixteen bits of the rate, and a stream of AAC-LC is announced as AAC-ELD.\<close>

lemma cookie_rate_truncated:
  "length (alac_cookie cfg) = 36" "cf_rate cfg = 96000 \<Longrightarrow> drop 32 (alac_cookie cfg) = [0, 0, 0x77, 0]"
  by (simp_all add: alac_cookie_def)

lemma aac_lc_announced_as_eld:
  "extradata (cfg\<lparr>cf_ct := 3\<rparr>) = extradata (cfg\<lparr>cf_ct := 8\<rparr>)" "extradata (cfg\<lparr>cf_ct := 3\<rparr>) = build_asc_aac_eld (cf_rate cfg) (cf_channels cfg) (cf_spf cfg)"
  by (simp_all add: extradata_def)

section \<open>The queue\<close>

datatype audio_call = Feed bytes send "receive list" | Pull int

fun run_calls :: "(real \<Rightarrow> real) \<Rightarrow> audio_call list \<Rightarrow> audio_decoder \<Rightarrow> 16 word list \<times> audio_decoder" where
  "run_calls rnd [] d = ([], d)"
| "run_calls rnd (Feed frame sent rs # cs) d = run_calls rnd cs (snd (decode_audio rnd frame sent rs d))"
| "run_calls rnd (Pull n # cs) d =
     (let (out, d1) = pull_pcm_s16 n d; (rest, d2) = run_calls rnd cs d1 in (out @ rest, d2))"

fun frames_of :: "receive list \<Rightarrow> audio_frame list" where
  "frames_of (Frame f # rs) = f # frames_of rs"
| "frames_of _ = []"

fun decoded_frames :: "audio_call list \<Rightarrow> audio_frame list" where
  "decoded_frames [] = []"
| "decoded_frames (Feed frame sent rs # cs) = (if frame = [] \<or> sent = Refused then [] else frames_of rs) @ decoded_frames cs"
| "decoded_frames (Pull n # cs) = decoded_frames cs"

lemma receive_frames_pcm:
  "ad_pcm (snd (receive_frames rnd rs n d)) = ad_pcm d @ concat (map (frame_pcm rnd (nat (ad_channels d))) (frames_of rs))
    \<and> ad_channels (snd (receive_frames rnd rs n d)) = ad_channels d \<and> ad_context (snd (receive_frames rnd rs n d)) = ad_context d
    \<and> ad_frames (snd (receive_frames rnd rs n d)) = ad_frames d + word_of_nat (length (frames_of rs))"
  by (induction rnd rs n d rule: receive_frames.induct) (simp_all add: algebra_simps)

lemma decode_audio_pcm:
  "ad_context d \<Longrightarrow>
   ad_pcm (snd (decode_audio rnd frame sent rs d))
     = ad_pcm d @ concat (map (frame_pcm rnd (nat (ad_channels d))) (if frame = [] \<or> sent = Refused then [] else frames_of rs))
   \<and> ad_channels (snd (decode_audio rnd frame sent rs d)) = ad_channels d \<and> ad_context (snd (decode_audio rnd frame sent rs d))
   \<and> ad_frames (snd (decode_audio rnd frame sent rs d))
     = ad_frames d + word_of_nat (length (if frame = [] \<or> sent = Refused then [] else frames_of rs))"
  by (simp add: decode_audio_def receive_frames_pcm)

lemma pull_fields:
  "fst (pull_pcm_s16 n d) @ ad_pcm (snd (pull_pcm_s16 n d)) = ad_pcm d" "ad_channels (snd (pull_pcm_s16 n d)) = ad_channels d"
  "ad_context (snd (pull_pcm_s16 n d)) = ad_context d" "ad_frames (snd (pull_pcm_s16 n d)) = ad_frames d"
  by (simp_all add: pull_pcm_s16_def Let_def)

lemma run_calls_pcm:
  "ad_context d \<Longrightarrow>
   fst (run_calls rnd cs d) @ ad_pcm (snd (run_calls rnd cs d))
     = ad_pcm d @ concat (map (frame_pcm rnd (nat (ad_channels d))) (decoded_frames cs))
   \<and> ad_frames (snd (run_calls rnd cs d)) = ad_frames d + word_of_nat (length (decoded_frames cs))"
proof (induction cs arbitrary: d)
  case (Cons c cs)
  show ?case
  proof (cases c)
    case (Feed frame sent rs)
    then show ?thesis using Cons.IH [of "snd (decode_audio rnd frame sent rs d)"] decode_audio_pcm [OF Cons.prems, of rnd frame sent rs]
      by (simp add: algebra_simps)
  next
    case (Pull n)
    have "ad_context (snd (pull_pcm_s16 n d))" using Cons.prems by (simp add: pull_fields)
    note IH = Cons.IH [OF this]
    have e: "fst (pull_pcm_s16 n d) @ (ad_pcm (snd (pull_pcm_s16 n d)) @ x) = ad_pcm d @ x" for x
      using pull_fields(1) [of n d] by (metis append_assoc)
    show ?thesis using IH e by (simp add: Pull split_def Let_def pull_fields)
  qed
qed simp

text \<open>The samples of a block lie channel by channel within each instant.\<close>

lemma frame_pcm_nth:
  assumes "i < fr_samples f" and "c < ch"
  shows "i * ch + c < length (frame_pcm rnd ch f) \<and> frame_pcm rnd ch f ! (i * ch + c) = sample_to_s16 rnd (sample_at f ch c i)"
proof -
  have "i * ch + c < length (concat (map (\<lambda>i. map (\<lambda>c. g i c) [0..<ch]) [0..<n])) \<and>
      concat (map (\<lambda>i. map (\<lambda>c. g i c) [0..<ch]) [0..<n]) ! (i * ch + c) = g i c" if "i < n" for n :: nat and g :: "nat \<Rightarrow> nat \<Rightarrow> 16 word"
    using that
  proof (induction n)
    case (Suc n)
    have l: "length (concat (map (\<lambda>i. map (\<lambda>c. g i c) [0..<ch]) [0..<n])) = n * ch" by (induction n) simp_all
    show ?case using Suc assms(2) l by (cases "i = n") (auto simp: nth_append)
  qed simp
  from this [OF assms(1)] show ?thesis by (simp add: frame_pcm_def)
qed

text \<open>As long as the rounding stays in the range, no float overflows its 16 bits.\<close>

lemma cast_s16_bounded:
  assumes "\<bar>x\<bar> \<le> 32767"
  shows "\<bar>sint (cast_s16 x)\<bar> \<le> 32767"
proof -
  define k where "k = (if x < 0 then - \<lfloor>- x\<rfloor> else \<lfloor>x\<rfloor>)"
  have f: "0 \<le> y \<Longrightarrow> y \<le> 32767 \<Longrightarrow> 0 \<le> \<lfloor>y\<rfloor> \<and> \<lfloor>y\<rfloor> \<le> 32767" for y :: real
    using floor_mono [of y 32767] by simp
  have "\<bar>k\<bar> \<le> 32767" using f [of x] f [of "- x"] assms by (auto simp: k_def)
  then have "sint (word_of_int k :: 16 word) = k" by (simp add: sint_sbintrunc' signed_take_bit_int_eq_self)
  then show ?thesis using \<open>\<bar>k\<bar> \<le> 32767\<close> by (simp add: cast_s16_def k_def [symmetric])
qed

lemma float_sample_bounded:
  "(\<And>y. \<bar>y\<bar> \<le> 32767 \<Longrightarrow> \<bar>rnd y\<bar> \<le> 32767) \<Longrightarrow> \<bar>sint (sample_to_s16 rnd (Flt x))\<bar> \<le> 32767"
proof -
  assume r: "\<And>y. \<bar>y\<bar> \<le> 32767 \<Longrightarrow> \<bar>rnd y\<bar> \<le> 32767"
  have "\<bar>unit_clip x * 32767\<bar> \<le> 32767" by (auto simp: unit_clip_def Let_def abs_le_iff)
  then show ?thesis using cast_s16_bounded [OF r] by simp
qed

text \<open>The library drops the whole rest of a queue whose reader asks for a negative count.\<close>

lemma negative_pull_takes_all: "n < 0 \<Longrightarrow> fst (pull_pcm_s16 n d) = ad_pcm d"
  by (simp add: pull_pcm_s16_def)

text \<open>What a sample of 16 bits must be for a decoded one, said without the conversion: a number in floating
  point is clipped to the unit interval and scaled, with less than two steps of error; integers keep
  their value or its upper half; a sample of a format that is not known is silent.\<close>

definition near_scaled :: "real \<Rightarrow> 16 word \<Rightarrow> bool" where
  "near_scaled x y \<longleftrightarrow> \<bar>of_int (sint y) - 32767 * max (-1) (min 1 x)\<bar> < 101 / 100"

fun sounds_like :: "sample \<Rightarrow> 16 word \<Rightarrow> bool" where
  "sounds_like (Flt x) y = near_scaled x y"
| "sounds_like (Dbl x) y = near_scaled x y"
| "sounds_like (S16 v) y = (y = v)"
| "sounds_like (S32 v) y = (sint y = sint v div 65536)"
| "sounds_like Unknown_sample y = (y = 0)"

text \<open>A product is rounded with the relative error of single precision at most.\<close>

definition rounds :: "(real \<Rightarrow> real) \<Rightarrow> bool" where
  "rounds rnd \<longleftrightarrow> (\<forall>y. \<bar>rnd y - y\<bar> \<le> \<bar>y\<bar> / 2 ^ 24)"

lemma cast_s16_near:
  assumes "\<bar>x\<bar> < 32768"
  shows "\<bar>of_int (sint (cast_s16 x)) - x\<bar> < 1"
proof -
  define k where "k = (if x < 0 then - \<lfloor>- x\<rfloor> else \<lfloor>x\<rfloor>)"
  have f: "0 \<le> \<lfloor>y\<rfloor> \<and> \<lfloor>y\<rfloor> \<le> 32767" if "0 \<le> y" "y < 32768" for y :: real
    using that by (simp add: floor_le_iff)
  have "\<bar>k\<bar> \<le> 32767" using f [of x] f [of "- x"] assms by (auto simp: k_def)
  then have "sint (word_of_int k :: 16 word) = k" by (simp add: sint_sbintrunc' signed_take_bit_int_eq_self)
  moreover have "\<bar>of_int k - x\<bar> < 1" unfolding k_def abs_less_iff by (auto; linarith)
  ultimately show ?thesis by (simp add: cast_s16_def k_def [symmetric])
qed

lemma scaled_near:
  assumes "rounds rnd"
  shows "near_scaled x (cast_s16 (rnd (unit_clip x * 32767)))"
proof -
  define z where "z = unit_clip x"
  have z: "z = max (-1) (min 1 x)" "\<bar>z\<bar> \<le> 1" by (auto simp: z_def unit_clip_def Let_def)
  define p where "p = z * 32767"
  have p: "\<bar>p\<bar> \<le> 32767" using z(2) by (simp add: p_def abs_mult)
  have "\<bar>rnd p - p\<bar> \<le> \<bar>p\<bar> / 2 ^ 24" using assms by (simp add: rounds_def)
  also have "\<dots> \<le> 32767 / 2 ^ 24" using p by (intro divide_right_mono) auto
  also have "\<dots> < (1 / 100 :: real)" by simp
  finally have e: "\<bar>rnd p - p\<bar> < 1 / 100" .
  then have "\<bar>rnd p\<bar> < 32768" using p unfolding abs_less_iff abs_le_iff by simp
  from cast_s16_near [OF this] e have "\<bar>of_int (sint (cast_s16 (rnd p))) - p\<bar> < 101 / 100" unfolding abs_less_iff by simp
  then show ?thesis by (simp add: near_scaled_def z(1) [symmetric] p_def z_def [symmetric] mult.commute)
qed

lemma upper_half: "sint (ucast (signed_drop_bit 16 v :: 32 word) :: 16 word) = sint v div 65536"
proof -
  have "sint (ucast (signed_drop_bit 16 v :: 32 word) :: 16 word) = signed_take_bit 15 (sint (signed_drop_bit 16 v :: 32 word))"
  proof (rule bit_eqI)
    fix n
    show "bit (sint (ucast (signed_drop_bit 16 v :: 32 word) :: 16 word)) n = bit (signed_take_bit 15 (sint (signed_drop_bit 16 v :: 32 word))) n"
      by (cases "n < 15"; cases "n = 15") (auto simp: bit_sint_iff bit_signed_take_bit_iff min_def bit_simps)
  qed
  also have "\<dots> = signed_take_bit 15 (sint v div 65536)" by (simp add: sint_signed_drop_bit_eq drop_bit_eq_div)
  also have "\<dots> = sint v div 65536"
  proof (rule signed_take_bit_int_eq_self)
    have "- (2 ^ 31) \<le> sint v" "sint v < 2 ^ 31" using sint_ge [of v] sint_lt [of v] by simp_all
    moreover have "- 32768 \<le> x div 65536" "x div 65536 < 32768" if "- 2147483648 \<le> x" "x < 2147483648" for x :: int
      using that by linarith+
    ultimately show "- (2 ^ 15) \<le> sint v div 65536" "sint v div 65536 < 2 ^ 15" by simp_all
  qed
  finally show ?thesis .
qed

lemma converted: "rounds rnd \<Longrightarrow> sounds_like x (sample_to_s16 rnd x)"
  by (cases x) (simp_all add: scaled_near upper_half)

text \<open>Where a block lies in a run of blocks.\<close>

lemma length_frame_pcm: "length (frame_pcm rnd ch f) = ch * fr_samples f"
proof -
  have "length (concat (map (\<lambda>i. map (\<lambda>c. g i c) [0..<ch]) [0..<n])) = ch * n" for g :: "nat \<Rightarrow> nat \<Rightarrow> 16 word" and n
    by (induction n) simp_all
  then show ?thesis by (simp add: frame_pcm_def)
qed

definition block_start :: "nat \<Rightarrow> audio_frame list \<Rightarrow> nat \<Rightarrow> nat" where
  "block_start ch fs k = ch * sum_list (map fr_samples (take k fs))"

lemma block_nth:
  "k < length fs \<Longrightarrow> j < ch * fr_samples (fs ! k) \<Longrightarrow>
   concat (map (frame_pcm rnd ch) fs) ! (block_start ch fs k + j) = frame_pcm rnd ch (fs ! k) ! j"
proof (induction fs arbitrary: k)
  case (Cons f fs)
  show ?case
  proof (cases k)
    case 0
    then show ?thesis using Cons.prems by (simp add: block_start_def nth_append length_frame_pcm)
  next
    case (Suc k')
    have "block_start ch (f # fs) k + j = length (frame_pcm rnd ch f) + (block_start ch fs k' + j)"
      by (simp add: Suc block_start_def length_frame_pcm algebra_simps)
    moreover have "concat (map (frame_pcm rnd ch) fs) ! (block_start ch fs k' + j) = frame_pcm rnd ch (fs ! k') ! j"
      using Cons Suc by simp
    ultimately show ?thesis using Suc by (simp only: list.map concat.simps nth_append_length_plus nth_Cons_Suc)
  qed
qed simp

lemma length_blocks: "length (concat (map (frame_pcm rnd ch) fs)) = ch * sum_list (map fr_samples fs)"
  by (induction fs) (simp_all add: length_frame_pcm algebra_simps)

lemma block_sample:
  assumes "rounds rnd" and "k < length fs" and "i < fr_samples (fs ! k)" and "c < ch"
  shows "sounds_like (sample_at (fs ! k) ch c i) (concat (map (frame_pcm rnd ch) fs) ! (block_start ch fs k + (i * ch + c)))"
proof -
  note n = frame_pcm_nth [OF assms(3,4), of rnd]
  then have "i * ch + c < ch * fr_samples (fs ! k)" by (simp add: length_frame_pcm)
  then show ?thesis using n block_nth [OF assms(2)] converted [OF assms(1)] by simp
qed

lemma run_calls_append:
  "run_calls rnd (cs @ [Pull m]) d =
    (fst (run_calls rnd cs d) @ fst (pull_pcm_s16 m (snd (run_calls rnd cs d))), snd (pull_pcm_s16 m (snd (run_calls rnd cs d))))"
proof (induction cs arbitrary: d)
  case (Cons c cs)
  show ?case by (cases c) (simp_all add: Cons.IH split_def Let_def)
qed (simp add: split_def Let_def)

section \<open>Properties\<close>

text \<open>C11: The AudioSpecificConfig says what it was built from: it has four bytes, and its fields are read back
  as AAC-ELD without escape, the index of the rate, the channels in four bits, the flag of the frame
  length, and no extension.\<close>

theorem asc_roundtrip:
  "length (build_asc_aac_eld rate ch spf) = 4
   \<and> read_fields [5, 6, 4, 4, 1, 1, 1, 1, 1, 4] (all_bits (build_asc_aac_eld rate ch spf))
     = [31, 39 - 32, freq_index rate, ch mod 16, if spf = 480 then 1 else 0, 0, 0, 0, 0, 0]"
proof -
  have "map snd (asc_fields rate ch spf) = [5, 6, 4, 4, 1, 1, 1, 1, 1, 4]" by (simp add: asc_fields_def)
  then show ?thesis
    using read_fields_msb [of "asc_fields rate ch spf" "replicate 4 False"] asc_bits [of rate ch spf]
    by (simp add: asc_fields_def frame_length_flag_def)
qed

text \<open>C12: Whatever libavcodec answers and however the sound is pulled, a last pull that asks for enough
  completes exactly the sound: behind what was queued before come the blocks that were decoded, in their
  order and none twice; sample \<open>i\<close> of channel \<open>c\<close> of a block stands at \<open>i * channels + c\<close> of its place,
  taken from its plane or from the interleaved one, with the value it was decoded with (a float clipped
  and scaled); no pull gives more than it was asked for, and the blocks are counted.\<close>

theorem pcm_pulled_exact:
  assumes "ad_context d" and "ad_channels d = int ch" and "rounds rnd"
    and "int (length (ad_pcm (snd (run_calls rnd cs d)))) \<le> m"
  shows "let out = fst (run_calls rnd (cs @ [Pull m]) d); fs = decoded_frames cs; queued = length (ad_pcm d) in
    take queued out = ad_pcm d \<and> length out = queued + ch * sum_list (map fr_samples fs)
    \<and> (\<forall>k i c. k < length fs \<longrightarrow> i < fr_samples (fs ! k) \<longrightarrow> c < ch \<longrightarrow>
        sounds_like (if fr_planar (fs ! k) then fr_data (fs ! k) c i else fr_data (fs ! k) 0 (i * ch + c))
          (out ! (queued + ch * sum_list (map fr_samples (take k fs)) + (i * ch + c))))
    \<and> (\<forall>n e. length (fst (pull_pcm_s16 (int n) e)) = min n (length (ad_pcm e)))
    \<and> ad_frames (snd (run_calls rnd cs d)) = ad_frames d + word_of_nat (length fs)"
proof -
  let ?fs = "decoded_frames cs" and ?q = "length (ad_pcm d)"
  let ?blocks = "concat (map (frame_pcm rnd ch) ?fs)"
  note run = run_calls_pcm [OF assms(1), of rnd cs, unfolded assms(2) nat_int]
  have out: "fst (run_calls rnd (cs @ [Pull m]) d) = ad_pcm d @ ?blocks"
    using run assms(4) by (simp add: run_calls_append pull_pcm_s16_def Let_def)
  have "sounds_like (if fr_planar (?fs ! k) then fr_data (?fs ! k) c i else fr_data (?fs ! k) 0 (i * ch + c))
      ((ad_pcm d @ ?blocks) ! (?q + ch * sum_list (map fr_samples (take k ?fs)) + (i * ch + c)))"
    if "k < length ?fs" "i < fr_samples (?fs ! k)" "c < ch" for k i c
    using block_sample [OF assms(3) that] by (simp add: nth_append block_start_def sample_at_def add.assoc)
  moreover have "length (fst (pull_pcm_s16 (int n) e)) = min n (length (ad_pcm e))" for n e
    by (simp add: pull_pcm_s16_def Let_def min_def)
  ultimately show ?thesis using run unfolding Let_def out by (simp add: length_blocks)
qed

section \<open>Witnesses\<close>

definition sample_block :: audio_frame where
  "sample_block = \<lparr>fr_samples = 2, fr_planar = True, fr_data = (\<lambda>c i. S16 (word_of_nat (10 * c + i)))\<rparr>"

lemma sample_block_pcm: "frame_pcm (\<lambda>x. x) 2 sample_block = [0, 10, 1, 11]"
  by (simp add: frame_pcm_def sample_at_def sample_block_def upt_rec_numeral upt_conv_Cons)

definition opened_decoder :: audio_decoder where
  "opened_decoder = snd (init_audio (\<lambda>cd. True) (True, True) (\<lambda>cd r c e. True) default_config new_audio_decoder)"

lemma opened_decoder_fields: "ad_context opened_decoder" "ad_channels opened_decoder = 2" "ad_pcm opened_decoder = []" "ad_frames opened_decoder = 0"
  by (simp_all add: opened_decoder_def init_audio_def default_config_def new_audio_decoder_def)

theorem pcm_pulled_exact_witness:
  "let out = fst (run_calls (\<lambda>x. x) ([Feed [1] Accepted [Frame sample_block, Drained], Pull 3] @ [Pull 1]) opened_decoder) in
   length out = 4 \<and> out ! (1 * 2 + 0) = 1 \<and> out ! (0 * 2 + 1) = 10"
proof -
  define cs where "cs = [Feed [1] Accepted [Frame sample_block, Drained], Pull 3]"
  define out where "out = fst (run_calls (\<lambda>x. x) (cs @ [Pull 1]) opened_decoder)"
  have f: "decoded_frames cs = [sample_block]" by (simp add: cs_def)
  have r: "rounds (\<lambda>x. x)" by (simp add: rounds_def)
  have n: "int (length (ad_pcm (snd (run_calls (\<lambda>x. x) cs opened_decoder)))) \<le> 1"
    by (simp add: cs_def decode_audio_def opened_decoder_fields pull_pcm_s16_def sample_block_pcm Let_def split_def)
  have b: "fr_samples sample_block = 2" "fr_planar sample_block" "fr_data sample_block 0 1 = S16 1" "fr_data sample_block 1 0 = S16 10"
    by (simp_all add: sample_block_def)
  have ch: "ad_channels opened_decoder = int 2" by (simp add: opened_decoder_fields)
  note p = pcm_pulled_exact [OF opened_decoder_fields(1) ch r n, unfolded f Let_def opened_decoder_fields(3), folded out_def]
  have s: "sounds_like (fr_data sample_block c i) (out ! (i * 2 + c))" if "i < 2" "c < 2" for i c
    using p that by (simp add: b)
  have "length out = 4" using p by (simp add: b)
  moreover have "out ! (1 * 2 + 0) = 1" "out ! (0 * 2 + 1) = 10" using s [of 1 0, unfolded b] s [of 0 1, unfolded b] by simp_all
  ultimately show ?thesis unfolding out_def cs_def Let_def by blast
qed

end
