(* ===== verification/Player.thy ===== *)
theory Player
  imports Complex_Main Prelude
begin

text \<open>
  The two players of an HLS stream behind one class interface (src/video/hls_player.cpp over libavformat,
  src/video/hls_player_gstreamer.cpp over GStreamer). The libraries are scripts of answers; the calls of
  the other threads come between the steps of the player's own thread. The locale \<open>stoppable\<close> is what a
  user of a player relies on: a stop ends it and leaves nothing behind.
\<close>

locale stoppable =
  fixes stop_player :: "'s \<Rightarrow> 's" and idle :: "'s \<Rightarrow> bool" and start_player :: "'a \<Rightarrow> 's \<Rightarrow> bool \<times> 's" and playing :: "'s \<Rightarrow> bool"
  assumes stop_idle: "idle (stop_player s)"
    and idle_quiet: "idle s \<Longrightarrow> \<not> playing s"
    and failed_start: "\<not> fst (start_player a s) \<Longrightarrow> \<not> playing (snd (start_player a s))"
    and start_fresh: "idle s \<Longrightarrow> start_player a (stop_player s) = start_player a s"
begin

lemma stop_quiet: "\<not> playing (stop_player s)"
  using stop_idle idle_quiet by blast

lemma restart: "start_player a (stop_player (stop_player s)) = start_player a (stop_player s)"
  by (rule start_fresh [OF stop_idle])

end

section \<open>The player over libavformat\<close>

datatype stream_kind = Video_stream | Other_stream

text \<open>A frame: its planes with the lengths of their lines, and its size.\<close>

record picture =
  pt_planes :: "(bytes \<times> int) list"
  pt_width :: int
  pt_height :: int

datatype receive = Got_picture picture | No_picture

datatype read_answer =
    Read_eof
  | Read_error
  | Read_packet nat bool

text \<open>
  What the library answers, should the thread ask in its next step. A call that waits for the network may not
  be done yet (None): opening, reading the head of the streams, seeking, and reading a packet.
\<close>

record answers =
  an_context :: bool
  an_input :: "bool option"
  an_info :: "bool option"
  an_streams :: "stream_kind list"
  an_codec :: bool
  an_decoder :: bool
  an_seek :: "bool option"
  an_read :: "read_answer option"
  an_frame :: receive

text \<open>
  Where the thread stands. Every load of the flag \<open>running\<close> and every call is a step of its own, so that the
  calls of the other threads come between any two of them.
\<close>

datatype phase =
    Not_running
  | Allocating
  | Opening
  | Probing
  | At_top nat
  | Taking_seek nat
  | In_seek nat real
  | At_pause nat
  | Testing_rate nat
  | Before_read nat
  | In_read nat
  | At_eof
  | Notifying
  | Before_frame nat
  | In_frame nat
  | Leaving

text \<open>A negative \<open>pl_seek\<close> is no request.\<close>

record player =
  pl_running :: bool
  pl_rate :: real
  pl_seek :: real
  pl_renderer :: bool
  pl_url :: string
  pl_thread :: phase

definition new_player :: player where
  "new_player = \<lparr>pl_running = False, pl_rate = 1, pl_seek = -1, pl_renderer = False, pl_url = [], pl_thread = Not_running\<rparr>"

datatype player_effect = Seeked real bool | Shown picture | End_notified

text \<open>The two halves of a stop: the flag, and the wait for the thread. A stop that has returned has joined the
  thread.\<close>

definition request_stop :: "player \<Rightarrow> player" where
  "request_stop p = p\<lparr>pl_running := False\<rparr>"

definition stop_player :: "player \<Rightarrow> player" where
  "stop_player p = (request_stop p)\<lparr>pl_thread := Not_running\<rparr>"

definition start_player :: "string \<times> bool \<Rightarrow> player \<Rightarrow> bool \<times> player" where
  "start_player u p =
     (True, (stop_player p)\<lparr>pl_running := True, pl_rate := 1, pl_renderer := snd u, pl_url := fst u, pl_thread := Allocating\<rparr>)"

definition set_rate :: "real \<Rightarrow> player \<Rightarrow> player" where
  "set_rate r p = p\<lparr>pl_rate := r\<rparr>"

definition seek :: "real \<Rightarrow> player \<Rightarrow> player" where
  "seek pos p = (if 0 \<le> pos then p\<lparr>pl_seek := pos\<rparr> else p)"

text \<open>The callback that the library asks while a call waits.\<close>

definition interrupt_cb :: "player \<Rightarrow> bool" where
  "interrupt_cb p \<longleftrightarrow> \<not> pl_running p"

text \<open>A call that waits, as libavformat documents it: it returns when it has its answer; while it has none it
  asks the callback, and when that says so it returns an error; otherwise it waits on.\<close>

definition awaited :: "bool \<Rightarrow> 'r \<Rightarrow> 'r option \<Rightarrow> 'r option" where
  "awaited interrupted failure answer =
     (case answer of Some r \<Rightarrow> Some r | None \<Rightarrow> if interrupted then Some failure else None)"

definition move :: "phase \<Rightarrow> player \<Rightarrow> player_effect list \<times> player" where
  "move ph p = ([], p\<lparr>pl_thread := ph\<rparr>)"

text \<open>The opening gives up: \<open>running\<close> is cleared and the thread returns.\<close>

definition give_up :: "player \<Rightarrow> player_effect list \<times> player" where
  "give_up p = ([], p\<lparr>pl_running := False, pl_thread := Not_running\<rparr>)"

text \<open>Once the head of the streams is read: the first video stream, when its decoder opens.\<close>

definition open_stream :: "answers \<Rightarrow> nat option" where
  "open_stream a =
     (case find_pred (\<lambda>k. k = Video_stream) (an_streams a) of
        None \<Rightarrow> None
      | Some i \<Rightarrow> if an_codec a \<and> an_decoder a then Some i else None)"

definition open_step :: "answers \<Rightarrow> player \<Rightarrow> player_effect list \<times> player" where
  "open_step a p =
     (case awaited (interrupt_cb p) False (an_input a) of
        None \<Rightarrow> ([], p)
      | Some ok \<Rightarrow> if ok then move Probing p else give_up p)"

definition probe_step :: "answers \<Rightarrow> player \<Rightarrow> player_effect list \<times> player" where
  "probe_step a p =
     (case awaited (interrupt_cb p) False (an_info a) of
        None \<Rightarrow> ([], p)
      | Some ok \<Rightarrow> if \<not> ok then give_up p
                   else case open_stream a of None \<Rightarrow> give_up p | Some i \<Rightarrow> move (At_top i) p)"

definition take_seek :: "nat \<Rightarrow> player \<Rightarrow> player_effect list \<times> player" where
  "take_seek i p =
     (let to = pl_seek p; p1 = p\<lparr>pl_seek := -1\<rparr>
      in if 0 \<le> to then move (In_seek i to) p1 else move (At_pause i) p1)"

definition seek_step :: "answers \<Rightarrow> nat \<Rightarrow> real \<Rightarrow> player \<Rightarrow> player_effect list \<times> player" where
  "seek_step a i to p =
     (case awaited (interrupt_cb p) False (an_seek a) of
        None \<Rightarrow> ([], p)
      | Some ok \<Rightarrow> ([Seeked to ok], p\<lparr>pl_thread := At_pause i\<rparr>))"

definition read_step :: "answers \<Rightarrow> nat \<Rightarrow> player \<Rightarrow> player_effect list \<times> player" where
  "read_step a i p =
     (case awaited (interrupt_cb p) Read_error (an_read a) of
        None \<Rightarrow> ([], p)
      | Some Read_eof \<Rightarrow> move At_eof p
      | Some Read_error \<Rightarrow> move Leaving p
      | Some (Read_packet idx sent) \<Rightarrow> if idx \<noteq> i \<or> \<not> sent then move (At_top i) p else move (Before_frame i) p)"

definition frame_step :: "answers \<Rightarrow> nat \<Rightarrow> player \<Rightarrow> player_effect list \<times> player" where
  "frame_step a i p =
     (case an_frame a of
        No_picture \<Rightarrow> move (At_top i) p
      | Got_picture q \<Rightarrow>
          (if pl_renderer p \<and> 0 < pt_width q \<and> 0 < pt_height q then [Shown q] else [], p\<lparr>pl_thread := Before_frame i\<rparr>))"

definition thread_step :: "answers \<Rightarrow> player \<Rightarrow> player_effect list \<times> player" where
  "thread_step a p =
     (case pl_thread p of
        Not_running \<Rightarrow> ([], p)
      | Allocating \<Rightarrow> if an_context a then move Opening p else give_up p
      | Opening \<Rightarrow> open_step a p
      | Probing \<Rightarrow> probe_step a p
      | At_top i \<Rightarrow> if pl_running p then move (Taking_seek i) p else move Leaving p
      | Taking_seek i \<Rightarrow> take_seek i p
      | In_seek i to \<Rightarrow> seek_step a i to p
      | At_pause i \<Rightarrow> if pl_running p then move (Testing_rate i) p else move (Before_read i) p
      | Testing_rate i \<Rightarrow> if pl_rate p \<le> 0 then move (At_pause i) p else move (Before_read i) p
      | Before_read i \<Rightarrow> if pl_running p then move (In_read i) p else move Leaving p
      | In_read i \<Rightarrow> read_step a i p
      | At_eof \<Rightarrow> ([], p\<lparr>pl_running := False, pl_thread := Notifying\<rparr>)
      | Notifying \<Rightarrow> ([End_notified], p\<lparr>pl_thread := Leaving\<rparr>)
      | Before_frame i \<Rightarrow> if pl_running p then move (In_frame i) p else move (At_top i) p
      | In_frame i \<Rightarrow> frame_step a i p
      | Leaving \<Rightarrow> move Not_running p)"

datatype player_event = Set_rate real | Seek real | Request_stop | Step answers

fun player_step :: "player_event \<Rightarrow> player \<Rightarrow> player_effect list \<times> player" where
  "player_step (Set_rate r) p = ([], set_rate r p)"
| "player_step (Seek pos) p = ([], seek pos p)"
| "player_step Request_stop p = ([], request_stop p)"
| "player_step (Step a) p = thread_step a p"

fun run_player :: "player_event list \<Rightarrow> player \<Rightarrow> player_effect list \<times> player" where
  "run_player [] p = ([], p)"
| "run_player (e # es) p = (let (a, p1) = player_step e p; (b, p2) = run_player es p1 in (a @ b, p2))"

lemmas thread_step_defs = thread_step_def move_def give_up_def open_step_def probe_step_def take_seek_def seek_step_def
  read_step_def frame_step_def awaited_def interrupt_cb_def Let_def

lemma run_player_append:
  "run_player (es @ fs) p =
     (fst (run_player es p) @ fst (run_player fs (snd (run_player es p))), snd (run_player fs (snd (run_player es p))))"
  by (induction es arbitrary: p) (simp_all add: split_def Let_def)

subsection \<open>After a stop\<close>

text \<open>How many steps the thread takes at most until it has ended, once it is to stop.\<close>

fun steps_left :: "phase \<Rightarrow> nat" where
  "steps_left Not_running = 0"
| "steps_left Leaving = 1"
| "steps_left Notifying = 2"
| "steps_left (Before_read _) = 2"
| "steps_left (At_top _) = 2"
| "steps_left At_eof = 3"
| "steps_left (At_pause _) = 3"
| "steps_left (Before_frame _) = 3"
| "steps_left Probing = 3"
| "steps_left (Testing_rate _) = 4"
| "steps_left (In_read _) = 4"
| "steps_left (In_frame _) = 4"
| "steps_left (In_seek _ _) = 4"
| "steps_left Opening = 4"
| "steps_left (Taking_seek _) = 5"
| "steps_left Allocating = 5"

text \<open>The one effect that the thread may already be on its way to, past its last look at \<open>running\<close>.\<close>

fun under_way :: "phase \<Rightarrow> player_effect \<Rightarrow> bool" where
  "under_way (Taking_seek _) c = (case c of Seeked _ _ \<Rightarrow> True | _ \<Rightarrow> False)"
| "under_way (In_seek _ to) c = (case c of Seeked pos _ \<Rightarrow> pos = to | _ \<Rightarrow> False)"
| "under_way (In_frame _) c = (case c of Shown _ \<Rightarrow> True | _ \<Rightarrow> False)"
| "under_way (In_read _) c = (c = End_notified)"
| "under_way At_eof c = (c = End_notified)"
| "under_way Notifying c = (c = End_notified)"
| "under_way _ c = False"

fun is_step :: "player_event \<Rightarrow> bool" where
  "is_step (Step _) = True"
| "is_step _ = False"

lemma stopped_stays: "\<not> pl_running p \<Longrightarrow> \<not> pl_running (snd (player_step e p))"
  by (cases e) (auto simp: set_rate_def seek_def request_stop_def thread_step_defs
    split: phase.split option.split read_answer.split receive.split)

lemma call_keeps_phase: "\<not> is_step e \<Longrightarrow> pl_thread (snd (player_step e p)) = pl_thread p \<and> fst (player_step e p) = []"
  by (cases e) (simp_all add: set_rate_def seek_def request_stop_def)

lemma stopped_step_left:
  "\<not> pl_running p \<Longrightarrow> steps_left (pl_thread (snd (thread_step a p))) \<le> steps_left (pl_thread p) - 1"
  by (cases "pl_thread p") (auto simp: thread_step_defs split: option.split read_answer.split receive.split)

lemma stopped_step_effect:
  assumes "\<not> pl_running p"
  shows "fst (thread_step a p) = [] \<and> (\<forall>c. under_way (pl_thread (snd (thread_step a p))) c \<longrightarrow> under_way (pl_thread p) c)
    \<or> (\<exists>c. fst (thread_step a p) = [c] \<and> under_way (pl_thread p) c \<and> (\<forall>c. \<not> under_way (pl_thread (snd (thread_step a p))) c))"
  using assms by (cases "pl_thread p")
    (auto simp: thread_step_defs split: option.split read_answer.split receive.split player_effect.splits)

lemma stopped_ends:
  "\<not> pl_running p \<Longrightarrow> steps_left (pl_thread (snd (run_player es p))) \<le> steps_left (pl_thread p) - length (filter is_step es)"
proof (induction es arbitrary: p)
  case (Cons e es)
  let ?q = "snd (player_step e p)"
  have "steps_left (pl_thread ?q) \<le> steps_left (pl_thread p) - (if is_step e then 1 else 0)"
    using stopped_step_left [OF Cons.prems] call_keeps_phase [of e p] by (cases e) auto
  with Cons.IH [OF stopped_stays [OF Cons.prems, of e]] show ?case by (auto simp: split_def Let_def)
qed simp

lemma stopped_effects:
  "\<not> pl_running p \<Longrightarrow> fst (run_player es p) = [] \<or> (\<exists>c. fst (run_player es p) = [c] \<and> under_way (pl_thread p) c)"
proof (induction es arbitrary: p)
  case (Cons e es)
  let ?q = "snd (player_step e p)"
  have r: "fst (run_player (e # es) p) = fst (player_step e p) @ fst (run_player es ?q)" by (simp add: split_def Let_def)
  have IH: "fst (run_player es ?q) = [] \<or> (\<exists>c. fst (run_player es ?q) = [c] \<and> under_way (pl_thread ?q) c)"
    by (rule Cons.IH [OF stopped_stays [OF Cons.prems]])
  show ?case
  proof (cases e)
    case (Step a)
    then show ?thesis using r IH stopped_step_effect [OF Cons.prems, of a] by auto
  qed (use r IH call_keeps_phase [of e p] in auto)
qed simp

lemma steps_left_le: "steps_left ph \<le> 5"
  by (cases ph) simp_all

lemma none_left: "steps_left ph = 0 \<longleftrightarrow> ph = Not_running"
  by (cases ph) simp_all

subsection \<open>The end of the stream\<close>

text \<open>It is reported at most once, and nothing follows it.\<close>

lemma over_step:
  "pl_thread p \<in> {Leaving, Not_running} \<Longrightarrow> fst (player_step e p) = [] \<and> pl_thread (snd (player_step e p)) \<in> {Leaving, Not_running}"
  by (cases e) (auto simp: set_rate_def seek_def request_stop_def thread_step_defs)

lemma over_run: "pl_thread p \<in> {Leaving, Not_running} \<Longrightarrow> fst (run_player es p) = []"
proof (induction es arbitrary: p)
  case (Cons e es)
  then show ?case using over_step [OF Cons.prems, of e] by (simp add: split_def Let_def)
qed simp

lemma end_step:
  "End_notified \<in> set (fst (player_step e p)) \<Longrightarrow>
     fst (player_step e p) = [End_notified] \<and> pl_thread (snd (player_step e p)) = Leaving"
  by (cases e; cases "pl_thread p") (auto simp: thread_step_defs split: option.splits read_answer.splits receive.splits if_splits)

lemma end_is_last:
  "fst (run_player es p) = as @ End_notified # bs \<Longrightarrow> bs = [] \<and> End_notified \<notin> set as"
proof (induction es arbitrary: p as)
  case (Cons e es)
  let ?a = "fst (player_step e p)" and ?p = "snd (player_step e p)"
  have r: "fst (run_player (e # es) p) = ?a @ fst (run_player es ?p)" by (simp add: split_def Let_def)
  show ?case
  proof (cases "End_notified \<in> set ?a")
    case True
    then have "?a = [End_notified]" "fst (run_player es ?p) = []" using end_step [OF True] over_run [of ?p es] by auto
    then have "[End_notified] = as @ End_notified # bs" using r Cons.prems by simp
    then show ?thesis by (cases as) auto
  next
    case False
    then obtain us where "as = ?a @ us" "fst (run_player es ?p) = us @ End_notified # bs"
      using r Cons.prems by (auto simp: append_eq_append_conv2 append_eq_Cons_conv Cons_eq_append_conv)
    then show ?thesis using Cons.IH [of ?p us] False by auto
  qed
qed simp

subsection \<open>What else the thread does\<close>

text \<open>A player that is not told to stop waits for its library: a read without an answer goes on waiting.\<close>

lemma read_waits:
  assumes "pl_running p" and "pl_thread p = In_read i" and "an_read a = None"
  shows "thread_step a p = ([], p)"
  using assms by (simp add: thread_step_defs)

text \<open>The end of a stream is reported even when a stop came while the read was under way.\<close>

lemma end_after_stop:
  assumes "pl_thread p = In_read i" and "an_read a = Some Read_eof"
  shows "fst (run_player [Request_stop, Step a, Step a, Step a] p) = [End_notified]"
  using assms by (simp add: request_stop_def thread_step_defs)

text \<open>A player is reused from one video to the next, and a request to seek that the last one did not take is
  taken by the next.\<close>

lemma stale_seek_applied:
  assumes "open_stream a = Some i" and "an_context a" and "an_input a = Some True" and "an_info a = Some True"
    and "an_seek a = Some ok" and "0 \<le> pl_seek p"
  shows "fst (run_player (replicate 6 (Step a)) (snd (start_player u p))) = [Seeked (pl_seek p) ok]"
  using assms by (simp add: start_player_def stop_player_def request_stop_def thread_step_defs numeral_eq_Suc)

text \<open>A request to seek that comes during a pause is taken only after the next packet of the old place has been
  shown.\<close>

lemma paused_seek_late:
  assumes "pl_running p" and "pl_thread p = At_pause i" and "0 < pl_rate p" and "0 \<le> pos" and "pl_renderer p"
    and "an_read a = Some (Read_packet i True)" and "an_frame a = Got_picture q" and "0 < pt_width q" and "0 < pt_height q"
    and "an_frame b = No_picture" and "an_seek b = Some ok"
  shows "fst (run_player (Seek pos # replicate 6 (Step a) @ replicate 5 (Step b)) p) = [Shown q, Seeked pos ok]"
  using assms by (simp add: seek_def thread_step_defs numeral_eq_Suc)

text \<open>A player that cannot read on ends its thread, but still counts as running, and reports no end.\<close>

lemma failed_read_unreported:
  assumes "pl_running p" and "pl_thread p = In_read i" and "an_read a = Some Read_error"
  shows "run_player [Step a, Step a] p = ([], p\<lparr>pl_thread := Not_running\<rparr>)"
  using assms by (simp add: thread_step_defs)

interpretation lavf: stoppable stop_player "\<lambda>p. \<not> pl_running p \<and> pl_thread p = Not_running" start_player pl_running
  by unfold_locales (auto simp: stop_player_def start_player_def request_stop_def)

section \<open>The player over GStreamer\<close>

text \<open>The factories that make an element, whether the pipeline starts, and what it then does.\<close>

record gst_answers =
  ga_playbin :: bool
  ga_playbin3 :: bool
  ga_appsink :: bool
  ga_starts :: bool

record gst_player =
  gp_pipeline :: bool
  gp_appsink :: bool
  gp_loop :: bool
  gp_loop_running :: bool
  gp_thread :: bool
  gp_watch :: bool
  gp_renderer :: bool
  gp_running :: bool

definition new_gst :: gst_player where
  "new_gst = \<lparr>gp_pipeline = False, gp_appsink = False, gp_loop = False, gp_loop_running = False, gp_thread = False,
     gp_watch = False, gp_renderer = False, gp_running = False\<rparr>"

datatype gst_call = Make_pipeline | Set_state_playing | Set_state_paused | Set_state_null | Seek_to int | Remove_watch | Quit_loop | Join_loop | Unref_pipeline

definition stop_gst :: "gst_player \<Rightarrow> gst_call list \<times> gst_player" where
  "stop_gst g =
     ((if gp_pipeline g then [Set_state_null] else []) @ (if gp_watch g then [Remove_watch] else [])
      @ (if gp_loop g then [Quit_loop] else []) @ (if gp_thread g then [Join_loop] else [])
      @ (if gp_pipeline g then [Unref_pipeline] else []),
      g\<lparr>gp_running := False, gp_watch := False, gp_loop_running := False, gp_thread := False, gp_pipeline := False,
        gp_appsink := False, gp_loop := False, gp_renderer := False\<rparr>)"

definition start_gst :: "gst_answers \<times> bool \<Rightarrow> gst_player \<Rightarrow> bool \<times> gst_player" where
  "start_gst ar g =
     (let a = fst ar; g1 = (snd (stop_gst g))\<lparr>gp_running := True, gp_renderer := snd ar\<rparr>
      in if \<not> ga_playbin a \<and> \<not> ga_playbin3 a then (False, g1\<lparr>gp_running := False\<rparr>)
         else let g2 = g1\<lparr>gp_pipeline := True\<rparr>
              in if \<not> ga_appsink a then (False, snd (stop_gst g2))
                 else let g3 = g2\<lparr>gp_appsink := True, gp_watch := True\<rparr>
                      in if \<not> ga_starts a then (False, snd (stop_gst g3))
                         else (True, g3\<lparr>gp_loop := True, gp_loop_running := True, gp_thread := True\<rparr>))"

definition set_rate_gst :: "real \<Rightarrow> gst_player \<Rightarrow> gst_call list" where
  "set_rate_gst r g = (if \<not> gp_pipeline g then [] else if 0 < r then [Set_state_playing] else [Set_state_paused])"

definition seek_gst :: "(real \<Rightarrow> int) \<Rightarrow> real \<Rightarrow> gst_player \<Rightarrow> gst_call list" where
  "seek_gst to_ns pos g = (if \<not> gp_pipeline g \<or> pos < 0 then [] else [Seek_to (to_ns pos)])"

datatype bus_message = Bus_error | Bus_eos | Bus_other

text \<open>The result says whether the end is reported.\<close>

definition on_bus_message :: "bus_message \<Rightarrow> gst_player \<Rightarrow> bool \<times> gst_player" where
  "on_bus_message m g =
     (case m of
        Bus_error \<Rightarrow> (False, g\<lparr>gp_loop_running := False\<rparr>)
      | Bus_eos \<Rightarrow> (True, g\<lparr>gp_running := False, gp_loop_running := False\<rparr>)
      | Bus_other \<Rightarrow> (False, g))"

text \<open>A sample: None when none could be pulled; its picture when it has caps and a buffer that can be mapped.\<close>

definition on_new_sample :: "picture option option \<Rightarrow> gst_player \<Rightarrow> picture list \<times> bool" where
  "on_new_sample sample g =
     (case sample of
        None \<Rightarrow> ([], False)
      | Some None \<Rightarrow> ([], True)
      | Some (Some q) \<Rightarrow> (if gp_renderer g \<and> 0 < pt_width q \<and> 0 < pt_height q then [q] else [], True))"

interpretation gst: stoppable "\<lambda>g. snd (stop_gst g)"
  "\<lambda>g. \<not> gp_running g \<and> \<not> gp_pipeline g \<and> \<not> gp_appsink g \<and> \<not> gp_loop g \<and> \<not> gp_thread g \<and> \<not> gp_watch g"
  start_gst gp_running
  by unfold_locales (auto simp: stop_gst_def start_gst_def Let_def)

text \<open>What a started player holds: a loop has a thread, and a watch, a sink and a loop belong to a pipeline.\<close>

definition gst_ok :: "gst_player \<Rightarrow> bool" where
  "gst_ok g \<longleftrightarrow> (gp_loop g \<longleftrightarrow> gp_thread g) \<and> (gp_watch g \<or> gp_appsink g \<or> gp_loop g \<longrightarrow> gp_pipeline g) \<and> (gp_loop_running g \<longrightarrow> gp_loop g)"

datatype gst_event = Start_gst gst_answers bool | Stop_gst | Bus bus_message

fun gst_step :: "gst_event \<Rightarrow> gst_player \<Rightarrow> gst_player" where
  "gst_step (Start_gst a r) g = snd (start_gst (a, r) g)"
| "gst_step Stop_gst g = snd (stop_gst g)"
| "gst_step (Bus m) g = snd (on_bus_message m g)"

lemma gst_ok_step: "gst_ok g \<Longrightarrow> gst_ok (gst_step e g)"
  by (cases e) (auto simp: gst_ok_def start_gst_def stop_gst_def on_bus_message_def Let_def split: bus_message.split)

lemma gst_ok_run: "gst_ok (fold gst_step es new_gst)"
proof -
  have "gst_ok g \<Longrightarrow> gst_ok (fold gst_step es g)" for g by (induction es arbitrary: g) (simp_all add: gst_ok_step)
  moreover have "gst_ok new_gst" by (simp add: gst_ok_def new_gst_def)
  ultimately show ?thesis .
qed

text \<open>Whatever happened before, a stop releases each thing that is held exactly once and in an order that is safe:
  the pipeline is silent before the loop ends, and freed last.\<close>

lemma stop_gst_calls:
  assumes "gst_ok g"
  shows "fst (stop_gst g) \<in> {[], [Set_state_null, Unref_pipeline], [Set_state_null, Remove_watch, Unref_pipeline],
      [Set_state_null, Remove_watch, Quit_loop, Join_loop, Unref_pipeline], [Set_state_null, Quit_loop, Join_loop, Unref_pipeline]}"
  using assms by (auto simp: stop_gst_def gst_ok_def)

section \<open>Properties\<close>

text \<open>C32: A player that is told to stop stops. The flag may be cleared between any two steps of the thread, also
  while a call of libavformat waits for a network that never answers: five steps later at the most the thread has
  ended, so that the join of \<open>stop\<close> returns. A step of a call that waits
  is one question to the interrupt callback; that the library asks it again and again, and that the decoder, the
  renderer and the end callback return, is assumed. After the stop at most one thing still happens, and only when
  the thread was past its last look at the flag: the seek it had taken, the picture it was decoding, or the end
  of a stream it was reading. Over the whole run the end is reported at most once, as the last thing.\<close>

theorem player_stops:
  assumes "5 \<le> length (filter is_step fs)"
  shows "pl_thread (snd (run_player (es @ Request_stop # fs) p)) = Not_running
    \<and> \<not> pl_running (snd (run_player (es @ Request_stop # fs) p))
    \<and> (\<exists>late. fst (run_player (es @ Request_stop # fs) p) = fst (run_player es p) @ late
         \<and> (late = [] \<or> (\<exists>c. late = [c] \<and> under_way (pl_thread (snd (run_player es p))) c)))
    \<and> (\<forall>as bs. fst (run_player (es @ Request_stop # fs) p) = as @ End_notified # bs \<longrightarrow> bs = [] \<and> End_notified \<notin> set as)"
proof -
  let ?q = "request_stop (snd (run_player es p))"
  have off: "\<not> pl_running ?q" "pl_thread ?q = pl_thread (snd (run_player es p))" by (simp_all add: request_stop_def)
  have r: "run_player (es @ Request_stop # fs) p = (fst (run_player es p) @ fst (run_player fs ?q), snd (run_player fs ?q))"
    by (simp add: run_player_append split_def)
  have "\<not> pl_running (snd (run_player fs ?q))"
    using off(1) by (induction fs arbitrary: p es rule: rev_induct) (simp_all add: run_player_append split_def stopped_stays)
  moreover have "pl_thread (snd (run_player fs ?q)) = Not_running"
    using stopped_ends [OF off(1), of fs] steps_left_le [of "pl_thread ?q"] assms by (simp flip: none_left)
  ultimately show ?thesis using stopped_effects [OF off(1), of fs] end_is_last [of "es @ Request_stop # fs" p] r off(2) by simp
qed

section \<open>Witnesses\<close>

definition sample_picture :: picture where
  "sample_picture = \<lparr>pt_planes = [], pt_width = 2, pt_height = 2\<rparr>"

text \<open>A library that opens the stream and gives one picture, and one that never answers.\<close>

definition sample_answers :: answers where
  "sample_answers = \<lparr>an_context = True, an_input = Some True, an_info = Some True, an_streams = [Video_stream], an_codec = True,
     an_decoder = True, an_seek = Some True, an_read = Some (Read_packet 0 True), an_frame = Got_picture sample_picture\<rparr>"

definition silent_answers :: answers where
  "silent_answers = \<lparr>an_context = True, an_input = None, an_info = None, an_streams = [], an_codec = True,
     an_decoder = True, an_seek = None, an_read = None, an_frame = No_picture\<rparr>"

definition sample_play :: "player_event list" where
  "sample_play = replicate 11 (Step sample_answers) @ replicate 9 (Step silent_answers)"

text \<open>The stop comes while the second read waits.\<close>

theorem player_stops_witness:
  "pl_thread (snd (run_player sample_play (snd (start_player (''u'', True) new_player)))) = In_read 0
    \<and> fst (run_player (sample_play @ Request_stop # replicate 5 (Step silent_answers)) (snd (start_player (''u'', True) new_player)))
      = [Shown sample_picture]
    \<and> pl_thread (snd (run_player (sample_play @ Request_stop # replicate 5 (Step silent_answers))
        (snd (start_player (''u'', True) new_player)))) = Not_running"
proof -
  have "5 \<le> length (filter is_step (replicate 5 (Step silent_answers)))" by simp
  note stops = player_stops [OF this, of sample_play "snd (start_player (''u'', True) new_player)"]
  have "pl_thread (snd (run_player sample_play (snd (start_player (''u'', True) new_player)))) = In_read 0
    \<and> fst (run_player (sample_play @ Request_stop # replicate 5 (Step silent_answers)) (snd (start_player (''u'', True) new_player)))
      = [Shown sample_picture]" by code_simp
  with stops show ?thesis by simp
qed

end
