(* ===== verification/Firewall.thy ===== *)
theory Firewall
  imports Prelude
begin

text \<open>
  The check of the Windows firewall (src/platform/firewall.cpp): which rules count, the decision whether the
  receiver can be reached, the change that an elevated helper makes, and the monitor with its worker thread.
  What the firewall interface of Windows returns is an argument, with None where a call fails. At the end
  the lock that keeps a second process from starting (src/platform/single_instance.h).
\<close>

section \<open>The decision\<close>

datatype firewall_state = Checking | Allowed | Needs_rule | Managed | Unknown

record firewall_rule =
  fr_profiles :: u32
  fr_protocol :: int
  fr_block :: bool
  fr_full :: bool

fun weigh_rules :: "u32 \<Rightarrow> firewall_rule list \<Rightarrow> u32 \<Rightarrow> u32 \<Rightarrow> (u32 \<times> u32) option" where
  "weigh_rules required [] tcp udp = Some (tcp, udp)"
| "weigh_rules required (r # rs) tcp udp =
     (if fr_block r \<and> fr_profiles r AND required \<noteq> 0 then None
      else if \<not> fr_full r then weigh_rules required rs tcp udp
      else weigh_rules required rs
             (if fr_protocol r = 256 \<or> fr_protocol r = 6 then tcp OR fr_profiles r else tcp)
             (if fr_protocol r = 256 \<or> fr_protocol r = 17 then udp OR fr_profiles r else udp))"

definition evaluate_firewall :: "u32 \<Rightarrow> u32 \<Rightarrow> u32 \<Rightarrow> firewall_rule list \<Rightarrow> firewall_state" where
  "evaluate_firewall required blocked defaults rules =
     (if blocked AND required \<noteq> 0 then Managed
      else case weigh_rules required rules defaults defaults of
             None \<Rightarrow> Needs_rule
           | Some (tcp, udp) \<Rightarrow> if tcp AND udp AND required = required then Allowed else Needs_rule)"

text \<open>The reference: a profile in force is open when nothing blocks it and both protocols are let in, by default
  or by a rule that covers every port and neighbour.\<close>

definition lets_in :: "int \<Rightarrow> u32 \<Rightarrow> firewall_rule list \<Rightarrow> nat \<Rightarrow> bool" where
  "lets_in protocol defaults rules n \<longleftrightarrow>
     bit defaults n \<or> list_ex (\<lambda>r. fr_full r \<and> (fr_protocol r = 256 \<or> fr_protocol r = protocol) \<and> bit (fr_profiles r) n) rules"

definition profile_open :: "u32 \<Rightarrow> u32 \<Rightarrow> firewall_rule list \<Rightarrow> nat \<Rightarrow> bool" where
  "profile_open blocked defaults rules n \<longleftrightarrow>
     \<not> bit blocked n \<and> list_all (\<lambda>r. fr_block r \<longrightarrow> \<not> bit (fr_profiles r) n) rules
     \<and> lets_in 6 defaults rules n \<and> lets_in 17 defaults rules n"

lemma weigh_rules_None:
  "weigh_rules required rs tcp udp = None \<longleftrightarrow> list_ex (\<lambda>r. fr_block r \<and> fr_profiles r AND required \<noteq> 0) rs"
  by (induction required rs tcp udp rule: weigh_rules.induct) auto

lemma weigh_rules_Some:
  "weigh_rules required rs tcp udp = Some (t, v) \<Longrightarrow>
   bit t n = (bit tcp n \<or> list_ex (\<lambda>r. fr_full r \<and> (fr_protocol r = 256 \<or> fr_protocol r = 6) \<and> bit (fr_profiles r) n) rs) \<and>
   bit v n = (bit udp n \<or> list_ex (\<lambda>r. fr_full r \<and> (fr_protocol r = 256 \<or> fr_protocol r = 17) \<and> bit (fr_profiles r) n) rs)"
  by (induction required rs tcp udp rule: weigh_rules.induct) (auto simp: bit_or_iff split: if_splits)

lemma bit_small: "bit (w :: u32) n \<Longrightarrow> n < 32"
  using bit_imp_le_length [of w n] by simp

lemma common_bits: "a AND (b :: u32) = 0 \<longleftrightarrow> (\<forall>n < 32. \<not> (bit a n \<and> bit b n))"
  by (auto simp: bit_eq_iff bit_and_iff dest: bit_small)

lemma contained_bits: "a AND b AND (c :: u32) = c \<longleftrightarrow> (\<forall>n < 32. bit c n \<longrightarrow> bit a n \<and> bit b n)"
  by (auto simp: bit_eq_iff bit_and_iff dest: bit_small)

lemma evaluate_allowed:
  "evaluate_firewall required blocked defaults rules = Allowed \<longleftrightarrow>
   (\<forall>n < 32. bit required n \<longrightarrow> profile_open blocked defaults rules n)"
proof (cases "blocked AND required = 0")
  case False
  then obtain n where "n < 32" "bit blocked n" "bit required n" unfolding common_bits by blast
  then show ?thesis using False by (auto simp: evaluate_firewall_def profile_open_def)
next
  case True
  show ?thesis
  proof (cases "weigh_rules required rules defaults defaults")
    case None
    then obtain r where r: "r \<in> set rules" "fr_block r" "fr_profiles r AND required \<noteq> 0"
      by (auto simp: weigh_rules_None list_ex_iff)
    then obtain n where "n < 32" "bit (fr_profiles r) n" "bit required n" unfolding common_bits by blast
    then show ?thesis using r True None unfolding evaluate_firewall_def profile_open_def list_all_iff by simp blast
  next
    case (Some p)
    obtain t v where p: "p = (t, v)" by (cases p)
    have nb: "\<not> list_ex (\<lambda>r. fr_block r \<and> fr_profiles r AND required \<noteq> 0) rules"
      using weigh_rules_None [of required rules defaults defaults] Some by simp
    have b: "bit t n = lets_in 6 defaults rules n" "bit v n = lets_in 17 defaults rules n" for n
      using weigh_rules_Some [of required rules defaults defaults t v n] Some p by (auto simp: lets_in_def)
    have k: "\<not> bit (fr_profiles r) n" if "r \<in> set rules" "n < 32" "bit required n" "fr_block r" for r n
    proof -
      have "fr_profiles r AND required = 0" using nb that(1,4) by (auto simp: list_ex_iff)
      then show ?thesis using that(2,3) unfolding common_bits by blast
    qed
    moreover have "\<not> bit blocked n" if "n < 32" "bit required n" for n using True that unfolding common_bits by blast
    moreover have "evaluate_firewall required blocked defaults rules = Allowed \<longleftrightarrow> t AND v AND required = required"
      using True Some p by (simp add: evaluate_firewall_def)
    ultimately show ?thesis using k unfolding contained_bits profile_open_def b list_all_iff by blast
  qed
qed

section \<open>The rules that count\<close>

text \<open>A rule as it is read, each field None where the call failed; the texts are compared in lower case with
  backslashes (\<open>normalized\<close>). They are modelled as byte strings, so for a path of ASCII characters the
  hash of the path is the one of the source, which runs over 16-bit characters.\<close>

record native_rule =
  nr_enabled :: "bool option"
  nr_inbound :: "bool option"
  nr_application :: "string option"
  nr_block :: "bool option"
  nr_profiles :: "u32 option"
  nr_protocol :: "int option"
  nr_name :: "string option"
  nr_ports :: "string option"
  nr_local :: "string option"
  nr_remote :: "string option"
  nr_service :: "string option"
  nr_interfaces :: "string option"
  nr_all_interfaces :: bool

record fw_entry =
  en_name :: string
  en_exact :: bool
  en_model :: firewall_rule
  en_enabled :: bool

definition any_text :: "string \<Rightarrow> bool" where
  "any_text s \<longleftrightarrow> s = [] \<or> s = ''*''"

definition normalized :: "(string \<Rightarrow> string) \<Rightarrow> string \<Rightarrow> string" where
  "normalized expand s =
     map (\<lambda>c. if c = CHR ''/'' then CHR 0x5C else tolower c) (if CHR 0x25 \<in> set s then expand s else s)"

definition covers :: "(string \<Rightarrow> string) \<Rightarrow> native_rule \<Rightarrow> bool" where
  "covers expand r \<longleftrightarrow>
     (nr_protocol r = Some 256 \<or> (case nr_ports r of None \<Rightarrow> False | Some p \<Rightarrow> any_text p))
     \<and> (case (nr_local r, nr_remote r, nr_service r, nr_interfaces r) of
          (Some l, Some m, Some s, Some i) \<Rightarrow>
            any_text l \<and> (any_text m \<or> normalized expand m = ''localsubnet'') \<and> s = [] \<and> (i = [] \<or> normalized expand i = ''all'')
        | _ \<Rightarrow> False)
     \<and> nr_all_interfaces r"

definition entry_of :: "(string \<Rightarrow> string) \<Rightarrow> string \<Rightarrow> native_rule \<Rightarrow> fw_entry option" where
  "entry_of expand path r =
     (case (nr_application r, nr_block r, nr_profiles r, nr_protocol r, nr_name r) of
        (Some app, Some block, Some profiles, Some protocol, Some name) \<Rightarrow>
          (let application = normalized expand app; exact = (application = path); coverage = covers expand r
           in if nr_enabled r \<noteq> Some True \<or> nr_inbound r \<noteq> Some True then None
              else if \<not> exact \<and> application \<noteq> [] then None
              else if \<not> exact \<and> \<not> block then None
              else if protocol \<noteq> 256 \<and> protocol \<noteq> 6 \<and> protocol \<noteq> 17 then None
              else if \<not> exact \<and> \<not> coverage then None
              else Some \<lparr>en_name = name, en_exact = exact,
                         en_model = \<lparr>fr_profiles = profiles, fr_protocol = protocol, fr_block = block, fr_full = coverage\<rparr>, en_enabled = True\<rparr>)
      | _ \<Rightarrow> None)"

definition fw_entries :: "(string \<Rightarrow> string) \<Rightarrow> string \<Rightarrow> native_rule list \<Rightarrow> fw_entry list" where
  "fw_entries expand path rules = List.map_filter (entry_of expand path) rules"

text \<open>A rule for every program is believed only when it blocks.\<close>

lemma global_allow_ignored:
  "entry_of expand path r = Some e \<Longrightarrow> \<not> en_exact e \<Longrightarrow> fr_block (en_model e) \<and> fr_full (en_model e)"
  by (auto simp: entry_of_def Let_def split: option.splits prod.splits if_splits)

section \<open>Inspection\<close>

record fw_answers =
  fa_apartment :: bool
  fa_path :: string
  fa_profiles :: "u32 option"
  fa_profile :: "u32 \<Rightarrow> bool \<times> bool option \<times> bool option"
  fa_modify :: "bool option"
  fa_rules :: "native_rule list option"
  fa_expand :: "string \<Rightarrow> string"

text \<open>Of each profile in force: whether its firewall is on, whether it blocks everything, and whether it lets in by
  default. A profile that cannot be read counts as blocking.\<close>

definition add_profile :: "u32 \<Rightarrow> (u32 \<Rightarrow> bool \<times> bool option \<times> bool option) \<Rightarrow> u32 \<Rightarrow> u32 \<times> u32 \<times> u32 \<Rightarrow> u32 \<times> u32 \<times> u32" where
  "add_profile profiles ask b m =
     (case (m, ask b) of
        ((required, blocked, defaults), (enabled, block, allow)) \<Rightarrow>
          (if profiles AND b = 0 \<or> \<not> enabled then m
           else (required OR b, if block \<noteq> Some False then blocked OR b else blocked,
                 if allow = Some True then defaults OR b else defaults)))"

definition blocked_profiles :: "u32 \<Rightarrow> (u32 \<Rightarrow> bool \<times> bool option \<times> bool option) \<Rightarrow> u32 \<times> u32 \<times> u32" where
  "blocked_profiles profiles ask = fold (add_profile profiles ask) [1, 2, 4] (0, 0, 0)"

definition policy :: "fw_answers \<Rightarrow> u32 option" where
  "policy a = (case fa_profiles a of Some p \<Rightarrow> if p AND 7 \<noteq> 0 then Some p else None | None \<Rightarrow> None)"

record fw_status =
  fs_state :: firewall_state
  fs_busy :: bool
  fs_message :: string

definition inspect_firewall :: "fw_answers \<Rightarrow> fw_status" where
  "inspect_firewall a =
     (let unknown = (\<lambda>m. \<lparr>fs_state = Unknown, fs_busy = False, fs_message = m\<rparr>);
          path = normalized (fa_expand a) (fa_path a)
      in if \<not> fa_apartment a \<or> path = [] then unknown ''Could not check Windows Firewall.''
         else case policy a of
                None \<Rightarrow> unknown ''Could not check Windows Firewall.''
              | Some profiles \<Rightarrow>
                  (case fa_modify a of
                     None \<Rightarrow> unknown ''Could not read firewall policy.''
                   | Some modifiable \<Rightarrow>
                       (case fa_rules a of
                          None \<Rightarrow> unknown ''Could not read Windows Firewall rules.''
                        | Some rules \<Rightarrow>
                            (let (required, blocked, defaults) = blocked_profiles profiles (fa_profile a);
                                 st = evaluate_firewall required blocked defaults (map en_model (fw_entries (fa_expand a) path rules));
                                 st1 = (if st = Needs_rule \<and> \<not> modifiable then Managed else st)
                             in \<lparr>fs_state = st1, fs_busy = False,
                                 fs_message = (if st1 = Managed then ''Inbound access is controlled by your administrator or blocked for this network.''
                                               else [])\<rparr>))))"

section \<open>The change\<close>

definition fnv :: "string \<Rightarrow> u64" where
  "fnv s = foldl (\<lambda>h c. (h XOR word_of_nat (of_char c)) * 1099511628211) 14695981039346656037 s"

definition hex_char :: "nat \<Rightarrow> char" where
  "hex_char n = (if n < 10 then digit_char n else char_of (n + 87))"

fun show_hex :: "nat \<Rightarrow> string" where
  "show_hex n = (if n < 16 then [hex_char n] else show_hex (n div 16) @ [hex_char (n mod 16)])"

declare show_hex.simps [simp del]

definition rule_label :: "string \<Rightarrow> string" where
  "rule_label path = ''AirPlay Windows - '' @ show_hex (unat (fnv path))"

datatype fw_change = Add_rule string string u32 | Set_profiles nat u32 | Disable_rule nat

text \<open>The blocks of this program on the profiles in force, by their number; \<open>oks\<close> says which of the calls succeed.\<close>

fun unblock :: "u32 \<Rightarrow> (nat \<times> fw_entry) list \<Rightarrow> bool list \<Rightarrow> bool \<times> fw_change list" where
  "unblock profiles [] oks = (True, [])"
| "unblock profiles ((i, e) # es) oks =
     (if \<not> en_exact e \<or> \<not> fr_block (en_model e) \<or> fr_profiles (en_model e) AND profiles = 0 then unblock profiles es oks
      else case oks of
             True # oks1 \<Rightarrow>
               (let remaining = fr_profiles (en_model e) AND 7 AND NOT profiles;
                    (ok, cs) = unblock profiles es oks1
                in (ok, (if remaining \<noteq> 0 then Set_profiles i remaining else Disable_rule i) # cs))
           | _ \<Rightarrow> (False, []))"

definition allowed_profiles :: "string \<Rightarrow> u32 \<Rightarrow> fw_entry list \<Rightarrow> u32" where
  "allowed_profiles label profiles es =
     foldl (\<lambda>p e. if en_exact e \<and> \<not> fr_block (en_model e) \<and> en_name e = label then p OR fr_profiles (en_model e) AND 7 else p)
       (profiles AND 7) es"

text \<open>The exit code of the helper and the changes it made. \<open>created\<close>, \<open>added\<close>: whether a rule could be made, and
  filled in and added; \<open>after\<close>: what an inspection finds afterwards.\<close>

definition configure_firewall :: "fw_answers \<Rightarrow> bool \<Rightarrow> bool \<Rightarrow> bool list \<Rightarrow> fw_answers \<Rightarrow> int \<times> fw_change list" where
  "configure_firewall a created added oks after =
     (if \<not> fa_apartment a \<or> fa_path a = [] then (1, [])
      else case policy a of
             None \<Rightarrow> (1, [])
           | Some profiles \<Rightarrow>
               (if fa_modify a \<noteq> Some True \<or> fst (snd (blocked_profiles profiles (fa_profile a))) \<noteq> 0 then (2, [])
                else case fa_rules a of
                       None \<Rightarrow> (3, [])
                     | Some rules \<Rightarrow>
                         (let path = normalized (fa_expand a) (fa_path a);
                              existing = fw_entries (fa_expand a) path rules;
                              label = rule_label path
                          in if \<not> created then (5, [])
                             else if \<not> added then (6, [])
                             else let add = Add_rule label (fa_path a) (allowed_profiles label profiles existing);
                                      (ok, cs) = unblock profiles (List.enumerate 0 existing) oks
                                  in if \<not> ok then (4, add # cs)
                                     else (if fs_state (inspect_firewall after) = Allowed then 0 else 7, add # cs))))"

text \<open>Nothing is changed but a rule of this program's own name and this program's own blocks, each of which loses
  the profiles in force and no other; and only after the new rule has been added.\<close>

fun change_ok :: "u32 \<Rightarrow> fw_entry list \<Rightarrow> fw_change \<Rightarrow> bool" where
  "change_ok profiles existing (Add_rule _ _ _) = False"
| "change_ok profiles existing (Set_profiles i r) =
     (i < length existing \<and> en_exact (existing ! i) \<and> fr_block (en_model (existing ! i))
      \<and> r = fr_profiles (en_model (existing ! i)) AND 7 AND NOT profiles \<and> r \<noteq> 0)"
| "change_ok profiles existing (Disable_rule i) =
     (i < length existing \<and> en_exact (existing ! i) \<and> fr_block (en_model (existing ! i))
      \<and> fr_profiles (en_model (existing ! i)) AND 7 AND NOT profiles = 0)"

lemma unblock_ok:
  "list_all (\<lambda>(i, e). i < length existing \<and> existing ! i = e) es \<Longrightarrow>
   list_all (change_ok profiles existing) (snd (unblock profiles es oks))"
proof (induction profiles es oks rule: unblock.induct)
  case (2 profiles i e es oks)
  show ?case
  proof (cases "\<not> en_exact e \<or> \<not> fr_block (en_model e) \<or> fr_profiles (en_model e) AND profiles = 0")
    case True
    then show ?thesis using 2 by simp
  next
    case False
    show ?thesis
    proof (cases "\<exists>oks1. oks = True # oks1")
      case True
      then obtain oks1 where o: "oks = True # oks1" by blast
      have "list_all (change_ok profiles existing) (snd (unblock profiles es oks1))"
        using "2.IH"(2) [OF False o refl] "2.prems" by simp
      then show ?thesis using False o "2.prems" by (simp add: Let_def split_def)
    next
      case no: False
      then have "unblock profiles ((i, e) # es) oks = (False, [])" using False by (auto split: list.split bool.split)
      then show ?thesis by simp
    qed
  qed
qed simp

section \<open>The monitor\<close>

text \<open>The worker holds the request it has taken; None while it waits.\<close>

record monitor =
  mo_status :: fw_status
  mo_stopping :: bool
  mo_allow :: bool
  mo_working :: "bool option"
  mo_ended :: bool
  mo_accepted :: nat
  mo_carried_out :: nat

definition new_monitor :: monitor where
  "new_monitor = \<lparr>mo_status = \<lparr>fs_state = Checking, fs_busy = False, fs_message = []\<rparr>, mo_stopping = False, mo_allow = False,
     mo_working = None, mo_ended = False, mo_accepted = 0, mo_carried_out = 0\<rparr>"

definition allow_local_network :: "monitor \<Rightarrow> monitor" where
  "allow_local_network m =
     (if fs_busy (mo_status m) \<or> fs_state (mo_status m) \<noteq> Needs_rule then m
      else m\<lparr>mo_status := (mo_status m)\<lparr>fs_busy := True\<rparr>, mo_allow := True, mo_accepted := mo_accepted m + 1\<rparr>)"

definition take_request :: "monitor \<Rightarrow> monitor" where
  "take_request m = (if mo_stopping m then m\<lparr>mo_ended := True\<rparr> else m\<lparr>mo_working := Some (mo_allow m), mo_allow := False\<rparr>)"

definition publish_status :: "string \<Rightarrow> fw_status \<Rightarrow> bool \<Rightarrow> monitor \<Rightarrow> monitor" where
  "publish_status error result allow m =
     (let message = (if allow \<and> error \<noteq> [] then error else fs_message result)
      in m\<lparr>mo_status := result\<lparr>fs_message := message, fs_busy := mo_allow m\<rparr>, mo_working := None,
           mo_carried_out := mo_carried_out m + (if allow then 1 else 0)\<rparr>)"

inductive monitor_step :: "monitor \<Rightarrow> monitor \<Rightarrow> bool" where
  ask: "monitor_step m (allow_local_network m)"
| take_on: "mo_working m = None \<Longrightarrow> \<not> mo_ended m \<Longrightarrow> monitor_step m (take_request m)"
| publish: "mo_working m = Some allow \<Longrightarrow> monitor_step m (publish_status error (inspect_firewall a) allow m)"
| destroy: "monitor_step m (m\<lparr>mo_stopping := True\<rparr>)"

inductive_cases monitor_stepE: "monitor_step m m'"

text \<open>The window shows a request as pending exactly while one waits or is carried out, and every request that was
  accepted is carried out once.\<close>

definition monitor_ok :: "monitor \<Rightarrow> bool" where
  "monitor_ok m \<longleftrightarrow> (fs_busy (mo_status m) \<longleftrightarrow> mo_allow m \<or> mo_working m = Some True)
     \<and> \<not> (mo_allow m \<and> mo_working m = Some True)
     \<and> mo_accepted m = mo_carried_out m + (if mo_allow m then 1 else 0) + (if mo_working m = Some True then 1 else 0)
     \<and> (mo_ended m \<longrightarrow> mo_working m = None)"

lemma monitor_ok_step: "monitor_ok m \<Longrightarrow> monitor_step m m' \<Longrightarrow> monitor_ok m'"
  by (erule monitor_stepE)
    (auto simp: monitor_ok_def allow_local_network_def take_request_def publish_status_def Let_def split: if_splits)

interpretation watch: invariant_of "\<lambda>m. m = new_monitor" monitor_step monitor_ok
proof
  show "m = new_monitor \<Longrightarrow> monitor_ok m" for m by (simp add: monitor_ok_def new_monitor_def)
qed (rule monitor_ok_step)

section \<open>One instance\<close>

datatype instance_result = Primary | Secondary | Instance_error

text \<open>\<open>event\<close>, \<open>mutex\<close>: whether the objects could be created; \<open>existed\<close>: another process holds the mutex;
  \<open>signalled\<close>: the event could be set.\<close>

definition acquire :: "bool \<Rightarrow> bool \<Rightarrow> bool \<Rightarrow> bool \<Rightarrow> instance_result" where
  "acquire event mutex existed signalled =
     (if \<not> event \<or> \<not> mutex then Instance_error
      else if \<not> existed then Primary
      else if signalled then Secondary else Instance_error)"

section \<open>Properties\<close>

text \<open>C34: The decision is the one that the profiles ask for: the receiver counts as reachable exactly when every
  profile in force is open, that is, neither blocked as a whole nor by a rule, and open for TCP and for UDP
  by default or by a rule that covers every port and neighbour; and only a profile blocked as a whole makes
  it a matter of the administrator.\<close>

theorem firewall_decision_exact:
  "(evaluate_firewall required blocked defaults rules = Allowed \<longleftrightarrow>
      list_all (profile_open blocked defaults rules) (filter (bit required) [0..<32]))
   \<and> (evaluate_firewall required blocked defaults rules = Managed \<longleftrightarrow> list_ex (\<lambda>n. bit required n \<and> bit blocked n) [0..<32])
   \<and> evaluate_firewall required blocked defaults rules \<in> {Allowed, Needs_rule, Managed}"
proof -
  have "evaluate_firewall required blocked defaults rules = Managed \<longleftrightarrow> blocked AND required \<noteq> 0"
    by (auto simp: evaluate_firewall_def split: option.splits)
  moreover have "evaluate_firewall required blocked defaults rules \<in> {Allowed, Needs_rule, Managed}"
    by (auto simp: evaluate_firewall_def split: option.splits)
  ultimately show ?thesis using evaluate_allowed [of required blocked defaults rules] common_bits [of blocked required]
    by (auto simp: list_all_iff list_ex_iff)
qed

text \<open>The helper keeps to its own rules: it changes nothing before its rule is added, then only blocks of this
  program, of which it keeps the other profiles; and it reports success only if an inspection afterwards
  finds the receiver reachable.\<close>

theorem configure_keeps_to_itself:
  "let (code, cs) = configure_firewall a created added oks after
   in (cs = [] \<or> (\<exists>profiles rules rest. fa_profiles a = Some profiles \<and> fa_rules a = Some rules
         \<and> (let path = normalized (fa_expand a) (fa_path a); existing = fw_entries (fa_expand a) path rules; label = rule_label path
            in cs = Add_rule label (fa_path a) (allowed_profiles label profiles existing) # rest
               \<and> list_all (change_ok profiles existing) rest)))
      \<and> (code = 0 \<longrightarrow> fs_state (inspect_firewall after) = Allowed)"
proof -
  have "list_all (\<lambda>(i, e). i < length es \<and> es ! i = e) (List.enumerate 0 es)" for es :: "fw_entry list"
    by (auto simp: list_all_iff in_set_enumerate_eq)
  from unblock_ok [OF this] show ?thesis
    by (auto simp: configure_firewall_def policy_def Let_def split_def split: option.splits if_splits)
qed

end
