(* ===== verification/Gpu.thy ===== *)
theory Gpu
  imports Prelude
begin

text \<open>
  Video on the graphics card (src/video/gpu_video.cpp and gpu_recording.cpp): the conversion of a decoded
  surface for the renderer, with what is kept from one frame to the next and the fence that orders the two
  devices, and the placing of a picture in a recording. Direct3D and SDL are answers to the calls; what is
  asked of the graphics card is a list of calls. A surface, a device and a target are numbers.
\<close>

section \<open>Starting\<close>

datatype init_stage =
    Renderer_device | Same_adapter | Decode_device | Multithreaded | Shared_fence | Video_interfaces | Hardware_context | Hardware_init

definition init_stages :: "init_stage list" where
  "init_stages = [Renderer_device, Same_adapter, Decode_device, Multithreaded, Shared_fence, Video_interfaces, Hardware_context, Hardware_init]"

record gpu =
  gv_ready :: bool
  gv_device :: nat
  gv_processor :: bool
  gv_size :: "int \<times> int"
  gv_source :: "nat option"
  gv_views :: "bool list"
  gv_target :: "nat option"
  gv_fence :: nat

definition new_gpu :: gpu where
  "new_gpu = \<lparr>gv_ready = False, gv_device = 0, gv_processor = False, gv_size = (0, 0), gv_source = None, gv_views = [],
     gv_target = None, gv_fence = 0\<rparr>"

text \<open>The stages up to the last one that succeeds; a decode device counts only once the hardware context holds it.\<close>

definition init_gpu :: "(init_stage \<Rightarrow> bool) \<Rightarrow> nat \<Rightarrow> gpu \<Rightarrow> bool \<times> gpu" where
  "init_gpu succeeds device g =
     (if list_all succeeds init_stages then (True, g\<lparr>gv_ready := True, gv_device := device\<rparr>)
      else (False, if list_all succeeds (take 6 init_stages) then g\<lparr>gv_ready := False, gv_device := device\<rparr> else g))"

definition reset_target :: "gpu \<Rightarrow> gpu" where
  "reset_target g = g\<lparr>gv_target := None\<rparr>"

section \<open>One frame\<close>

record surface =
  sf_d3d11 :: bool
  sf_texture :: "nat option"
  sf_device :: nat
  sf_size :: "int \<times> int"
  sf_slices :: nat
  sf_slice :: nat

record gpu_answers =
  an_processor :: bool
  an_shared :: bool
  an_import :: bool
  an_output_view :: bool
  an_input_view :: bool
  an_bind :: bool
  an_target_matches :: bool
  an_unbind :: bool
  an_flush :: bool
  an_wait :: bool
  an_blit :: bool
  an_signal :: bool
  an_render_wait :: bool
  an_render_signal :: bool

datatype gpu_call =
    Create_processor "int \<times> int"
  | Create_view nat nat
  | Bind_target nat
  | Decode_wait nat
  | Blit nat nat
  | Decode_signal nat
  | Render_wait nat
  | Copy_output nat
  | Render_signal nat

text \<open>The stages of \<open>convert\<close>; None is a failure, and each returns what it has done up to there.\<close>

definition setup_processor :: "gpu_answers \<Rightarrow> surface \<Rightarrow> gpu \<Rightarrow> bool \<times> gpu_call list \<times> gpu" where
  "setup_processor a f g =
     (if gv_processor g \<and> gv_size g = sf_size f then (True, [], g)
      else let g1 = reset_target (g\<lparr>gv_processor := False, gv_source := None, gv_views := []\<rparr>)
           in if \<not> an_processor a then (False, [], g1)
              else let g2 = g1\<lparr>gv_processor := True, gv_size := sf_size f\<rparr>
                   in if \<not> an_shared a \<or> \<not> an_import a \<or> \<not> an_output_view a
                      then (False, [Create_processor (sf_size f)], g2\<lparr>gv_processor := False\<rparr>)
                      else (True, [Create_processor (sf_size f)], g2))"

definition pick_view :: "gpu_answers \<Rightarrow> nat \<Rightarrow> surface \<Rightarrow> gpu \<Rightarrow> bool \<times> gpu_call list \<times> gpu" where
  "pick_view a texture f g =
     (let g1 = (if gv_source g = Some texture then g else g\<lparr>gv_source := Some texture, gv_views := replicate (sf_slices f) False\<rparr>);
          i = sf_slice f
      in if length (gv_views g1) \<le> i then (False, [], g1)
         else if gv_views g1 ! i then (True, [], g1)
         else if \<not> an_input_view a then (False, [], g1)
         else (True, [Create_view texture i], g1\<lparr>gv_views := (gv_views g1)[i := True]\<rparr>))"

definition bind_target :: "gpu_answers \<Rightarrow> nat \<Rightarrow> gpu \<Rightarrow> bool \<times> gpu_call list \<times> gpu" where
  "bind_target a target g =
     (if gv_target g = Some target then (True, [], g)
      else if \<not> an_bind a \<or> \<not> an_target_matches a then (False, [], g)
      else if \<not> an_unbind a then (False, [Bind_target target], reset_target g)
      else (True, [Bind_target target], g\<lparr>gv_target := Some target\<rparr>))"

definition run_timelines :: "gpu_answers \<Rightarrow> nat \<Rightarrow> nat \<Rightarrow> nat \<Rightarrow> gpu \<Rightarrow> bool \<times> gpu_call list \<times> gpu" where
  "run_timelines a texture i target g =
     (let v = gv_fence g
      in if \<not> an_flush a \<or> \<not> an_wait a then (False, [], g)
         else if \<not> an_blit a then (False, [Decode_wait v], g)
         else if \<not> an_signal a then (False, [Decode_wait v, Blit texture i], g)
         else if \<not> an_render_wait a then (False, [Decode_wait v, Blit texture i, Decode_signal (v + 1)], g)
         else let cs = [Decode_wait v, Blit texture i, Decode_signal (v + 1), Render_wait (v + 1), Copy_output target];
                  g1 = g\<lparr>gv_fence := v + 2\<rparr>
              in if an_render_signal a then (True, cs @ [Render_signal (v + 2)], g1) else (False, cs, g1))"

definition and_then :: "bool \<times> gpu_call list \<times> gpu \<Rightarrow> (gpu \<Rightarrow> bool \<times> gpu_call list \<times> gpu) \<Rightarrow> bool \<times> gpu_call list \<times> gpu" where
  "and_then r next_stage =
     (case r of (ok, cs, g) \<Rightarrow> if ok then (case next_stage g of (ok1, cs1, g1) \<Rightarrow> (ok1, cs @ cs1, g1)) else (False, cs, g))"

definition convert :: "gpu_answers \<Rightarrow> nat \<Rightarrow> surface \<Rightarrow> gpu \<Rightarrow> bool \<times> gpu_call list \<times> gpu" where
  "convert a target f g =
     (if \<not> gv_ready g \<or> \<not> sf_d3d11 f then (False, [], g)
      else case sf_texture f of
             None \<Rightarrow> (False, [], g)
           | Some texture \<Rightarrow>
               (if sf_device f \<noteq> gv_device g then (False, [], g)
                else and_then (and_then (and_then (setup_processor a f g) (pick_view a texture f)) (bind_target a target))
                       (run_timelines a texture (sf_slice f) target)))"

datatype gpu_event = Convert gpu_answers nat surface | Reset_target

fun gpu_step :: "gpu_event \<Rightarrow> gpu \<Rightarrow> gpu_call list \<times> gpu" where
  "gpu_step (Convert a target f) g = snd (convert a target f g)"
| "gpu_step Reset_target g = ([], reset_target g)"

fun run_gpu :: "gpu_event list \<Rightarrow> gpu \<Rightarrow> gpu_call list \<times> gpu" where
  "run_gpu [] g = ([], g)"
| "run_gpu (e # es) g = (let (cs, g1) = gpu_step e g; (ds, g2) = run_gpu es g1 in (cs @ ds, g2))"

section \<open>What the calls must keep to\<close>

text \<open>The graphics card as it executes the calls: the value of the fence, the processor, the views there are of
  the surfaces, and the bound target. A wait is answered only if its value has been signalled, a blit needs
  the view that belongs to the processor, and a copy the target it was bound to.\<close>

record card =
  cd_fence :: nat
  cd_processor :: bool
  cd_views :: "(nat \<times> nat) set"
  cd_target :: "nat option"

text \<open>\<open>fences\<close>: whether the waits are looked at too, or only what the calls work on.\<close>

definition card_step :: "bool \<Rightarrow> gpu_call \<Rightarrow> card \<Rightarrow> card option" where
  "card_step fences c s =
     (case c of
        Create_processor _ \<Rightarrow> Some (s\<lparr>cd_processor := True, cd_views := {}\<rparr>)
      | Create_view t i \<Rightarrow> if cd_processor s then Some (s\<lparr>cd_views := insert (t, i) (cd_views s)\<rparr>) else None
      | Bind_target t \<Rightarrow> Some (s\<lparr>cd_target := Some t\<rparr>)
      | Decode_wait v \<Rightarrow> if fences \<longrightarrow> v \<le> cd_fence s then Some s else None
      | Blit t i \<Rightarrow> if (t, i) \<in> cd_views s then Some s else None
      | Decode_signal v \<Rightarrow> if cd_fence s \<le> v then Some (s\<lparr>cd_fence := v\<rparr>) else None
      | Render_wait v \<Rightarrow> if fences \<longrightarrow> v \<le> cd_fence s then Some s else None
      | Copy_output t \<Rightarrow> if cd_target s = Some t then Some s else None
      | Render_signal v \<Rightarrow> if cd_fence s \<le> v then Some (s\<lparr>cd_fence := v\<rparr>) else None)"

fun card_run :: "bool \<Rightarrow> gpu_call list \<Rightarrow> card \<Rightarrow> card option" where
  "card_run fences [] s = Some s"
| "card_run fences (c # cs) s = (case card_step fences c s of None \<Rightarrow> None | Some s1 \<Rightarrow> card_run fences cs s1)"

definition new_card :: card where
  "new_card = \<lparr>cd_fence = 0, cd_processor = False, cd_views = {}, cd_target = None\<rparr>"

lemma card_run_append: "card_run fences (as @ bs) s = (case card_run fences as s of None \<Rightarrow> None | Some s1 \<Rightarrow> card_run fences bs s1)"
  by (induction as arbitrary: s) (auto split: option.split)

text \<open>What the program knows agrees with the card; the fence may be one ahead after a frame that was given up.\<close>

definition agrees :: "bool \<Rightarrow> gpu \<Rightarrow> card \<Rightarrow> bool" where
  "agrees fences g s \<longleftrightarrow> (fences \<longrightarrow> gv_fence g \<le> cd_fence s) \<and> cd_fence s \<le> gv_fence g + 1 \<and> (gv_processor g \<longrightarrow> cd_processor s)
     \<and> (\<forall>t i. gv_source g = Some t \<and> i < length (gv_views g) \<and> gv_views g ! i \<longrightarrow> (t, i) \<in> cd_views s)
     \<and> (gv_target g = None \<or> gv_target g = cd_target s)"

lemma new_agrees: "agrees fences new_gpu new_card"
  by (simp add: agrees_def new_gpu_def new_card_def)

lemma init_agrees: "agrees fences g s \<Longrightarrow> agrees fences (snd (init_gpu succeeds device g)) s"
  by (simp add: init_gpu_def agrees_def)

lemma setup_runs:
  assumes "agrees fences g s" and "setup_processor a f g = (ok, cs, g1)"
  shows "\<exists>s1. card_run fences cs s = Some s1 \<and> agrees fences g1 s1 \<and> (ok \<longrightarrow> gv_processor g1)"
  using assms by (auto simp: setup_processor_def reset_target_def agrees_def card_step_def Let_def split: if_splits)

lemma view_runs:
  assumes "agrees fences g s" and "gv_processor g" and "pick_view a t f g = (ok, cs, g1)"
  shows "\<exists>s1. card_run fences cs s = Some s1 \<and> agrees fences g1 s1 \<and> (ok \<longrightarrow> (t, sf_slice f) \<in> cd_views s1)"
proof -
  define h where "h = (if gv_source g = Some t then g else g\<lparr>gv_source := Some t, gv_views := replicate (sf_slices f) False\<rparr>)"
  have h: "agrees fences h s" "gv_source h = Some t" "gv_processor h" using assms(1,2) by (auto simp: agrees_def h_def)
  have p: "pick_view a t f g = (if length (gv_views h) \<le> sf_slice f then (False, [], h)
      else if gv_views h ! sf_slice f then (True, [], h)
      else if \<not> an_input_view a then (False, [], h)
      else (True, [Create_view t (sf_slice f)], h\<lparr>gv_views := (gv_views h)[sf_slice f := True]\<rparr>))"
    by (simp add: pick_view_def h_def Let_def)
  show ?thesis using assms(3) h unfolding p
    by (auto simp: agrees_def card_step_def nth_list_update split: if_splits)
qed

lemma bind_runs:
  assumes "agrees fences g s" and "bind_target a t g = (ok, cs, g1)"
  shows "\<exists>s1. card_run fences cs s = Some s1 \<and> agrees fences g1 s1 \<and> cd_views s1 = cd_views s \<and> (ok \<longrightarrow> cd_target s1 = Some t)"
  using assms by (auto simp: bind_target_def reset_target_def agrees_def card_step_def split: if_splits)

lemma timelines_run:
  assumes "agrees fences g s" and "(t, i) \<in> cd_views s" and "cd_target s = Some target" and "fences \<longrightarrow> an_render_signal a"
    and "run_timelines a t i target g = (ok, cs, g1)"
  shows "\<exists>s1. card_run fences cs s = Some s1 \<and> agrees fences g1 s1"
  using assms by (auto simp: run_timelines_def agrees_def card_step_def Let_def split: if_splits)

lemma convert_runs:
  assumes "agrees fences g s" and "fences \<longrightarrow> an_render_signal a"
  shows "\<exists>s1. card_run fences (fst (snd (convert a target f g))) s = Some s1 \<and> agrees fences (snd (snd (convert a target f g))) s1"
proof (cases "gv_ready g \<and> sf_d3d11 f \<and> sf_texture f \<noteq> None \<and> sf_device f = gv_device g")
  case False
  then show ?thesis using assms(1) by (auto simp: convert_def split: option.split)
next
  case True
  then obtain t where t: "sf_texture f = Some t" by auto
  obtain ok1 cs1 g1 where 1: "setup_processor a f g = (ok1, cs1, g1)" by (cases "setup_processor a f g")
  obtain ok2 cs2 g2 where 2: "pick_view a t f g1 = (ok2, cs2, g2)" by (cases "pick_view a t f g1")
  obtain ok3 cs3 g3 where 3: "bind_target a target g2 = (ok3, cs3, g3)" by (cases "bind_target a target g2")
  obtain ok4 cs4 g4 where 4: "run_timelines a t (sf_slice f) target g3 = (ok4, cs4, g4)"
    by (cases "run_timelines a t (sf_slice f) target g3")
  have c: "convert a target f g =
      (if \<not> ok1 then (False, cs1, g1) else if \<not> ok2 then (False, cs1 @ cs2, g2)
       else if \<not> ok3 then (False, cs1 @ cs2 @ cs3, g3) else (ok4, cs1 @ cs2 @ cs3 @ cs4, g4))"
    using True by (simp add: convert_def t 1 2 3 4 and_then_def)
  obtain s1 where s1: "card_run fences cs1 s = Some s1" "agrees fences g1 s1" "ok1 \<longrightarrow> gv_processor g1" using setup_runs [OF assms(1) 1] by blast
  show ?thesis
  proof (cases ok1)
    case False
    then show ?thesis using s1 by (simp add: c)
  next
    case t1: True
    obtain s2 where s2: "card_run fences cs2 s1 = Some s2" "agrees fences g2 s2" "ok2 \<longrightarrow> (t, sf_slice f) \<in> cd_views s2"
      using view_runs [OF s1(2) _ 2] s1(3) t1 by blast
    obtain s3 where s3: "card_run fences cs3 s2 = Some s3" "agrees fences g3 s3" "cd_views s3 = cd_views s2" "ok3 \<longrightarrow> cd_target s3 = Some target"
      using bind_runs [OF s2(2) 3] by blast
    show ?thesis
    proof (cases "ok2 \<and> ok3")
      case False
      then show ?thesis using t1 s1 s2 s3 by (auto simp: c card_run_append)
    next
      case t23: True
      obtain s4 where "card_run fences cs4 s3 = Some s4" "agrees fences g4 s4"
        using timelines_run [OF s3(2) _ _ assms(2) 4] s2(3) s3(3,4) t23 by auto
      then show ?thesis using t1 t23 s1 s2 s3 by (simp add: c card_run_append)
    qed
  qed
qed

fun signals :: "gpu_event \<Rightarrow> bool" where
  "signals (Convert a _ _) = an_render_signal a"
| "signals Reset_target = True"

lemma run_gpu_runs:
  "agrees fences g s \<Longrightarrow> (fences \<longrightarrow> list_all signals es) \<Longrightarrow> \<exists>s1. card_run fences (fst (run_gpu es g)) s = Some s1 \<and> agrees fences (snd (run_gpu es g)) s1"
proof (induction es arbitrary: g s)
  case (Cons e es)
  have "\<exists>s1. card_run fences (fst (gpu_step e g)) s = Some s1 \<and> agrees fences (snd (gpu_step e g)) s1"
  proof (cases e)
    case (Convert a target f)
    then show ?thesis using convert_runs [OF Cons.prems(1), of a target f] Cons.prems(2) by simp
  next
    case Reset_target
    then show ?thesis using Cons.prems(1) by (simp add: reset_target_def agrees_def)
  qed
  then obtain s1 where s1: "card_run fences (fst (gpu_step e g)) s = Some s1" "agrees fences (snd (gpu_step e g)) s1" by blast
  then show ?case using Cons.IH [OF s1(2)] Cons.prems(2) by (auto simp: card_run_append split_def Let_def)
qed simp

text \<open>When the last signal of a frame fails, its value is taken for signalled all the same, and the next frame
  waits for a value that nothing will ever signal.\<close>

definition lost_signal :: gpu_answers where
  "lost_signal = \<lparr>an_processor = True, an_shared = True, an_import = True, an_output_view = True, an_input_view = True,
     an_bind = True, an_target_matches = True, an_unbind = True, an_flush = True, an_wait = True, an_blit = True,
     an_signal = True, an_render_wait = True, an_render_signal = False\<rparr>"

definition sample_surface :: surface where
  "sample_surface = \<lparr>sf_d3d11 = True, sf_texture = Some 3, sf_device = 1, sf_size = (640, 480), sf_slices = 4, sf_slice = 2\<rparr>"

lemma failed_signal_blocks:
  "card_run True (fst (run_gpu [Convert lost_signal 7 sample_surface, Convert lost_signal 7 sample_surface]
     (snd (init_gpu (\<lambda>s. True) 1 new_gpu)))) new_card = None"
  by (simp add: lost_signal_def sample_surface_def init_gpu_def init_stages_def new_gpu_def new_card_def convert_def setup_processor_def
      pick_view_def bind_target_def run_timelines_def and_then_def reset_target_def card_step_def numeral_eq_Suc)

section \<open>Recording\<close>

text \<open>The picture keeps its aspect inside the recording, at even places and with even sides where it is scaled.\<close>

definition even_down :: "int \<Rightarrow> int" where
  "even_down n = n - n mod 2"

definition fit_size :: "int \<Rightarrow> int \<Rightarrow> int \<Rightarrow> int \<Rightarrow> int \<times> int" where
  "fit_size width height in_w in_h =
     (if in_w * height > width * in_h then (width, max 2 (even_down (width * in_h div in_w)))
      else (max 2 (even_down (height * in_w div in_h)), height))"

text \<open>The left, top, right and bottom edge.\<close>

definition dest_rect :: "int \<Rightarrow> int \<Rightarrow> int \<Rightarrow> int \<Rightarrow> int \<times> int \<times> int \<times> int" where
  "dest_rect width height in_w in_h =
     (let (fit_w, fit_h) = fit_size width height in_w in_h;
          x = even_down ((width - fit_w) div 2); y = even_down ((height - fit_h) div 2)
      in (x, y, x + fit_w, y + fit_h))"

record gpu_recording =
  gr_pool :: bool
  gr_device :: nat
  gr_size :: "int \<times> int"
  gr_processor :: bool
  gr_source :: "int \<times> int"

definition init_recording :: "bool \<Rightarrow> bool \<Rightarrow> bool \<Rightarrow> bool \<Rightarrow> nat \<Rightarrow> int \<Rightarrow> int \<Rightarrow> gpu_recording \<Rightarrow> bool \<times> gpu_recording" where
  "init_recording d3d11 interfaces pool pool_init device width height g =
     (if width < 2 \<or> height < 2 \<or> \<not> d3d11 then (False, g)
      else let g1 = g\<lparr>gr_device := device\<rparr>
           in if \<not> interfaces then (False, g1)
              else if \<not> pool then (False, g1\<lparr>gr_pool := False\<rparr>)
              else (pool_init, g1\<lparr>gr_pool := pool_init, gr_size := (width, height)\<rparr>))"

text \<open>The answers: the processor, the buffer, the two views and the blit. The rectangle is the one of the blit.\<close>

definition convert_recording ::
  "bool \<times> bool \<times> bool \<times> bool \<Rightarrow> surface \<Rightarrow> gpu_recording \<Rightarrow> (int \<times> int \<times> int \<times> int) option \<times> gpu_recording" where
  "convert_recording answers f g =
     (case answers of
        (processor, buffer, views, blit) \<Rightarrow>
          (if \<not> gr_pool g \<or> \<not> sf_d3d11 f \<or> sf_device f \<noteq> gr_device g then (None, g)
           else let rebuild = (\<not> gr_processor g \<or> gr_source g \<noteq> sf_size f);
                    g1 = (if rebuild then (if processor then g\<lparr>gr_processor := True, gr_source := sf_size f\<rparr> else g\<lparr>gr_processor := False\<rparr>) else g)
                in if rebuild \<and> \<not> processor \<or> \<not> buffer \<or> \<not> views \<or> \<not> blit then (None, g1)
                   else (Some (dest_rect (fst (gr_size g)) (snd (gr_size g)) (fst (sf_size f)) (snd (sf_size f))), g1)))"

lemma div_bounds: "0 < k \<Longrightarrow> n div k * k \<le> n \<and> n < n div k * k + (k :: int)"
  using div_mult_mod_eq [of n k] pos_mod_bound [of k n] pos_mod_sign [of k n] by linarith

lemma even_down_bounds: "0 \<le> n \<Longrightarrow> 0 \<le> even_down n \<and> even_down n \<le> n \<and> n < even_down n + 2 \<and> even (even_down n)"
  by (simp add: even_down_def) presburger

lemma fit_size_bounds:
  assumes "2 \<le> width" and "2 \<le> height" and "0 < in_w" and "0 < in_h" and "fit_size width height in_w in_h = (w, h)"
  shows "2 \<le> w \<and> w \<le> width \<and> 2 \<le> h \<and> h \<le> height \<and> (w = width \<or> h = height)"
proof (cases "in_w * height > width * in_h")
  case True
  have "0 \<le> width * in_h div in_w" using assms by (simp add: pos_imp_zdiv_nonneg_iff)
  moreover have "width * in_h div in_w \<le> height"
    using True assms(3) zdiv_mono1 [of "width * in_h" "in_w * height" in_w] by simp
  ultimately show ?thesis using True assms even_down_bounds [of "width * in_h div in_w"] by (auto simp: fit_size_def)
next
  case False
  have "0 \<le> height * in_w div in_h" using assms by (simp add: pos_imp_zdiv_nonneg_iff)
  moreover have "height * in_w div in_h \<le> width"
    using False assms(4) zdiv_mono1 [of "height * in_w" "width * in_h" in_h] by (simp add: mult.commute)
  ultimately show ?thesis using False assms even_down_bounds [of "height * in_w div in_h"] by (auto simp: fit_size_def)
qed

section \<open>Properties\<close>

text \<open>C14: The graphics card can do what it is asked, over any run of frames and whatever fails on the way:
  every blit uses a view that belongs to the processor and the surface in use, and every copy goes to the
  target that was bound. As long as the last signal of each frame gets through, no device waits for a
  value that has not been signalled either; where it fails, the next frame does.\<close>

theorem gpu_calls_valid:
  "let calls = fst (run_gpu es (snd (init_gpu succeeds device new_gpu))) in
   card_run False calls new_card \<noteq> None \<and> (list_all signals es \<longrightarrow> card_run True calls new_card \<noteq> None)"
  using run_gpu_runs [OF init_agrees [OF new_agrees, of False], of es succeeds device]
    run_gpu_runs [OF init_agrees [OF new_agrees, of True], of es succeeds device]
  unfolding Let_def by fastforce

text \<open>A picture of any size is placed inside the recording: the rectangle lies in it at even coordinates, has
  at least two pixels each way, touches both edges in one direction, and keeps its aspect to within
  two pixels unless it is thinner than that.\<close>

theorem recording_fit:
  assumes "2 \<le> width" and "2 \<le> height" and "0 < in_w" and "0 < in_h" and "dest_rect width height in_w in_h = (l, t, r, b)"
  shows "0 \<le> l \<and> even l \<and> r \<le> width \<and> 0 \<le> t \<and> even t \<and> b \<le> height \<and> 2 \<le> r - l \<and> 2 \<le> b - t
    \<and> (r - l = width \<or> b - t = height)
    \<and> (b - t = 2 \<or> r - l = 2 \<or> \<bar>(b - t) * in_w - (r - l) * in_h\<bar> < 2 * max in_w in_h)"
proof -
  obtain w h where f: "fit_size width height in_w in_h = (w, h)" by (cases "fit_size width height in_w in_h")
  note wh = fit_size_bounds [OF assms(1-4) f]
  have x: "0 \<le> even_down ((width - w) div 2) \<and> even (even_down ((width - w) div 2)) \<and> even_down ((width - w) div 2) + w \<le> width"
    using wh even_down_bounds [of "(width - w) div 2"] by auto
  have y: "0 \<le> even_down ((height - h) div 2) \<and> even (even_down ((height - h) div 2)) \<and> even_down ((height - h) div 2) + h \<le> height"
    using wh even_down_bounds [of "(height - h) div 2"] by auto
  have rect: "l = even_down ((width - w) div 2)" "t = even_down ((height - h) div 2)" "r = l + w" "b = t + h"
    using assms(5) f by (auto simp: dest_rect_def Let_def)
  have aspect: "h = 2 \<or> w = 2 \<or> \<bar>h * in_w - w * in_h\<bar> < 2 * max in_w in_h"
  proof (cases "in_w * height > width * in_h")
    case True
    define q where "q = width * in_h div in_w"
    have q: "q * in_w \<le> width * in_h" "width * in_h < q * in_w + in_w" "0 \<le> q"
      using assms div_bounds [of in_w "width * in_h"] by (simp_all add: q_def pos_imp_zdiv_nonneg_iff)
    have h: "h = max 2 (even_down q)" "w = width" using f True by (auto simp: fit_size_def q_def)
    have e: "even_down q = q \<or> even_down q = q - 1" by (simp add: even_down_def) presburger
    show ?thesis
    proof (cases "h = 2")
      case False
      then have "h = q \<or> h = q - 1" using h e by auto
      then show ?thesis using q assms h(2) by (auto simp: algebra_simps max_def)
    qed simp
  next
    case False
    define q where "q = height * in_w div in_h"
    have q: "q * in_h \<le> height * in_w" "height * in_w < q * in_h + in_h" "0 \<le> q"
      using assms div_bounds [of in_h "height * in_w"] by (simp_all add: q_def pos_imp_zdiv_nonneg_iff)
    have w: "w = max 2 (even_down q)" "h = height" using f False by (auto simp: fit_size_def q_def)
    have e: "even_down q = q \<or> even_down q = q - 1" by (simp add: even_down_def) presburger
    show ?thesis
    proof (cases "w = 2")
      case False
      then have "w = q \<or> w = q - 1" using w e by auto
      then show ?thesis using q assms w(2) by (auto simp: algebra_simps max_def)
    qed simp
  qed
  show ?thesis using x y wh aspect by (auto simp: rect)
qed

section \<open>Witnesses\<close>

theorem gpu_calls_valid_witness:
  "card_run True (fst (run_gpu [Convert (lost_signal\<lparr>an_render_signal := True\<rparr>) 7 sample_surface, Reset_target,
       Convert (lost_signal\<lparr>an_render_signal := True\<rparr>) 8 sample_surface] (snd (init_gpu (\<lambda>s. True) 1 new_gpu)))) new_card \<noteq> None"
  using gpu_calls_valid [of "[Convert (lost_signal\<lparr>an_render_signal := True\<rparr>) 7 sample_surface, Reset_target,
      Convert (lost_signal\<lparr>an_render_signal := True\<rparr>) 8 sample_surface]" "\<lambda>s. True" 1]
  unfolding Let_def by (elim conjE mp) simp

theorem recording_fit_witness:
  "dest_rect 1920 1080 1170 2532 = (710, 0, 1208, 1080) \<and> \<bar>(1080 - 0) * 1170 - (1208 - 710) * (2532 :: int)\<bar> < 2 * max 1170 2532"
proof -
  have d: "dest_rect 1920 1080 1170 2532 = (710, 0, 1208, 1080)" by (simp add: dest_rect_def fit_size_def even_down_def)
  show ?thesis using recording_fit [OF _ _ _ _ d] d by simp
qed

end
