(* ===== verification/Stage.thy ===== *)
theory Stage
  imports Renderer Window
begin

text \<open>
  The stage of the window (src/video/video_renderer.cpp, the render loop; src/video/cover_art.cpp): the decoded
  cover, the place of a picture and the snapping of the window to it, the textures that the loop makes, fills and
  destroys from pass to pass, and the statistics of the status bar. FFmpeg and SDL are answers; what is asked of
  SDL is a list of calls. A computation in floating point takes the rounding of every operation as an argument.
\<close>

section \<open>Cover art\<close>

text \<open>What FFmpeg makes of a JPEG: the size, and the plane of the picture converted to RGB if that succeeds.\<close>

record jpeg_frame =
  jf_width :: int
  jf_height :: int
  jf_plane :: "(nat \<times> bytes) option"

definition decode_cover_art :: "(bytes \<Rightarrow> jpeg_frame option) \<Rightarrow> bytes \<Rightarrow> (int \<times> int \<times> bytes) option" where
  "decode_cover_art decode data =
     (if data = [] \<or> 16 * 1024 * 1024 < length data then None
      else case decode data of
             None \<Rightarrow> None
           | Some f \<Rightarrow>
               (if 0 < jf_width f \<and> 0 < jf_height f \<and> jf_width f \<le> 4096 \<and> jf_height f \<le> 4096
                then case jf_plane f of
                       None \<Rightarrow> None
                     | Some (stride, plane) \<Rightarrow> Some (jf_width f, jf_height f, copy_plane plane stride (jf_width f * 3) (jf_height f))
                else None))"

definition good_jpeg :: "jpeg_frame option \<Rightarrow> bool" where
  "good_jpeg a = (case a of None \<Rightarrow> True | Some f \<Rightarrow>
     (case jf_plane f of None \<Rightarrow> True | Some (stride, plane) \<Rightarrow> plane_ok plane stride (jf_width f * 3) (jf_height f)))"

lemma cover_art_exact:
  assumes "decode_cover_art decode data = Some (w, h, rgb)" and "good_jpeg (decode data)"
  shows "0 < w \<and> w \<le> 4096 \<and> 0 < h \<and> h \<le> 4096 \<and> length rgb = nat h * nat (w * 3)"
  using assms by (auto simp: decode_cover_art_def good_jpeg_def copy_plane_length split: if_splits option.splits prod.splits)

section \<open>The place of a picture\<close>

definition fit_inside :: "(real \<Rightarrow> real) \<Rightarrow> int \<Rightarrow> int \<Rightarrow> int \<Rightarrow> int \<Rightarrow> rect" where
  "fit_inside rnd src_w src_h win_w win_h =
     (if src_w \<le> 0 \<or> src_h \<le> 0 then \<lparr>rc_x = 0, rc_y = 0, rc_w = win_w, rc_h = win_h\<rparr>
      else let src_ar = rnd (of_int src_w / of_int src_h)
           in if win_h \<noteq> 0 \<and> rnd (of_int win_w / of_int win_h) < src_ar
              then let h = \<lfloor>rnd (of_int win_w / src_ar)\<rfloor> in \<lparr>rc_x = 0, rc_y = (win_h - h) sdiv 2, rc_w = win_w, rc_h = h\<rparr>
              else let w = \<lfloor>rnd (of_int win_h * src_ar)\<rfloor> in \<lparr>rc_x = (win_w - w) sdiv 2, rc_y = 0, rc_w = w, rc_h = win_h\<rparr>)"

text \<open>The window without its panels follows the picture: it shrinks to its aspect on entry, and keeps its long
  side when the picture turns. The result is the size that is asked for, if one is.\<close>

definition changed_size :: "int \<Rightarrow> int \<Rightarrow> int \<times> int \<Rightarrow> (int \<times> int) option" where
  "changed_size wnow hnow s = (if 1 < \<bar>fst s - wnow\<bar> \<or> 1 < \<bar>snd s - hnow\<bar> then Some s else None)"

definition snap_to_video_aspect :: "(real \<Rightarrow> real) \<Rightarrow> window \<Rightarrow> int \<times> int \<Rightarrow> int \<times> int \<Rightarrow> int \<times> int \<Rightarrow> (int \<times> int) option" where
  "snap_to_video_aspect rnd s texture shown now =
     (let (wnow, hnow) = now in
      if \<not> wn_chromeless s \<or> wn_fullscreen s \<or> fst texture \<le> 0 \<or> snd texture \<le> 0 \<or> wnow \<le> 0 \<or> hnow \<le> 0 then None
      else let vid_a = rnd (of_int (fst shown) / of_int (snd shown)); win_a = rnd (of_int wnow / of_int hnow)
           in changed_size wnow hnow
                (if vid_a < win_a then (\<lfloor>rnd (rnd (of_int hnow * vid_a) + 1 / 2)\<rfloor>, hnow)
                 else (wnow, \<lfloor>rnd (rnd (of_int wnow / vid_a) + 1 / 2)\<rfloor>)))"

definition snap_preserving_area :: "(real \<Rightarrow> real) \<Rightarrow> window \<Rightarrow> int \<times> int \<Rightarrow> int \<times> int \<Rightarrow> int \<times> int \<Rightarrow> (int \<times> int) option" where
  "snap_preserving_area rnd s texture shown now =
     (let (wnow, hnow) = now in
      if \<not> wn_chromeless s \<or> wn_fullscreen s \<or> fst texture \<le> 0 \<or> snd texture \<le> 0 \<or> wnow \<le> 0 \<or> hnow \<le> 0 then None
      else let vid_a = rnd (of_int (fst shown) / of_int (snd shown)); long_dim = max wnow hnow
           in changed_size wnow hnow
                (if 1 \<le> vid_a then (long_dim, \<lfloor>rnd (rnd (of_int long_dim / vid_a) + 1 / 2)\<rfloor>)
                 else (\<lfloor>rnd (rnd (of_int long_dim * vid_a) + 1 / 2)\<rfloor>, long_dim)))"

text \<open>The relative error of one operation in single precision, which double precision keeps too.\<close>

definition rounds :: "(real \<Rightarrow> real) \<Rightarrow> bool" where
  "rounds rnd \<longleftrightarrow> (\<forall>x. \<bar>rnd x - x\<bar> \<le> \<bar>x\<bar> / 2 ^ 24)"

lemma rounds_bounds:
  assumes "rounds rnd" and "0 \<le> x"
  shows "x * (1 - 1 / 2 ^ 24) \<le> rnd x" and "rnd x \<le> x * (1 + 1 / 2 ^ 24)" and "0 \<le> rnd x"
proof -
  have "\<bar>rnd x - x\<bar> \<le> x / 2 ^ 24" using assms by (metis rounds_def abs_of_nonneg)
  then have b: "rnd x - x \<le> x / 2 ^ 24" "x - rnd x \<le> x / 2 ^ 24" by (simp_all only: abs_le_iff minus_diff_eq)
  show l: "x * (1 - 1 / 2 ^ 24) \<le> rnd x" using b(2) by (simp add: right_diff_distrib)
  show "rnd x \<le> x * (1 + 1 / 2 ^ 24)" using b(1) by (simp add: distrib_left)
  have "0 \<le> x * (1 - 1 / 2 ^ 24)" using assms(2) by simp
  then show "0 \<le> rnd x" using l by linarith
qed

text \<open>A length computed by dividing by an aspect, or by multiplying with it, is right to within two pixels.\<close>

lemma scaled_close:
  assumes r: "rounds rnd" and "0 \<le> y" and "y \<le> 20000" and "\<bar>x - y\<bar> \<le> y / 2 ^ 22"
  shows "\<bar>of_int \<lfloor>rnd y\<rfloor> - x\<bar> < 2" and "0 \<le> \<lfloor>rnd y\<rfloor>"
proof -
  note b = rounds_bounds [OF r assms(2)]
  have "rnd y - y \<le> 20000 / 2 ^ 24" "y - rnd y \<le> 20000 / 2 ^ 24"
    using b(1,2) assms(3) by (simp_all add: right_diff_distrib distrib_left)
  then have "\<bar>rnd y - y\<bar> \<le> 20000 / 2 ^ 24" unfolding abs_le_iff by simp
  moreover have "\<bar>x - y\<bar> \<le> 20000 / 2 ^ 22" using assms(3,4) by simp
  ultimately have "\<bar>rnd y - x\<bar> < 1" unfolding abs_less_iff abs_le_iff by simp
  moreover have "of_int \<lfloor>rnd y\<rfloor> \<le> rnd y" "rnd y < of_int \<lfloor>rnd y\<rfloor> + 1" by linarith+
  ultimately show "\<bar>of_int \<lfloor>rnd y\<rfloor> - x\<bar> < 2" unfolding abs_less_iff by linarith
  show "0 \<le> \<lfloor>rnd y\<rfloor>" using b(3) by simp
qed

lemma scaled_le:
  assumes r: "rounds rnd" and "0 \<le> y" and "y \<le> of_int n * (1 + 1 / 2 ^ 22)" and "n \<le> 16384"
  shows "\<lfloor>rnd y\<rfloor> \<le> n"
proof -
  have "y \<le> of_int n + 16384 / 2 ^ 22" using assms(3,4) by (simp add: distrib_left)
  moreover have "y \<le> 20000" using calculation assms(4) by simp
  ultimately have "rnd y < of_int n + 1" using rounds_bounds(2) [OF r assms(2)] by (simp add: distrib_left)
  then show ?thesis by linarith
qed

lemma aspect_bounds:
  assumes "rounds rnd" and "0 < p" and "0 < (q :: int)"
  defines "a0 \<equiv> of_int p / of_int q"
  shows "0 < a0" and "0 < rnd a0" and "\<bar>a0 - rnd a0\<bar> \<le> a0 / 2 ^ 24" and "\<bar>a0 - rnd a0\<bar> \<le> rnd a0 / 2 ^ 23"
proof -
  show a0: "0 < a0" using assms(2,3) by (simp add: a0_def)
  note b = rounds_bounds [OF assms(1) less_imp_le [OF a0]]
  have "0 < a0 * (1 - 1 / 2 ^ 24)" using a0 by simp
  then show "0 < rnd a0" using b(1) by linarith
  show c: "\<bar>a0 - rnd a0\<bar> \<le> a0 / 2 ^ 24"
    unfolding abs_le_iff using b(1,2) by (simp add: right_diff_distrib distrib_left)
  have "a0 \<le> rnd a0 * 2" using b(1) a0 by (simp add: right_diff_distrib)
  then show "\<bar>a0 - rnd a0\<bar> \<le> rnd a0 / 2 ^ 23" using c by simp
qed

text \<open>Dividing a side by the aspect, when the window is the wider of the two.\<close>

lemma divided_side:
  assumes r: "rounds rnd" and "0 < p" and "0 < q" and "0 \<le> w" and "0 < h" and "h \<le> 16384"
    and "rnd (of_int w / of_int h) \<le> rnd (of_int p / of_int q)"
  defines "k \<equiv> of_int w / rnd (of_int p / of_int q)"
  shows "0 \<le> k" and "k \<le> of_int h * (1 + 1 / 2 ^ 22)" and "\<bar>of_int w * of_int q / of_int p - k\<bar> \<le> k / 2 ^ 22"
proof -
  define a where "a = rnd (of_int p / of_int q)"
  note ab = aspect_bounds [OF r assms(2,3), folded a_def]
  show k0: "0 \<le> k" using ab(2) assms(4) by (simp add: k_def a_def)
  have "of_int w / of_int h * (1 - 1 / 2 ^ 24) \<le> a"
    using rounds_bounds(1) [OF r, of "of_int w / of_int h"] assms(4,5,7) by (simp add: a_def)
  then have "of_int w * (1 - 1 / 2 ^ 24) \<le> a * of_int h" using assms(5) by (simp add: field_simps)
  then have "k * (1 - 1 / 2 ^ 24) \<le> of_int h" using ab(2) by (simp add: k_def a_def [symmetric] field_simps)
  then show "k \<le> of_int h * (1 + 1 / 2 ^ 22)" using assms(5) by (simp add: algebra_simps)
  define a0 :: real where "a0 = of_int p / of_int q"
  have x: "of_int w * of_int q / of_int p = of_int w / a0" by (simp add: a0_def)
  have wk: "of_int w = k * a" using ab(2) by (simp add: k_def a_def [symmetric])
  have "of_int w / a0 - k = k * ((a - a0) / a0)" using ab(1) by (simp add: wk a0_def [symmetric] field_simps)
  moreover have "\<bar>(a - a0) / a0\<bar> \<le> 1 / 2 ^ 22"
    using ab(1,3) by (simp add: a0_def [symmetric] abs_minus_commute divide_le_eq)
  ultimately show "\<bar>of_int w * of_int q / of_int p - k\<bar> \<le> k / 2 ^ 22"
    using mult_left_mono [of "\<bar>(a - a0) / a0\<bar>" "1 / 2 ^ 22" k] k0 by (simp add: x abs_mult)
qed

text \<open>Multiplying a side with the aspect, when the window is the narrower of the two.\<close>

lemma multiplied_side:
  assumes r: "rounds rnd" and "0 < p" and "0 < q" and "0 \<le> w" and "0 \<le> h"
    and "h = 0 \<or> rnd (of_int p / of_int q) \<le> rnd (of_int w / of_int h)"
  defines "k \<equiv> of_int h * rnd (of_int p / of_int q)"
  shows "0 \<le> k" and "k \<le> of_int w * (1 + 1 / 2 ^ 22)" and "\<bar>of_int h * of_int p / of_int q - k\<bar> \<le> k / 2 ^ 22"
proof -
  define a where "a = rnd (of_int p / of_int q)"
  define a0 :: real where "a0 = of_int p / of_int q"
  note ab = aspect_bounds [OF r assms(2,3), folded a_def a0_def]
  show "0 \<le> k" using ab(2) assms(5) by (simp add: k_def a_def)
  show "k \<le> of_int w * (1 + 1 / 2 ^ 22)"
  proof (cases "h = 0")
    case True
    then show ?thesis using assms(4) by (simp add: k_def)
  next
    case False
    then have h: "0 < h" using assms(5) by simp
    have "a \<le> of_int w / of_int h * (1 + 1 / 2 ^ 24)"
      using rounds_bounds(2) [OF r, of "of_int w / of_int h"] assms(4,6) h by (simp add: a_def)
    then have "k \<le> of_int w * (1 + 1 / 2 ^ 24)" using h by (simp add: k_def a_def [symmetric] field_simps)
    then show ?thesis using assms(4) by (simp add: distrib_left)
  qed
  have "of_int h * of_int p / of_int q - k = of_int h * (a0 - a)" by (simp add: k_def a_def a0_def algebra_simps)
  moreover have "of_int h * \<bar>a0 - a\<bar> \<le> of_int h * (a / 2 ^ 23)" using ab(4) assms(5) by (intro mult_left_mono) auto
  moreover have "of_int h * (a / 2 ^ 23) \<le> k / 2 ^ 22"
    using mult_nonneg_nonneg [of "of_int h" a] ab(2) assms(5) by (simp add: k_def a_def [symmetric])
  moreover have "\<bar>of_int h * (a0 - a)\<bar> = of_int h * \<bar>a0 - a\<bar>" using assms(5) by (simp add: abs_mult)
  ultimately show "\<bar>of_int h * of_int p / of_int q - k\<bar> \<le> k / 2 ^ 22" by linarith
qed

lemma fit_inside_place:
  assumes r: "rounds rnd" and "0 < p" and "0 < q" and "0 \<le> w" and "w \<le> 16384" and "0 \<le> h" and "h \<le> 16384"
    and "fit_inside rnd p q w h = \<lparr>rc_x = x, rc_y = y, rc_w = fw, rc_h = fh\<rparr>"
  shows "0 \<le> fw \<and> fw \<le> w \<and> 0 \<le> fh \<and> fh \<le> h \<and> x = (w - fw) div 2 \<and> y = (h - fh) div 2 \<and> (fw = w \<or> fh = h)
    \<and> (\<bar>of_int fh - of_int w * of_int q / of_int p\<bar> < (2 :: real) \<or> \<bar>of_int fw - of_int h * of_int p / of_int q\<bar> < (2 :: real))"
proof (cases "h \<noteq> 0 \<and> rnd (of_int w / of_int h) < rnd (of_int p / of_int q)")
  case True
  then have h: "0 < h" "rnd (of_int w / of_int h) \<le> rnd (of_int p / of_int q)" using assms(6) by auto
  note k = divided_side [OF r assms(2,3,4) h(1) assms(7) h(2)]
  let ?k = "of_int w / rnd (of_int p / of_int q)"
  have le: "\<lfloor>rnd ?k\<rfloor> \<le> h" using scaled_le [OF r k(1,2) assms(7)] .
  have "of_int h * (1 + 1 / 2 ^ 22) \<le> (20000 :: real)" using assms(7) by (simp add: distrib_left)
  then have "?k \<le> 20000" using k(2) by linarith
  note c = scaled_close [OF r k(1) this k(3)]
  have "x = 0" "fw = w" "fh = \<lfloor>rnd ?k\<rfloor>" "y = (h - fh) sdiv 2" using assms(2,3,8) True by (auto simp: fit_inside_def Let_def)
  then show ?thesis using c le assms(4) by (simp add: signed_divide_int_def sgn_if)
next
  case False
  then have h: "h = 0 \<or> rnd (of_int p / of_int q) \<le> rnd (of_int w / of_int h)" by auto
  note k = multiplied_side [OF r assms(2,3,4,6) h]
  let ?k = "of_int h * rnd (of_int p / of_int q)"
  have le: "\<lfloor>rnd ?k\<rfloor> \<le> w" using scaled_le [OF r k(1,2) assms(5)] .
  have "of_int w * (1 + 1 / 2 ^ 22) \<le> (20000 :: real)" using assms(5) by (simp add: distrib_left)
  then have "?k \<le> 20000" using k(2) by linarith
  note c = scaled_close [OF r k(1) this k(3)]
  have "y = 0" "fh = h" "fw = \<lfloor>rnd ?k\<rfloor>" "x = (w - fw) sdiv 2" using assms(2,3,8) False by (auto simp: fit_inside_def Let_def)
  then show ?thesis using c le assms(6) by (simp add: signed_divide_int_def sgn_if)
qed

lemma rounded_up:
  assumes r: "rounds rnd" and "0 \<le> y" and "y \<le> of_int n * (1 + 1 / 2 ^ 22)" and "1 \<le> n" and "n \<le> 16384"
  shows "0 \<le> \<lfloor>rnd (rnd y + 1 / 2)\<rfloor> \<and> \<lfloor>rnd (rnd y + 1 / 2)\<rfloor> \<le> n"
proof -
  have "y \<le> of_int n + 16384 / 2 ^ 22" using assms(3,5) by (simp add: distrib_left)
  then have "rnd y \<le> of_int n + 1 / 100" using rounds_bounds(2) [OF r assms(2)] assms(5) by (simp add: distrib_left)
  moreover have "0 \<le> rnd y + 1 / 2" using rounds_bounds(3) [OF r assms(2)] by simp
  ultimately have "rnd (rnd y + 1 / 2) < of_int n + 1" "0 \<le> rnd (rnd y + 1 / 2)"
    using rounds_bounds(2,3) [OF r, of "rnd y + 1 / 2"] assms(5) by (simp_all add: distrib_left)
  then show ?thesis by linarith
qed

text \<open>Entering the mode without panels never makes the window larger.\<close>

lemma snap_shrinks:
  assumes r: "rounds rnd" and "0 < fst shown" and "0 < snd shown" and "fst now \<le> 16384" and "snd now \<le> 16384"
    and "snap_to_video_aspect rnd s texture shown now = Some (w, h)"
  shows "0 \<le> w \<and> w \<le> fst now \<and> 0 \<le> h \<and> h \<le> snd now \<and> (w = fst now \<or> h = snd now)"
proof -
  obtain wnow hnow where n: "now = (wnow, hnow)" by (cases now)
  define a where "a = rnd (of_int (fst shown) / of_int (snd shown))"
  have pos: "0 < wnow" "0 < hnow" and le: "wnow \<le> 16384" "hnow \<le> 16384"
    and wh: "(w, h) = (if a < rnd (of_int wnow / of_int hnow) then (\<lfloor>rnd (rnd (of_int hnow * a) + 1 / 2)\<rfloor>, hnow)
                 else (wnow, \<lfloor>rnd (rnd (of_int wnow / a) + 1 / 2)\<rfloor>))"
    using assms(4-6) by (auto simp: snap_to_video_aspect_def n a_def changed_size_def Let_def split: if_splits)
  show ?thesis
  proof (cases "a < rnd (of_int wnow / of_int hnow)")
    case True
    then have "hnow = 0 \<or> a \<le> rnd (of_int wnow / of_int hnow)" by simp
    note k = multiplied_side [OF r assms(2,3) less_imp_le [OF pos(1)] less_imp_le [OF pos(2)] this [unfolded a_def], folded a_def]
    have "1 \<le> wnow" using pos by simp
    from rounded_up [OF r k(1,2) this le(1)] True pos wh show ?thesis by (simp add: n)
  next
    case False
    then have "rnd (of_int wnow / of_int hnow) \<le> a" by simp
    note k = divided_side [OF r assms(2,3) less_imp_le [OF pos(1)] pos(2) le(2) this [unfolded a_def], folded a_def]
    have "1 \<le> hnow" using pos by simp
    from rounded_up [OF r k(1,2) this le(2)] False pos wh show ?thesis by (simp add: n)
  qed
qed

section \<open>Textures\<close>

datatype pixel_format = Iyuv | Nv12 | Bgra | Rgb24 | Glyphs

datatype text_role = Track_title | Track_artist | Track_album | Idle_name | Idle_address | Idle_message

datatype role = Video | Cover | Line text_role

datatype sdl_call =
    Make role pixel_format int int
  | Drop role
  | Reset_gpu_target
  | Gpu_convert avframe
  | Fill_frame pixel_format avframe
  | Fill_nv12 bytes bytes int
  | Fill_iyuv bytes bytes bytes int
  | Fill_rgb bytes int
  | Draw role

text \<open>The textures of the render loop with the sizes it has noted, which outlive a texture that could not be
  made, and the time of the last picture.\<close>

record stage =
  sg_video :: bool
  sg_video_size :: "int \<times> int"
  sg_video_format :: pixel_format
  sg_cover :: bool
  sg_cover_size :: "int \<times> int"
  sg_line :: "text_role \<Rightarrow> bool"
  sg_line_size :: "text_role \<Rightarrow> int \<times> int"
  sg_last_video :: int

definition new_stage :: "int \<Rightarrow> stage" where
  "new_stage now = \<lparr>sg_video = False, sg_video_size = (0, 0), sg_video_format = Iyuv, sg_cover = False, sg_cover_size = (0, 0),
     sg_line = (\<lambda>t. False), sg_line_size = (\<lambda>t. (0, 0)), sg_last_video = now - 10 * 1000000000\<rparr>"

text \<open>FFmpeg's numbers of the formats, the size of a text in the large or the small fonts, and FFmpeg's decoder of covers.\<close>

record media =
  md_format :: "int \<Rightarrow> pixel_format"
  md_render :: "bool \<Rightarrow> string \<Rightarrow> (int \<times> int) option"
  md_decode :: "bytes \<Rightarrow> jpeg_frame option"

definition wanted_format :: "media \<Rightarrow> picture \<Rightarrow> pixel_format" where
  "wanted_format m p =
     (case p of Av_picture f _ _ _ \<Rightarrow> (case md_format m (av_format f) of Bgra \<Rightarrow> Bgra | Nv12 \<Rightarrow> Nv12 | _ \<Rightarrow> Iyuv)
      | Nv12_picture _ _ _ _ _ \<Rightarrow> Nv12 | _ \<Rightarrow> Iyuv)"

fun picture_size :: "picture \<Rightarrow> int \<times> int" where
  "picture_size No_picture = (0, 0)"
| "picture_size (Av_picture _ w h _) = (w, h)"
| "picture_size (I420_picture _ _ _ w h _) = (w, h)"
| "picture_size (Nv12_picture _ _ w h _) = (w, h)"

definition drop_if :: "bool \<Rightarrow> role \<Rightarrow> sdl_call list" where
  "drop_if b r = (if b then [Drop r] else [])"

definition make_if :: "bool \<Rightarrow> role \<Rightarrow> pixel_format \<Rightarrow> int \<times> int \<Rightarrow> sdl_call list" where
  "make_if b r f z = (if b then [Make r f (fst z) (snd z)] else [])"

definition ensure_video :: "bool \<Rightarrow> pixel_format \<Rightarrow> int \<times> int \<Rightarrow> stage \<Rightarrow> sdl_call list \<times> stage" where
  "ensure_video created f z s =
     (if sg_video s \<and> sg_video_size s = z \<and> sg_video_format s = f then ([], s)
      else (Reset_gpu_target # drop_if (sg_video s) Video @ make_if created Video f z,
            s\<lparr>sg_video := created, sg_video_size := z, sg_video_format := f\<rparr>))"

definition fill_video :: "media \<Rightarrow> bool \<Rightarrow> picture \<Rightarrow> stage \<Rightarrow> sdl_call list \<times> stage" where
  "fill_video m converted p s =
     (if \<not> sg_video s then ([], s)
      else case p of
             Av_picture f _ _ _ \<Rightarrow>
               (case md_format m (av_format f) of
                  Bgra \<Rightarrow> (if converted then ([Gpu_convert f], s)
                           else ([Gpu_convert f, Reset_gpu_target, Drop Video], s\<lparr>sg_video := False\<rparr>))
                | Nv12 \<Rightarrow> ([Fill_frame Nv12 f], s)
                | _ \<Rightarrow> ([Fill_frame Iyuv f], s))
           | Nv12_picture y uv w _ _ \<Rightarrow> ([Fill_nv12 y uv w], s)
           | I420_picture y cbp crp w _ _ \<Rightarrow> ([Fill_iyuv y cbp crp w], s)
           | No_picture \<Rightarrow> ([], s))"

definition show_picture :: "media \<Rightarrow> bool \<Rightarrow> bool \<Rightarrow> int \<Rightarrow> picture \<Rightarrow> stage \<Rightarrow> sdl_call list \<times> stage" where
  "show_picture m created converted now p s =
     (if p = No_picture then ([], s)
      else let (cs, s1) = ensure_video created (wanted_format m p) (picture_size p) s;
               (ds, s2) = fill_video m converted p s1
           in (cs @ ds, s2\<lparr>sg_last_video := now\<rparr>))"

definition drop_cover :: "bool \<Rightarrow> stage \<Rightarrow> sdl_call list \<times> stage" where
  "drop_cover requested s =
     (if requested \<and> sg_cover s then ([Drop Cover], s\<lparr>sg_cover := False, sg_cover_size := (0, 0)\<rparr>) else ([], s))"

definition big_font :: "text_role \<Rightarrow> bool" where
  "big_font t \<longleftrightarrow> t = Track_title \<or> t = Idle_name"

definition make_text :: "media \<Rightarrow> bool \<Rightarrow> text_role \<Rightarrow> string \<Rightarrow> stage \<Rightarrow> sdl_call list \<times> stage" where
  "make_text m created t tx s =
     (let cs = drop_if (sg_line s t) (Line t);
          s1 = s\<lparr>sg_line := (sg_line s)(t := False), sg_line_size := (sg_line_size s)(t := (0, 0))\<rparr>
      in if tx = [] then (cs, s1)
         else case md_render m (big_font t) tx of
                None \<Rightarrow> (cs, s1)
              | Some z \<Rightarrow> (cs @ make_if created (Line t) Glyphs z,
                          s1\<lparr>sg_line := (sg_line s1)(t := created), sg_line_size := (sg_line_size s1)(t := z)\<rparr>))"

fun make_texts :: "media \<Rightarrow> (role \<Rightarrow> bool) \<Rightarrow> (text_role \<times> string) list \<Rightarrow> stage \<Rightarrow> sdl_call list \<times> stage" where
  "make_texts m created [] s = ([], s)"
| "make_texts m created ((t, tx) # ts) s =
     (let (cs, s1) = make_text m (created (Line t)) t tx s; (ds, s2) = make_texts m created ts s1 in (cs @ ds, s2))"

definition show_cover :: "media \<Rightarrow> bool \<Rightarrow> bytes \<Rightarrow> stage \<Rightarrow> sdl_call list \<times> stage" where
  "show_cover m created data s =
     (case decode_cover_art (md_decode m) data of
        None \<Rightarrow> ([], s)
      | Some (cw, ch, rgb) \<Rightarrow>
          (let (cs, s1) = (if sg_cover s \<and> sg_cover_size s = (cw, ch) then ([], s)
                           else (drop_if (sg_cover s) Cover @ make_if created Cover Rgb24 (cw, ch),
                                 s\<lparr>sg_cover := created, sg_cover_size := (cw, ch)\<rparr>))
           in (cs @ (if sg_cover s1 then [Fill_rgb rgb (cw * 3)] else []), s1)))"

section \<open>A pass of the render loop\<close>

record idle_texts =
  it_name :: string
  it_address :: string
  it_dirty :: bool

definition set_idle_info :: "string \<Rightarrow> string \<Rightarrow> idle_texts \<Rightarrow> idle_texts" where
  "set_idle_info name ip t = t\<lparr>it_name := name, it_address := ip, it_dirty := True\<rparr>"

record loop =
  lp_renderer :: renderer
  lp_idle :: idle_texts
  lp_stage :: stage

definition new_loop :: "int \<Rightarrow> loop" where
  "new_loop now = \<lparr>lp_renderer = new_renderer, lp_idle = \<lparr>it_name = [], it_address = [], it_dirty = True\<rparr>, lp_stage = new_stage now\<rparr>"

text \<open>The texts that are to be made anew, in the order of the code.\<close>

definition take_texts :: "loop \<Rightarrow> (text_role \<times> string) list \<times> loop" where
  "take_texts l =
     (let r = lp_renderer l; t = lp_idle l
      in ((if it_dirty t then [(Idle_name, it_name t), (Idle_address, it_address t), (Idle_message, ''Waiting for AirPlay'')] else [])
            @ (if vr_meta_dirty r then [(Track_title, vr_title r), (Track_artist, vr_artist r), (Track_album, vr_album r)] else []),
          l\<lparr>lp_renderer := r\<lparr>vr_meta_dirty := False\<rparr>, lp_idle := t\<lparr>it_dirty := False\<rparr>\<rparr>))"

definition drawn :: "stage \<Rightarrow> role \<Rightarrow> sdl_call list" where
  "drawn s r = (case r of
      Video \<Rightarrow> [Draw r] | Cover \<Rightarrow> if sg_cover s then [Draw r] else [] | Line t \<Rightarrow> if sg_line s t then [Draw r] else [])"

definition draw_stage :: "bool \<Rightarrow> bool \<Rightarrow> bool \<Rightarrow> stage \<Rightarrow> sdl_call list" where
  "draw_stage no_chrome music video s =
     (let tracks = concat (map (\<lambda>t. drawn s (Line t)) [Track_title, Track_artist, Track_album])
      in (if video then drawn s Video
          else if sg_cover s \<and> no_chrome then drawn s Cover @ tracks
          else if no_chrome then concat (map (\<lambda>t. drawn s (Line t)) [Idle_name, Idle_address, Idle_message])
          else [])
         @ (if \<not> no_chrome \<and> music then drawn s Cover @ tracks else []))"

record pass_answers =
  an_now :: int
  an_made :: "role \<Rightarrow> bool"
  an_converted :: bool
  an_no_chrome :: bool
  an_page :: nat

definition loop_pass :: "media \<Rightarrow> pass_answers \<Rightarrow> loop \<Rightarrow> sdl_call list \<times> loop" where
  "loop_pass m a l =
     (let (p, slot) = take_picture (vr_slot (lp_renderer l));
          r1 = (lp_renderer l)\<lparr>vr_slot := slot\<rparr>;
          (c1, s1) = show_picture m (an_made a Video) (an_converted a) (an_now a) p (lp_stage l);
          (c2, s2) = drop_cover (vr_clear_cover r1) s1;
          (data, r2) = take_cover r1;
          (texts, l3) = take_texts (l\<lparr>lp_renderer := r2\<rparr>);
          (c3, s3) = make_texts m (an_made a) texts s2;
          (c4, s4) = (if data = [] then ([], s3) else show_cover m (an_made a Cover) data s3);
          kind = map_option dv_kind (vr_device r2);
          video = show_video (sg_video s4) kind ((an_now a - sg_last_video s4) div 1000000 < 500) (vr_playing r2)
      in (c1 @ c2 @ c3 @ c4 @ draw_stage (an_no_chrome a) (an_page a = 1 \<and> kind = Some ''Audio'') video s4,
          l3\<lparr>lp_stage := s4\<rparr>))"

text \<open>What the other parts of the program do between the passes.\<close>

datatype loop_event =
    Pushed push
  | Pushed_cover bytes
  | Pushed_metadata string string string
  | Idle_info string string
  | Rate real
  | Device_set device
  | Device_cleared
  | Session_cleared
  | Session_ended string
  | Pass pass_answers

fun loop_step :: "media \<Rightarrow> loop_event \<Rightarrow> loop \<Rightarrow> sdl_call list \<times> loop" where
  "loop_step m (Pushed p) l = ([], l\<lparr>lp_renderer := (lp_renderer l)\<lparr>vr_slot := do_push p (vr_slot (lp_renderer l))\<rparr>\<rparr>)"
| "loop_step m (Pushed_cover data) l = ([], l\<lparr>lp_renderer := push_cover_art data (lp_renderer l)\<rparr>)"
| "loop_step m (Pushed_metadata a b c) l = ([], l\<lparr>lp_renderer := push_metadata a b c (lp_renderer l)\<rparr>)"
| "loop_step m (Idle_info name ip) l = ([], l\<lparr>lp_idle := set_idle_info name ip (lp_idle l)\<rparr>)"
| "loop_step m (Rate rate) l = ([], l\<lparr>lp_renderer := push_playback_rate rate (lp_renderer l)\<rparr>)"
| "loop_step m (Device_set d) l = ([], l\<lparr>lp_renderer := set_active_device d (lp_renderer l)\<rparr>)"
| "loop_step m Device_cleared l = ([], l\<lparr>lp_renderer := clear_active_device (lp_renderer l)\<rparr>)"
| "loop_step m Session_cleared l = ([], l\<lparr>lp_renderer := clear_session (lp_renderer l)\<rparr>)"
| "loop_step m (Session_ended sid) l = ([], l\<lparr>lp_renderer := clear_session_if_active sid (lp_renderer l)\<rparr>)"
| "loop_step m (Pass a) l = loop_pass m a l"

fun run_loop :: "media \<Rightarrow> loop_event list \<Rightarrow> loop \<Rightarrow> sdl_call list \<times> loop" where
  "run_loop m [] l = ([], l)"
| "run_loop m (e # es) l = (let (cs, l1) = loop_step m e l; (ds, l2) = run_loop m es l1 in (cs @ ds, l2))"

text \<open>The end of the loop destroys what there is.\<close>

definition text_roles :: "text_role list" where
  "text_roles = [Track_title, Track_artist, Track_album, Idle_name, Idle_address, Idle_message]"

definition close_stage :: "stage \<Rightarrow> sdl_call list" where
  "close_stage s = concat (map (\<lambda>t. drop_if (sg_line s t) (Line t)) text_roles)
     @ Reset_gpu_target # drop_if (sg_video s) Video @ drop_if (sg_cover s) Cover"

section \<open>What SDL must be asked\<close>

text \<open>SDL with the textures there are. A texture is filled with its own format and size, from planes that hold
  what SDL reads: SDL counts the columns and rows of the chroma planes rounded up.\<close>

type_synonym textures = "role \<Rightarrow> (pixel_format \<times> int \<times> int) option"

definition reads :: "bytes \<Rightarrow> int \<Rightarrow> int \<Rightarrow> int \<Rightarrow> bool" where
  "reads data pitch cols rows \<longleftrightarrow> cols \<le> pitch \<and> (rows - 1) * pitch + cols \<le> int (length data)"

text \<open>What SDL reads of the planes of a texture in one of the two formats of video, from a frame of FFmpeg with
  the line sizes that it says.\<close>

definition chroma :: "int \<Rightarrow> int" where
  "chroma n = (n + 1) div 2"

definition reads_frame :: "pixel_format \<Rightarrow> avframe \<Rightarrow> bool" where
  "reads_frame p f =
     (let w = av_width f; h = av_height f
      in case av_planes f of
           (y, ls) # (c1, ls1) # rest \<Rightarrow>
             reads y ls w h
             \<and> (if p = Nv12 then reads c1 ls1 (2 * chroma w) (chroma h)
                else case rest of [] \<Rightarrow> False
                     | (c2, ls2) # _ \<Rightarrow> reads c1 ls1 (chroma w) (chroma h) \<and> reads c2 ls2 (chroma w) (chroma h))
         | _ \<Rightarrow> False)"

definition sdl_step :: "sdl_call \<Rightarrow> textures \<Rightarrow> textures option" where
  "sdl_step c m =
     (case c of
        Make r f w h \<Rightarrow> if m r = None then Some (m(r \<mapsto> (f, w, h))) else None
      | Drop r \<Rightarrow> if m r \<noteq> None then Some (m(r := None)) else None
      | Reset_gpu_target \<Rightarrow> Some m
      | Gpu_convert f \<Rightarrow> if m Video = Some (Bgra, av_width f, av_height f) then Some m else None
      | Fill_frame p f \<Rightarrow> if m Video = Some (p, av_width f, av_height f) \<and> reads_frame p f then Some m else None
      | Fill_nv12 y uv pitch \<Rightarrow>
          (case m Video of Some (Nv12, w, h) \<Rightarrow> if reads y pitch w h \<and> reads uv pitch (2 * ((w + 1) div 2)) ((h + 1) div 2) then Some m else None
           | _ \<Rightarrow> None)
      | Fill_iyuv y cbp crp pitch \<Rightarrow>
          (case m Video of Some (Iyuv, w, h) \<Rightarrow>
             if reads y pitch w h \<and> reads cbp (pitch div 2) ((w + 1) div 2) ((h + 1) div 2)
                \<and> reads crp (pitch div 2) ((w + 1) div 2) ((h + 1) div 2) then Some m else None
           | _ \<Rightarrow> None)
      | Fill_rgb rgb pitch \<Rightarrow> (case m Cover of Some (Rgb24, w, h) \<Rightarrow> if reads rgb pitch (3 * w) h then Some m else None | _ \<Rightarrow> None)
      | Draw r \<Rightarrow> if m r \<noteq> None then Some m else None)"

fun sdl_run :: "sdl_call list \<Rightarrow> textures \<Rightarrow> textures option" where
  "sdl_run [] m = Some m"
| "sdl_run (c # cs) m = (case sdl_step c m of None \<Rightarrow> None | Some m1 \<Rightarrow> sdl_run cs m1)"

lemma sdl_run_append: "sdl_run (as @ bs) m = (case sdl_run as m of None \<Rightarrow> None | Some m1 \<Rightarrow> sdl_run bs m1)"
  by (induction as arbitrary: m) (auto split: option.split)

definition textures_of :: "stage \<Rightarrow> textures" where
  "textures_of s r = (case r of
      Video \<Rightarrow> if sg_video s then Some (sg_video_format s, sg_video_size s) else None
    | Cover \<Rightarrow> if sg_cover s then Some (Rgb24, sg_cover_size s) else None
    | Line t \<Rightarrow> if sg_line s t then Some (Glyphs, sg_line_size s t) else None)"

abbreviation performs :: "stage \<Rightarrow> sdl_call list \<Rightarrow> stage \<Rightarrow> bool" where
  "performs s cs t \<equiv> sdl_run cs (textures_of s) = Some (textures_of t)"

lemma performs_append: "performs s cs t \<Longrightarrow> performs t ds v \<Longrightarrow> performs s (cs @ ds) v"
  by (simp add: sdl_run_append)

lemma run_drop_make:
  "m r = (if b then Some x else None) \<Longrightarrow>
   sdl_run (drop_if b r @ make_if c r f z) m = Some (m(r := if c then Some (f, z) else None))"
  by (cases z) (auto simp: drop_if_def make_if_def sdl_step_def)

lemma ensure_video_performs: "ensure_video created f z s = (cs, t) \<Longrightarrow> performs s cs t"
  by (auto simp: ensure_video_def sdl_step_def textures_of_def fun_eq_iff run_drop_make [where x = "(sg_video_format s, sg_video_size s)"]
      split: if_splits role.split)

text \<open>A frame as FFmpeg lays it out: the planes of its format have all rows of at least the width in their line
  size, those of the chroma with the columns and rows rounded up. A frame that is neither on the graphics
  card nor NV12 is one with three planes in 4:2:0.\<close>

definition holds_plane :: "bytes \<times> int \<Rightarrow> int \<Rightarrow> int \<Rightarrow> bool" where
  "holds_plane d cols rows \<longleftrightarrow> cols \<le> snd d \<and> rows * snd d \<le> int (length (fst d))"

definition laid_out :: "media \<Rightarrow> avframe \<Rightarrow> bool" where
  "laid_out m f \<longleftrightarrow>
     (let w = av_width f; h = av_height f; ps = av_planes f
      in case md_format m (av_format f) of
           Bgra \<Rightarrow> True
         | Nv12 \<Rightarrow> 2 \<le> length ps \<and> holds_plane (ps ! 0) w h \<and> holds_plane (ps ! 1) (2 * ((w + 1) div 2)) ((h + 1) div 2)
         | _ \<Rightarrow> 3 \<le> length ps \<and> holds_plane (ps ! 0) w h
               \<and> (\<forall>i\<in>{1, 2}. holds_plane (ps ! i) ((w + 1) div 2) ((h + 1) div 2)))"

lemma holds_reads: "holds_plane d cols rows \<Longrightarrow> reads (fst d) (snd d) cols rows"
  by (simp add: holds_plane_def reads_def left_diff_distrib)

lemma two_planes: "2 \<le> length ps \<longleftrightarrow> (\<exists>a b rest. ps = a # b # rest)"
  by (cases ps; cases "tl ps") auto

lemma three_planes: "3 \<le> length ps \<longleftrightarrow> (\<exists>a b c rest. ps = a # b # c # rest)"
  by (cases ps; cases "tl ps"; cases "tl (tl ps)") auto

lemma laid_out_reads:
  assumes "laid_out m f" and "md_format m (av_format f) \<noteq> Bgra"
  shows "reads_frame (case md_format m (av_format f) of Nv12 \<Rightarrow> Nv12 | _ \<Rightarrow> Iyuv) f"
proof (cases "md_format m (av_format f) = Nv12")
  case True
  then obtain a b rest where ps: "av_planes f = a # b # rest"
    using assms(1) by (auto simp: laid_out_def Let_def two_planes)
  then show ?thesis using assms(1) True
    by (auto simp: laid_out_def Let_def reads_frame_def chroma_def split_def holds_reads)
next
  case False
  define w h where "w = av_width f" and "h = av_height f"
  have l: "3 \<le> length (av_planes f) \<and> holds_plane (av_planes f ! 0) w h
      \<and> (\<forall>i\<in>{1, 2}. holds_plane (av_planes f ! i) ((w + 1) div 2) ((h + 1) div 2))"
    using assms False by (cases "md_format m (av_format f)") (simp_all add: laid_out_def Let_def w_def h_def)
  then obtain a b c rest where ps: "av_planes f = a # b # c # rest" by (auto simp: three_planes)
  have "reads_frame Iyuv f"
    using l by (auto simp: ps reads_frame_def chroma_def split_def holds_reads Let_def w_def h_def)
  then show ?thesis using False by (cases "md_format m (av_format f)") simp_all
qed

fun good_picture :: "media \<Rightarrow> picture \<Rightarrow> bool" where
  "good_picture m No_picture = True"
| "good_picture m (Av_picture f w h _) = (w = av_width f \<and> h = av_height f \<and> laid_out m f)"
| "good_picture m (I420_picture y cbp crp w h _) =
     (0 < w \<and> 0 < h \<and> even w \<and> even h \<and> length y = nat h * nat w \<and> length cbp = nat (h div 2) * nat (w div 2)
      \<and> length crp = nat (h div 2) * nat (w div 2))"
| "good_picture m (Nv12_picture y uvp w h _) =
     (0 < w \<and> 0 < h \<and> even w \<and> even h \<and> length y = nat h * nat w \<and> length uvp = nat (h div 2) * nat w)"

lemma reads_plane: "0 < w \<Longrightarrow> 0 < h \<Longrightarrow> length d = nat h * nat w \<Longrightarrow> reads d w w h"
  by (simp add: reads_def algebra_simps)

lemma half_up: "even n \<Longrightarrow> (n + 1) div 2 = n div (2 :: int)"
  by presburger

lemma fill_video_performs:
  assumes "fill_video m b p s = (cs, t)" and "good_picture m p" and "p \<noteq> No_picture"
    and "sg_video s \<longrightarrow> sg_video_format s = wanted_format m p \<and> sg_video_size s = picture_size p"
  shows "performs s cs t"
proof (cases p)
  case (Av_picture f w h o)
  then have "laid_out m f" using assms(2) by simp
  note laid = laid_out_reads [OF this]
  show ?thesis using assms Av_picture laid
    by (cases "md_format m (av_format f)")
      (auto simp: fill_video_def wanted_format_def sdl_step_def textures_of_def fun_eq_iff split: if_splits role.split)
next
  case (I420_picture y cbp crp w h o)
  have "even w" "even h" "0 < w" "0 < h" using assms(2) I420_picture by simp_all
  then have "0 < w div 2" "0 < h div 2" by presburger+
  then show ?thesis using assms I420_picture
    by (auto simp: fill_video_def wanted_format_def sdl_step_def textures_of_def half_up reads_plane split: if_splits)
next
  case (Nv12_picture y uvp w h o)
  have "even w" "even h" "0 < w" "0 < h" using assms(2) Nv12_picture by simp_all
  moreover from this have "0 < h div 2" "2 * (w div 2) = w" by presburger+
  ultimately show ?thesis using assms Nv12_picture
    by (auto simp: fill_video_def wanted_format_def sdl_step_def textures_of_def half_up reads_plane split: if_splits)
qed (use assms(3) in simp)

lemma ensured_video: "ensure_video created f z s = (cs, t) \<Longrightarrow> sg_video t \<Longrightarrow> sg_video_format t = f \<and> sg_video_size t = z"
  by (auto simp: ensure_video_def split: if_splits)

lemma last_video_unseen [simp]: "textures_of (s\<lparr>sg_last_video := n\<rparr>) = textures_of s"
  by (simp add: textures_of_def fun_eq_iff split: role.split)

lemma show_picture_performs:
  assumes "show_picture m created b now p s = (cs, t)" and "good_picture m p"
  shows "performs s cs t"
proof (cases "p = No_picture")
  case False
  obtain c1 s1 where 1: "ensure_video created (wanted_format m p) (picture_size p) s = (c1, s1)" by fastforce
  obtain c2 s2 where 2: "fill_video m b p s1 = (c2, s2)" by fastforce
  have "performs s c1 s1" using ensure_video_performs [OF 1] .
  moreover have "performs s1 c2 s2" using fill_video_performs [OF 2 assms(2) False] ensured_video [OF 1] by blast
  ultimately show ?thesis using assms(1) False by (auto simp: show_picture_def 1 2 performs_append)
qed (use assms in \<open>auto simp: show_picture_def\<close>)

lemma drop_cover_performs: "drop_cover b s = (cs, t) \<Longrightarrow> performs s cs t"
  by (auto simp: drop_cover_def sdl_step_def textures_of_def fun_eq_iff split: if_splits role.split)

lemma textures_line:
  "textures_of (s\<lparr>sg_line := (sg_line s)(t := c), sg_line_size := (sg_line_size s)(t := z)\<rparr>)
    = (textures_of s)(Line t := if c then Some (Glyphs, z) else None)"
  by (simp add: textures_of_def fun_eq_iff split: role.split)

lemma make_text_performs:
  assumes "make_text m b t tx s = (cs, v)"
  shows "performs s cs v"
proof -
  have l: "textures_of s (Line t) = (if sg_line s t then Some (Glyphs, sg_line_size s t) else None)" by (simp add: textures_of_def)
  have dm: "sdl_run (drop_if (sg_line s t) (Line t) @ make_if c (Line t) f z) (textures_of s)
      = Some ((textures_of s)(Line t := if c then Some (f, z) else None))" for c f z
    by (rule run_drop_make, rule l)
  have d: "sdl_run (drop_if (sg_line s t) (Line t)) (textures_of s) = Some ((textures_of s)(Line t := None))"
    using dm [where c = False] by (simp add: make_if_def)
  show ?thesis
  proof (cases "tx = [] \<or> md_render m (big_font t) tx = None")
    case True
    then have "cs = drop_if (sg_line s t) (Line t)"
        "v = s\<lparr>sg_line := (sg_line s)(t := False), sg_line_size := (sg_line_size s)(t := (0, 0))\<rparr>"
      using assms True by (auto simp: make_text_def Let_def split: if_splits)
    then show ?thesis using d textures_line [where c = False and z = "(0, 0)"] by simp
  next
    case False
    then obtain z where "md_render m (big_font t) tx = Some z" by auto
    then have "cs = drop_if (sg_line s t) (Line t) @ make_if b (Line t) Glyphs z"
        "v = s\<lparr>sg_line := (sg_line s)(t := b), sg_line_size := (sg_line_size s)(t := z)\<rparr>"
      using assms False by (auto simp: make_text_def)
    then show ?thesis using dm [where c = b and f = Glyphs and z = z] textures_line [where c = b and z = z] by simp
  qed
qed

lemma make_texts_performs: "make_texts m created ts s = (cs, t) \<Longrightarrow> performs s cs t"
proof (induction ts arbitrary: s cs t)
  case (Cons x ts)
  obtain r tx where x: "x = (r, tx)" by fastforce
  obtain c1 s1 where 1: "make_text m (created (Line r)) r tx s = (c1, s1)" by fastforce
  obtain c2 s2 where 2: "make_texts m created ts s1 = (c2, s2)" by fastforce
  show ?case using Cons.prems performs_append [OF make_text_performs [OF 1] Cons.IH [OF 2]] by (simp add: x 1 2)
qed simp

lemma show_cover_performs:
  assumes "show_cover m created data s = (cs, t)" and "good_jpeg (md_decode m data)"
  shows "performs s cs t"
proof (cases "decode_cover_art (md_decode m) data")
  case (Some a)
  obtain cw ch rgb where a: "decode_cover_art (md_decode m) data = Some (cw, ch, rgb)" using Some by (cases a) auto
  note e = cover_art_exact [OF a assms(2)]
  then have f: "reads rgb (cw * 3) (3 * cw) ch" using reads_plane [of "cw * 3" ch rgb] by (simp add: mult.commute)
  define s1 where "s1 = (if sg_cover s \<and> sg_cover_size s = (cw, ch) then s else s\<lparr>sg_cover := created, sg_cover_size := (cw, ch)\<rparr>)"
  define c1 where "c1 = (if sg_cover s \<and> sg_cover_size s = (cw, ch) then [] else drop_if (sg_cover s) Cover @ make_if created Cover Rgb24 (cw, ch))"
  have st: "cs = c1 @ (if sg_cover s1 then [Fill_rgb rgb (cw * 3)] else [])" "t = s1"
    using assms(1) a by (auto simp: show_cover_def s1_def c1_def split: if_splits)
  have "performs s c1 s1"
    by (auto simp: c1_def s1_def fun_eq_iff textures_of_def run_drop_make [where x = "(Rgb24, sg_cover_size s)"] split: role.split)
  moreover have "performs s1 (if sg_cover s1 then [Fill_rgb rgb (cw * 3)] else []) s1"
    using f by (auto simp: s1_def sdl_step_def textures_of_def)
  ultimately show ?thesis unfolding st by (rule performs_append)
qed (use assms in \<open>simp add: show_cover_def\<close>)

lemma drawn_performs: "r \<noteq> Video \<or> sg_video s \<Longrightarrow> performs s (drawn s r) s"
  by (auto simp: drawn_def sdl_step_def textures_of_def split: role.split)

lemma lines_perform: "performs s (concat (map (\<lambda>t. drawn s (Line t)) ts)) s"
  by (induction ts) (use performs_append [OF drawn_performs] in auto)

lemma draw_stage_performs: "video \<longrightarrow> sg_video s \<Longrightarrow> performs s (draw_stage no_chrome music video s) s"
  unfolding draw_stage_def Let_def
  by (intro performs_append [where t = s]) (auto intro!: performs_append [where t = s] drawn_performs lines_perform)

lemma show_video_texture: "show_video texture kind fresh playing \<Longrightarrow> texture"
  by (simp add: show_video_def)

section \<open>What reaches the slot\<close>

text \<open>The frames of the mirror are passed by reference, with the planes that FFmpeg gives them; a player pushes
  planes of an even size that it has the rows of.\<close>

fun good_push :: "media \<Rightarrow> push \<Rightarrow> bool" where
  "good_push m (Push_av f _) = laid_out m f"
| "good_push m (Push_i420 y ys cbp cbs crp crs w h _) =
     (0 < w \<and> 0 < h \<and> even w \<and> even h \<and> plane_ok y ys w h \<and> plane_ok cbp cbs (w div 2) (h div 2)
      \<and> plane_ok crp crs (w div 2) (h div 2))"
| "good_push m (Push_nv12 y ys uvp uvs w h _) =
     (0 < w \<and> 0 < h \<and> even w \<and> even h \<and> plane_ok y ys w h \<and> plane_ok uvp uvs w (h div 2))"

definition by_reference :: "push \<Rightarrow> bool" where
  "by_reference p = (case p of Push_av _ _ \<Rightarrow> True | _ \<Rightarrow> False)"

text \<open>No player pushes planes while a frame of the mirror waits; \<open>pend\<close> says that one may. A pass of the
  loop takes it, and a session that is cleared drops it.\<close>

fun orderly :: "media \<Rightarrow> bool \<Rightarrow> loop_event list \<Rightarrow> bool" where
  "orderly m pend [] = True"
| "orderly m pend (Pushed p # es) = (good_push m p \<and> (by_reference p \<or> \<not> pend) \<and> orderly m (pend \<or> by_reference p) es)"
| "orderly m pend (Pass a # es) = orderly m False es"
| "orderly m pend (Session_cleared # es) = orderly m False es"
| "orderly m pend (e # es) = orderly m pend es"

definition slot_good :: "media \<Rightarrow> bool \<Rightarrow> frame_slot \<Rightarrow> bool" where
  "slot_good m pend s \<longleftrightarrow> (fs_avframe s \<noteq> None \<longrightarrow> pend \<and> \<not> fs_has_frame s) \<and> good_picture m (fst (take_picture s))"

lemma push_slot_good:
  "slot_good m k s \<Longrightarrow> good_push m p \<Longrightarrow> by_reference p \<or> \<not> k \<Longrightarrow> slot_good m (k \<or> by_reference p) (do_push p s)"
  by (cases p) (auto simp: slot_good_def by_reference_def push_avframe_def push_frame_def push_frame_nv12_def take_picture_def
      copy_plane_length split: if_splits option.splits)

lemma take_slot_good: "slot_good m k s \<Longrightarrow> slot_good m False (snd (take_picture s))"
  by (auto simp: slot_good_def take_picture_def split: if_splits option.splits)

lemma cleared_slot_good: "slot_good m k (vr_slot (clear_session r))"
  by (simp add: slot_good_def clear_session_def take_picture_def)

abbreviation slot_of :: "loop \<Rightarrow> frame_slot" where
  "slot_of l \<equiv> vr_slot (lp_renderer l)"

lemma pass_performs:
  assumes "slot_good m k (slot_of l)" and "\<And>d. good_jpeg (md_decode m d)"
  shows "performs (lp_stage l) (fst (loop_pass m a l)) (lp_stage (snd (loop_pass m a l))) \<and> slot_good m False (slot_of (snd (loop_pass m a l)))"
proof -
  obtain p slot where p: "take_picture (slot_of l) = (p, slot)" by fastforce
  define r1 where "r1 = (lp_renderer l)\<lparr>vr_slot := slot\<rparr>"
  obtain c1 s1 where 1: "show_picture m (an_made a Video) (an_converted a) (an_now a) p (lp_stage l) = (c1, s1)" by fastforce
  obtain c2 s2 where 2: "drop_cover (vr_clear_cover r1) s1 = (c2, s2)" by fastforce
  obtain data r2 where d: "take_cover r1 = (data, r2)" by fastforce
  obtain ts l3 where t: "take_texts (l\<lparr>lp_renderer := r2\<rparr>) = (ts, l3)" by fastforce
  obtain c3 s3 where 3: "make_texts m (an_made a) ts s2 = (c3, s3)" by fastforce
  obtain c4 s4 where 4: "(if data = [] then ([], s3) else show_cover m (an_made a Cover) data s3) = (c4, s4)" by fastforce
  define video where "video = show_video (sg_video s4) (map_option dv_kind (vr_device r2))
      ((an_now a - sg_last_video s4) div 1000000 < 500) (vr_playing r2)"
  define music where "music \<longleftrightarrow> an_page a = 1 \<and> map_option dv_kind (vr_device r2) = Some ''Audio''"
  have e: "loop_pass m a l = (c1 @ c2 @ c3 @ c4 @ draw_stage (an_no_chrome a) music video s4, l3\<lparr>lp_stage := s4\<rparr>)"
    by (simp only: loop_pass_def p r1_def [symmetric] Let_def prod.case 1 2 3 4 d t video_def music_def)
  have slot: "slot_of l3 = slot" using d t by (auto simp: take_texts_def take_cover_def r1_def Let_def split: if_splits)
  have g: "good_picture m p" "slot_good m False slot" using assms(1) take_slot_good [OF assms(1)] by (auto simp: slot_good_def p)
  have v: "performs s4 (draw_stage (an_no_chrome a) music video s4) s4"
    using draw_stage_performs show_video_texture by (metis video_def)
  have "performs s3 c4 s4" using 4 show_cover_performs [OF _ assms(2)] by (auto split: if_splits)
  note performs_append [OF show_picture_performs [OF 1 g(1)] performs_append [OF drop_cover_performs [OF 2]
    performs_append [OF make_texts_performs [OF 3] performs_append [OF this v]]]]
  then show ?thesis using g(2) by (simp add: e slot)
qed

lemma step_performs:
  assumes "slot_good m k (slot_of l)" and "\<And>d. good_jpeg (md_decode m d)" and "orderly m k (e # es)"
  shows "performs (lp_stage l) (fst (loop_step m e l)) (lp_stage (snd (loop_step m e l)))
    \<and> (\<exists>k1. slot_good m k1 (slot_of (snd (loop_step m e l))) \<and> orderly m k1 es)"
proof (cases e)
  case (Pass a)
  then show ?thesis using pass_performs [OF assms(1,2), of a] assms(3) by auto
next
  case (Pushed p)
  then show ?thesis using push_slot_good [OF assms(1)] assms(3) by auto
next
  case Session_cleared
  then show ?thesis using cleared_slot_good assms(3) by auto
next
  case (Session_ended sid)
  have "slot_good m k (slot_of (snd (loop_step m e l)))"
    using Session_ended assms(1) cleared_slot_good by (auto simp: clear_session_if_active_def split: option.split)
  then show ?thesis using Session_ended assms(3) by auto
qed (use assms(1,3) in
  \<open>auto simp: push_cover_art_def push_metadata_def push_playback_rate_def set_active_device_def clear_active_device_def\<close>)

lemma loop_performs:
  assumes "slot_good m k (slot_of l)" and "\<And>d. good_jpeg (md_decode m d)" and "orderly m k es"
  shows "performs (lp_stage l) (fst (run_loop m es l)) (lp_stage (snd (run_loop m es l)))"
  using assms(1,3)
proof (induction es arbitrary: l k)
  case (Cons e es)
  obtain cs l1 where 1: "loop_step m e l = (cs, l1)" by fastforce
  obtain k1 where "performs (lp_stage l) cs (lp_stage l1)" "slot_good m k1 (slot_of l1)" "orderly m k1 es"
    using step_performs [OF Cons.prems(1) assms(2) Cons.prems(2)] 1 by auto
  then show ?case using performs_append [OF _ Cons.IH] by (auto simp: 1 split_def Let_def simp del: loop_step.simps)
qed simp

lemma drops_empty:
  "distinct rs \<Longrightarrow> (\<And>r. r \<in> set rs \<Longrightarrow> b r \<longleftrightarrow> m r \<noteq> None) \<Longrightarrow>
   sdl_run (concat (map (\<lambda>r. drop_if (b r) r) rs)) m = Some (\<lambda>r. if r \<in> set rs then None else m r)"
proof (induction rs arbitrary: m)
  case (Cons r rs)
  have "sdl_run (drop_if (b r) r) m = Some (m(r := None))"
    using Cons.prems(2) [of r] by (cases "m r") (auto simp: drop_if_def sdl_step_def fun_eq_iff)
  moreover have "sdl_run (concat (map (\<lambda>r. drop_if (b r) r) rs)) (m(r := None)) = Some (\<lambda>q. if q \<in> set rs then None else (m(r := None)) q)"
    using Cons.prems by (intro Cons.IH) auto
  ultimately show ?case by (auto simp: sdl_run_append fun_eq_iff)
qed simp

lemma close_performs: "sdl_run (close_stage s) (textures_of s) = Some (\<lambda>r. None)"
proof -
  define rs where "rs = map Line text_roles @ [Video, Cover]"
  define b where "b r = (case r of Video \<Rightarrow> sg_video s | Cover \<Rightarrow> sg_cover s | Line t \<Rightarrow> sg_line s t)" for r
  have all: "r \<in> set rs" for r
  proof (cases r)
    case (Line t)
    then show ?thesis by (cases t) (auto simp: rs_def text_roles_def)
  qed (simp_all add: rs_def)
  have "distinct rs" by (simp add: rs_def text_roles_def)
  moreover have "b r \<longleftrightarrow> textures_of s r \<noteq> None" for r by (simp add: b_def textures_of_def split: role.split)
  ultimately have "sdl_run (concat (map (\<lambda>r. drop_if (b r) r) rs)) (textures_of s) = Some (\<lambda>r. if r \<in> set rs then None else textures_of s r)"
    by (intro drops_empty) auto
  moreover have "sdl_run (as @ Reset_gpu_target # bs) m = sdl_run (as @ bs) m" for as bs m
    by (simp add: sdl_run_append sdl_step_def split: option.split)
  moreover have "concat (map (\<lambda>r. drop_if (b r) r) rs)
      = concat (map (\<lambda>t. drop_if (sg_line s t) (Line t)) text_roles) @ drop_if (sg_video s) Video @ drop_if (sg_cover s) Cover"
    by (simp add: rs_def b_def o_def)
  ultimately show ?thesis using all by (simp add: close_stage_def)
qed

section \<open>Odd sizes\<close>

definition sample_media :: media where
  "sample_media = \<lparr>md_format = (\<lambda>n. if n = 172 then Bgra else if n = 23 then Nv12 else Iyuv), md_render = (\<lambda>big tx. Some (10, 20)),
     md_decode = (\<lambda>d. Some \<lparr>jf_width = 1, jf_height = 2, jf_plane = Some (4, [1, 2, 3, 0, 4, 5, 6])\<rparr>)\<rparr>"

definition sample_answers :: pass_answers where
  "sample_answers = \<lparr>an_now = 9000000000, an_made = (\<lambda>r. True), an_converted = True, an_no_chrome = True, an_page = 0\<rparr>"

text \<open>A player that pushes planes of an odd size copies half the columns and rows rounded down, fewer than SDL reads.\<close>

lemma odd_planes_overread:
  assumes "length y = 9" and "length uvp = 3"
  shows "sdl_run (fst (run_loop sample_media [Pushed (Push_nv12 y 3 uvp 3 3 3 0), Pass sample_answers] (new_loop 0))) (\<lambda>r. None) = None"
proof -
  have "length (copy_plane uvp 3 3 1) = 3" using assms(2) by (simp add: copy_plane_length plane_ok_def)
  then have r: "\<not> reads (copy_plane uvp 3 3 1) 3 4 2" by (simp add: reads_def)
  obtain cs l where "loop_pass sample_media sample_answers
      ((new_loop 0)\<lparr>lp_renderer := new_renderer\<lparr>vr_slot := do_push (Push_nv12 y 3 uvp 3 3 3 0) empty_slot\<rparr>\<rparr>) = (cs, l)" by fastforce
  moreover from this have "\<exists>ds. cs = [Reset_gpu_target, Make Video Nv12 3 3, Fill_nv12 (copy_plane y 3 3 3) (copy_plane uvp 3 3 1) 3] @ ds"
    by (auto simp: loop_pass_def take_picture_def push_frame_nv12_def empty_slot_def show_picture_def ensure_video_def fill_video_def
        sample_answers_def new_loop_def new_renderer_def new_stage_def wanted_format_def drop_if_def make_if_def drop_cover_def
        take_cover_def take_texts_def Let_def split_def)
  ultimately show ?thesis using r by (auto simp: new_loop_def new_renderer_def sdl_step_def Let_def)
qed

section \<open>Statistics\<close>

text \<open>Real numbers stand for the floating-point averages of the status bar.\<close>

record stats =
  st_last_push :: int
  st_fps :: real
  st_size :: "int \<times> int"
  st_frames :: u64
  st_last_payload :: int
  st_mbps :: real
  st_bytes :: u64
  st_latency :: real

definition new_stats :: stats where
  "new_stats = \<lparr>st_last_push = 0, st_fps = 0, st_size = (0, 0), st_frames = 0, st_last_payload = 0, st_mbps = 0, st_bytes = 0, st_latency = 0\<rparr>"

definition average :: "real \<Rightarrow> real \<Rightarrow> real \<Rightarrow> real" where
  "average keep old new = (if old \<le> 0 then new else old * keep + new * (1 - keep))"

definition interval :: "int \<Rightarrow> int \<Rightarrow> real option" where
  "interval before now =
     (let dt = of_int (now - before) / 1000000000 in if 0 < before \<and> 1 / 1000 < dt \<and> dt < 1 then Some dt else None)"

definition note_frame :: "int \<Rightarrow> int \<times> int \<Rightarrow> stats \<Rightarrow> stats" where
  "note_frame now z s =
     s\<lparr>st_last_push := now,
       st_fps := (case interval (st_last_push s) now of None \<Rightarrow> st_fps s | Some dt \<Rightarrow> average (85 / 100) (st_fps s) (1 / dt)),
       st_size := z, st_frames := st_frames s + 1\<rparr>"

definition record_payload_bytes :: "int \<Rightarrow> nat \<Rightarrow> stats \<Rightarrow> stats" where
  "record_payload_bytes now n s =
     s\<lparr>st_bytes := st_bytes s + of_nat n, st_last_payload := now,
       st_mbps := (case interval (st_last_payload s) now of None \<Rightarrow> st_mbps s
                   | Some dt \<Rightarrow> average (85 / 100) (st_mbps s) (of_nat n * 8 / (dt * 1000000)))\<rparr>"

definition note_latency :: "bool \<Rightarrow> int \<Rightarrow> int \<Rightarrow> stats \<Rightarrow> stats" where
  "note_latency pictured origin now s =
     (if pictured \<and> 0 < origin then s\<lparr>st_latency := average (90 / 100) (st_latency s) (of_int (now - origin) / 1000000)\<rparr> else s)"

definition clear_stats :: "stats \<Rightarrow> stats" where
  "clear_stats s = s\<lparr>st_frames := 0, st_fps := 0, st_last_push := 0, st_bytes := 0, st_mbps := 0, st_last_payload := 0, st_latency := 0\<rparr>"

text \<open>The frame rate shown is either none yet or a rate that two frames can have had.\<close>

definition stats_ok :: "stats \<Rightarrow> bool" where
  "stats_ok s \<longleftrightarrow> (st_fps s = 0 \<or> 1 < st_fps s \<and> st_fps s < 1000) \<and> 0 \<le> st_mbps s"

lemma average_between: "0 < keep \<Longrightarrow> keep < 1 \<Longrightarrow> lo < new \<Longrightarrow> new < hi \<Longrightarrow> old = 0 \<or> lo < old \<and> old < hi \<Longrightarrow>
    0 \<le> lo \<Longrightarrow> lo < average keep old new \<and> average keep old new < hi"
proof (cases "old \<le> 0")
  case False
  assume k: "0 < keep" "keep < 1" and n: "lo < new" "new < hi" and o: "old = 0 \<or> lo < old \<and> old < hi" and "0 \<le> lo"
  have "lo * keep < old * keep" "old * keep < hi * keep" using k o False by auto
  moreover have "lo * (1 - keep) < new * (1 - keep)" "new * (1 - keep) < hi * (1 - keep)" using k n by auto
  ultimately show ?thesis using False by (auto simp: average_def algebra_simps)
qed (auto simp: average_def)

lemma average_nonneg: "0 \<le> keep \<Longrightarrow> keep \<le> 1 \<Longrightarrow> 0 \<le> new \<Longrightarrow> 0 \<le> average keep old new"
  by (simp add: average_def)

lemma interval_range: "interval before now = Some dt \<Longrightarrow> 1 < 1 / dt \<and> 1 / dt < 1000 \<and> 0 < dt"
  by (auto simp: interval_def Let_def field_simps split: if_splits)

lemma stats_ok_new: "stats_ok new_stats" "stats_ok (clear_stats s)"
  by (simp_all add: stats_ok_def new_stats_def clear_stats_def)

lemma stats_ok_frame: "stats_ok s \<Longrightarrow> stats_ok (note_frame now z s)"
  using average_between [of "85 / 100" 1 _ 1000 "st_fps s"] interval_range
  by (fastforce simp: stats_ok_def note_frame_def split: option.split)

lemma stats_ok_payload: "stats_ok s \<Longrightarrow> stats_ok (record_payload_bytes now n s)"
  using interval_range by (fastforce simp: stats_ok_def record_payload_bytes_def intro!: average_nonneg split: option.split)

section \<open>Layout\<close>

definition cover_strip :: "int \<Rightarrow> int" where
  "cover_strip win_h = min win_h (max (win_h sdiv 4) 230)"

text \<open>The lines below the cover, from the given height on; a line without a texture takes no place.\<close>

fun stack_lines :: "int \<Rightarrow> int \<Rightarrow> (int \<times> int) option list \<Rightarrow> rect list" where
  "stack_lines win_w y [] = []"
| "stack_lines win_w y (None # zs) = stack_lines win_w y zs"
| "stack_lines win_w y (Some (w, h) # zs) =
     \<lparr>rc_x = 20, rc_y = y, rc_w = min w (win_w - 2 * 20), rc_h = h\<rparr> # stack_lines win_w (y + h + 4) zs"

definition idle_lines :: "int \<Rightarrow> int \<Rightarrow> int \<times> int \<Rightarrow> int \<times> int \<Rightarrow> int \<times> int \<Rightarrow> rect list" where
  "idle_lines win_w win_h name address message =
     (let y1 = (win_h - (snd name + snd address + snd message + 24)) sdiv 2; y2 = y1 + snd name + 12; y3 = y2 + snd address + 12;
          centred = (\<lambda>z y. \<lparr>rc_x = (win_w - fst z) sdiv 2, rc_y = y, rc_w = fst z, rc_h = snd z\<rparr>)
      in [centred name y1, centred address y2, centred message y3])"

definition pause_badge :: "rect \<Rightarrow> rect list" where
  "pause_badge d =
     (let badge = min (rc_w d) (rc_h d) sdiv 6; cx = rc_x d + rc_w d sdiv 2; cy = rc_y d + rc_h d sdiv 2;
          bw = badge sdiv 3; bh = badge; gap = badge sdiv 3
      in [\<lparr>rc_x = cx - badge, rc_y = cy - badge, rc_w = badge * 2, rc_h = badge * 2\<rparr>,
          \<lparr>rc_x = cx - gap - bw, rc_y = cy - bh sdiv 2, rc_w = bw, rc_h = bh\<rparr>,
          \<lparr>rc_x = cx + gap, rc_y = cy - bh sdiv 2, rc_w = bw, rc_h = bh\<rparr>])"

definition show_pause_badge :: "bool \<Rightarrow> string option \<Rightarrow> bool" where
  "show_pause_badge playing kind \<longleftrightarrow> \<not> playing \<and> kind \<noteq> Some ''Mirror''"

lemma sdiv_pos: "0 \<le> a \<Longrightarrow> 0 < b \<Longrightarrow> a sdiv b = a div (b :: int)"
  by (simp add: signed_divide_int_def sgn_if)

lemma badge_inside:
  assumes "0 \<le> rc_w d" and "0 \<le> rc_h d"
  shows "list_all (\<lambda>r. inside r d) (pause_badge d)"
proof -
  define k where "k = min (rc_w d) (rc_h d) div 6"
  define w where "w = rc_w d div 2"
  define h where "h = rc_h d div 2"
  define third where "third = k div 3"
  define half where "half = k div 2"
  have k: "0 \<le> k" "6 * k \<le> rc_w d" "6 * k \<le> rc_h d" using assms by (auto simp: k_def)
  have wh: "2 * w \<le> rc_w d" "rc_w d < 2 * w + 2" "2 * h \<le> rc_h d" "rc_h d < 2 * h + 2" by (auto simp: w_def h_def)
  have th: "0 \<le> third" "3 * third \<le> k" "0 \<le> half" "2 * half \<le> k" "k < 2 * half + 2"
    using k(1) by (auto simp: third_def half_def)
  have "pause_badge d = [\<lparr>rc_x = rc_x d + w - k, rc_y = rc_y d + h - k, rc_w = k * 2, rc_h = k * 2\<rparr>,
      \<lparr>rc_x = rc_x d + w - third - third, rc_y = rc_y d + h - half, rc_w = third, rc_h = k\<rparr>,
      \<lparr>rc_x = rc_x d + w + third, rc_y = rc_y d + h - half, rc_w = third, rc_h = k\<rparr>]"
    using assms k(1) by (simp add: pause_badge_def Let_def sdiv_pos k_def w_def h_def third_def half_def)
  then show ?thesis using k wh th by (simp add: inside_def)
qed

definition state_label :: "bool \<Rightarrow> bool \<Rightarrow> bool \<Rightarrow> string" where
  "state_label paired has_video playing =
     (if paired then (if has_video then (if playing then ''Streaming'' else ''Paused'') else ''Connected'') else ''Idle'')"

text \<open>Minutes and seconds of a position.\<close>

definition clock_parts :: "nat \<Rightarrow> nat \<times> nat" where
  "clock_parts millis = (millis div 60000, (millis div 1000) mod 60)"

text \<open>The height that the firewall notice takes.\<close>

definition notice_height :: "bool \<Rightarrow> string \<Rightarrow> int" where
  "notice_height notice message = (if notice then (if message = [] then 124 else 150) else 0)"

text \<open>A button for the sender's player: one command at a time, and only when the sender can be reached.\<close>

definition press_command :: "renderer \<Rightarrow> bool \<times> renderer" where
  "press_command r =
     (if \<not> vr_control_available r \<or> vr_command_pending r then (False, r)
      else (True, r\<lparr>vr_command_failed := False, vr_command_pending := True\<rparr>))"

definition audio_command_finished :: "bool \<Rightarrow> renderer \<Rightarrow> renderer" where
  "audio_command_finished success r = r\<lparr>vr_command_failed := \<not> success, vr_command_pending := False\<rparr>"

lemma one_command_at_a_time: "press_command r = (True, r1) \<Longrightarrow> press_command r1 = (False, r1)"
  by (auto simp: press_command_def split: if_splits)

section \<open>Start and end of the render thread\<close>

text \<open>What the thread holds: the subsystems, the window and the fonts of its texts.\<close>

datatype handle = Sdl_video | Sdl_window | Sdl_renderer | Imgui | Ttf | Font string nat

datatype handle_call = Take handle | Give handle

record run_answers =
  ra_sdl :: bool
  ra_window :: bool
  ra_renderer :: bool
  ra_ttf :: bool
  ra_font :: "string \<Rightarrow> nat \<Rightarrow> bool"

definition font_dir :: string where
  "font_dir = ''C:'' @ [CHR 0x5C] @ ''Windows'' @ [CHR 0x5C] @ ''Fonts'' @ [CHR 0x5C]"

definition font_paths :: "string list" where
  "font_paths = map (\<lambda>f. font_dir @ f)
     [''segoeui.ttf'', ''arial.ttf'', ''msyh.ttc'', ''msyh.ttf'', ''simsun.ttc'', ''meiryo.ttc'', ''YuGothM.ttc'', ''msgothic.ttc'',
      ''malgun.ttf'', ''seguisym.ttf'']"

definition semibold :: string where
  "semibold = ''C:/Windows/Fonts/seguisb.ttf''"

definition open_font_chain :: "(string \<Rightarrow> nat \<Rightarrow> bool) \<Rightarrow> nat \<Rightarrow> handle list" where
  "open_font_chain opens pt = map (\<lambda>p. Font p pt) (filter (\<lambda>p. opens p pt) font_paths)"

text \<open>The fonts of the titles, with the semibold one in the place of the first, and the calls that open them.\<close>

definition open_fonts :: "run_answers \<Rightarrow> handle_call list \<times> handle list" where
  "open_fonts a =
     (if \<not> ra_ttf a then ([], [])
      else let big = open_font_chain (ra_font a) 32; small = open_font_chain (ra_font a) 20;
               bold = Font semibold 32;
               (calls, big1) =
                 (if ra_font a semibold 32 then (Take bold # (if big = [] then [] else [Give (hd big)]), bold # tl big) else ([], big))
           in (Take Ttf # map Take (big @ small) @ calls, big1 @ small))"

definition open_run :: "run_answers \<Rightarrow> bool \<times> handle_call list \<times> handle list" where
  "open_run a =
     (if \<not> ra_sdl a then (False, [], [])
      else if \<not> ra_window a then (False, [Take Sdl_video, Give Sdl_video], [])
      else if \<not> ra_renderer a then (False, [Take Sdl_video, Take Sdl_window, Give Sdl_window, Give Sdl_video], [])
      else let (calls, fonts) = open_fonts a in (True, [Take Sdl_video, Take Sdl_window, Take Sdl_renderer, Take Imgui] @ calls, fonts))"

definition close_run :: "handle list \<Rightarrow> handle_call list" where
  "close_run fonts = map Give fonts @ [Give Ttf, Give Imgui, Give Sdl_renderer, Give Sdl_window, Give Sdl_video]"

definition run_handles :: "run_answers \<Rightarrow> handle_call list" where
  "run_handles a = (case open_run a of (ok, calls, fonts) \<Rightarrow> calls @ (if ok then close_run fonts else []))"

text \<open>Nothing is taken twice or given back without being held; quitting the font library without having started
  it is allowed.\<close>

definition handle_step :: "handle_call \<Rightarrow> handle set \<Rightarrow> handle set option" where
  "handle_step c owned =
     (case c of Take h \<Rightarrow> if h \<notin> owned then Some (insert h owned) else None
      | Give h \<Rightarrow> if h \<in> owned \<or> h = Ttf then Some (owned - {h}) else None)"

fun handle_run :: "handle_call list \<Rightarrow> handle set \<Rightarrow> handle set option" where
  "handle_run [] owned = Some owned"
| "handle_run (c # cs) owned = (case handle_step c owned of None \<Rightarrow> None | Some owned1 \<Rightarrow> handle_run cs owned1)"

lemma handle_run_append: "handle_run (as @ bs) owned = (case handle_run as owned of None \<Rightarrow> None | Some owned1 \<Rightarrow> handle_run bs owned1)"
  by (induction as arbitrary: owned) (auto split: option.split)

lemma handle_run_take: "distinct hs \<Longrightarrow> set hs \<inter> owned = {} \<Longrightarrow> handle_run (map Take hs) owned = Some (set hs \<union> owned)"
  by (induction hs arbitrary: owned) (auto simp: handle_step_def)

lemma handle_run_give: "distinct hs \<Longrightarrow> set hs \<subseteq> owned \<Longrightarrow> handle_run (map Give hs) owned = Some (owned - set hs)"
proof (induction hs arbitrary: owned)
  case (Cons h hs)
  then have "handle_run (map Give hs) (owned - {h}) = Some (owned - {h} - set hs)" by (intro Cons.IH) auto
  then show ?case using Cons.prems by (simp add: handle_step_def) blast
qed simp

lemma font_chain:
  "distinct (open_font_chain opens pt)" "h \<in> set (open_font_chain opens pt) \<Longrightarrow> \<exists>p. h = Font p pt \<and> p \<noteq> semibold"
proof -
  have "distinct font_paths" by (simp add: font_paths_def)
  then show "distinct (open_font_chain opens pt)" by (auto simp: open_font_chain_def distinct_map inj_on_def)
  have "semibold \<notin> set font_paths" by (simp add: font_paths_def semibold_def font_dir_def)
  then show "h \<in> set (open_font_chain opens pt) \<Longrightarrow> \<exists>p. h = Font p pt \<and> p \<noteq> semibold" by (auto simp: open_font_chain_def)
qed

lemma opened_fonts:
  assumes "open_fonts a = (calls, fonts)" and "\<forall>p pt. Font p pt \<notin> owned" and "Ttf \<notin> owned"
  shows "\<exists>owned1. handle_run calls owned = Some owned1 \<and> distinct fonts \<and> owned1 = owned \<union> set fonts \<union> (if ra_ttf a then {Ttf} else {})
    \<and> (\<forall>h \<in> set fonts. \<exists>p pt. h = Font p pt)"
proof (cases "ra_ttf a")
  case False
  then show ?thesis using assms by (simp add: open_fonts_def)
next
  case True
  define big small bold where "big = open_font_chain (ra_font a) 32" and "small = open_font_chain (ra_font a) 20"
    and "bold = Font semibold 32"
  have d: "distinct big" "distinct small" by (simp_all add: big_def small_def font_chain(1))
  have b: "h \<in> set big \<Longrightarrow> \<exists>p. h = Font p 32 \<and> p \<noteq> semibold" and s: "h \<in> set small \<Longrightarrow> \<exists>p. h = Font p 20 \<and> p \<noteq> semibold" for h
    using font_chain(2) by (auto simp: big_def small_def)
  have disj: "set big \<inter> set small = {}" "bold \<notin> set big" "bold \<notin> set small" using b s by (fastforce simp: bold_def)+
  define owned0 where "owned0 = insert Ttf owned"
  have free: "set (big @ small) \<inter> owned0 = {}" "bold \<notin> owned0" using b s assms(2) by (fastforce simp: owned0_def bold_def)+
  have take: "handle_run (Take Ttf # map Take (big @ small)) owned = Some (set (big @ small) \<union> owned0)"
    using handle_run_take [of "big @ small" owned0] d disj(1) free(1) assms(3) by (simp add: handle_step_def owned0_def)
  have fonts: "\<forall>h \<in> set big \<union> set small \<union> {bold}. \<exists>p pt. h = Font p pt" using b s unfolding bold_def by blast
  show ?thesis
  proof (cases "ra_font a semibold 32")
    case False
    then have "calls = Take Ttf # map Take (big @ small)" "fonts = big @ small"
      using assms(1) True by (auto simp: open_fonts_def big_def small_def Let_def)
    then show ?thesis using take d disj fonts True by (auto simp: owned0_def)
  next
    case t: True
    have e: "calls = (Take Ttf # map Take (big @ small)) @ Take bold # (if big = [] then [] else [Give (hd big)])"
        "fonts = (bold # tl big) @ small"
      using assms(1) True t by (auto simp: open_fonts_def big_def small_def bold_def Let_def)
    show ?thesis
    proof (cases big)
      case Nil
      then show ?thesis unfolding e handle_run_append take using d disj fonts True free
        by (auto simp: handle_step_def owned0_def)
    next
      case (Cons f fs)
      have "f \<notin> owned0 \<and> f \<noteq> bold \<and> f \<notin> set fs \<and> f \<notin> set small" using Cons free disj d by auto
      then show ?thesis unfolding e handle_run_append take using d disj fonts True free Cons
        by (auto simp: handle_step_def owned0_def)
    qed
  qed
qed

lemma run_handles_balanced: "handle_run (run_handles a) {} = Some {}"
proof (cases "ra_sdl a \<and> ra_window a \<and> ra_renderer a")
  case False
  then show ?thesis by (auto simp: run_handles_def open_run_def handle_step_def)
next
  case True
  obtain calls fonts where o: "open_fonts a = (calls, fonts)" by fastforce
  define owned where "owned = {Imgui, Sdl_renderer, Sdl_window, Sdl_video}"
  obtain owned1 where h: "handle_run calls owned = Some owned1" "distinct fonts"
      "owned1 = owned \<union> set fonts \<union> (if ra_ttf a then {Ttf} else {})" "\<forall>h \<in> set fonts. \<exists>p pt. h = Font p pt"
    using opened_fonts [OF o, of owned] by (simp add: owned_def)
  have "set fonts \<subseteq> owned1" using h(3) by auto
  note g = handle_run_give [OF h(2) this]
  have "owned1 - set fonts = owned \<union> (if ra_ttf a then {Ttf} else {})" using h(3,4) by (auto simp: owned_def)
  then have "handle_run (close_run fonts) owned1 = Some {}"
    unfolding close_run_def handle_run_append g by (auto simp: handle_step_def owned_def)
  moreover have "handle_run ([Take Sdl_video, Take Sdl_window, Take Sdl_renderer, Take Imgui] @ calls) {} = Some owned1"
    using h(1) by (simp add: handle_step_def owned_def)
  moreover have "run_handles a = ([Take Sdl_video, Take Sdl_window, Take Sdl_renderer, Take Imgui] @ calls) @ close_run fonts"
    using True o by (simp add: run_handles_def open_run_def)
  ultimately show ?thesis using handle_run_append [of "[Take Sdl_video, Take Sdl_window, Take Sdl_renderer, Take Imgui] @ calls"] by simp
qed

section \<open>Properties\<close>

text \<open>C15: Whatever the other threads hand over between the passes of the render loop, and whichever textures SDL
  fails to make, SDL is only asked for what it can do: a texture is made only where there is none, filled only
  with a picture of its own format and size from planes that hold what SDL reads, drawn and destroyed only
  while it exists; and when the loop ends no texture is left. This is for frames of the mirror as FFmpeg lays
  them out, for planes of an even size, and as long as no player pushes planes while a frame of the mirror
  waits: with planes of an odd size SDL reads beyond them, and where the two meet a picture comes with the
  size of another.\<close>

theorem stage_textures_safe:
  assumes "\<And>d. good_jpeg (md_decode m d)" and "orderly m False es"
  shows "sdl_run (fst (run_loop m es (new_loop now)) @ close_stage (lp_stage (snd (run_loop m es (new_loop now))))) (\<lambda>r. None)
    = Some (\<lambda>r. None)"
proof -
  have g: "slot_good m False (slot_of (new_loop now))"
    by (simp add: slot_good_def new_loop_def new_renderer_def empty_slot_def take_picture_def)
  have "textures_of (lp_stage (new_loop now)) = (\<lambda>r. None)"
    by (simp add: textures_of_def new_loop_def new_stage_def fun_eq_iff split: role.split)
  then show ?thesis using loop_performs [OF g assms] close_performs by (simp add: sdl_run_append)
qed

text \<open>C31: A picture of any size is placed inside the stage, centred, touching it on two sides, with the other
  side right for its aspect to within two pixels, although the aspect is computed with rounding errors.\<close>

theorem picture_fits_stage:
  assumes "rounds rnd" and "0 < p" and "0 < q" and "0 \<le> w" and "w \<le> 16384" and "0 \<le> h" and "h \<le> 16384"
    and "fit_inside rnd p q w h = \<lparr>rc_x = x, rc_y = y, rc_w = fw, rc_h = fh\<rparr>"
  shows "inside \<lparr>rc_x = x, rc_y = y, rc_w = fw, rc_h = fh\<rparr> \<lparr>rc_x = 0, rc_y = 0, rc_w = w, rc_h = h\<rparr>
    \<and> x = (w - fw) div 2 \<and> y = (h - fh) div 2 \<and> (fw = w \<or> fh = h)
    \<and> (\<bar>of_int fh - of_int w * of_int q / of_int p\<bar> < (2 :: real) \<or> \<bar>of_int fw - of_int h * of_int p / of_int q\<bar> < (2 :: real))"
  using fit_inside_place [OF assms] by (auto simp: inside_def)

section \<open>Witnesses\<close>

definition mirrored_frame :: avframe where
  "mirrored_frame = \<lparr>av_width = 3, av_height = 1, av_format = 0, av_planes = [([1, 2, 3, 0], 4), ([4, 5], 2), ([6, 7], 2)]\<rparr>"

theorem stage_textures_safe_witness:
  "let es = [Pushed (Push_nv12 [1, 2, 3, 4] 2 [5, 6] 2 2 2 9), Pushed_cover [0xff], Idle_info ''PC'' ''10.0.0.2'', Pass sample_answers,
       Pushed (Push_av mirrored_frame 10), Pass sample_answers, Session_cleared, Pass sample_answers]
   in sdl_run (fst (run_loop sample_media es (new_loop 0)) @ close_stage (lp_stage (snd (run_loop sample_media es (new_loop 0))))) (\<lambda>r. None)
     = Some (\<lambda>r. None)"
proof -
  have j: "\<And>d. good_jpeg (md_decode sample_media d)" by (simp add: good_jpeg_def sample_media_def plane_ok_def)
  have f: "laid_out sample_media mirrored_frame"
    by (simp add: laid_out_def holds_plane_def mirrored_frame_def sample_media_def Let_def)
  show ?thesis unfolding Let_def
    by (rule stage_textures_safe) (simp_all only: j, simp add: plane_ok_def by_reference_def f)
qed

theorem picture_fits_stage_witness:
  "inside \<lparr>rc_x = 710, rc_y = 0, rc_w = 499, rc_h = 1080\<rparr> \<lparr>rc_x = 0, rc_y = 0, rc_w = 1920, rc_h = 1080\<rparr>
    \<and> \<bar>of_int 499 - of_int 1080 * of_int 1170 / of_int 2532\<bar> < (2 :: real)"
proof -
  have r: "rounds (\<lambda>x. x - x / 2 ^ 25)" by (simp add: rounds_def)
  have f: "fit_inside (\<lambda>x. x - x / 2 ^ 25) 1170 2532 1920 1080 = \<lparr>rc_x = 710, rc_y = 0, rc_w = 499, rc_h = 1080\<rparr>"
    by (simp add: fit_inside_def Let_def floor_eq_iff sdiv_pos)
  show ?thesis using picture_fits_stage [OF r _ _ _ _ _ _ f] by simp
qed

end
