(* ===== verification/Sound.thy ===== *)
theory Sound
  imports Complex_Main Prelude
begin

text \<open>
  The sound device (src/audio/audio_output.cpp): opening and closing it, the volume, and the samples that are
  queued. SDL's answers are arguments and what is asked of it is a list of calls; a device is a number. A
  floating-point number is a real one, an infinity or not a number; a product or quotient takes its rounding
  as an argument, and so is the power of ten, which the library computes.
\<close>

section \<open>The device\<close>

type_synonym pcm_sample = "16 word"

datatype float_number = Finite real | Infinite bool | Nan

record sound =
  so_device :: "nat option"
  so_channels :: int
  so_rate :: int
  so_buffer :: int
  so_gain :: float_number

definition new_sound :: sound where
  "new_sound = \<lparr>so_device = None, so_channels = 0, so_rate = 0, so_buffer = 0, so_gain = Finite 1\<rparr>"

text \<open>A sample None is one that the source computes by a conversion that C++ leaves undefined.\<close>

datatype sound_call =
    Open_device nat
  | Pause_device nat bool
  | Queue_audio nat "pcm_sample option list"
  | Clear_queue nat
  | Close_device nat
  | Quit_audio

text \<open>The answer of SDL to the opening: the device with the rate, the channels and the buffer it really has.\<close>

record open_answer =
  oa_subsystem :: bool
  oa_device :: "(nat \<times> int \<times> int \<times> int) option"

definition start_sound :: "open_answer \<Rightarrow> sound \<Rightarrow> bool \<times> sound_call list \<times> sound" where
  "start_sound a s =
     (if \<not> oa_subsystem a then (False, [], s)
      else case oa_device a of
             None \<Rightarrow> (False, [Quit_audio], s\<lparr>so_device := None\<rparr>)
           | Some (d, freq, ch, buf) \<Rightarrow>
               (True, [Open_device d, Pause_device d False], s\<lparr>so_device := Some d, so_rate := freq, so_channels := ch, so_buffer := buf\<rparr>))"

definition stop_sound :: "sound \<Rightarrow> sound_call list \<times> sound" where
  "stop_sound s =
     (case so_device s of
        None \<Rightarrow> ([], s)
      | Some d \<Rightarrow> ([Pause_device d True, Clear_queue d, Close_device d], s\<lparr>so_device := None\<rparr>))"

definition clear_sound :: "sound \<Rightarrow> sound_call list \<times> sound" where
  "clear_sound s = (case so_device s of None \<Rightarrow> ([], s) | Some d \<Rightarrow> ([Clear_queue d], s))"

section \<open>Volume\<close>

definition trunc :: "real \<Rightarrow> int" where
  "trunc x = (if 0 \<le> x then \<lfloor>x\<rfloor> else \<lceil>x\<rceil>)"

definition scale_sample :: "(real \<Rightarrow> real) \<Rightarrow> real \<Rightarrow> pcm_sample \<Rightarrow> pcm_sample" where
  "scale_sample rnd gain x =
     (let s = rnd (of_int (sint x) * gain);
          s1 = (if s > 32767 then 32767 else s);
          s2 = (if s1 < -32768 then -32768 else s1)
      in word_of_int (trunc s2))"

text \<open>With a gain that is not a number neither comparison holds, and the conversion to 16 bits is undefined; an
  infinite gain, which \<open>set_volume_db\<close> never stores, is left undefined too.\<close>

definition apply_gain :: "(real \<Rightarrow> real) \<Rightarrow> float_number \<Rightarrow> pcm_sample \<Rightarrow> pcm_sample option" where
  "apply_gain rnd gain x = (case gain of Finite g \<Rightarrow> Some (scale_sample rnd g x) | _ \<Rightarrow> None)"

definition unity :: "float_number \<Rightarrow> bool" where
  "unity gain = (case gain of Finite g \<Rightarrow> 9999 / 10000 \<le> g \<and> g \<le> 10001 / 10000 | _ \<Rightarrow> False)"

definition push_sound :: "(real \<Rightarrow> real) \<Rightarrow> pcm_sample list \<Rightarrow> sound \<Rightarrow> sound_call list \<times> sound" where
  "push_sound rnd samples s =
     (case so_device s of
        None \<Rightarrow> ([], s)
      | Some d \<Rightarrow>
          (if samples = [] then ([], s)
           else if unity (so_gain s) then ([Queue_audio d (map Some samples)], s)
           else ([Queue_audio d (map (apply_gain rnd (so_gain s)) samples)], s)))"

text \<open>\<open>pw\<close> is the power of ten as the library computes it.\<close>

definition volume_gain :: "(real \<Rightarrow> real) \<Rightarrow> (real \<Rightarrow> real) \<Rightarrow> float_number \<Rightarrow> float_number" where
  "volume_gain rnd pw db =
     (case db of
        Finite d \<Rightarrow> Finite (if d \<le> -100 then 0 else if 0 \<le> d then 1 else pw (rnd (d / 20)))
      | Infinite positive \<Rightarrow> Finite (if positive then 1 else 0)
      | Nan \<Rightarrow> Nan)"

definition set_volume_db :: "(real \<Rightarrow> real) \<Rightarrow> (real \<Rightarrow> real) \<Rightarrow> float_number \<Rightarrow> sound \<Rightarrow> sound" where
  "set_volume_db rnd pw db s = s\<lparr>so_gain := volume_gain rnd pw db\<rparr>"

text \<open>A volume that is not a number makes every sample undefined.\<close>

lemma nan_volume_undefined:
  assumes "so_device s = Some d" and "samples \<noteq> []"
  shows "push_sound rnd samples (set_volume_db rnd pw Nan s)
    = ([Queue_audio d (replicate (length samples) None)], set_volume_db rnd pw Nan s)"
proof -
  have "apply_gain rnd Nan = (\<lambda>x. None)" by (simp add: apply_gain_def fun_eq_iff)
  then show ?thesis using assms by (simp add: push_sound_def set_volume_db_def volume_gain_def unity_def map_replicate_const)
qed

section \<open>How much is waiting\<close>

definition queued_bytes :: "nat \<Rightarrow> sound \<Rightarrow> nat" where
  "queued_bytes queued s = (case so_device s of None \<Rightarrow> 0 | Some d \<Rightarrow> queued)"

definition pending_ns :: "nat \<Rightarrow> sound \<Rightarrow> int" where
  "pending_ns queued s =
     (if so_device s = None \<or> so_rate s \<le> 0 \<or> so_channels s \<le> 0 then 0
      else (int (queued_bytes queued s) div (so_channels s * 2) + so_buffer s) * 1000000000 div so_rate s)"

text \<open>The estimate is never earlier than the sound that is queued, and at most one nanosecond off.\<close>

lemma pending_exact:
  assumes "so_device s = Some d" and "0 < so_rate s" and "0 < so_channels s" and "0 \<le> so_buffer s"
    and "queued = n * nat (so_channels s * 2)"
  shows "pending_ns queued s * so_rate s \<le> (int n + so_buffer s) * 1000000000
    \<and> (int n + so_buffer s) * 1000000000 < (pending_ns queued s + 1) * so_rate s"
proof -
  have "int queued div (so_channels s * 2) = int n" using assms(3,5) by simp
  then have p: "pending_ns queued s = (int n + so_buffer s) * 1000000000 div so_rate s"
    using assms(1-3) by (simp add: pending_ns_def queued_bytes_def)
  define k where "k = (int n + so_buffer s) * 1000000000"
  have "k div so_rate s * so_rate s + k mod so_rate s = k" "0 \<le> k mod so_rate s" "k mod so_rate s < so_rate s"
    using assms(2) by simp_all
  then have "k div so_rate s * so_rate s \<le> k \<and> k < k div so_rate s * so_rate s + so_rate s" by linarith
  then show ?thesis unfolding p k_def [symmetric] by (simp only: distrib_right mult_1)
qed

section \<open>A scaled sample\<close>

definition close_rounding :: "(real \<Rightarrow> real) \<Rightarrow> bool" where
  "close_rounding rnd \<longleftrightarrow> (\<forall>x. \<bar>rnd x - x\<bar> \<le> \<bar>x\<bar> / 2 ^ 24)"

lemma trunc_toward_zero:
  shows "\<bar>y\<bar> \<le> of_int k \<Longrightarrow> \<bar>trunc y\<bar> \<le> k" and "0 \<le> y \<Longrightarrow> 0 \<le> trunc y" and "y \<le> 0 \<Longrightarrow> trunc y \<le> 0"
proof -
  show "0 \<le> y \<Longrightarrow> 0 \<le> trunc y" "y \<le> 0 \<Longrightarrow> trunc y \<le> 0" by (auto simp: trunc_def ceiling_le_iff)
  assume k: "\<bar>y\<bar> \<le> of_int k"
  show "\<bar>trunc y\<bar> \<le> k"
  proof (cases "0 \<le> y")
    case True
    then show ?thesis using k floor_mono [of y "of_int k"] by (simp add: trunc_def)
  next
    case False
    then have "- y \<le> of_int k" "\<lceil>y\<rceil> \<le> 0" using k by (auto simp: ceiling_le_iff)
    moreover have "- \<lceil>y\<rceil> = \<lfloor>- y\<rfloor>" by (simp add: floor_minus)
    ultimately show ?thesis using False floor_mono [of "- y" "of_int k"] by (simp add: trunc_def)
  qed
qed

text \<open>A quieter sample keeps its sign and does not grow; with no gain it is silent.\<close>

lemma scale_sample_quieter:
  assumes r: "close_rounding rnd" and g: "0 \<le> gain" and q: "gain < 9999 / 10000"
  shows "\<bar>sint (scale_sample rnd gain x)\<bar> \<le> \<bar>sint x\<bar> \<and> 0 \<le> sint (scale_sample rnd gain x) * sint x
    \<and> (gain = 0 \<longrightarrow> scale_sample rnd gain x = 0) \<and> sint (scale_sample rnd gain x) = trunc (rnd (of_int (sint x) * gain))"
proof -
  define n where "n = sint x"
  have n: "- 32768 \<le> n" "n \<le> 32767" using sint_ge [of x] sint_lt [of x] by (simp_all add: n_def)
  define p where "p = of_int n * gain"
  have rp: "\<bar>rnd p - p\<bar> \<le> \<bar>p\<bar> / 2 ^ 24" using r by (simp add: close_rounding_def)
  have ap: "\<bar>p\<bar> \<le> \<bar>of_int n\<bar> * (9999 / 10000)"
    using mult_left_mono [of gain "9999 / 10000" "\<bar>of_int n\<bar>"] g q by (simp add: p_def abs_mult)
  moreover have "\<bar>rnd p\<bar> \<le> \<bar>rnd p - p\<bar> + \<bar>p\<bar>" by arith
  moreover have "c \<le> b" if "a \<le> b * (9999 / 10000)" "c \<le> d + a" "d * 16777216 \<le> a" "0 \<le> b" for a b c d :: real
    using that by linarith
  ultimately have s: "\<bar>rnd p\<bar> \<le> of_int \<bar>n\<bar>" using rp [simplified] by (simp only: of_int_abs)
  have "rnd p - p \<le> \<bar>p\<bar> / 2 ^ 24" "p - rnd p \<le> \<bar>p\<bar> / 2 ^ 24" using rp by (simp_all only: abs_le_iff minus_diff_eq)
  then have sgn: "0 \<le> p \<Longrightarrow> 0 \<le> rnd p" "p \<le> 0 \<Longrightarrow> rnd p \<le> 0" by simp_all
  have pn: "0 \<le> n \<Longrightarrow> 0 \<le> p" "n \<le> 0 \<Longrightarrow> p \<le> 0" using g by (simp_all add: p_def mult_nonpos_nonneg)
  define t where "t = trunc (rnd p)"
  have t: "\<bar>t\<bar> \<le> \<bar>n\<bar>" using trunc_toward_zero(1) [OF s] by (simp add: t_def)
  have tn: "0 \<le> n \<Longrightarrow> 0 \<le> t" "n \<le> 0 \<Longrightarrow> t \<le> 0" using trunc_toward_zero(2,3) sgn pn by (auto simp: t_def)
  have "rnd p \<le> 32767" "- 32768 \<le> rnd p"
  proof -
    show "rnd p \<le> 32767" using s sgn(2) pn(2) n by (cases "0 \<le> n") auto
    show "- 32768 \<le> rnd p" using s sgn(1) pn(1) n by (cases "0 \<le> n") auto
  qed
  then have w: "scale_sample rnd gain x = word_of_int t" by (simp add: scale_sample_def n_def p_def t_def Let_def)
  have "- 32768 \<le> t \<and> t \<le> 32767" using t tn n by (cases "0 \<le> n") auto
  then have st: "sint (word_of_int t :: pcm_sample) = t" by (simp add: sint_sbintrunc' signed_take_bit_int_eq_self)
  have "0 \<le> t * n" using tn by (cases "0 \<le> n") (simp_all add: mult_nonpos_nonpos)
  moreover have "t = 0" if "gain = 0"
  proof -
    have "rnd p = 0" using rp that by (simp add: p_def)
    then show ?thesis by (simp add: t_def trunc_def)
  qed
  moreover have "scale_sample rnd gain x = 0" if "t = 0" using w that by simp
  moreover have "sint (scale_sample rnd gain x) = t" using w st by simp
  ultimately show ?thesis using t by (auto simp: n_def t_def p_def)
qed

section \<open>The gain\<close>

text \<open>The power of ten to within an error of \<open>2^-22\<close>, a few units of single precision.\<close>

definition close_power :: "(real \<Rightarrow> real) \<Rightarrow> bool" where
  "close_power pw \<longleftrightarrow> (\<forall>e. \<bar>pw e - 10 powr e\<bar> \<le> 10 powr e / 2 ^ 22)"

lemma ln_10_le: "ln 10 \<le> (4 :: real)"
proof -
  have "(2 :: real) \<le> exp 1" using exp_ge_add_one_self [of 1] by simp
  then have "(2 :: real) ^ 4 \<le> exp 1 ^ 4" by (rule power_mono) simp
  moreover have "exp 1 ^ 4 = exp (4 :: real)" by (simp flip: exp_of_nat_mult)
  ultimately have "(10 :: real) \<le> exp 4" by simp
  then show ?thesis by (metis ln_exp ln_le_cancel_iff exp_gt_zero zero_less_numeral)
qed

lemma near_power:
  assumes "\<bar>x - y\<bar> \<le> 1 / 2 ^ 21"
  shows "\<bar>10 powr x - 10 powr y\<bar> \<le> 10 powr y / (2 ^ 18 :: real)"
proof -
  define t where "t = (x - y) * ln 10"
  have "\<bar>t\<bar> = \<bar>x - y\<bar> * ln 10" by (simp add: t_def abs_mult)
  also have "\<dots> \<le> (1 / 2 ^ 21) * 4" using assms ln_10_le by (intro mult_mono) auto
  finally have t: "\<bar>t\<bar> \<le> 1 / 2 ^ 19" by simp
  then have "exp t \<le> 1 + 2 * (1 / 2 ^ 19)" using exp_bound_lemma [of t] by simp
  moreover have "1 - 1 / 2 ^ 19 \<le> exp t"
    using t by (intro order_trans [OF _ exp_ge_add_one_self]) (simp add: abs_le_iff)
  ultimately have "\<bar>exp t - 1\<bar> \<le> 1 / 2 ^ 18" unfolding abs_le_iff by simp
  then have "\<bar>exp t - 1\<bar> * 10 powr y \<le> 1 / 2 ^ 18 * 10 powr y" by (intro mult_right_mono) auto
  moreover have "10 powr x = exp t * 10 powr y"
    by (simp add: t_def powr_def flip: exp_add) (simp add: algebra_simps)
  then have "10 powr x - 10 powr y = (exp t - 1) * 10 powr y" by (simp add: left_diff_distrib)
  then have "\<bar>10 powr x - 10 powr y\<bar> = \<bar>exp t - 1\<bar> * 10 powr y" by (simp add: abs_mult)
  ultimately show ?thesis by simp
qed

lemma gain_close:
  assumes r: "close_rounding rnd" and p: "close_power pw" and v: "-100 < v" "v < 0"
  shows "\<bar>pw (rnd (v / 20)) - 10 powr (v / 20)\<bar> \<le> 10 powr (v / 20) / 2 ^ 17" and "0 \<le> pw (rnd (v / 20))"
proof -
  define e where "e = v / 20"
  define g where "g = 10 powr (rnd e)"
  define h where "h = 10 powr e"
  have "\<bar>rnd e - e\<bar> \<le> \<bar>e\<bar> / 2 ^ 24" using r by (simp add: close_rounding_def)
  moreover have "\<bar>e\<bar> \<le> 5" using v by (simp add: e_def)
  ultimately have "\<bar>rnd e - e\<bar> \<le> 1 / 2 ^ 21" by simp
  from near_power [OF this] have a: "\<bar>g - h\<bar> \<le> h / 2 ^ 18" by (simp only: g_def h_def)
  have b: "\<bar>pw (rnd e) - g\<bar> \<le> g / 2 ^ 22" using p by (simp add: close_power_def g_def)
  have pos: "0 < h" "0 < g" by (simp_all add: h_def g_def)
  have "g \<le> 2 * h" using a pos unfolding abs_le_iff by simp
  then have c: "\<bar>pw (rnd e) - h\<bar> \<le> h / 2 ^ 17" using a b pos unfolding abs_le_iff by simp
  then show "\<bar>pw (rnd (v / 20)) - 10 powr (v / 20)\<bar> \<le> 10 powr (v / 20) / 2 ^ 17" by (simp only: e_def h_def)
  have "0 \<le> pw (rnd e)" using b pos unfolding abs_le_iff by simp
  then show "0 \<le> pw (rnd (v / 20))" by (simp only: e_def)
qed

lemma trunc_near: "\<bar>of_int (trunc y) - y\<bar> < 1"
  unfolding trunc_def abs_less_iff by (auto; linarith)

definition near_product :: "int \<Rightarrow> real \<Rightarrow> int \<Rightarrow> bool" where
  "near_product n gain y \<longleftrightarrow> \<bar>of_int y - of_int n * gain\<bar> < 1 + \<bar>of_int n\<bar> / 8000"

text \<open>The error of a product: that of the gain, of the rounding and of the cut to a whole number; a gain so
  near to one that the samples are passed unchanged costs them less than that too.\<close>

lemma scaled_near_product:
  assumes r: "close_rounding rnd" and h: "0 < h" "h \<le> 1" and g: "\<bar>g - h\<bar> \<le> h / 2 ^ 17"
  shows "near_product n h (trunc (rnd (of_int n * g)))"
proof -
  define m where "m = \<bar>real_of_int n\<bar>"
  define p where "p = of_int n * g"
  have "\<bar>g - h\<bar> \<le> 1 / 2 ^ 17" using g h by simp
  then have "\<bar>of_int n * (g - h)\<bar> \<le> m * (1 / 2 ^ 17)" by (simp only: abs_mult m_def) (intro mult_left_mono; simp)
  then have 1: "\<bar>p - of_int n * h\<bar> \<le> m / 2 ^ 17" by (simp add: p_def right_diff_distrib)
  have "\<bar>g\<bar> \<le> 2" using \<open>\<bar>g - h\<bar> \<le> 1 / 2 ^ 17\<close> h unfolding abs_le_iff by simp
  then have "\<bar>p\<bar> \<le> m * 2" by (simp only: abs_mult p_def m_def) (intro mult_left_mono; simp)
  moreover have "\<bar>rnd p - p\<bar> \<le> \<bar>p\<bar> / 2 ^ 24" using r by (simp add: close_rounding_def)
  ultimately have 2: "\<bar>rnd p - p\<bar> \<le> m / 2 ^ 23" by simp
  have m0: "0 \<le> m" by (simp add: m_def)
  have "\<bar>of_int (trunc (rnd p)) - of_int n * h\<bar> < 1 + m / 8000"
    using trunc_near [of "rnd p"] 1 2 m0 unfolding abs_le_iff abs_less_iff by simp
  then show ?thesis by (simp only: near_product_def p_def m_def)
qed

lemma unchanged_near_product:
  assumes h: "0 < h" "h \<le> 1" and g: "\<bar>g - h\<bar> \<le> h / 2 ^ 17" and u: "9999 / 10000 \<le> g"
  shows "near_product n h n"
proof -
  define m where "m = \<bar>real_of_int n\<bar>"
  have "\<bar>1 - h\<bar> \<le> 1 / 8000" using g h u unfolding abs_le_iff by simp
  then have "\<bar>of_int n * (1 - h)\<bar> \<le> m * (1 / 8000)" by (simp only: abs_mult m_def) (intro mult_left_mono; simp)
  then have "\<bar>of_int n - of_int n * h\<bar> \<le> m / 8000" by (simp add: right_diff_distrib)
  then show ?thesis by (simp add: near_product_def m_def)
qed

section \<open>What is asked of SDL\<close>

datatype sound_event = Start_sound open_answer | Stop_sound | Push_sound "pcm_sample list" | Set_volume float_number | Clear_sound

fun sound_step :: "(real \<Rightarrow> real) \<Rightarrow> (real \<Rightarrow> real) \<Rightarrow> sound_event \<Rightarrow> sound \<Rightarrow> sound_call list \<times> sound" where
  "sound_step rnd pw (Start_sound a) s = snd (start_sound a s)"
| "sound_step rnd pw Stop_sound s = stop_sound s"
| "sound_step rnd pw (Push_sound samples) s = push_sound rnd samples s"
| "sound_step rnd pw (Set_volume db) s = ([], set_volume_db rnd pw db s)"
| "sound_step rnd pw Clear_sound s = clear_sound s"

fun run_sound :: "(real \<Rightarrow> real) \<Rightarrow> (real \<Rightarrow> real) \<Rightarrow> sound_event list \<Rightarrow> sound \<Rightarrow> sound_call list \<times> sound" where
  "run_sound rnd pw [] s = ([], s)"
| "run_sound rnd pw (e # es) s = (let (cs, s1) = sound_step rnd pw e s; (ds, s2) = run_sound rnd pw es s1 in (cs @ ds, s2))"

text \<open>Only an open device is used, and the destructor closes the device that is open.\<close>

definition device_step :: "sound_call \<Rightarrow> nat set \<Rightarrow> nat set option" where
  "device_step c ds =
     (case c of
        Open_device d \<Rightarrow> Some (insert d ds)
      | Pause_device d _ \<Rightarrow> if d \<in> ds then Some ds else None
      | Queue_audio d _ \<Rightarrow> if d \<in> ds then Some ds else None
      | Clear_queue d \<Rightarrow> if d \<in> ds then Some ds else None
      | Close_device d \<Rightarrow> if d \<in> ds then Some (ds - {d}) else None
      | Quit_audio \<Rightarrow> Some ds)"

fun device_run :: "sound_call list \<Rightarrow> nat set \<Rightarrow> nat set option" where
  "device_run [] ds = Some ds"
| "device_run (c # cs) ds = (case device_step c ds of None \<Rightarrow> None | Some ds1 \<Rightarrow> device_run cs ds1)"

lemma device_run_append: "device_run (as @ bs) ds = (case device_run as ds of None \<Rightarrow> None | Some ds1 \<Rightarrow> device_run bs ds1)"
  by (induction as arbitrary: ds) (auto split: option.split)

definition device_set :: "sound \<Rightarrow> nat set" where
  "device_set s = (case so_device s of None \<Rightarrow> {} | Some d \<Rightarrow> {d})"

text \<open>A start is only asked for when no device is open, as the receiver does.\<close>

fun alternates :: "bool \<Rightarrow> sound_event list \<Rightarrow> bool" where
  "alternates started [] = True"
| "alternates started (e # es) =
     (case e of Start_sound a \<Rightarrow> \<not> started \<and> alternates True es | Stop_sound \<Rightarrow> alternates False es | _ \<Rightarrow> alternates started es)"

lemma step_devices:
  assumes "sound_step rnd pw e s = (cs, t)" and "(\<exists>a. e = Start_sound a) \<longrightarrow> so_device s = None"
  shows "device_run cs (device_set s) = Some (device_set t)"
  using assms
  by (cases e) (auto simp: start_sound_def stop_sound_def push_sound_def clear_sound_def set_volume_db_def device_set_def device_step_def
      split: if_splits option.splits)

lemma step_started:
  assumes "sound_step rnd pw e s = (cs, t)" and "\<not> started \<longrightarrow> so_device s = None"
  shows "\<not> (case e of Start_sound a \<Rightarrow> True | Stop_sound \<Rightarrow> False | _ \<Rightarrow> started) \<longrightarrow> so_device t = None"
  using assms
  by (cases e) (auto simp: stop_sound_def push_sound_def clear_sound_def set_volume_db_def split: if_splits option.splits)

lemma run_devices:
  "alternates started es \<Longrightarrow> \<not> started \<longrightarrow> so_device s = None \<Longrightarrow>
   device_run (fst (run_sound rnd pw es s)) (device_set s) = Some (device_set (snd (run_sound rnd pw es s)))"
proof (induction es arbitrary: started s)
  case (Cons e es)
  obtain cs t where t: "sound_step rnd pw e s = (cs, t)" by fastforce
  define started1 where "started1 = (case e of Start_sound a \<Rightarrow> True | Stop_sound \<Rightarrow> False | _ \<Rightarrow> started)"
  have a: "alternates started1 es" "(\<exists>a. e = Start_sound a) \<longrightarrow> so_device s = None"
    using Cons.prems by (auto simp: started1_def split: sound_event.splits)
  have "\<not> started1 \<longrightarrow> so_device t = None" using step_started [OF t Cons.prems(2)] by (simp add: started1_def)
  note ih = Cons.IH [OF a(1) this]
  show ?case using ih step_devices [OF t a(2)] by (simp add: t split_def Let_def device_run_append)
qed simp

section \<open>Properties\<close>

text \<open>C30: The volume is applied to what is played: for every volume that is a number or an infinity, and every
  block of samples, exactly one block of the same length is queued on the open device. Between -100 dB and
  0 dB each sample of it is the original times \<open>10 powr (dB / 20)\<close>, to within one step and an 8000th of the
  sample; none is louder than its original or of the other sign; from 0 dB on it is the block itself, and at
  -100 dB and below silence. The library's power is taken to be right to within \<open>2^-22\<close>, products and
  quotients to within single precision. A volume that is not a number makes the samples undefined.\<close>

theorem volume_applied:
  assumes "close_rounding rnd" and "close_power pw" and "so_device s = Some d" and "samples \<noteq> []" and "db \<noteq> Nan"
  shows "\<exists>out. push_sound rnd samples (set_volume_db rnd pw db s) = ([Queue_audio d (map Some out)], set_volume_db rnd pw db s)
    \<and> length out = length samples
    \<and> (\<forall>i < length samples. \<bar>sint (out ! i)\<bar> \<le> \<bar>sint (samples ! i)\<bar> \<and> 0 \<le> sint (out ! i) * sint (samples ! i))
    \<and> (\<forall>v i. db = Finite v \<longrightarrow> -100 < v \<longrightarrow> v < 0 \<longrightarrow> i < length samples \<longrightarrow>
        \<bar>of_int (sint (out ! i)) - of_int (sint (samples ! i)) * 10 powr (v / 20)\<bar> < 1 + \<bar>of_int (sint (samples ! i))\<bar> / (8000 :: real))
    \<and> (\<forall>v. db = Finite v \<longrightarrow> 0 \<le> v \<longrightarrow> out = samples) \<and> (db = Infinite True \<longrightarrow> out = samples)
    \<and> (\<forall>v. db = Finite v \<longrightarrow> v \<le> -100 \<longrightarrow> out = replicate (length samples) 0)
    \<and> (db = Infinite False \<longrightarrow> out = replicate (length samples) 0)"
proof -
  obtain g where g: "volume_gain rnd pw db = Finite g" using assms(5) by (cases db) (simp_all add: volume_gain_def)
  have g0: "0 \<le> g" using g gain_close(2) [OF assms(1,2)] by (cases db) (auto simp: volume_gain_def not_le split: if_splits)
  have near: "0 < (10 :: real) powr (v / 20) \<and> 10 powr (v / 20) \<le> (1 :: real) \<and> \<bar>g - 10 powr (v / 20)\<bar> \<le> 10 powr (v / 20) / 2 ^ 17"
    if "db = Finite v" "-100 < v" "v < 0" for v
  proof -
    have "10 powr (v / 20) \<le> (10 :: real) powr 0" using that by (intro powr_mono) auto
    then show ?thesis using gain_close(1) [OF assms(1,2) that(2,3)] g that by (simp add: volume_gain_def)
  qed
  have top: "g \<le> 10001 / 10000"
  proof (cases "\<exists>v. db = Finite v \<and> -100 < v \<and> v < 0")
    case True
    then show ?thesis using near unfolding abs_le_iff by fastforce
  next
    case False
    then have "g = 0 \<or> g = 1" using g assms(5) by (cases db) (auto simp: volume_gain_def split: if_splits)
    then show ?thesis by auto
  qed
  show ?thesis
  proof (cases "9999 / 10000 \<le> g")
    case True
    then have "push_sound rnd samples (set_volume_db rnd pw db s) = ([Queue_audio d (map Some samples)], set_volume_db rnd pw db s)"
      using assms(3,4) top g by (simp add: push_sound_def set_volume_db_def unity_def)
    moreover have "\<not> v \<le> -100" if "db = Finite v" for v using g True that by (auto simp: volume_gain_def)
    moreover have "db \<noteq> Infinite False" using g True by (auto simp: volume_gain_def)
    moreover have "near_product n (10 powr (v / 20)) n" if "db = Finite v" "-100 < v" "v < 0" for n v
      using unchanged_near_product near [OF that] True by blast
    ultimately show ?thesis unfolding near_product_def [symmetric] by (intro exI [of _ samples]) auto
  next
    case False
    define out where "out = map (scale_sample rnd g) samples"
    have q: "g < 9999 / 10000" using False by simp
    note quiet = scale_sample_quieter [OF assms(1) g0 q]
    have "push_sound rnd samples (set_volume_db rnd pw db s) = ([Queue_audio d (map Some out)], set_volume_db rnd pw db s)"
      using assms(3,4) False g by (simp add: push_sound_def set_volume_db_def unity_def out_def apply_gain_def)
    moreover have "\<not> 0 \<le> v" if "db = Finite v" for v using g False that by (auto simp: volume_gain_def split: if_splits)
    moreover have "db \<noteq> Infinite True" using g False by (auto simp: volume_gain_def)
    moreover have "near_product (sint (samples ! i)) (10 powr (v / 20)) (sint (out ! i))"
      if "db = Finite v" "-100 < v" "v < 0" "i < length samples" for v i
    proof -
      have e: "sint (out ! i) = trunc (rnd (of_int (sint (samples ! i)) * g))"
        using quiet [of "samples ! i"] that(4) by (simp only: out_def nth_map)
      show ?thesis unfolding e using near [OF that(1-3)] by (intro scaled_near_product [OF assms(1)]) auto
    qed
    moreover have "out = replicate (length samples) 0" if "g = 0"
      using quiet that by (simp add: out_def map_replicate_const [symmetric])
    moreover have "g = 0" if "db = Finite v" "v \<le> -100" for v using g that by (simp add: volume_gain_def)
    moreover have "g = 0" if "db = Infinite False" using g that by (simp add: volume_gain_def)
    moreover have "\<bar>sint (out ! i)\<bar> \<le> \<bar>sint (samples ! i)\<bar> \<and> 0 \<le> sint (out ! i) * sint (samples ! i)" if "i < length samples" for i
      unfolding out_def nth_map [OF that] using quiet [of "samples ! i"] by blast
    moreover have "length out = length samples" by (simp add: out_def)
    ultimately show ?thesis unfolding near_product_def [symmetric] by (intro exI [of _ out]) auto
  qed
qed

section \<open>Witnesses\<close>

theorem volume_applied_witness:
  "\<exists>out. push_sound (\<lambda>x. x) [1000, -1000] (set_volume_db (\<lambda>x. x) (\<lambda>e. 10 powr e) (Finite (-20)) (new_sound\<lparr>so_device := Some 2\<rparr>))
      = ([Queue_audio 2 (map Some out)], set_volume_db (\<lambda>x. x) (\<lambda>e. 10 powr e) (Finite (-20)) (new_sound\<lparr>so_device := Some 2\<rparr>))
    \<and> \<bar>of_int (sint (out ! 0)) - (100 :: real)\<bar> < 1 + 1000 / 8000"
proof -
  have r: "close_rounding (\<lambda>x. x)" "close_power (\<lambda>e. 10 powr e)" by (simp_all add: close_rounding_def close_power_def)
  have d: "so_device (new_sound\<lparr>so_device := Some 2\<rparr>) = Some 2" by simp
  have n: "sint (1000 :: pcm_sample) = 1000" by simp
  have p: "10 powr (-20 / 20 :: real) = 1 / 10" by (simp add: powr_minus_divide)
  obtain out where out: "push_sound (\<lambda>x. x) [1000, -1000] (set_volume_db (\<lambda>x. x) (\<lambda>e. 10 powr e) (Finite (-20)) (new_sound\<lparr>so_device := Some 2\<rparr>))
      = ([Queue_audio 2 (map Some out)], set_volume_db (\<lambda>x. x) (\<lambda>e. 10 powr e) (Finite (-20)) (new_sound\<lparr>so_device := Some 2\<rparr>))"
      "\<And>v i. Finite (-20) = Finite v \<longrightarrow> -100 < v \<longrightarrow> v < 0 \<longrightarrow> i < length [1000, -1000 :: pcm_sample] \<longrightarrow>
        \<bar>of_int (sint (out ! i)) - of_int (sint ([1000, -1000] ! i :: pcm_sample)) * 10 powr (v / 20)\<bar>
          < 1 + \<bar>of_int (sint ([1000, -1000] ! i :: pcm_sample))\<bar> / (8000 :: real)"
    using volume_applied [OF r d, of "[1000, -1000]" "Finite (-20)"] by blast
  have "\<bar>of_int (sint (out ! 0)) - of_int (sint (1000 :: pcm_sample)) * 10 powr (-20 / 20)\<bar>
      < 1 + \<bar>of_int (sint (1000 :: pcm_sample))\<bar> / (8000 :: real)"
    using out(2) [of "-20" 0] by simp
  then show ?thesis unfolding n p by (intro exI [of _ out] conjI out(1)) simp
qed

end
