(* ===== verification/NtpPeer.thy ===== *)
theory NtpPeer
  imports NtpClock
begin

text \<open>
  The thread of the NTP client (src/airplay/ntp_client.cpp): its start and stop, the choice of the peer's address
  that fits the socket, and the rounds of the loop with the sleep between them. What the resolver returns is an
  argument; one probe is \<open>poll\<close> of the theory NtpClock.
\<close>

section \<open>The address of the peer\<close>

datatype family = Af_inet | Af_inet6 | Af_other nat

record address =
  ad_family :: family
  ad_length :: nat
  ad_port :: u16
  ad_bytes :: bytes

text \<open>An IPv4 address as an IPv6 socket names it.\<close>

definition mapped_address :: "address \<Rightarrow> address" where
  "mapped_address a = \<lparr>ad_family = Af_inet6, ad_length = 28, ad_port = ad_port a, ad_bytes = replicate 10 0 @ [0xff, 0xff] @ ad_bytes a\<rparr>"

text \<open>The first entry that fits; the family of the socket is unknown when it cannot be asked.\<close>

fun choose_peer :: "family option \<Rightarrow> address list \<Rightarrow> address option" where
  "choose_peer sock [] = None"
| "choose_peer sock (a # as) =
     (if (sock = Some (ad_family a) \<or> sock = None) \<and> ad_length a \<le> 128 then Some a
      else if sock = Some Af_inet6 \<and> ad_family a = Af_inet then Some (mapped_address a)
      else choose_peer sock as)"

definition resolve_peer :: "family option \<Rightarrow> address list option \<Rightarrow> address option" where
  "resolve_peer sock resolved = (case resolved of None \<Rightarrow> None | Some as \<Rightarrow> choose_peer sock as)"

definition fits :: "family \<Rightarrow> address \<Rightarrow> bool" where
  "fits sock a \<longleftrightarrow> sock = ad_family a \<and> ad_length a \<le> 128 \<or> sock = Af_inet6 \<and> ad_family a = Af_inet"

lemma chosen_peer_fits:
  "choose_peer (Some sock) as = Some p \<Longrightarrow>
   ad_family p = sock \<and> (\<exists>a \<in> set as. p = a \<or> sock = Af_inet6 \<and> ad_family a = Af_inet \<and> p = mapped_address a)"
  by (induction as) (auto simp: mapped_address_def split: if_splits)

lemma peer_chosen_iff: "choose_peer (Some sock) as = None \<longleftrightarrow> list_all (\<lambda>a. \<not> fits sock a) as"
  by (induction as) (auto simp: fits_def)

text \<open>A socket for both families reaches every peer that is named by an address.\<close>

lemma dual_stack_reaches: "ad_family a = Af_inet \<or> ad_family a = Af_inet6 \<and> ad_length a \<le> 128 \<Longrightarrow> choose_peer (Some Af_inet6) [a] \<noteq> None"
  by auto

lemma mapped_inj: "mapped_address a = mapped_address b \<Longrightarrow> ad_port a = ad_port b \<and> ad_bytes a = ad_bytes b"
  by (simp add: mapped_address_def)

section \<open>The thread\<close>

record ntp_thread =
  nt_socket :: "nat option"
  nt_running :: bool
  nt_joinable :: bool
  nt_peer :: "address option"
  nt_client :: ntp_client

definition new_thread :: ntp_thread where
  "new_thread = \<lparr>nt_socket = None, nt_running = False, nt_joinable = False, nt_peer = None, nt_client = new_client\<rparr>"

definition start_ntp :: "nat option \<Rightarrow> ntp_thread \<Rightarrow> bool \<times> ntp_thread" where
  "start_ntp sock s =
     (case sock of
        None \<Rightarrow> (False, s)
      | Some fd \<Rightarrow> (True, s\<lparr>nt_socket := Some fd, nt_running := True, nt_joinable := True, nt_peer := None, nt_client := new_client\<rparr>))"

text \<open>The thread begins by looking for the peer, and ends at once when there is none.\<close>

definition begin_thread :: "family option \<Rightarrow> address list option \<Rightarrow> ntp_thread \<Rightarrow> ntp_thread" where
  "begin_thread sock resolved s =
     (case resolve_peer sock resolved of None \<Rightarrow> s\<lparr>nt_running := False\<rparr> | Some a \<Rightarrow> s\<lparr>nt_peer := Some a\<rparr>)"

definition poll_round :: "probe \<Rightarrow> ntp_thread \<Rightarrow> ntp_thread" where
  "poll_round p s = (if nt_running s \<and> nt_peer s \<noteq> None then s\<lparr>nt_client := poll p (nt_client s)\<rparr> else s)"

text \<open>The sockets that are shut down, to wake the thread out of its wait, and the join.\<close>

definition stop_ntp :: "ntp_thread \<Rightarrow> nat list \<times> ntp_thread" where
  "stop_ntp s =
     ((if nt_running s then (case nt_socket s of None \<Rightarrow> [] | Some fd \<Rightarrow> [fd]) else []), s\<lparr>nt_running := False, nt_joinable := False\<rparr>)"

text \<open>The sleep between two rounds in steps of 100 ms, given what the thread reads of the flag before each.\<close>

fun naps :: "nat \<Rightarrow> (nat \<Rightarrow> bool) \<Rightarrow> nat" where
  "naps 0 running = 0"
| "naps (Suc k) running = (if running 0 then Suc (naps k (\<lambda>i. running (Suc i))) else 0)"

definition sleep_ms :: "(nat \<Rightarrow> bool) \<Rightarrow> nat" where
  "sleep_ms running = 100 * naps 30 running"

lemma naps_le: "naps k running \<le> k"
  by (induction k arbitrary: running) auto

lemma naps_stopped: "\<not> running i \<Longrightarrow> naps k running \<le> i"
proof (induction k arbitrary: running i)
  case (Suc k)
  then show ?case by (cases i) auto
qed simp

text \<open>A round sleeps three seconds, and a stop is seen within one step.\<close>

lemma sleep_ends: "sleep_ms running \<le> 3000" "\<not> running i \<Longrightarrow> sleep_ms running \<le> 100 * i"
  using naps_le [of 30 running] naps_stopped [of running i 30] by (simp_all add: sleep_ms_def)

datatype ntp_event = Begun "family option" "address list option" | Round probe | Stopped

fun ntp_step :: "ntp_event \<Rightarrow> ntp_thread \<Rightarrow> ntp_thread" where
  "ntp_step (Begun sock resolved) s = begin_thread sock resolved s"
| "ntp_step (Round p) s = poll_round p s"
| "ntp_step Stopped s = snd (stop_ntp s)"

text \<open>However the thread ended, a stop joins it, so the client can be destroyed; a second stop does nothing.\<close>

lemma stop_joins: "\<not> nt_joinable (snd (stop_ntp s)) \<and> stop_ntp (snd (stop_ntp s)) = ([], snd (stop_ntp s))"
  by (simp add: stop_ntp_def)

text \<open>A thread sends only to a peer that its socket can reach.\<close>

lemma round_needs_peer: "poll_round p s \<noteq> s \<Longrightarrow> nt_running s \<and> nt_peer s \<noteq> None"
  by (auto simp: poll_round_def split: if_splits)

lemma peer_reachable:
  assumes "list_all (\<lambda>e. \<forall>k as. e = Begun k as \<longrightarrow> k = Some sock) es" and "nt_peer s = None"
  shows "case nt_peer (fold ntp_step es s) of None \<Rightarrow> True | Some a \<Rightarrow> ad_family a = sock"
proof -
  have "case nt_peer (fold ntp_step es s) of None \<Rightarrow> True | Some a \<Rightarrow> ad_family a = sock"
    if "case nt_peer s of None \<Rightarrow> True | Some a \<Rightarrow> ad_family a = sock" for s :: ntp_thread
    using assms(1) that
  proof (induction es arbitrary: s)
    case (Cons e es)
    have "case nt_peer (ntp_step e s) of None \<Rightarrow> True | Some a \<Rightarrow> ad_family a = sock"
    proof (cases e)
      case (Begun k as)
      then show ?thesis using Cons.prems chosen_peer_fits
        by (auto simp: begin_thread_def resolve_peer_def split: option.splits)
    qed (use Cons.prems in \<open>auto simp: poll_round_def stop_ntp_def\<close>)
    then show ?case using Cons by simp
  qed simp
  then show ?thesis using assms(2) by simp
qed

end
