(* ===== verification/Avahi.thy ===== *)
theory Avahi
  imports Mdns
begin

text \<open>
  The advertisement on Linux (src/mdns/mdns_service.cpp, the part that uses Avahi): the entries of the two
  services, their registration when the client runs, and the life of the poll thread. What Avahi answers is an
  argument and what is asked of it is a list of calls.
\<close>

definition avahi_airplay_entries :: "device_context \<Rightarrow> (string \<times> string) list" where
  "avahi_airplay_entries ctx =
    [(''deviceid'', dc_deviceid ctx), (''features'', dc_features ctx), (''flags'', ''0x4''), (''model'', dc_model ctx),
     (''pi'', dc_pi ctx), (''pk'', pk_hex (dc_public_key ctx)), (''pw'', ''false''), (''srcvers'', dc_srcvers ctx), (''vv'', ''2'')]"

definition avahi_raop_entries :: "device_context \<Rightarrow> (string \<times> string) list" where
  "avahi_raop_entries ctx =
    [(''txtvers'', ''1''), (''ch'', ''2''), (''cn'', ''0,1,2,3''), (''da'', ''true''), (''et'', ''0,3,5''),
     (''ft'', dc_features ctx), (''md'', ''0,1,2''), (''am'', dc_model ctx), (''rhd'', ''5.6.0.0''),
     (''pk'', pk_hex (dc_public_key ctx)), (''pw'', ''false''), (''sf'', ''0x4''), (''sr'', ''44100''), (''ss'', ''16''),
     (''sv'', ''false''), (''tp'', ''UDP''), (''vn'', ''65537''), (''vs'', dc_srcvers ctx), (''vv'', ''2'')]"

definition avahi_raop_name :: "device_context \<Rightarrow> string" where
  "avahi_raop_name ctx = filter (\<lambda>c. c \<noteq> CHR '':'') (dc_deviceid ctx) @ ''@'' @ dc_name ctx"

datatype avahi_call =
    Group_reset
  | Group_new
  | Add_service string string u16 "(string \<times> string) list"
  | Commit
  | Poll_new
  | Poll_free
  | Client_new
  | Client_free
  | Poll_quit

record avahi =
  av_poll :: bool
  av_client :: bool
  av_group :: bool
  av_running :: bool
  av_ctx :: device_context
  av_port :: u16

record avahi_answers =
  aa_group :: bool
  aa_airplay :: bool
  aa_raop :: bool
  aa_commit :: bool

definition register_services :: "avahi_answers \<Rightarrow> avahi \<Rightarrow> bool \<times> avahi_call list \<times> avahi" where
  "register_services a s =
     (if \<not> av_client s then (False, [], s)
      else let had = av_group s;
               calls = (if had then [Group_reset] else if aa_group a then [Group_new] else []);
               s1 = s\<lparr>av_group := had \<or> aa_group a\<rparr>
           in if \<not> av_group s1 then (False, calls, s1)
              else let airplay = Add_service (dc_name (av_ctx s)) ''_airplay._tcp'' (av_port s) (avahi_airplay_entries (av_ctx s));
                       raop = Add_service (avahi_raop_name (av_ctx s)) ''_raop._tcp'' (av_port s) (avahi_raop_entries (av_ctx s))
                   in if \<not> aa_airplay a then (False, calls, s1)
                      else (aa_commit a, calls @ [airplay] @ (if aa_raop a then [raop] else []) @ (if aa_commit a then [Commit] else []), s1))"

datatype client_state = Client_running | Client_failure | Client_other

definition client_cb :: "avahi_answers \<Rightarrow> client_state \<Rightarrow> avahi \<Rightarrow> avahi_call list \<times> avahi" where
  "client_cb a st s =
     (let s1 = s\<lparr>av_client := True\<rparr> in if st = Client_running then snd (register_services a s1) else ([], s1))"

text \<open>The client may call back while it is being made.\<close>

definition start_avahi ::
  "bool \<Rightarrow> bool \<Rightarrow> (avahi_answers \<times> client_state) list \<Rightarrow> device_context \<Rightarrow> u16 \<Rightarrow> avahi \<Rightarrow> bool \<times> avahi_call list \<times> avahi" where
  "start_avahi poll client callbacks ctx port s =
     (let s1 = s\<lparr>av_ctx := ctx, av_port := port, av_poll := poll\<rparr>
      in if \<not> poll then (False, [], s1)
         else let (calls, s2) = fold (\<lambda>(a, st) (cs, t). let (ds, t1) = client_cb a st t in (cs @ ds, t1)) callbacks ([], s1)
              in if \<not> client then (False, [Poll_new] @ calls @ [Poll_free], s2\<lparr>av_client := False, av_poll := False\<rparr>)
                 else (True, [Poll_new, Client_new] @ calls, s2\<lparr>av_client := True, av_running := True\<rparr>))"

definition stop_avahi :: "avahi \<Rightarrow> avahi_call list \<times> avahi" where
  "stop_avahi s =
     (if \<not> av_running s then ([], s)
      else ((if av_poll s then [Poll_quit] else []) @ (if av_client s then [Client_free] else []) @ (if av_poll s then [Poll_free] else []),
            s\<lparr>av_running := False, av_client := False, av_poll := False, av_group := False\<rparr>))"

text \<open>Devices on the network see the same receiver whichever system it runs on.\<close>

lemma same_advertisement:
  "avahi_airplay_entries ctx = airplay_entries ctx" "avahi_raop_entries ctx = raop_entries ctx" "avahi_raop_name ctx = raop_label ctx"
  by (simp_all add: avahi_airplay_entries_def airplay_entries_def avahi_raop_entries_def raop_entries_def avahi_raop_name_def raop_label_def)

text \<open>A registration that succeeds has published the service for mirroring with its entries in a clean group, the
  commit last.\<close>

lemma registered_services:
  assumes "register_services a s = (True, calls, t)"
  shows "\<exists>group_call mid. calls = group_call # mid @ [Commit] \<and> group_call \<in> {Group_reset, Group_new}
    \<and> Add_service (dc_name (av_ctx s)) ''_airplay._tcp'' (av_port s) (airplay_entries (av_ctx s)) \<in> set mid
    \<and> (\<forall>c \<in> set mid. case c of Add_service _ _ p _ \<Rightarrow> p = av_port s | _ \<Rightarrow> False)"
  using assms by (auto simp: register_services_def same_advertisement Let_def split: if_splits)

text \<open>Stopping frees what a start has made, once.\<close>

lemma stop_frees:
  assumes "start_avahi True True callbacks ctx port s = (ok, calls, t)" and "stop_avahi t = (ends, v)"
  shows "ok \<and> ends = [Poll_quit, Client_free, Poll_free] \<and> stop_avahi v = ([], v)"
proof -
  have p: "av_poll (snd (fold (\<lambda>(a, st) (cs, t). let (ds, t1) = client_cb a st t in (cs @ ds, t1)) cbs (c0, t0))) = av_poll t0"
    for cbs c0 t0
    by (induction cbs arbitrary: c0 t0)
      (auto simp: client_cb_def register_services_def Let_def split_def)
  show ?thesis using assms p [of callbacks "[]" "s\<lparr>av_ctx := ctx, av_port := port, av_poll := True\<rparr>"]
    by (auto simp: start_avahi_def stop_avahi_def Let_def split_def)
qed

end
