(* ===== verification/DacpWire.thy ===== *)
theory DacpWire
  imports DacpRemote Sockets
begin

text \<open>
  A command to the sender on the wire (src/airplay/dacp_remote.cpp, \<open>send_request\<close>): the attempts to connect to
  the addresses of the sender, the one request, and the reading of the status line with its time limit. What the
  system answers is an argument; the sockets are those of the theory Sockets.
\<close>

datatype connect_result = Connected | In_progress bool | Refused

record attempt =
  at_socket :: bool
  at_nonblocking :: bool
  at_connect :: connect_result
  at_blocking :: bool

text \<open>A connection that is under way counts once the socket is writable without an error, within half a second.\<close>

definition connected :: "attempt \<Rightarrow> bool" where
  "connected a \<longleftrightarrow> at_nonblocking a \<and> (at_connect a = Connected \<or> at_connect a = In_progress True) \<and> at_blocking a"

fun connect_any :: "attempt list \<Rightarrow> kernel \<Rightarrow> sock option \<times> kernel" where
  "connect_any [] k = (None, k)"
| "connect_any (a # as) k =
     (if \<not> at_socket a then connect_any as k
      else let (h, k1) = open_socket k in if connected a then (Some h, k1) else connect_any as (close_socket (Some h) k1))"

text \<open>One wait and read: nothing on a timeout, an error or the end of the connection.\<close>

fun read_status :: "string \<Rightarrow> string list \<Rightarrow> string" where
  "read_status line [] = line"
| "read_status line (r # rs) =
     (if find_str crlf line \<noteq> None \<or> 256 \<le> length line \<or> r = [] then line else read_status (line @ r) rs)"

definition send_request ::
  "attempt list option \<Rightarrow> bool \<Rightarrow> string list \<Rightarrow> string \<Rightarrow> u16 \<Rightarrow> string \<Rightarrow> string \<Rightarrow> bool \<Rightarrow> kernel \<Rightarrow> bool \<times> string list \<times> kernel" where
  "send_request addresses sent replies ip port token path post k =
     (case addresses of
        None \<Rightarrow> (False, [], k)
      | Some as \<Rightarrow>
          (case connect_any as k of
             (None, k1) \<Rightarrow> (False, [], k1)
           | (Some h, k1) \<Rightarrow>
               (sent \<and> command_accepted (read_status [] replies), [command_request ip port token path post], close_socket (Some h) k1)))"

lemma open_close: "h = kn_next k \<Longrightarrow> kn_open (close_socket (Some h) (snd (open_socket k))) = kn_open k
    \<and> kn_bad (close_socket (Some h) (snd (open_socket k))) = kn_bad k"
  by (simp add: open_socket_def close_socket_def)

lemma connect_any_open:
  "connect_any as k = (s, k1) \<Longrightarrow> kn_bad k1 = kn_bad k \<and> kn_open k1 = (case s of None \<Rightarrow> kn_open k | Some h \<Rightarrow> h # kn_open k)"
proof (induction as arbitrary: k)
  case (Cons a as)
  have o: "open_socket k = (kn_next k, snd (open_socket k))" by (simp add: open_socket_def)
  show ?case
  proof (cases "at_socket a")
    case False
    then show ?thesis using Cons by simp
  next
    case True
    show ?thesis
    proof (cases "connected a")
      case t: True
      then show ?thesis using Cons.prems True o by (auto simp: open_socket_def)
    next
      case False
      define k2 where "k2 = close_socket (Some (kn_next k)) (snd (open_socket k))"
      have "connect_any as k2 = (s, k1)" using Cons.prems True False by (simp add: k2_def open_socket_def)
      from Cons.IH [OF this] show ?thesis using open_close [OF refl, of k] by (simp add: k2_def [symmetric] split: option.split)
    qed
  qed
qed auto

text \<open>Whatever the network does, a command leaves no socket open and closes none that is not its own.\<close>

lemma command_leaves_no_socket:
  assumes "send_request addresses sent replies ip port token path post k = (ok, written, k1)"
  shows "kn_open k1 = kn_open k \<and> kn_bad k1 = kn_bad k"
  using assms
  by (auto simp: send_request_def close_socket_def split: option.splits prod.splits if_splits dest!: connect_any_open)

text \<open>The request is written at most once, and never when no connection was made.\<close>

lemma command_written_once:
  assumes "send_request addresses sent replies ip port token path post k = (ok, written, k1)"
  shows "written = [] \<or> written = [command_request ip port token path post]" and "ok \<Longrightarrow> written \<noteq> []"
  using assms by (auto simp: send_request_def split: option.splits prod.splits)

text \<open>The status line never grows beyond what one read adds to the limit, and a command is accepted only with a
  whole line.\<close>

lemma status_bounded: "length line \<le> 511 \<Longrightarrow> list_all (\<lambda>r. length r \<le> 256) replies \<Longrightarrow> length (read_status line replies) \<le> 511"
  by (induction line replies rule: read_status.induct) auto

lemma accepted_whole_line: "command_accepted line \<Longrightarrow> find_str crlf line \<noteq> None"
  by (cases "find_str crlf line") (simp_all add: command_accepted_def)

lemma status_needs_line: "send_request addresses sent replies ip port token path post k = (True, written, k1) \<Longrightarrow>
    find_str crlf (read_status [] replies) \<noteq> None"
  using accepted_whole_line by (auto simp: send_request_def split: option.splits prod.splits)

text \<open>Reading goes on until the line is whole: an answer in pieces is put together.\<close>

lemma status_pieces:
  assumes "find_str crlf line = None" and "length line < 256" and "r \<noteq> []"
  shows "read_status line (r # rs) = read_status (line @ r) rs"
  using assms by simp

end
