(* ===== verification/RecorderPicture.thy ===== *)
theory RecorderPicture
  imports Stage Gpu
begin

text \<open>
  The pictures of a recording that the processor prepares (src/video/video_recorder.cpp): the planes that are
  copied from a player, the black frame, and the place of the picture in it with the addresses the scaler writes
  to. The scaler itself is FFmpeg's. A quotient or product of floating-point numbers takes its rounding as an argument.
\<close>

section \<open>Planes from a player\<close>

definition recorder_i420 :: "bytes \<Rightarrow> nat \<Rightarrow> bytes \<Rightarrow> nat \<Rightarrow> bytes \<Rightarrow> nat \<Rightarrow> int \<Rightarrow> int \<Rightarrow> bytes list" where
  "recorder_i420 y ys cbp cbs crp crs w h =
     [copy_plane y ys w h, copy_plane cbp cbs ((w + 1) div 2) ((h + 1) div 2), copy_plane crp crs ((w + 1) div 2) ((h + 1) div 2)]"

definition recorder_nv12 :: "bytes \<Rightarrow> nat \<Rightarrow> bytes \<Rightarrow> nat \<Rightarrow> int \<Rightarrow> int \<Rightarrow> bytes list" where
  "recorder_nv12 y ys uvp uvs w h = [copy_plane y ys w h, copy_plane uvp uvs w ((h + 1) div 2)]"

text \<open>For even sizes the window and the recording are given the same planes.\<close>

lemma same_planes:
  assumes "even w" and "even h"
  shows "picture_of (Push_i420 y ys cbp cbs crp crs w h o1) =
      (case recorder_i420 y ys cbp cbs crp crs w h of [a, b, c] \<Rightarrow> I420_picture a b c w h o1)"
    and "picture_of (Push_nv12 y ys uvp uvs w h o1) = (case recorder_nv12 y ys uvp uvs w h of [a, b] \<Rightarrow> Nv12_picture a b w h o1)"
  using half_up [OF assms(1)] half_up [OF assms(2)] by (simp_all add: recorder_i420_def recorder_nv12_def)

section \<open>The black frame\<close>

definition black_planes :: "bool \<Rightarrow> int \<Rightarrow> int \<Rightarrow> bytes list" where
  "black_planes nv12 w h =
     (let luma = replicate (nat h * nat w) 16; rows = nat (h div 2)
      in if nv12 then [luma, replicate (rows * nat w) 128]
         else [luma, replicate (rows * nat (w div 2)) 128, replicate (rows * nat (w div 2)) 128])"

section \<open>The place of the picture\<close>

definition recorded_place :: "(real \<Rightarrow> real) \<Rightarrow> int \<Rightarrow> int \<Rightarrow> int \<Rightarrow> int \<Rightarrow> int \<times> int \<times> int \<times> int" where
  "recorded_place rnd in_w in_h out_w out_h =
     (let src_ar = rnd (of_int in_w / of_int in_h); dst_ar = rnd (of_int out_w / of_int out_h);
          (fw, fh) = (if dst_ar < src_ar then (out_w, even_down \<lfloor>rnd (of_int out_w / src_ar)\<rfloor>)
                      else (even_down \<lfloor>rnd (of_int out_h * src_ar)\<rfloor>, out_h));
          fit_w = max 2 fw; fit_h = max 2 fh
      in (even_down ((out_w - fit_w) div 2), even_down ((out_h - fit_h) div 2), fit_w, fit_h))"

text \<open>Where the scaler begins to write in each plane, given the length of its rows.\<close>

definition plane_starts :: "bool \<Rightarrow> int \<Rightarrow> int \<Rightarrow> int list \<Rightarrow> int list" where
  "plane_starts nv12 x y strides =
     (if nv12 then [y * strides ! 0 + x, (y div 2) * strides ! 1 + x]
      else [y * strides ! 0 + x, (y div 2) * strides ! 1 + x div 2, (y div 2) * strides ! 2 + x div 2])"

lemma recorded_place_inside:
  assumes r: "rounds rnd" and "0 < in_w" and "0 < in_h" and "2 \<le> out_w" and "out_w \<le> 16384" and "2 \<le> out_h" and "out_h \<le> 16384"
    and "recorded_place rnd in_w in_h out_w out_h = (x, y, fw, fh)"
  shows "0 \<le> x \<and> even x \<and> x + fw \<le> out_w \<and> 0 \<le> y \<and> even y \<and> y + fh \<le> out_h \<and> 2 \<le> fw \<and> 2 \<le> fh \<and> (fw = out_w \<or> fh = out_h)"
proof -
  define a where "a = rnd (of_int in_w / of_int in_h)"
  have pos: "0 \<le> out_w" "0 < out_h" "0 \<le> out_h" using assms(4,6) by auto
  have fit: "2 \<le> fw \<and> fw \<le> out_w \<and> 2 \<le> fh \<and> fh \<le> out_h \<and> (fw = out_w \<or> fh = out_h)"
  proof (cases "rnd (of_int out_w / of_int out_h) < a")
    case True
    note k = divided_side [OF r assms(2,3) pos(1,2) assms(7) less_imp_le [OF True [unfolded a_def]], folded a_def]
    have "\<lfloor>rnd (of_int out_w / a)\<rfloor> \<le> out_h" "0 \<le> \<lfloor>rnd (of_int out_w / a)\<rfloor>"
      using scaled_le [OF r k(1,2) assms(7)] rounds_bounds(3) [OF r k(1)] by simp_all
    moreover have "fw = max 2 out_w" "fh = max 2 (even_down \<lfloor>rnd (of_int out_w / a)\<rfloor>)"
      using assms(8) True by (auto simp: recorded_place_def a_def Let_def)
    ultimately show ?thesis using even_down_bounds [of "\<lfloor>rnd (of_int out_w / a)\<rfloor>"] assms(4,6) by auto
  next
    case False
    then have "out_h = 0 \<or> a \<le> rnd (of_int out_w / of_int out_h)" by simp
    note k = multiplied_side [OF r assms(2,3) pos(1,3) this [unfolded a_def], folded a_def]
    have "\<lfloor>rnd (of_int out_h * a)\<rfloor> \<le> out_w" "0 \<le> \<lfloor>rnd (of_int out_h * a)\<rfloor>"
      using scaled_le [OF r k(1,2) assms(5)] rounds_bounds(3) [OF r k(1)] by simp_all
    moreover have "fw = max 2 (even_down \<lfloor>rnd (of_int out_h * a)\<rfloor>)" "fh = max 2 out_h"
      using assms(8) False by (auto simp: recorded_place_def a_def Let_def)
    ultimately show ?thesis using even_down_bounds [of "\<lfloor>rnd (of_int out_h * a)\<rfloor>"] assms(4,6) by auto
  qed
  have "x = even_down ((out_w - fw) div 2)" "y = even_down ((out_h - fh) div 2)"
    using assms(8) by (auto simp: recorded_place_def Let_def split_def)
  then show ?thesis using fit even_down_bounds [of "(out_w - fw) div 2"] even_down_bounds [of "(out_h - fh) div 2"] by auto
qed

text \<open>The chroma of the picture lies inside the chroma planes, and begins where its luma does.\<close>

lemma chroma_inside:
  fixes x y fw fh out_w out_h :: int
  assumes "even x" and "even y" and "x + fw \<le> out_w" and "y + fh \<le> out_h"
  shows "x div 2 + fw div 2 \<le> out_w div 2 \<and> y div 2 + fh div 2 \<le> out_h div 2 \<and> 2 * (x div 2) = x \<and> 2 * (y div 2) = y"
  using assms by presburger

end
