(* ===== verification/Spec2Isabelle.thy ===== *)
theory Spec2Isabelle
  imports Rtsp NalUnits Sdp Daap ReceiverName RtpFlush NtpClock H264Sps Crypto PairVerify StreamKeys Audio Sockets Mirror Streams Playlists Renderer Plists Info HlsRegistry HlsRoutes HlsPlayback HlsServer SetupPlist Routes TcpServer DacpRemote Server Settings Net Mdns MainLoop Recorder Usb TextRuns Window Decoder AacDecoder Player Firewall Gpu Stage Sound NtpPeer Avahi DacpWire RecorderPicture
begin

text \<open>
  A model of AirPlay-Windows, an AirPlay 2 receiver in C++ (the files named below are those under
  src/ of the repository), with the theorems that say what its parts do.

  The program. A phone finds the receiver by mDNS, opens TCP connections to it and speaks a mixture
  of RTSP and HTTP on them. A connection is read by \<open>RequestReader\<close>, answered by \<open>dispatch\<close>, and may
  come to hold a stream session: an audio receiver with its RTP sockets, a mirror listener with its
  TCP socket, and the probes that synchronise the clocks. A video address may be handed over as an
  HLS playlist instead, whose parts the receiver asks for over a reverse channel and serves to a
  local player. What is decoded reaches one window, and a recorder.

  Parts and theories.

  \<^item> Prelude: characters, strings, numbers in decimal, integers in network order, reachable states
    and the locale \<open>invariant_of\<close> that every invariant of the development instantiates.
  \<^item> Rtsp: \<open>RequestReader\<close> and \<open>Response\<close> (airplay/rtsp_parser). The reader works on blocks as recv
    delivers them; \<open>parse_message\<close> is what it promises, the first message of the stream, and
    \<open>reader_refines_framing\<close> the refinement.
  \<^item> Sdp, Daap, ReceiverName, RtpFlush, H264Sps, NalUnits: the parsers (airplay/sdp, daap,
    receiver_name, h264_sps, h264_nal, audio/rtp_flush), each against an encoder or a reference
    definition of what it accepts. The encoder of H264Sps writes every syntax element of the standard,
    scaling matrices included; the size it compares with uses the crop units of the standard.
  \<^item> Crypto, PairVerify, StreamKeys: the cryptographic library as a record of operations with its
    documented laws; pair-verify, the FairPlay rounds, the mirror cipher and the identity (crypto/).
  \<^item> NtpClock: the estimate of the sender's clock (airplay/ntp_clock.h, ntp_client).
  \<^item> Audio: the audio receiver between packet and sound device (audio/audio_receiver): jitter queue,
    deduplication, flush, pause and resume, playout. Times are nanoseconds as integers, samples and
    RTP numbers words.
  \<^item> Sockets, Mirror, Streams: the descriptors of the process as a kernel with a script of answers,
    the mirror listener and the stream session (airplay/mirror_listener, streams). The locale
    \<open>socket_owner\<close> is the contract of whatever owns descriptors.
  \<^item> Plists, SetupPlist, Info: the nodes of libplist, the SETUP messages and /info.
  \<^item> Playlists, HlsRegistry, HlsRoutes, HlsPlayback, HlsServer: the playlists, the registries behind
    the locale \<open>registry_ops\<close>, the HLS requests, their interleavings with the fetches of the local
    server as an inductive relation, and that server. A condensed playlist is specified from the sender's
    side (\<open>segment\<close>, \<open>full_address\<close>), and what the server sends is read back as an HTTP client reads it
    (\<open>answer_head\<close>, \<open>answer_body\<close>).
  \<^item> Renderer, TextRuns, Window, Stage: the window (video/video_renderer, cover_art). Renderer is what the
    producers leave for the render loop; TextRuns the division of a text into runs of one font; Window the
    keys, the layers, the settings and the place of the window; Stage the textures of the loop from pass to
    pass, the place of the picture, the statistics and what the render thread takes and gives back.
  \<^item> Decoder, AacDecoder, Sound: what comes between the streams and the devices: the packets for the
    video decoder and the choice between graphics card and processor (video/h264_decoder), the codec
    configuration and the blocks of samples (audio/aac_decoder), the sound device (audio/audio_output).
  \<^item> Gpu: the conversion of decoded surfaces with the fence of the two devices, and the placing of a
    picture in a recording on the graphics card (video/gpu_video, gpu_recording).
  \<^item> Recorder, RecorderPicture: the queues, the choice of the encoder, the timeline and the end of a
    recording, and the pictures that the processor prepares (video/video_recorder).
  \<^item> Player: the two HLS players (video/hls_player, hls_player_gstreamer) behind the locale \<open>stoppable\<close>. The
    thread of the first moves in small steps: each look at the flag and each call of the library is one, and
    a call that waits is aborted only through the interrupt callback.
  \<^item> Settings, Net, Mdns, Avahi, NtpPeer: the settings file and its atomic replacement (settings), the
    socket helpers (net/socket), the advertisement on Windows and on Linux (mdns/mdns_service), the thread
    of the NTP client. What the network has heard of names (\<open>hears\<close> in Mdns) counts a name as gone only when
    the service of Windows has answered, so theorems about it assume answers in time.
  \<^item> MainLoop: the loop of main.cpp, which compares the live settings with what is saved and advertised.
  \<^item> Usb, Firewall: the devices on USB and their pair records (usb/), the firewall rules, the monitor and
    the only instance (platform/).
  \<^item> Routes: every handler and the route table (airplay/routes) over the state of a connection.
  \<^item> TcpServer, DacpRemote, DacpWire, Server: the threads of the socket server as an interleaving of steps,
    of which those that must happen are set apart (\<open>owed_step\<close>: a handler returns because it was cancelled and
    its socket shut down),
    the remote control of the sender with its exchange on the wire, and a connection from its first request
    to what it releases.

  How the model corresponds to the code. A struct is a record with the fields of the source, a
  variable that may hold no object an option, an early return a branch; what a handler does to the
  shared state is returned with its answer. What the environment decides (random keys, clocks, the
  outcome of library and system calls) is an argument, a field of an environment record or a script
  of answers; no theorem assumes that a call succeeds unless it says so. Loops are recursions on the
  data with their termination proofs; the loops that a stream drives recurse on the list of blocks
  or events, so no fuel is used except for the walk over DMAP documents, whose bound
  (\<open>daap_always_returns\<close>) is proved. Threads are steps of a relation at the granularity of the locks
  of the source.

  Floating point is modelled in two ways: where rounding could matter (the place of a picture, the gain of a
  sample) every operation takes its rounding as an argument, of which a theorem assumes the relative error
  of single precision; averages for display are real numbers. The volume may also be infinite or not a number
  (\<open>float_number\<close> in Sound), and the power function is an argument with its relative error.

  Not modelled: the libraries themselves (FFmpeg, GStreamer, SDL, Direct3D, libplist, OpenSSL, Avahi and the
  services of Windows), whose answers are arguments; the widgets and icons of the window (video/receiver_ui.h
  and the ImGui calls of video/video_renderer.cpp), which are constants handed to a library; the dialog that
  chooses a folder; logging (log.cpp). The kernel objects that find another instance of the program are
  arguments of the decision in Firewall.
\<close>

end
